(* ===== verification/Prelude.thy ===== *)
theory Prelude
  imports Main "HOL-Library.Word"
begin

text \<open>
  Shared vocabulary of the development: the machine types of \<^verbatim>\<open>src/src/types.h\<close>, the ways
  in which a C++ function of the program can fail (an \<^verbatim>\<open>_ASSERT\<close> that aborts the
  process, a thrown \<^verbatim>\<open>std::exception\<close>, a loop that spins forever), a bind for computations that can fail, and
  the list arithmetic that the chunked file layout needs (ceiling division, overwriting
  a segment of a list, lists of equally long blocks).
\<close>

section \<open>Machine types\<close>

type_synonym byte = "8 word"
type_synonym u32 = "32 word"
type_synonym u64 = "64 word"

named_theorems res_simps "rewriting of computations that can fail"

section \<open>Computations that can fail\<close>

text \<open>
  \<open>AssertFail\<close> is \<^verbatim>\<open>assertfail\<close> of main.cpp: the message is logged and
  \<^verbatim>\<open>std::abort\<close> ends the process, no handler can catch it. \<open>StdExn w\<close> is a thrown
  exception derived from \<^verbatim>\<open>std::exception\<close>, with the text of its constructor's
  first word; a \<^verbatim>\<open>catch(std::exception &)\<close> block catches it. \<open>Hang\<close> marks a
  loop that never ends, \<open>Undefined\<close> a C++ operation without a defined meaning (\<^verbatim>\<open>back()\<close> of an
  empty vector). \<open>Fragmented\<close> is the one assertion failure that the properties allow:
  the abort in \<^verbatim>\<open>bucketaccounting::releaseBuckets\<close> that its comment announces
  (``If we find nothing to delete we crash due to fragmentation'').
\<close>

datatype exn = AssertFail | Fragmented | StdExn string | Hang | Undefined

type_synonym 'a res = "exn + 'a"

definition bindR :: "'a res \<Rightarrow> ('a \<Rightarrow> 'b res) \<Rightarrow> 'b res" where
  "bindR m f = (case m of Inl e \<Rightarrow> Inl e | Inr x \<Rightarrow> f x)"

definition assertR :: "bool \<Rightarrow> unit res" where
  "assertR b = (if b then Inr () else Inl AssertFail)"

definition assertAs :: "exn \<Rightarrow> bool \<Rightarrow> unit res" where
  "assertAs e b = (if b then Inr () else Inl e)"

lemma assertAs_simps [simp, res_simps]:
  "assertAs e True = Inr ()"
  "assertAs e False = Inl e"
  "assertAs e b = Inr u \<longleftrightarrow> b"
  by (simp_all add: assertAs_def)

lemma bindR_simps [simp, res_simps]:
  "bindR (Inl e) f = Inl e"
  "bindR (Inr x) f = f x"
  by (simp_all add: bindR_def)

lemma bindR_eq_Inr [res_simps]:
  "bindR m f = Inr y \<longleftrightarrow> (\<exists>x. m = Inr x \<and> f x = Inr y)"
  by (cases m) auto

lemma bindR_eq_Inl [res_simps]:
  "bindR m f = Inl e \<longleftrightarrow> m = Inl e \<or> (\<exists>x. m = Inr x \<and> f x = Inl e)"
  by (cases m) auto

lemma bindR_InrI: "m = Inr x \<Longrightarrow> f x = r \<Longrightarrow> bindR m f = r"
  by simp

lemma assertR_simps [simp, res_simps]:
  "assertR True = Inr ()"
  "assertR False = Inl AssertFail"
  "assertR b = Inr u \<longleftrightarrow> b"
  by (simp_all add: assertR_def)

lemma bindR_cong [fundef_cong]:
  "m = m' \<Longrightarrow> (\<And>x. m' = Inr x \<Longrightarrow> f x = g x) \<Longrightarrow> bindR m f = bindR m' g"
  by (cases m') auto

section \<open>Ceiling division\<close>

text \<open>
  \<^verbatim>\<open>n/c; if(n % c > 0) ++\<close> is the pattern by which the code counts the chunks that
  \<open>n\<close> bytes occupy.
\<close>

definition ceildiv :: "nat \<Rightarrow> nat \<Rightarrow> nat" where
  "ceildiv n c = n div c + (if 0 < n mod c then 1 else 0)"

lemma ceildiv_0 [simp]: "ceildiv 0 c = 0"
  by (simp add: ceildiv_def)

lemma ceildiv_mult_ge:
  assumes "0 < c" shows "n \<le> ceildiv n c * c"
proof -
  have "n = n div c * c + n mod c" by simp
  moreover have "n mod c < c" using assms by simp
  ultimately have "n \<le> (n div c + 1) * c" by (simp only: add_mult_distrib)
  then show ?thesis by (auto simp: ceildiv_def)
qed

lemma ceildiv_le_iff:
  assumes "0 < c" shows "ceildiv n c \<le> k \<longleftrightarrow> n \<le> k * c"
proof
  assume "ceildiv n c \<le> k"
  then have "ceildiv n c * c \<le> k * c" by simp
  with ceildiv_mult_ge [OF assms, of n] show "n \<le> k * c" by linarith
next
  assume le: "n \<le> k * c"
  show "ceildiv n c \<le> k"
  proof (cases "0 < n mod c")
    case True
    have "n div c < k"
    proof (rule ccontr)
      assume "\<not> n div c < k"
      then have "k * c \<le> n div c * c" by simp
      moreover have "n = n div c * c + n mod c" by simp
      ultimately show False using le True by linarith
    qed
    with True show ?thesis by (simp add: ceildiv_def)
  next
    case False
    from le have "n div c \<le> k * c div c" by (rule div_le_mono)
    with False assms show ?thesis by (simp add: ceildiv_def)
  qed
qed

lemma ceildiv_mono: "0 < c \<Longrightarrow> m \<le> n \<Longrightarrow> ceildiv m c \<le> ceildiv n c"
  using ceildiv_mult_ge [of c n] by (simp add: ceildiv_le_iff)

lemma ceildiv_mult [simp]: "0 < c \<Longrightarrow> ceildiv (k * c) c = k"
  by (simp add: ceildiv_def)

lemma ceildiv_add_mult:
  assumes "0 < c" shows "ceildiv (q * c + n) c = q + ceildiv n c"
  using assms by (simp add: ceildiv_def)

lemma ceildiv_pos: "0 < c \<Longrightarrow> 0 < n \<Longrightarrow> 0 < ceildiv n c"
  using ceildiv_mult_ge [of c n] by (cases "ceildiv n c") auto

section \<open>Overwriting a segment of a list\<close>

definition list_splice :: "'a list \<Rightarrow> nat \<Rightarrow> 'a list \<Rightarrow> 'a list" where
  "list_splice xs off ys = take off xs @ ys @ drop (off + length ys) xs"

lemma length_list_splice [simp]:
  "off + length ys \<le> length xs \<Longrightarrow> length (list_splice xs off ys) = length xs"
  by (simp add: list_splice_def)

lemma list_splice_Nil [simp]: "list_splice xs off [] = xs"
  by (simp add: list_splice_def)

lemma list_splice_all: "length ys = length xs \<Longrightarrow> list_splice xs 0 ys = ys"
  by (simp add: list_splice_def)

lemma nth_list_splice:
  assumes "off + length ys \<le> length xs" "i < length xs"
  shows "list_splice xs off ys ! i =
    (if off \<le> i \<and> i < off + length ys then ys ! (i - off) else xs ! i)"
  using assms by (auto simp: list_splice_def nth_append)

lemma list_splice_append_right:
  "length xs \<le> off \<Longrightarrow> list_splice (xs @ zs) off ys = xs @ list_splice zs (off - length xs) ys"
  by (simp add: list_splice_def)

lemma list_splice_append_left:
  assumes "off + length ys \<le> length xs"
  shows "list_splice (xs @ zs) off ys = list_splice xs off ys @ zs"
  using assms by (simp add: list_splice_def)

lemma list_splice_append_both:
  assumes "off \<le> length xs" "length xs = off + length us"
  shows "list_splice (xs @ zs) off (us @ vs) = list_splice xs off us @ list_splice zs 0 vs"
  using assms by (simp add: list_splice_def)

lemma take_list_splice:
  "off + length ys \<le> n \<Longrightarrow> take n (list_splice xs off ys) = list_splice (take n xs) off ys"
  by (cases "n = off") (auto simp: list_splice_def drop_take min_def)

section \<open>Lists of equally long blocks\<close>

definition blocks_of :: "nat \<Rightarrow> 'a list list \<Rightarrow> bool" where
  "blocks_of c xss \<longleftrightarrow> (\<forall>xs \<in> set xss. length xs = c)"

lemma blocks_of_simps [simp]:
  "blocks_of c []"
  "blocks_of c (xs # xss) \<longleftrightarrow> length xs = c \<and> blocks_of c xss"
  "blocks_of c (xss @ yss) \<longleftrightarrow> blocks_of c xss \<and> blocks_of c yss"
  by (auto simp: blocks_of_def)

lemma length_concat_blocks: "blocks_of c xss \<Longrightarrow> length (concat xss) = length xss * c"
  by (induction xss) auto

lemma take_concat_blocks:
  "blocks_of c xss \<Longrightarrow> take (k * c) (concat xss) = concat (take k xss)"
proof (induction xss arbitrary: k)
  case (Cons xs xss)
  then show ?case by (cases k) auto
qed simp

lemma drop_concat_blocks:
  "blocks_of c xss \<Longrightarrow> drop (k * c) (concat xss) = concat (drop k xss)"
proof (induction xss arbitrary: k)
  case (Cons xs xss)
  then show ?case by (cases k) auto
qed simp

lemma blocks_of_take: "blocks_of c xss \<Longrightarrow> blocks_of c (take k xss)"
  by (auto simp: blocks_of_def dest: in_set_takeD)

lemma blocks_of_drop: "blocks_of c xss \<Longrightarrow> blocks_of c (drop k xss)"
  by (auto simp: blocks_of_def dest: in_set_dropD)

lemma blocks_of_replicate [simp]: "blocks_of c (replicate n xs) \<longleftrightarrow> n = 0 \<or> length xs = c"
  by (auto simp: blocks_of_def)

section \<open>Maps\<close>

lemma map_upd_ran_subset: "ran (m(k \<mapsto> v)) \<subseteq> insert v (ran m)"
  by (auto simp: ran_def split: if_splits)

end
