(* ===== verification/Mode.thy ===== *)
theory Mode
  imports Prelude
begin

unbundle bit_operations_syntax

text \<open>
  Mode words and the small enumerations of the file system:
  \<^verbatim>\<open>src/src/modules/filesystem/mode.h\<close> (class \<^verbatim>\<open>mode\<close>), \<^verbatim>\<open>error.h\<close>
  (\<^verbatim>\<open>EE\<close>, \<^verbatim>\<open>error\<close>), \<^verbatim>\<open>types.h\<close> (\<^verbatim>\<open>access\<close>,
  \<^verbatim>\<open>timeHolder\<close>) and \<^verbatim>\<open>context.h\<close>.
\<close>

section \<open>Mode words (mode.h)\<close>

type_synonym my_mode_t = u32
type_synonym my_uid_t = u32
type_synonym my_gid_t = u32

definition mode_TYPE :: my_mode_t where "mode_TYPE = 0xF000"
definition mode_TYPE_LNK :: my_mode_t where "mode_TYPE_LNK = 0xA000"
definition mode_TYPE_REG :: my_mode_t where "mode_TYPE_REG = 0x8000"
definition mode_TYPE_DIR :: my_mode_t where "mode_TYPE_DIR = 0x4000"
definition mode_TYPE_FIFO :: my_mode_t where "mode_TYPE_FIFO = 0x1000"
definition mode_FLAG_SUID :: my_mode_t where "mode_FLAG_SUID = 0x800"
definition mode_FLAG_SGID :: my_mode_t where "mode_FLAG_SGID = 0x400"
definition mode_FLAG_SVTX :: my_mode_t where "mode_FLAG_SVTX = 0x200"

lemmas mode_consts = mode_TYPE_def mode_TYPE_LNK_def mode_TYPE_REG_def mode_TYPE_DIR_def
  mode_TYPE_FIFO_def mode_FLAG_SUID_def mode_FLAG_SGID_def mode_FLAG_SVTX_def

text \<open>The member functions, each on the word that the atomic \<^verbatim>\<open>_inner\<close> holds.\<close>

definition mode_type :: "my_mode_t \<Rightarrow> my_mode_t" where
  "mode_type inner = inner AND mode_TYPE"

definition mode_setType :: "my_mode_t \<Rightarrow> my_mode_t \<Rightarrow> my_mode_t" where
  "mode_setType inner t = inner OR (t AND mode_TYPE)"

definition mode_set :: "my_mode_t \<Rightarrow> my_mode_t \<Rightarrow> my_mode_t" where
  "mode_set inner f = inner OR f"

definition mode_clear :: "my_mode_t \<Rightarrow> my_mode_t \<Rightarrow> my_mode_t" where
  "mode_clear inner f = (inner OR f) XOR f"

text \<open>Setting and then flipping bits is clearing them, whatever they were before.\<close>

lemma mode_clear_eq: "mode_clear m f = m AND NOT f"
  unfolding mode_clear_def by (rule bit_word_eqI) (auto simp: bit_simps)

lemma mode_clear_idem [simp]: "mode_clear (mode_clear m f) f = mode_clear m f"
  by (simp add: mode_clear_eq and.assoc)

lemma mode_clear_disjoint:
  assumes "f AND g = 0" shows "mode_clear m f AND g = m AND g"
proof (rule bit_word_eqI)
  fix n assume n: "n < LENGTH(32)"
  have "\<not> (bit f n \<and> bit g n)"
    using arg_cong [OF assms, of "\<lambda>w. bit w n"] by (simp add: bit_simps)
  then show "bit (mode_clear m f AND g) n = bit (m AND g) n"
    using n by (auto simp: mode_clear_eq bit_simps)
qed

lemma mode_clear_type:
  "f AND mode_TYPE = 0 \<Longrightarrow> mode_type (mode_clear m f) = mode_type m"
  by (simp add: mode_type_def mode_clear_disjoint)

lemma mode_clear_bits: "mode_clear m f AND f = 0"
  by (rule bit_word_eqI) (auto simp: mode_clear_eq bit_simps)

section \<open>Access requests (types.h)\<close>

datatype access = ANONE | AX | AW | AWX | AR | ARX | ARW | ARWX

primrec access_bits :: "access \<Rightarrow> my_mode_t" where
  "access_bits ANONE = 0"
| "access_bits AX = 1"
| "access_bits AW = 2"
| "access_bits AWX = 3"
| "access_bits AR = 4"
| "access_bits ARX = 5"
| "access_bits ARW = 6"
| "access_bits ARWX = 7"

section \<open>Error codes (error.h)\<close>

datatype EE =
    EE_ok | EE_name_too_long | EE_invalid_syscall | EE_not_empty | EE_entity_not_found
  | EE_access_denied | EE_permission_denied | EE_exists | EE_too_big | EE_io_error

text \<open>The errno values that the enumerators stand for on Linux.\<close>

primrec error_int :: "EE \<Rightarrow> int" where
  "error_int EE_ok = 0"
| "error_int EE_name_too_long = 36"
| "error_int EE_invalid_syscall = 38"
| "error_int EE_not_empty = 39"
| "error_int EE_entity_not_found = 2"
| "error_int EE_access_denied = 13"
| "error_int EE_permission_denied = 1"
| "error_int EE_exists = 17"
| "error_int EE_too_big = 27"
| "error_int EE_io_error = 5"

text \<open>\<^verbatim>\<open>operator bool\<close>: an error object is true exactly when it is not \<^verbatim>\<open>ok\<close>.\<close>

definition error_bool :: "EE \<Rightarrow> bool" where
  "error_bool e \<longleftrightarrow> e \<noteq> EE_ok"

lemma error_int_inj: "error_int e = error_int e' \<Longrightarrow> e = e'"
  by (cases e; cases e'; simp)

lemma error_bool_simps [simp]: "error_bool e \<longleftrightarrow> e \<noteq> EE_ok"
  by (simp add: error_bool_def)

section \<open>Times and callers\<close>

record timeHolder =
  tv_sec :: int
  tv_nsec :: int

record fs_context =
  ctx_uid :: my_uid_t
  ctx_gid :: my_gid_t
  ctx_gids :: "my_gid_t set"

end
