(* ===== verification/Chunk.thy ===== *)
theory Chunk
  imports Prelude
begin

unbundle bit_operations_syntax

text \<open>
  The two smallest data types of the storage layer: \<^verbatim>\<open>bucketIndex_t\<close>
  (\<^verbatim>\<open>src/src/modules/filesystem/hash.h\<close>), the 64-bit name of a slot in a bucket, and
  \<^verbatim>\<open>chunk\<close> (\<^verbatim>\<open>chunk.h\<close>, \<^verbatim>\<open>chunk.cpp\<close>), a block of
  \<^verbatim>\<open>chunkSize\<close> bytes.
\<close>

section \<open>Sizes (chunk.h)\<close>

definition chunkSize :: nat where "chunkSize = 4096"
definition chunksInBucket :: nat where "chunksInBucket = 256"

lemma chunkSize_pos [simp]: "0 < chunkSize"
  by (simp add: chunkSize_def)

lemma chunkSize_neq [simp]: "chunkSize \<noteq> 0" "chunkSize \<noteq> Suc 0"
  by (simp_all add: chunkSize_def)

lemma chunksInBucket_pos [simp]: "0 < chunksInBucket"
  by (simp add: chunksInBucket_def)

section \<open>Slot names (hash.h, bucketIndex_t)\<close>

text \<open>
  The union lays an 8-bit \<^verbatim>\<open>m_index\<close> and a 56-bit \<^verbatim>\<open>m_bucket\<close> over one
  64-bit word. The word level definitions follow the bit fields; the rest of the model
  counts with the unsigned values, and the lemmas below say that the two agree.
\<close>

definition bucketIndex_pack :: "u64 \<Rightarrow> u64 \<Rightarrow> u64" where
  "bucketIndex_pack bck i = push_bit 8 (take_bit 56 bck) OR take_bit 8 i"

definition bucketIndex_bucket :: "u64 \<Rightarrow> u64" where
  "bucketIndex_bucket full = drop_bit 8 full"

definition bucketIndex_index :: "u64 \<Rightarrow> u64" where
  "bucketIndex_index full = take_bit 8 full"

type_synonym bucketIndex_t = nat

definition bucketIndex :: "nat \<Rightarrow> nat \<Rightarrow> bucketIndex_t" where
  "bucketIndex bck i = (bck mod 2 ^ 56) * 256 + i mod 256"

definition bucket_of :: "bucketIndex_t \<Rightarrow> nat" where
  "bucket_of full = full div 256"

definition index_of :: "bucketIndex_t \<Rightarrow> nat" where
  "index_of full = full mod 256"

lemma unat_push_or:
  fixes a b :: u64
  assumes "unat b < 256" "unat a < 2 ^ 56"
  shows "unat (push_bit 8 a OR b) = unat a * 256 + unat b"
proof -
  have disj: "push_bit 8 a AND b = 0"
  proof (rule bit_word_eqI)
    fix n assume "n < LENGTH(64)"
    have "b = take_bit 8 b"
      unfolding word_unat_eq_iff unsigned_take_bit_eq using assms(1) by (simp add: take_bit_eq_mod)
    then have "bit b n \<Longrightarrow> n < 8" by (metis bit_take_bit_iff)
    then show "bit (push_bit 8 a AND b) n = bit 0 n"
      by (auto simp: bit_simps)
  qed
  have "push_bit 8 a OR b = push_bit 8 a + b"
    using disj by (simp add: disjunctive_add_eq_or)
  moreover have "unat (push_bit 8 a) = unat a * 256"
    using assms(2) by (simp add: push_bit_eq_mult unat_word_ariths)
  ultimately show ?thesis
    using assms by (simp add: unat_word_ariths)
qed

lemma bucketIndex_pack_nat:
  "unat (bucketIndex_pack b i) = bucketIndex (unat b) (unat i)"
proof -
  have t56: "unat (take_bit 56 b) = unat b mod 2 ^ 56"
    unfolding unsigned_take_bit_eq by (simp add: take_bit_eq_mod)
  have t8: "unat (take_bit 8 i) = unat i mod 256"
    unfolding unsigned_take_bit_eq by (simp add: take_bit_eq_mod)
  have "unat (push_bit 8 (take_bit 56 b) OR take_bit 8 i) =
      unat (take_bit 56 b) * 256 + unat (take_bit 8 i)"
    by (rule unat_push_or) (simp_all add: t56 t8)
  then show ?thesis
    by (simp add: bucketIndex_pack_def bucketIndex_def t56 t8)
qed

lemma bucketIndex_bucket_nat: "unat (bucketIndex_bucket w) = bucket_of (unat w)"
  unfolding bucketIndex_bucket_def bucket_of_def unat_drop_bit_eq
  by (simp add: drop_bit_eq_div)

lemma bucketIndex_index_nat: "unat (bucketIndex_index w) = index_of (unat w)"
  unfolding bucketIndex_index_def index_of_def unsigned_take_bit_eq
  by (simp add: take_bit_eq_mod)

lemma bucket_of_bucketIndex [simp]: "b < 2 ^ 56 \<Longrightarrow> bucket_of (bucketIndex b i) = b"
  by (simp add: bucket_of_def bucketIndex_def)

lemma index_of_bucketIndex [simp]: "i < 256 \<Longrightarrow> index_of (bucketIndex b i) = i"
  by (simp add: index_of_def bucketIndex_def)

lemma index_of_less [simp]: "index_of n < chunksInBucket"
  by (simp add: index_of_def chunksInBucket_def)

lemma bucketIndex_split: "n < 2 ^ 64 \<Longrightarrow> bucketIndex (bucket_of n) (index_of n) = n"
  by (simp add: bucketIndex_def bucket_of_def index_of_def)

lemma bucket_index_eqI: "bucket_of m = bucket_of n \<Longrightarrow> index_of m = index_of n \<Longrightarrow> m = n"
  unfolding bucket_of_def index_of_def by (metis div_mult_mod_eq)

lemma bucketIndex_inject:
  assumes "b < 2 ^ 56" "i < 256" "b' < 2 ^ 56" "i' < 256"
  shows "bucketIndex b i = bucketIndex b' i' \<longleftrightarrow> b = b' \<and> i = i'"
  by (metis assms bucket_of_bucketIndex index_of_bucketIndex)

lemma bucketIndex_less: "bucketIndex b i < 2 ^ 64"
proof -
  have "b mod 2 ^ 56 < 2 ^ 56" by simp
  moreover have "i mod 256 < 256" by simp
  ultimately show ?thesis unfolding bucketIndex_def by simp
qed

text \<open>The constructor \<^verbatim>\<open>fs::fs\<close> asserts two values of the layout.\<close>

lemma bucketIndex_layout: "bucketIndex 1000 1 = 256001" "bucketIndex 1 255 = 511"
  by (simp_all add: bucketIndex_def)

definition fs_rootIndex :: bucketIndex_t where "fs_rootIndex = bucketIndex 1 0"
definition fs_metaIndex :: bucketIndex_t where "fs_metaIndex = bucketIndex 1 1"

section \<open>Chunks (chunk.cpp)\<close>

type_synonym chunk = "byte list"

definition zero_chunk :: chunk where
  "zero_chunk = replicate chunkSize 0"

definition chunk_ok :: "chunk \<Rightarrow> bool" where
  "chunk_ok c \<longleftrightarrow> length c = chunkSize"

definition chunk_read :: "chunk \<Rightarrow> nat \<Rightarrow> nat \<Rightarrow> byte list res" where
  "chunk_read c off sz =
     (if off + sz \<le> length c then Inr (take sz (drop off c))
      else Inl (StdExn ''out_of_range''))"

text \<open>
  \<^verbatim>\<open>write\<close> copies the whole array into a fresh chunk and then the input over it; the
  input's \<^verbatim>\<open>size\<close> bytes are the argument list.
\<close>

definition chunk_write :: "chunk \<Rightarrow> nat \<Rightarrow> byte list \<Rightarrow> chunk res" where
  "chunk_write c off inp =
     (if off + length inp \<le> length c then Inr (list_splice c off inp)
      else Inl (StdExn ''out_of_range''))"

definition chunk_clone :: "chunk \<Rightarrow> chunk" where
  "chunk_clone c = c"

text \<open>\<^verbatim>\<open>newChunk(size, input)\<close>; a null \<^verbatim>\<open>input\<close> is \<open>None\<close>.\<close>

definition newChunk :: "byte list option \<Rightarrow> chunk res" where
  "newChunk input =
     (case input of
        None \<Rightarrow> Inr zero_chunk
      | Some inp \<Rightarrow>
          if length inp = 0 then Inr zero_chunk
          else if length inp \<le> chunkSize then Inr (list_splice zero_chunk 0 inp)
          else Inl (StdExn ''out_of_range''))"

text \<open>
  \<^verbatim>\<open>compareChunk\<close> walks over both arrays in steps of a \<^verbatim>\<open>uint64_t\<close>, that is
  of eight bytes, and stops at the first difference.
\<close>

fun compareChunk_loop :: "nat \<Rightarrow> chunk \<Rightarrow> chunk \<Rightarrow> bool" where
  "compareChunk_loop 0 A B = True"
| "compareChunk_loop (Suc n) A B =
     (if take 8 A \<noteq> take 8 B then False else compareChunk_loop n (drop 8 A) (drop 8 B))"

definition compareChunk :: "chunk \<Rightarrow> chunk \<Rightarrow> bool" where
  "compareChunk A B = compareChunk_loop (chunkSize div 8) A B"

lemma chunk_ok_zero [simp]: "chunk_ok zero_chunk"
  by (simp add: chunk_ok_def zero_chunk_def)

lemma chunk_write_ok:
  "chunk_ok c \<Longrightarrow> off + length inp \<le> chunkSize \<Longrightarrow>
     chunk_write c off inp = Inr (list_splice c off inp) \<and> chunk_ok (list_splice c off inp)"
  by (simp add: chunk_write_def chunk_ok_def)

lemma chunk_read_ok:
  "chunk_ok c \<Longrightarrow> off + sz \<le> chunkSize \<Longrightarrow> chunk_read c off sz = Inr (take sz (drop off c))"
  by (simp add: chunk_read_def chunk_ok_def)

lemma compareChunk_loop_iff:
  "compareChunk_loop n A B \<longleftrightarrow> take (8 * n) A = take (8 * n) B"
proof (induction n arbitrary: A B)
  case (Suc n)
  have halves: "take (8 * Suc n) Z = take 8 Z @ take (8 * n) (drop 8 Z)" for Z :: chunk
    by (simp add: take_add [symmetric])
  show ?case
  proof (cases "take 8 A = take 8 B")
    case True
    then show ?thesis by (simp only: compareChunk_loop.simps Suc halves) simp
  next
    case False
    have "take (8 * Suc n) A \<noteq> take (8 * Suc n) B"
    proof
      assume "take (8 * Suc n) A = take (8 * Suc n) B"
      then have "take 8 (take (8 * Suc n) A) = take 8 (take (8 * Suc n) B)" by (rule arg_cong)
      with False show False by simp
    qed
    with False show ?thesis by simp
  qed
qed simp

lemma compareChunk_iff: "chunk_ok A \<Longrightarrow> chunk_ok B \<Longrightarrow> compareChunk A B \<longleftrightarrow> A = B"
  by (simp add: compareChunk_def compareChunk_loop_iff chunk_ok_def chunkSize_def)

end
