(* ===== verification/Containers.thy ===== *)
theory Containers
  imports Prelude
begin

text \<open>
  The two containers that the rest of the program shares:
  \<^verbatim>\<open>src/src/modules/util/atomic_shared_ptr_list.h\<close>, the list of chunk references of a
  file, and \<^verbatim>\<open>protected_unordered_map.h\<close>, the map behind every cache and index. Each
  operation is one step here. For the map its mutex makes it so; \<open>getRange\<close> and \<open>updateRange\<close> hold the mutex
  of the list only shared, and theory \<open>File_Threads\<close> has them as loads and stores of single elements.
  Each container has a locale for what its clients rely on, interpreted on the model.
\<close>

section \<open>atomic_shared_ptr_list\<close>

text \<open>A pointer to the element is modelled by a value of \<open>'a\<close>, a null pointer by \<open>None\<close>.\<close>

record 'a ptr_list =
  pl_list :: "'a list"
  pl_size :: nat

definition plist_new :: "'a ptr_list" where
  "plist_new = \<lparr>pl_list = [], pl_size = 0\<rparr>"

definition plist_getSize :: "'a ptr_list \<Rightarrow> nat" where
  "plist_getSize l = pl_size l"

fun load_from :: "'a list \<Rightarrow> nat \<Rightarrow> nat \<Rightarrow> 'a list" where
  "load_from xs offset 0 = []"
| "load_from xs offset (Suc n) = xs ! offset # load_from xs (Suc offset) n"

definition plist_getRange :: "'a ptr_list \<Rightarrow> nat \<Rightarrow> nat \<Rightarrow> 'a list" where
  "plist_getRange l fromItem numItems =
     (if fromItem + numItems \<le> pl_size l then load_from (pl_list l) fromItem numItems else [])"

definition plist_getAll :: "'a ptr_list \<Rightarrow> 'a list" where
  "plist_getAll l = load_from (pl_list l) 0 (pl_size l)"

fun store_from :: "'a list \<Rightarrow> nat \<Rightarrow> 'a list \<Rightarrow> 'a list" where
  "store_from xs offset [] = xs"
| "store_from xs offset (i # is) = store_from (xs[offset := i]) (Suc offset) is"

definition plist_updateRange :: "'a ptr_list \<Rightarrow> nat \<Rightarrow> 'a list \<Rightarrow> bool \<times> 'a ptr_list" where
  "plist_updateRange l fromItem newItems =
     (if fromItem + length newItems \<le> pl_size l
      then (True, l\<lparr>pl_list := store_from (pl_list l) fromItem newItems\<rparr>)
      else (False, l))"

text \<open>\<^verbatim>\<open>std::vector::resize(n, x)\<close>.\<close>

definition vec_resize :: "'a list \<Rightarrow> nat \<Rightarrow> 'a \<Rightarrow> 'a list" where
  "vec_resize xs n x = take n xs @ replicate (n - length xs) x"

definition plist_truncateAndReturn ::
    "'a ptr_list \<Rightarrow> nat \<Rightarrow> 'a \<Rightarrow> 'a option list \<times> 'a ptr_list" where
  "plist_truncateAndReturn l newSize newItem =
     (let ret = (if newSize < pl_size l
                 then map Some (load_from (pl_list l) newSize (pl_size l - newSize))
                 else if pl_size l < newSize then replicate (newSize - pl_size l) None
                 else [])
      in (ret, \<lparr>pl_list = vec_resize (pl_list l) newSize newItem, pl_size = newSize\<rparr>))"

definition plist_swap :: "'a ptr_list \<Rightarrow> 'a list \<Rightarrow> 'a list \<times> 'a ptr_list" where
  "plist_swap l newList = (pl_list l, \<lparr>pl_list = newList, pl_size = length newList\<rparr>)"

text \<open>The cached \<^verbatim>\<open>_size\<close> is the length of the vector.\<close>

definition plist_inv :: "'a ptr_list \<Rightarrow> bool" where
  "plist_inv l \<longleftrightarrow> pl_size l = length (pl_list l)"

lemma length_load_from [simp]: "length (load_from xs off n) = n"
  by (induction n arbitrary: off) auto

lemma load_from_eq: "off + n \<le> length xs \<Longrightarrow> load_from xs off n = take n (drop off xs)"
proof (induction n arbitrary: off)
  case (Suc n)
  then have "drop off xs = xs ! off # drop (Suc off) xs"
    by (intro Cons_nth_drop_Suc [symmetric]) simp
  with Suc show ?case by simp
qed simp

lemma length_store_from [simp]: "length (store_from xs off ys) = length xs"
  by (induction ys arbitrary: xs off) auto

lemma store_from_eq: "off + length ys \<le> length xs \<Longrightarrow> store_from xs off ys = list_splice xs off ys"
proof (induction ys arbitrary: xs off)
  case (Cons y ys)
  have "list_splice (xs[off := y]) (Suc off) ys = list_splice xs off (y # ys)"
    using Cons.prems
    by (simp add: list_splice_def take_Suc_conv_app_nth take_update_swap list_update_append)
  with Cons show ?case by simp
qed simp

lemma length_vec_resize [simp]: "length (vec_resize xs n x) = n"
  by (simp add: vec_resize_def min_def)

lemma vec_resize_grow: "length xs \<le> n \<Longrightarrow> vec_resize xs n x = xs @ replicate (n - length xs) x"
  by (simp add: vec_resize_def)

lemma vec_resize_shrink: "n \<le> length xs \<Longrightarrow> vec_resize xs n x = take n xs"
  by (simp add: vec_resize_def)

lemma plist_inv_new [simp]: "plist_inv plist_new" "pl_list plist_new = []"
  by (simp_all add: plist_inv_def plist_new_def)

lemma plist_updateRange_inv:
  "plist_inv l \<Longrightarrow> plist_inv (snd (plist_updateRange l a xs))"
  by (simp add: plist_inv_def plist_updateRange_def)

lemma plist_truncate_inv [simp]: "plist_inv (snd (plist_truncateAndReturn l n x))"
  by (simp add: plist_inv_def plist_truncateAndReturn_def Let_def)

lemma plist_swap_inv [simp]: "plist_inv (snd (plist_swap l xs))"
  by (simp add: plist_inv_def plist_swap_def)

lemma plist_getRange_eq:
  "plist_inv l \<Longrightarrow> a + n \<le> length (pl_list l) \<Longrightarrow>
     plist_getRange l a n = take n (drop a (pl_list l))"
  by (simp add: plist_inv_def plist_getRange_def load_from_eq)

lemma plist_getAll_eq: "plist_inv l \<Longrightarrow> plist_getAll l = pl_list l"
  by (simp add: plist_inv_def plist_getAll_def load_from_eq)

lemma plist_updateRange_eq:
  "plist_inv l \<Longrightarrow> a + length xs \<le> length (pl_list l) \<Longrightarrow>
     plist_updateRange l a xs = (True, l\<lparr>pl_list := list_splice (pl_list l) a xs\<rparr>)"
  by (simp add: plist_inv_def plist_updateRange_def store_from_eq)

lemma plist_truncate_list [simp]:
  "pl_list (snd (plist_truncateAndReturn l n x)) = vec_resize (pl_list l) n x"
  "pl_size (snd (plist_truncateAndReturn l n x)) = n"
  by (simp_all add: plist_truncateAndReturn_def Let_def)

lemma plist_truncate_ret:
  assumes "plist_inv l"
  shows "fst (plist_truncateAndReturn l n x) =
    (if n < length (pl_list l) then map Some (drop n (pl_list l))
     else replicate (n - length (pl_list l)) None)"
  using assms by (simp add: plist_inv_def plist_truncateAndReturn_def Let_def load_from_eq)

text \<open>What a client relies on: the operations act on an abstract list.\<close>

locale shared_list =
  fixes items :: "'l \<Rightarrow> 'a list"
    and inv :: "'l \<Rightarrow> bool"
    and size_of :: "'l \<Rightarrow> nat"
    and range_of :: "'l \<Rightarrow> nat \<Rightarrow> nat \<Rightarrow> 'a list"
    and update :: "'l \<Rightarrow> nat \<Rightarrow> 'a list \<Rightarrow> bool \<times> 'l"
    and resize :: "'l \<Rightarrow> nat \<Rightarrow> 'a \<Rightarrow> 'a option list \<times> 'l"
  assumes size_items: "inv l \<Longrightarrow> size_of l = length (items l)"
    and range_items:
      "inv l \<Longrightarrow> a + n \<le> length (items l) \<Longrightarrow> range_of l a n = take n (drop a (items l))"
    and update_items:
      "inv l \<Longrightarrow> a + length xs \<le> length (items l) \<Longrightarrow>
         fst (update l a xs) \<and> items (snd (update l a xs)) = list_splice (items l) a xs"
    and update_inv: "inv l \<Longrightarrow> inv (snd (update l a xs))"
    and resize_items:
      "inv l \<Longrightarrow> items (snd (resize l n x)) = vec_resize (items l) n x"
    and resize_inv: "inv l \<Longrightarrow> inv (snd (resize l n x))"
begin

text \<open>A range that was read, changed and written back is what is read next.\<close>

lemma read_back:
  assumes "inv l" "a + length xs \<le> length (items l)"
  shows "range_of (snd (update l a xs)) a (length xs) = xs"
proof -
  have "a + length xs \<le> length (items (snd (update l a xs)))"
    using assms by (simp add: update_items)
  then show ?thesis
    using assms by (simp add: range_items update_items update_inv) (simp add: list_splice_def)
qed

text \<open>Growing the list keeps every range that was there.\<close>

lemma grow_keeps_range:
  assumes "inv l" "a + k \<le> length (items l)" "length (items l) \<le> n"
  shows "range_of (snd (resize l n x)) a k = range_of l a k"
  using assms by (simp add: range_items resize_items resize_inv vec_resize_grow)

end

interpretation pl: shared_list pl_list plist_inv plist_getSize plist_getRange
    plist_updateRange plist_truncateAndReturn
  by unfold_locales
    (auto simp: plist_getSize_def plist_inv_def plist_getRange_eq plist_updateRange_def
      store_from_eq plist_getRange_def load_from_eq plist_truncateAndReturn_def Let_def)

section \<open>protected_unordered_map\<close>

text \<open>
  The map is an association list, newest key last, so that \<^verbatim>\<open>list()\<close> has an order to
  walk in (a \<^verbatim>\<open>std::unordered_map\<close> promises none). \<^verbatim>\<open>get\<close> of a missing key
  returns the default value \<^verbatim>\<open>T()\<close>, a null pointer or a zero index, which is
  \<open>None\<close> here.
\<close>

record ('k, 'v) umap =
  um_map :: "('k \<times> 'v) list"
  um_size :: nat

definition umap_empty :: "('k, 'v) umap" where
  "umap_empty = \<lparr>um_map = [], um_size = 0\<rparr>"

definition umap_get :: "('k, 'v) umap \<Rightarrow> 'k \<Rightarrow> 'v option" where
  "umap_get m k = map_of (um_map m) k"

fun assoc_set :: "('k \<times> 'v) list \<Rightarrow> 'k \<Rightarrow> 'v \<Rightarrow> ('k \<times> 'v) list" where
  "assoc_set [] k v = [(k, v)]"
| "assoc_set ((k', v') # m) k v = (if k' = k then (k, v) # m else (k', v') # assoc_set m k v)"

definition assoc_del :: "('k \<times> 'v) list \<Rightarrow> 'k \<Rightarrow> ('k \<times> 'v) list" where
  "assoc_del m k = filter (\<lambda>p. fst p \<noteq> k) m"

definition umap_insert :: "('k, 'v) umap \<Rightarrow> 'k \<Rightarrow> 'v \<Rightarrow> ('k, 'v) umap" where
  "umap_insert m k v =
     (let n = assoc_set (um_map m) k v in \<lparr>um_map = n, um_size = length n\<rparr>)"

definition umap_erase :: "('k, 'v) umap \<Rightarrow> 'k \<Rightarrow> nat \<times> ('k, 'v) umap" where
  "umap_erase m k =
     (let n = assoc_del (um_map m) k
      in (length (um_map m) - length n, \<lparr>um_map = n, um_size = length n\<rparr>))"

definition umap_list :: "('k, 'v) umap \<Rightarrow> 'v list" where
  "umap_list m = map snd (um_map m)"

definition umap_clone :: "('k, 'v) umap \<Rightarrow> ('k \<times> 'v) list" where
  "umap_clone m = um_map m"

definition umap_inv :: "('k, 'v) umap \<Rightarrow> bool" where
  "umap_inv m \<longleftrightarrow> distinct (map fst (um_map m)) \<and> um_size m = length (um_map m)"

lemma map_of_assoc_set: "map_of (assoc_set m k v) = (map_of m)(k \<mapsto> v)"
  by (induction m k v rule: assoc_set.induct) auto

lemma fst_set_assoc_set: "fst ` set (assoc_set m k v) = insert k (fst ` set m)"
  by (induction m k v rule: assoc_set.induct) auto

lemma distinct_assoc_set:
  "distinct (map fst m) \<Longrightarrow> distinct (map fst (assoc_set m k v))"
  by (induction m k v rule: assoc_set.induct) (auto simp: fst_set_assoc_set)

lemma map_of_assoc_del: "map_of (assoc_del m k) = (map_of m)(k := None)"
  by (induction m) (auto simp: assoc_del_def)

lemma distinct_assoc_del: "distinct (map fst m) \<Longrightarrow> distinct (map fst (assoc_del m k))"
  by (simp add: assoc_del_def distinct_map_filter)

lemma length_assoc_del:
  assumes "distinct (map fst m)"
  shows "length m - length (assoc_del m k) = (if map_of m k = None then 0 else 1)"
  using assms
proof (induction m)
  case (Cons p m)
  have *: "map_of m k = None \<Longrightarrow> assoc_del m k = m"
    by (induction m) (auto simp: assoc_del_def split: if_splits)
  have le: "length (assoc_del m k) \<le> length m" by (simp add: assoc_del_def)
  show ?case
  proof (cases "fst p = k")
    case True
    with Cons.prems have "map_of m k = None" by (auto simp: map_of_eq_None_iff)
    with True * show ?thesis by (cases p) (auto simp: assoc_del_def)
  next
    case False
    with Cons le show ?thesis by (cases p) (auto simp: assoc_del_def Suc_diff_le)
  qed
qed (simp add: assoc_del_def)

lemma umap_get_empty [simp]: "umap_get umap_empty k = None"
  by (simp add: umap_get_def umap_empty_def)

lemma umap_get_insert [simp]:
  "umap_get (umap_insert m k v) k' = (if k' = k then Some v else umap_get m k')"
  by (simp add: umap_get_def umap_insert_def Let_def map_of_assoc_set)

lemma umap_get_erase [simp]:
  "umap_get (snd (umap_erase m k)) k' = (if k' = k then None else umap_get m k')"
  by (simp add: umap_get_def umap_erase_def Let_def map_of_assoc_del)

lemma umap_inv_empty [simp]: "umap_inv umap_empty"
  by (simp add: umap_inv_def umap_empty_def)

lemma umap_inv_insert [simp]: "umap_inv m \<Longrightarrow> umap_inv (umap_insert m k v)"
  by (simp add: umap_inv_def umap_insert_def Let_def distinct_assoc_set)

lemma umap_inv_erase [simp]: "umap_inv m \<Longrightarrow> umap_inv (snd (umap_erase m k))"
  by (simp add: umap_inv_def umap_erase_def Let_def distinct_assoc_del)

lemma umap_erase_count:
  "umap_inv m \<Longrightarrow> fst (umap_erase m k) = (if umap_get m k = None then 0 else 1)"
  by (simp add: umap_inv_def umap_erase_def umap_get_def Let_def length_assoc_del)

lemma umap_list_set:
  assumes "umap_inv m" shows "set (umap_list m) = {v. \<exists>k. umap_get m k = Some v}"
  using assms by (force simp: umap_list_def umap_get_def umap_inv_def)

locale keyed_store =
  fixes lookup :: "'m \<Rightarrow> 'k \<Rightarrow> 'v option"
    and insert_op :: "'m \<Rightarrow> 'k \<Rightarrow> 'v \<Rightarrow> 'm"
    and erase_op :: "'m \<Rightarrow> 'k \<Rightarrow> nat \<times> 'm"
    and inv :: "'m \<Rightarrow> bool"
  assumes lookup_insert: "inv m \<Longrightarrow> lookup (insert_op m k v) = (lookup m)(k \<mapsto> v)"
    and lookup_erase: "inv m \<Longrightarrow> lookup (snd (erase_op m k)) = (lookup m)(k := None)"
    and erase_count: "inv m \<Longrightarrow> fst (erase_op m k) = (if lookup m k = None then 0 else 1)"
    and inv_insert: "inv m \<Longrightarrow> inv (insert_op m k v)"
    and inv_erase: "inv m \<Longrightarrow> inv (snd (erase_op m k))"
begin

text \<open>An entry that was inserted can be erased exactly once.\<close>

lemma erase_once:
  assumes "inv m"
  shows "fst (erase_op (insert_op m k v) k) = 1"
    and "fst (erase_op (snd (erase_op m k)) k) = 0"
  using assms by (simp_all add: erase_count inv_insert inv_erase lookup_insert lookup_erase)

lemma insert_erase_fresh:
  "inv m \<Longrightarrow> lookup m k = None \<Longrightarrow> lookup (snd (erase_op (insert_op m k v) k)) = lookup m"
  by (simp add: lookup_insert lookup_erase inv_insert fun_upd_idem)

end

interpretation um: keyed_store umap_get umap_insert umap_erase umap_inv
  by unfold_locales (auto simp: fun_eq_iff umap_erase_count)

end
