(* ===== verification/Effect.thy ===== *)
theory Effect
  imports Prelude
begin

text \<open>
  State passing for the storage layer and above. A method of the C++ program that reads and
  writes shared objects is an \<open>op\<close>: it maps a state to a result and a state, or to a
  failure and the state at the point of failure (a \<^verbatim>\<open>catch\<close> block goes on from
  there). \<open>wp m Q s\<close> says that \<open>m\<close>, run from \<open>s\<close>, neither throws nor aborts nor hangs
  and ends with \<open>Q\<close>; \<open>wpf\<close> also allows the fragmentation abort. The rules below compute it for every combinator, so that a proof about a
  method is a simplification of its body.
\<close>

type_synonym ('s, 'a) op = "'s \<Rightarrow> (exn \<times> 's) + ('a \<times> 's)"

section \<open>Combinators\<close>

definition returnS :: "'a \<Rightarrow> ('s, 'a) op" where
  "returnS x s = Inr (x, s)"

definition raiseS :: "exn \<Rightarrow> ('s, 'a) op" where
  "raiseS e s = Inl (e, s)"

definition bindS :: "('s, 'a) op \<Rightarrow> ('a \<Rightarrow> ('s, 'b) op) \<Rightarrow> ('s, 'b) op" where
  "bindS m f s = (case m s of Inl e \<Rightarrow> Inl e | Inr (x, s') \<Rightarrow> f x s')"

definition getS :: "('s \<Rightarrow> 'a) \<Rightarrow> ('s, 'a) op" where
  "getS f s = Inr (f s, s)"

definition modifyS :: "('s \<Rightarrow> 's) \<Rightarrow> ('s, unit) op" where
  "modifyS f s = Inr ((), f s)"

definition assertS :: "bool \<Rightarrow> ('s, unit) op" where
  "assertS b s = (if b then Inr ((), s) else Inl (AssertFail, s))"

definition liftS :: "'a res \<Rightarrow> ('s, 'a) op" where
  "liftS r s = (case r of Inl e \<Rightarrow> Inl (e, s) | Inr x \<Rightarrow> Inr (x, s))"

definition whenS :: "bool \<Rightarrow> ('s, unit) op \<Rightarrow> ('s, unit) op" where
  "whenS b m = (if b then m else returnS ())"

text \<open>\<^verbatim>\<open>try { m } catch(std::exception & e) { h }\<close>\<close>

definition catchS :: "('s, 'a) op \<Rightarrow> (string \<Rightarrow> ('s, 'a) op) \<Rightarrow> ('s, 'a) op" where
  "catchS m h s = (case m s of Inl (StdExn w, s') \<Rightarrow> h w s' | r \<Rightarrow> r)"

text \<open>\<^verbatim>\<open>for(auto & x : xs) { m x }\<close>\<close>

fun forS :: "'a list \<Rightarrow> ('a \<Rightarrow> ('s, unit) op) \<Rightarrow> ('s, unit) op" where
  "forS [] m = returnS ()"
| "forS (x # xs) m = bindS (m x) (\<lambda>_. forS xs m)"

text \<open>An operation on one component of a larger state.\<close>

definition zoomS :: "('t \<Rightarrow> 's) \<Rightarrow> ('s \<Rightarrow> 't \<Rightarrow> 't) \<Rightarrow> ('s, 'a) op \<Rightarrow> ('t, 'a) op" where
  "zoomS g p m t =
     (case m (g t) of Inl (e, s) \<Rightarrow> Inl (e, p s t) | Inr (x, s) \<Rightarrow> Inr (x, p s t))"

lemma bindS_cong [fundef_cong]:
  "m s = m' s' \<Longrightarrow> (\<And>x t. m' s' = Inr (x, t) \<Longrightarrow> f x t = f' x t) \<Longrightarrow> bindS m f s = bindS m' f' s'"
  by (auto simp: bindS_def split: sum.splits)

section \<open>Total correctness\<close>

definition wpx :: "exn set \<Rightarrow> ('s, 'a) op \<Rightarrow> ('a \<Rightarrow> 's \<Rightarrow> bool) \<Rightarrow> 's \<Rightarrow> bool" where
  "wpx A m Q s \<longleftrightarrow> (case m s of Inl (e, s') \<Rightarrow> e \<in> A | Inr (x, s') \<Rightarrow> Q x s')"

abbreviation wp :: "('s, 'a) op \<Rightarrow> ('a \<Rightarrow> 's \<Rightarrow> bool) \<Rightarrow> 's \<Rightarrow> bool" where
  "wp \<equiv> wpx {}"

abbreviation wpf :: "('s, 'a) op \<Rightarrow> ('a \<Rightarrow> 's \<Rightarrow> bool) \<Rightarrow> 's \<Rightarrow> bool" where
  "wpf \<equiv> wpx {Fragmented}"

named_theorems wp_simps "weakest preconditions of the combinators"

text \<open>
  The rules rewrite \<open>wpx A m Q\<close> without its state, so that they apply under the binder of a
  continuation as well.
\<close>

lemma wp_return [simp, wp_simps]: "wpx A (returnS x) Q = Q x"
  by (simp add: wpx_def returnS_def fun_eq_iff)

lemma wp_raise [simp, wp_simps]: "wpx A (raiseS e) Q = (\<lambda>s. e \<in> A)"
  by (simp add: wpx_def raiseS_def fun_eq_iff)

lemma wp_bind [simp, wp_simps]: "wpx A (bindS m f) Q = wpx A m (\<lambda>x. wpx A (f x) Q)"
  by (auto simp: wpx_def bindS_def fun_eq_iff split: sum.splits)

lemma wp_get [simp, wp_simps]: "wpx A (getS f) Q = (\<lambda>s. Q (f s) s)"
  by (simp add: wpx_def getS_def fun_eq_iff)

lemma wp_modify [simp, wp_simps]: "wpx A (modifyS f) Q = (\<lambda>s. Q () (f s))"
  by (simp add: wpx_def modifyS_def fun_eq_iff)

lemma wp_assert [simp, wp_simps]:
  "wpx A (assertS b) Q = (\<lambda>s. if b then Q () s else AssertFail \<in> A)"
  by (simp add: wpx_def assertS_def fun_eq_iff)

lemma wp_lift [simp, wp_simps]:
  "wpx A (liftS r) Q = (\<lambda>s. case r of Inl e \<Rightarrow> e \<in> A | Inr x \<Rightarrow> Q x s)"
  by (cases r) (simp_all add: wpx_def liftS_def fun_eq_iff)

lemma wp_when [simp, wp_simps]:
  "wpx A (whenS b m) Q = (\<lambda>s. if b then wpx A m Q s else Q () s)"
  by (simp add: whenS_def fun_eq_iff)

lemma wp_zoom [simp, wp_simps]: "wpx A (zoomS g p m) Q = (\<lambda>t. wpx A m (\<lambda>x s. Q x (p s t)) (g t))"
  by (auto simp: wpx_def zoomS_def fun_eq_iff split: sum.splits)

lemma wp_catch:
  "(\<And>w. StdExn w \<notin> A) \<Longrightarrow> wpx A m Q s \<Longrightarrow> wpx A (catchS m h) Q s"
  by (auto simp: wpx_def catchS_def split: sum.splits exn.splits)

lemma wp_if [simp, wp_simps]: "wpx A (if b then m else n) Q = (if b then wpx A m Q else wpx A n Q)"
  by simp

lemma wp_mono: "wpx A m Q s \<Longrightarrow> (\<And>x t. Q x t \<Longrightarrow> R x t) \<Longrightarrow> wpx A m R s"
  by (auto simp: wpx_def split: sum.splits)

lemma wp_allow: "wp m Q s \<Longrightarrow> (\<And>x t. Q x t \<Longrightarrow> R x t) \<Longrightarrow> wpx A m R s"
  by (auto simp: wpx_def split: sum.splits)

lemma wp_conj: "wpx A m Q s \<Longrightarrow> wpx A m R s \<Longrightarrow> wpx A m (\<lambda>x t. Q x t \<and> R x t) s"
  by (auto simp: wpx_def split: sum.splits)

lemma wp_run: "wp m Q s \<longleftrightarrow> (\<exists>x s'. m s = Inr (x, s') \<and> Q x s')"
  by (auto simp: wpx_def split: sum.splits)

lemma wpE: "wp m Q s \<Longrightarrow> (\<And>x s'. m s = Inr (x, s') \<Longrightarrow> Q x s' \<Longrightarrow> thesis) \<Longrightarrow> thesis"
  by (auto simp: wp_run)

lemma wpf_run:
  "wpf m Q s \<longleftrightarrow> (\<exists>s'. m s = Inl (Fragmented, s')) \<or> (\<exists>x s'. m s = Inr (x, s') \<and> Q x s')"
  by (auto simp: wpx_def split: sum.splits)

text \<open>A loop keeps an invariant that names the elements still to come.\<close>

lemma wp_for:
  assumes "I xs s"
    and "\<And>x xs s. I (x # xs) s \<Longrightarrow> wpx A (m x) (\<lambda>_. I xs) s"
    and "\<And>s. I [] s \<Longrightarrow> Q () s"
  shows "wpx A (forS xs m) Q s"
  using assms(1)
proof (induction xs arbitrary: s)
  case Nil
  then show ?case using assms(3) by simp
next
  case (Cons x xs)
  have "wpx A (m x) (\<lambda>_. wpx A (forS xs m) Q) s"
    by (rule wp_mono [OF assms(2) [OF Cons.prems]]) (rule Cons.IH)
  then show ?case by simp
qed

section \<open>Running an operation\<close>

text \<open>What a witness evaluates: the outcome of an operation from a state.\<close>

lemmas run_simps = bindS_def returnS_def raiseS_def getS_def modifyS_def assertS_def liftS_def
  whenS_def catchS_def zoomS_def

end
