(* ===== verification/Bucket.thy ===== *)
theory Bucket
  imports Chunk Effect
begin

text \<open>
  The hash objects and the buckets: class \<^verbatim>\<open>hash\<close>
  (\<^verbatim>\<open>src/src/modules/filesystem/hash.h\<close>) as a record on a heap, and class
  \<^verbatim>\<open>bucket\<close> (\<^verbatim>\<open>bucket.h\<close>, \<^verbatim>\<open>bucket.cpp\<close>), which keeps 256
  chunks and 256 hash pointers in memory and in two encrypted files. A shared pointer to a
  hash is its heap position. The hash function, the encryption (with the number of nonces
  drawn so far as its randomness), the bucket file names and the storage path are parameters,
  collected in \<open>env\<close>. Writing a file succeeds.
\<close>

section \<open>The environment\<close>

record env =
  e_sha :: "byte list \<Rightarrow> byte list"
  e_enc :: "nat \<Rightarrow> byte list \<Rightarrow> byte list"
  e_dec :: "byte list \<Rightarrow> byte list res"
  e_over :: nat
  e_bucketName :: "nat \<Rightarrow> string"
  e_path :: string

text \<open>
  What is used of the encryption: a ciphertext decrypts to its plaintext and is longer by the
  fixed overhead (nonce and tag), and sums have 32 bytes.
\<close>

definition env_ok :: "env \<Rightarrow> bool" where
  "env_ok E \<longleftrightarrow>
     (\<forall>n x. e_dec E (e_enc E n x) = Inr x) \<and>
     (\<forall>n x. length (e_enc E n x) = length x + e_over E) \<and>
     (\<forall>x. length (e_sha E x) = 32)"

section \<open>Hash objects (hash.h)\<close>

definition FLAG_DELETED :: u32 where "FLAG_DELETED = 1"
definition FLAG_NOAUTOSTORE :: u32 where "FLAG_NOAUTOSTORE = 2"
definition FLAG_NOAUTOLOAD :: u32 where "FLAG_NOAUTOLOAD = 4"

lemmas hash_flags = FLAG_DELETED_def FLAG_NOAUTOSTORE_def FLAG_NOAUTOLOAD_def

type_synonym sha256sum = "byte list"
type_synonym hid = nat

record hashobj =
  h_hsh :: sha256sum
  h_bucketIndex :: bucketIndex_t
  h_refcnt :: int
  h_data :: "chunk option"
  h_flags :: u32

definition hash_isFlags :: "hashobj \<Rightarrow> u32 \<Rightarrow> bool" where
  "hash_isFlags h f \<longleftrightarrow> 0 < (h_flags h AND f)"

definition hash_setFlags :: "u32 \<Rightarrow> hashobj \<Rightarrow> hashobj" where
  "hash_setFlags f h = h\<lparr>h_flags := h_flags h OR f\<rparr>"

definition hash_clearFlags :: "u32 \<Rightarrow> hashobj \<Rightarrow> hashobj" where
  "hash_clearFlags f h = h\<lparr>h_flags := (h_flags h OR f) XOR f\<rparr>"

section \<open>What a bucket works on\<close>

text \<open>
  \<open>io_heap\<close>: the hash objects. \<open>io_disk\<close>: the files. \<open>io_draws\<close>: nonces drawn.
  \<open>io_dropped\<close>: the journal references let go by bucket change logs, oldest first.
\<close>

record bio =
  io_heap :: "hashobj list"
  io_disk :: "string \<Rightarrow> byte list option"
  io_draws :: nat
  io_dropped :: "nat list"

record bucket =
  b_base :: string
  b_chunks :: "chunk list option"
  b_hashes :: "hid option list option"
  b_changes :: "nat list option"
  b_chunkChanges :: nat
  b_hashChanges :: nat

type_synonym 'a bucket_op = "(bucket \<times> bio, 'a) op"

definition bucket_new :: "string \<Rightarrow> bucket" where
  "bucket_new file =
     \<lparr>b_base = file, b_chunks = None, b_hashes = None, b_changes = None,
      b_chunkChanges = 0, b_hashChanges = 0\<rparr>"

definition myfilenamehsh :: "bucket \<Rightarrow> string" where
  "myfilenamehsh b = b_base b @ ''.hsh''"

definition myfilenamechnk :: "bucket \<Rightarrow> string" where
  "myfilenamechnk b = b_base b @ ''.chnk''"

lemma filenames_upd [simp]:
  "myfilenamehsh (b\<lparr>b_chunks := c\<rparr>) = myfilenamehsh b"
  "myfilenamehsh (b\<lparr>b_hashes := h\<rparr>) = myfilenamehsh b"
  "myfilenamehsh (b\<lparr>b_changes := l\<rparr>) = myfilenamehsh b"
  "myfilenamehsh (b\<lparr>b_chunkChanges := n\<rparr>) = myfilenamehsh b"
  "myfilenamehsh (b\<lparr>b_hashChanges := n\<rparr>) = myfilenamehsh b"
  "myfilenamechnk (b\<lparr>b_chunks := c\<rparr>) = myfilenamechnk b"
  "myfilenamechnk (b\<lparr>b_hashes := h\<rparr>) = myfilenamechnk b"
  "myfilenamechnk (b\<lparr>b_changes := l\<rparr>) = myfilenamechnk b"
  "myfilenamechnk (b\<lparr>b_chunkChanges := n\<rparr>) = myfilenamechnk b"
  "myfilenamechnk (b\<lparr>b_hashChanges := n\<rparr>) = myfilenamechnk b"
  by (simp_all add: myfilenamehsh_def myfilenamechnk_def)

definition getSystemString :: "bio \<Rightarrow> string \<Rightarrow> byte list" where
  "getSystemString io f = (case io_disk io f of None \<Rightarrow> [] | Some c \<Rightarrow> c)"

definition putSystemString :: "string \<Rightarrow> byte list \<Rightarrow> bio \<Rightarrow> bio" where
  "putSystemString f c io = io\<lparr>io_disk := (io_disk io)(f \<mapsto> c)\<rparr>"

definition io_alloc :: "hashobj \<Rightarrow> bio \<Rightarrow> hid \<times> bio" where
  "io_alloc h io = (length (io_heap io), io\<lparr>io_heap := io_heap io @ [h]\<rparr>)"

definition on_bucket :: "(bucket \<Rightarrow> bucket) \<Rightarrow> unit bucket_op" where
  "on_bucket f = modifyS (\<lambda>(b, io). (f b, io))"

definition on_io :: "(bio \<Rightarrow> bio) \<Rightarrow> unit bucket_op" where
  "on_io f = modifyS (\<lambda>(b, io). (b, f io))"

lemma wp_on_bucket [simp, wp_simps]: "wpx A (on_bucket f) Q (b, io) \<longleftrightarrow> Q () (f b, io)"
  by (simp add: on_bucket_def)

lemma wp_on_io [simp, wp_simps]: "wpx A (on_io f) Q (b, io) \<longleftrightarrow> Q () (b, f io)"
  by (simp add: on_io_def)

section \<open>The file formats\<close>

fun le_bytes :: "nat \<Rightarrow> nat \<Rightarrow> byte list" where
  "le_bytes 0 n = []"
| "le_bytes (Suc k) n = of_nat (n mod 256) # le_bytes k (n div 256)"

fun of_le :: "byte list \<Rightarrow> nat" where
  "of_le [] = 0"
| "of_le (b # bs) = unat b + 256 * of_le bs"

lemma length_le_bytes [simp]: "length (le_bytes k n) = k"
  by (induction k arbitrary: n) auto

lemma of_le_bytes: "n < 256 ^ k \<Longrightarrow> of_le (le_bytes k n) = n"
proof (induction k arbitrary: n)
  case (Suc k)
  have "n div 256 < 256 ^ k" using Suc.prems by (simp add: less_mult_imp_div_less mult.commute)
  then show ?case using Suc.IH by (simp add: unat_of_nat)
qed simp

definition int64_of :: "nat \<Rightarrow> int" where
  "int64_of n = (if n < 2 ^ 63 then int n else int n - 2 ^ 64)"

definition nat64_of :: "int \<Rightarrow> nat" where
  "nat64_of r = nat (r mod 2 ^ 64)"

lemma int64_nat64: "- (2 ^ 63) \<le> r \<Longrightarrow> r < 2 ^ 63 \<Longrightarrow> int64_of (nat64_of r) = r"
proof (cases "0 \<le> r")
  case False
  assume r: "- (2 ^ 63) \<le> r"
  have "r mod 2 ^ 64 = (r + 2 ^ 64) mod 2 ^ 64" by simp
  also have "\<dots> = r + 2 ^ 64" using r False by (intro mod_pos_pos_trivial) auto
  finally show ?thesis using r False by (simp add: int64_of_def nat64_of_def)
qed (simp add: int64_of_def nat64_of_def)

lemma nat64_less: "nat64_of r < 2 ^ 64"
  by (simp add: nat64_of_def nat_less_iff)

text \<open>\<^verbatim>\<open>struct serializedHash\<close>: slot name, reference count, sum.\<close>

definition serializedHashSize :: nat where "serializedHashSize = 48"
definition byteSizeChunks :: nat where "byteSizeChunks = chunksInBucket * chunkSize"
definition byteSizeHashes :: nat where "byteSizeHashes = chunksInBucket * serializedHashSize"

definition serializedHash :: "bucketIndex_t \<Rightarrow> int \<Rightarrow> sha256sum \<Rightarrow> byte list" where
  "serializedHash i r s = le_bytes 8 i @ le_bytes 8 (nat64_of r) @ s"

definition deserializedHash :: "byte list \<Rightarrow> bucketIndex_t \<times> int \<times> sha256sum" where
  "deserializedHash bs =
     (of_le (take 8 bs), int64_of (of_le (take 8 (drop 8 bs))), take 32 (drop 16 bs))"

lemma deserialize_serializedHash:
  assumes "i < 2 ^ 64" "- (2 ^ 63) \<le> r" "r < 2 ^ 63" "length s = 32"
  shows "deserializedHash (serializedHash i r s) = (i, r, s)"
proof -
  have "i < 256 ^ 8" "nat64_of r < 256 ^ 8" using assms(1) nat64_less [of r] by simp_all
  then show ?thesis
    using assms by (simp add: deserializedHash_def serializedHash_def of_le_bytes int64_nat64)
qed

lemma of_le_less: "of_le bs < 256 ^ length bs"
proof (induction bs)
  case (Cons b bs)
  have "unat b < 256" using unsigned_less [of b] by simp
  then show ?case using Cons by (simp add: less_eq_Suc_le)
qed simp

text \<open>Walking a buffer in steps of \<open>c\<close> bytes, \<open>k\<close> times.\<close>

fun steps_of :: "nat \<Rightarrow> nat \<Rightarrow> byte list \<Rightarrow> byte list list" where
  "steps_of c 0 bs = []"
| "steps_of c (Suc k) bs = take c bs # steps_of c k (drop c bs)"

lemma length_steps_of [simp]: "length (steps_of c k bs) = k"
  by (induction k arbitrary: bs) auto

lemma steps_of_concat: "blocks_of c xss \<Longrightarrow> steps_of c (length xss) (concat xss) = xss"
  by (induction xss) auto

lemma blocks_of_steps: "length bs = k * c \<Longrightarrow> blocks_of c (steps_of c k bs)"
proof (induction k arbitrary: bs)
  case (Suc k)
  then have "length (drop c bs) = k * c" by simp
  from Suc.IH [OF this] Suc.prems show ?case by simp
qed simp

section \<open>Loading\<close>

text \<open>The loop of \<^verbatim>\<open>loadHashes\<close>: a record with a positive count becomes a hash object.\<close>

fun load_hash_records :: "byte list list \<Rightarrow> bio \<Rightarrow> hid option list \<times> bio" where
  "load_hash_records [] io = ([], io)"
| "load_hash_records (rec # recs) io =
     (let (i, r, s) = deserializedHash rec
      in if r > 0
         then (let (h, io1) = io_alloc \<lparr>h_hsh = s, h_bucketIndex = i, h_refcnt = r, h_data = None, h_flags = 0\<rparr> io;
                   (hs, io2) = load_hash_records recs io1
               in (Some h # hs, io2))
         else (let (hs, io2) = load_hash_records recs io in (None # hs, io2)))"

definition load_records :: "byte list \<Rightarrow> (hid option list) bucket_op" where
  "load_records cleartext =
     (\<lambda>(b, io). let (H, io') = load_hash_records
         (steps_of serializedHashSize chunksInBucket cleartext) io in Inr (H, (b, io')))"

lemma wp_load_records [simp, wp_simps]:
  "wpx A (load_records x) Q (b, io) \<longleftrightarrow>
     (case load_hash_records (steps_of serializedHashSize chunksInBucket x) io of (H, io') \<Rightarrow> Q H (b, io'))"
  by (simp add: wpx_def load_records_def split: prod.splits)

text \<open>Decryption; an exception is thrown on with another text.\<close>

definition decryptFile :: "env \<Rightarrow> byte list \<Rightarrow> byte list res" where
  "decryptFile E cipher =
     (case e_dec E cipher of Inl (StdExn w) \<Rightarrow> Inl (StdExn ''logic_error'') | r \<Rightarrow> r)"

definition loadHashes :: "env \<Rightarrow> (hid option list) bucket_op" where
  "loadHashes E =
     bindS (getS (\<lambda>(b, io). b_hashes b)) (\<lambda>OH.
     case OH of Some H \<Rightarrow> returnS H
     | None \<Rightarrow>
       bindS (getS (\<lambda>(b, io). getSystemString io (myfilenamehsh b))) (\<lambda>cipher.
       bindS (if cipher \<noteq> [] then
                bindS (liftS (decryptFile E cipher)) (\<lambda>cleartext.
                if length cleartext \<noteq> byteSizeHashes then raiseS (StdExn ''out_of_range'')
                else load_records cleartext)
              else returnS (replicate chunksInBucket None)) (\<lambda>H.
       bindS (on_bucket (\<lambda>b. b\<lparr>b_hashChanges := 0, b_hashes := Some H\<rparr>)) (\<lambda>_.
       returnS H))))"

definition loadChunks :: "env \<Rightarrow> (chunk list) bucket_op" where
  "loadChunks E =
     bindS (getS (\<lambda>(b, io). b_chunks b)) (\<lambda>OC.
     case OC of Some C \<Rightarrow> returnS C
     | None \<Rightarrow>
       bindS (getS (\<lambda>(b, io). getSystemString io (myfilenamechnk b))) (\<lambda>cipher.
       bindS (if cipher \<noteq> [] then
                (case decryptFile E cipher of
                   Inl e \<Rightarrow>
                     bindS (whenS (e \<noteq> AssertFail)
                              (on_io (putSystemString (e_path E @ ''decrypt_fail'') cipher))) (\<lambda>_. raiseS e)
                 | Inr cleartext \<Rightarrow>
                     if length cleartext \<noteq> byteSizeChunks then raiseS (StdExn ''out_of_range'')
                     else returnS (steps_of chunkSize chunksInBucket cleartext))
              else returnS (replicate chunksInBucket zero_chunk)) (\<lambda>C.
       bindS (on_bucket (\<lambda>b. b\<lparr>b_chunkChanges := 0, b_chunks := Some C\<rparr>)) (\<lambda>_.
       returnS C))))"

section \<open>Access\<close>

text \<open>\<^verbatim>\<open>std::array::at\<close> throws for an index out of range.\<close>

definition array_at :: "'a list \<Rightarrow> nat \<Rightarrow> 'a res" where
  "array_at xs i = (if i < length xs then Inr (xs ! i) else Inl (StdExn ''out_of_range''))"

definition bucket_getChunk :: "env \<Rightarrow> nat \<Rightarrow> chunk bucket_op" where
  "bucket_getChunk E i = bindS (loadChunks E) (\<lambda>C. liftS (array_at C i))"

definition bucket_getHash :: "env \<Rightarrow> nat \<Rightarrow> (hid option) bucket_op" where
  "bucket_getHash E i = bindS (loadHashes E) (\<lambda>H. liftS (array_at H i))"

definition putHashAndChunk :: "env \<Rightarrow> nat \<Rightarrow> hid option \<Rightarrow> chunk \<Rightarrow> unit bucket_op" where
  "putHashAndChunk E i h c =
     bindS (loadHashes E) (\<lambda>H.
     bindS (loadChunks E) (\<lambda>C.
     bindS (on_bucket (\<lambda>b. b\<lparr>b_chunkChanges := Suc (b_chunkChanges b),
                              b_hashChanges := Suc (b_hashChanges b)\<rparr>)) (\<lambda>_.
     bindS (liftS (array_at H i)) (\<lambda>_.
     bindS (on_bucket (\<lambda>b. b\<lparr>b_hashes := Some (H[i := h])\<rparr>)) (\<lambda>_.
     bindS (liftS (array_at C i)) (\<lambda>_.
     on_bucket (\<lambda>b. b\<lparr>b_chunks := Some (C[i := c])\<rparr>)))))))"

definition clearHashAndChunk :: "env \<Rightarrow> nat \<Rightarrow> unit bucket_op" where
  "clearHashAndChunk E i = putHashAndChunk E i None zero_chunk"

definition hashChanged :: "unit bucket_op" where
  "hashChanged = on_bucket (\<lambda>b. b\<lparr>b_hashChanges := Suc (b_hashChanges b)\<rparr>)"

definition putHashedChunk :: "env \<Rightarrow> bucketIndex_t \<Rightarrow> int \<Rightarrow> chunk \<Rightarrow> unit bucket_op" where
  "putHashedChunk E idx r c =
     bindS (\<lambda>(b, io). let (h, io') = io_alloc
              \<lparr>h_hsh = e_sha E c, h_bucketIndex = idx, h_refcnt = r, h_data = None,
               h_flags = FLAG_NOAUTOSTORE OR FLAG_NOAUTOLOAD\<rparr> io in Inr (h, (b, io'))) (\<lambda>h.
     putHashAndChunk E (index_of idx) (Some h) c)"

section \<open>Storing\<close>

text \<open>\<^verbatim>\<open>protocol->encrypt\<close>, which draws a nonce.\<close>

definition encryptS :: "env \<Rightarrow> byte list \<Rightarrow> (byte list) bucket_op" where
  "encryptS E x = (\<lambda>(b, io). Inr (e_enc E (io_draws io) x, (b, io\<lparr>io_draws := Suc (io_draws io)\<rparr>)))"

lemma wp_encryptS [simp, wp_simps]:
  "wpx A (encryptS E x) Q (b, io) \<longleftrightarrow>
     Q (e_enc E (io_draws io) x) (b, io\<lparr>io_draws := Suc (io_draws io)\<rparr>)"
  by (simp add: wpx_def encryptS_def)

text \<open>The plaintext of the hash file; an empty slot is written with the sum of the empty string.\<close>

definition hashes_cleartext :: "env \<Rightarrow> hashobj list \<Rightarrow> hid option list \<Rightarrow> byte list" where
  "hashes_cleartext E heap H =
     concat (map (\<lambda>L. case L of
         Some h \<Rightarrow> serializedHash (h_bucketIndex (heap ! h)) (h_refcnt (heap ! h)) (h_hsh (heap ! h))
       | None \<Rightarrow> serializedHash 0 0 (e_sha E [])) H)"

definition bucket_store :: "env \<Rightarrow> bool \<Rightarrow> unit bucket_op" where
  "bucket_store E clearCache =
     bindS (getS fst) (\<lambda>b0.
     if b_hashChanges b0 = 0 \<and> b_chunkChanges b0 = 0 then returnS ()
     else
       bindS (on_io (\<lambda>io. io\<lparr>io_dropped := io_dropped io @ (case b_changes b0 of None \<Rightarrow> [] | Some CL \<Rightarrow> CL)\<rparr>)) (\<lambda>_.
       bindS (on_bucket (\<lambda>b. b\<lparr>b_changes := None,
                b_chunks := (if clearCache then None else b_chunks b),
                b_hashChanges := 0, b_chunkChanges := 0\<rparr>)) (\<lambda>_.
       bindS (assertS (b_hashes b0 \<noteq> None)) (\<lambda>_.
       bindS (getS (\<lambda>(b, io). io_disk io (myfilenamechnk b0) \<noteq> None)) (\<lambda>exists.
       bindS (if b_chunks b0 \<noteq> None \<or> \<not> exists then
                bindS (encryptS E (case b_chunks b0 of Some C \<Rightarrow> concat C
                                   | None \<Rightarrow> replicate byteSizeChunks 0)) (\<lambda>cipher.
                bindS (assertS (cipher \<noteq> [])) (\<lambda>_.
                bindS (assertS (length cipher = byteSizeChunks + e_over E)) (\<lambda>_.
                returnS cipher)))
              else returnS []) (\<lambda>cipher.
       if \<exists>h \<in> set (the (b_hashes b0)). h \<noteq> None then
         bindS (getS (\<lambda>(b, io). hashes_cleartext E (io_heap io) (the (b_hashes b0)))) (\<lambda>cleartextH.
         bindS (encryptS E cleartextH) (\<lambda>cipherH.
         bindS (assertS (cipherH \<noteq> [])) (\<lambda>_.
         bindS (assertS (length cipherH = byteSizeHashes + e_over E)) (\<lambda>_.
         bindS (whenS (cipher \<noteq> []) (on_io (putSystemString (myfilenamechnk b0) cipher))) (\<lambda>_.
         on_io (putSystemString (myfilenamehsh b0) cipherH))))))
       else returnS ()))))))"

text \<open>The destructor.\<close>

definition bucket_destroy :: "env \<Rightarrow> unit bucket_op" where
  "bucket_destroy E =
     bindS (getS fst) (\<lambda>b. whenS (b_chunks b \<noteq> None \<or> b_hashes b \<noteq> None) (bucket_store E False))"

definition bucket_del :: "unit bucket_op" where
  "bucket_del =
     bindS (on_bucket (\<lambda>b. b\<lparr>b_hashChanges := 0, b_chunkChanges := 0, b_chunks := None, b_hashes := None\<rparr>)) (\<lambda>_.
     modifyS (\<lambda>(b, io). (b, io\<lparr>io_disk := (io_disk io)(myfilenamehsh b := None, myfilenamechnk b := None)\<rparr>)))"

text \<open>\<^verbatim>\<open>migrateTo\<close> returns the target bucket with its new contents.\<close>

definition bucket_migrateTo :: "env \<Rightarrow> bucket \<Rightarrow> bucket bucket_op" where
  "bucket_migrateTo E target =
     bindS (on_bucket (\<lambda>b. b\<lparr>b_hashChanges := 0, b_chunkChanges := 0\<rparr>)) (\<lambda>_.
     bindS (loadChunks E) (\<lambda>C.
     bindS (loadHashes E) (\<lambda>H.
     bindS (on_bucket (\<lambda>b. b\<lparr>b_chunks := None, b_hashes := None\<rparr>)) (\<lambda>_.
     returnS (target\<lparr>b_chunks := Some C, b_hashes := Some H, b_hashChanges := 1000,
                     b_chunkChanges := 1000\<rparr>)))))"

section \<open>The change log\<close>

definition changeLogSize :: nat where "changeLogSize = 1024"

text \<open>
  \<^verbatim>\<open>bucketChangeLog::addChange\<close>: false when all entries are taken. When it is,
  \<^verbatim>\<open>bucket::addChange\<close> stores the bucket, which takes the full log away, and goes
  round its loop once more.
\<close>

definition bucketChangeLog_addChange :: "nat \<Rightarrow> nat list \<Rightarrow> bool \<times> nat list" where
  "bucketChangeLog_addChange je log =
     (if length log < changeLogSize then (True, log @ [je]) else (False, log))"

definition add_to_log :: "nat \<Rightarrow> bool bucket_op" where
  "add_to_log je =
     (\<lambda>(b, io). let (ok, log) = bucketChangeLog_addChange je (case b_changes b of None \<Rightarrow> [] | Some l \<Rightarrow> l)
               in Inr (ok, (b\<lparr>b_changes := Some log\<rparr>, io)))"

lemma wp_add_to_log [simp, wp_simps]:
  "wpx A (add_to_log je) Q (b, io) \<longleftrightarrow>
     (case bucketChangeLog_addChange je (case b_changes b of None \<Rightarrow> [] | Some l \<Rightarrow> l) of
        (ok, log) \<Rightarrow> Q ok (b\<lparr>b_changes := Some log\<rparr>, io))"
  by (simp add: wpx_def add_to_log_def split: prod.splits)

definition bucket_addChange :: "env \<Rightarrow> nat option \<Rightarrow> unit bucket_op" where
  "bucket_addChange E je =
     (case je of
        None \<Rightarrow> returnS ()
      | Some j \<Rightarrow>
          bindS (add_to_log j) (\<lambda>ok.
          if ok then returnS ()
          else
            bindS (on_bucket (\<lambda>b. b\<lparr>b_hashChanges := Suc (b_hashChanges b),
                                     b_chunkChanges := Suc (b_chunkChanges b)\<rparr>)) (\<lambda>_.
            bindS (bucket_store E False) (\<lambda>_.
            bindS (add_to_log j) (\<lambda>ok.
            if ok then returnS () else raiseS Hang)))))"

end
