(* ===== verification/Bucket_Store.thy ===== *)
theory Bucket_Store
  imports Bucket
begin

text \<open>
  What a bucket promises: the chunks it shows do not depend on whether they are in memory or
  in its file, loading changes nothing visible, \<^verbatim>\<open>putHashAndChunk\<close> changes one
  slot, and what \<^verbatim>\<open>store\<close> writes is what a later load reads.
\<close>

section \<open>The view of a bucket\<close>

definition decode_chunks :: "env \<Rightarrow> byte list \<Rightarrow> chunk list res" where
  "decode_chunks E cipher =
     (if cipher = [] then Inr (replicate chunksInBucket zero_chunk)
      else bindR (decryptFile E cipher) (\<lambda>x.
        if length x \<noteq> byteSizeChunks then Inl (StdExn ''out_of_range'')
        else Inr (steps_of chunkSize chunksInBucket x)))"

definition chunk_view :: "env \<Rightarrow> bucket \<Rightarrow> bio \<Rightarrow> chunk list res" where
  "chunk_view E b io =
     (case b_chunks b of Some C \<Rightarrow> Inr C
      | None \<Rightarrow> decode_chunks E (getSystemString io (myfilenamechnk b)))"

definition chunks_ok :: "chunk list \<Rightarrow> bool" where
  "chunks_ok C \<longleftrightarrow> length C = chunksInBucket \<and> blocks_of chunkSize C"

text \<open>The hashes are in memory or their file decrypts to the right size.\<close>

definition hashes_loadable :: "env \<Rightarrow> bucket \<Rightarrow> bio \<Rightarrow> bool" where
  "hashes_loadable E b io \<longleftrightarrow>
     (case b_hashes b of Some H \<Rightarrow> length H = chunksInBucket
      | None \<Rightarrow> getSystemString io (myfilenamehsh b) = [] \<or>
         (\<exists>x. e_dec E (getSystemString io (myfilenamehsh b)) = Inr x \<and> length x = byteSizeHashes))"

text \<open>The hashes of an array are objects of the heap with 32 byte sums.\<close>

definition hashes_sized :: "hid option list \<Rightarrow> bio \<Rightarrow> bool" where
  "hashes_sized H io \<longleftrightarrow>
     (\<forall>h. Some h \<in> set H \<longrightarrow> h < length (io_heap io) \<and> length (h_hsh (io_heap io ! h)) = 32)"

definition bucket_ok :: "env \<Rightarrow> bucket \<Rightarrow> bio \<Rightarrow> bool" where
  "bucket_ok E b io \<longleftrightarrow>
     (\<exists>C. chunk_view E b io = Inr C \<and> chunks_ok C) \<and> hashes_loadable E b io \<and>
     (\<forall>H. b_hashes b = Some H \<longrightarrow> hashes_sized H io)"

definition view_at :: "env \<Rightarrow> bucket \<Rightarrow> bio \<Rightarrow> nat \<Rightarrow> chunk" where
  "view_at E b io i = (case chunk_view E b io of Inr C \<Rightarrow> C ! i | Inl _ \<Rightarrow> zero_chunk)"

lemma zero_chunk_length [simp]: "length zero_chunk = chunkSize"
  by (simp add: zero_chunk_def)

lemma chunks_ok_zero [simp]: "chunks_ok (replicate chunksInBucket zero_chunk)"
  by (simp add: chunks_ok_def)

lemma chunks_ok_update: "chunks_ok C \<Longrightarrow> length c = chunkSize \<Longrightarrow> chunks_ok (C[i := c])"
  by (auto simp: chunks_ok_def blocks_of_def dest: set_update_subset_insert [THEN subsetD])

lemma chunks_ok_nth: "chunks_ok C \<Longrightarrow> i < chunksInBucket \<Longrightarrow> length (C ! i) = chunkSize"
  by (simp add: chunks_ok_def blocks_of_def)

lemma decode_chunks_ok: "decode_chunks E cipher = Inr C \<Longrightarrow> chunks_ok C"
  by (auto simp: decode_chunks_def res_simps chunks_ok_def byteSizeChunks_def blocks_of_steps
      split: if_splits)

lemma bucket_okD:
  assumes "bucket_ok E b io" "i < chunksInBucket"
  shows "length (view_at E b io i) = chunkSize"
  using assms by (auto simp: bucket_ok_def view_at_def chunks_ok_nth)

section \<open>Loading\<close>

text \<open>Loading hashes allocates: the heap grows at its end and nothing else of the io changes.\<close>

definition heap_grows :: "bio \<Rightarrow> bio \<Rightarrow> bool" where
  "heap_grows io io' \<longleftrightarrow> (\<exists>hs. io' = io\<lparr>io_heap := io_heap io @ hs\<rparr>)"

lemma heap_grows_refl [simp]: "heap_grows io io"
  unfolding heap_grows_def by (rule exI [of _ "[]"]) simp

lemma heap_grows_trans: "heap_grows a b \<Longrightarrow> heap_grows b c \<Longrightarrow> heap_grows a c"
  by (auto simp: heap_grows_def)

lemma heap_growsD:
  assumes "heap_grows io io'"
  shows "io_disk io' = io_disk io" "io_draws io' = io_draws io" "io_dropped io' = io_dropped io"
    "length (io_heap io) \<le> length (io_heap io')"
    "\<And>h. h < length (io_heap io) \<Longrightarrow> io_heap io' ! h = io_heap io ! h"
  using assms by (auto simp: heap_grows_def nth_append)

lemma heap_grows_file [simp]: "heap_grows io io' \<Longrightarrow> getSystemString io' f = getSystemString io f"
  by (simp add: getSystemString_def heap_growsD)

lemma hashes_sized_replicate [simp]: "hashes_sized (replicate n None) io"
  by (auto simp: hashes_sized_def)

lemma hashes_sized_grows:
  "hashes_sized H io \<Longrightarrow> heap_grows io io' \<Longrightarrow> hashes_sized H io'"
  using heap_growsD(4,5) by (fastforce simp: hashes_sized_def)

lemma deserializedHash_length:
  "length rec = serializedHashSize \<Longrightarrow> deserializedHash rec = (i, r, s) \<Longrightarrow> length s = 32"
  by (auto simp: deserializedHash_def serializedHashSize_def)

lemma load_hash_records_grows:
  "load_hash_records recs io = (H, io') \<Longrightarrow> heap_grows io io' \<and> length H = length recs \<and>
     (blocks_of serializedHashSize recs \<longrightarrow> hashes_sized H io')"
proof (induction recs arbitrary: io H io')
  case Nil
  then show ?case by (simp add: hashes_sized_def)
next
  case (Cons rec recs)
  obtain i r s where d: "deserializedHash rec = (i, r, s)" using prod_cases3 by blast
  let ?o = "\<lparr>h_hsh = s, h_bucketIndex = i, h_refcnt = r, h_data = None, h_flags = 0\<rparr>"
  show ?case
  proof (cases "r > 0")
    case True
    obtain hs io2 where r2: "load_hash_records recs (snd (io_alloc ?o io)) = (hs, io2)" by fastforce
    have g: "heap_grows io (snd (io_alloc ?o io))"
      by (auto simp: heap_grows_def io_alloc_def)
    note IH = Cons.IH [OF r2]
    have eq: "H = Some (length (io_heap io)) # hs" "io' = io2"
      using Cons.prems True d r2 by (auto simp: Let_def io_alloc_def)
    have s32: "length s = 32" if "length rec = serializedHashSize"
      using deserializedHash_length [OF that d] .
    have "hashes_sized [Some (length (io_heap io))] (snd (io_alloc ?o io))" if "length s = 32"
      using that by (simp add: hashes_sized_def io_alloc_def)
    then have "hashes_sized [Some (length (io_heap io))] io2" if "length s = 32"
      using hashes_sized_grows IH that by blast
    then show ?thesis
      using IH g eq s32 by (auto simp: hashes_sized_def intro: heap_grows_trans)
  next
    case False
    obtain hs io2 where r2: "load_hash_records recs io = (hs, io2)" by fastforce
    show ?thesis using Cons.IH [OF r2] Cons.prems False d r2 by (auto simp: hashes_sized_def)
  qed
qed

text \<open>The bucket fields that a load leaves alone.\<close>

lemma wp_loadChunks:
  assumes "chunk_view E b io = Inr C"
  shows "wp (loadChunks E) (\<lambda>C' (b', io'). C' = C \<and> io' = io \<and>
    (\<exists>n. (n = 0 \<or> n = b_chunkChanges b) \<and> b' = b\<lparr>b_chunks := Some C, b_chunkChanges := n\<rparr>)) (b, io)"
proof (cases "b_chunks b")
  case None
  then have dec: "decode_chunks E (getSystemString io (myfilenamechnk b)) = Inr C"
    using assms by (simp add: chunk_view_def)
  show ?thesis
  proof (cases "getSystemString io (myfilenamechnk b) = []")
    case True
    then have "C = replicate chunksInBucket zero_chunk" using dec by (simp add: decode_chunks_def)
    with None True show ?thesis by (auto simp: loadChunks_def intro!: exI [of _ 0])
  next
    case False
    then obtain x where "decryptFile E (getSystemString io (myfilenamechnk b)) = Inr x"
      "length x = byteSizeChunks" "C = steps_of chunkSize chunksInBucket x"
      using dec by (auto simp: decode_chunks_def res_simps split: if_splits)
    with None False show ?thesis by (auto simp: loadChunks_def intro!: exI [of _ 0])
  qed
qed (use assms in \<open>auto simp: loadChunks_def chunk_view_def intro!: exI [of _ "b_chunkChanges b"]\<close>)

lemma wp_loadHashes:
  assumes "hashes_loadable E b io" and "\<forall>H. b_hashes b = Some H \<longrightarrow> hashes_sized H io"
  shows "wp (loadHashes E) (\<lambda>H (b', io'). heap_grows io io' \<and> length H = chunksInBucket \<and>
    hashes_sized H io' \<and> (b_hashes b \<noteq> None \<longrightarrow> b_hashes b = Some H \<and> io' = io) \<and>
    (\<exists>n. (n = 0 \<or> n = b_hashChanges b) \<and> b' = b\<lparr>b_hashes := Some H, b_hashChanges := n\<rparr>)) (b, io)"
proof (cases "b_hashes b")
  case None
  show ?thesis
  proof (cases "getSystemString io (myfilenamehsh b) = []")
    case True
    with None show ?thesis by (auto simp: loadHashes_def intro!: exI [of _ 0])
  next
    case False
    then obtain x where x: "e_dec E (getSystemString io (myfilenamehsh b)) = Inr x"
      "length x = byteSizeHashes" using assms None by (auto simp: hashes_loadable_def)
    then have bl: "blocks_of serializedHashSize (steps_of serializedHashSize chunksInBucket x)"
      by (simp add: byteSizeHashes_def blocks_of_steps)
    obtain H io' where r: "load_hash_records (steps_of serializedHashSize chunksInBucket x) io = (H, io')"
      by fastforce
    with None False x bl load_hash_records_grows [OF r] r show ?thesis
      by (auto simp: loadHashes_def decryptFile_def intro!: exI [of _ 0])
  qed
qed (use assms in \<open>auto simp: loadHashes_def hashes_loadable_def intro!: exI [of _ "b_hashChanges b"]\<close>)

section \<open>Reading and changing a slot\<close>

lemma chunk_view_loaded [simp]: "b_chunks b = Some C \<Longrightarrow> chunk_view E b io = Inr C"
  by (simp add: chunk_view_def)

text \<open>What a bucket shows depends on the disk and on the sums in the heap.\<close>

definition sums_kept :: "bio \<Rightarrow> bio \<Rightarrow> bool" where
  "sums_kept io io' \<longleftrightarrow> io_disk io' = io_disk io \<and> length (io_heap io) \<le> length (io_heap io') \<and>
     (\<forall>h < length (io_heap io). h_hsh (io_heap io' ! h) = h_hsh (io_heap io ! h))"

lemma sums_kept_grows: "heap_grows io io' \<Longrightarrow> sums_kept io io'"
  by (simp add: sums_kept_def heap_growsD)

lemma view_cong:
  assumes "io_disk io' = io_disk io"
  shows "chunk_view E b io' = chunk_view E b io" "hashes_loadable E b io' = hashes_loadable E b io"
    "view_at E b io' j = view_at E b io j"
proof -
  have f: "getSystemString io' f = getSystemString io f" for f
    by (simp add: getSystemString_def assms)
  show "chunk_view E b io' = chunk_view E b io" by (simp add: chunk_view_def f split: option.splits)
  then show "view_at E b io' j = view_at E b io j" by (simp add: view_at_def)
  show "hashes_loadable E b io' = hashes_loadable E b io"
    by (simp add: hashes_loadable_def f split: option.splits)
qed

lemma bucket_ok_kept:
  assumes "sums_kept io io'" "bucket_ok E b io"
  shows "bucket_ok E b io'"
proof -
  have d: "io_disk io' = io_disk io" using assms(1) by (simp add: sums_kept_def)
  have "hashes_sized H io'" if "hashes_sized H io" for H
    using that assms(1) by (fastforce simp: hashes_sized_def sums_kept_def)
  then show ?thesis using assms(2) view_cong [OF d] by (simp add: bucket_ok_def)
qed

text \<open>A bucket in another state that shows the same chunks and hashes.\<close>

definition same_bucket :: "env \<Rightarrow> bucket \<Rightarrow> bio \<Rightarrow> bucket \<Rightarrow> bio \<Rightarrow> bool" where
  "same_bucket E b io b' io' \<longleftrightarrow>
     heap_grows io io' \<and> bucket_ok E b' io' \<and> b_base b' = b_base b \<and> b_changes b' = b_changes b \<and>
     (b_hashes b' = None \<longrightarrow> b_hashes b = None \<and> b_hashChanges b' \<le> b_hashChanges b \<and>
        b_chunkChanges b' \<le> b_chunkChanges b) \<and>
     (\<forall>j < chunksInBucket. view_at E b' io' j = view_at E b io j) \<and>
     (\<forall>H. b_hashes b = Some H \<longrightarrow> b_hashes b' = Some H)"

lemma wp_bucket_getChunk:
  assumes ok: "bucket_ok E b io" and i: "i < chunksInBucket"
  shows "wp (bucket_getChunk E i) (\<lambda>c (b', io'). c = view_at E b io i \<and> same_bucket E b io b' io') (b, io)"
proof -
  obtain C where C: "chunk_view E b io = Inr C" "chunks_ok C" using ok by (auto simp: bucket_ok_def)
  have l: "hashes_loadable E b io" "\<forall>H. b_hashes b = Some H \<longrightarrow> hashes_sized H io"
    using ok by (simp_all add: bucket_ok_def)
  have same: "same_bucket E b io (b\<lparr>b_chunks := Some C, b_chunkChanges := n\<rparr>) io"
    if "n \<le> b_chunkChanges b" for n
    using C l that
    by (auto simp: same_bucket_def bucket_ok_def hashes_loadable_def view_at_def myfilenamehsh_def
        split: option.splits)
  have len: "length C = chunksInBucket" using C(2) by (simp add: chunks_ok_def)
  show ?thesis
    unfolding bucket_getChunk_def wp_bind
    by (rule wp_mono [OF wp_loadChunks [OF C(1)]])
      (use i len C(1) same in \<open>auto simp: array_at_def view_at_def\<close>)
qed

lemma wp_bucket_getHash:
  assumes ok: "bucket_ok E b io" and i: "i < chunksInBucket"
  shows "wp (bucket_getHash E i) (\<lambda>h (b', io'). same_bucket E b io b' io' \<and>
     (\<exists>H. b_hashes b' = Some H \<and> h = H ! i)) (b, io)"
proof -
  have l: "hashes_loadable E b io" "\<forall>H. b_hashes b = Some H \<longrightarrow> hashes_sized H io"
    using ok by (simp_all add: bucket_ok_def)
  have same: "same_bucket E b io (b\<lparr>b_hashes := Some H, b_hashChanges := n\<rparr>) io'"
    if "heap_grows io io'" "length H = chunksInBucket" "hashes_sized H io'" "b_hashes b \<noteq> None \<longrightarrow> b_hashes b = Some H" for H n io'
  proof -
    have v: "chunk_view E (b\<lparr>b_hashes := Some H, b_hashChanges := n\<rparr>) io' = chunk_view E b io"
      using view_cong(1) [OF heap_growsD(1) [OF that(1)], of E b]
      by (simp add: chunk_view_def myfilenamechnk_def split: option.splits)
    show ?thesis
      using ok that v by (auto simp: same_bucket_def bucket_ok_def hashes_loadable_def view_at_def)
  qed
  show ?thesis
    unfolding bucket_getHash_def wp_bind
    by (rule wp_mono [OF wp_loadHashes [OF l]]) (use i same in \<open>auto simp: array_at_def\<close>)
qed

lemma wp_putHashAndChunk:
  assumes ok: "bucket_ok E b io" and i: "i < chunksInBucket" and c: "length c = chunkSize"
    and h: "hashes_sized [h] io"
  shows "wp (putHashAndChunk E i h c) (\<lambda>_ (b', io'). heap_grows io io' \<and> bucket_ok E b' io' \<and>
    b_base b' = b_base b \<and> b_changes b' = b_changes b \<and>
    (\<forall>j < chunksInBucket. view_at E b' io' j = (if j = i then c else view_at E b io j)) \<and>
    (\<exists>H. b_hashes b' = Some H \<and> length H = chunksInBucket \<and> H ! i = h \<and>
       (\<forall>H0. b_hashes b = Some H0 \<longrightarrow> io' = io \<and> H = H0[i := h])) \<and>
    0 < b_chunkChanges b' \<and> 0 < b_hashChanges b') (b, io)"
proof -
  obtain C where C: "chunk_view E b io = Inr C" "chunks_ok C" using ok by (auto simp: bucket_ok_def)
  have hl: "hashes_loadable E b io" "\<forall>H. b_hashes b = Some H \<longrightarrow> hashes_sized H io"
    using ok by (simp_all add: bucket_ok_def)
  have view: "chunk_view E (b\<lparr>b_hashes := x, b_hashChanges := n\<rparr>) io' = Inr C"
    if "heap_grows io io'" for x n io'
    using C(1) that by (simp add: chunk_view_def myfilenamechnk_def split: option.splits)
  have lenC: "length C = chunksInBucket" using C(2) by (simp add: chunks_ok_def)
  show ?thesis
    unfolding putHashAndChunk_def wp_bind
  proof (rule wp_mono [OF wp_loadHashes [OF hl]], clarify)
    fix H b1 io1 n
    assume H: "heap_grows io io1" "length H = chunksInBucket" "hashes_sized H io1"
      "b_hashes b \<noteq> None \<longrightarrow> b_hashes b = Some H \<and> io1 = io"
    let ?b1 = "b\<lparr>b_hashes := Some H, b_hashChanges := n\<rparr>"
    have sz: "hashes_sized (H[i := h]) io1"
      using H(3) hashes_sized_grows [OF h H(1)]
      by (auto simp: hashes_sized_def dest: set_update_subset_insert [THEN subsetD])
    show "wp (loadChunks E) (\<lambda>C'. wp (on_bucket (\<lambda>b. b\<lparr>b_chunkChanges := Suc (b_chunkChanges b),
        b_hashChanges := Suc (b_hashChanges b)\<rparr>)) (\<lambda>_. wp (liftS (array_at H i)) (\<lambda>_.
        wp (on_bucket (\<lambda>b. b\<lparr>b_hashes := Some (H[i := h])\<rparr>)) (\<lambda>_. wp (liftS (array_at C' i)) (\<lambda>_.
        wp (on_bucket (\<lambda>b. b\<lparr>b_chunks := Some (C'[i := c])\<rparr>))
         (\<lambda>_ (b', io'). heap_grows io io' \<and> bucket_ok E b' io' \<and>
            b_base b' = b_base b \<and> b_changes b' = b_changes b \<and>
            (\<forall>j < chunksInBucket. view_at E b' io' j = (if j = i then c else view_at E b io j)) \<and>
            (\<exists>H. b_hashes b' = Some H \<and> length H = chunksInBucket \<and> H ! i = h \<and>
               (\<forall>H0. b_hashes b = Some H0 \<longrightarrow> io' = io \<and> H = H0[i := h])) \<and>
            0 < b_chunkChanges b' \<and> 0 < b_hashChanges b')))))) (?b1, io1)"
      by (rule wp_mono [OF wp_loadChunks [OF view [OF H(1)]]])
        (use i c H C lenC sz in \<open>auto simp: array_at_def bucket_ok_def hashes_loadable_def
            chunks_ok_update view_at_def nth_list_update\<close>)
  qed
qed

section \<open>Storing and loading again\<close>

lemma file_names [simp]:
  "myfilenamehsh b \<noteq> myfilenamechnk b'" "myfilenamechnk b \<noteq> myfilenamehsh b'"
proof -
  have "last (x @ ''.hsh'') \<noteq> last (y @ ''.chnk'')" for x y :: string by simp
  then show "myfilenamehsh b \<noteq> myfilenamechnk b'" "myfilenamechnk b \<noteq> myfilenamehsh b'"
    unfolding myfilenamehsh_def myfilenamechnk_def by metis+
qed

lemma decrypt_encrypt [simp]: "env_ok E \<Longrightarrow> decryptFile E (e_enc E n x) = Inr x"
  by (simp add: env_ok_def decryptFile_def)

lemma encrypt_length [simp]: "env_ok E \<Longrightarrow> length (e_enc E n x) = length x + e_over E"
  by (simp add: env_ok_def)

lemma encrypt_nonempty [simp]: "env_ok E \<Longrightarrow> 0 < length x \<Longrightarrow> e_enc E n x \<noteq> []"
  by (metis add_is_0 encrypt_length length_0_conv less_not_refl)

lemma byteSizes_pos [simp]: "0 < byteSizeChunks" "0 < byteSizeHashes"
  by (simp_all add: byteSizeChunks_def byteSizeHashes_def serializedHashSize_def)

lemma concat_chunks_length: "chunks_ok C \<Longrightarrow> length (concat C) = byteSizeChunks"
  using length_concat_blocks [of chunkSize C] by (simp add: chunks_ok_def byteSizeChunks_def)

lemma decode_encrypted_chunks:
  assumes "env_ok E" "chunks_ok C"
  shows "decode_chunks E (e_enc E n (concat C)) = Inr C"
proof -
  have "e_enc E n (concat C) \<noteq> []" using assms concat_chunks_length [OF assms(2)] by simp
  moreover have "steps_of chunkSize chunksInBucket (concat C) = C"
    using assms(2) steps_of_concat [of chunkSize C] by (simp add: chunks_ok_def)
  ultimately show ?thesis
    using assms concat_chunks_length [OF assms(2)] by (simp add: decode_chunks_def)
qed

text \<open>A hash object that its 48 byte record can hold.\<close>

definition storable_hash :: "hashobj \<Rightarrow> bool" where
  "storable_hash h \<longleftrightarrow>
     h_bucketIndex h < 2 ^ 64 \<and> - (2 ^ 63) \<le> h_refcnt h \<and> h_refcnt h < 2 ^ 63 \<and> length (h_hsh h) = 32"

lemma length_serializedHash [simp]: "length s = 32 \<Longrightarrow> length (serializedHash i r s) = serializedHashSize"
  by (simp add: serializedHash_def serializedHashSize_def)

definition hash_record :: "env \<Rightarrow> hashobj list \<Rightarrow> hid option \<Rightarrow> byte list" where
  "hash_record E heap L = (case L of
       Some h \<Rightarrow> serializedHash (h_bucketIndex (heap ! h)) (h_refcnt (heap ! h)) (h_hsh (heap ! h))
     | None \<Rightarrow> serializedHash 0 0 (e_sha E []))"

lemma hashes_cleartext_blocks:
  assumes "env_ok E" "\<forall>h. Some h \<in> set H \<longrightarrow> storable_hash (heap ! h)"
  shows "hashes_cleartext E heap H = concat (map (hash_record E heap) H)"
    "blocks_of serializedHashSize (map (hash_record E heap) H)"
    "length (hashes_cleartext E heap H) = length H * serializedHashSize"
proof -
  show eq: "hashes_cleartext E heap H = concat (map (hash_record E heap) H)"
    by (simp add: hashes_cleartext_def hash_record_def cong: map_cong)
  show bl: "blocks_of serializedHashSize (map (hash_record E heap) H)"
    using assms by (auto simp: blocks_of_def hash_record_def storable_hash_def env_ok_def split: option.splits)
  show "length (hashes_cleartext E heap H) = length H * serializedHashSize"
    using length_concat_blocks [OF bl] eq by simp
qed

lemma length_hashes_cleartext:
  assumes "env_ok E" "hashes_sized H io"
  shows "length (hashes_cleartext E (io_heap io) H) = length H * serializedHashSize"
proof -
  have "blocks_of serializedHashSize (map (hash_record E (io_heap io)) H)"
    using assms by (auto simp: blocks_of_def hash_record_def hashes_sized_def env_ok_def split: option.splits)
  moreover have "hashes_cleartext E (io_heap io) H = concat (map (hash_record E (io_heap io)) H)"
    by (simp add: hashes_cleartext_def hash_record_def cong: map_cong)
  ultimately show ?thesis using length_concat_blocks by fastforce
qed

text \<open>Reading records back: slot by slot the same object, without its data and flags.\<close>

definition reloaded :: "hashobj list \<Rightarrow> hid option \<Rightarrow> hashobj list \<Rightarrow> hid option \<Rightarrow> bool" where
  "reloaded heap L heap' L' \<longleftrightarrow>
     (case L of
        None \<Rightarrow> L' = None
      | Some h \<Rightarrow>
          if h_refcnt (heap ! h) > 0
          then (\<exists>h'. L' = Some h' \<and> h' < length heap' \<and>
                  heap' ! h' = (heap ! h)\<lparr>h_data := None, h_flags := 0\<rparr>)
          else L' = None)"

lemma reloaded_grows:
  assumes "reloaded heap L (io_heap io) L'" "heap_grows io io'"
  shows "reloaded heap L (io_heap io') L'"
  using assms heap_growsD(4,5) [OF assms(2)]
  by (fastforce simp: reloaded_def split: option.splits if_splits)

lemma load_hash_records_serialized:
  assumes "env_ok E" "\<forall>h. Some h \<in> set H \<longrightarrow> storable_hash (heap ! h)"
    and "load_hash_records (map (hash_record E heap) H) io = (H', io')"
  shows "\<forall>i < length H. reloaded heap (H ! i) (io_heap io') (H' ! i)"
  using assms(2,3)
proof (induction H arbitrary: io H' io')
  case (Cons L H)
  have st: "\<forall>h. Some h \<in> set H \<longrightarrow> storable_hash (heap ! h)" using Cons.prems(1) by simp
  have step: "\<forall>i < length (L # H). reloaded heap ((L # H) ! i) (io_heap io') ((L' # hs) ! i)"
    if r: "load_hash_records (map (hash_record E heap) H) io1 = (hs, io')"
      and L': "reloaded heap L (io_heap io1) L'" for L' hs io1
  proof (intro allI impI)
    fix i assume "i < length (L # H)"
    moreover have "heap_grows io1 io'" using load_hash_records_grows [OF r] by simp
    ultimately show "reloaded heap ((L # H) ! i) (io_heap io') ((L' # hs) ! i)"
      using Cons.IH [OF st r] reloaded_grows [OF L'] by (cases i) auto
  qed
  show ?case
  proof (cases L)
    case None
    have "deserializedHash (hash_record E heap L) = (0, 0, e_sha E [])"
      using assms(1) None by (simp add: hash_record_def deserialize_serializedHash env_ok_def)
    moreover obtain hs io2 where r: "load_hash_records (map (hash_record E heap) H) io = (hs, io2)"
      by fastforce
    ultimately have "H' = None # hs" "io' = io2" using Cons.prems(2) by simp_all
    then show ?thesis using step [of io hs None] r None by (simp add: reloaded_def)
  next
    case (Some h)
    let ?o = "heap ! h"
    have "storable_hash ?o" using Cons.prems(1) Some by simp
    then have d: "deserializedHash (hash_record E heap L) = (h_bucketIndex ?o, h_refcnt ?o, h_hsh ?o)"
      using Some by (simp add: hash_record_def deserialize_serializedHash storable_hash_def)
    show ?thesis
    proof (cases "h_refcnt ?o > 0")
      case True
      let ?new = "\<lparr>h_hsh = h_hsh ?o, h_bucketIndex = h_bucketIndex ?o, h_refcnt = h_refcnt ?o,
          h_data = None, h_flags = 0\<rparr>"
      obtain h1 io1 where al: "io_alloc ?new io = (h1, io1)" by fastforce
      obtain hs io2 where r: "load_hash_records (map (hash_record E heap) H) io1 = (hs, io2)" by fastforce
      have "H' = Some h1 # hs" "io' = io2" using Cons.prems(2) d True al r by simp_all
      moreover have "reloaded heap L (io_heap io1) (Some h1)"
        using al True Some by (auto simp: reloaded_def io_alloc_def)
      ultimately show ?thesis using step r by blast
    next
      case False
      obtain hs io2 where r: "load_hash_records (map (hash_record E heap) H) io = (hs, io2)"
        by fastforce
      then have "H' = None # hs" "io' = io2" using Cons.prems(2) d False by simp_all
      then show ?thesis using step [of io hs None] r Some False by (simp add: reloaded_def)
    qed
  qed
qed simp

text \<open>The files after a store with at least one hash.\<close>

lemma wp_bucket_store_full:
  assumes env: "env_ok E" and C: "b_chunks b = Some C" "chunks_ok C"
    and H: "b_hashes b = Some H" "length H = chunksInBucket" "\<exists>h \<in> set H. h \<noteq> None"
    and st: "\<forall>h. Some h \<in> set H \<longrightarrow> storable_hash (io_heap io ! h)"
    and ch: "b_hashChanges b \<noteq> 0 \<or> b_chunkChanges b \<noteq> 0"
  shows "wp (bucket_store E clr) (\<lambda>_ (b', io').
      getSystemString io' (myfilenamechnk b) = e_enc E (io_draws io) (concat C) \<and>
      getSystemString io' (myfilenamehsh b) =
        e_enc E (Suc (io_draws io)) (hashes_cleartext E (io_heap io) H) \<and>
      (\<forall>f. f \<noteq> myfilenamechnk b \<longrightarrow> f \<noteq> myfilenamehsh b \<longrightarrow> io_disk io' f = io_disk io f) \<and>
      io_heap io' = io_heap io \<and> b' = b\<lparr>b_changes := None, b_chunks := (if clr then None else Some C),
        b_hashChanges := 0, b_chunkChanges := 0\<rparr> \<and>
      io_dropped io' = io_dropped io @ (case b_changes b of None \<Rightarrow> [] | Some CL \<Rightarrow> CL)) (b, io)"
proof -
  have len: "length (hashes_cleartext E (io_heap io) H) = byteSizeHashes"
    using hashes_cleartext_blocks(3) [OF env st] H(2) by (simp add: byteSizeHashes_def)
  have ne: "e_enc E n (concat C) \<noteq> []" "e_enc E n (hashes_cleartext E (io_heap io) H) \<noteq> []" for n
    using env len concat_chunks_length [OF C(2)] by simp_all
  show ?thesis
    using env C H ch ne len concat_chunks_length [OF C(2)]
    by (auto simp: bucket_store_def putSystemString_def getSystemString_def)
qed

text \<open>
  Storing in general, with or without chunks in memory and hashes to write: the bucket still
  shows its chunks (dropping them from memory only if they were written), its files still
  load, and no other file is touched.
\<close>

definition stored_state :: "env \<Rightarrow> bucket \<Rightarrow> bio \<Rightarrow> bucket \<Rightarrow> bio \<Rightarrow> bool" where
  "stored_state E b io b' io' \<longleftrightarrow>
     io_heap io' = io_heap io \<and>
     (\<forall>f. f \<noteq> myfilenamechnk b \<longrightarrow> f \<noteq> myfilenamehsh b \<longrightarrow> io_disk io' f = io_disk io f) \<and>
     bucket_ok E (bucket_new (b_base b)) io' \<and> bucket_ok E b' io' \<and>
     b_base b' = b_base b \<and> b_hashes b' = b_hashes b \<and>
     (b_hashes b' = None \<longrightarrow> b_hashChanges b' = 0 \<and> b_chunkChanges b' = 0)"

lemma zero_chunks_concat: "concat (replicate n zero_chunk) = replicate (n * chunkSize) 0"
  by (induction n) (simp_all add: zero_chunk_def replicate_add)

lemma new_names [simp]:
  "myfilenamechnk (bucket_new (b_base b)) = myfilenamechnk b"
  "myfilenamehsh (bucket_new (b_base b)) = myfilenamehsh b"
  by (simp_all add: myfilenamechnk_def myfilenamehsh_def bucket_new_def)

lemma bucket_new_fields [simp]:
  "b_chunks (bucket_new f) = None" "b_hashes (bucket_new f) = None" "b_base (bucket_new f) = f"
  "b_hashChanges (bucket_new f) = 0" "b_chunkChanges (bucket_new f) = 0" "b_changes (bucket_new f) = None"
  by (simp_all add: bucket_new_def)

lemma bucket_new_ok:
  assumes "decode_chunks E (getSystemString io (myfilenamechnk b)) = Inr C"
    and "getSystemString io (myfilenamehsh b) = [] \<or>
         (\<exists>x. e_dec E (getSystemString io (myfilenamehsh b)) = Inr x \<and> length x = byteSizeHashes)"
  shows "bucket_ok E (bucket_new (b_base b)) io"
  using assms decode_chunks_ok [OF assms(1)]
  by (simp add: bucket_ok_def chunk_view_def hashes_loadable_def)

text \<open>The cleartext of the chunks is what the bucket shows, also when it is all zeros.\<close>

lemma cleartext_chunks:
  assumes "chunk_view E b io = Inr C" "b_chunks b \<noteq> None \<or> io_disk io (myfilenamechnk b) = None"
  shows "(case b_chunks b of Some C \<Rightarrow> concat C | None \<Rightarrow> replicate byteSizeChunks 0) = concat C"
  using assms
  by (auto simp: chunk_view_def decode_chunks_def getSystemString_def zero_chunks_concat
      byteSizeChunks_def split: option.splits)

lemma wp_bucket_store:
  assumes env: "env_ok E" and ok: "bucket_ok E b io" and dsk: "bucket_ok E (bucket_new (b_base b)) io"
    and ch: "b_hashes b = None \<longrightarrow> b_hashChanges b = 0 \<and> b_chunkChanges b = 0"
  shows "wp (bucket_store E clr) (\<lambda>_ (b', io'). stored_state E b io b' io' \<and>
      (b_hashChanges b \<noteq> 0 \<or> b_chunkChanges b \<noteq> 0 \<longrightarrow> b_changes b' = None) \<and>
      (\<not> clr \<or> (\<exists>H. b_hashes b = Some H \<and> (\<exists>h \<in> set H. h \<noteq> None)) \<longrightarrow>
        (\<forall>j. view_at E b' io' j = view_at E b io j))) (b, io)"
proof (cases "b_hashChanges b = 0 \<and> b_chunkChanges b = 0")
  case True
  then show ?thesis using ok dsk by (simp add: bucket_store_def stored_state_def)
next
  case False
  then obtain H where H: "b_hashes b = Some H" using ch by auto
  obtain C where C: "chunk_view E b io = Inr C" "chunks_ok C" using ok by (auto simp: bucket_ok_def)
  have hs: "hashes_sized H io" "length H = chunksInBucket"
    using ok H by (simp_all add: bucket_ok_def hashes_loadable_def)
  let ?X = "hashes_cleartext E (io_heap io) H"
  have lenX: "length ?X = byteSizeHashes"
    using length_hashes_cleartext [OF env hs(1)] hs(2) by (simp add: byteSizeHashes_def)
  have lenC: "length (concat C) = byteSizeChunks" by (rule concat_chunks_length [OF C(2)])
  let ?W = "b_chunks b \<noteq> None \<or> io_disk io (myfilenamechnk b) = None"
  let ?num = "\<exists>h \<in> set H. h \<noteq> None"
  let ?b' = "b\<lparr>b_changes := None, b_chunks := (if clr then None else b_chunks b),
      b_hashChanges := 0, b_chunkChanges := 0\<rparr>"
  let ?io = "io\<lparr>io_dropped := io_dropped io @ (case b_changes b of None \<Rightarrow> [] | Some CL \<Rightarrow> CL)\<rparr>"
  have names: "myfilenamechnk ?b' = myfilenamechnk b" "myfilenamehsh ?b' = myfilenamehsh b"
    by (simp_all add: myfilenamechnk_def myfilenamehsh_def)
  show ?thesis
  proof (cases ?num)
    case num: True
    let ?n = "if ?W then Suc (io_draws io) else io_draws io"
    let ?disk = "(if ?W then (io_disk io)(myfilenamechnk b \<mapsto> e_enc E (io_draws io) (concat C)) else io_disk io)
        (myfilenamehsh b \<mapsto> e_enc E ?n ?X)"
    let ?io' = "?io\<lparr>io_draws := Suc ?n, io_disk := ?disk\<rparr>"
    have run: "wp (bucket_store E clr) Q (b, io)" if "Q () (?b', ?io')" for Q :: "unit \<Rightarrow> bucket \<times> bio \<Rightarrow> bool"
    proof (cases b)
      case (fields base chunks hashes changes cc hc)
      then show ?thesis
        using that False H num env lenX lenC cleartext_chunks [OF C(1)]
        by (cases chunks; cases clr; cases "io_disk io (myfilenamechnk b)")
          (auto simp: bucket_store_def putSystemString_def)
    qed
    have dec: "decode_chunks E (getSystemString ?io' (myfilenamechnk b)) = Inr C"
      using C decode_encrypted_chunks [OF env C(2)]
      by (auto simp: getSystemString_def chunk_view_def split: option.splits)
    have hsh: "e_dec E (getSystemString ?io' (myfilenamehsh b)) = Inr ?X"
      using env by (simp add: getSystemString_def env_ok_def)
    have new: "bucket_ok E (bucket_new (b_base b)) ?io'"
      using bucket_new_ok [OF dec] hsh lenX by blast
    have view: "chunk_view E ?b' ?io' = Inr C"
      using dec C(1) names by (auto simp: chunk_view_def split: option.splits)
    have sized: "hashes_sized H ?io'" using hs(1) by (simp add: hashes_sized_def)
    have "bucket_ok E ?b' ?io'"
      using view C(2) H hs(2) sized by (simp add: bucket_ok_def hashes_loadable_def)
    with new view C(1) show ?thesis
      by (intro run) (simp add: stored_state_def H view_at_def)
  next
    case num: False
    let ?io' = "?io\<lparr>io_draws := (if ?W then Suc (io_draws io) else io_draws io)\<rparr>"
    have run: "wp (bucket_store E clr) Q (b, io)" if "Q () (?b', ?io')" for Q :: "unit \<Rightarrow> bucket \<times> bio \<Rightarrow> bool"
    proof (cases b)
      case (fields base chunks hashes changes cc hc)
      then show ?thesis
        using that False H num env lenX lenC cleartext_chunks [OF C(1)]
        by (cases chunks; cases clr; cases "io_disk io (myfilenamechnk b)")
          (auto simp: bucket_store_def putSystemString_def)
    qed
    have kept: "sums_kept io ?io'" by (simp add: sums_kept_def)
    have new: "bucket_ok E (bucket_new (b_base b)) ?io'" by (rule bucket_ok_kept [OF kept dsk])
    have v: "chunk_view E ?b' ?io' = (if clr then chunk_view E (bucket_new (b_base b)) ?io' else Inr C)"
      using C(1) names by (auto simp: chunk_view_def getSystemString_def split: option.splits)
    have "bucket_ok E ?b' ?io'"
      using v new C(2) H hs by (auto simp: bucket_ok_def hashes_loadable_def hashes_sized_def)
    with new v C(1) show ?thesis
      using num by (intro run) (auto simp: stored_state_def H view_at_def)
  qed
qed

section \<open>Properties\<close>

text \<open>C3: storing a bucket that holds at least one hash succeeds, and a bucket object made
  afterwards on the same files loads the same 256 chunks and, slot by slot, the same hashes
  (those with a positive reference count, with their sum, slot name and count, and no cached data);
  the journal references of the change log are let go, in order.\<close>

theorem bucket_store_reload:
  assumes "env_ok E" and "b_chunks b = Some C" and "chunks_ok C"
    and "b_hashes b = Some H" and "length H = chunksInBucket" and "\<exists>h \<in> set H. h \<noteq> None"
    and "\<forall>h. Some h \<in> set H \<longrightarrow> storable_hash (io_heap io ! h)"
    and "b_hashChanges b \<noteq> 0 \<or> b_chunkChanges b \<noteq> 0"
  shows "\<exists>b' io'. bucket_store E clr (b, io) = Inr ((), (b', io')) \<and>
    io_dropped io' = io_dropped io @ (case b_changes b of None \<Rightarrow> [] | Some CL \<Rightarrow> CL) \<and>
    wp (loadChunks E) (\<lambda>C' _. C' = C) (bucket_new (b_base b), io') \<and>
    wp (loadHashes E) (\<lambda>H' (b'', io''). length H' = chunksInBucket \<and>
      (\<forall>i < chunksInBucket. reloaded (io_heap io) (H ! i) (io_heap io'') (H' ! i)))
      (bucket_new (b_base b), io')"
proof -
  obtain b' io' where run: "bucket_store E clr (b, io) = Inr ((), (b', io'))"
    and f: "getSystemString io' (myfilenamechnk b) = e_enc E (io_draws io) (concat C)"
      "getSystemString io' (myfilenamehsh b) =
        e_enc E (Suc (io_draws io)) (hashes_cleartext E (io_heap io) H)"
      "io_heap io' = io_heap io"
      "io_dropped io' = io_dropped io @ (case b_changes b of None \<Rightarrow> [] | Some CL \<Rightarrow> CL)"
    by (rule wpE [OF wp_bucket_store_full [OF assms, of clr]]) auto
  let ?n = "bucket_new (b_base b)"
  have names: "myfilenamechnk ?n = myfilenamechnk b" "myfilenamehsh ?n = myfilenamehsh b"
    by (simp_all add: myfilenamechnk_def myfilenamehsh_def bucket_new_def)
  have "chunk_view E ?n io' = Inr C"
    using decode_encrypted_chunks [OF assms(1,3)] names f(1) by (simp add: chunk_view_def bucket_new_def)
  then have chunks: "wp (loadChunks E) (\<lambda>C' _. C' = C) (?n, io')"
    by (rule wp_mono [OF wp_loadChunks]) auto
  let ?x = "hashes_cleartext E (io_heap io) H"
  note X = hashes_cleartext_blocks [OF assms(1,7)]
  have len: "length ?x = byteSizeHashes" using X(3) assms(5) by (simp add: byteSizeHashes_def)
  have recs: "steps_of serializedHashSize chunksInBucket ?x = map (hash_record E (io_heap io)) H"
    using steps_of_concat [OF X(2)] assms(5) X(1) by simp
  obtain H' io2 where r: "load_hash_records (map (hash_record E (io_heap io)) H) io' = (H', io2)"
    by fastforce
  have ne: "e_enc E (Suc (io_draws io)) ?x \<noteq> []" using assms(1) len by simp
  have "wp (loadHashes E) (\<lambda>H' (b'', io''). length H' = chunksInBucket \<and>
      (\<forall>i < chunksInBucket. reloaded (io_heap io) (H ! i) (io_heap io'') (H' ! i))) (?n, io')"
    using load_hash_records_grows [OF r] load_hash_records_serialized [OF assms(1,7) r]
      assms(1,5) len recs ne r f(2) names
    by (simp add: loadHashes_def bucket_new_def)
  with run f(4) chunks show ?thesis by blast
qed

text \<open>C14: storing a bucket that holds no hash (every slot was cleared) writes neither file: the disk keeps
  what an earlier store wrote, so that the cleared hashes are read again by the next load of
  the bucket.\<close>

theorem bucket_store_keeps_stale_files:
  assumes "env_ok E" and "b_chunks b = Some C" and "chunks_ok C"
    and "b_hashes b = Some H" and "\<forall>h \<in> set H. h = None"
  shows "\<exists>b' io'. bucket_store E clr (b, io) = Inr ((), (b', io')) \<and> io_disk io' = io_disk io \<and>
    b_hashChanges b' = 0 \<and> b_chunkChanges b' = 0"
proof -
  have "wp (bucket_store E clr) (\<lambda>_ (b', io'). io_disk io' = io_disk io \<and>
      b_hashChanges b' = 0 \<and> b_chunkChanges b' = 0) (b, io)"
    using assms concat_chunks_length [OF assms(3)] by (auto simp: bucket_store_def)
  then show ?thesis by (auto simp: wp_run)
qed

text \<open>
  An environment for the witnesses: a ciphertext is the plaintext with a fixed byte in front, and the sum
  of a byte string is its first 32 bytes, padded.
\<close>

definition sample_env :: env where
  "sample_env =
     \<lparr>e_sha = (\<lambda>x. take 32 (x @ replicate 32 0)), e_enc = (\<lambda>n x. of_nat n # x),
      e_dec = (\<lambda>c. case c of [] \<Rightarrow> Inl (StdExn ''logic_error'') | _ # x \<Rightarrow> Inr x), e_over = 1,
      e_bucketName = (\<lambda>n. ''b'' @ replicate n CHR ''x''), e_path = ''/s/''\<rparr>"

lemma sample_env_ok: "env_ok sample_env"
  by (simp add: env_ok_def sample_env_def min_def)

definition sample_hash :: hashobj where
  "sample_hash = \<lparr>h_hsh = replicate 32 7, h_bucketIndex = bucketIndex 3 5, h_refcnt = 2,
     h_data = None, h_flags = 0\<rparr>"

definition sample_bucket :: "hid option list \<Rightarrow> bucket" where
  "sample_bucket H = (bucket_new ''/s/dta/bx/bxxx'')\<lparr>b_chunks := Some (replicate chunksInBucket zero_chunk),
     b_hashes := Some H, b_changes := Some [4, 9], b_hashChanges := 1\<rparr>"

definition sample_io :: "bio" where
  "sample_io = \<lparr>io_heap = [sample_hash], io_disk = (\<lambda>_. None), io_draws = 0, io_dropped = []\<rparr>"

lemma bucket_store_reload_witness:
  "\<exists>b' io'. bucket_store sample_env True
      (sample_bucket (Some 0 # replicate 255 None), sample_io) = Inr ((), (b', io')) \<and> io_dropped io' = [4, 9]"
proof -
  let ?H = "Some 0 # replicate 255 (None :: hid option)"
  let ?b = "sample_bucket ?H"
  have st: "\<forall>h. Some h \<in> set ?H \<longrightarrow> storable_hash (io_heap sample_io ! h)"
    by (simp add: sample_io_def sample_hash_def storable_hash_def bucketIndex_def)
  have b: "b_chunks ?b = Some (replicate chunksInBucket zero_chunk)" "b_hashes ?b = Some ?H"
    "b_hashChanges ?b \<noteq> 0 \<or> b_chunkChanges ?b \<noteq> 0"
    by (simp_all add: sample_bucket_def)
  have H: "length ?H = chunksInBucket" "\<exists>h \<in> set ?H. h \<noteq> None" by (simp_all add: chunksInBucket_def)
  show ?thesis
    using bucket_store_reload [OF sample_env_ok b(1) chunks_ok_zero b(2) H st b(3), of True]
    by (auto simp: sample_bucket_def sample_io_def)
qed

lemma bucket_store_keeps_stale_files_witness:
  "\<exists>b' io'. bucket_store sample_env True (sample_bucket (replicate 256 None), sample_io) = Inr ((), (b', io')) \<and>
     io_disk io' = io_disk sample_io"
proof -
  have b: "b_chunks (sample_bucket (replicate 256 None)) = Some (replicate chunksInBucket zero_chunk)"
    "b_hashes (sample_bucket (replicate 256 None)) = Some (replicate 256 None)"
    by (simp_all add: sample_bucket_def)
  show ?thesis
    using bucket_store_keeps_stale_files [OF sample_env_ok b(1) chunks_ok_zero b(2), of True sample_io]
    by auto
qed

end
