(* ===== verification/Accounting.thy ===== *)
theory Accounting
  imports Chunk
begin

text \<open>
  The free-slot accounting of a bucket set:
  \<^verbatim>\<open>src/src/modules/filesystem/bucketaccounting.h\<close> and \<^verbatim>\<open>bucketaccounting.cpp\<close>.
  A fixed array of nodes is threaded by two linked stacks, the slots that can be handed
  out (\<^verbatim>\<open>availableList\<close>) and the nodes without a slot (\<^verbatim>\<open>freeList\<close>). Pointers
  are array positions. The compare-and-swap loops of the stack operations run without
  interference here, so each succeeds at its first attempt. The calls
  \<^verbatim>\<open>info->removeBucket(b)\<close> are returned as the list of the buckets to remove, in call
  order; \<^verbatim>\<open>info->createNewBucket\<close> does nothing in the source.
\<close>

section \<open>State\<close>

definition maxBuckets :: nat where "maxBuckets = 10"

record accounting =
  acc_data :: "bucketIndex_t list"
  acc_next :: "nat option list"
  availableList :: "nat option"
  freeList :: "nat option"
  hint :: nat
  bucketsInUse :: "nat list"

section \<open>The linked stacks\<close>

definition insertIntoList :: "nat \<Rightarrow> nat option list \<times> nat option \<Rightarrow> nat option list \<times> nat option" where
  "insertIntoList newNode s = ((fst s)[newNode := snd s], Some newNode)"

definition takeFromList :: "nat option list \<times> nat option \<Rightarrow> nat option \<times> nat option" where
  "takeFromList s =
     (case snd s of None \<Rightarrow> (None, None) | Some expected \<Rightarrow> (Some expected, fst s ! expected))"

definition stealList :: "nat option \<Rightarrow> nat option \<times> nat option" where
  "stealList l = (l, None)"

definition cleanRecords :: "nat \<Rightarrow> nat option list" where
  "cleanRecords n = map (\<lambda>a. if Suc a < n then Some (Suc a) else None) [0..<n]"

definition acc_new :: "nat list \<Rightarrow> accounting" where
  "acc_new buckets =
     \<lparr>acc_data = replicate (chunksInBucket * maxBuckets) 0,
      acc_next = cleanRecords (chunksInBucket * maxBuckets),
      availableList = None, freeList = Some 0, hint = 1, bucketsInUse = buckets\<rparr>"

definition acc_getBucketsInUse :: "accounting \<Rightarrow> nat list" where
  "acc_getBucketsInUse a = bucketsInUse a"

section \<open>Making and releasing buckets\<close>

text \<open>\<^verbatim>\<open>while(bucketsInUse.find(hint) != end) ++hint\<close>: the set is finite, so the search ends.\<close>

function skip_used :: "nat list \<Rightarrow> nat \<Rightarrow> nat" where
  "skip_used used h = (if h \<in> set used then skip_used used (Suc h) else h)"
  by pat_completeness auto
termination
proof (relation "measure (\<lambda>(used, h). card {x \<in> set used. h \<le> x})")
  fix used :: "nat list" and h :: nat
  assume h: "h \<in> set used"
  have "{x \<in> set used. Suc h \<le> x} \<subseteq> {x \<in> set used. h \<le> x}"
    by (blast intro: Suc_leD)
  moreover have "h \<in> {x \<in> set used. h \<le> x}" "h \<notin> {x \<in> set used. Suc h \<le> x}"
    using h by simp_all
  ultimately have "{x \<in> set used. Suc h \<le> x} \<subset> {x \<in> set used. h \<le> x}"
    by blast
  then have "card {x \<in> set used. Suc h \<le> x} < card {x \<in> set used. h \<le> x}"
    by (intro psubset_card_mono) simp_all
  then show "((used, Suc h), used, h) \<in> measure (\<lambda>(used, h). card {x \<in> set used. h \<le> x})"
    by (simp only: in_measure split)
qed (rule wf_measure)

declare skip_used.simps [simp del]

text \<open>
  The loop of \<^verbatim>\<open>createBuckets\<close>: the buckets chosen, the final \<^verbatim>\<open>hint\<close>, and the
  slots written to \<^verbatim>\<open>_records[0], _records[1], \<dots>\<close> in order.
\<close>

fun create_loop :: "nat \<Rightarrow> nat list \<Rightarrow> nat \<Rightarrow> nat list \<times> nat \<times> bucketIndex_t list" where
  "create_loop 0 used h = (used, h, [])"
| "create_loop (Suc n) used h =
     (let my = skip_used used h;
          (used', h', ds) = create_loop n (insort_insert my used) (Suc my)
      in (used', h', map (bucketIndex my) [0..<chunksInBucket] @ ds))"

definition createBuckets :: "accounting \<Rightarrow> accounting res" where
  "createBuckets a =
     (let (used, h, ds) = create_loop maxBuckets (bucketsInUse a) (hint a)
      in bindR (assertR (length ds = length (acc_data a))) (\<lambda>_.
         Inr (a\<lparr>acc_data := ds, acc_next := cleanRecords (length ds),
                availableList := Some 0, freeList := None, hint := h, bucketsInUse := used\<rparr>)))"

text \<open>The buckets of which every slot is in some record, in ascending order (a \<^verbatim>\<open>std::set\<close>).\<close>

definition full_buckets :: "bucketIndex_t list \<Rightarrow> nat list" where
  "full_buckets ds =
     filter (\<lambda>b. count_list (map bucket_of ds) b = chunksInBucket)
       (sorted_list_of_set (bucket_of ` set ds))"

text \<open>Popping the collected nodes from the back pushes the last node first.\<close>

definition push_back_all :: "nat list \<Rightarrow> nat option list \<times> nat option \<Rightarrow> nat option list \<times> nat option" where
  "push_back_all ns s = foldr insertIntoList ns s"

definition releaseBuckets :: "accounting \<Rightarrow> (accounting \<times> nat list) res" where
  "releaseBuckets a =
     bindR (assertR (freeList a = None)) (\<lambda>_.
     let (myList, av0) = stealList (availableList a) in
     bindR (assertR (myList \<noteq> None)) (\<lambda>_.
     let toDelete = full_buckets (acc_data a) in
     bindR (assertAs Fragmented (toDelete \<noteq> [])) (\<lambda>_.
     let gone = (\<lambda>n. acc_data a ! n = 0 \<or> bucket_of (acc_data a ! n) \<in> set toDelete);
         nodes = [0..<length (acc_data a)];
         data' = map (\<lambda>n. if gone n then 0 else acc_data a ! n) nodes;
         (nx1, fr) = push_back_all (filter gone nodes) (acc_next a, freeList a);
         (nx2, av) = push_back_all (filter (\<lambda>n. \<not> gone n) nodes) (nx1, av0)
     in bindR (assertR (fr \<noteq> None)) (\<lambda>_.
        Inr (a\<lparr>acc_data := data', acc_next := nx2, availableList := av, freeList := fr,
               bucketsInUse := fold remove1 toDelete (bucketsInUse a)\<rparr>, toDelete)))))"

section \<open>post and fetch\<close>

text \<open>
  Both are \<^verbatim>\<open>while(true)\<close> loops. \<open>None\<close> is a loop that never ends (both stacks empty);
  the last argument collects the buckets removed so far.
\<close>

definition post_node :: "accounting \<Rightarrow> nat \<Rightarrow> nat option \<Rightarrow> bucketIndex_t \<Rightarrow> accounting" where
  "post_node a node fr d =
     (let (nx, av) = insertIntoList node (acc_next a, availableList a)
      in a\<lparr>acc_data := (acc_data a)[node := d], acc_next := nx, availableList := av, freeList := fr\<rparr>)"

definition fetch_node :: "accounting \<Rightarrow> nat \<Rightarrow> nat option \<Rightarrow> bucketIndex_t \<times> accounting" where
  "fetch_node a node av =
     (let (nx, fr) = insertIntoList node (acc_next a, freeList a)
      in (acc_data a ! node,
          a\<lparr>acc_data := (acc_data a)[node := 0], acc_next := nx, availableList := av, freeList := fr\<rparr>))"

partial_function (option) post_loop ::
    "accounting \<Rightarrow> bucketIndex_t \<Rightarrow> nat list \<Rightarrow> (accounting \<times> nat list) res option" where
  "post_loop a d removed =
     (case takeFromList (acc_next a, freeList a) of
        (Some node, fr) \<Rightarrow> Some (Inr (post_node a node fr d, removed))
      | (None, fr) \<Rightarrow>
          if freeList a = None \<and> availableList a \<noteq> None
          then (case releaseBuckets a of
                  Inl e \<Rightarrow> Some (Inl e)
                | Inr (a', del) \<Rightarrow> post_loop a' d (removed @ del))
          else post_loop a d removed)"

partial_function (option) fetch_loop :: "accounting \<Rightarrow> (bucketIndex_t \<times> accounting) res option" where
  "fetch_loop a =
     (case takeFromList (acc_next a, availableList a) of
        (Some node, av) \<Rightarrow> Some (Inr (fetch_node a node av))
      | (None, av) \<Rightarrow>
          if availableList a = None \<and> freeList a \<noteq> None
          then (case createBuckets a of Inl e \<Rightarrow> Some (Inl e) | Inr a' \<Rightarrow> fetch_loop a')
          else fetch_loop a)"

definition acc_post :: "accounting \<Rightarrow> bucketIndex_t \<Rightarrow> (accounting \<times> nat list) res" where
  "acc_post a d = (case post_loop a d [] of None \<Rightarrow> Inl Hang | Some r \<Rightarrow> r)"

definition acc_fetch :: "accounting \<Rightarrow> (bucketIndex_t \<times> accounting) res" where
  "acc_fetch a = (case fetch_loop a of None \<Rightarrow> Inl Hang | Some r \<Rightarrow> r)"

end
