(* ===== verification/Accounting_Pool.thy ===== *)
theory Accounting_Pool
  imports Accounting
begin

text \<open>
  What the slot accounting promises: the invariant of the two linked stacks, the
  abstraction to the list of slots on offer, the behaviour of \<^verbatim>\<open>fetch\<close> and
  \<^verbatim>\<open>post\<close> on it, and the locale \<open>id_pool\<close> that the storage layer uses.
\<close>

section \<open>Linked stacks in the node array\<close>

fun lseg :: "nat option list \<Rightarrow> nat option \<Rightarrow> nat list \<Rightarrow> bool" where
  "lseg nx p [] \<longleftrightarrow> p = None"
| "lseg nx p (x # xs) \<longleftrightarrow> p = Some x \<and> x < length nx \<and> lseg nx (nx ! x) xs"

fun walk :: "nat \<Rightarrow> nat option list \<Rightarrow> nat option \<Rightarrow> nat list" where
  "walk 0 nx p = []"
| "walk (Suc k) nx p = (case p of None \<Rightarrow> [] | Some n \<Rightarrow> n # walk k nx (nx ! n))"

lemma lseg_walk: "lseg nx p xs \<Longrightarrow> length xs \<le> k \<Longrightarrow> walk k nx p = xs"
proof (induction xs arbitrary: p k)
  case Nil
  then show ?case by (cases k) auto
next
  case (Cons x xs)
  then show ?case by (cases k) auto
qed

lemma lseg_frame: "x \<notin> set xs \<Longrightarrow> lseg (nx[x := v]) p xs \<longleftrightarrow> lseg nx p xs"
  by (induction xs arbitrary: p) auto

lemma lseg_push: "lseg nx p xs \<Longrightarrow> n \<notin> set xs \<Longrightarrow> n < length nx \<Longrightarrow> lseg (nx[n := p]) (Some n) (n # xs)"
  by (simp add: lseg_frame)

lemma lseg_None: "lseg nx None xs \<longleftrightarrow> xs = []"
  by (cases xs) auto

lemma length_cleanRecords [simp]: "length (cleanRecords n) = n"
  by (simp add: cleanRecords_def)

lemma nth_cleanRecords [simp]:
  "i < n \<Longrightarrow> cleanRecords n ! i = (if Suc i < n then Some (Suc i) else None)"
  by (simp add: cleanRecords_def)

lemma lseg_cleanRecords:
  "lseg (cleanRecords n) (if k < n then Some k else None) [k..<n]"
proof (induction "n - k" arbitrary: k)
  case 0
  then show ?case by simp
next
  case (Suc m)
  then have k: "k < n" by simp
  have "lseg (cleanRecords n) (if Suc k < n then Some (Suc k) else None) [Suc k..<n]"
    using Suc.hyps by (intro Suc.hyps(1)) simp
  then show ?case
    using k by (simp only: upt_conv_Cons lseg.simps nth_cleanRecords length_cleanRecords if_True simp_thms)
qed

lemma push_back_all_lseg:
  assumes "lseg nx p xs" "distinct ns" "set ns \<inter> set xs = {}" "\<forall>n \<in> set ns. n < length nx"
    and "push_back_all ns (nx, p) = (nx', p')"
  shows "lseg nx' p' (ns @ xs)" "length nx' = length nx"
    and "\<And>q ys. set ys \<inter> set ns = {} \<Longrightarrow> lseg nx' q ys \<longleftrightarrow> lseg nx q ys"
proof -
  have "lseg nx' p' (ns @ xs) \<and> length nx' = length nx \<and>
      (\<forall>q ys. set ys \<inter> set ns = {} \<longrightarrow> (lseg nx' q ys \<longleftrightarrow> lseg nx q ys))"
    using assms
  proof (induction ns arbitrary: nx' p')
    case Nil
    then show ?case by (simp add: push_back_all_def)
  next
    case (Cons n ns)
    obtain nx1 p1 where r: "push_back_all ns (nx, p) = (nx1, p1)" by fastforce
    then have nx': "nx' = nx1[n := p1]" "p' = Some n"
      using Cons.prems by (simp_all add: push_back_all_def insertIntoList_def)
    have IH: "lseg nx1 p1 (ns @ xs)" "length nx1 = length nx"
        "\<forall>q ys. set ys \<inter> set ns = {} \<longrightarrow> (lseg nx1 q ys \<longleftrightarrow> lseg nx q ys)"
      using Cons.IH [OF Cons.prems(1) _ _ _ r] Cons.prems by auto
    have fresh: "n \<notin> set (ns @ xs)" using Cons.prems by auto
    have "lseg nx' p' ((n # ns) @ xs)"
      using lseg_push [OF IH(1) fresh] IH(2) Cons.prems(4) unfolding nx'
      by (simp del: lseg.simps add: append_Cons)
    moreover have "lseg nx' q ys \<longleftrightarrow> lseg nx q ys" if "set ys \<inter> set (n # ns) = {}" for q ys
    proof -
      have "n \<notin> set ys" using that by auto
      then show ?thesis using that IH(3) nx' by (simp add: lseg_frame)
    qed
    ultimately show ?case using IH(2) nx'(1) by (simp del: lseg.simps)
  qed
  then show "lseg nx' p' (ns @ xs)" "length nx' = length nx"
    "\<And>q ys. set ys \<inter> set ns = {} \<Longrightarrow> lseg nx' q ys \<longleftrightarrow> lseg nx q ys" by simp_all
qed

section \<open>The invariant\<close>

definition acc_size :: nat where "acc_size = chunksInBucket * maxBuckets"

lemma acc_size_pos [simp]: "0 < acc_size" "acc_size \<noteq> 0"
  by (simp_all add: acc_size_def maxBuckets_def)

definition acc_avail :: "accounting \<Rightarrow> nat list" where
  "acc_avail a = walk acc_size (acc_next a) (availableList a)"

definition acc_free :: "accounting \<Rightarrow> nat list" where
  "acc_free a = walk acc_size (acc_next a) (freeList a)"

text \<open>The slots on offer, in the order in which \<^verbatim>\<open>fetch\<close> hands them out.\<close>

definition acc_ids :: "accounting \<Rightarrow> bucketIndex_t list" where
  "acc_ids a = map (\<lambda>n. acc_data a ! n) (acc_avail a)"

definition used_ok :: "nat list \<Rightarrow> bool" where
  "used_ok used \<longleftrightarrow> sorted used \<and> distinct used \<and> (\<forall>b \<in> set used. 0 < b \<and> b < 2 ^ 56)"

definition stacks_ok :: "accounting \<Rightarrow> nat list \<Rightarrow> nat list \<Rightarrow> bool" where
  "stacks_ok a avs frs \<longleftrightarrow>
     length (acc_next a) = acc_size \<and> length (acc_data a) = acc_size \<and>
     lseg (acc_next a) (availableList a) avs \<and> lseg (acc_next a) (freeList a) frs \<and>
     distinct (avs @ frs) \<and> set (avs @ frs) = {..<acc_size}"

definition acc_inv :: "accounting \<Rightarrow> bool" where
  "acc_inv a \<longleftrightarrow>
     stacks_ok a (acc_avail a) (acc_free a) \<and> distinct (acc_ids a) \<and> 0 < hint a \<and>
     used_ok (bucketsInUse a) \<and> (\<forall>i \<in> set (acc_ids a). bucket_of i \<in> set (bucketsInUse a))"

lemma stacks_ok_length: "stacks_ok a avs frs \<Longrightarrow> length avs + length frs = acc_size"
  unfolding stacks_ok_def by (metis card_lessThan distinct_card length_append)

lemma stacks_ok_walk:
  assumes "stacks_ok a avs frs"
  shows "acc_avail a = avs" "acc_free a = frs"
  using assms stacks_ok_length [OF assms]
  by (auto simp: stacks_ok_def acc_avail_def acc_free_def intro: lseg_walk)

text \<open>The invariant from explicit stacks, the form in which every operation establishes it.\<close>

lemma acc_invI:
  assumes "stacks_ok a avs frs" "distinct (map (\<lambda>n. acc_data a ! n) avs)" "0 < hint a"
    and "used_ok (bucketsInUse a)"
    and "\<forall>n \<in> set avs. bucket_of (acc_data a ! n) \<in> set (bucketsInUse a)"
  shows "acc_inv a \<and> acc_ids a = map (\<lambda>n. acc_data a ! n) avs \<and> acc_free a = frs"
  using assms stacks_ok_walk [OF assms(1)] by (simp add: acc_inv_def acc_ids_def)

lemma acc_invD:
  assumes "acc_inv a"
  shows "stacks_ok a (acc_avail a) (acc_free a)" "distinct (acc_ids a)" "0 < hint a"
    "used_ok (bucketsInUse a)" "\<And>i. i \<in> set (acc_ids a) \<Longrightarrow> bucket_of i \<in> set (bucketsInUse a)"
  using assms by (simp_all add: acc_inv_def)

text \<open>A slot of a bucket in use is never the null index.\<close>

lemma used_nonzero: "used_ok used \<Longrightarrow> bucket_of i \<in> set used \<Longrightarrow> i \<noteq> 0"
  by (auto simp: used_ok_def bucket_of_def)

lemma acc_new_inv:
  assumes "used_ok buckets"
  shows "acc_inv (acc_new buckets)" "acc_ids (acc_new buckets) = []"
    "acc_free (acc_new buckets) = [0..<acc_size]"
proof -
  have "stacks_ok (acc_new buckets) [] [0..<acc_size]"
    using lseg_cleanRecords [of acc_size 0]
    by (auto simp: stacks_ok_def acc_new_def acc_size_def [symmetric])
  from acc_invI [OF this] assms
  show "acc_inv (acc_new buckets)" "acc_ids (acc_new buckets) = []"
    "acc_free (acc_new buckets) = [0..<acc_size]"
    by (simp_all add: acc_new_def)
qed

section \<open>fetch and post on a non-empty stack\<close>

lemma fetch_node_ok:
  assumes inv: "acc_inv a" and av: "acc_avail a = n # avs"
  shows "let (i, a') = fetch_node a n (acc_next a ! n) in
      acc_inv a' \<and> acc_ids a = i # acc_ids a' \<and> bucketsInUse a' = bucketsInUse a \<and>
      hint a' = hint a \<and> acc_free a' = n # acc_free a"
proof -
  let ?a' = "snd (fetch_node a n (acc_next a ! n))"
  have st: "stacks_ok a (n # avs) (acc_free a)" using acc_invD(1) [OF inv] av by simp
  then have n: "n < length (acc_data a)" "n \<notin> set avs" "n \<notin> set (acc_free a)"
    by (auto simp: stacks_ok_def)
  have st': "stacks_ok ?a' avs (n # acc_free a)"
    using st n by (auto simp: stacks_ok_def fetch_node_def insertIntoList_def lseg_frame)
  have ids: "map (\<lambda>m. acc_data ?a' ! m) avs = map (\<lambda>m. acc_data a ! m) avs"
    using n by (auto simp: fetch_node_def insertIntoList_def nth_list_update)
  have aids: "acc_ids a = acc_data a ! n # map (\<lambda>m. acc_data a ! m) avs"
    by (simp add: acc_ids_def av)
  have "acc_inv ?a' \<and> acc_ids ?a' = map (\<lambda>m. acc_data ?a' ! m) avs \<and> acc_free ?a' = n # acc_free a"
  proof (rule acc_invI [OF st'])
    show "distinct (map (\<lambda>m. acc_data ?a' ! m) avs)"
      using acc_invD(2) [OF inv] by (simp add: ids aids)
    show "0 < hint ?a'" "used_ok (bucketsInUse ?a')"
      using acc_invD(3,4) [OF inv] by (simp_all add: fetch_node_def insertIntoList_def)
    have "\<forall>i \<in> set (map (\<lambda>m. acc_data ?a' ! m) avs). bucket_of i \<in> set (bucketsInUse a)"
      using acc_invD(5) [OF inv] unfolding ids aids by auto
    then show "\<forall>m \<in> set avs. bucket_of (acc_data ?a' ! m) \<in> set (bucketsInUse ?a')"
      by (simp add: fetch_node_def insertIntoList_def)
  qed
  then show ?thesis
    using ids aids by (simp add: fetch_node_def insertIntoList_def)
qed

lemma post_node_ok:
  assumes inv: "acc_inv a" and fr: "acc_free a = n # frs"
    and d: "d \<notin> set (acc_ids a)" "bucket_of d \<in> set (bucketsInUse a)"
  shows "acc_inv (post_node a n (acc_next a ! n) d)"
    "acc_ids (post_node a n (acc_next a ! n) d) = d # acc_ids a"
    "bucketsInUse (post_node a n (acc_next a ! n) d) = bucketsInUse a"
    "hint (post_node a n (acc_next a ! n) d) = hint a"
    "acc_free (post_node a n (acc_next a ! n) d) = frs"
proof -
  let ?a' = "post_node a n (acc_next a ! n) d"
  have st: "stacks_ok a (acc_avail a) (n # frs)" using acc_invD(1) [OF inv] fr by simp
  then have n: "n < length (acc_data a)" "n \<notin> set (acc_avail a)" "n \<notin> set frs"
    by (auto simp: stacks_ok_def)
  have st': "stacks_ok ?a' (n # acc_avail a) frs"
    using st n by (auto simp: stacks_ok_def post_node_def insertIntoList_def lseg_frame)
  have ids: "map (\<lambda>m. acc_data ?a' ! m) (n # acc_avail a) = d # acc_ids a"
    using n by (auto simp: post_node_def insertIntoList_def acc_ids_def nth_list_update)
  have used: "bucketsInUse ?a' = bucketsInUse a" and h: "hint ?a' = hint a"
    by (simp_all add: post_node_def insertIntoList_def)
  have "acc_inv ?a' \<and> acc_ids ?a' = map (\<lambda>m. acc_data ?a' ! m) (n # acc_avail a) \<and> acc_free ?a' = frs"
  proof (rule acc_invI [OF st'])
    show "distinct (map (\<lambda>m. acc_data ?a' ! m) (n # acc_avail a))"
      using acc_invD(2) [OF inv] d unfolding ids by simp
    show "0 < hint ?a'" "used_ok (bucketsInUse ?a')"
      using acc_invD(3,4) [OF inv] by (simp_all add: used h)
    have "\<forall>i \<in> set (map (\<lambda>m. acc_data ?a' ! m) (n # acc_avail a)). bucket_of i \<in> set (bucketsInUse a)"
      using acc_invD(5) [OF inv] d unfolding ids by auto
    then show "\<forall>m \<in> set (n # acc_avail a). bucket_of (acc_data ?a' ! m) \<in> set (bucketsInUse ?a')"
      by (simp add: used)
  qed
  then show "acc_inv ?a'" "acc_ids ?a' = d # acc_ids a" "bucketsInUse ?a' = bucketsInUse a"
    "hint ?a' = hint a" "acc_free ?a' = frs"
    using ids used h by simp_all
qed

section \<open>Creating buckets\<close>

definition acc_top :: "accounting \<Rightarrow> nat" where
  "acc_top a = foldr max (map Suc (bucketsInUse a)) (hint a)"

text \<open>Bucket numbers have 56 bits; \<open>acc_room a k\<close> leaves space for \<open>k\<close> rounds of new buckets.\<close>

definition acc_room :: "accounting \<Rightarrow> nat \<Rightarrow> bool" where
  "acc_room a k \<longleftrightarrow> acc_top a + maxBuckets * k \<le> 2 ^ 56"

lemma foldr_max_le: "foldr max (map f xs) (h::nat) \<le> K \<longleftrightarrow> h \<le> K \<and> (\<forall>x \<in> set xs. f x \<le> K)"
  by (induction xs) auto

lemma acc_top_le: "acc_top a \<le> K \<longleftrightarrow> hint a \<le> K \<and> (\<forall>b \<in> set (bucketsInUse a). b < K)"
  by (auto simp: acc_top_def foldr_max_le Suc_le_eq)

lemma skip_used_ok:
  assumes "h \<le> K" "\<forall>b \<in> set used. b < K"
  shows "skip_used used h \<notin> set used" "h \<le> skip_used used h" "skip_used used h \<le> K"
proof -
  have "skip_used used h \<notin> set used \<and> h \<le> skip_used used h \<and> skip_used used h \<le> K"
    using assms
  proof (induction used h rule: skip_used.induct)
    case (1 used h)
    show ?case
    proof (cases "h \<in> set used")
      case True
      then have "Suc h \<le> K" using "1.prems" by (simp add: Suc_le_eq)
      then have "skip_used used (Suc h) \<notin> set used \<and> Suc h \<le> skip_used used (Suc h) \<and>
          skip_used used (Suc h) \<le> K"
        using "1.IH" [OF True] "1.prems"(2) by blast
      with True show ?thesis by (simp add: skip_used.simps [of used h])
    next
      case False
      with "1.prems"(1) show ?thesis by (simp add: skip_used.simps [of used h])
    qed
  qed
  then show "skip_used used h \<notin> set used" "h \<le> skip_used used h" "skip_used used h \<le> K"
    by simp_all
qed

lemma bucket_row:
  assumes "b < 2 ^ 56"
  shows "distinct (map (bucketIndex b) [0..<chunksInBucket])"
    and "\<And>i. i \<in> set (map (bucketIndex b) [0..<chunksInBucket]) \<Longrightarrow> bucket_of i = b"
  using assms
  by (auto simp: distinct_map inj_on_def bucketIndex_inject chunksInBucket_def)

lemma create_loop_ok:
  assumes "create_loop n used h = (used', h', ds)" "used_ok used" "0 < h"
    and "h \<le> K" "\<forall>b \<in> set used. b < K" "K + n \<le> 2 ^ 56"
  shows "used_ok used' \<and> 0 < h' \<and> h' \<le> K + n \<and> (\<forall>b \<in> set used'. b < K + n) \<and>
    set used \<subseteq> set used' \<and> length ds = n * chunksInBucket \<and> distinct ds \<and>
    (\<forall>i \<in> set ds. bucket_of i \<in> set used' - set used)"
  using assms
proof (induction n arbitrary: used h used' h' ds K)
  case 0
  then show ?case by simp
next
  case (Suc n)
  define my where "my = skip_used used h"
  obtain ds1 where r: "create_loop n (insort_insert my used) (Suc my) = (used', h', ds1)"
    and ds: "ds = map (bucketIndex my) [0..<chunksInBucket] @ ds1"
    using Suc.prems(1) by (auto simp: my_def Let_def split: prod.splits)
  have my: "my \<notin> set used" "h \<le> my" "my \<le> K"
    unfolding my_def by (rule skip_used_ok [OF Suc.prems(4,5)])+
  then have small: "my < 2 ^ 56" using Suc.prems(6) by simp
  have ok: "used_ok (insort_insert my used)"
    using Suc.prems(2,3) my small
    by (auto simp: used_ok_def sorted_insort_insert set_insort_insert distinct_insort_insert)
  have below: "\<forall>b \<in> set (insort_insert my used). b < Suc K"
    using Suc.prems(5) my(3) by (auto simp: set_insort_insert)
  have "used_ok used' \<and> 0 < h' \<and> h' \<le> Suc K + n \<and> (\<forall>b \<in> set used'. b < Suc K + n) \<and>
    set (insort_insert my used) \<subseteq> set used' \<and> length ds1 = n * chunksInBucket \<and> distinct ds1 \<and>
    (\<forall>i \<in> set ds1. bucket_of i \<in> set used' - set (insort_insert my used))"
    by (rule Suc.IH [OF r ok _ _ below]) (use Suc.prems(6) my(3) in simp_all)
  then have IH: "used_ok used'" "0 < h'" "h' \<le> K + Suc n" "\<forall>b \<in> set used'. b < K + Suc n"
    "insert my (set used) \<subseteq> set used'" "length ds1 = n * chunksInBucket" "distinct ds1"
    "\<forall>i \<in> set ds1. bucket_of i \<in> set used' - insert my (set used)"
    by (simp_all add: set_insort_insert)
  have "set (map (bucketIndex my) [0..<chunksInBucket]) \<inter> set ds1 = {}"
    using IH(8) bucket_row(2) [OF small] by blast
  then have "distinct ds"
    using IH(7) bucket_row(1) [OF small] unfolding ds by simp
  moreover have "\<forall>i \<in> set ds. bucket_of i \<in> set used' - set used"
    using IH(5,8) my(1) bucket_row(2) [OF small] unfolding ds by auto
  ultimately show ?case using IH ds by simp
qed

lemma createBuckets_ok:
  assumes inv: "acc_inv a" and room: "acc_room a (Suc k)"
  obtains a' where "createBuckets a = Inr a'" "acc_inv a'" "acc_free a' = []"
    "set (bucketsInUse a) \<subseteq> set (bucketsInUse a')" "length (acc_ids a') = acc_size"
    "\<forall>i \<in> set (acc_ids a'). bucket_of i \<notin> set (bucketsInUse a)" "acc_room a' k"
proof -
  obtain used h ds where r: "create_loop maxBuckets (bucketsInUse a) (hint a) = (used, h, ds)"
    using prod_cases3 by blast
  have top: "hint a \<le> acc_top a" "\<forall>b \<in> set (bucketsInUse a). b < acc_top a"
    using acc_top_le [of a "acc_top a"] by simp_all
  have le: "acc_top a + maxBuckets \<le> 2 ^ 56" using room by (simp add: acc_room_def)
  note c = create_loop_ok [OF r acc_invD(4,3) [OF inv] top le]
  define a' where "a' = a\<lparr>acc_data := ds, acc_next := cleanRecords (length ds),
      availableList := Some 0, freeList := None, hint := h, bucketsInUse := used\<rparr>"
  have len: "length ds = acc_size" using c by (simp add: acc_size_def mult.commute)
  have lend: "length (acc_data a) = acc_size" using acc_invD(1) [OF inv] by (simp add: stacks_ok_def)
  have st: "stacks_ok a' [0..<acc_size] []"
    using lseg_cleanRecords [of acc_size 0] len by (auto simp: stacks_ok_def a'_def)
  have ids: "map (\<lambda>n. acc_data a' ! n) [0..<acc_size] = ds"
    using len map_nth [of ds] by (simp add: a'_def)
  have "\<forall>i \<in> set (map (\<lambda>n. acc_data a' ! n) [0..<acc_size]). bucket_of i \<in> set (bucketsInUse a')"
    using c unfolding ids by (simp add: a'_def)
  then have "\<forall>n \<in> set [0..<acc_size]. bucket_of (acc_data a' ! n) \<in> set (bucketsInUse a')"
    by simp
  then have inv': "acc_inv a' \<and> acc_ids a' = ds \<and> acc_free a' = []"
    using acc_invI [OF st] c ids by (simp add: a'_def)
  have "acc_top a' \<le> acc_top a + maxBuckets"
    using c by (simp add: acc_top_le a'_def)
  then have "acc_room a' k" using room by (simp add: acc_room_def)
  moreover have "createBuckets a = Inr a'"
    using len lend by (simp add: createBuckets_def r a'_def)
  ultimately show ?thesis using that inv' c len by (simp add: a'_def)
qed

section \<open>Releasing buckets\<close>

lemma acc_data_list:
  assumes inv: "acc_inv a" and fr: "acc_free a = []"
  shows "set (acc_ids a) = set (acc_data a)" "distinct (acc_data a)" "length (acc_data a) = acc_size"
proof -
  have st: "stacks_ok a (acc_avail a) []" using acc_invD(1) [OF inv] fr by simp
  then have av: "set (acc_avail a) = {..<acc_size}" "distinct (acc_avail a)"
    and len: "length (acc_data a) = acc_size" by (simp_all add: stacks_ok_def)
  have "set (acc_ids a) = (\<lambda>n. acc_data a ! n) ` {..<acc_size}"
    by (simp add: acc_ids_def av(1))
  also have "\<dots> = set (acc_data a)" using len by (auto simp: set_conv_nth)
  finally show "set (acc_ids a) = set (acc_data a)" .
  have "inj_on (\<lambda>n. acc_data a ! n) {..<acc_size}"
    using acc_invD(2) [OF inv] by (simp add: acc_ids_def distinct_map av(1))
  then show "distinct (acc_data a)"
    by (auto simp: distinct_conv_nth len inj_on_def)
qed (use acc_invD(1) [OF inv] in \<open>simp add: stacks_ok_def\<close>)

lemma count_list_map: "count_list (map f xs) y = length (filter (\<lambda>x. f x = y) xs)"
  by (induction xs) auto

lemma count_list_distinct: "distinct xs \<Longrightarrow> count_list xs y \<le> 1"
  by (induction xs) (auto simp: count_list_0_iff)

text \<open>A bucket that is counted as full has every one of its slots on record.\<close>

lemma full_buckets_complete:
  assumes "distinct ds" "b \<in> set (full_buckets ds)" "bucket_of j = b"
  shows "j \<in> set ds"
proof -
  let ?row = "(\<lambda>i. b * 256 + i) ` {..<chunksInBucket}"
  have len: "length (filter (\<lambda>x. bucket_of x = b) ds) = chunksInBucket"
    using assms(2) by (simp add: full_buckets_def count_list_map)
  have sub: "set (filter (\<lambda>x. bucket_of x = b) ds) \<subseteq> ?row"
  proof
    fix x assume "x \<in> set (filter (\<lambda>x. bucket_of x = b) ds)"
    then have "x = b * 256 + x mod 256" by (auto simp: bucket_of_def)
    then show "x \<in> ?row" by (auto simp: chunksInBucket_def intro!: image_eqI [of _ _ "x mod 256"])
  qed
  have "card (set (filter (\<lambda>x. bucket_of x = b) ds)) = chunksInBucket"
    using len assms(1) distinct_card [of "filter (\<lambda>x. bucket_of x = b) ds"] by simp
  moreover have "card ?row \<le> chunksInBucket"
    using card_image_le [of "{..<chunksInBucket}"] by simp
  ultimately have "set (filter (\<lambda>x. bucket_of x = b) ds) = ?row"
    using sub by (intro card_seteq) simp_all
  moreover have "j \<in> ?row"
    using assms(3) by (auto simp: bucket_of_def chunksInBucket_def intro!: image_eqI [of _ _ "j mod 256"])
  ultimately show ?thesis by auto
qed

lemma full_buckets_iff:
  assumes "distinct ds"
  shows "b \<in> set (full_buckets ds) \<longleftrightarrow> (\<forall>j. bucket_of j = b \<longrightarrow> j \<in> set ds)"
proof
  assume all: "\<forall>j. bucket_of j = b \<longrightarrow> j \<in> set ds"
  let ?row = "(\<lambda>i. b * 256 + i) ` {..<chunksInBucket}"
  have "set (filter (\<lambda>x. bucket_of x = b) ds) = ?row"
  proof (rule set_eqI)
    fix x
    have "bucket_of x = b \<longleftrightarrow> x \<in> ?row"
    proof
      assume "bucket_of x = b"
      then have "x = b * 256 + x mod 256" by (auto simp: bucket_of_def)
      then show "x \<in> ?row" by (auto simp: chunksInBucket_def intro!: image_eqI [of _ _ "x mod 256"])
    qed (auto simp: bucket_of_def chunksInBucket_def)
    then show "x \<in> set (filter (\<lambda>x. bucket_of x = b) ds) \<longleftrightarrow> x \<in> ?row" using all by auto
  qed
  then have "card (set (filter (\<lambda>x. bucket_of x = b) ds)) = chunksInBucket"
    by (simp add: card_image inj_on_def)
  then have "count_list (map bucket_of ds) b = chunksInBucket"
    using assms distinct_card [of "filter (\<lambda>x. bucket_of x = b) ds"] by (simp add: count_list_map)
  moreover have "b * 256 \<in> set ds" using all by (simp add: bucket_of_def)
  then have "b \<in> bucket_of ` set ds" by (auto simp: bucket_of_def intro!: image_eqI [of _ _ "b * 256"])
  ultimately show "b \<in> set (full_buckets ds)" by (simp add: full_buckets_def)
qed (use full_buckets_complete [OF assms] in blast)

lemma full_buckets_sub: "set (full_buckets ds) \<subseteq> bucket_of ` set ds"
  by (auto simp: full_buckets_def)

lemma fold_remove1_set: "distinct xs \<Longrightarrow> set (fold remove1 ys xs) = set xs - set ys"
  by (induction ys arbitrary: xs) auto

lemma used_ok_remove: "used_ok used \<Longrightarrow> used_ok (fold remove1 ys used)"
proof (induction ys arbitrary: used)
  case (Cons y ys)
  have "used_ok (remove1 y used)"
    using Cons.prems by (auto simp: used_ok_def sorted_remove1)
  then show ?case using Cons.IH by simp
qed simp

lemma releaseBuckets_ok:
  assumes inv: "acc_inv a" and fr: "acc_free a = []" and del: "full_buckets (acc_data a) \<noteq> []"
  obtains a' where "releaseBuckets a = Inr (a', full_buckets (acc_data a))" "acc_inv a'"
    "acc_free a' \<noteq> []"
    "set (acc_ids a') = {i \<in> set (acc_ids a). bucket_of i \<notin> set (full_buckets (acc_data a))}"
    "set (bucketsInUse a') = set (bucketsInUse a) - set (full_buckets (acc_data a))"
    "hint a' = hint a"
proof -
  let ?d = "acc_data a" and ?nodes = "[0..<length (acc_data a)]"
  let ?del = "full_buckets ?d"
  note D = acc_data_list [OF inv fr]
  have st: "stacks_ok a (acc_avail a) []" using acc_invD(1) [OF inv] fr by simp
  have nx: "length (acc_next a) = acc_size" and fn: "freeList a = None"
    using st by (simp_all add: stacks_ok_def)
  have avn: "availableList a \<noteq> None"
    using st stacks_ok_length [OF st] by (cases "acc_avail a") (auto simp: stacks_ok_def)
  define gone where "gone = (\<lambda>n. ?d ! n = 0 \<or> bucket_of (?d ! n) \<in> set ?del)"
  let ?G = "filter gone ?nodes" and ?K = "filter (\<lambda>n. \<not> gone n) ?nodes"
  have nonzero: "?d ! n \<noteq> 0" if "n < length ?d" for n
    using that D(1) acc_invD(4,5) [OF inv] used_nonzero by (metis nth_mem)
  obtain b i where b: "b \<in> set ?del" "i < length ?d" "bucket_of (?d ! i) = b"
  proof -
    obtain b where b: "b \<in> set ?del" using del by (meson last_in_set)
    then obtain x where "x \<in> set ?d" "bucket_of x = b" using full_buckets_sub [of ?d] by blast
    then show ?thesis using b that by (metis in_set_conv_nth)
  qed
  have G: "?G \<noteq> []" using b by (auto simp: filter_empty_conv gone_def)
  obtain nx1 fr1 where r1: "push_back_all ?G (acc_next a, None) = (nx1, fr1)" by fastforce
  obtain nx2 av2 where r2: "push_back_all ?K (nx1, None) = (nx2, av2)" by fastforce
  have p1: "lseg nx1 fr1 ?G" "length nx1 = length (acc_next a)"
    using push_back_all_lseg(1,2) [OF _ _ _ _ r1, of "[]"] nx D(3) by simp_all
  have p2: "lseg nx2 av2 ?K" "length nx2 = length nx1" "lseg nx2 fr1 ?G"
    using push_back_all_lseg(1,2) [OF _ _ _ _ r2, of "[]"]
      push_back_all_lseg(3) [OF _ _ _ _ r2, of "[]" ?G fr1] p1 nx D(3) by auto
  have fr1: "fr1 \<noteq> None" using p1(1) G by (cases ?G) auto
  define a' where "a' = a\<lparr>acc_data := map (\<lambda>n. if gone n then 0 else ?d ! n) ?nodes,
      acc_next := nx2, availableList := av2, freeList := fr1,
      bucketsInUse := fold remove1 ?del (bucketsInUse a)\<rparr>"
  have eq: "releaseBuckets a = Inr (a', ?del)"
    using fn avn del r1 r2 fr1
    by (simp add: releaseBuckets_def stealList_def a'_def gone_def Let_def)
  have st': "stacks_ok a' ?K ?G"
    using p1 p2 nx D(3) by (auto simp: stacks_ok_def a'_def)
  have ids: "map (\<lambda>n. acc_data a' ! n) ?K = map (\<lambda>n. ?d ! n) ?K"
    by (simp add: a'_def)
  have ids_set: "set (map (\<lambda>n. ?d ! n) ?K) = {i \<in> set (acc_ids a). bucket_of i \<notin> set ?del}"
    using nonzero by (auto simp: D(1) gone_def in_set_conv_nth)
  have used': "set (bucketsInUse a') = set (bucketsInUse a) - set ?del"
    using acc_invD(4) [OF inv] by (simp add: a'_def used_ok_def fold_remove1_set)
  have "\<forall>i \<in> set (map (\<lambda>n. acc_data a' ! n) ?K). bucket_of i \<in> set (bucketsInUse a')"
    using acc_invD(5) [OF inv] unfolding ids ids_set used' by auto
  then have inv': "acc_inv a' \<and> acc_ids a' = map (\<lambda>n. acc_data a' ! n) ?K \<and> acc_free a' = ?G"
    using acc_invI [OF st'] D(2,3) acc_invD(3,4) [OF inv] unfolding ids
    by (auto simp: a'_def used_ok_remove distinct_map inj_on_def nth_eq_iff_index_eq)
  have "set (acc_ids a') = {i \<in> set (acc_ids a). bucket_of i \<notin> set ?del}"
    using inv' unfolding ids ids_set [symmetric] by simp
  moreover have "hint a' = hint a" by (simp add: a'_def)
  ultimately show ?thesis
    using inv' G used' by (intro that [OF eq]) simp_all
qed

section \<open>fetch and post\<close>

lemma acc_room_mono:
  assumes "acc_room a k" "hint a' = hint a" "set (bucketsInUse a') \<subseteq> set (bucketsInUse a)"
  shows "acc_room a' k"
proof -
  have "acc_top a' \<le> acc_top a"
    using assms(2,3) acc_top_le [of a "acc_top a"] by (auto simp: acc_top_le)
  with assms(1) show ?thesis by (simp add: acc_room_def)
qed

lemma acc_avail_head:
  assumes "acc_inv a"
  shows "acc_avail a = [] \<longleftrightarrow> availableList a = None" "acc_free a = [] \<longleftrightarrow> freeList a = None"
    "acc_avail a = n # ns \<Longrightarrow> availableList a = Some n" "acc_free a = n # ns \<Longrightarrow> freeList a = Some n"
proof -
  have st: "lseg (acc_next a) (availableList a) (acc_avail a)" "lseg (acc_next a) (freeList a) (acc_free a)"
    using acc_invD(1) [OF assms] by (simp_all add: stacks_ok_def)
  show "acc_avail a = [] \<longleftrightarrow> availableList a = None" "acc_free a = [] \<longleftrightarrow> freeList a = None"
    using st by (cases "acc_avail a"; cases "acc_free a"; auto)+
  show "acc_avail a = n # ns \<Longrightarrow> availableList a = Some n" "acc_free a = n # ns \<Longrightarrow> freeList a = Some n"
    using st by auto
qed

lemma acc_fetch_some:
  assumes inv: "acc_inv a" and av: "acc_avail a = n # avs"
  shows "acc_fetch a = Inr (fetch_node a n (acc_next a ! n))"
  using acc_avail_head(3) [OF inv av]
  by (simp add: acc_fetch_def fetch_loop.simps [of a] takeFromList_def)

lemma acc_fetch_ok:
  assumes inv: "acc_inv a" and room: "acc_room a (Suc k)"
  obtains i a' where "acc_fetch a = Inr (i, a')" "acc_inv a'" "acc_room a' k"
    "set (bucketsInUse a) \<subseteq> set (bucketsInUse a')" "bucket_of i \<in> set (bucketsInUse a')"
    "i \<notin> set (acc_ids a')"
    "\<forall>j \<in> set (i # acc_ids a'). j \<in> set (acc_ids a) \<or> bucket_of j \<notin> set (bucketsInUse a)"
    "acc_ids a \<noteq> [] \<longrightarrow> acc_ids a = i # acc_ids a' \<and> bucketsInUse a' = bucketsInUse a"
proof (cases "acc_avail a")
  case (Cons n avs)
  obtain i a' where f: "fetch_node a n (acc_next a ! n) = (i, a')" by fastforce
  have ok: "acc_inv a'" "acc_ids a = i # acc_ids a'" "bucketsInUse a' = bucketsInUse a" "hint a' = hint a"
    using fetch_node_ok [OF inv Cons] by (simp_all add: f)
  have "acc_room a' k"
    using acc_room_mono [of a k a'] room ok by (simp add: acc_room_def)
  moreover have "i \<notin> set (acc_ids a')" "bucket_of i \<in> set (bucketsInUse a')"
    using acc_invD(2,5) [OF inv] ok by simp_all
  moreover have "acc_fetch a = Inr (i, a')" using acc_fetch_some [OF inv Cons] f by simp
  ultimately show ?thesis
    by (intro that [of i a']) (simp_all add: ok)
next
  case Nil
  then have e: "acc_ids a = []" by (simp add: acc_ids_def)
  have fr: "acc_free a \<noteq> []"
    using stacks_ok_length [OF acc_invD(1) [OF inv]] Nil by auto
  have heads: "availableList a = None" "freeList a \<noteq> None"
    using Nil fr acc_avail_head(1,2) [OF inv] by simp_all
  obtain a1 where c: "createBuckets a = Inr a1" "acc_inv a1" "acc_free a1 = []"
    "set (bucketsInUse a) \<subseteq> set (bucketsInUse a1)" "length (acc_ids a1) = acc_size"
    "\<forall>i \<in> set (acc_ids a1). bucket_of i \<notin> set (bucketsInUse a)" "acc_room a1 k"
    using createBuckets_ok [OF inv room] by blast
  obtain n avs where av1: "acc_avail a1 = n # avs"
    using c(5) acc_size_pos(1) by (cases "acc_avail a1") (auto simp: acc_ids_def)
  obtain i a' where f: "fetch_node a1 n (acc_next a1 ! n) = (i, a')" by fastforce
  have ok: "acc_inv a'" "acc_ids a1 = i # acc_ids a'" "bucketsInUse a' = bucketsInUse a1" "hint a' = hint a1"
    using fetch_node_ok [OF c(2) av1] by (simp_all add: f)
  have "acc_fetch a = acc_fetch a1"
    using heads c(1) by (simp add: acc_fetch_def fetch_loop.simps [of a] takeFromList_def)
  then have "acc_fetch a = Inr (i, a')" using acc_fetch_some [OF c(2) av1] f by simp
  moreover have "acc_room a' k" using acc_room_mono [OF c(7)] ok by simp
  moreover have "i \<notin> set (acc_ids a')" "bucket_of i \<in> set (bucketsInUse a')"
    using acc_invD(2,5) [OF c(2)] ok by simp_all
  moreover have "\<forall>j \<in> set (i # acc_ids a'). j \<in> set (acc_ids a) \<or> bucket_of j \<notin> set (bucketsInUse a)"
    using c(6) unfolding ok(2) by blast
  ultimately show ?thesis
    by (intro that [of i a']) (use c(4) in \<open>simp_all add: ok(1,3) e\<close>)
qed

lemma post_loop_some:
  assumes inv: "acc_inv a" and fr: "acc_free a = n # frs"
  shows "post_loop a d rm = Some (Inr (post_node a n (acc_next a ! n) d, rm))"
  using acc_avail_head(4) [OF inv fr] by (simp add: post_loop.simps [of a] takeFromList_def)

text \<open>
  \<^verbatim>\<open>post\<close> of a slot that is handed out: with a free node it succeeds. With none it
  releases the buckets that are completely on offer, and fails its assertion exactly when
  there are none.
\<close>

lemma acc_post_ok:
  assumes inv: "acc_inv a" and d: "d \<notin> set (acc_ids a)" "bucket_of d \<in> set (bucketsInUse a)"
  shows "(acc_free a \<noteq> [] \<or> full_buckets (acc_data a) \<noteq> []) \<Longrightarrow>
     \<exists>a' rm. acc_post a d = Inr (a', rm) \<and> acc_inv a' \<and> hint a' = hint a \<and>
       set (acc_ids a') = insert d {i \<in> set (acc_ids a). bucket_of i \<notin> set rm} \<and>
       set (bucketsInUse a') = set (bucketsInUse a) - set rm \<and>
       rm = (if acc_free a = [] then full_buckets (acc_data a) else []) \<and>
       (\<forall>j. bucket_of j \<in> set rm \<longrightarrow> j \<in> set (acc_ids a))"
    and "acc_free a = [] \<Longrightarrow> full_buckets (acc_data a) = [] \<Longrightarrow> acc_post a d = Inl Fragmented"
proof -
  assume ne: "acc_free a \<noteq> [] \<or> full_buckets (acc_data a) \<noteq> []"
  show "\<exists>a' rm. acc_post a d = Inr (a', rm) \<and> acc_inv a' \<and> hint a' = hint a \<and>
       set (acc_ids a') = insert d {i \<in> set (acc_ids a). bucket_of i \<notin> set rm} \<and>
       set (bucketsInUse a') = set (bucketsInUse a) - set rm \<and>
       rm = (if acc_free a = [] then full_buckets (acc_data a) else []) \<and>
       (\<forall>j. bucket_of j \<in> set rm \<longrightarrow> j \<in> set (acc_ids a))"
  proof (cases "acc_free a")
    case (Cons n frs)
    show ?thesis
      using post_node_ok [OF inv Cons d] post_loop_some [OF inv Cons]
      by (intro exI [of _ "post_node a n (acc_next a ! n) d"] exI [of _ "[]"]) (simp add: acc_post_def Cons)
  next
    case Nil
    let ?del = "full_buckets (acc_data a)"
    have del: "?del \<noteq> []" using ne Nil by simp
    have avn: "availableList a \<noteq> None"
      using stacks_ok_length [OF acc_invD(1) [OF inv]] Nil acc_avail_head(1) [OF inv] by auto
    obtain a1 where r: "releaseBuckets a = Inr (a1, ?del)" "acc_inv a1" "acc_free a1 \<noteq> []"
      "set (acc_ids a1) = {i \<in> set (acc_ids a). bucket_of i \<notin> set ?del}"
      "set (bucketsInUse a1) = set (bucketsInUse a) - set ?del" "hint a1 = hint a"
      using releaseBuckets_ok [OF inv Nil del] by blast
    obtain n frs where fr1: "acc_free a1 = n # frs" using r(3) by (cases "acc_free a1") auto
    have all: "\<forall>j. bucket_of j \<in> set ?del \<longrightarrow> j \<in> set (acc_ids a)"
      using full_buckets_complete acc_data_list(1,2) [OF inv Nil] by blast
    then have d1: "d \<notin> set (acc_ids a1)" "bucket_of d \<in> set (bucketsInUse a1)"
      using d r(4,5) by auto
    have "post_loop a d [] = post_loop a1 d ?del"
      using acc_avail_head(2) [OF inv] Nil avn r(1)
      by (simp add: post_loop.simps [of a] takeFromList_def)
    then have "acc_post a d = Inr (post_node a1 n (acc_next a1 ! n) d, ?del)"
      using post_loop_some [OF r(2) fr1] by (simp add: acc_post_def)
    with post_node_ok [OF r(2) fr1 d1] r all show ?thesis
      by (intro exI [of _ "post_node a1 n (acc_next a1 ! n) d"] exI [of _ ?del]) (auto simp: Nil)
  qed
next
  assume fr: "acc_free a = []" and del: "full_buckets (acc_data a) = []"
  have h: "freeList a = None" "availableList a \<noteq> None"
    using stacks_ok_length [OF acc_invD(1) [OF inv]] fr acc_avail_head(1,2) [OF inv] by auto
  then have "releaseBuckets a = Inl Fragmented"
    by (cases "availableList a") (simp_all add: releaseBuckets_def stealList_def del)
  then show "acc_post a d = Inl Fragmented"
    using h by (simp add: acc_post_def post_loop.simps [of a] takeFromList_def)
qed

section \<open>The contract\<close>

text \<open>
  What the storage layer relies on: a slot handed out is on offer no longer, and a bucket
  disappears only when every slot of it is on offer. \<open>holds p L\<close> says that the slots
  \<open>L\<close> are in a client's hands.
\<close>

locale id_pool =
  fixes ids :: "'p \<Rightarrow> nat set"
    and used :: "'p \<Rightarrow> nat set"
    and room :: "'p \<Rightarrow> nat \<Rightarrow> bool"
    and inv :: "'p \<Rightarrow> bool"
    and fetch :: "'p \<Rightarrow> (nat \<times> 'p) res"
    and post :: "'p \<Rightarrow> nat \<Rightarrow> ('p \<times> nat list) res"
  assumes fetch_law: "inv p \<Longrightarrow> room p (Suc k) \<Longrightarrow>
      \<exists>i p'. fetch p = Inr (i, p') \<and> inv p' \<and> room p' k \<and> used p \<subseteq> used p' \<and>
        bucket_of i \<in> used p' \<and> i \<notin> ids p' \<and>
        (\<forall>j \<in> insert i (ids p'). j \<in> ids p \<or> bucket_of j \<notin> used p)"
    and post_law: "inv p \<Longrightarrow> d \<notin> ids p \<Longrightarrow> bucket_of d \<in> used p \<Longrightarrow>
      post p d = Inl Fragmented \<or>
      (\<exists>p' rm. post p d = Inr (p', rm) \<and> inv p' \<and> used p' = used p - set rm \<and>
         ids p' = insert d {i \<in> ids p. bucket_of i \<notin> set rm} \<and>
         (\<forall>j. bucket_of j \<in> set rm \<longrightarrow> j \<in> ids p) \<and> (\<forall>k. room p k \<longrightarrow> room p' k))"
    and used_pos: "inv p \<Longrightarrow> b \<in> used p \<Longrightarrow> 0 < b"
    and room_less: "room p (Suc k) \<Longrightarrow> room p k"
begin

definition holds :: "'p \<Rightarrow> nat set \<Rightarrow> bool" where
  "holds p L \<longleftrightarrow> inv p \<and> L \<inter> ids p = {} \<and> bucket_of ` L \<subseteq> used p"

lemma holds_nonzero: "holds p L \<Longrightarrow> 0 \<notin> L"
  using used_pos [of p 0] by (auto simp: holds_def bucket_of_def)

lemma holds_mono: "holds p L \<Longrightarrow> M \<subseteq> L \<Longrightarrow> holds p M"
  by (auto simp: holds_def)

lemma holds_fetch:
  assumes "holds p L" "room p (Suc k)"
  shows "\<exists>i p'. fetch p = Inr (i, p') \<and> i \<notin> L \<and> holds p' (insert i L) \<and> room p' k"
proof -
  have inv: "inv p" using assms(1) by (simp add: holds_def)
  obtain i p' where f: "fetch p = Inr (i, p')" "inv p'" "room p' k" "used p \<subseteq> used p'"
    "bucket_of i \<in> used p'" "i \<notin> ids p'"
    "\<forall>j \<in> insert i (ids p'). j \<in> ids p \<or> bucket_of j \<notin> used p"
    using fetch_law [OF inv assms(2)] by blast
  have "j \<notin> ids p \<and> bucket_of j \<in> used p" if "j \<in> L" for j
    using that assms(1) by (auto simp: holds_def)
  then have "i \<notin> L" "L \<inter> ids p' = {}" "bucket_of ` L \<subseteq> used p'"
    using f(4,7) by blast+
  then show ?thesis using f by (intro exI [of _ i] exI [of _ p']) (simp add: holds_def)
qed

lemma holds_post:
  assumes "holds p L" "d \<in> L"
  shows "post p d = Inl Fragmented \<or>
    (\<exists>p' rm. post p d = Inr (p', rm) \<and> holds p' (L - {d}) \<and> d \<in> ids p' \<and>
       (\<forall>k. room p k \<longrightarrow> room p' k) \<and> (\<forall>b \<in> set rm. b \<notin> bucket_of ` L))"
proof -
  have "d \<notin> ids p" "bucket_of d \<in> used p" "inv p" using assms by (auto simp: holds_def)
  from post_law [OF this(3,1,2)] show ?thesis
    using assms(1) unfolding holds_def by fastforce
qed

end

interpretation acc: id_pool "\<lambda>a. set (acc_ids a)" "\<lambda>a. set (bucketsInUse a)"
    acc_room acc_inv acc_fetch acc_post
proof unfold_locales
  fix p k assume "acc_inv p" "acc_room p (Suc k)"
  then obtain i p' where "acc_fetch p = Inr (i, p')" "acc_inv p'" "acc_room p' k"
    "set (bucketsInUse p) \<subseteq> set (bucketsInUse p')" "bucket_of i \<in> set (bucketsInUse p')"
    "i \<notin> set (acc_ids p')"
    "\<forall>j \<in> set (i # acc_ids p'). j \<in> set (acc_ids p) \<or> bucket_of j \<notin> set (bucketsInUse p)"
    by (rule acc_fetch_ok)
  then show "\<exists>i p'. acc_fetch p = Inr (i, p') \<and> acc_inv p' \<and> acc_room p' k \<and>
        set (bucketsInUse p) \<subseteq> set (bucketsInUse p') \<and>
        bucket_of i \<in> set (bucketsInUse p') \<and> i \<notin> set (acc_ids p') \<and>
        (\<forall>j \<in> insert i (set (acc_ids p')). j \<in> set (acc_ids p) \<or> bucket_of j \<notin> set (bucketsInUse p))"
    unfolding list.set by blast
next
  fix p d assume p: "acc_inv p" "d \<notin> set (acc_ids p)" "bucket_of d \<in> set (bucketsInUse p)"
  have mono: "\<And>a' rm k. set (bucketsInUse a') = set (bucketsInUse p) - set rm \<Longrightarrow> hint a' = hint p \<Longrightarrow>
      acc_room p k \<Longrightarrow> acc_room a' k"
    by (rule acc_room_mono) auto
  show "acc_post p d = Inl Fragmented \<or>
      (\<exists>p' rm. acc_post p d = Inr (p', rm) \<and> acc_inv p' \<and>
         set (bucketsInUse p') = set (bucketsInUse p) - set rm \<and>
         set (acc_ids p') = insert d {i \<in> set (acc_ids p). bucket_of i \<notin> set rm} \<and>
         (\<forall>j. bucket_of j \<in> set rm \<longrightarrow> j \<in> set (acc_ids p)) \<and> (\<forall>k. acc_room p k \<longrightarrow> acc_room p' k))"
    using acc_post_ok [OF p] mono by blast
qed (auto simp: acc_inv_def used_ok_def acc_room_def)

section \<open>Runs of a client\<close>

text \<open>
  A client that fetches slots and gives back the \<open>k\<close>-th of those it holds, in any order.
\<close>

datatype pool_op = PFetch | PPost nat

fun acc_run :: "pool_op list \<Rightarrow> accounting \<times> nat list \<Rightarrow> (accounting \<times> nat list) res" where
  "acc_run [] s = Inr s"
| "acc_run (PFetch # ops) (a, live) =
     bindR (acc_fetch a) (\<lambda>(i, a'). acc_run ops (a', i # live))"
| "acc_run (PPost k # ops) (a, live) =
     (if k < length live
      then bindR (acc_post a (live ! k)) (\<lambda>(a', rm). acc_run ops (a', remove1 (live ! k) live))
      else acc_run ops (a, live))"

lemma acc_run_holds:
  assumes "acc.holds a (set live \<union> old)" "set live \<inter> old = {}" "distinct live" "acc_room a (length ops)"
  shows "acc_run ops (a, live) = Inl Fragmented \<or>
    (\<exists>a' live'. acc_run ops (a, live) = Inr (a', live') \<and> acc.holds a' (set live' \<union> old) \<and>
       set live' \<inter> old = {} \<and> distinct live')"
  using assms
proof (induction ops "(a, live)" arbitrary: a live rule: acc_run.induct)
  case (1 a live)
  then show ?case by auto
next
  case (2 ops a live)
  have room: "acc_room a (Suc (length ops))" using "2.prems"(4) by simp
  obtain i a' where f: "acc_fetch a = Inr (i, a')" "i \<notin> set live \<union> old"
      "acc.holds a' (insert i (set live \<union> old))" "acc_room a' (length ops)"
    using acc.holds_fetch [OF "2.prems"(1) room] by blast
  have "acc_run ops (a', i # live) = Inl Fragmented \<or>
    (\<exists>a'' live'. acc_run ops (a', i # live) = Inr (a'', live') \<and> acc.holds a'' (set live' \<union> old) \<and>
       set live' \<inter> old = {} \<and> distinct live')"
    by (rule "2.hyps") (use f "2.prems" in auto)
  then show ?case using f(1) by simp
next
  case (3 k ops a live)
  show ?case
  proof (cases "k < length live")
    case True
    have mem: "live ! k \<in> set live \<union> old" using True by simp
    have less: "acc_room a (length ops)" using "3.prems"(4) acc.room_less by simp
    consider "acc_post a (live ! k) = Inl Fragmented"
      | a' rm where "acc_post a (live ! k) = Inr (a', rm)"
          "acc.holds a' (set live \<union> old - {live ! k})" "acc_room a' (length ops)"
      using acc.holds_post [OF "3.prems"(1) mem] less by blast
    then show ?thesis
    proof cases
      case 1
      then show ?thesis using True by simp
    next
      case 2
      have "live ! k \<notin> old" using True "3.prems"(2) nth_mem by blast
      then have "set live \<union> old - {live ! k} = set (remove1 (live ! k) live) \<union> old"
        using "3.prems"(3) by auto
      then have "acc_run ops (a', remove1 (live ! k) live) = Inl Fragmented \<or>
        (\<exists>a'' live'. acc_run ops (a', remove1 (live ! k) live) = Inr (a'', live') \<and>
           acc.holds a'' (set live' \<union> old) \<and> set live' \<inter> old = {} \<and> distinct live')"
        using 2 "3.prems" True
        by (intro "3.hyps"(1)) (auto dest: notin_set_remove1 set_remove1_subset [THEN subsetD])
      then show ?thesis using 2(1) True by simp
    qed
  next
    case False
    then show ?thesis using "3.hyps"(2) "3.prems" acc.room_less by simp
  qed
qed

section \<open>Properties\<close>

text \<open>C2: whatever sequence of fetches and posts a client makes from a fresh accounting over the
  buckets that exist on disk, the slots it holds are pairwise distinct, never the null slot, never on offer
  at the same time, and never a slot of a bucket that existed before; the stacks stay well formed, no
  call loops forever, and the only failure is the fragmentation assertion of
  \<^verbatim>\<open>releaseBuckets\<close>.\<close>

theorem acc_run_fresh:
  assumes "used_ok buckets" and "acc_room (acc_new buckets) (length ops)"
  shows "acc_run ops (acc_new buckets, []) = Inl Fragmented \<or>
    (\<exists>a live. acc_run ops (acc_new buckets, []) = Inr (a, live) \<and> acc_inv a \<and> distinct live \<and>
       0 \<notin> set live \<and> set live \<inter> set (acc_ids a) = {} \<and> (\<forall>i \<in> set live. bucket_of i \<notin> set buckets))"
proof -
  let ?old = "{i. bucket_of i \<in> set buckets}"
  have "acc.holds (acc_new buckets) (set [] \<union> ?old)"
    using acc_new_inv [OF assms(1)] by (auto simp: acc.holds_def acc_new_def)
  from acc_run_holds [OF this _ _ assms(2)]
  have "acc_run ops (acc_new buckets, []) = Inl Fragmented \<or>
    (\<exists>a live. acc_run ops (acc_new buckets, []) = Inr (a, live) \<and>
       acc.holds a (set live \<union> ?old) \<and> set live \<inter> ?old = {} \<and> distinct live)" by simp
  then show ?thesis
  proof
    assume "\<exists>a live. acc_run ops (acc_new buckets, []) = Inr (a, live) \<and>
       acc.holds a (set live \<union> ?old) \<and> set live \<inter> ?old = {} \<and> distinct live"
    then obtain a live where r: "acc_run ops (acc_new buckets, []) = Inr (a, live)"
      "acc.holds a (set live \<union> ?old)" "set live \<inter> ?old = {}" "distinct live" by blast
    then have "acc_inv a" "0 \<notin> set live" "set live \<inter> set (acc_ids a) = {}"
      using acc.holds_nonzero [OF r(2)] by (auto simp: acc.holds_def)
    with r show ?thesis by blast
  qed simp
qed

lemma acc_run_fresh_witness:
  "let ops = [PFetch, PFetch, PPost 1, PFetch] in
   acc_run ops (acc_new [1, 7], []) = Inl Fragmented \<or>
    (\<exists>a live. acc_run ops (acc_new [1, 7], []) = Inr (a, live) \<and> acc_inv a \<and> distinct live \<and>
       0 \<notin> set live \<and> set live \<inter> set (acc_ids a) = {} \<and> (\<forall>i \<in> set live. bucket_of i \<notin> set [1, 7]))"
  unfolding Let_def
  by (rule acc_run_fresh) (simp_all add: used_ok_def acc_room_def acc_top_def acc_new_def maxBuckets_def)

text \<open>A bucket is completely on offer when each of its slots is.\<close>

definition offered_buckets :: "accounting \<Rightarrow> nat set" where
  "offered_buckets a = {b. \<forall>j. bucket_of j = b \<longrightarrow> j \<in> set (acc_ids a)}"

lemma full_buckets_offered:
  assumes "acc_inv a" "acc_free a = []"
  shows "set (full_buckets (acc_data a)) = offered_buckets a"
  using full_buckets_iff [OF acc_data_list(2) [OF assms]] acc_data_list(1) [OF assms]
  by (auto simp: offered_buckets_def)

text \<open>C11: posting a slot that is handed out fails, by the assertion of \<^verbatim>\<open>releaseBuckets\<close>, exactly when
  every node of the table holds a slot on offer and no bucket is completely on offer (the table is fragmented).
  Otherwise the slot is on offer afterwards; when there was a free node nothing else changes, and when there was none
  exactly the buckets that were completely on offer are removed, with their slots.\<close>

theorem acc_post_outcome:
  assumes "acc_inv a" and "d \<notin> set (acc_ids a)" and "bucket_of d \<in> set (bucketsInUse a)"
  shows "if acc_free a = [] \<and> offered_buckets a = {} then acc_post a d = Inl Fragmented
    else \<exists>a' rm. acc_post a d = Inr (a', rm) \<and> acc_inv a' \<and> hint a' = hint a \<and>
       set rm = (if acc_free a = [] then offered_buckets a else {}) \<and>
       set (acc_ids a') = insert d {i \<in> set (acc_ids a). bucket_of i \<notin> set rm} \<and>
       set (bucketsInUse a') = set (bucketsInUse a) - set rm"
proof (cases "acc_free a = []")
  case True
  note full = full_buckets_offered [OF assms(1) True]
  show ?thesis
  proof (cases "offered_buckets a = {}")
    case empty: True
    then show ?thesis using acc_post_ok(2) [OF assms True] full True by simp
  next
    case False
    then have "full_buckets (acc_data a) \<noteq> []" using full by auto
    then show ?thesis using acc_post_ok(1) [OF assms] True False full by auto
  qed
next
  case False
  then show ?thesis using acc_post_ok(1) [OF assms] by auto
qed

text \<open>A table of 2560 slots of as many different buckets, all on offer.\<close>

definition fragmented_table :: accounting where
  "fragmented_table =
     \<lparr>acc_data = map (\<lambda>n. bucketIndex (Suc n) 0) [0..<acc_size], acc_next = cleanRecords acc_size,
      availableList = Some 0, freeList = None, hint = 1, bucketsInUse = [1..<Suc acc_size]\<rparr>"

lemma fragmented_table_facts:
  "acc_inv fragmented_table" "acc_free fragmented_table = []"
  "full_buckets (acc_data fragmented_table) = []"
  "set (acc_ids fragmented_table) = (\<lambda>n. bucketIndex (Suc n) 0) ` {..<acc_size}"
proof -
  let ?a = fragmented_table
  have small: "Suc n < 2 ^ 56" if "n < acc_size" for n
    using that by (simp add: acc_size_def chunksInBucket_def maxBuckets_def)
  have data: "map (\<lambda>n. acc_data ?a ! n) [0..<acc_size] = map (\<lambda>n. bucketIndex (Suc n) 0) [0..<acc_size]"
    by (simp add: fragmented_table_def)
  have st: "stacks_ok ?a [0..<acc_size] []"
    using lseg_cleanRecords [of acc_size 0] by (auto simp: stacks_ok_def fragmented_table_def)
  have inj: "inj_on (\<lambda>n. bucketIndex (Suc n) 0) {..<acc_size}"
    using small by (auto simp: inj_on_def bucketIndex_inject)
  have inv: "acc_inv ?a \<and> acc_ids ?a = map (\<lambda>n. acc_data ?a ! n) [0..<acc_size] \<and> acc_free ?a = []"
  proof (rule acc_invI [OF st])
    show "distinct (map (\<lambda>n. acc_data ?a ! n) [0..<acc_size])"
      unfolding data using inj by (simp add: distinct_map lessThan_atLeast0)
    show "\<forall>n \<in> set [0..<acc_size]. bucket_of (acc_data ?a ! n) \<in> set (bucketsInUse ?a)"
      using small by (auto simp: fragmented_table_def)
    show "used_ok (bucketsInUse ?a)"
      using sorted_upt [of 1 "Suc acc_size"]
      by (auto simp: used_ok_def fragmented_table_def acc_size_def chunksInBucket_def maxBuckets_def
          simp del: upt_Suc)
  qed (simp add: fragmented_table_def)
  then show "acc_inv ?a" "acc_free ?a = []" by simp_all
  show "set (acc_ids ?a) = (\<lambda>n. bucketIndex (Suc n) 0) ` {..<acc_size}"
    using inv unfolding data by (simp add: lessThan_atLeast0)
  have "count_list (map bucket_of (acc_data ?a)) b \<le> 1" for b
  proof -
    have "map bucket_of (acc_data ?a) = map Suc [0..<acc_size]"
      using small by (auto simp: fragmented_table_def)
    then have "distinct (map bucket_of (acc_data ?a))" by (simp add: distinct_map)
    then show ?thesis by (rule count_list_distinct)
  qed
  then have "count_list (map bucket_of (acc_data ?a)) b \<noteq> chunksInBucket" for b
    by (metis chunksInBucket_def not_one_le_zero numeral_le_one_iff semiring_norm(69))
  then show "full_buckets (acc_data ?a) = []"
    unfolding full_buckets_def by (simp only: filter_empty_conv) blast
qed

lemma acc_post_outcome_witness: "acc_post fragmented_table (bucketIndex 1 1) = Inl Fragmented"
proof -
  have fresh: "bucketIndex 1 1 \<notin> set (acc_ids fragmented_table)"
    using fragmented_table_facts(4)
    by (auto simp: bucketIndex_inject acc_size_def chunksInBucket_def maxBuckets_def)
  have used: "bucket_of (bucketIndex 1 1) \<in> set (bucketsInUse fragmented_table)"
    by (simp add: fragmented_table_def acc_size_def chunksInBucket_def maxBuckets_def)
  show ?thesis
    using acc_post_outcome [OF fragmented_table_facts(1) fresh used] fragmented_table_facts(2,3)
      full_buckets_offered [OF fragmented_table_facts(1,2)] by simp
qed

end
