(* ===== verification/Storage.thy ===== *)
theory Storage
  imports Containers Accounting Bucket_Store
begin

text \<open>
  The storage layer for file data: the methods of class \<^verbatim>\<open>hash\<close>
  (\<^verbatim>\<open>src/src/modules/filesystem/hash.cpp\<close>) and classes \<^verbatim>\<open>bucketInfo\<close>
  and \<^verbatim>\<open>storage\<close> (\<^verbatim>\<open>storage.h\<close>, \<^verbatim>\<open>storage.cpp\<close>)
  for the data buckets \<^verbatim>\<open>STOR->buckets\<close>: the table of loaded buckets, the
  index from sums to hash objects by which equal chunks are stored once, and the slot
  accounting.
\<close>

record stor =
  st_io :: bio
  st_index :: "(sha256sum, hid) umap"
  st_loaded :: "(nat, bucket) umap"
  st_acc :: accounting

type_synonym 'a stor_op = "(stor, 'a) op"

section \<open>Buckets of the storage (bucketInfo)\<close>

definition getBucketFilename :: "env \<Rightarrow> nat \<Rightarrow> string" where
  "getBucketFilename E i =
     (let hsh = e_bucketName E i in e_path E @ ''dta/'' @ take 2 hsh @ ''/'' @ hsh)"

definition getBucket :: "env \<Rightarrow> nat \<Rightarrow> bucket stor_op" where
  "getBucket E i =
     bindS (getS (\<lambda>s. umap_get (st_loaded s) i)) (\<lambda>it.
     case it of Some b \<Rightarrow> returnS b
     | None \<Rightarrow>
       bindS (modifyS (\<lambda>s. s\<lparr>st_loaded :=
         umap_insert (st_loaded s) i (bucket_new (getBucketFilename E i))\<rparr>)) (\<lambda>_.
       returnS (bucket_new (getBucketFilename E i))))"

text \<open>A method call on \<^verbatim>\<open>*getBucket(i)\<close>.\<close>

definition inBucket :: "env \<Rightarrow> nat \<Rightarrow> 'a bucket_op \<Rightarrow> 'a stor_op" where
  "inBucket E i m =
     bindS (getBucket E i) (\<lambda>b.
     zoomS (\<lambda>s. (b, st_io s))
       (\<lambda>(b', io') s. s\<lparr>st_loaded := umap_insert (st_loaded s) i b', st_io := io'\<rparr>) m)"

definition stor_getChunk :: "env \<Rightarrow> bucketIndex_t \<Rightarrow> chunk stor_op" where
  "stor_getChunk E i = inBucket E (bucket_of i) (bucket_getChunk E (index_of i))"

definition bucketInfo_getHash :: "env \<Rightarrow> bucketIndex_t \<Rightarrow> (hid option) stor_op" where
  "bucketInfo_getHash E i = inBucket E (bucket_of i) (bucket_getHash E (index_of i))"

text \<open>\<^verbatim>\<open>storage::getHash\<close> only adds a log line for a missing hash.\<close>

definition storage_getHash :: "env \<Rightarrow> bucketIndex_t \<Rightarrow> (hid option) stor_op" where
  "storage_getHash E i = bucketInfo_getHash E i"

text \<open>Erasing the table entry runs the destructor of the bucket.\<close>

definition removeBucket :: "env \<Rightarrow> nat \<Rightarrow> unit stor_op" where
  "removeBucket E i =
     bindS (getS (\<lambda>s. umap_get (st_loaded s) i)) (\<lambda>it.
     bindS (modifyS (\<lambda>s. s\<lparr>st_loaded := snd (umap_erase (st_loaded s) i)\<rparr>)) (\<lambda>_.
     case it of None \<Rightarrow> returnS ()
     | Some b \<Rightarrow> zoomS (\<lambda>s. (b, st_io s)) (\<lambda>(_, io') s. s\<lparr>st_io := io'\<rparr>) (bucket_destroy E)))"

definition accounting_fetch :: "bucketIndex_t stor_op" where
  "accounting_fetch =
     bindS (getS st_acc) (\<lambda>a. bindS (liftS (acc_fetch a)) (\<lambda>(i, a').
     bindS (modifyS (\<lambda>s. s\<lparr>st_acc := a'\<rparr>)) (\<lambda>_. returnS i)))"

definition accounting_post :: "env \<Rightarrow> bucketIndex_t \<Rightarrow> unit stor_op" where
  "accounting_post E i =
     bindS (getS st_acc) (\<lambda>a. bindS (liftS (acc_post a i)) (\<lambda>(a', rm).
     bindS (modifyS (\<lambda>s. s\<lparr>st_acc := a'\<rparr>)) (\<lambda>_. forS rm (removeBucket E))))"

section \<open>Hash objects (hash.cpp)\<close>

definition hash_at :: "stor \<Rightarrow> hid \<Rightarrow> hashobj" where
  "hash_at s h = io_heap (st_io s) ! h"

definition upd_hash :: "hid \<Rightarrow> (hashobj \<Rightarrow> hashobj) \<Rightarrow> unit stor_op" where
  "upd_hash h f = modifyS (\<lambda>s. s\<lparr>st_io := (st_io s)\<lparr>io_heap :=
     (io_heap (st_io s))[h := f (hash_at s h)]\<rparr>\<rparr>)"

definition hash_getRefCnt :: "stor \<Rightarrow> hid \<Rightarrow> int" where
  "hash_getRefCnt s h = h_refcnt (hash_at s h)"

definition hash_getBucketIndex :: "stor \<Rightarrow> hid \<Rightarrow> bucketIndex_t" where
  "hash_getBucketIndex s h = h_bucketIndex (hash_at s h)"

definition hash_hasData :: "stor \<Rightarrow> hid \<Rightarrow> bool" where
  "hash_hasData s h \<longleftrightarrow> h_data (hash_at s h) \<noteq> None"

definition hash_data :: "env \<Rightarrow> hid \<Rightarrow> bool \<Rightarrow> (chunk option) stor_op" where
  "hash_data E h load =
     bindS (getS (\<lambda>s. hash_at s h)) (\<lambda>obj.
     if h_data obj = None \<and> \<not> hash_isFlags obj FLAG_NOAUTOLOAD \<and> load
     then bindS (stor_getChunk E (h_bucketIndex obj)) (\<lambda>c.
          bindS (upd_hash h (\<lambda>x. x\<lparr>h_data := Some c\<rparr>)) (\<lambda>_. returnS (Some c)))
     else returnS (h_data obj))"

definition hash_clearData :: "hid \<Rightarrow> bool stor_op" where
  "hash_clearData h =
     bindS (getS (\<lambda>s. hash_at s h)) (\<lambda>obj.
     if \<not> hash_isFlags obj FLAG_NOAUTOSTORE
     then bindS (upd_hash h (\<lambda>x. x\<lparr>h_data := None\<rparr>)) (\<lambda>_. returnS (h_data obj \<noteq> None))
     else returnS False)"

definition hash_rest :: "hid \<Rightarrow> bool stor_op" where
  "hash_rest h = hash_clearData h"

definition hash_incRefCnt :: "env \<Rightarrow> hid \<Rightarrow> nat \<Rightarrow> unit stor_op" where
  "hash_incRefCnt E h n =
     bindS (upd_hash h (\<lambda>x. x\<lparr>h_refcnt := h_refcnt x + int n\<rparr>)) (\<lambda>_.
     bindS (getS (\<lambda>s. hash_at s h)) (\<lambda>obj.
     whenS (\<not> hash_isFlags obj (FLAG_NOAUTOLOAD OR FLAG_NOAUTOSTORE))
       (bindS (assertS (\<not> hash_isFlags obj FLAG_DELETED)) (\<lambda>_.
        inBucket E (bucket_of (h_bucketIndex obj)) hashChanged))))"

text \<open>The branch of \<^verbatim>\<open>decRefCnt\<close> for a count that reached zero.\<close>

definition hash_release :: "env \<Rightarrow> hid \<Rightarrow> hashobj \<Rightarrow> unit stor_op" where
  "hash_release E h obj =
     bindS (upd_hash h (hash_setFlags FLAG_DELETED)) (\<lambda>_.
     bindS (getS (\<lambda>s. umap_get (st_index s) (h_hsh obj))) (\<lambda>hsh.
     bindS (assertS (hsh = Some h)) (\<lambda>_.
     bindS (getS (\<lambda>s. fst (umap_erase (st_index s) (h_hsh obj)))) (\<lambda>num.
     bindS (modifyS (\<lambda>s. s\<lparr>st_index := snd (umap_erase (st_index s) (h_hsh obj))\<rparr>)) (\<lambda>_.
     bindS (whenS (num = 1)
       (bindS (inBucket E (bucket_of (h_bucketIndex obj))
                 (clearHashAndChunk E (index_of (h_bucketIndex obj)))) (\<lambda>_.
        accounting_post E (h_bucketIndex obj)))) (\<lambda>_.
     bindS (hash_clearData h) (\<lambda>_. returnS ())))))))"

definition hash_decRefCnt :: "env \<Rightarrow> hid \<Rightarrow> nat \<Rightarrow> unit stor_op" where
  "hash_decRefCnt E h n =
     bindS (upd_hash h (\<lambda>x. x\<lparr>h_refcnt := h_refcnt x - int n\<rparr>)) (\<lambda>_.
     bindS (getS (\<lambda>s. hash_at s h)) (\<lambda>obj.
     whenS (\<not> hash_isFlags obj (FLAG_NOAUTOLOAD OR FLAG_NOAUTOSTORE OR FLAG_DELETED))
       (bindS (whenS (h_refcnt obj = 0) (hash_release E h obj)) (\<lambda>_.
        inBucket E (bucket_of (h_bucketIndex obj)) hashChanged))))"

definition hash_compareChunk :: "env \<Rightarrow> hid \<Rightarrow> chunk \<Rightarrow> bool stor_op" where
  "hash_compareChunk E h c =
     bindS (hash_data E h True) (\<lambda>d.
     bindS (assertS (d \<noteq> None)) (\<lambda>_. returnS (compareChunk (the d) c)))"

definition hash_read :: "env \<Rightarrow> hid \<Rightarrow> nat \<Rightarrow> nat \<Rightarrow> (byte list) stor_op" where
  "hash_read E h off sz =
     bindS (hash_data E h True) (\<lambda>d.
     bindS (assertS (d \<noteq> None)) (\<lambda>_. liftS (chunk_read (the d) off sz)))"

section \<open>New hashes (storage::newHash, hash::write)\<close>

text \<open>
  A chunk whose sum is in the index is not stored again; a differing content is only logged. \<open>newHash_from\<close> is what follows
  the lookup, which no lock connects with it.
\<close>

definition newHash_from :: "env \<Rightarrow> sha256sum \<Rightarrow> chunk \<Rightarrow> hid option \<Rightarrow> hid stor_op" where
  "newHash_from E key c it =
     (case it of
       Some h \<Rightarrow> bindS (hash_compareChunk E h c) (\<lambda>_. returnS h)
     | None \<Rightarrow>
         bindS accounting_fetch (\<lambda>slot.
         bindS (getS (\<lambda>s. length (io_heap (st_io s)))) (\<lambda>h.
         bindS (modifyS (\<lambda>s. s\<lparr>st_io := snd (io_alloc
           \<lparr>h_hsh = key, h_bucketIndex = slot, h_refcnt = 0, h_data = Some c, h_flags = 0\<rparr> (st_io s))\<rparr>)) (\<lambda>_.
         bindS (inBucket E (bucket_of slot) (putHashAndChunk E (index_of slot) (Some h) c)) (\<lambda>_.
         bindS (modifyS (\<lambda>s. s\<lparr>st_index := umap_insert (st_index s) key h\<rparr>)) (\<lambda>_.
         returnS h))))))"

definition newHash :: "env \<Rightarrow> sha256sum \<Rightarrow> chunk \<Rightarrow> hid stor_op" where
  "newHash E key c = bindS (getS (\<lambda>s. umap_get (st_index s) key)) (newHash_from E key c)"

text \<open>\<^verbatim>\<open>hash::write\<close> up to the comparison of the sums: the changed chunk, when it is another one.\<close>

definition hash_change :: "env \<Rightarrow> hid \<Rightarrow> nat \<Rightarrow> byte list \<Rightarrow> (chunk option) stor_op" where
  "hash_change E h off inp =
     bindS (hash_data E h True) (\<lambda>d.
     bindS (assertS (d \<noteq> None)) (\<lambda>_.
     bindS (liftS (chunk_write (the d) off inp)) (\<lambda>new.
     bindS (getS (\<lambda>s. h_hsh (hash_at s h))) (\<lambda>hsh.
     returnS (if hsh = e_sha E new then None else Some new)))))"

definition hash_write :: "env \<Rightarrow> hid \<Rightarrow> nat \<Rightarrow> byte list \<Rightarrow> (hid option) stor_op" where
  "hash_write E h off inp =
     bindS (hash_change E h off inp) (\<lambda>r.
     case r of None \<Rightarrow> returnS None
     | Some new \<Rightarrow> bindS (newHash E (e_sha E new) new) (\<lambda>n. returnS (Some n)))"

section \<open>Whole-storage operations\<close>

text \<open>
  \<^verbatim>\<open>storeAllData\<close> for the data buckets (\<^verbatim>\<open>store(true)\<close> drops the
  chunks from memory), and \<^verbatim>\<open>bucketInfo::clear\<close>: every hash rests, the index and
  the table are emptied, and the buckets are destroyed.
\<close>

definition storeAllData :: "env \<Rightarrow> unit stor_op" where
  "storeAllData E =
     bindS (getS (\<lambda>s. map fst (umap_clone (st_loaded s)))) (\<lambda>ids.
     forS ids (\<lambda>i. inBucket E i (bucket_store E True)))"

definition rest_slots :: "env \<Rightarrow> nat \<Rightarrow> unit stor_op" where
  "rest_slots E i =
     forS [0..<chunksInBucket] (\<lambda>a.
       bindS (inBucket E i (bucket_getHash E a)) (\<lambda>hsh.
       case hsh of None \<Rightarrow> returnS () | Some h \<Rightarrow> bindS (hash_rest h) (\<lambda>_. returnS ())))"

definition bucketInfo_clear :: "env \<Rightarrow> unit stor_op" where
  "bucketInfo_clear E =
     bindS (getS (\<lambda>s. umap_list (st_index s))) (\<lambda>hl.
     bindS (forS hl (\<lambda>h. bindS (hash_rest h) (\<lambda>_. returnS ()))) (\<lambda>_.
     bindS (modifyS (\<lambda>s. s\<lparr>st_index := umap_empty\<rparr>)) (\<lambda>_.
     bindS (getS (\<lambda>s. map fst (umap_clone (st_loaded s)))) (\<lambda>ids.
     bindS (forS ids (rest_slots E)) (\<lambda>_.
     forS ids (removeBucket E))))))"

text \<open>
  \<^verbatim>\<open>loadHashesFromBucket\<close> for a data bucket: its hashes go into the index, its empty
  slots (but for the root slot) are collected for posting. An exception ends the bucket with
  what was collected so far.
\<close>

definition load_slot :: "env \<Rightarrow> nat \<Rightarrow> nat \<Rightarrow> (stor \<times> bucketIndex_t list, unit) op" where
  "load_slot E i a =
     bindS (zoomS fst (\<lambda>s (_, p). (s, p)) (inBucket E i (bucket_getHash E a))) (\<lambda>hsh.
     case hsh of
       Some h \<Rightarrow>
         bindS (modifyS (\<lambda>(s, p). (s\<lparr>st_index := umap_insert (st_index s) (h_hsh (hash_at s h)) h\<rparr>, p))) (\<lambda>_.
         bindS (getS (\<lambda>(s, p). hash_at s h)) (\<lambda>obj.
         bindS (assertS (bucketIndex i a = h_bucketIndex obj)) (\<lambda>_.
         assertS (h_refcnt obj > 0))))
     | None \<Rightarrow> whenS (bucketIndex i a \<noteq> fs_rootIndex)
                 (modifyS (\<lambda>(s, p). (s, p @ [bucketIndex i a]))))"

definition loadHashesFromBucket :: "env \<Rightarrow> nat \<Rightarrow> (stor \<times> bucketIndex_t list, unit) op" where
  "loadHashesFromBucket E i =
     catchS (forS [0..<chunksInBucket] (load_slot E i)) (\<lambda>_. returnS ())"

definition loadBuckets :: "env \<Rightarrow> nat list \<Rightarrow> unit stor_op" where
  "loadBuckets E ids =
     bindS (\<lambda>s. case forS ids (loadHashesFromBucket E) (s, []) of
              Inl (e, (s', _)) \<Rightarrow> Inl (e, s') | Inr (_, (s', p)) \<Rightarrow> Inr (p, s')) (\<lambda>postList.
     bindS (modifyS (\<lambda>s. s\<lparr>st_acc := acc_new (sorted_list_of_set (set ids))\<rparr>)) (\<lambda>_.
     forS (rev postList) (accounting_post E)))"

text \<open>\<^verbatim>\<open>storage::migrate\<close>: each loaded bucket moves its contents to a bucket of the new protocol.\<close>

definition migrate_bucket :: "env \<Rightarrow> env \<Rightarrow> nat \<Rightarrow> unit stor_op" where
  "migrate_bucket E E' i =
     bindS (getS (\<lambda>s. umap_get (st_loaded s) i)) (\<lambda>it.
     case it of None \<Rightarrow> returnS ()
     | Some b \<Rightarrow>
         bindS (inBucket E i (bucket_migrateTo E (bucket_new (getBucketFilename E' i)))) (\<lambda>nb.
         bindS (zoomS (\<lambda>s. (nb, st_io s)) (\<lambda>(b', io') s. s\<lparr>st_io := io'\<rparr>)
           (bindS (bucket_store E' False) (\<lambda>_. getS fst))) (\<lambda>nb'.
         bindS (inBucket E i bucket_del) (\<lambda>_.
         modifyS (\<lambda>s. s\<lparr>st_loaded := umap_insert (st_loaded s) i nb'\<rparr>)))))"

definition storage_migrate :: "env \<Rightarrow> env \<Rightarrow> unit stor_op" where
  "storage_migrate E E' =
     bindS (getS (\<lambda>s. map fst (umap_clone (st_loaded s)))) (\<lambda>ids. forS ids (migrate_bucket E E'))"

end
