(* ===== verification/Storage_Inv.thy ===== *)
theory Storage_Inv
  imports Storage Accounting_Pool
begin

text \<open>
  The invariant of the storage layer and the behaviour of each of its operations on it: every
  hash in the index owns a slot that is not on offer, shows a chunk with its sum, and carries
  the number of references \<open>R\<close> that its clients hold. \<open>U\<close> is a set of chunks on which the
  sum has no collisions. The locale \<open>chunk_store\<close> is the contract that the files use.
\<close>

section \<open>Views\<close>

text \<open>The bucket that \<^verbatim>\<open>getBucket(i)\<close> would return.\<close>

definition bk :: "env \<Rightarrow> stor \<Rightarrow> nat \<Rightarrow> bucket" where
  "bk E s i = (case umap_get (st_loaded s) i of Some b \<Rightarrow> b | None \<Rightarrow> bucket_new (getBucketFilename E i))"

definition slot_view :: "env \<Rightarrow> stor \<Rightarrow> bucketIndex_t \<Rightarrow> chunk" where
  "slot_view E s i = view_at E (bk E s (bucket_of i)) (st_io s) (index_of i)"

definition hcontent :: "env \<Rightarrow> stor \<Rightarrow> hid \<Rightarrow> chunk" where
  "hcontent E s h =
     (case h_data (hash_at s h) of Some c \<Rightarrow> c | None \<Rightarrow> slot_view E s (h_bucketIndex (hash_at s h)))"

definition alive :: "stor \<Rightarrow> hid \<Rightarrow> bool" where
  "alive s h \<longleftrightarrow> (\<exists>k. umap_get (st_index s) k = Some h)"

definition put_bucket :: "nat \<Rightarrow> bucket \<Rightarrow> bio \<Rightarrow> stor \<Rightarrow> stor" where
  "put_bucket i b io s = s\<lparr>st_loaded := umap_insert (st_loaded s) i b, st_io := io\<rparr>"

lemma put_bucket_simps [simp]:
  "st_io (put_bucket i b io s) = io"
  "st_index (put_bucket i b io s) = st_index s"
  "st_acc (put_bucket i b io s) = st_acc s"
  "umap_get (st_loaded (put_bucket i b io s)) j = (if j = i then Some b else umap_get (st_loaded s) j)"
  "bk E (put_bucket i b io s) j = (if j = i then b else bk E s j)"
  by (simp_all add: put_bucket_def bk_def)

lemma put_bucket_io [simp]: "put_bucket i b io (s\<lparr>st_io := x\<rparr>) = put_bucket i b io s"
  by (simp add: put_bucket_def)

lemma bk_upd [simp]: "bk E (s\<lparr>st_io := x\<rparr>) i = bk E s i" "bk E (s\<lparr>st_acc := a\<rparr>) i = bk E s i"
  by (simp_all add: bk_def)

lemma assoc_set_twice [simp]: "assoc_set (assoc_set m k v) k w = assoc_set m k w"
  by (induction m k v rule: assoc_set.induct) auto

lemma umap_insert_twice [simp]: "umap_insert (umap_insert m k v) k w = umap_insert m k w"
  by (simp add: umap_insert_def Let_def)

lemma wp_inBucket [wp_simps]:
  "wpx A (inBucket E i m) Q =
     (\<lambda>s. wpx A m (\<lambda>x (b', io'). Q x (put_bucket i b' io' s)) (bk E s i, st_io s))"
  by (rule ext) (auto simp: inBucket_def getBucket_def bk_def put_bucket_def split: option.splits
      intro: wp_mono)

section \<open>The invariant\<close>

definition buckets_inv :: "env \<Rightarrow> stor \<Rightarrow> bool" where
  "buckets_inv E s \<longleftrightarrow>
     umap_inv (st_loaded s) \<and>
     (\<forall>i. bucket_ok E (bk E s i) (st_io s) \<and> b_base (bk E s i) = getBucketFilename E i \<and>
        bucket_ok E (bucket_new (getBucketFilename E i)) (st_io s) \<and>
        (b_hashes (bk E s i) = None \<longrightarrow>
           b_hashChanges (bk E s i) = 0 \<and> b_chunkChanges (bk E s i) = 0))"

definition pinned :: u32 where "pinned = FLAG_NOAUTOSTORE OR FLAG_NOAUTOLOAD"

definition hash_ok :: "env \<Rightarrow> stor \<Rightarrow> hid \<Rightarrow> bool" where
  "hash_ok E s h \<longleftrightarrow>
     h < length (io_heap (st_io s)) \<and> length (hcontent E s h) = chunkSize \<and>
     (h_flags (hash_at s h) = pinned \<and> h_data (hash_at s h) \<noteq> None \<or>
      h_flags (hash_at s h) = 0 \<and>
      hcontent E s h = slot_view E s (h_bucketIndex (hash_at s h))) \<and>
     (\<exists>H. b_hashes (bk E s (bucket_of (h_bucketIndex (hash_at s h)))) = Some H \<and>
         H ! index_of (h_bucketIndex (hash_at s h)) = Some h)"

definition slots_of :: "stor \<Rightarrow> bucketIndex_t set" where
  "slots_of s = {h_bucketIndex (hash_at s h) | h. alive s h}"

lemma slots_of_image: "slots_of s = (\<lambda>h. h_bucketIndex (hash_at s h)) ` {h. alive s h}"
  by (auto simp: slots_of_def)

definition stor_inv :: "env \<Rightarrow> chunk set \<Rightarrow> (hid \<Rightarrow> nat) \<Rightarrow> stor \<Rightarrow> bool" where
  "stor_inv E U R s \<longleftrightarrow>
     umap_inv (st_index s) \<and> buckets_inv E s \<and>
     (\<forall>k h. umap_get (st_index s) k = Some h \<longrightarrow>
        hash_ok E s h \<and> h_hsh (hash_at s h) = k \<and> e_sha E (hcontent E s h) = k \<and>
        hcontent E s h \<in> U \<and> h_refcnt (hash_at s h) = int (R h)) \<and>
     inj_on (\<lambda>h. h_bucketIndex (hash_at s h)) {h. alive s h} \<and>
     acc.holds (st_acc s) (slots_of s) \<and>
     (\<forall>h. 0 < R h \<longrightarrow> alive s h)"

lemma stor_invD:
  assumes "stor_inv E U R s"
  shows "umap_inv (st_index s)" "buckets_inv E s"
    "inj_on (\<lambda>h. h_bucketIndex (hash_at s h)) {h. alive s h}"
    "acc.holds (st_acc s) (slots_of s)" "\<And>h. 0 < R h \<Longrightarrow> alive s h"
    "\<And>h. alive s h \<Longrightarrow> umap_get (st_index s) (h_hsh (hash_at s h)) = Some h"
    "\<And>h. alive s h \<Longrightarrow> hash_ok E s h \<and> e_sha E (hcontent E s h) = h_hsh (hash_at s h) \<and>
        hcontent E s h \<in> U \<and> h_refcnt (hash_at s h) = int (R h)"
  using assms by (auto simp: stor_inv_def alive_def)

lemma stor_invI:
  assumes "umap_inv (st_index s)" "buckets_inv E s"
    and "\<And>k h. umap_get (st_index s) k = Some h \<Longrightarrow> h_hsh (hash_at s h) = k"
    and "\<And>h. alive s h \<Longrightarrow> hash_ok E s h \<and> e_sha E (hcontent E s h) = h_hsh (hash_at s h) \<and>
        hcontent E s h \<in> U \<and> h_refcnt (hash_at s h) = int (R h)"
    and "inj_on (\<lambda>h. h_bucketIndex (hash_at s h)) {h. alive s h}"
    and "acc.holds (st_acc s) (slots_of s)" "\<And>h. 0 < R h \<Longrightarrow> alive s h"
  shows "stor_inv E U R s"
  using assms unfolding stor_inv_def alive_def by blast

lemma index_key: "stor_inv E U R s \<Longrightarrow> umap_get (st_index s) k = Some h \<Longrightarrow> h_hsh (hash_at s h) = k"
  by (simp add: stor_inv_def)

lemma bucketsD:
  assumes "buckets_inv E s"
  shows "umap_inv (st_loaded s)" "bucket_ok E (bk E s i) (st_io s)"
    "b_base (bk E s i) = getBucketFilename E i"
    "b_hashes (bk E s i) = None \<Longrightarrow> b_hashChanges (bk E s i) = 0 \<and> b_chunkChanges (bk E s i) = 0"
    "length (slot_view E s j) = chunkSize"
    "bucket_ok E (bucket_new (getBucketFilename E i)) (st_io s)"
  using assms bucket_okD by (auto simp: buckets_inv_def slot_view_def)

lemma flags_of_zero:
  "h_flags x = 0 \<Longrightarrow> \<not> hash_isFlags x f"
  by (simp add: hash_isFlags_def)

lemma flags_of_pinned:
  assumes "h_flags x = pinned"
  shows "hash_isFlags x FLAG_NOAUTOLOAD" "hash_isFlags x FLAG_NOAUTOSTORE"
    "hash_isFlags x (FLAG_NOAUTOLOAD OR FLAG_NOAUTOSTORE)"
    "hash_isFlags x (FLAG_NOAUTOLOAD OR FLAG_NOAUTOSTORE OR FLAG_DELETED)"
  using assms by (simp_all add: hash_isFlags_def pinned_def hash_flags)

section \<open>Steps that change nothing visible\<close>

text \<open>
  A bucket can take a journal reference: its hashes are in memory, so that a full change log
  can be stored, or its log is empty (it was released).
\<close>

definition log_ok :: "env \<Rightarrow> stor \<Rightarrow> nat \<Rightarrow> bool" where
  "log_ok E s i \<longleftrightarrow> b_hashes (bk E s i) \<noteq> None \<or> b_changes (bk E s i) = None"

definition logs :: "env \<Rightarrow> stor \<Rightarrow> stor \<Rightarrow> bool" where
  "logs E s s' \<longleftrightarrow> (\<forall>i. log_ok E s i \<longrightarrow> log_ok E s' i)"

lemma logs_refl [simp]: "logs E s s"
  by (simp add: logs_def)

lemma logs_trans: "logs E a b \<Longrightarrow> logs E b c \<Longrightarrow> logs E a c"
  by (simp add: logs_def)

lemma logs_bk: "(\<And>i. bk E s' i = bk E s i) \<Longrightarrow> logs E s s'"
  by (simp add: logs_def log_ok_def)

definition quiet0 :: "env \<Rightarrow> stor \<Rightarrow> stor \<Rightarrow> bool" where
  "quiet0 E s s' \<longleftrightarrow>
     st_index s' = st_index s \<and> st_acc s' = st_acc s \<and> buckets_inv E s' \<and>
     (\<forall>h. alive s h \<longrightarrow> hash_ok E s' h \<and> hcontent E s' h = hcontent E s h \<and>
        (\<exists>d. hash_at s' h = (hash_at s h)\<lparr>h_data := d\<rparr>))"

lemma alive_quiet0: "quiet0 E s s' \<Longrightarrow> alive s' h \<longleftrightarrow> alive s h"
  by (simp add: quiet0_def alive_def)

lemma quiet0D:
  assumes "quiet0 E s s'" "alive s h"
  shows "hash_ok E s' h" "hcontent E s' h = hcontent E s h"
    "h_hsh (hash_at s' h) = h_hsh (hash_at s h)" "h_refcnt (hash_at s' h) = h_refcnt (hash_at s h)"
    "h_bucketIndex (hash_at s' h) = h_bucketIndex (hash_at s h)"
    "h_flags (hash_at s' h) = h_flags (hash_at s h)"
  using assms unfolding quiet0_def by (metis hashobj.simps(1-5) hashobj.surjective hashobj.update_convs(4))+

lemma slots_quiet0: "quiet0 E s s' \<Longrightarrow> slots_of s' = slots_of s"
  by (auto simp: slots_of_def alive_quiet0 quiet0D) (metis quiet0D(5))+

lemma stor_inv_quiet0:
  assumes inv: "stor_inv E U R s" and q: "quiet0 E s s'"
  shows "stor_inv E U R s'"
proof -
  have "inj_on (\<lambda>h. h_bucketIndex (hash_at s' h)) {h. alive s' h}"
    using stor_invD(3) [OF inv] quiet0D(5) [OF q] by (auto simp: inj_on_def alive_quiet0 [OF q])
  moreover have "acc.holds (st_acc s') (slots_of s')"
    using stor_invD(4) [OF inv] slots_quiet0 [OF q] q by (simp add: quiet0_def)
  moreover have "hash_ok E s' h \<and> h_hsh (hash_at s' h) = k \<and> e_sha E (hcontent E s' h) = k \<and>
        hcontent E s' h \<in> U \<and> h_refcnt (hash_at s' h) = int (R h)"
    if "umap_get (st_index s') k = Some h" for k h
  proof -
    have k: "umap_get (st_index s) k = Some h" using that q by (simp add: quiet0_def)
    then have a: "alive s h" by (auto simp: alive_def)
    show ?thesis
      using inv k quiet0D [OF q a] by (simp add: stor_inv_def)
  qed
  ultimately show ?thesis
    using inv q alive_quiet0 [OF q] by (simp add: stor_inv_def quiet0_def)
qed

text \<open>The same, and no bucket becomes unable to take a journal reference.\<close>

definition quiet :: "env \<Rightarrow> stor \<Rightarrow> stor \<Rightarrow> bool" where
  "quiet E s s' \<longleftrightarrow>
     st_index s' = st_index s \<and> st_acc s' = st_acc s \<and> buckets_inv E s' \<and> logs E s s' \<and>
     (\<forall>h. alive s h \<longrightarrow> hash_ok E s' h \<and> hcontent E s' h = hcontent E s h \<and>
        (\<exists>d. hash_at s' h = (hash_at s h)\<lparr>h_data := d\<rparr>))"

lemma quiet_quiet0: "quiet E s s' \<Longrightarrow> quiet0 E s s'"
  by (simp add: quiet_def quiet0_def)

lemmas alive_quiet = alive_quiet0 [OF quiet_quiet0]
lemmas quietD = quiet0D [OF quiet_quiet0]
lemmas slots_quiet = slots_quiet0 [OF quiet_quiet0]
lemmas stor_inv_quiet = stor_inv_quiet0 [OF _ quiet_quiet0]

lemma quiet_logs: "quiet E s s' \<Longrightarrow> logs E s s'"
  by (simp add: quiet_def)

lemma quiet_trans: "quiet E a b \<Longrightarrow> quiet E b c \<Longrightarrow> quiet E a c"
  unfolding quiet_def alive_def logs_def by (metis hashobj.surjective hashobj.update_convs(4))

lemma quiet_refl: "stor_inv E U R s \<Longrightarrow> quiet E s s"
  by (auto simp: quiet_def stor_invD) (metis hashobj.surjective hashobj.update_convs(4))

lemma slot_view_cong:
  "st_loaded s' = st_loaded s \<Longrightarrow> io_disk (st_io s') = io_disk (st_io s) \<Longrightarrow>
     slot_view E s' i = slot_view E s i"
  using view_cong(3) [of "st_io s'" "st_io s" E] by (simp add: slot_view_def bk_def)

lemma put_view:
  assumes "heap_grows (st_io s) io'"
    and "\<forall>j < chunksInBucket. view_at E b' io' j = view_at E (bk E s i) (st_io s) j"
  shows "slot_view E (put_bucket i b' io' s) k = slot_view E s k"
  using assms(2) view_cong(3) [OF heap_growsD(1) [OF assms(1)], of E] by (simp add: slot_view_def)

lemma buckets_inv_put:
  assumes "buckets_inv E s" "sums_kept (st_io s) io'" "bucket_ok E b' io'"
    and "b_base b' = getBucketFilename E i"
    and "b_hashes b' = None \<Longrightarrow> b_hashChanges b' = 0 \<and> b_chunkChanges b' = 0"
  shows "buckets_inv E (put_bucket i b' io' s)"
proof -
  have "umap_inv (st_loaded (put_bucket i b' io' s))"
    using assms(1) by (simp add: buckets_inv_def put_bucket_def)
  then show ?thesis using assms bucket_ok_kept [OF assms(2)] by (simp add: buckets_inv_def)
qed

lemma buckets_inv_heap:
  assumes "buckets_inv E s" "st_loaded s' = st_loaded s" "sums_kept (st_io s) (st_io s')"
  shows "buckets_inv E s'"
  using assms(1,2) bucket_ok_kept [OF assms(3)] by (simp add: buckets_inv_def bk_def)

lemma hash_at_grows:
  "heap_grows (st_io s) (st_io s') \<Longrightarrow> h < length (io_heap (st_io s)) \<Longrightarrow> hash_at s' h = hash_at s h"
  by (simp add: hash_at_def heap_growsD)

lemma quiet_put:
  assumes inv: "stor_inv E U R s" and same: "same_bucket E (bk E s i) (st_io s) b' io'"
  shows "quiet E s (put_bucket i b' io' s)"
proof -
  let ?s' = "put_bucket i b' io' s"
  note B = bucketsD [OF stor_invD(2) [OF inv]]
  have g: "heap_grows (st_io s) io'" and v: "slot_view E ?s' k = slot_view E s k" for k
    using same put_view by (auto simp: same_bucket_def)
  have "buckets_inv E ?s'"
    by (rule buckets_inv_put [OF stor_invD(2) [OF inv] sums_kept_grows [OF g]])
      (use same B(3) B(4) [of i] in \<open>auto simp: same_bucket_def\<close>)
  moreover have "hash_ok E ?s' h \<and> hcontent E ?s' h = hcontent E s h \<and> hash_at ?s' h = hash_at s h"
    if a: "alive s h" for h
  proof -
    have ok: "hash_ok E s h" using stor_invD(7) [OF inv a] by simp
    then have at: "hash_at ?s' h = hash_at s h" using g by (simp add: hash_ok_def hash_at_grows)
    have c: "hcontent E ?s' h = hcontent E s h" unfolding hcontent_def at v ..
    show ?thesis
      using ok at c v same heap_growsD(4) [OF g] by (auto simp: hash_ok_def same_bucket_def)
  qed
  moreover have "logs E s ?s'" using same by (auto simp: logs_def log_ok_def same_bucket_def)
  ultimately show ?thesis
    unfolding quiet_def using hashobj.surjective hashobj.update_convs(4) by (metis put_bucket_simps(2,3))
qed

text \<open>Changing only the cached data of a hash, to nothing or to what its slot shows.\<close>

lemma hash_at_upd:
  assumes "h < length (io_heap (st_io s))"
  shows "hash_at (s\<lparr>st_io := (st_io s)\<lparr>io_heap := (io_heap (st_io s))[h := x]\<rparr>\<rparr>) g =
    (if g = h then x else hash_at s g)"
  using assms by (simp add: hash_at_def nth_list_update)

lemma quiet_data:
  assumes inv: "stor_inv E U R s" and a: "alive s h" and f: "h_flags (hash_at s h) = 0"
    and d: "d = None \<or> d = Some (hcontent E s h)"
  shows "quiet E s (s\<lparr>st_io := (st_io s)\<lparr>io_heap := (io_heap (st_io s))[h := (hash_at s h)\<lparr>h_data := d\<rparr>]\<rparr>\<rparr>)"
    (is "quiet E s ?s'")
proof -
  have ok: "hash_ok E s h" using stor_invD(7) [OF inv a] by simp
  then have h: "h < length (io_heap (st_io s))" by (simp add: hash_ok_def)
  note at = hash_at_upd [OF h, of "(hash_at s h)\<lparr>h_data := d\<rparr>"]
  have b: "bk E ?s' i = bk E s i" for i by (simp add: bk_def)
  have v: "slot_view E ?s' k = slot_view E s k" for k by (rule slot_view_cong) simp_all
  have "buckets_inv E ?s'"
    by (rule buckets_inv_heap [OF stor_invD(2) [OF inv]])
      (use h in \<open>auto simp: sums_kept_def hash_at_def nth_list_update\<close>)
  moreover have "hash_ok E ?s' g \<and> hcontent E ?s' g = hcontent E s g \<and>
      (\<exists>d. hash_at ?s' g = (hash_at s g)\<lparr>h_data := d\<rparr>)" if g: "alive s g" for g
  proof (cases "g = h")
    case True
    have sv: "slot_view E s (h_bucketIndex (hash_at s h)) = hcontent E s h"
      using ok f by (auto simp: hash_ok_def pinned_def hash_flags)
    have ath: "hash_at ?s' h = (hash_at s h)\<lparr>h_data := d\<rparr>" by (simp only: at refl if_True)
    have c: "hcontent E ?s' h = hcontent E s h"
      unfolding hcontent_def [of E ?s'] ath v using d sv by (cases d) simp_all
    have "hash_ok E ?s' h"
      using ok f h v unfolding hash_ok_def c at b by (auto simp: pinned_def hash_flags)
    with True c at show ?thesis by auto
  next
    case False
    then have e: "hash_at ?s' g = hash_at s g" by (simp add: at)
    then have c: "hcontent E ?s' g = hcontent E s g"
      unfolding hcontent_def e v by simp
    have "hash_ok E s g" using stor_invD(7) [OF inv g] by simp
    then have "hash_ok E ?s' g" unfolding hash_ok_def c e b v by simp
    with c e show ?thesis by (metis hashobj.surjective hashobj.update_convs(4))
  qed
  moreover have "logs E s ?s'" by (rule logs_bk) (rule b)
  ultimately show ?thesis by (simp add: quiet_def)
qed

section \<open>Reading\<close>

lemma wp_stor_getChunk:
  assumes inv: "stor_inv E U R s"
  shows "wp (stor_getChunk E i) (\<lambda>c s'. c = slot_view E s i \<and> quiet E s s') s"
  unfolding stor_getChunk_def wp_inBucket
  by (rule wp_mono [OF wp_bucket_getChunk [OF bucketsD(2) [OF stor_invD(2) [OF inv]] index_of_less]])
    (auto simp: slot_view_def quiet_put [OF inv])

text \<open>The cached data of a live hash is its content, and reading caches it.\<close>

lemma wp_hash_data:
  assumes inv: "stor_inv E U R s" and a: "alive s h"
  shows "wp (hash_data E h True) (\<lambda>d s'. d = Some (hcontent E s h) \<and> quiet E s s') s"
proof -
  have ok: "hash_ok E s h" using stor_invD(7) [OF inv a] by simp
  show ?thesis
  proof (cases "h_data (hash_at s h)")
    case (Some c)
    then show ?thesis by (simp add: hash_data_def hcontent_def quiet_refl [OF inv])
  next
    case None
    then have f: "h_flags (hash_at s h) = 0" using ok by (auto simp: hash_ok_def)
    have c: "hcontent E s h = slot_view E s (h_bucketIndex (hash_at s h))"
      using None by (simp add: hcontent_def)
    have "wp (stor_getChunk E (h_bucketIndex (hash_at s h)))
       (\<lambda>c. wp (upd_hash h (\<lambda>x. x\<lparr>h_data := Some c\<rparr>))
         (\<lambda>_ s'. Some c = Some (hcontent E s h) \<and> quiet E s s')) s"
    proof (rule wp_mono [OF wp_stor_getChunk [OF inv]], elim conjE)
      fix c' t assume c': "c' = slot_view E s (h_bucketIndex (hash_at s h))" and q: "quiet E s t"
      have "quiet E t (t\<lparr>st_io := (st_io t)\<lparr>io_heap :=
          (io_heap (st_io t))[h := (hash_at t h)\<lparr>h_data := Some c'\<rparr>]\<rparr>\<rparr>)"
        using quietD [OF q a] f c c' alive_quiet [OF q] a
        by (intro quiet_data [OF stor_inv_quiet [OF inv q]]) simp_all
      with q c c' show "wp (upd_hash h (\<lambda>x. x\<lparr>h_data := Some c'\<rparr>))
         (\<lambda>_ s'. Some c' = Some (hcontent E s h) \<and> quiet E s s') t"
        by (auto simp: upd_hash_def intro: quiet_trans)
    qed
    then show ?thesis
      using None flags_of_zero [OF f] by (simp add: hash_data_def)
  qed
qed

lemma wp_hash_read:
  assumes inv: "stor_inv E U R s" and a: "alive s h" and sz: "off + sz \<le> chunkSize"
  shows "wp (hash_read E h off sz) (\<lambda>bs s'. bs = take sz (drop off (hcontent E s h)) \<and> quiet E s s') s"
proof -
  have "length (hcontent E s h) = chunkSize"
    using stor_invD(7) [OF inv a] by (simp add: hash_ok_def)
  then show ?thesis
    unfolding hash_read_def wp_bind
    by (intro wp_mono [OF wp_hash_data [OF inv a]]) (use sz in \<open>auto simp: chunk_read_def\<close>)
qed

lemma wp_hash_compareChunk:
  assumes inv: "stor_inv E U R s" and a: "alive s h"
  shows "wp (hash_compareChunk E h c) (\<lambda>_ s'. quiet E s s') s"
  unfolding hash_compareChunk_def wp_bind
  by (intro wp_mono [OF wp_hash_data [OF inv a]]) auto

lemma wp_hash_rest:
  assumes inv: "stor_inv E U R s" and a: "alive s h"
  shows "wp (hash_rest h) (\<lambda>_ s'. quiet E s s') s"
proof -
  have "h_flags (hash_at s h) = 0 \<or> h_flags (hash_at s h) = pinned"
    using stor_invD(7) [OF inv a] by (auto simp: hash_ok_def)
  then show ?thesis
  proof
    assume f: "h_flags (hash_at s h) = 0"
    then show ?thesis
      using quiet_data [OF inv a f, of None] flags_of_zero [OF f]
      by (simp add: hash_rest_def hash_clearData_def upd_hash_def)
  next
    assume "h_flags (hash_at s h) = pinned"
    from flags_of_pinned(2) [OF this] show ?thesis
      by (simp add: hash_rest_def hash_clearData_def quiet_refl [OF inv])
  qed
qed

section \<open>Reference counts\<close>

lemma wp_hashChanged:
  assumes inv: "stor_inv E U R s" and b: "b_hashes (bk E s i) \<noteq> None"
  shows "wp (inBucket E i hashChanged) (\<lambda>_ s'. quiet E s s') s"
proof -
  have ok: "bucket_ok E (bk E s i) (st_io s)" by (rule bucketsD(2) [OF stor_invD(2) [OF inv]])
  let ?b = "(bk E s i)\<lparr>b_hashChanges := Suc (b_hashChanges (bk E s i))\<rparr>"
  have "chunk_view E ?b (st_io s) = chunk_view E (bk E s i) (st_io s)"
    by (simp add: chunk_view_def split: option.splits)
  then have "same_bucket E (bk E s i) (st_io s) ?b (st_io s)"
    using ok b by (auto simp: same_bucket_def bucket_ok_def hashes_loadable_def view_at_def)
  then show ?thesis
    by (simp add: wp_inBucket hashChanged_def quiet_put [OF inv])
qed

definition upd_at :: "hid \<Rightarrow> hashobj \<Rightarrow> stor \<Rightarrow> stor" where
  "upd_at h x s = s\<lparr>st_io := (st_io s)\<lparr>io_heap := (io_heap (st_io s))[h := x]\<rparr>\<rparr>"

lemma wp_upd_hash [simp]: "wpx A (upd_hash h f) Q = (\<lambda>s. Q () (upd_at h (f (hash_at s h)) s))"
  by (simp add: upd_hash_def upd_at_def)

lemma upd_at_simps [simp]:
  "st_index (upd_at h x s) = st_index s" "st_loaded (upd_at h x s) = st_loaded s"
  "st_acc (upd_at h x s) = st_acc s" "io_disk (st_io (upd_at h x s)) = io_disk (st_io s)"
  "bk E (upd_at h x s) i = bk E s i" "alive (upd_at h x s) g = alive s g"
  "length (io_heap (st_io (upd_at h x s))) = length (io_heap (st_io s))"
  "slot_view E (upd_at h x s) j = slot_view E s j"
  by (simp_all add: upd_at_def bk_def alive_def slot_view_def)
    (rule view_cong(3), simp add: upd_at_def)

lemma hash_at_upd_at:
  "h < length (io_heap (st_io s)) \<Longrightarrow> hash_at (upd_at h x s) g = (if g = h then x else hash_at s g)"
  by (simp add: upd_at_def hash_at_upd)

lemma alive_heap: "stor_inv E U R s \<Longrightarrow> alive s h \<Longrightarrow> h < length (io_heap (st_io s))"
  using stor_invD(7) by (auto simp: hash_ok_def)

text \<open>What a client may assume of a step: hashes that were alive keep their content, their flags and their slot.\<close>

definition keeps :: "env \<Rightarrow> stor \<Rightarrow> stor \<Rightarrow> hid \<Rightarrow> bool" where
  "keeps E s s' h \<longleftrightarrow> alive s h \<longrightarrow> alive s' h \<and> hcontent E s' h = hcontent E s h \<and>
     h_flags (hash_at s' h) = h_flags (hash_at s h) \<and>
     h_bucketIndex (hash_at s' h) = h_bucketIndex (hash_at s h)"

lemma keeps_quiet0: "quiet0 E s s' \<Longrightarrow> keeps E s s' h"
  by (simp add: keeps_def alive_quiet0 quiet0D)

lemmas keeps_quiet = keeps_quiet0 [OF quiet_quiet0]

lemma keeps_trans: "keeps E a b h \<Longrightarrow> keeps E b c h \<Longrightarrow> keeps E a c h"
  by (auto simp: keeps_def)

text \<open>Changing a count changes \<open>R\<close> and nothing else.\<close>

lemma stor_inv_refcnt:
  fixes s :: stor and h :: hid and n :: nat
  assumes inv: "stor_inv E U R s" and a: "alive s h"
  defines "s' \<equiv> upd_at h ((hash_at s h)\<lparr>h_refcnt := int n\<rparr>) s"
  shows "stor_inv E U (R(h := n)) s'" "\<And>g. alive s' g = alive s g"
    "\<And>g. hcontent E s' g = hcontent E s g" "\<And>g. keeps E s s' g"
proof -
  have h: "h < length (io_heap (st_io s))" by (rule alive_heap [OF inv a])
  note at = hash_at_upd_at [OF h, of "(hash_at s h)\<lparr>h_refcnt := int n\<rparr>", folded s'_def]
  have fields: "h_hsh (hash_at s' g) = h_hsh (hash_at s g)" "h_data (hash_at s' g) = h_data (hash_at s g)"
    "h_bucketIndex (hash_at s' g) = h_bucketIndex (hash_at s g)"
    "h_flags (hash_at s' g) = h_flags (hash_at s g)" for g
    by (simp_all add: at)
  show al: "\<And>g. alive s' g = alive s g" by (simp add: s'_def)
  show c: "\<And>g. hcontent E s' g = hcontent E s g"
    unfolding hcontent_def fields by (simp add: s'_def split: option.splits)
  show "\<And>g. keeps E s s' g" by (simp add: keeps_def al c fields)
  have ok: "hash_ok E s' g = hash_ok E s g" for g
    unfolding hash_ok_def c fields by (simp add: s'_def)
  have "buckets_inv E s'"
    by (rule buckets_inv_heap [OF stor_invD(2) [OF inv]])
      (use h in \<open>auto simp: s'_def sums_kept_def upd_at_def hash_at_def nth_list_update\<close>)
  moreover have "h_refcnt (hash_at s' g) = int ((R(h := n)) g)" if "alive s g" for g
    using stor_invD(7) [OF inv that] by (simp add: at)
  moreover have "slots_of s' = slots_of s" unfolding slots_of_def fields al ..
  moreover have "0 < (R(h := n)) g \<Longrightarrow> alive s' g" for g
    using stor_invD(5) [OF inv] a al by (cases "g = h") auto
  ultimately show "stor_inv E U (R(h := n)) s'"
    using stor_invD(1,3,4,7) [OF inv] index_key [OF inv]
    by (intro stor_invI) (simp_all add: al c ok fields, simp_all add: s'_def)
qed

lemma wp_hash_incRefCnt:
  assumes inv: "stor_inv E U R s" and a: "alive s h"
  shows "wp (hash_incRefCnt E h n) (\<lambda>_ s'. stor_inv E U (R(h := R h + n)) s' \<and>
     st_acc s' = st_acc s \<and> logs E s s' \<and> (\<forall>g. keeps E s s' g)) s"
proof -
  have h: "h < length (io_heap (st_io s))" by (rule alive_heap [OF inv a])
  let ?x = "(hash_at s h)\<lparr>h_refcnt := h_refcnt (hash_at s h) + int n\<rparr>"
  have x: "?x = (hash_at s h)\<lparr>h_refcnt := int (R h + n)\<rparr>"
    using stor_invD(7) [OF inv a] by simp
  let ?s = "upd_at h ?x s"
  note S = stor_inv_refcnt [OF inv a, of "R h + n", folded x]
  note keeps = S(4)
  have at: "hash_at ?s h = ?x" using h by (simp add: hash_at_upd_at)
  have ok: "hash_ok E s h" using stor_invD(7) [OF inv a] by simp
  show ?thesis
  proof (cases "h_flags (hash_at s h) = 0")
    case True
    then have f: "\<not> hash_isFlags ?x f" for f by (simp add: flags_of_zero)
    have b: "b_hashes (bk E ?s (bucket_of (h_bucketIndex (hash_at s h)))) \<noteq> None"
      using ok True by (auto simp: hash_ok_def pinned_def hash_flags)
    have "wp (inBucket E (bucket_of (h_bucketIndex (hash_at s h))) hashChanged)
       (\<lambda>_ s'. stor_inv E U (R(h := R h + n)) s' \<and> st_acc s' = st_acc s \<and> logs E s s' \<and>
          (\<forall>g. keeps E s s' g)) ?s"
    proof (rule wp_mono [OF wp_hashChanged [OF S(1) b]])
      fix t assume q: "quiet E ?s t"
      then have "st_acc t = st_acc s" by (simp add: quiet_def)
      moreover have "logs E s t" using quiet_logs [OF q] by (simp add: logs_def log_ok_def)
      ultimately show "stor_inv E U (R(h := R h + n)) t \<and> st_acc t = st_acc s \<and> logs E s t \<and>
          (\<forall>g. keeps E s t g)"
        using stor_inv_quiet [OF S(1) q] keeps_trans [OF keeps keeps_quiet [OF q]] by blast
    qed
    then show ?thesis using at f by (simp add: hash_incRefCnt_def)
  next
    case False
    then have "h_flags ?x = pinned" using ok by (auto simp: hash_ok_def)
    from flags_of_pinned(3) [OF this] show ?thesis
      using S(1) at allI [OF keeps] logs_bk [of E ?s s] by (simp add: hash_incRefCnt_def)
  qed
qed

section \<open>New hashes\<close>

definition stor_room :: "stor \<Rightarrow> nat \<Rightarrow> bool" where
  "stor_room s k \<longleftrightarrow> acc_room (st_acc s) k"

lemma stor_room_less: "stor_room s (Suc k) \<Longrightarrow> stor_room s k"
  using acc.room_less by (simp add: stor_room_def)

lemma wp_accounting_fetch:
  assumes "acc.holds (st_acc s) L" "stor_room s (Suc k)"
  shows "wp accounting_fetch (\<lambda>i s'. i \<notin> L \<and> i < 2 ^ 64 \<and>
    (\<exists>a. s' = s\<lparr>st_acc := a\<rparr> \<and> acc.holds a (insert i L)) \<and> stor_room s' k) s"
proof -
  obtain i a where f: "acc_fetch (st_acc s) = Inr (i, a)" "i \<notin> L" "acc.holds a (insert i L)" "acc_room a k"
    using acc.holds_fetch [OF assms(1)] assms(2) unfolding stor_room_def by blast
  have "bucket_of i < 2 ^ 56" using f(3) by (auto simp: acc.holds_def acc_inv_def used_ok_def)
  then have "i < 2 ^ 64" by (simp add: bucket_of_def div_less_iff_less_mult)
  with f show ?thesis by (auto simp: accounting_fetch_def stor_room_def)
qed

text \<open>A fresh object, its slot and its chunk enter the bucket and the index together.\<close>

lemma stor_inv_new:
  assumes inv: "stor_inv E U R s" and free: "umap_get (st_index s) (e_sha E c) = None"
    and c: "length c = chunkSize" "c \<in> U"
    and slot: "i \<notin> slots_of s" "acc.holds a (insert i (slots_of s))"
  defines "h \<equiv> length (io_heap (st_io s))"
  defines "io1 \<equiv> (st_io s)\<lparr>io_heap := io_heap (st_io s) @
      [\<lparr>h_hsh = e_sha E c, h_bucketIndex = i, h_refcnt = 0, h_data = Some c, h_flags = 0\<rparr>]\<rparr>"
  assumes put: "heap_grows io1 io'" "bucket_ok E b' io'" "b_base b' = getBucketFilename E (bucket_of i)"
    "\<forall>j < chunksInBucket. view_at E b' io' j =
       (if j = index_of i then c else view_at E (bk E s (bucket_of i)) io1 j)"
    "b_hashes b' = Some H" "H ! index_of i = Some h"
    "\<And>H0. b_hashes (bk E s (bucket_of i)) = Some H0 \<Longrightarrow> H = H0[index_of i := Some h]"
  defines "s' \<equiv> (put_bucket (bucket_of i) b' io' (s\<lparr>st_acc := a\<rparr>))\<lparr>st_index := umap_insert (st_index s) (e_sha E c) h\<rparr>"
  shows "stor_inv E U R s'" "alive s' h" "hcontent E s' h = c" "\<And>g. keeps E s s' g" "logs E s s'"
    "h_flags (hash_at s' h) = 0"
proof -
  have g1: "heap_grows (st_io s) io1" by (auto simp: heap_grows_def io1_def)
  have g: "heap_grows (st_io s) io'" by (rule heap_grows_trans [OF g1 put(1)])
  have io': "st_io s' = io'" by (simp add: s'_def put_bucket_def)
  have bk': "bk E s' k = (if k = bucket_of i then b' else bk E s k)" for k
    by (simp add: s'_def bk_def put_bucket_def)
  show "logs E s s'" using put(5) by (simp add: logs_def log_ok_def bk')
  have at_h: "hash_at s' h = \<lparr>h_hsh = e_sha E c, h_bucketIndex = i, h_refcnt = 0, h_data = Some c, h_flags = 0\<rparr>"
    using heap_growsD(5) [OF put(1), of h] by (simp add: hash_at_def io' io1_def h_def)
  have at: "hash_at s' g = hash_at s g" if "g < h" for g
    using heap_growsD(5) [OF g] that by (simp add: hash_at_def io' h_def)
  have alive': "alive s' g \<longleftrightarrow> g = h \<or> alive s g" for g
    using free unfolding alive_def s'_def by simp (metis option.distinct(1))
  have old: "g < h" if "alive s g" for g using alive_heap [OF inv that] by (simp add: h_def)
  have idx_neq: "index_of k \<noteq> index_of i" if "k \<noteq> i" "bucket_of k = bucket_of i" for k
    using bucket_index_eqI that by blast
  have upd: "H0[index_of i := x] ! index_of k = H0 ! index_of k"
    if "k \<noteq> i" "bucket_of k = bucket_of i" for k x and H0 :: "hid option list"
    using idx_neq [OF that] by (metis nth_list_update_neq)
  have slot_neq: "h_bucketIndex (hash_at s g) \<noteq> i" if "alive s g" for g
    using slot(1) that by (auto simp: slots_of_def)
  have view: "slot_view E s' k = (if k = i then c else slot_view E s k)" for k
    using put(4) idx_neq [of k] view_cong(3) [OF heap_growsD(1) [OF g], of E]
      view_cong(3) [OF heap_growsD(1) [OF g1], of E]
    by (auto simp: slot_view_def bk' io')
  have cont: "hcontent E s' g = hcontent E s g" if "alive s g" for g
    unfolding hcontent_def at [OF old [OF that]] view using slot_neq [OF that] by (simp split: option.splits)
  show ch: "hcontent E s' h = c" by (simp add: hcontent_def at_h)
  show "alive s' h" by (simp add: alive')
  show "\<And>g. keeps E s s' g" using cont at old by (auto simp: keeps_def alive')
  show "h_flags (hash_at s' h) = 0" by (simp add: at_h)
  have "length (io_heap io1) \<le> length (io_heap io')" by (rule heap_growsD(4) [OF put(1)])
  then have len: "h < length (io_heap io')" by (simp add: io1_def h_def)
  have ok_h: "hash_ok E s' h"
    using c(1) put(5,6) len unfolding hash_ok_def ch by (simp add: at_h view bk' io')
  have ok: "hash_ok E s' g" if "alive s g" for g
  proof -
    have "hash_ok E s g" using stor_invD(7) [OF inv that] by simp
    then show ?thesis
      using slot_neq [OF that] upd [OF slot_neq [OF that]] put(5,7) heap_growsD(4) [OF g]
      unfolding hash_ok_def cont [OF that] at [OF old [OF that]] view bk' io'
      by (auto split: if_splits)
  qed
  have Rh: "R h = 0" using stor_invD(5) [OF inv, of h] old [of h] by auto
  have slots: "slots_of s' = insert i (slots_of s)"
  proof -
    have "{g. alive s' g} = insert h {g. alive s g}" using alive' by auto
    moreover have "(\<lambda>g. h_bucketIndex (hash_at s' g)) ` {g. alive s g} =
        (\<lambda>g. h_bucketIndex (hash_at s g)) ` {g. alive s g}"
      by (rule image_cong) (use at old in auto)
    ultimately show ?thesis by (simp add: slots_of_image at_h)
  qed
  show "stor_inv E U R s'"
  proof (rule stor_invI)
    show "umap_inv (st_index s')" using stor_invD(1) [OF inv] by (simp add: s'_def)
    have "buckets_inv E (put_bucket (bucket_of i) b' io' s)"
      by (rule buckets_inv_put [OF stor_invD(2) [OF inv] sums_kept_grows [OF g] put(2,3)])
        (simp add: put(5))
    then show "buckets_inv E s'"
      by (rule buckets_inv_heap) (simp_all add: s'_def put_bucket_def sums_kept_def)
    show "h_hsh (hash_at s' g) = k" if "umap_get (st_index s') k = Some g" for k g
    proof (cases "k = e_sha E c")
      case True
      then have "g = h" using that by (simp add: s'_def)
      with True show ?thesis by (simp add: at_h)
    next
      case False
      then have k: "umap_get (st_index s) k = Some g" using that by (simp add: s'_def)
      then have "alive s g" by (auto simp: alive_def)
      then show ?thesis using index_key [OF inv k] at [OF old] by simp
    qed
    show "hash_ok E s' g \<and> e_sha E (hcontent E s' g) = h_hsh (hash_at s' g) \<and>
        hcontent E s' g \<in> U \<and> h_refcnt (hash_at s' g) = int (R g)" if "alive s' g" for g
      using that ok_h ok ch cont c(2) Rh stor_invD(7) [OF inv] at old
      by (cases "g = h") (auto simp: alive' at_h)
    show "inj_on (\<lambda>h. h_bucketIndex (hash_at s' h)) {h. alive s' h}"
    proof (rule inj_onI)
      fix x y assume xy: "x \<in> {h. alive s' h}" "y \<in> {h. alive s' h}"
        "h_bucketIndex (hash_at s' x) = h_bucketIndex (hash_at s' y)"
      have "h_bucketIndex (hash_at s' g) = (if g = h then i else h_bucketIndex (hash_at s g))"
        if "alive s' g" for g using that at old by (auto simp: alive' at_h)
      then show "x = y"
        using xy slot_neq stor_invD(3) [OF inv] by (auto simp: alive' dest: inj_onD split: if_splits)
    qed
    show "acc.holds (st_acc s') (slots_of s')" using slot(2) slots by (simp add: s'_def put_bucket_def)
    show "alive s' g" if "0 < R g" for g using stor_invD(5) [OF inv that] by (simp add: alive')
  qed
qed

text \<open>The two halves of \<^verbatim>\<open>newHash\<close> after the lookup.\<close>

lemma index_content:
  assumes inv: "stor_inv E U R s" and coll: "inj_on (e_sha E) U" and c: "c \<in> U"
    and it: "umap_get (st_index s) (e_sha E c) = Some h"
  shows "alive s h" "hcontent E s h = c"
proof -
  show a: "alive s h" using it by (auto simp: alive_def)
  have "e_sha E (hcontent E s h) = e_sha E c" "hcontent E s h \<in> U"
    using stor_invD(7) [OF inv a] index_key [OF inv it] by simp_all
  then show "hcontent E s h = c" using coll c by (auto dest: inj_onD)
qed

lemma content_index:
  assumes inv: "stor_inv E U R s" and a: "alive s h"
  shows "umap_get (st_index s) (e_sha E (hcontent E s h)) = Some h"
  using stor_invD(6,7) [OF inv a] by simp

lemma wp_newHash_hit:
  assumes inv: "stor_inv E U R s" and a: "alive s h"
  shows "wp (newHash_from E key c (Some h)) (\<lambda>r s'. r = h \<and> quiet E s s') s"
  by (simp add: newHash_from_def) (rule wp_mono [OF wp_hash_compareChunk [OF inv a]], simp)

lemma wp_newHash_miss:
  assumes inv: "stor_inv E U R s" and env: "env_ok E"
    and c: "length c = chunkSize" "c \<in> U" and room: "stor_room s (Suc k)" and None: "umap_get (st_index s) (e_sha E c) = None"
  shows "wp (newHash_from E (e_sha E c) c None) (\<lambda>h s'. stor_inv E U R s' \<and> stor_room s' k \<and>
     alive s' h \<and> hcontent E s' h = c \<and> logs E s s' \<and> (\<forall>g. keeps E s s' g) \<and> h_flags (hash_at s' h) = 0 \<and>
     h = length (io_heap (st_io s)) \<and> heap_grows (st_io s) (st_io s') \<and>
     st_index s' = umap_insert (st_index s) (e_sha E c) h) s"
proof -
  let ?h = "length (io_heap (st_io s))"
  let ?io = "\<lambda>i. (st_io s)\<lparr>io_heap := io_heap (st_io s) @
      [\<lparr>h_hsh = e_sha E c, h_bucketIndex = i, h_refcnt = 0, h_data = Some c, h_flags = 0\<rparr>]\<rparr>"
  let ?Q = "\<lambda>h s'. stor_inv E U R s' \<and> stor_room s' k \<and> alive s' h \<and> hcontent E s' h = c \<and>
     logs E s s' \<and> (\<forall>g. keeps E s s' g) \<and> h_flags (hash_at s' h) = 0 \<and> h = ?h \<and> heap_grows (st_io s) (st_io s') \<and>
     st_index s' = umap_insert (st_index s) (e_sha E c) h"
  have step: "wp (putHashAndChunk E (index_of i) (Some ?h) c) (\<lambda>_ (b', io').
      ?Q ?h ((put_bucket (bucket_of i) b' io' (s\<lparr>st_acc := a\<rparr>))\<lparr>st_index :=
         umap_insert (st_index s) (e_sha E c) ?h\<rparr>)) (bk E s (bucket_of i), ?io i)"
    if slot: "i \<notin> slots_of s" "acc.holds a (insert i (slots_of s))" and rm: "acc_room a k" for i a
  proof -
    have g1: "heap_grows (st_io s) (?io i)" by (auto simp: heap_grows_def)
    have ok: "bucket_ok E (bk E s (bucket_of i)) (?io i)"
      by (rule bucket_ok_kept [OF sums_kept_grows [OF g1] bucketsD(2) [OF stor_invD(2) [OF inv]]])
    have sz: "hashes_sized [Some ?h] (?io i)" using env by (simp add: hashes_sized_def env_ok_def)
    show ?thesis
    proof (rule wp_mono [OF wp_putHashAndChunk [OF ok index_of_less c(1) sz]], clarify)
      fix b' io' H
      assume p: "heap_grows (?io i) io'" "bucket_ok E b' io'" "b_base b' = b_base (bk E s (bucket_of i))"
        "\<forall>j < chunksInBucket. view_at E b' io' j =
           (if j = index_of i then c else view_at E (bk E s (bucket_of i)) (?io i) j)"
        "b_hashes b' = Some H" "length H = chunksInBucket" "H ! index_of i = Some ?h"
        "\<forall>H0. b_hashes (bk E s (bucket_of i)) = Some H0 \<longrightarrow> io' = ?io i \<and> H = H0[index_of i := Some ?h]"
      have "b_base b' = getBucketFilename E (bucket_of i)"
        using p(3) bucketsD(3) [OF stor_invD(2) [OF inv]] by simp
      note N = stor_inv_new [OF inv None c slot p(1,2) this p(4,5,7)]
      show "?Q ?h ((put_bucket (bucket_of i) b' io' (s\<lparr>st_acc := a\<rparr>))\<lparr>st_index :=
         umap_insert (st_index s) (e_sha E c) ?h\<rparr>)"
        using N p(8) rm heap_grows_trans [OF g1 p(1)] by (simp add: stor_room_def put_bucket_def)
    qed
  qed
  have "wp accounting_fetch (\<lambda>slot s1. wp (bindS (getS (\<lambda>s. length (io_heap (st_io s)))) (\<lambda>h.
      bindS (modifyS (\<lambda>s. s\<lparr>st_io := snd (io_alloc
        \<lparr>h_hsh = e_sha E c, h_bucketIndex = slot, h_refcnt = 0, h_data = Some c, h_flags = 0\<rparr> (st_io s))\<rparr>)) (\<lambda>_.
      bindS (inBucket E (bucket_of slot) (putHashAndChunk E (index_of slot) (Some h) c)) (\<lambda>_.
      bindS (modifyS (\<lambda>s. s\<lparr>st_index := umap_insert (st_index s) (e_sha E c) h\<rparr>)) (\<lambda>_.
      returnS h))))) ?Q s1) s"
  proof (rule wp_mono [OF wp_accounting_fetch [OF stor_invD(4) [OF inv] room]], clarify)
    fix i a assume "i \<notin> slots_of s" "acc.holds a (insert i (slots_of s))" "stor_room (s\<lparr>st_acc := a\<rparr>) k"
    then have "wp (putHashAndChunk E (index_of i) (Some ?h) c) (\<lambda>_ (b', io').
      ?Q ?h ((put_bucket (bucket_of i) b' io' (s\<lparr>st_acc := a\<rparr>))\<lparr>st_index :=
         umap_insert (st_index s) (e_sha E c) ?h\<rparr>)) (bk E s (bucket_of i), ?io i)"
      by (intro step) (simp_all add: stor_room_def)
    then show "wp (bindS (getS (\<lambda>s. length (io_heap (st_io s)))) (\<lambda>h.
      bindS (modifyS (\<lambda>s. s\<lparr>st_io := snd (io_alloc
        \<lparr>h_hsh = e_sha E c, h_bucketIndex = i, h_refcnt = 0, h_data = Some c, h_flags = 0\<rparr> (st_io s))\<rparr>)) (\<lambda>_.
      bindS (inBucket E (bucket_of i) (putHashAndChunk E (index_of i) (Some h) c)) (\<lambda>_.
      bindS (modifyS (\<lambda>s. s\<lparr>st_index := umap_insert (st_index s) (e_sha E c) h\<rparr>)) (\<lambda>_.
      returnS h))))) ?Q (s\<lparr>st_acc := a\<rparr>)"
      by (simp add: wp_inBucket io_alloc_def)
  qed
  then show ?thesis by (simp add: newHash_from_def)
qed

lemma wp_newHash:
  assumes inv: "stor_inv E U R s" and env: "env_ok E" and coll: "inj_on (e_sha E) U"
    and c: "length c = chunkSize" "c \<in> U" and room: "stor_room s (Suc k)"
  shows "wp (newHash E (e_sha E c) c) (\<lambda>h s'. stor_inv E U R s' \<and> stor_room s' k \<and>
     alive s' h \<and> hcontent E s' h = c \<and> logs E s s' \<and> (\<forall>g. keeps E s s' g) \<and>
     (\<not> alive s h \<longrightarrow> h_flags (hash_at s' h) = 0)) s"
proof (cases "umap_get (st_index s) (e_sha E c)")
  case (Some h)
  note a = index_content [OF inv coll c(2) Some]
  have "wp (newHash_from E (e_sha E c) c (Some h)) (\<lambda>h s'. stor_inv E U R s' \<and> stor_room s' k \<and>
     alive s' h \<and> hcontent E s' h = c \<and> logs E s s' \<and> (\<forall>g. keeps E s s' g) \<and>
     (\<not> alive s h \<longrightarrow> h_flags (hash_at s' h) = 0)) s"
  proof (rule wp_mono [OF wp_newHash_hit [OF inv a(1)]], elim conjE, simp only:)
    fix t assume q: "quiet E s t"
    have "stor_room t k" using stor_room_less [OF room] q by (simp add: quiet_def stor_room_def)
    then show "stor_inv E U R t \<and> stor_room t k \<and> alive t h \<and> hcontent E t h = c \<and> logs E s t \<and>
        (\<forall>g. keeps E s t g) \<and> (\<not> alive s h \<longrightarrow> h_flags (hash_at t h) = 0)"
      using stor_inv_quiet [OF inv q] quiet_logs [OF q] keeps_quiet [OF q] alive_quiet [OF q] quietD(2) [OF q a(1)] a by simp
  qed
  with Some show ?thesis by (simp add: newHash_def)
next
  case None
  have "wp (newHash_from E (e_sha E c) c None) (\<lambda>h s'. stor_inv E U R s' \<and> stor_room s' k \<and>
     alive s' h \<and> hcontent E s' h = c \<and> logs E s s' \<and> (\<forall>g. keeps E s s' g) \<and>
     (\<not> alive s h \<longrightarrow> h_flags (hash_at s' h) = 0)) s"
    by (rule wp_mono [OF wp_newHash_miss [OF inv env c room None]]) blast
  then show ?thesis using None by (simp add: newHash_def)
qed

text \<open>\<^verbatim>\<open>hash::write\<close>: \<^verbatim>\<open>nullptr\<close> when the chunk does not change, the hash of the changed chunk otherwise.\<close>

lemma wp_hash_change:
  assumes inv: "stor_inv E U R s" and coll: "inj_on (e_sha E) U"
    and a: "alive s h" and sz: "off + length inp \<le> chunkSize"
    and U: "list_splice (hcontent E s h) off inp \<in> U"
  shows "wp (hash_change E h off inp) (\<lambda>r s'. quiet E s s' \<and>
     r = (if list_splice (hcontent E s h) off inp = hcontent E s h then None else Some (list_splice (hcontent E s h) off inp))) s"
proof -
  let ?new = "list_splice (hcontent E s h) off inp"
  have H: "length (hcontent E s h) = chunkSize" "hcontent E s h \<in> U"
    "e_sha E (hcontent E s h) = h_hsh (hash_at s h)"
    using stor_invD(7) [OF inv a] by (simp_all add: hash_ok_def)
  show ?thesis
    unfolding hash_change_def wp_bind
  proof (rule wp_mono [OF wp_hash_data [OF inv a]], elim conjE)
    fix d t assume d: "d = Some (hcontent E s h)" and q: "quiet E s t"
    have "h_hsh (hash_at t h) = e_sha E ?new \<longleftrightarrow> ?new = hcontent E s h"
      using H quietD(3) [OF q a] U coll by (metis inj_onD)
    then show "wp (assertS (d \<noteq> None)) (\<lambda>_. wp (liftS (chunk_write (the d) off inp)) (\<lambda>new.
        wp (getS (\<lambda>s. h_hsh (hash_at s h))) (\<lambda>hsh. wp (returnS (if hsh = e_sha E new then None else Some new))
          (\<lambda>r s'. quiet E s s' \<and> r = (if ?new = hcontent E s h then None else Some ?new))))) t"
      using d q H(1) sz by (simp add: chunk_write_def)
  qed
qed

lemma wp_hash_write:
  assumes inv: "stor_inv E U R s" and env: "env_ok E" and coll: "inj_on (e_sha E) U"
    and a: "alive s h" and sz: "off + length inp \<le> chunkSize"
    and U: "list_splice (hcontent E s h) off inp \<in> U" and room: "stor_room s (Suc k)"
  shows "wp (hash_write E h off inp) (\<lambda>r s'. stor_inv E U R s' \<and> stor_room s' k \<and> logs E s s' \<and> (\<forall>g. keeps E s s' g) \<and>
     (case r of None \<Rightarrow> list_splice (hcontent E s h) off inp = hcontent E s h
      | Some n \<Rightarrow> alive s' n \<and> hcontent E s' n = list_splice (hcontent E s h) off inp \<and>
          (\<not> alive s n \<longrightarrow> h_flags (hash_at s' n) = 0))) s"
    (is "wp _ ?Q s")
proof -
  let ?new = "list_splice (hcontent E s h) off inp"
  have "length (hcontent E s h) = chunkSize" using stor_invD(7) [OF inv a] by (simp add: hash_ok_def)
  then have len: "length ?new = chunkSize" using sz by simp
  show ?thesis
    unfolding hash_write_def wp_bind
  proof (rule wp_mono [OF wp_hash_change [OF inv coll a sz U]], elim conjE)
    fix r t assume q: "quiet E s t" and r: "r = (if ?new = hcontent E s h then None else Some ?new)"
    have room': "stor_room t (Suc k)" using room q by (simp add: quiet_def stor_room_def)
    have "wp (newHash E (e_sha E ?new) ?new) (\<lambda>n. ?Q (Some n)) t"
      by (rule wp_mono [OF wp_newHash [OF stor_inv_quiet [OF inv q] env coll len U room']])
        (use keeps_trans [OF keeps_quiet [OF q]] logs_trans [OF quiet_logs [OF q]] alive_quiet [OF q] in auto)
    then show "wp (case r of None \<Rightarrow> returnS None | Some new \<Rightarrow> bindS (newHash E (e_sha E new) new) (\<lambda>n. returnS (Some n))) ?Q t"
      using r stor_inv_quiet [OF inv q] stor_room_less [OF room'] keeps_quiet [OF q] quiet_logs [OF q] by auto
  qed
qed

section \<open>Releasing hashes\<close>

text \<open>A change confined to the files of one bucket does not touch the others.\<close>

lemma other_bucket:
  assumes "\<forall>f. f \<noteq> myfilenamechnk b \<longrightarrow> f \<noteq> myfilenamehsh b \<longrightarrow> io_disk io' f = io_disk io f"
    and "io_heap io' = io_heap io" "b_base x \<noteq> b_base b"
  shows "bucket_ok E x io' = bucket_ok E x io" "view_at E x io' j = view_at E x io j"
proof -
  have "myfilenamechnk x \<noteq> myfilenamechnk b" "myfilenamehsh x \<noteq> myfilenamehsh b"
    using assms(3) by (simp_all add: myfilenamechnk_def myfilenamehsh_def)
  then have f: "getSystemString io' (myfilenamechnk x) = getSystemString io (myfilenamechnk x)"
    "getSystemString io' (myfilenamehsh x) = getSystemString io (myfilenamehsh x)"
    using assms(1) by (simp_all add: getSystemString_def)
  have c: "chunk_view E x io' = chunk_view E x io"
    by (simp add: chunk_view_def f split: option.splits)
  then show "view_at E x io' j = view_at E x io j" by (simp add: view_at_def)
  have "hashes_loadable E x io' = hashes_loadable E x io"
    by (simp add: hashes_loadable_def f split: option.splits)
  then show "bucket_ok E x io' = bucket_ok E x io"
    using c assms(2) by (simp add: bucket_ok_def hashes_sized_def)
qed

definition names_ok :: "env \<Rightarrow> bool" where
  "names_ok E \<longleftrightarrow> inj (getBucketFilename E)"

text \<open>
  A general way to see that a step is quiet: it keeps the index, the accounting and the hash
  objects, and shows the same in the slots of the live hashes.
\<close>

lemma quiet0I:
  assumes inv: "stor_inv E U R s"
    and "st_index s' = st_index s" "st_acc s' = st_acc s" "buckets_inv E s'"
    and len: "length (io_heap (st_io s)) \<le> length (io_heap (st_io s'))"
    and at: "\<And>h. alive s h \<Longrightarrow> hash_at s' h = hash_at s h"
    and view: "\<And>h. alive s h \<Longrightarrow> h_flags (hash_at s h) = 0 \<Longrightarrow>
      slot_view E s' (h_bucketIndex (hash_at s h)) = slot_view E s (h_bucketIndex (hash_at s h))"
    and arr: "\<And>h H. alive s h \<Longrightarrow>
      b_hashes (bk E s (bucket_of (h_bucketIndex (hash_at s h)))) = Some H \<Longrightarrow>
      H ! index_of (h_bucketIndex (hash_at s h)) = Some h \<Longrightarrow>
      \<exists>H'. b_hashes (bk E s' (bucket_of (h_bucketIndex (hash_at s h)))) = Some H' \<and>
         H' ! index_of (h_bucketIndex (hash_at s h)) = Some h"
  shows "quiet0 E s s'"
proof -
  have "hash_ok E s' h \<and> hcontent E s' h = hcontent E s h" if a: "alive s h" for h
  proof -
    have ok: "hash_ok E s h" using stor_invD(7) [OF inv a] by simp
    have c: "hcontent E s' h = hcontent E s h"
    proof (cases "h_data (hash_at s h)")
      case None
      then have "h_flags (hash_at s h) = 0" using ok by (auto simp: hash_ok_def)
      with None show ?thesis unfolding hcontent_def at [OF a] using view [OF a] by simp
    qed (simp add: hcontent_def at [OF a])
    have "hash_ok E s' h"
    proof (cases "h_flags (hash_at s h) = 0")
      case True
      then show ?thesis
        using ok len view [OF a True] arr [OF a] unfolding hash_ok_def c at [OF a] by auto
    next
      case False
      then show ?thesis using ok len arr [OF a] unfolding hash_ok_def c at [OF a] by auto
    qed
    with c show ?thesis by simp
  qed
  then show ?thesis
    unfolding quiet0_def using assms(2-4) at hashobj.surjective hashobj.update_convs(4) by metis
qed

lemma quietI0: "quiet0 E s s' \<Longrightarrow> logs E s s' \<Longrightarrow> quiet E s s'"
  by (simp add: quiet0_def quiet_def)

lemmas quietI = quietI0 [OF quiet0I]

lemma wp_removeBucket:
  assumes inv: "stor_inv E U R s" and env: "env_ok E" "names_ok E"
    and free: "\<And>h. alive s h \<Longrightarrow> bucket_of (h_bucketIndex (hash_at s h)) \<noteq> i"
  shows "wp (removeBucket E i) (\<lambda>_ s'. quiet E s s' \<and> (\<forall>j. j \<noteq> i \<longrightarrow> bk E s' j = bk E s j) \<and>
    length (io_heap (st_io s)) = length (io_heap (st_io s'))) s"
proof -
  note B = bucketsD [OF stor_invD(2) [OF inv]]
  let ?l = "snd (umap_erase (st_loaded s) i)"
  have step: "quiet E s (s\<lparr>st_loaded := ?l, st_io := io'\<rparr>) \<and>
      (\<forall>j. j \<noteq> i \<longrightarrow> bk E (s\<lparr>st_loaded := ?l, st_io := io'\<rparr>) j = bk E s j) \<and>
      length (io_heap (st_io s)) = length (io_heap io')"
    if heap: "io_heap io' = io_heap (st_io s)"
      and dsk: "\<forall>f. f \<noteq> myfilenamechnk (bk E s i) \<longrightarrow> f \<noteq> myfilenamehsh (bk E s i) \<longrightarrow>
        io_disk io' f = io_disk (st_io s) f"
      and new: "bucket_ok E (bucket_new (getBucketFilename E i)) io'" for io'
  proof -
    let ?s' = "s\<lparr>st_loaded := ?l, st_io := io'\<rparr>"
    have bk': "bk E (s\<lparr>st_loaded := ?l\<rparr>) j = (if j = i then bucket_new (getBucketFilename E i) else bk E s j)" for j
      by (simp add: bk_def)
    have neq: "getBucketFilename E j \<noteq> b_base (bk E s i)" if "j \<noteq> i" for j
      using env(2) that B(3) by (auto simp: names_ok_def dest: injD)
    have oth: "bucket_ok E x io' = bucket_ok E x (st_io s)" "view_at E x io' k = view_at E x (st_io s) k"
      if "b_base x = getBucketFilename E j" "j \<noteq> i" for x j k
      using other_bucket [OF dsk heap] neq that by auto
    have "buckets_inv E ?s'"
      unfolding buckets_inv_def
    proof (intro conjI allI)
      show "umap_inv (st_loaded ?s')" using B(1) by simp
      fix j
      show "bucket_ok E (bk E ?s' j) (st_io ?s')"
        using new oth [OF B(3)] B(2) by (cases "j = i") (simp_all add: bk')
      show "b_base (bk E ?s' j) = getBucketFilename E j" using B(3) by (simp add: bk')
      show "bucket_ok E (bucket_new (getBucketFilename E j)) (st_io ?s')"
        using new oth(1) [of "bucket_new (getBucketFilename E j)" j] B(6) by (cases "j = i") simp_all
      show "b_hashes (bk E ?s' j) = None \<longrightarrow>
         b_hashChanges (bk E ?s' j) = 0 \<and> b_chunkChanges (bk E ?s' j) = 0"
        using B(4) by (simp add: bk')
    qed
    moreover have "slot_view E ?s' (h_bucketIndex (hash_at s h)) = slot_view E s (h_bucketIndex (hash_at s h))"
      if "alive s h" for h
      using free [OF that] oth(2) [OF B(3)] by (simp add: slot_view_def bk')
    moreover have "logs E s ?s'" by (simp add: logs_def log_ok_def bk')
    ultimately have "quiet E s ?s'"
      using free heap by (intro quietI [OF inv]) (simp_all add: hash_at_def bk')
    then show ?thesis using heap bk' by simp
  qed
  show ?thesis
  proof (cases "umap_get (st_loaded s) i")
    case None
    have "bk E s i = bucket_new (getBucketFilename E i)" using None by (simp add: bk_def)
    then show ?thesis
      using None step [of "st_io s"] B(6) by (simp add: removeBucket_def)
  next
    case (Some b)
    then have b: "bk E s i = b" by (simp add: bk_def)
    have "wp (bucket_destroy E) (\<lambda>_ (b', io').
        quiet E s (s\<lparr>st_loaded := ?l, st_io := io'\<rparr>) \<and>
        (\<forall>j. j \<noteq> i \<longrightarrow> bk E (s\<lparr>st_loaded := ?l, st_io := io'\<rparr>) j = bk E s j) \<and>
        length (io_heap (st_io s)) = length (io_heap io')) (b, st_io s)"
    proof (cases "b_chunks b \<noteq> None \<or> b_hashes b \<noteq> None")
      case True
      have pre: "bucket_ok E b (st_io s)" "bucket_ok E (bucket_new (b_base b)) (st_io s)"
        "b_hashes b = None \<longrightarrow> b_hashChanges b = 0 \<and> b_chunkChanges b = 0"
        "b_base b = getBucketFilename E i"
        using B(2,3,4,6) [of i] by (simp_all add: b)
      have "wp (bucket_store E False) (\<lambda>_ (b', io').
        quiet E s (s\<lparr>st_loaded := ?l, st_io := io'\<rparr>) \<and>
        (\<forall>j. j \<noteq> i \<longrightarrow> bk E (s\<lparr>st_loaded := ?l, st_io := io'\<rparr>) j = bk E s j) \<and>
        length (io_heap (st_io s)) = length (io_heap io')) (b, st_io s)"
        by (rule wp_mono [OF wp_bucket_store [OF env(1) pre(1-3)]])
          (use step b pre(4) in \<open>auto simp: stored_state_def\<close>)
      then show ?thesis using True by (simp add: bucket_destroy_def)
    next
      case False
      then show ?thesis using step [of "st_io s"] B(6) by (simp add: bucket_destroy_def)
    qed
    then show ?thesis
      using Some by (simp add: removeBucket_def split_def)
  qed
qed

lemma stor_inv_acc:
  assumes inv: "stor_inv E U R s" and "acc.holds a (slots_of s)"
  shows "stor_inv E U R (s\<lparr>st_acc := a\<rparr>)"
    "\<And>g. hcontent E (s\<lparr>st_acc := a\<rparr>) g = hcontent E s g"
proof -
  let ?s = "s\<lparr>st_acc := a\<rparr>"
  have at: "hash_at ?s g = hash_at s g" and al: "alive ?s g = alive s g" for g
    by (simp_all add: hash_at_def alive_def)
  have v: "slot_view E ?s j = slot_view E s j" for j by (simp add: slot_view_def)
  show c: "\<And>g. hcontent E ?s g = hcontent E s g" unfolding hcontent_def at v ..
  have ok: "hash_ok E ?s g = hash_ok E s g" for g unfolding hash_ok_def c at v by simp
  have sl: "slots_of ?s = slots_of s" by (simp add: slots_of_def at al)
  have "buckets_inv E ?s" using stor_invD(2) [OF inv] by (simp add: buckets_inv_def)
  then show "stor_inv E U R ?s"
    using stor_invD [OF inv] index_key [OF inv] assms(2)
    by (intro stor_invI) (simp_all add: at al c ok sl)
qed

lemma wp_accounting_post:
  assumes inv: "stor_inv E U R s" and env: "env_ok E" "names_ok E"
    and d: "acc.holds (st_acc s) (insert d (slots_of s))" "d \<notin> slots_of s"
  shows "wpf (accounting_post E d) (\<lambda>_ s'. stor_inv E U R s' \<and> logs E s s' \<and> (\<forall>g. keeps E s s' g) \<and>
     (\<forall>g. alive s' g = alive s g) \<and> (\<forall>k. stor_room s k \<longrightarrow> stor_room s' k) \<and>
     d \<in> set (acc_ids (st_acc s')) \<and> bk E s' (bucket_of d) = bk E s (bucket_of d) \<and>
     length (io_heap (st_io s')) = length (io_heap (st_io s))) s"
    (is "wpf _ ?Q s")
proof -
  consider "acc_post (st_acc s) d = Inl Fragmented"
    | a rm where "acc_post (st_acc s) d = Inr (a, rm)" "acc.holds a (insert d (slots_of s) - {d})"
        "d \<in> set (acc_ids a)" "\<forall>k. acc_room (st_acc s) k \<longrightarrow> acc_room a k"
        "\<forall>b \<in> set rm. b \<notin> bucket_of ` insert d (slots_of s)"
    using acc.holds_post [OF d(1), of d] by blast
  then show ?thesis
  proof cases
    case 1
    then show ?thesis by (simp add: accounting_post_def)
  next
    case 2
    let ?s = "s\<lparr>st_acc := a\<rparr>"
    have "acc.holds a (slots_of s)" using 2(2) d(2) by simp
    note S = stor_inv_acc [OF inv this]
    have al: "alive ?s g = alive s g" and at: "hash_at ?s g = hash_at s g" for g
      by (simp_all add: alive_def hash_at_def)
    let ?I = "\<lambda>rest t. set rest \<subseteq> set rm \<and> quiet E ?s t \<and> bk E t (bucket_of d) = bk E ?s (bucket_of d) \<and>
      length (io_heap (st_io t)) = length (io_heap (st_io s))"
    have "wpf (forS rm (removeBucket E)) ?Q ?s"
    proof (rule wp_for [of ?I])
      show "?I rm ?s" using quiet_refl [OF S(1)] by simp
      fix b rest t assume I: "?I (b # rest) t"
      then have q: "quiet E ?s t" by simp
      have "b \<in> set rm" using I by simp
      then have nb: "b \<notin> bucket_of ` insert d (slots_of s)" using 2(5) by blast
      have "bucket_of (h_bucketIndex (hash_at t h)) \<noteq> b" if "alive t h" for h
      proof -
        have a: "alive ?s h" using that alive_quiet [OF q] by simp
        have "h_bucketIndex (hash_at t h) = h_bucketIndex (hash_at s h)"
          using quietD(5) [OF q a] at by simp
        then show ?thesis using nb a al by (auto simp: slots_of_def)
      qed
      from wp_removeBucket [OF stor_inv_quiet [OF S(1) q] env this]
      show "wpf (removeBucket E b) (\<lambda>_. ?I rest) t"
        by (rule wp_allow) (use I nb quiet_trans [OF q] in auto)
    next
      fix t assume I: "?I [] t"
      then have q: "quiet E ?s t" by simp
      have "keeps E s t g" for g
        using keeps_quiet [OF q, of g] S(2) al at by (simp add: keeps_def)
      moreover have "logs E s t" using quiet_logs [OF q] by (simp add: logs_def log_ok_def)
      ultimately show "?Q () t"
        using I q stor_inv_quiet [OF S(1) q] alive_quiet [OF q] al 2(3,4)
        by (simp add: quiet_def stor_room_def)
    qed
    then show ?thesis using 2(1) by (simp add: accounting_post_def)
  qed
qed

text \<open>Emptying a slot of which no live hash is the owner.\<close>

lemma wp_clear_slot:
  assumes inv: "stor_inv E U R s" and d: "d \<notin> slots_of s"
  shows "wp (inBucket E (bucket_of d) (clearHashAndChunk E (index_of d))) (\<lambda>_ s'. quiet E s s' \<and>
    b_hashes (bk E s' (bucket_of d)) \<noteq> None \<and>
    length (io_heap (st_io s)) \<le> length (io_heap (st_io s'))) s"
proof -
  let ?b = "bk E s (bucket_of d)"
  note B = bucketsD [OF stor_invD(2) [OF inv]]
  have sz: "hashes_sized [None] (st_io s)" by (simp add: hashes_sized_def)
  show ?thesis
    unfolding wp_inBucket clearHashAndChunk_def
  proof (rule wp_mono [OF wp_putHashAndChunk [OF B(2) index_of_less zero_chunk_length sz]], clarify)
    fix b' io' H
    assume g: "heap_grows (st_io s) io'" and ok: "bucket_ok E b' io'" and base: "b_base b' = b_base ?b"
      and view: "\<forall>j < chunksInBucket. view_at E b' io' j =
        (if j = index_of d then zero_chunk else view_at E ?b (st_io s) j)"
      and H: "b_hashes b' = Some H" "\<forall>H0. b_hashes ?b = Some H0 \<longrightarrow> io' = st_io s \<and> H = H0[index_of d := None]"
    let ?s' = "put_bucket (bucket_of d) b' io' s"
    have neq: "bucket_of (h_bucketIndex (hash_at s h)) = bucket_of d \<Longrightarrow>
        index_of (h_bucketIndex (hash_at s h)) \<noteq> index_of d" if "alive s h" for h
      using d that bucket_index_eqI by (auto simp: slots_of_def)
    have "buckets_inv E ?s'"
      by (rule buckets_inv_put [OF stor_invD(2) [OF inv] sums_kept_grows [OF g] ok])
        (use base B(3) H in simp_all)
    moreover have "slot_view E ?s' (h_bucketIndex (hash_at s h)) = slot_view E s (h_bucketIndex (hash_at s h))"
      if "alive s h" for h
      using neq [OF that] view view_cong(3) [OF heap_growsD(1) [OF g], of E]
      by (auto simp: slot_view_def)
    moreover have "\<exists>H'. b_hashes (bk E ?s' (bucket_of (h_bucketIndex (hash_at s h)))) = Some H' \<and>
         H' ! index_of (h_bucketIndex (hash_at s h)) = Some h"
      if "alive s h" "b_hashes (bk E s (bucket_of (h_bucketIndex (hash_at s h)))) = Some H0"
        "H0 ! index_of (h_bucketIndex (hash_at s h)) = Some h" for h H0
      using that H neq [OF that(1)] nth_list_update_neq [of "index_of d"]
      by (cases "bucket_of (h_bucketIndex (hash_at s h)) = bucket_of d") auto
    moreover have "hash_at ?s' h = hash_at s h" if "alive s h" for h
      using hash_at_grows [of s ?s'] g alive_heap [OF inv that] by simp
    moreover have "logs E s ?s'" using H(1) by (simp add: logs_def log_ok_def)
    ultimately have "quiet E s ?s'"
      using heap_growsD(4) [OF g] by (intro quietI [OF inv]) simp_all
    with H heap_growsD(4) [OF g] show "quiet E s ?s' \<and> b_hashes (bk E ?s' (bucket_of d)) \<noteq> None \<and>
        length (io_heap (st_io s)) \<le> length (io_heap (st_io ?s'))" by simp
  qed
qed

text \<open>A hash without references leaves the index; its slot is its own for a moment longer.\<close>

lemma stor_inv_drop:
  fixes s :: stor and h :: hid and x :: hashobj
  assumes inv: "stor_inv E U R s" and a: "alive s h" and R: "R h = 0"
    and x: "h_hsh x = h_hsh (hash_at s h)"
  defines "s' \<equiv> (upd_at h x s)\<lparr>st_index := snd (umap_erase (st_index s) (h_hsh (hash_at s h)))\<rparr>"
  shows "stor_inv E U R s'" "\<And>g. alive s' g \<longleftrightarrow> alive s g \<and> g \<noteq> h"
    "\<And>g. g \<noteq> h \<Longrightarrow> keeps E s s' g"
    "acc.holds (st_acc s') (insert (h_bucketIndex (hash_at s h)) (slots_of s'))"
    "h_bucketIndex (hash_at s h) \<notin> slots_of s'" "logs E s s'"
proof -
  have h: "h < length (io_heap (st_io s))" by (rule alive_heap [OF inv a])
  have at: "hash_at s' g = hash_at s g" if "g \<noteq> h" for g
    using hash_at_upd_at [OF h, of x g] that by (simp add: s'_def hash_at_def)
  have v: "slot_view E s' j = slot_view E s j" for j
    using upd_at_simps(8) [of E h x s j] by (simp add: s'_def slot_view_def bk_def)
  have b: "bk E s' i = bk E s i" for i by (simp add: s'_def bk_def)
  show "logs E s s'" by (rule logs_bk) (rule b)
  have key: "k = h_hsh (hash_at s g)" if "umap_get (st_index s) k = Some g" for k g
    using index_key [OF inv that] by simp
  show al: "\<And>g. alive s' g \<longleftrightarrow> alive s g \<and> g \<noteq> h"
  proof -
    fix g
    have "alive s' g \<longleftrightarrow> (\<exists>k. k \<noteq> h_hsh (hash_at s h) \<and> umap_get (st_index s) k = Some g)"
      by (auto simp: alive_def s'_def split: if_splits)
    also have "\<dots> \<longleftrightarrow> alive s g \<and> g \<noteq> h"
    proof (cases "g = h")
      case True
      then show ?thesis using key [of _ h] by blast
    next
      case False
      then have "umap_get (st_index s) k = Some g \<Longrightarrow> k \<noteq> h_hsh (hash_at s h)" for k
        using stor_invD(6) [OF inv a] by auto
      with False show ?thesis by (auto simp: alive_def)
    qed
    finally show "alive s' g \<longleftrightarrow> alive s g \<and> g \<noteq> h" .
  qed
  have c: "hcontent E s' g = hcontent E s g" if "g \<noteq> h" for g
    unfolding hcontent_def at [OF that] v ..
  show "\<And>g. g \<noteq> h \<Longrightarrow> keeps E s s' g" using al c at by (simp add: keeps_def)
  have ok: "hash_ok E s' g = hash_ok E s g" if "g \<noteq> h" for g
    unfolding hash_ok_def c [OF that] at [OF that] v b by (simp add: s'_def upd_at_def)
  have slots: "slots_of s' = slots_of s - {h_bucketIndex (hash_at s h)}"
  proof -
    have "slots_of s' = (\<lambda>g. h_bucketIndex (hash_at s g)) ` ({g. alive s g} - {h})"
      unfolding slots_of_image using al at by (auto intro!: image_cong)
    also have "\<dots> = slots_of s - {h_bucketIndex (hash_at s h)}"
      using stor_invD(3) [OF inv] a by (auto simp: slots_of_image dest: inj_onD)
    finally show ?thesis .
  qed
  then show "h_bucketIndex (hash_at s h) \<notin> slots_of s'" by simp
  have "h_bucketIndex (hash_at s h) \<in> slots_of s" using a by (auto simp: slots_of_def)
  then have "insert (h_bucketIndex (hash_at s h)) (slots_of s') = slots_of s"
    by (auto simp: slots)
  then show h1: "acc.holds (st_acc s') (insert (h_bucketIndex (hash_at s h)) (slots_of s'))"
    using stor_invD(4) [OF inv] by (simp add: s'_def)
  show "stor_inv E U R s'"
  proof (rule stor_invI)
    show "umap_inv (st_index s')" using stor_invD(1) [OF inv] by (simp add: s'_def)
    show "buckets_inv E s'"
      by (rule buckets_inv_heap [OF stor_invD(2) [OF inv]])
        (use h x in \<open>auto simp: s'_def sums_kept_def upd_at_def hash_at_def nth_list_update\<close>)
    show "h_hsh (hash_at s' g) = k" if k: "umap_get (st_index s') k = Some g" for k g
    proof -
      have "g \<noteq> h" using al k by (auto simp: alive_def)
      moreover have "umap_get (st_index s) k = Some g" using k by (simp add: s'_def split: if_splits)
      ultimately show ?thesis using key at by simp
    qed
    show "hash_ok E s' g \<and> e_sha E (hcontent E s' g) = h_hsh (hash_at s' g) \<and>
        hcontent E s' g \<in> U \<and> h_refcnt (hash_at s' g) = int (R g)" if "alive s' g" for g
    proof -
      have g: "alive s g" "g \<noteq> h" using that al by simp_all
      show ?thesis using stor_invD(7) [OF inv g(1)] by (simp add: ok [OF g(2)] c [OF g(2)] at [OF g(2)])
    qed
    show "inj_on (\<lambda>h. h_bucketIndex (hash_at s' h)) {h. alive s' h}"
    proof (rule inj_onI)
      fix u v assume uv: "u \<in> {h. alive s' h}" "v \<in> {h. alive s' h}"
        "h_bucketIndex (hash_at s' u) = h_bucketIndex (hash_at s' v)"
      then have "alive s u" "alive s v" "u \<noteq> h" "v \<noteq> h" using al by simp_all
      then show "u = v" using uv(3) at stor_invD(3) [OF inv] by (auto dest: inj_onD)
    qed
    show "acc.holds (st_acc s') (slots_of s')" by (rule acc.holds_mono [OF h1]) auto
    show "alive s' g" if "0 < R g" for g
    proof -
      have "g \<noteq> h" using that R by (cases "g = h") simp_all
      then show ?thesis using stor_invD(5) [OF inv that] by (simp only: al) simp
    qed
  qed
qed

lemma quiet_dead:
  assumes inv: "stor_inv E U R s" and a: "\<not> alive s h" and h: "h < length (io_heap (st_io s))"
    and x: "h_hsh x = h_hsh (hash_at s h)"
  shows "quiet E s (upd_at h x s)"
proof (rule quietI [OF inv])
  show "buckets_inv E (upd_at h x s)"
    by (rule buckets_inv_heap [OF stor_invD(2) [OF inv]])
      (use h x in \<open>auto simp: sums_kept_def upd_at_def hash_at_def nth_list_update\<close>)
  show "hash_at (upd_at h x s) g = hash_at s g" if "alive s g" for g
    using that a h by (auto simp: hash_at_upd_at)
  show "logs E s (upd_at h x s)" by (rule logs_bk) simp
qed simp_all

text \<open>
  The last reference: the hash leaves the index, its slot is emptied in its bucket and goes
  back to the accounting.
\<close>

lemma wp_release:
  assumes inv: "stor_inv E U R s" and env: "env_ok E" "names_ok E"
    and a: "alive s h" and R: "R h = 0" and f: "h_flags (hash_at s h) = 0"
  defines "obj \<equiv> hash_at s h"
  shows "wpf (hash_release E h obj)
    (\<lambda>_ s'. stor_inv E U R s' \<and> logs E s s' \<and> (\<forall>g. g \<noteq> h \<longrightarrow> keeps E s s' g) \<and> \<not> alive s' h \<and>
       (\<forall>k. stor_room s k \<longrightarrow> stor_room s' k) \<and> h_bucketIndex obj \<in> set (acc_ids (st_acc s')) \<and>
       b_hashes (bk E s' (bucket_of (h_bucketIndex obj))) \<noteq> None) s"
    (is "wpf _ ?Q s")
proof -
  let ?d = "h_bucketIndex obj"
  let ?x = "hash_setFlags FLAG_DELETED obj"
  let ?s2 = "upd_at h ?x s"
  let ?s3 = "?s2\<lparr>st_index := snd (umap_erase (st_index s) (h_hsh obj))\<rparr>"
  have h: "h < length (io_heap (st_io s))" by (rule alive_heap [OF inv a])
  have idx: "umap_get (st_index s) (h_hsh obj) = Some h"
    using stor_invD(6) [OF inv a] by (simp add: obj_def)
  have num: "fst (umap_erase (st_index s) (h_hsh obj)) = 1"
    using umap_erase_count [OF stor_invD(1) [OF inv]] idx by simp
  have x: "h_hsh ?x = h_hsh (hash_at s h)" by (simp add: hash_setFlags_def obj_def)
  note D = stor_inv_drop [OF inv a R x, folded obj_def]
  have x_flags: "\<not> hash_isFlags (hash_at t h) FLAG_NOAUTOSTORE" if "hash_at t h = ?x" for t
    using that f by (simp add: hash_isFlags_def hash_setFlags_def obj_def hash_flags)
  have "wpf (inBucket E (bucket_of ?d) (clearHashAndChunk E (index_of ?d)))
      (\<lambda>_. wpf (accounting_post E ?d) (\<lambda>_. wpf (hash_clearData h) (\<lambda>_. ?Q ()))) ?s3"
  proof (rule wp_allow [OF wp_clear_slot [OF D(1,5)]], elim conjE)
    fix t assume q: "quiet E ?s3 t" and bh: "b_hashes (bk E t (bucket_of ?d)) \<noteq> None"
      and len: "length (io_heap (st_io ?s3)) \<le> length (io_heap (st_io t))"
    have hold: "acc.holds (st_acc t) (insert ?d (slots_of t))" "?d \<notin> slots_of t"
      using D(4,5) q slots_quiet [OF q] by (simp_all add: quiet_def)
    have room_t: "stor_room s k \<Longrightarrow> stor_room t k" for k using q by (simp add: quiet_def stor_room_def)
    show "wpf (accounting_post E ?d) (\<lambda>_. wpf (hash_clearData h) (\<lambda>_. ?Q ())) t"
    proof (rule wp_mono [OF wp_accounting_post [OF stor_inv_quiet [OF D(1) q] env hold]])
      fix u assume "stor_inv E U R u \<and> logs E t u \<and> (\<forall>g. keeps E t u g) \<and>
        (\<forall>g. alive u g = alive t g) \<and> (\<forall>k. stor_room t k \<longrightarrow> stor_room u k) \<and>
        ?d \<in> set (acc_ids (st_acc u)) \<and> bk E u (bucket_of ?d) = bk E t (bucket_of ?d) \<and>
        length (io_heap (st_io u)) = length (io_heap (st_io t))"
      then have u: "stor_inv E U R u" "logs E t u \<and> (\<forall>g. keeps E t u g)" "\<forall>g. alive u g = alive t g"
        "\<forall>k. stor_room t k \<longrightarrow> stor_room u k" "?d \<in> set (acc_ids (st_acc u))"
        "bk E u (bucket_of ?d) = bk E t (bucket_of ?d)"
        "length (io_heap (st_io u)) = length (io_heap (st_io t))" by simp_all
      have dead: "\<not> alive u h" using u(3) alive_quiet [OF q] D(2) by simp
      have hu: "h < length (io_heap (st_io u))" using u(7) len h by simp
      have keep: "keeps E s u g" if "g \<noteq> h" for g
        using D(3) [OF that] keeps_quiet [OF q] u(2) keeps_trans by blast
      have fin: "?Q () v" if v: "quiet E u v" "bk E v (bucket_of ?d) = bk E u (bucket_of ?d)" for v
      proof -
        have "keeps E s v g" if "g \<noteq> h" for g
          using keeps_trans [OF keep [OF that] keeps_quiet [OF v(1)]] .
        moreover have "st_acc v = st_acc u" using v(1) by (simp add: quiet_def)
        moreover have "logs E s v"
          using logs_trans [OF logs_trans [OF D(6) quiet_logs [OF q]]] logs_trans quiet_logs [OF v(1)] u(2)
          by blast
        ultimately show ?thesis
          using stor_inv_quiet [OF u(1) v(1)] dead alive_quiet [OF v(1)] u(4,5,6) v(2) room_t bh
          by (simp add: stor_room_def)
      qed
      have "quiet E u (upd_at h ((hash_at u h)\<lparr>h_data := None\<rparr>) u)"
        by (rule quiet_dead [OF u(1) dead hu]) simp
      then show "wpf (hash_clearData h) (\<lambda>_. ?Q ()) u"
        using fin [of "upd_at h ((hash_at u h)\<lparr>h_data := None\<rparr>) u"] fin [OF quiet_refl [OF u(1)]]
        by (simp add: hash_clearData_def)
    qed
  qed
  then show ?thesis using idx num by (simp add: hash_release_def obj_def)
qed

lemma wp_hash_decRefCnt:
  assumes inv: "stor_inv E U R s" and env: "env_ok E" "names_ok E"
    and a: "alive s h" and n: "n \<le> R h"
  shows "wpf (hash_decRefCnt E h n) (\<lambda>_ s'. stor_inv E U (R(h := R h - n)) s' \<and> logs E s s' \<and>
     (\<forall>g. g \<noteq> h \<or> n < R h \<longrightarrow> keeps E s s' g) \<and> (\<forall>k. stor_room s k \<longrightarrow> stor_room s' k) \<and>
     (h_flags (hash_at s h) = 0 \<and> n = R h \<longrightarrow>
        \<not> alive s' h \<and> h_bucketIndex (hash_at s h) \<in> set (acc_ids (st_acc s'))) \<and>
     (h_flags (hash_at s h) = pinned \<longrightarrow> alive s' h \<and> keeps E s s' h)) s"
    (is "wpf _ ?Q s")
proof -
  let ?R = "R(h := R h - n)"
  have h: "h < length (io_heap (st_io s))" by (rule alive_heap [OF inv a])
  let ?x = "(hash_at s h)\<lparr>h_refcnt := h_refcnt (hash_at s h) - int n\<rparr>"
  have x: "?x = (hash_at s h)\<lparr>h_refcnt := int (R h - n)\<rparr>"
    using stor_invD(7) [OF inv a] n by (simp add: of_nat_diff)
  let ?s = "upd_at h ?x s"
  note S = stor_inv_refcnt [OF inv a, of "R h - n", folded x]
  note keep = S(4)
  have at: "hash_at ?s h = ?x" using h by (simp add: hash_at_upd_at)
  have al: "alive ?s h" using S(2) a by simp
  have room: "stor_room ?s k = stor_room s k" for k by (simp add: stor_room_def)
  have log: "logs E s ?s" by (rule logs_bk) simp
  have ok: "hash_ok E s h" using stor_invD(7) [OF inv a] by simp
  show ?thesis
  proof (cases "h_flags (hash_at s h) = 0")
    case False
    then have p: "h_flags (hash_at s h) = pinned" "h_flags ?x = pinned" using ok by (auto simp: hash_ok_def)
    have "pinned \<noteq> 0" by (simp add: pinned_def hash_flags)
    then show ?thesis
      using flags_of_pinned(4) [OF p(2)] S(1) allI [OF keep] keep at p room al log
      by (simp add: hash_decRefCnt_def)
  next
    case f: True
    let ?d = "h_bucketIndex (hash_at s h)"
    have nf: "\<not> hash_isFlags ?x fl" for fl using f by (simp add: flags_of_zero)
    have np: "(0::u32) \<noteq> pinned" by (simp add: pinned_def hash_flags)
    have finish: "wpf (inBucket E (bucket_of ?d) hashChanged) ?Q t"
      if log_t: "logs E s t" and t: "stor_inv E U ?R t" "\<forall>g. g \<noteq> h \<or> n < R h \<longrightarrow> keeps E s t g"
        "\<forall>k. stor_room s k \<longrightarrow> stor_room t k"
        "n = R h \<longrightarrow> \<not> alive t h \<and> ?d \<in> set (acc_ids (st_acc t))"
        "b_hashes (bk E t (bucket_of ?d)) \<noteq> None" for t
    proof (rule wp_allow [OF wp_hashChanged [OF t(1) t(5)]])
      fix u assume q: "quiet E t u"
      have "st_acc u = st_acc t" using q by (simp add: quiet_def)
      moreover have "g \<noteq> h \<or> n < R h \<Longrightarrow> keeps E s u g" for g
        using t(2) keeps_trans [OF _ keeps_quiet [OF q]] by blast
      ultimately show "?Q () u"
        using t stor_inv_quiet [OF t(1) q] alive_quiet [OF q] f np logs_trans [OF log_t quiet_logs [OF q]]
        by (simp add: stor_room_def)
    qed
    show ?thesis
    proof (cases "n = R h")
      case False
      then have "h_refcnt ?x \<noteq> 0" using x n by simp
      moreover have "b_hashes (bk E ?s (bucket_of ?d)) \<noteq> None"
        using ok f np by (auto simp: hash_ok_def)
      ultimately show ?thesis
        using finish [of ?s] S(1) allI [OF keep] keep room False at nf log
        by (simp add: hash_decRefCnt_def)
    next
      case True
      then have zero: "h_refcnt ?x = 0" "?R h = 0" using x by simp_all
      have fx: "h_flags (hash_at ?s h) = 0" using at f by simp
      note rel = wp_release [OF S(1) env al zero(2) fx, unfolded at]
      have d: "h_bucketIndex ?x = ?d" "h_hsh ?x = h_hsh (hash_at s h)" by simp_all
      have keep': "keeps E s t g" if "keeps E ?s t g" for t g
        using keeps_trans [OF keep that] .
      have "wpf (hash_release E h ?x) (\<lambda>_. wpf (inBucket E (bucket_of ?d) hashChanged) ?Q) ?s"
        by (rule wp_mono [OF rel], elim conjE, rule finish)
          (use keep' room True d logs_trans [OF log] in \<open>simp_all add: fun_upd_def\<close>)
      then show ?thesis
        using at nf zero(1) by (simp add: hash_decRefCnt_def)
    qed
  qed
qed

end
