(* ===== verification/Store_Contract.thy ===== *)
theory Store_Contract
  imports Storage_Inv
begin

text \<open>
  The contract of the storage layer: the locale \<open>chunk_store\<close> with the operations that files
  call on hashes and what they may rely on, its interpretation on the model of
  \<^verbatim>\<open>hash.cpp\<close> and \<^verbatim>\<open>storage.cpp\<close>, and the properties of the storage.
\<close>

section \<open>Journal references and stores\<close>

text \<open>A bucket whose files changed, but not what it shows.\<close>

lemma quiet0_put:
  assumes inv: "stor_inv E U R s" and names: "names_ok E"
    and st: "stored_state E (bk E s i) (st_io s) b' io'"
    and view: "\<And>j. view_at E b' io' j = view_at E (bk E s i) (st_io s) j"
  shows "quiet0 E s (put_bucket i b' io' s)"
proof (rule quiet0I [OF inv])
  note B = bucketsD [OF stor_invD(2) [OF inv]]
  let ?s' = "put_bucket i b' io' s"
  have heap: "io_heap io' = io_heap (st_io s)" and
    dsk: "\<forall>f. f \<noteq> myfilenamechnk (bk E s i) \<longrightarrow> f \<noteq> myfilenamehsh (bk E s i) \<longrightarrow>
        io_disk io' f = io_disk (st_io s) f"
    using st by (simp_all add: stored_state_def)
  have neq: "getBucketFilename E j \<noteq> b_base (bk E s i)" if "j \<noteq> i" for j
    using names that B(3) by (auto simp: names_ok_def dest: injD)
  have oth: "bucket_ok E x io' = bucket_ok E x (st_io s)" "view_at E x io' k = view_at E x (st_io s) k"
    if "b_base x = getBucketFilename E j" "j \<noteq> i" for x j k
    using other_bucket [OF dsk heap] neq that by auto
  show "buckets_inv E ?s'"
    unfolding buckets_inv_def
  proof (intro conjI allI)
    show "umap_inv (st_loaded ?s')" using B(1) by (simp add: put_bucket_def)
    fix j
    show "bucket_ok E (bk E ?s' j) (st_io ?s')"
      using st oth(1) [OF B(3)] B(2) by (cases "j = i") (simp_all add: stored_state_def)
    show "b_base (bk E ?s' j) = getBucketFilename E j" using B(3) st by (simp add: stored_state_def)
    show "bucket_ok E (bucket_new (getBucketFilename E j)) (st_io ?s')"
      using st oth(1) [of "bucket_new (getBucketFilename E j)" j] B(3,6)
      by (cases "j = i") (simp_all add: stored_state_def)
    show "b_hashes (bk E ?s' j) = None \<longrightarrow>
       b_hashChanges (bk E ?s' j) = 0 \<and> b_chunkChanges (bk E ?s' j) = 0"
      using B(4) st by (simp add: stored_state_def)
  qed
  show "hash_at ?s' h = hash_at s h" for h using heap by (simp add: hash_at_def)
  show "slot_view E ?s' k = slot_view E s k" for k
    using view oth(2) [OF B(3)] by (simp add: slot_view_def)
  show "length (io_heap (st_io s)) \<le> length (io_heap (st_io ?s'))" using heap by simp
  fix h H assume "b_hashes (bk E s (bucket_of (h_bucketIndex (hash_at s h)))) = Some H"
    "H ! index_of (h_bucketIndex (hash_at s h)) = Some h"
  then show "\<exists>H'. b_hashes (bk E ?s' (bucket_of (h_bucketIndex (hash_at s h)))) = Some H' \<and>
         H' ! index_of (h_bucketIndex (hash_at s h)) = Some h"
    using st by (auto simp: stored_state_def)
qed simp_all

lemma stored_state_changes:
  assumes "stored_state E b io b' io'"
  shows "stored_state E b io (b'\<lparr>b_changes := l\<rparr>) io'"
    "view_at E (b'\<lparr>b_changes := l\<rparr>) io' j = view_at E b' io' j"
proof -
  have "chunk_view E (b'\<lparr>b_changes := l\<rparr>) io' = chunk_view E b' io'"
    by (simp add: chunk_view_def split: option.splits)
  then show "view_at E (b'\<lparr>b_changes := l\<rparr>) io' j = view_at E b' io' j"
    "stored_state E b io (b'\<lparr>b_changes := l\<rparr>) io'"
    using assms by (simp_all add: view_at_def stored_state_def bucket_ok_def hashes_loadable_def
        split: option.splits)
qed

lemma stored_state_refl:
  assumes inv: "stor_inv E U R s"
  shows "stored_state E (bk E s i) (st_io s) (bk E s i) (st_io s)"
  using bucketsD(2,3,4,6) [OF stor_invD(2) [OF inv], of i] by (simp add: stored_state_def)

lemma wp_addChange:
  assumes inv: "stor_inv E U R s" and env: "env_ok E" "names_ok E" and log: "log_ok E s i"
  shows "wp (inBucket E i (bucket_addChange E je)) (\<lambda>_ s'. quiet0 E s s' \<and>
    (\<forall>j. j \<noteq> i \<longrightarrow> log_ok E s j \<longrightarrow> log_ok E s' j)) s"
proof -
  note B = bucketsD [OF stor_invD(2) [OF inv]]
  let ?b = "bk E s i" and ?io = "st_io s"
  have keep: "j \<noteq> i \<longrightarrow> log_ok E s j \<longrightarrow> log_ok E (put_bucket i b io s) j" for j b io
    by (simp add: log_ok_def)
  show ?thesis
  proof (cases je)
    case None
    then show ?thesis
      using quiet0_put [OF inv env(2) stored_state_refl [OF inv]] keep
      by (simp add: wp_inBucket bucket_addChange_def)
  next
    case (Some j)
    let ?log = "case b_changes ?b of None \<Rightarrow> [] | Some l \<Rightarrow> l"
    show ?thesis
    proof (cases "length ?log < changeLogSize")
      case True
      then show ?thesis
        using Some keep stored_state_changes [OF stored_state_refl [OF inv]]
          quiet0_put [OF inv env(2)]
        by (simp add: wp_inBucket bucket_addChange_def bucketChangeLog_addChange_def)
    next
      case False
      then have "b_hashes ?b \<noteq> None"
        using log by (auto simp: log_ok_def changeLogSize_def)
      let ?b1 = "?b\<lparr>b_changes := Some ?log, b_hashChanges := Suc (b_hashChanges ?b),
          b_chunkChanges := Suc (b_chunkChanges ?b)\<rparr>"
      have same: "chunk_view E ?b1 ?io = chunk_view E ?b ?io"
        by (simp add: chunk_view_def split: option.splits)
      have base: "b_base ?b1 = b_base ?b" "b_hashes ?b1 = b_hashes ?b" by simp_all
      have names1: "myfilenamechnk ?b1 = myfilenamechnk ?b" "myfilenamehsh ?b1 = myfilenamehsh ?b" by simp_all
      have ok1: "bucket_ok E ?b1 ?io" "bucket_ok E (bucket_new (b_base ?b1)) ?io"
        "b_hashes ?b1 = None \<longrightarrow> b_hashChanges ?b1 = 0 \<and> b_chunkChanges ?b1 = 0"
        using B(2,3,6) [of i] \<open>b_hashes ?b \<noteq> None\<close> same
        by (auto simp: bucket_ok_def hashes_loadable_def)
      have "wp (bucket_store E False) (\<lambda>_. wp (add_to_log j) (\<lambda>ok. wp (if ok then returnS () else raiseS Hang)
          (\<lambda>_ (b', io'). quiet0 E s (put_bucket i b' io' s) \<and>
            (\<forall>j. j \<noteq> i \<longrightarrow> log_ok E s j \<longrightarrow> log_ok E (put_bucket i b' io' s) j)))) (?b1, ?io)"
      proof (rule wp_mono [OF wp_bucket_store [OF env(1) ok1]], clarify)
        fix b' io'
        assume st: "stored_state E ?b1 ?io b' io'"
          and cleared: "b_hashChanges ?b1 \<noteq> 0 \<or> b_chunkChanges ?b1 \<noteq> 0 \<longrightarrow> b_changes b' = None"
          and v: "\<not> False \<or> (\<exists>H. b_hashes ?b1 = Some H \<and> (\<exists>h \<in> set H. h \<noteq> None)) \<longrightarrow>
            (\<forall>j. view_at E b' io' j = view_at E ?b1 ?io j)"
        have st': "stored_state E ?b ?io b' io'"
          using st unfolding stored_state_def base names1 by simp
        have none: "b_changes b' = None" using cleared by simp
        have v': "view_at E b' io' k = view_at E ?b ?io k" for k
          using v same by (simp add: view_at_def)
        show "wp (add_to_log j) (\<lambda>ok. wp (if ok then returnS () else raiseS Hang)
          (\<lambda>_ (b', io'). quiet0 E s (put_bucket i b' io' s) \<and>
            (\<forall>j. j \<noteq> i \<longrightarrow> log_ok E s j \<longrightarrow> log_ok E (put_bucket i b' io' s) j))) (b', io')"
          using none stored_state_changes [OF st'] quiet0_put [OF inv env(2)] v' keep
          by (simp add: bucketChangeLog_addChange_def changeLogSize_def)
      qed
      then show ?thesis
        using Some False by (simp add: wp_inBucket bucket_addChange_def bucketChangeLog_addChange_def)
    qed
  qed
qed

section \<open>Looking a hash up by its slot\<close>

lemma wp_storage_getHash:
  assumes inv: "stor_inv E U R s" and a: "alive s h"
  shows "wp (storage_getHash E (h_bucketIndex (hash_at s h))) (\<lambda>r s'. r = Some h \<and> quiet E s s') s"
proof -
  let ?d = "h_bucketIndex (hash_at s h)"
  have "hash_ok E s h" using stor_invD(7) [OF inv a] by simp
  then obtain H where H: "b_hashes (bk E s (bucket_of ?d)) = Some H" "H ! index_of ?d = Some h"
    by (auto simp: hash_ok_def)
  show ?thesis
    unfolding storage_getHash_def bucketInfo_getHash_def wp_inBucket
  proof (rule wp_mono [OF wp_bucket_getHash [OF bucketsD(2) [OF stor_invD(2) [OF inv]] index_of_less]], clarify)
    fix b' io' H' assume same: "same_bucket E (bk E s (bucket_of ?d)) (st_io s) b' io'"
      and "b_hashes b' = Some H'"
    then have "H' = H" using H(1) by (simp add: same_bucket_def)
    then show "H' ! index_of ?d = Some h \<and> quiet E s (put_bucket (bucket_of ?d) b' io' s)"
      using H(2) quiet_put [OF inv same] by simp
  qed
qed

section \<open>The contract\<close>

text \<open>
  \<open>R\<close> counts the references that clients hold. \<open>wr\<close> returns nothing when the chunk stays the
  same and the hash of the changed chunk otherwise; \<open>mark\<close> notes a journal reference in a
  bucket.
\<close>

locale chunk_store =
  fixes inv :: "('h \<Rightarrow> nat) \<Rightarrow> 's \<Rightarrow> bool"
    and live :: "'s \<Rightarrow> 'h \<Rightarrow> bool"
    and content :: "'s \<Rightarrow> 'h \<Rightarrow> chunk"
    and legal :: "chunk \<Rightarrow> bool"
    and room :: "'s \<Rightarrow> nat \<Rightarrow> bool"
    and bucket :: "'s \<Rightarrow> 'h \<Rightarrow> nat"
    and markable :: "'s \<Rightarrow> nat \<Rightarrow> bool"
    and rd :: "'h \<Rightarrow> nat \<Rightarrow> nat \<Rightarrow> ('s, byte list) op"
    and wr :: "'h \<Rightarrow> nat \<Rightarrow> byte list \<Rightarrow> ('s, 'h option) op"
    and inc :: "'h \<Rightarrow> nat \<Rightarrow> ('s, unit) op"
    and dec :: "'h \<Rightarrow> nat \<Rightarrow> ('s, unit) op"
    and rest :: "'h \<Rightarrow> ('s, bool) op"
    and mark :: "nat \<Rightarrow> nat option \<Rightarrow> ('s, unit) op"
  assumes content_length: "inv R s \<Longrightarrow> live s h \<Longrightarrow> length (content s h) = chunkSize"
    and content_legal: "inv R s \<Longrightarrow> live s h \<Longrightarrow> legal (content s h)"
    and ref_live: "inv R s \<Longrightarrow> 0 < R h \<Longrightarrow> live s h"
    and live_markable: "inv R s \<Longrightarrow> live s h \<Longrightarrow> markable s (bucket s h)"
    and room_less: "room s (Suc k) \<Longrightarrow> room s k"
    and read_law: "inv R s \<Longrightarrow> live s h \<Longrightarrow> off + sz \<le> chunkSize \<Longrightarrow>
      wp (rd h off sz) (\<lambda>bs s'. bs = take sz (drop off (content s h)) \<and> inv R s' \<and>
        (\<forall>g. live s g \<longrightarrow> live s' g \<and> content s' g = content s g) \<and> (\<forall>k. room s k \<longrightarrow> room s' k)) s"
    and write_law: "inv R s \<Longrightarrow> live s h \<Longrightarrow> off + length inp \<le> chunkSize \<Longrightarrow>
      legal (list_splice (content s h) off inp) \<Longrightarrow> room s (Suc k) \<Longrightarrow>
      wp (wr h off inp) (\<lambda>r s'. inv R s' \<and> room s' k \<and>
        (\<forall>g. live s g \<longrightarrow> live s' g \<and> content s' g = content s g) \<and>
        (\<forall>i. markable s i \<longrightarrow> markable s' i) \<and>
        (case r of None \<Rightarrow> list_splice (content s h) off inp = content s h
         | Some n \<Rightarrow> live s' n \<and> content s' n = list_splice (content s h) off inp)) s"
    and inc_law: "inv R s \<Longrightarrow> live s h \<Longrightarrow>
      wp (inc h n) (\<lambda>_ s'. inv (R(h := R h + n)) s' \<and> (\<forall>k. room s k \<longrightarrow> room s' k) \<and>
        (\<forall>g. live s g \<longrightarrow> live s' g \<and> content s' g = content s g) \<and>
        (\<forall>i. markable s i \<longrightarrow> markable s' i)) s"
    and dec_law: "inv R s \<Longrightarrow> live s h \<Longrightarrow> n \<le> R h \<Longrightarrow>
      wpf (dec h n) (\<lambda>_ s'. inv (R(h := R h - n)) s' \<and> (\<forall>k. room s k \<longrightarrow> room s' k) \<and>
        (\<forall>g. g \<noteq> h \<or> n < R h \<longrightarrow> live s g \<longrightarrow> live s' g \<and> content s' g = content s g) \<and>
        (\<forall>i. markable s i \<longrightarrow> markable s' i)) s"
    and rest_law: "inv R s \<Longrightarrow> live s h \<Longrightarrow>
      wp (rest h) (\<lambda>_ s'. inv R s' \<and> (\<forall>k. room s k \<longrightarrow> room s' k) \<and>
        (\<forall>g. live s g \<longrightarrow> live s' g \<and> content s' g = content s g) \<and>
        (\<forall>i. markable s i \<longrightarrow> markable s' i)) s"
    and mark_law: "inv R s \<Longrightarrow> markable s i \<Longrightarrow>
      wp (mark i je) (\<lambda>_ s'. inv R s' \<and> (\<forall>k. room s k \<longrightarrow> room s' k) \<and>
        (\<forall>g. live s g \<longrightarrow> live s' g \<and> content s' g = content s g) \<and>
        (\<forall>j. j \<noteq> i \<longrightarrow> markable s j \<longrightarrow> markable s' j)) s"
begin

text \<open>What a client keeps of a hash across a step.\<close>

definition kept :: "'s \<Rightarrow> 's \<Rightarrow> 'h \<Rightarrow> bool" where
  "kept s s' g \<longleftrightarrow> (live s g \<longrightarrow> live s' g \<and> content s' g = content s g)"

lemma kept_refl [simp]: "kept s s g"
  by (simp add: kept_def)

lemma kept_trans: "kept a b g \<Longrightarrow> kept b c g \<Longrightarrow> kept a c g"
  by (auto simp: kept_def)

text \<open>Giving back one reference for each element of a list.\<close>

lemma dec_all:
  assumes "inv R s" and "\<And>h. count_list hs h \<le> R h"
  shows "wpf (forS hs (\<lambda>h. dec h 1)) (\<lambda>_ s'. inv (\<lambda>h. R h - count_list hs h) s' \<and>
    (\<forall>k. room s k \<longrightarrow> room s' k) \<and> (\<forall>g. count_list hs g < R g \<longrightarrow> kept s s' g) \<and>
    (\<forall>i. markable s i \<longrightarrow> markable s' i)) s"
  using assms
proof (induction hs arbitrary: R s)
  case Nil
  then show ?case by simp
next
  case (Cons h hs)
  have one: "1 \<le> R h" and less: "count_list hs g \<le> (R(h := R h - 1)) g" for g
    using Cons.prems(2) [of h] Cons.prems(2) [of g] by (auto split: if_splits)
  have lv: "live s h" using ref_live [OF Cons.prems(1)] one by simp
  have eq: "(\<lambda>g. (R(h := R h - 1)) g - count_list hs g) = (\<lambda>g. R g - count_list (h # hs) g)"
    by (auto simp: fun_eq_iff)
  have "wpf (dec h 1) (\<lambda>_. wpf (forS hs (\<lambda>h. dec h 1)) (\<lambda>_ s'. inv (\<lambda>g. R g - count_list (h # hs) g) s' \<and>
    (\<forall>k. room s k \<longrightarrow> room s' k) \<and> (\<forall>g. count_list (h # hs) g < R g \<longrightarrow> kept s s' g) \<and>
    (\<forall>i. markable s i \<longrightarrow> markable s' i))) s"
  proof (rule wp_mono [OF dec_law [OF Cons.prems(1) lv one]], elim conjE)
    fix t assume t: "inv (R(h := R h - 1)) t" "\<forall>k. room s k \<longrightarrow> room t k"
      "\<forall>g. g \<noteq> h \<or> 1 < R h \<longrightarrow> live s g \<longrightarrow> live t g \<and> content t g = content s g"
      "\<forall>i. markable s i \<longrightarrow> markable t i"
    have kt: "kept s t g" if "count_list (h # hs) g < R g" for g
      using that t(3) by (auto simp: kept_def split: if_splits)
    have less': "count_list hs g < (R(h := R h - 1)) g" if "count_list (h # hs) g < R g" for g
      using that by (auto split: if_splits)
    show "wpf (forS hs (\<lambda>h. dec h 1)) (\<lambda>_ s'. inv (\<lambda>g. R g - count_list (h # hs) g) s' \<and>
      (\<forall>k. room s k \<longrightarrow> room s' k) \<and> (\<forall>g. count_list (h # hs) g < R g \<longrightarrow> kept s s' g) \<and>
      (\<forall>i. markable s i \<longrightarrow> markable s' i)) t"
    proof (rule wp_mono [OF Cons.IH [OF t(1) less]], elim conjE)
      fix u assume u: "inv (\<lambda>g. (R(h := R h - 1)) g - count_list hs g) u"
        "\<forall>k. room t k \<longrightarrow> room u k" "\<forall>g. count_list hs g < (R(h := R h - 1)) g \<longrightarrow> kept t u g"
        "\<forall>i. markable t i \<longrightarrow> markable u i"
      have "kept s u g" if "count_list (h # hs) g < R g" for g
        using kept_trans [OF kt [OF that]] u(3) less' [OF that] by blast
      then show "inv (\<lambda>g. R g - count_list (h # hs) g) u \<and> (\<forall>k. room s k \<longrightarrow> room u k) \<and>
        (\<forall>g. count_list (h # hs) g < R g \<longrightarrow> kept s u g) \<and> (\<forall>i. markable s i \<longrightarrow> markable u i)"
        using u t eq by simp
    qed
  qed
  then show ?case by simp
qed

text \<open>Noting a journal reference in several buckets.\<close>

lemma mark_all:
  assumes "inv R s" and "distinct is" and "\<And>i. i \<in> set is \<Longrightarrow> markable s i"
  shows "wp (forS is (\<lambda>i. mark i je)) (\<lambda>_ s'. inv R s' \<and> (\<forall>k. room s k \<longrightarrow> room s' k) \<and>
    (\<forall>g. kept s s' g)) s"
proof (rule wp_for [of "\<lambda>rest t. inv R t \<and> (\<forall>k. room s k \<longrightarrow> room t k) \<and> (\<forall>g. kept s t g) \<and>
    distinct rest \<and> (\<forall>i \<in> set rest. markable t i)"])
  show "inv R s \<and> (\<forall>k. room s k \<longrightarrow> room s k) \<and> (\<forall>g. kept s s g) \<and> distinct is \<and>
    (\<forall>i \<in> set is. markable s i)" using assms by simp
  fix i rest t
  assume t: "inv R t \<and> (\<forall>k. room s k \<longrightarrow> room t k) \<and> (\<forall>g. kept s t g) \<and> distinct (i # rest) \<and>
    (\<forall>j \<in> set (i # rest). markable t j)"
  then have i: "inv R t" "markable t i" by simp_all
  show "wp (mark i je) (\<lambda>_ u. inv R u \<and> (\<forall>k. room s k \<longrightarrow> room u k) \<and> (\<forall>g. kept s u g) \<and>
      distinct rest \<and> (\<forall>j \<in> set rest. markable u j)) t"
    by (rule wp_mono [OF mark_law [OF i]]) (use t in \<open>auto simp: kept_def\<close>)
qed auto

text \<open>Putting hashes to rest.\<close>

lemma rest_all:
  assumes "inv R s" and "\<And>h. h \<in> set hs \<Longrightarrow> live s h"
  shows "wp (forS hs (\<lambda>h. bindS (rest h) (\<lambda>_. returnS ()))) (\<lambda>_ s'. inv R s' \<and>
    (\<forall>k. room s k \<longrightarrow> room s' k) \<and> (\<forall>g. kept s s' g)) s"
proof (rule wp_for [of "\<lambda>left t. inv R t \<and> (\<forall>k. room s k \<longrightarrow> room t k) \<and> (\<forall>g. kept s t g) \<and>
    (\<forall>h \<in> set left. live t h)"])
  fix h left t
  assume t: "inv R t \<and> (\<forall>k. room s k \<longrightarrow> room t k) \<and> (\<forall>g. kept s t g) \<and> (\<forall>g \<in> set (h # left). live t g)"
  then have i: "inv R t" "live t h" by simp_all
  show "wp (bindS (rest h) (\<lambda>_. returnS ())) (\<lambda>_ u. inv R u \<and> (\<forall>k. room s k \<longrightarrow> room u k) \<and>
      (\<forall>g. kept s u g) \<and> (\<forall>g \<in> set left. live u g)) t"
    unfolding wp_bind wp_return
    by (rule wp_mono [OF rest_law [OF i]]) (use t in \<open>auto simp: kept_def\<close>)
qed (use assms in auto)

end

text \<open>The contract of the model: \<open>E\<close> and \<open>U\<close> with the hypotheses on them are part of the invariant.\<close>

definition store_inv :: "env \<Rightarrow> chunk set \<Rightarrow> (hid \<Rightarrow> nat) \<Rightarrow> stor \<Rightarrow> bool" where
  "store_inv E U R s \<longleftrightarrow> env_ok E \<and> names_ok E \<and> inj_on (e_sha E) U \<and> stor_inv E U R s"

lemma quiet_post:
  assumes "store_inv E U R s" "quiet E s s'"
  shows "store_inv E U R s' \<and> (\<forall>k. stor_room s k \<longrightarrow> stor_room s' k) \<and>
    (\<forall>g. alive s g \<longrightarrow> alive s' g \<and> hcontent E s' g = hcontent E s g) \<and>
    (\<forall>i. log_ok E s i \<longrightarrow> log_ok E s' i)"
proof -
  have i: "stor_inv E U R s" using assms(1) by (simp add: store_inv_def)
  have "st_acc s' = st_acc s" "\<forall>i. log_ok E s i \<longrightarrow> log_ok E s' i"
    using assms(2) by (simp_all add: quiet_def logs_def)
  then show ?thesis
    using assms(1) stor_inv_quiet [OF i assms(2)] alive_quiet [OF assms(2)] quietD(2) [OF assms(2)]
    by (simp add: store_inv_def stor_room_def)
qed

interpretation cs: chunk_store "store_inv E U" alive "hcontent E" "\<lambda>c. c \<in> U" stor_room
    "\<lambda>s h. bucket_of (hash_getBucketIndex s h)" "log_ok E" "hash_read E" "hash_write E" "hash_incRefCnt E"
    "hash_decRefCnt E" hash_rest "\<lambda>i je. inBucket E i (bucket_addChange E je)"
  for E U
proof unfold_locales
  fix R s h
  assume "store_inv E U R s" and a: "alive s h"
  then have i: "stor_inv E U R s" by (simp add: store_inv_def)
  show "length (hcontent E s h) = chunkSize" "hcontent E s h \<in> U"
    "log_ok E s (bucket_of (hash_getBucketIndex s h))"
    using stor_invD(7) [OF i a] by (auto simp: hash_ok_def log_ok_def hash_getBucketIndex_def)
next
  fix R s h assume "store_inv E U R s" "0 < R h"
  then show "alive s h" using stor_invD(5) by (auto simp: store_inv_def)
next
  fix s k assume "stor_room s (Suc k)"
  then show "stor_room s k" by (rule stor_room_less)
next
  fix R s h off sz
  assume a: "store_inv E U R s" "alive s h" "off + sz \<le> chunkSize"
  then have i: "stor_inv E U R s" by (simp add: store_inv_def)
  show "wp (hash_read E h off sz) (\<lambda>bs s'. bs = take sz (drop off (hcontent E s h)) \<and>
      store_inv E U R s' \<and> (\<forall>g. alive s g \<longrightarrow> alive s' g \<and> hcontent E s' g = hcontent E s g) \<and>
      (\<forall>k. stor_room s k \<longrightarrow> stor_room s' k)) s"
    by (rule wp_mono [OF wp_hash_read [OF i a(2,3)]]) (use quiet_post [OF a(1)] in blast)
next
  fix R s h off inp k
  assume a: "store_inv E U R s" "alive s h" "off + length inp \<le> chunkSize"
    "list_splice (hcontent E s h) off inp \<in> U" "stor_room s (Suc k)"
  then have i: "stor_inv E U R s" and e: "env_ok E" "inj_on (e_sha E) U" by (simp_all add: store_inv_def)
  show "wp (hash_write E h off inp) (\<lambda>r s'. store_inv E U R s' \<and> stor_room s' k \<and>
        (\<forall>g. alive s g \<longrightarrow> alive s' g \<and> hcontent E s' g = hcontent E s g) \<and>
        (\<forall>i. log_ok E s i \<longrightarrow> log_ok E s' i) \<and>
        (case r of None \<Rightarrow> list_splice (hcontent E s h) off inp = hcontent E s h
         | Some n \<Rightarrow> alive s' n \<and> hcontent E s' n = list_splice (hcontent E s h) off inp)) s"
    by (rule wp_mono [OF wp_hash_write [OF i e a(2-5)]])
      (use a(1) in \<open>simp add: store_inv_def keeps_def logs_def split: option.splits\<close>)
next
  fix R s h n
  assume a: "store_inv E U R s" "alive s h"
  then have i: "stor_inv E U R s" by (simp add: store_inv_def)
  show "wp (hash_incRefCnt E h n) (\<lambda>_ s'. store_inv E U (R(h := R h + n)) s' \<and>
        (\<forall>k. stor_room s k \<longrightarrow> stor_room s' k) \<and>
        (\<forall>g. alive s g \<longrightarrow> alive s' g \<and> hcontent E s' g = hcontent E s g) \<and>
        (\<forall>i. log_ok E s i \<longrightarrow> log_ok E s' i)) s"
    by (rule wp_mono [OF wp_hash_incRefCnt [OF i a(2)]])
      (use a(1) in \<open>simp add: store_inv_def keeps_def logs_def stor_room_def\<close>)
next
  fix R s h n
  assume a: "store_inv E U R s" "alive s h" "n \<le> R h"
  then have i: "stor_inv E U R s" and e: "env_ok E" "names_ok E" by (simp_all add: store_inv_def)
  show "wpf (hash_decRefCnt E h n) (\<lambda>_ s'. store_inv E U (R(h := R h - n)) s' \<and>
        (\<forall>k. stor_room s k \<longrightarrow> stor_room s' k) \<and>
        (\<forall>g. g \<noteq> h \<or> n < R h \<longrightarrow> alive s g \<longrightarrow> alive s' g \<and> hcontent E s' g = hcontent E s g) \<and>
        (\<forall>i. log_ok E s i \<longrightarrow> log_ok E s' i)) s"
    by (rule wp_mono [OF wp_hash_decRefCnt [OF i e a(2,3)]])
      (use a(1) in \<open>simp add: store_inv_def keeps_def logs_def\<close>)
next
  fix R s h
  assume a: "store_inv E U R s" "alive s h"
  then have i: "stor_inv E U R s" by (simp add: store_inv_def)
  show "wp (hash_rest h) (\<lambda>_ s'. store_inv E U R s' \<and> (\<forall>k. stor_room s k \<longrightarrow> stor_room s' k) \<and>
        (\<forall>g. alive s g \<longrightarrow> alive s' g \<and> hcontent E s' g = hcontent E s g) \<and>
        (\<forall>i. log_ok E s i \<longrightarrow> log_ok E s' i)) s"
    by (rule wp_mono [OF wp_hash_rest [OF i a(2)]]) (rule quiet_post [OF a(1)])
next
  fix R s i je
  assume a: "store_inv E U R s" "log_ok E s i"
  then have inv: "stor_inv E U R s" and e: "env_ok E" "names_ok E" by (simp_all add: store_inv_def)
  show "wp (inBucket E i (bucket_addChange E je)) (\<lambda>_ s'. store_inv E U R s' \<and>
        (\<forall>k. stor_room s k \<longrightarrow> stor_room s' k) \<and>
        (\<forall>g. alive s g \<longrightarrow> alive s' g \<and> hcontent E s' g = hcontent E s g) \<and>
        (\<forall>j. j \<noteq> i \<longrightarrow> log_ok E s j \<longrightarrow> log_ok E s' j)) s"
  proof (rule wp_mono [OF wp_addChange [OF inv e a(2)]], elim conjE)
    fix t assume q: "quiet0 E s t" and l: "\<forall>j. j \<noteq> i \<longrightarrow> log_ok E s j \<longrightarrow> log_ok E t j"
    have "st_acc t = st_acc s" using q by (simp add: quiet0_def)
    then show "store_inv E U R t \<and> (\<forall>k. stor_room s k \<longrightarrow> stor_room t k) \<and>
        (\<forall>g. alive s g \<longrightarrow> alive t g \<and> hcontent E t g = hcontent E s g) \<and>
        (\<forall>j. j \<noteq> i \<longrightarrow> log_ok E s j \<longrightarrow> log_ok E t j)"
      using a(1) l stor_inv_quiet0 [OF inv q] alive_quiet0 [OF q] quiet0D(2) [OF q]
      by (simp add: store_inv_def stor_room_def)
  qed
qed

end
