(* ===== verification/Store_Init.thy ===== *)
theory Store_Init
  imports Store_Contract
begin

text \<open>
  The storage of a new file system: the data bucket part of the constructor \<^verbatim>\<open>fs::fs\<close> and of
  \<^verbatim>\<open>fs::initFileSystem\<close> (\<^verbatim>\<open>src/src/modules/filesystem/fs.cpp\<close>), which
  give the hash of the zero chunk its pinned object and its slot and load the bucket list;
  and the properties of the storage layer.
\<close>

section \<open>Mounting\<close>

definition zeroHash_obj :: "env \<Rightarrow> hashobj" where
  "zeroHash_obj E =
     \<lparr>h_hsh = e_sha E zero_chunk, h_bucketIndex = bucketIndex 1 0, h_refcnt = 1,
      h_data = Some zero_chunk, h_flags = FLAG_NOAUTOSTORE OR FLAG_NOAUTOLOAD\<rparr>"

text \<open>\<^verbatim>\<open>_zeroHash\<close> is the first object of the heap.\<close>

definition zeroHash :: hid where "zeroHash = 0"

definition stor_start :: "env \<Rightarrow> (string \<Rightarrow> byte list option) \<Rightarrow> stor" where
  "stor_start E disk =
     \<lparr>st_io = \<lparr>io_heap = [zeroHash_obj E], io_disk = disk, io_draws = 0, io_dropped = []\<rparr>,
      st_index = umap_insert umap_empty (e_sha E zero_chunk) zeroHash,
      st_loaded = umap_empty, st_acc = acc_new []\<rparr>"

definition stor_mount :: "env \<Rightarrow> nat list \<Rightarrow> unit stor_op" where
  "stor_mount E ids =
     bindS (inBucket E (bucket_of fs_rootIndex)
       (putHashAndChunk E (index_of fs_rootIndex) (Some zeroHash) zero_chunk)) (\<lambda>_.
     loadBuckets E ids)"

section \<open>Posting to a table with free nodes\<close>

lemma acc_post_free:
  assumes inv: "acc_inv a" and d: "d \<notin> set (acc_ids a)" "bucket_of d \<in> set (bucketsInUse a)"
    and fr: "acc_free a \<noteq> []"
  obtains a' where "acc_post a d = Inr (a', [])" "acc_inv a'" "acc_ids a' = d # acc_ids a"
    "bucketsInUse a' = bucketsInUse a" "hint a' = hint a" "length (acc_free a') = length (acc_free a) - 1"
proof -
  obtain n frs where f: "acc_free a = n # frs" using fr by (cases "acc_free a") auto
  show ?thesis
    using that [of "post_node a n (acc_next a ! n) d"] post_node_ok [OF inv f d] post_loop_some [OF inv f] f
    by (simp add: acc_post_def)
qed

lemma wp_post_some:
  "acc_post (st_acc s) d = Inr (a, []) \<Longrightarrow> wp (accounting_post E d) Q s = Q () (s\<lparr>st_acc := a\<rparr>)"
  by (simp add: accounting_post_def)

lemma wp_post_all:
  assumes "acc_inv (st_acc s)" "distinct ds" "set ds \<inter> set (acc_ids (st_acc s)) = {}"
    and "\<forall>d \<in> set ds. bucket_of d \<in> set (bucketsInUse (st_acc s))"
    and "length ds \<le> length (acc_free (st_acc s))"
  shows "wp (forS ds (accounting_post E)) (\<lambda>_ s'. \<exists>a. s' = s\<lparr>st_acc := a\<rparr> \<and> acc_inv a \<and>
     set (acc_ids a) = set ds \<union> set (acc_ids (st_acc s)) \<and>
     bucketsInUse a = bucketsInUse (st_acc s) \<and> hint a = hint (st_acc s)) s"
  using assms
proof (induction ds arbitrary: s)
  case Nil
  then show ?case by (auto intro!: exI [of _ "st_acc s"])
next
  case (Cons d ds)
  have "d \<notin> set (acc_ids (st_acc s))" "bucket_of d \<in> set (bucketsInUse (st_acc s))"
    "acc_free (st_acc s) \<noteq> []" using Cons.prems by auto
  from acc_post_free [OF Cons.prems(1) this] obtain a where
    a: "acc_post (st_acc s) d = Inr (a, [])" "acc_inv a" "acc_ids a = d # acc_ids (st_acc s)"
      "bucketsInUse a = bucketsInUse (st_acc s)" "hint a = hint (st_acc s)"
      "length (acc_free a) = length (acc_free (st_acc s)) - 1" by blast
  have "wp (forS ds (accounting_post E)) (\<lambda>_ s'. \<exists>b. s' = (s\<lparr>st_acc := a\<rparr>)\<lparr>st_acc := b\<rparr> \<and> acc_inv b \<and>
     set (acc_ids b) = set ds \<union> set (acc_ids a) \<and> bucketsInUse b = bucketsInUse a \<and> hint b = hint a)
     (s\<lparr>st_acc := a\<rparr>)"
    using Cons.IH [of "s\<lparr>st_acc := a\<rparr>"] Cons.prems a by auto
  then have "wp (forS ds (accounting_post E)) (\<lambda>_ s'. \<exists>b. s' = s\<lparr>st_acc := b\<rparr> \<and> acc_inv b \<and>
     set (acc_ids b) = set (d # ds) \<union> set (acc_ids (st_acc s)) \<and>
     bucketsInUse b = bucketsInUse (st_acc s) \<and> hint b = hint (st_acc s)) (s\<lparr>st_acc := a\<rparr>)"
    by (rule wp_mono) (use a in auto)
  then show ?case by (simp add: wp_post_some [OF a(1)])
qed

section \<open>A new file system\<close>

definition fresh_stor :: "env \<Rightarrow> accounting \<Rightarrow> bucket \<Rightarrow> stor" where
  "fresh_stor E a b =
     \<lparr>st_io = \<lparr>io_heap = [zeroHash_obj E], io_disk = (\<lambda>_. None), io_draws = 0, io_dropped = []\<rparr>,
      st_index = umap_insert umap_empty (e_sha E zero_chunk) zeroHash,
      st_loaded = umap_insert umap_empty 1 b, st_acc = a\<rparr>"

definition zero_bucket :: "env \<Rightarrow> nat \<Rightarrow> nat \<Rightarrow> bucket" where
  "zero_bucket E m n =
     \<lparr>b_base = getBucketFilename E 1, b_chunks = Some (replicate chunksInBucket zero_chunk),
      b_hashes = Some ((replicate chunksInBucket None)[0 := Some zeroHash]), b_changes = None,
      b_chunkChanges = m, b_hashChanges = n\<rparr>"

lemma root_parts [simp]:
  "bucket_of fs_rootIndex = 1" "index_of fs_rootIndex = 0" "fs_rootIndex = bucketIndex 1 0"
  by (simp_all add: fs_rootIndex_def)

lemma put_zero:
  "wp (inBucket E 1 (putHashAndChunk E 0 (Some zeroHash) zero_chunk))
     (\<lambda>_ s'. s' = fresh_stor E (acc_new []) (zero_bucket E 1 1)) (stor_start E (\<lambda>_. None))"
proof -
  have "(replicate chunksInBucket zero_chunk)[0 := zero_chunk] = replicate chunksInBucket zero_chunk"
    by (rule nth_equalityI) (auto simp: nth_list_update)
  then show ?thesis
    by (simp add: wp_inBucket stor_start_def bk_def putHashAndChunk_def loadHashes_def loadChunks_def
        getSystemString_def array_at_def fresh_stor_def zero_bucket_def put_bucket_def bucket_new_def)
qed

text \<open>Bucket 1 is loaded: slot 0 holds the zero hash, the other 255 are collected for posting.\<close>

lemma wp_getHash_fresh:
  assumes "a < chunksInBucket"
  shows "wp (inBucket E 1 (bucket_getHash E a)) Q (fresh_stor E x (zero_bucket E m n)) =
      Q (if a = 0 then Some zeroHash else None) (fresh_stor E x (zero_bucket E m n))"
proof -
  have bkE: "bk E (fresh_stor E x (zero_bucket E m n)) 1 = zero_bucket E m n"
    by (simp add: bk_def fresh_stor_def)
  have put: "put_bucket 1 (zero_bucket E m n) (st_io (fresh_stor E x (zero_bucket E m n)))
      (fresh_stor E x (zero_bucket E m n)) = fresh_stor E x (zero_bucket E m n)"
    by (simp add: put_bucket_def fresh_stor_def)
  have H: "b_hashes (zero_bucket E m n) = Some ((replicate chunksInBucket None)[0 := Some zeroHash])"
    by (simp add: zero_bucket_def)
  have nth: "((replicate chunksInBucket None)[0 := Some zeroHash]) ! a = (if a = 0 then Some zeroHash else None)"
    using assms by (simp add: nth_list_update)
  show ?thesis
    using assms put by (simp add: wp_inBucket bkE bucket_getHash_def loadHashes_def array_at_def H nth
        del: One_nat_def)
qed

lemma load_slot_fresh:
  assumes "a < chunksInBucket"
  shows "wp (load_slot E 1 a) (\<lambda>_ (s', p'). s' = fresh_stor E (acc_new []) (zero_bucket E m n) \<and>
      p' = (if a = 0 then p else p @ [bucketIndex 1 a])) (fresh_stor E (acc_new []) (zero_bucket E m n), p)"
proof -
  let ?S = "fresh_stor E (acc_new []) (zero_bucket E m n)"
  have at: "hash_at ?S zeroHash = zeroHash_obj E"
    by (simp add: hash_at_def fresh_stor_def zeroHash_def)
  have idx: "?S\<lparr>st_index := umap_insert (st_index ?S) (h_hsh (zeroHash_obj E)) zeroHash\<rparr> = ?S"
    by (simp add: fresh_stor_def zeroHash_obj_def)
  have obj: "h_bucketIndex (zeroHash_obj E) = bucketIndex 1 0" "0 < h_refcnt (zeroHash_obj E)"
    by (simp_all add: zeroHash_obj_def)
  have neq: "bucketIndex 1 a \<noteq> bucketIndex 1 0" if "a \<noteq> 0"
    using that assms by (simp add: bucketIndex_inject chunksInBucket_def)
  show ?thesis
    using neq assms
    by (cases "a = 0") (simp_all add: load_slot_def wp_getHash_fresh at idx obj del: One_nat_def)
qed

lemma wp_load_fresh:
  "wp (forS [0..<chunksInBucket] (load_slot E 1)) (\<lambda>_ (s', p').
      s' = fresh_stor E (acc_new []) (zero_bucket E m n) \<and>
      p' = map (bucketIndex 1) [Suc 0..<chunksInBucket]) (fresh_stor E (acc_new []) (zero_bucket E m n), [])"
proof (rule wp_for [of "\<lambda>rest (s', p'). s' = fresh_stor E (acc_new []) (zero_bucket E m n) \<and>
    (\<exists>k \<le> chunksInBucket. rest = [k..<chunksInBucket] \<and> p' = map (bucketIndex 1) [Suc 0..<k])"])
  show "case (fresh_stor E (acc_new []) (zero_bucket E m n), []) of (s', p') \<Rightarrow>
    s' = fresh_stor E (acc_new []) (zero_bucket E m n) \<and>
    (\<exists>k \<le> chunksInBucket. [0..<chunksInBucket] = [k..<chunksInBucket] \<and> p' = map (bucketIndex 1) [Suc 0..<k])"
    by (auto intro!: exI [of _ 0])
next
  fix a rest and sp :: "stor \<times> nat list"
  obtain s' p' where sp: "sp = (s', p')" by (cases sp)
  assume "case sp of (s', p') \<Rightarrow> s' = fresh_stor E (acc_new []) (zero_bucket E m n) \<and>
    (\<exists>k \<le> chunksInBucket. a # rest = [k..<chunksInBucket] \<and> p' = map (bucketIndex 1) [Suc 0..<k])"
  then obtain k where k: "s' = fresh_stor E (acc_new []) (zero_bucket E m n)"
    "a # rest = [k..<chunksInBucket]" "p' = map (bucketIndex 1) [Suc 0..<k]" by (auto simp: sp)
  then have a: "a = k" "k < chunksInBucket" "rest = [Suc k..<chunksInBucket]"
    using k(2) [symmetric] by (auto simp: upt_eq_Cons_conv)
  have p: "(if a = 0 then p' else p' @ [bucketIndex 1 a]) = map (bucketIndex 1) [Suc 0..<Suc k]"
    using k(3) a(1) by (cases k) auto
  show "wp (load_slot E 1 a) (\<lambda>_ (s', p'). s' = fresh_stor E (acc_new []) (zero_bucket E m n) \<and>
    (\<exists>k \<le> chunksInBucket. rest = [k..<chunksInBucket] \<and> p' = map (bucketIndex 1) [Suc 0..<k])) sp"
    unfolding sp k(1) using a p
    by (intro wp_mono [OF load_slot_fresh]) (auto intro!: exI [of _ "Suc k"] simp del: upt_Suc)
next
  fix sp :: "stor \<times> nat list"
  obtain s' p' where sp: "sp = (s', p')" by (cases sp)
  assume "case sp of (s', p') \<Rightarrow> s' = fresh_stor E (acc_new []) (zero_bucket E m n) \<and>
    (\<exists>k \<le> chunksInBucket. [] = [k..<chunksInBucket] \<and> p' = map (bucketIndex 1) [Suc 0..<k])"
  then obtain k where k: "s' = fresh_stor E (acc_new []) (zero_bucket E m n)" "k \<le> chunksInBucket"
    "[] = [k..<chunksInBucket]" "p' = map (bucketIndex 1) [Suc 0..<k]" unfolding sp by auto
  from k(3) [symmetric] have "k = chunksInBucket" using chunksInBucket_pos k(2) by (simp add: upt_eq_Nil_conv)
  with k show "case sp of (s', p') \<Rightarrow> s' = fresh_stor E (acc_new []) (zero_bucket E m n) \<and>
      p' = map (bucketIndex 1) [Suc 0..<chunksInBucket]" by (simp add: sp)
qed

text \<open>Loading the bucket list of a new file system, and posting the free slots.\<close>

lemma run_load_fresh:
  "forS [1] (loadHashesFromBucket E) (fresh_stor E (acc_new []) (zero_bucket E m n), []) =
     Inr ((), (fresh_stor E (acc_new []) (zero_bucket E m n), map (bucketIndex 1) [Suc 0..<chunksInBucket]))"
proof -
  have "wp (loadHashesFromBucket E 1) (\<lambda>_ sp. sp =
      (fresh_stor E (acc_new []) (zero_bucket E m n), map (bucketIndex 1) [Suc 0..<chunksInBucket]))
    (fresh_stor E (acc_new []) (zero_bucket E m n), [])"
    unfolding loadHashesFromBucket_def
  proof (rule wp_catch)
    show "wp (forS [0..<chunksInBucket] (load_slot E 1)) (\<lambda>_ sp. sp =
      (fresh_stor E (acc_new []) (zero_bucket E m n), map (bucketIndex 1) [Suc 0..<chunksInBucket]))
      (fresh_stor E (acc_new []) (zero_bucket E m n), [])"
      by (rule wp_mono [OF wp_load_fresh]) auto
  qed simp
  then show ?thesis by (auto simp: wp_run bindS_def returnS_def)
qed

definition mounted :: "env \<Rightarrow> stor \<Rightarrow> bool" where
  "mounted E s \<longleftrightarrow> (\<exists>a. s = fresh_stor E a (zero_bucket E 1 1) \<and> acc_inv a \<and>
     set (acc_ids a) = bucketIndex 1 ` {1..<chunksInBucket} \<and> bucketsInUse a = [1] \<and> hint a = 1)"

lemma wp_stor_mount: "wp (stor_mount E [1]) (\<lambda>_. mounted E) (stor_start E (\<lambda>_. None))"
proof -
  let ?ds = "rev (map (bucketIndex 1) [Suc 0..<chunksInBucket])"
  let ?S = "fresh_stor E (acc_new [1]) (zero_bucket E 1 1)"
  have "used_ok [1]" by (simp add: used_ok_def)
  note new = acc_new_inv [OF this]
  have acc: "st_acc ?S = acc_new [1]" by (simp add: fresh_stor_def)
  have "distinct ?ds"
    by (auto simp: distinct_map inj_on_def bucketIndex_inject chunksInBucket_def)
  moreover have "\<forall>d \<in> set ?ds. bucket_of d \<in> set (bucketsInUse (acc_new [1]))"
    by (auto simp: acc_new_def)
  moreover have "length ?ds \<le> length (acc_free (acc_new [1]))"
    using new by (simp add: acc_size_def maxBuckets_def chunksInBucket_def)
  ultimately have "wp (forS ?ds (accounting_post E)) (\<lambda>_ s'. \<exists>a. s' = ?S\<lparr>st_acc := a\<rparr> \<and> acc_inv a \<and>
     set (acc_ids a) = set ?ds \<union> set (acc_ids (st_acc ?S)) \<and>
     bucketsInUse a = bucketsInUse (st_acc ?S) \<and> hint a = hint (st_acc ?S)) ?S"
    using new(1,2) by (intro wp_post_all) (simp_all only: acc, simp_all)
  then have post: "wp (forS ?ds (accounting_post E)) (\<lambda>_. mounted E) ?S"
    by (rule wp_mono) (use new in \<open>auto simp: mounted_def acc fresh_stor_def acc_new_def\<close>)
  have "wp (loadBuckets E [1]) (\<lambda>_. mounted E) (fresh_stor E (acc_new []) (zero_bucket E 1 1))"
    using run_load_fresh [of E 1 1] post
    by (simp add: loadBuckets_def wpx_def bindS_def modifyS_def fresh_stor_def)
  then show ?thesis
    unfolding stor_mount_def wp_bind root_parts(1,2)
    by (intro wp_mono [OF put_zero]) simp
qed

lemma mounted_inv:
  assumes "mounted E s" "env_ok E" "names_ok E" "inj_on (e_sha E) U" "zero_chunk \<in> U"
  shows "store_inv E U (\<lambda>h. if h = zeroHash then 1 else 0) s" "stor_room s (2 ^ 52)" "alive s zeroHash"
proof -
  obtain a where s: "s = fresh_stor E a (zero_bucket E 1 1)" and a: "acc_inv a"
    "set (acc_ids a) = bucketIndex 1 ` {1..<chunksInBucket}" "bucketsInUse a = [1]" "hint a = 1"
    using assms(1) by (auto simp: mounted_def)
  have at: "hash_at s zeroHash = zeroHash_obj E" by (simp add: s hash_at_def fresh_stor_def zeroHash_def)
  have get: "umap_get (st_index s) k = Some h \<longleftrightarrow> k = e_sha E zero_chunk \<and> h = zeroHash" for k h
    by (simp add: s fresh_stor_def) metis
  have alive: "alive s h \<longleftrightarrow> h = zeroHash" for h by (simp add: alive_def get)
  have bk: "bk E s i = (if i = 1 then zero_bucket E 1 1 else bucket_new (getBucketFilename E i))" for i
    by (simp add: s bk_def fresh_stor_def)
  have content: "hcontent E s zeroHash = zero_chunk" by (simp add: hcontent_def at zeroHash_obj_def)
  have disk: "getSystemString (st_io s) f = []" for f by (simp add: s fresh_stor_def getSystemString_def)
  have new: "bucket_ok E (bucket_new f) (st_io s)" for f
    by (simp add: bucket_ok_def chunk_view_def decode_chunks_def disk hashes_loadable_def)
  have zb: "bucket_ok E (zero_bucket E 1 1) (st_io s)"
    using assms(2) by (auto simp: bucket_ok_def chunk_view_def zero_bucket_def hashes_loadable_def
        hashes_sized_def s fresh_stor_def zeroHash_def zeroHash_obj_def env_ok_def
        dest!: set_update_subset_insert [THEN subsetD])
  have bi: "buckets_inv E s"
    using new zb by (simp add: buckets_inv_def bk) (simp add: s fresh_stor_def zero_bucket_def)
  have H: "\<exists>H. b_hashes (bk E s 1) = Some H \<and> H ! 0 = Some zeroHash"
    by (simp add: bk zero_bucket_def)
  have "zeroHash < length (io_heap (st_io s))" by (simp add: s fresh_stor_def zeroHash_def)
  then have ok: "hash_ok E s zeroHash"
    using H by (simp add: hash_ok_def content at) (simp add: zeroHash_obj_def pinned_def)
  have slots: "slots_of s = {bucketIndex 1 0}" by (auto simp: slots_of_def alive at zeroHash_obj_def)
  have "bucketIndex 1 0 \<notin> bucketIndex 1 ` {1..<chunksInBucket}"
    by (auto simp: bucketIndex_inject chunksInBucket_def)
  then have "acc.holds (st_acc s) (slots_of s)"
    using a by (simp add: acc.holds_def slots) (simp add: s fresh_stor_def)
  moreover have "umap_inv (st_index s)" by (simp add: s fresh_stor_def)
  moreover have "h_hsh (hash_at s h) = k" if "umap_get (st_index s) k = Some h" for k h
    using that by (simp add: get at zeroHash_obj_def)
  moreover have "inj_on (\<lambda>h. h_bucketIndex (hash_at s h)) {h. alive s h}" by (simp add: alive)
  moreover have "alive s h" if "0 < (if h = zeroHash then 1 else 0 :: nat)" for h
    using that by (simp add: alive split: if_splits)
  moreover have "hash_ok E s h \<and> e_sha E (hcontent E s h) = h_hsh (hash_at s h) \<and> hcontent E s h \<in> U \<and>
      h_refcnt (hash_at s h) = int (if h = zeroHash then 1 else 0)" if "alive s h" for h
    using that ok content at assms(5) by (simp add: alive) (simp add: zeroHash_obj_def)
  ultimately have "stor_inv E U (\<lambda>h. if h = zeroHash then 1 else 0) s"
    using bi by (intro stor_invI) simp_all
  then show "store_inv E U (\<lambda>h. if h = zeroHash then 1 else 0) s"
    using assms by (simp add: store_inv_def)
  show "stor_room s (2 ^ 52)"
    using a by (simp add: stor_room_def acc_room_def acc_top_def s fresh_stor_def maxBuckets_def)
  show "alive s zeroHash" by (simp add: alive)
qed

end
