(* ===== verification/Store_Props.thy ===== *)
theory Store_Props
  imports Store_Init
begin

text \<open>
  The properties of the storage layer: mounting, copy-on-write with deduplication, and the
  release of a slot with the last reference.
\<close>

section \<open>An environment for the witnesses\<close>

text \<open>The sum of \<open>sample_env\<close> has no collisions on the chunks that are zero behind their first 32 bytes.\<close>

definition sample_U :: "chunk set" where
  "sample_U = {c. length c = chunkSize \<and> drop 32 c = replicate (chunkSize - 32) 0}"

lemma sample_names_ok: "names_ok sample_env"
proof -
  have "length (getBucketFilename sample_env n) = 10 + min 1 n + n" for n
    by (simp add: getBucketFilename_def sample_env_def Let_def)
  then have "m = n" if "getBucketFilename sample_env m = getBucketFilename sample_env n" for m n
    using arg_cong [OF that, of length] by (simp add: min_def split: if_splits)
  then show ?thesis by (simp add: names_ok_def inj_def)
qed

lemma sample_sum: "c \<in> sample_U \<Longrightarrow> e_sha sample_env c = take 32 c"
  by (simp add: sample_U_def sample_env_def chunkSize_def)

lemma sample_inj: "inj_on (e_sha sample_env) sample_U"
proof (rule inj_onI)
  fix c d assume c: "c \<in> sample_U" and d: "d \<in> sample_U" and eq: "e_sha sample_env c = e_sha sample_env d"
  then have "take 32 c = take 32 d" using sample_sum by simp
  moreover have "drop 32 c = drop 32 d" using c d by (simp add: sample_U_def)
  ultimately show "c = d" by (metis append_take_drop_id)
qed

lemma sample_zero: "zero_chunk \<in> sample_U"
  by (simp add: sample_U_def zero_chunk_def)

lemma sample_splice:
  assumes "c \<in> sample_U" "off + length bs \<le> 32" shows "list_splice c off bs \<in> sample_U"
proof -
  have len: "length c = chunkSize" "32 \<le> chunkSize" using assms(1) by (simp_all add: sample_U_def chunkSize_def)
  then have "drop 32 (list_splice c off bs) = drop 32 c"
    using assms(2) by (simp add: list_splice_def)
  then show ?thesis using assms len by (simp add: sample_U_def)
qed

lemma sample_mounted:
  obtains s where "mounted sample_env s" "store_inv sample_env sample_U (\<lambda>h. if h = zeroHash then 1 else 0) s"
    "stor_room s (2 ^ 52)" "alive s zeroHash" "hcontent sample_env s zeroHash = zero_chunk"
proof -
  obtain s where s: "mounted sample_env s" using wp_stor_mount by (auto simp: wp_run)
  have "hcontent sample_env s zeroHash = zero_chunk"
    using s by (auto simp: mounted_def hcontent_def hash_at_def fresh_stor_def zeroHash_def zeroHash_obj_def)
  with that [OF s mounted_inv [OF s sample_env_ok sample_names_ok sample_inj sample_zero]] show thesis .
qed

section \<open>Properties\<close>

text \<open>
  C12: mounting a new file system ends in a state of the storage invariant: the zero chunk is
  stored under the pinned zero hash, which has one reference, and there is room for more
  than a billion rounds of new buckets.
\<close>

theorem stor_mount_fresh:
  assumes "env_ok E" "names_ok E" "inj_on (e_sha E) U" "zero_chunk \<in> U"
  shows "\<exists>s. stor_mount E [1] (stor_start E (\<lambda>_. None)) = Inr ((), s) \<and>
    store_inv E U (\<lambda>h. if h = zeroHash then 1 else 0) s \<and> stor_room s (2 ^ 52) \<and>
    alive s zeroHash \<and> hcontent E s zeroHash = zero_chunk \<and>
    set (acc_ids (st_acc s)) = {bucketIndex 1 i | i. 0 < i \<and> i < chunksInBucket}"
proof -
  obtain s where r: "stor_mount E [1] (stor_start E (\<lambda>_. None)) = Inr ((), s)" and s: "mounted E s"
    using wp_stor_mount [of E] by (auto simp: wp_run)
  have "hcontent E s zeroHash = zero_chunk"
    using s by (auto simp: mounted_def hcontent_def hash_at_def fresh_stor_def zeroHash_def zeroHash_obj_def)
  moreover have "set (acc_ids (st_acc s)) = bucketIndex 1 ` {1..<chunksInBucket}"
    using s by (auto simp: mounted_def fresh_stor_def)
  then have "set (acc_ids (st_acc s)) = {bucketIndex 1 i | i. 0 < i \<and> i < chunksInBucket}"
    by (auto simp: image_iff Suc_le_eq)
  moreover note r
  ultimately show ?thesis using mounted_inv [OF s assms] by blast
qed

theorem stor_mount_fresh_witness:
  "\<exists>s. stor_mount sample_env [1] (stor_start sample_env (\<lambda>_. None)) = Inr ((), s) \<and>
    alive s zeroHash \<and> hcontent sample_env s zeroHash = zero_chunk"
  using stor_mount_fresh [OF sample_env_ok sample_names_ok sample_inj sample_zero] by blast

text \<open>
  C1: copy on write. Writing into a live hash returns the hash of the changed chunk, or nothing
  when the chunk stays the same; reading that hash then gives the written bytes, and every
  live hash, the overwritten one included, keeps its content.
\<close>

theorem store_write_read:
  assumes "store_inv E U R s" "alive s h" "off + length inp \<le> chunkSize"
    and "list_splice (hcontent E s h) off inp \<in> U" "stor_room s (Suc k)"
  shows "wp (bindS (hash_write E h off inp) (\<lambda>r. let n = (case r of None \<Rightarrow> h | Some n \<Rightarrow> n) in
      bindS (hash_read E n off (length inp)) (\<lambda>bs. returnS (n, bs))))
    (\<lambda>(n, bs) s'. bs = inp \<and> store_inv E U R s' \<and> stor_room s' k \<and> alive s' n \<and>
      hcontent E s' n = list_splice (hcontent E s h) off inp \<and>
      (\<forall>g. alive s g \<longrightarrow> alive s' g \<and> hcontent E s' g = hcontent E s g)) s"
  unfolding wp_bind
proof (rule wp_mono [OF cs.write_law [OF assms]], elim conjE)
  let ?new = "list_splice (hcontent E s h) off inp"
  fix r t
  assume t: "store_inv E U R t" "stor_room t k"
    "\<forall>g. alive s g \<longrightarrow> alive t g \<and> hcontent E t g = hcontent E s g"
    "case r of None \<Rightarrow> ?new = hcontent E s h | Some n \<Rightarrow> alive t n \<and> hcontent E t n = ?new"
  define n where "n = (case r of None \<Rightarrow> h | Some n \<Rightarrow> n)"
  have n: "alive t n" "hcontent E t n = ?new"
    using t(3,4) assms(2) by (simp_all add: n_def split: option.splits)
  have len: "length (hcontent E s h) = chunkSize" by (rule cs.content_length [OF assms(1,2)])
  have inp: "take (length inp) (drop off ?new) = inp"
    using assms(3) len by (simp add: list_splice_def)
  have "wp (hash_read E n off (length inp)) (\<lambda>bs s'. bs = inp \<and> store_inv E U R s' \<and> stor_room s' k \<and>
      alive s' n \<and> hcontent E s' n = ?new \<and>
      (\<forall>g. alive s g \<longrightarrow> alive s' g \<and> hcontent E s' g = hcontent E s g)) t"
    by (rule wp_mono [OF cs.read_law [OF t(1) n(1) assms(3)]]) (use t n inp in simp)
  then show "wp (let n = (case r of None \<Rightarrow> h | Some n \<Rightarrow> n) in
      bindS (hash_read E n off (length inp)) (\<lambda>bs. returnS (n, bs)))
    (\<lambda>(n, bs) s'. bs = inp \<and> store_inv E U R s' \<and> stor_room s' k \<and> alive s' n \<and>
      hcontent E s' n = ?new \<and>
      (\<forall>g. alive s g \<longrightarrow> alive s' g \<and> hcontent E s' g = hcontent E s g)) t"
    by (simp add: n_def [symmetric] Let_def)
qed

theorem store_write_read_witness:
  "\<exists>s. mounted sample_env s \<and>
    wp (bindS (hash_write sample_env zeroHash 1 [7, 8]) (\<lambda>r.
      let n = (case r of None \<Rightarrow> zeroHash | Some n \<Rightarrow> n) in
      bindS (hash_read sample_env n 1 (length [7::byte, 8])) (\<lambda>bs. returnS (n, bs)))) (\<lambda>(n, bs) _. bs = [7, 8]) s"
proof -
  obtain s where s: "mounted sample_env s"
      "store_inv sample_env sample_U (\<lambda>h. if h = zeroHash then 1 else 0) s"
      "stor_room s (2 ^ 52)" "alive s zeroHash" "hcontent sample_env s zeroHash = zero_chunk"
    by (rule sample_mounted)
  have room: "stor_room s (Suc 9)" using s(3) by (simp add: stor_room_def acc_room_def)
  have U: "list_splice (hcontent sample_env s zeroHash) 1 [7, 8] \<in> sample_U"
    unfolding s(5) by (rule sample_splice [OF sample_zero]) simp
  have sz: "1 + length [7::byte, 8] \<le> chunkSize" by (simp add: chunkSize_def)
  show ?thesis
    by (intro exI conjI, rule s(1), rule wp_mono [OF store_write_read [OF s(2,4) sz U room]])
      (simp split: prod.splits)
qed

text \<open>
  C5: deduplication. Writing a chunk that a live hash already holds returns that hash and
  takes no slot from the accounting.
\<close>

theorem store_write_dedup:
  assumes "store_inv E U R s" "alive s h" "alive s g" "off + length inp \<le> chunkSize"
    and "list_splice (hcontent E s h) off inp = hcontent E s g"
  shows "wp (hash_write E h off inp) (\<lambda>r s'. r = (if g = h then None else Some g) \<and>
    store_inv E U R s' \<and> st_acc s' = st_acc s \<and> st_index s' = st_index s \<and>
    (\<forall>g. alive s g \<longrightarrow> alive s' g \<and> hcontent E s' g = hcontent E s g)) s"
    (is "wp _ ?Q s")
proof -
  have inv: "stor_inv E U R s" using assms(1) by (simp add: store_inv_def)
  note H = stor_invD(7) [OF inv assms(2)] and G = stor_invD(7) [OF inv assms(3)]
  let ?new = "list_splice (hcontent E s h) off inp"
  have sum: "e_sha E ?new = h_hsh (hash_at s g)" using G assms(5) by simp
  have key: "umap_get (st_index s) (e_sha E ?new) = Some g"
    using stor_invD(6) [OF inv assms(3)] sum by simp
  have eq: "?new = hcontent E s h \<longleftrightarrow> g = h"
    using content_index [OF inv assms(2)] key assms(5) by (metis option.inject)
  have coll: "inj_on (e_sha E) U" using assms(1) by (simp add: store_inv_def)
  have U: "?new \<in> U" using G assms(5) by simp
  define Q where "Q = ?Q"
  have Q: "Q (if g = h then None else Some g) t" if q: "quiet E s t" for t
    using quiet_post [OF assms(1) q] q by (simp add: quiet_def Q_def)
  have "wp (hash_write E h off inp) Q s"
    unfolding hash_write_def wp_bind
  proof (rule wp_mono [OF wp_hash_change [OF inv coll assms(2,4) U]], elim conjE)
    fix r t assume q: "quiet E s t" and r: "r = (if ?new = hcontent E s h then None else Some ?new)"
    have idx: "st_index t = st_index s" using q by (simp add: quiet_def)
    have "wp (newHash E (e_sha E ?new) ?new) (\<lambda>n. Q (Some n)) t" if "g \<noteq> h"
    proof -
      have "alive t g" using alive_quiet [OF q] assms(3) by simp
      then have "wp (newHash_from E (e_sha E ?new) ?new (Some g)) (\<lambda>n. Q (Some n)) t"
        by (intro wp_mono [OF wp_newHash_hit [OF stor_inv_quiet [OF inv q]]])
          (use Q quiet_trans [OF q] that in auto)
      then show ?thesis using key idx by (simp add: newHash_def)
    qed
    moreover have "Q None t" if "g = h" using Q [OF q] that by simp
    ultimately show "wp (case r of None \<Rightarrow> returnS None
        | Some new \<Rightarrow> bindS (newHash E (e_sha E new) new) (\<lambda>n. returnS (Some n))) Q t"
      by (simp add: r eq)
  qed
  then show ?thesis by (simp only: Q_def)
qed

theorem store_write_dedup_witness:
  "\<exists>s. mounted sample_env s \<and>
    wp (hash_write sample_env zeroHash 5 [0, 0, 0]) (\<lambda>r s'. r = None \<and> st_acc s' = st_acc s) s"
proof -
  obtain s where s: "mounted sample_env s"
      "store_inv sample_env sample_U (\<lambda>h. if h = zeroHash then 1 else 0) s"
      "stor_room s (2 ^ 52)" "alive s zeroHash" "hcontent sample_env s zeroHash = zero_chunk"
    by (rule sample_mounted)
  have eq: "list_splice (hcontent sample_env s zeroHash) 5 [0, 0, 0] = hcontent sample_env s zeroHash"
    unfolding s(5) zero_chunk_def
    by (rule nth_equalityI)
      (simp_all add: chunkSize_def nth_list_splice nth_Cons' split: if_splits)
  have sz: "5 + length [0::byte, 0, 0] \<le> chunkSize" by (simp add: chunkSize_def)
  show ?thesis
    by (intro exI conjI, rule s(1), rule wp_mono [OF store_write_dedup [OF s(2,4,4) sz eq]]) simp
qed

text \<open>
  C4: giving back references. With \<open>n\<close> of its \<open>R h\<close> references gone, a hash stays readable as
  long as one is left; with the last one an ordinary hash leaves the index and its slot is
  on offer again, a pinned hash stays. No other hash changes. The call can
  fail only by the announced fragmentation abort.
\<close>

theorem store_decRefCnt:
  assumes "store_inv E U R s" "alive s h" "n \<le> R h"
  shows "wpf (hash_decRefCnt E h n) (\<lambda>_ s'. store_inv E U (R(h := R h - n)) s' \<and>
    (\<forall>g. g \<noteq> h \<or> n < R h \<longrightarrow> alive s g \<longrightarrow> alive s' g \<and> hcontent E s' g = hcontent E s g) \<and>
    (h_flags (hash_at s h) = 0 \<and> n = R h \<longrightarrow>
       \<not> alive s' h \<and> hash_getBucketIndex s h \<in> set (acc_ids (st_acc s'))) \<and>
    (h_flags (hash_at s h) = pinned \<longrightarrow> alive s' h)) s"
proof -
  have inv: "stor_inv E U R s" "env_ok E" "names_ok E" using assms(1) by (simp_all add: store_inv_def)
  show ?thesis
    by (rule wp_mono [OF wp_hash_decRefCnt [OF inv assms(2,3)]])
      (use assms(1) in \<open>simp add: store_inv_def keeps_def hash_getBucketIndex_def\<close>)
qed

theorem store_decRefCnt_witness:
  "\<exists>s. mounted sample_env s \<and> wpf (hash_decRefCnt sample_env zeroHash 1) (\<lambda>_ s'. alive s' zeroHash) s"
proof -
  obtain s where s: "mounted sample_env s"
      "store_inv sample_env sample_U (\<lambda>h. if h = zeroHash then 1 else 0) s"
      "stor_room s (2 ^ 52)" "alive s zeroHash" "hcontent sample_env s zeroHash = zero_chunk"
    by (rule sample_mounted)
  have "h_flags (hash_at s zeroHash) = pinned"
    using s(1) by (auto simp: mounted_def hash_at_def fresh_stor_def zeroHash_def zeroHash_obj_def pinned_def)
  then have "wpf (hash_decRefCnt sample_env zeroHash 1) (\<lambda>_ s'. alive s' zeroHash) s"
    by (intro wp_mono [OF store_decRefCnt [OF s(2,4)]]) simp_all
  then show ?thesis using s(1) by blast
qed

end
