(* ===== verification/Str.thy ===== *)
theory Str
  imports Prelude
begin

text \<open>
  String helpers: \<^verbatim>\<open>src/src/modules/util/str.cpp\<close>, \<^verbatim>\<open>str.h\<close> and the parts of the standard
  library that the JSON code uses on strings (character classes of the C locale,
  \<^verbatim>\<open>std::to_string\<close> and \<^verbatim>\<open>std::stoi\<close>). A \<^verbatim>\<open>str\<close> is a list of characters.
\<close>

section \<open>Characters\<close>

definition c_isspace :: "char \<Rightarrow> bool" where
  "c_isspace c \<longleftrightarrow> c \<in> set [CHR '' '', CHR 0x09, CHR 0x0A, CHR 0x0B, CHR 0x0C, CHR 0x0D]"

definition c_isdigit :: "char \<Rightarrow> bool" where
  "c_isdigit c \<longleftrightarrow> 48 \<le> (of_char c :: nat) \<and> (of_char c :: nat) \<le> 57"

definition c_isupper :: "char \<Rightarrow> bool" where
  "c_isupper c \<longleftrightarrow> 65 \<le> (of_char c :: nat) \<and> (of_char c :: nat) \<le> 90"

definition c_islower :: "char \<Rightarrow> bool" where
  "c_islower c \<longleftrightarrow> 97 \<le> (of_char c :: nat) \<and> (of_char c :: nat) \<le> 122"

definition c_isalpha :: "char \<Rightarrow> bool" where
  "c_isalpha c \<longleftrightarrow> c_isupper c \<or> c_islower c"

definition c_isalnum :: "char \<Rightarrow> bool" where
  "c_isalnum c \<longleftrightarrow> c_isalpha c \<or> c_isdigit c"

definition c_tolower :: "char \<Rightarrow> char" where
  "c_tolower c = (if c_isupper c then char_of ((of_char c :: nat) + 32) else c)"

definition c_toupper :: "char \<Rightarrow> char" where
  "c_toupper c = (if c_islower c then char_of ((of_char c :: nat) - 32) else c)"

section \<open>str.cpp\<close>

definition strtolower :: "string \<Rightarrow> string" where
  "strtolower s = List.map c_tolower s"

definition strtoupper :: "string \<Rightarrow> string" where
  "strtoupper s = List.map c_toupper s"

text \<open>
  \<^verbatim>\<open>strSplit\<close>: the pieces between delimiters, empty pieces left out. \<open>cur\<close> is the piece
  from \<^verbatim>\<open>lastPos\<close> to the current position.
\<close>

fun strSplit_loop :: "string \<Rightarrow> string \<Rightarrow> string \<Rightarrow> string list" where
  "strSplit_loop delims cur [] = (if cur \<noteq> [] then [cur] else [])"
| "strSplit_loop delims cur (c # cs) =
     (if c \<in> set delims
      then (if cur \<noteq> [] then [cur] else []) @ strSplit_loop delims [] cs
      else strSplit_loop delims (cur @ [c]) cs)"

definition strSplit :: "string \<Rightarrow> string \<Rightarrow> string list \<Rightarrow> nat \<times> string list" where
  "strSplit s delims out =
     (length (out @ strSplit_loop delims [] s), out @ strSplit_loop delims [] s)"

text \<open>\<^verbatim>\<open>i.find(x) != npos\<close>\<close>

fun str_contains :: "string \<Rightarrow> string \<Rightarrow> bool" where
  "str_contains x [] \<longleftrightarrow> x = []"
| "str_contains x (c # cs) \<longleftrightarrow> take (length x) (c # cs) = x \<or> str_contains x cs"

abbreviation dquote :: char where "dquote \<equiv> CHR 0x22"
abbreviation bslash :: char where "bslash \<equiv> CHR 0x5C"

definition quote_char :: "char \<Rightarrow> string" where
  "quote_char c =
     (if c = dquote then [bslash, dquote]
      else if c = bslash then [bslash, bslash]
      else if c = CHR 0x08 then [bslash, CHR ''b'']
      else if c = CHR 0x0D then [bslash, CHR ''r'']
      else if c = CHR 0x0C then [bslash, CHR ''f'']
      else if c = CHR 0x0A then [bslash, CHR ''n'']
      else if c = CHR 0x09 then [bslash, CHR ''t'']
      else [c])"

definition quotestring :: "string \<Rightarrow> string" where
  "quotestring i =
     (if str_contains [bslash, dquote] i then [dquote] @ i @ [dquote]
      else [dquote] @ concat (List.map quote_char i) @ [dquote])"

text \<open>
  \<^verbatim>\<open>str_replace\<close>: the inner loop counts the characters of \<^verbatim>\<open>search\<close> that match at
  position \<open>i\<close>; a full match is replaced and skipped.
\<close>

function str_replace_loop :: "string \<Rightarrow> string \<Rightarrow> string \<Rightarrow> string" where
  "str_replace_loop search rep [] = []"
| "str_replace_loop search rep (c # cs) =
     (if search \<noteq> [] \<and> take (length search) (c # cs) = search
      then rep @ str_replace_loop search rep (drop (length search) (c # cs))
      else c # str_replace_loop search rep cs)"
  by pat_completeness auto
termination
  by (relation "measure (\<lambda>(search, rep, s). length s)") auto

definition str_replace :: "string \<Rightarrow> string \<Rightarrow> string \<Rightarrow> string" where
  "str_replace search rep subject =
     (if length search = 0 then subject else str_replace_loop search rep subject)"

section \<open>Numbers\<close>

definition digit_char :: "nat \<Rightarrow> char" where
  "digit_char d = char_of (48 + d)"

definition char_digit :: "char \<Rightarrow> nat" where
  "char_digit c = (of_char c :: nat) - 48"

fun nat_to_string :: "nat \<Rightarrow> string" where
  "nat_to_string n =
     (if n < 10 then [digit_char n] else nat_to_string (n div 10) @ [digit_char (n mod 10)])"

declare nat_to_string.simps [simp del]

text \<open>\<^verbatim>\<open>std::to_string\<close> of a 64-bit integer.\<close>

definition int_to_string :: "int \<Rightarrow> string" where
  "int_to_string i = (if i < 0 then CHR ''-'' # nat_to_string (nat (- i)) else nat_to_string (nat i))"

text \<open>\<^verbatim>\<open>listToString\<close> for integers: a comma after each, the last one removed.\<close>

definition listToString :: "int list \<Rightarrow> string" where
  "listToString is =
     (let n = concat (List.map (\<lambda>i. int_to_string i @ '','') is) in if n = [] then n else butlast n)"

definition digits_value :: "string \<Rightarrow> nat" where
  "digits_value ds = foldl (\<lambda>n c. 10 * n + char_digit c) 0 ds"

text \<open>
  \<^verbatim>\<open>std::stoi\<close>: white space and a sign are skipped, the leading digits are read. The
  result type is \<^verbatim>\<open>int\<close>, 32 bits wide.
\<close>

definition c_stoi :: "string \<Rightarrow> int res" where
  "c_stoi s =
     (let t = dropWhile c_isspace s;
          neg = (t \<noteq> [] \<and> hd t = CHR ''-'');
          u = (if t \<noteq> [] \<and> (hd t = CHR ''-'' \<or> hd t = CHR ''+'') then tl t else t);
          ds = takeWhile c_isdigit u;
          v = (if neg then - int (digits_value ds) else int (digits_value ds))
      in if ds = [] then Inl (StdExn ''invalid_argument'')
         else if v < - (2 ^ 31) \<or> 2 ^ 31 \<le> v then Inl (StdExn ''out_of_range'')
         else Inr v)"

section \<open>Floating point\<close>

text \<open>
  A \<^verbatim>\<open>double\<close> is its 64-bit pattern; the arithmetic unit and the conversions between doubles and
  text are parameters of the model.
\<close>

type_synonym flt_t = u64

record fpu =
  f_stof :: "string \<Rightarrow> flt_t res"
  f_to_string :: "flt_t \<Rightarrow> string"
  f_neg :: "flt_t \<Rightarrow> flt_t"
  f_of_int :: "int \<Rightarrow> flt_t"
  f_to_int :: "flt_t \<Rightarrow> int"

section \<open>Facts\<close>

lemma digit_not_sign:
  "c_isdigit c \<Longrightarrow> \<not> c_isspace c \<and> c \<noteq> CHR ''-'' \<and> c \<noteq> CHR ''+'' \<and> c \<noteq> CHR ''.''"
  by (auto simp: c_isdigit_def c_isspace_def)

lemma digit_char_props:
  assumes "d < 10"
  shows "c_isdigit (digit_char d)" "char_digit (digit_char d) = d" "\<not> c_isspace (digit_char d)"
    "digit_char d \<noteq> CHR ''-''" "digit_char d \<noteq> CHR ''+''" "digit_char d \<noteq> CHR ''.''"
proof -
  have n: "(of_char (digit_char d) :: nat) = 48 + d" using assms by (simp add: digit_char_def)
  then show "c_isdigit (digit_char d)" "char_digit (digit_char d) = d"
    using assms by (simp_all add: c_isdigit_def char_digit_def)
  then show "\<not> c_isspace (digit_char d)"
    "digit_char d \<noteq> CHR ''-''" "digit_char d \<noteq> CHR ''+''" "digit_char d \<noteq> CHR ''.''"
    using digit_not_sign by simp_all
qed

lemma nat_to_string_digits: "c \<in> set (nat_to_string n) \<Longrightarrow> c_isdigit c"
proof (induction n rule: nat_to_string.induct)
  case (1 n)
  show ?case
  proof (cases "n < 10")
    case True
    then show ?thesis using 1(2) digit_char_props(1) by (simp add: nat_to_string.simps [of n])
  next
    case False
    then show ?thesis
      using 1 digit_char_props(1) [of "n mod 10"] by (auto simp: nat_to_string.simps [of n])
  qed
qed

lemma nat_to_string_nonempty [simp]: "nat_to_string n \<noteq> []"
  by (simp add: nat_to_string.simps [of n])

lemma digits_value_snoc [simp]: "digits_value (ds @ [c]) = 10 * digits_value ds + char_digit c"
  by (simp add: digits_value_def)

lemma digits_value_nat [simp]: "digits_value (nat_to_string n) = n"
proof (induction n rule: nat_to_string.induct)
  case (1 n)
  show ?case
  proof (cases "n < 10")
    case True
    then show ?thesis
      using digit_char_props(2) [of n] by (simp add: nat_to_string.simps [of n] digits_value_def)
  next
    case False
    then show ?thesis
      using 1 digit_char_props(2) [of "n mod 10"] by (simp add: nat_to_string.simps [of n])
  qed
qed

text \<open>\<^verbatim>\<open>stoi\<close> reads back what \<^verbatim>\<open>to_string\<close> writes, as long as the number fits into 31 bits.\<close>

lemma stoi_nat_to_string:
  "c_stoi (nat_to_string n) =
     (if n < 2 ^ 31 then Inr (int n) else Inl (StdExn ''out_of_range''))"
proof -
  obtain c cs where s: "nat_to_string n = c # cs" by (cases "nat_to_string n") auto
  then have c: "c_isdigit c" using nat_to_string_digits [of c n] by simp
  have all: "takeWhile c_isdigit (nat_to_string n) = nat_to_string n"
    using nat_to_string_digits by (auto simp: takeWhile_eq_all_conv)
  have "dropWhile c_isspace (nat_to_string n) = nat_to_string n"
    using digit_not_sign [OF c] by (simp add: s)
  moreover have "\<not> hd (nat_to_string n) = CHR ''-''" "\<not> hd (nat_to_string n) = CHR ''+''"
    using digit_not_sign [OF c] by (simp_all add: s)
  ultimately show ?thesis
    unfolding c_stoi_def Let_def by (simp add: all)
qed

text \<open>The pieces of \<^verbatim>\<open>strSplit\<close> are not empty, hold no delimiter, and are all of the other characters.\<close>

lemma strSplit_pieces:
  assumes "set cur \<inter> set delims = {}" "p \<in> set (strSplit_loop delims cur s)"
  shows "p \<noteq> [] \<and> set p \<inter> set delims = {}"
  using assms by (induction delims cur s rule: strSplit_loop.induct) (auto split: if_splits)

lemma strSplit_concat:
  "concat (strSplit_loop delims cur s) = cur @ filter (\<lambda>c. c \<notin> set delims) s"
  by (induction delims cur s rule: strSplit_loop.induct) auto

lemma quote_char_plain:
  "c \<notin> set [dquote, bslash, CHR 0x08, CHR 0x0D, CHR 0x0C, CHR 0x0A, CHR 0x09] \<Longrightarrow> quote_char c = [c]"
  by (simp add: quote_char_def)

end
