(* ===== verification/Lexer.thy ===== *)
theory Lexer
  imports Str
begin

text \<open>
  The tokenizer: \<^verbatim>\<open>src/src/modules/script/lexer.h\<close> and \<^verbatim>\<open>lexer.cpp\<close>. The
  constructor of \<^verbatim>\<open>Lexer\<close> reads the whole input; here it is a function to the list of
  tokens. The character \<^verbatim>\<open>0xFF\<close> is a signed \<^verbatim>\<open>-1\<close> in the source, the value of
  \<^verbatim>\<open>EOF\<close>, so that \<open>NextC\<close> takes it for the end of the input.
\<close>

section \<open>Tokens (lexer.h)\<close>

text \<open>The enumerators of \<^verbatim>\<open>TokenType\<close>, the keywords and the operators in types of their own.\<close>

datatype keyword =
    KW_include | KW_function | KW_return | KW_if | KW_elseif | KW_else
  | KW_catchevent | KW_foreach | KW_while | KW_as | KW_index | KW_resourcedef
  | KW_timer | KW_event | KW_warning | KW_for | KW_inline_event | KW_break
  | KW_typen | KW_defined | KW_expect | KW_class | KW_extends | KW_deref
  | KW_construct | KW_private | KW_public | KW_final | KW_null | KW_template
  | KW_operator | KW_brq | KW_attrib | KW_defvar

datatype operator =
    O_op_incr | O_op_decr | O_op_add | O_op_sub | O_op_div | O_op_mul
  | O_op_mod | O_op_and | O_op_or | O_op_xor | O_cop_add | O_cop_sub
  | O_cop_mul | O_cop_div | O_cop_mod | O_cop_and | O_cop_or | O_cop_xor
  | O_lop_l | O_lop_g | O_lop_le | O_lop_ge | O_lop_ne | O_lop_e
  | O_lop_and | O_lop_or | O_lop_not

datatype TokenType =
    TT_unknown | TT_eof | TT_eos | TT_compound_l | TT_compound_r | TT_par_l | TT_par_r
  | TT_subscr_l | TT_subscr_r | TT_extractor | TT_seperator | TT_jsonassign | TT_assign
  | TT_identifier | TT_number | TT_string | TT_comment | TT_kw keyword | TT_op operator

text \<open>The source offset of a token, which only diagnostics use, is left out.\<close>

record token =
  tok_content :: string
  tok_type :: TokenType
  tok_comment :: string
  tok_isWord :: bool

section \<open>Keywords and operators\<close>

definition wordToTokenType :: "(string \<times> TokenType) list" where
  "wordToTokenType = [
     (''#uctexture'', TT_kw KW_resourcedef), (''#texture'', TT_kw KW_resourcedef), (''#sound'', TT_kw KW_resourcedef),
     (''#htmlfile'', TT_kw KW_resourcedef), (''#htmlelement'', TT_kw KW_resourcedef), (''#model'', TT_kw KW_resourcedef),
     (''#modelanim'', TT_kw KW_resourcedef), (''#warning'', TT_kw KW_warning), (''#event'', TT_kw KW_event),
     (''#timer'', TT_kw KW_timer), (''#include'', TT_kw KW_include),
     (''for'', TT_kw KW_for), (''foreach'', TT_kw KW_foreach), (''as'', TT_kw KW_as), (''return'', TT_kw KW_return),
     (''index'', TT_kw KW_index), (''while'', TT_kw KW_while), (''catchevent'', TT_kw KW_catchevent),
     (''catchallevents'', TT_kw KW_catchevent), (''operator'', TT_kw KW_operator), (''function'', TT_kw KW_function),
     (''if'', TT_kw KW_if), (''elseif'', TT_kw KW_elseif), (''else'', TT_kw KW_else), (''class'', TT_kw KW_class),
     (''template'', TT_kw KW_template), (''extends'', TT_kw KW_extends), (''_event'', TT_kw KW_inline_event),
     (''break'', TT_kw KW_break), (''typename'', TT_kw KW_typen), (''deref'', TT_kw KW_deref),
     (''construct'', TT_kw KW_construct), (''private:'', TT_kw KW_private), (''null'', TT_kw KW_null),
     (''public:'', TT_kw KW_public), (''_brq'', TT_kw KW_brq), (''final'', TT_kw KW_final),
     (''__attribute__'', TT_kw KW_attrib), (''defined'', TT_kw KW_defined), (''expect'', TT_kw KW_expect),
     (''playerglobal'', TT_kw KW_defvar), (''moveglobal'', TT_kw KW_defvar), (''global'', TT_kw KW_defvar),
     (''string'', TT_kw KW_defvar), (''resource'', TT_kw KW_defvar), (''int'', TT_kw KW_defvar), (''float'', TT_kw KW_defvar),
     (''vec4'', TT_kw KW_defvar), (''vec3'', TT_kw KW_defvar), (''var'', TT_kw KW_defvar), (''object'', TT_kw KW_defvar),
     (''ref'', TT_kw KW_defvar), (''__ptr__'', TT_kw KW_defvar), (''auto'', TT_kw KW_defvar)]"

definition operators :: "(string \<times> TokenType) list" where
  "operators = [
     (''->'', TT_extractor), (''<='', TT_op O_lop_le), (''>='', TT_op O_lop_ge), (''!='', TT_op O_lop_ne),
     (''=='', TT_op O_lop_e), (''&&'', TT_op O_lop_and), (''||'', TT_op O_lop_or), (''++'', TT_op O_op_incr),
     (''--'', TT_op O_op_decr), (''+='', TT_op O_cop_add), (''-='', TT_op O_cop_sub), (''/='', TT_op O_cop_div),
     (''*='', TT_op O_cop_mul), (''%='', TT_op O_cop_mod), (''&='', TT_op O_cop_and), (''|='', TT_op O_cop_or),
     (''^='', TT_op O_cop_xor), ('','', TT_seperator), (''='', TT_assign), ('':'', TT_jsonassign),
     (''{'', TT_compound_l), (''}'', TT_compound_r), (''('', TT_par_l), ('')'', TT_par_r),
     (''['', TT_subscr_l), ('']'', TT_subscr_r), (''<'', TT_op O_lop_l), (''>'', TT_op O_lop_g),
     (''!'', TT_op O_lop_not), (''+'', TT_op O_op_add), (''-'', TT_op O_op_sub), (''/'', TT_op O_op_div),
     (''*'', TT_op O_op_mul), (''%'', TT_op O_op_mod), (''&'', TT_op O_op_and), (''|'', TT_op O_op_or),
     (''^'', TT_op O_op_xor), ('';'', TT_eos)]"

section \<open>Reading\<close>

definition NextC :: "string \<Rightarrow> char option \<times> string" where
  "NextC s = (case s of [] \<Rightarrow> (None, []) | c # cs \<Rightarrow> (if c = CHR 0xFF then None else Some c, cs))"

fun skip_ws :: "char option \<Rightarrow> string \<Rightarrow> char option \<times> string" where
  "skip_ws None r = (None, r)"
| "skip_ws (Some c) [] = (if c_isspace c then (None, []) else (Some c, []))"
| "skip_ws (Some c) (d # ds) =
     (if c_isspace c then skip_ws (if d = CHR 0xFF then None else Some d) ds else (Some c, d # ds))"

definition escape_char :: "char \<Rightarrow> string" where
  "escape_char c =
     (if c = CHR ''n'' then [CHR 0x0A]
      else if c = bslash then [bslash, bslash]
      else if c = CHR ''t'' then [CHR 0x09]
      else if c = CHR ''r'' then [CHR 0x0D]
      else if c = CHR ''b'' then [CHR 0x08]
      else if c = CHR ''f'' then [CHR 0x0C]
      else if c = CHR ''v'' then [CHR 0x0B]
      else [c])"

text \<open>
  The loop over a string literal that \<open>q\<close> opened: the text so far, \<^verbatim>\<open>ThisChar\<close>,
  \<^verbatim>\<open>LastChar\<close> and the rest of the input. A character after a backslash is never the end.
\<close>

fun lex_string :: "char \<Rightarrow> string \<Rightarrow> char \<Rightarrow> char option \<Rightarrow> string \<Rightarrow> string \<times> string" where
  "lex_string q st this None r = (st, r)"
| "lex_string q st this (Some c) r =
     (if this \<noteq> bslash \<and> c = q then (st, r)
      else
        (let st' = (if this = bslash then butlast st @ escape_char c else st @ [c])
         in case r of [] \<Rightarrow> (st', [])
            | d # ds \<Rightarrow> lex_string q st' c (if d = CHR 0xFF then None else Some d) ds))"

fun lex_while :: "(char \<Rightarrow> bool) \<Rightarrow> string \<Rightarrow> char option \<Rightarrow> string \<Rightarrow> string \<times> char option \<times> string" where
  "lex_while P st None r = (st, None, r)"
| "lex_while P st (Some c) r =
     (if P c then
        (case r of [] \<Rightarrow> (st @ [c], None, [])
         | d # ds \<Rightarrow> lex_while P (st @ [c]) (if d = CHR 0xFF then None else Some d) ds)
      else (st, Some c, r))"

text \<open>\<^verbatim>\<open>cmt.push_back(LastChar)\<close> appends \<^verbatim>\<open>0xFF\<close> for \<^verbatim>\<open>EOF\<close>.\<close>

definition ch_of :: "char option \<Rightarrow> char" where
  "ch_of l = (case l of None \<Rightarrow> CHR 0xFF | Some c \<Rightarrow> c)"

fun line_comment :: "string \<Rightarrow> string \<Rightarrow> string \<times> string" where
  "line_comment cmt [] = (cmt @ [CHR 0xFF], [])"
| "line_comment cmt (d # ds) =
     (if d = CHR 0xFF \<or> d = CHR 0x0A \<or> d = CHR 0x0D then (cmt @ [d], ds)
      else line_comment (cmt @ [d]) ds)"

fun multi_comment :: "string \<Rightarrow> char \<Rightarrow> string \<Rightarrow> string \<times> string" where
  "multi_comment cmt prev [] = (cmt @ [CHR 0xFF], [])"
| "multi_comment cmt prev (d # ds) =
     (if d = CHR 0xFF \<or> prev = CHR ''*'' \<and> d = CHR ''/'' then (cmt @ [d], ds)
      else multi_comment (cmt @ [d]) d ds)"

definition mk_token :: "string \<Rightarrow> TokenType \<Rightarrow> string \<Rightarrow> bool \<Rightarrow> token" where
  "mk_token c t cmt w =
     \<lparr>tok_content = c, tok_type = t,
      tok_comment = (if t = TT_identifier \<or> t = TT_string then cmt else []), tok_isWord = w\<rparr>"

text \<open>The member \<^verbatim>\<open>comment\<close> after \<^verbatim>\<open>AddToken\<close>.\<close>

definition next_comment :: "TokenType \<Rightarrow> string \<Rightarrow> string" where
  "next_comment t cmt = (if t = TT_identifier \<or> t = TT_string then [] else cmt)"

text \<open>The part for words: the token and where it ends.\<close>

definition lex_word :: "char \<Rightarrow> string \<Rightarrow> string \<times> TokenType \<times> char option \<times> string" where
  "lex_word c rest =
     (let (l1, r1) = NextC rest;
          (w, l2, r2) = lex_while (\<lambda>d. c_isalnum d \<or> d = CHR ''_'') (if c = CHR ''$'' then [] else [c]) l1 r1
      in if c = CHR ''$'' then (w, TT_identifier, l2, r2)
         else
           (let (w', l3, r3) =
                 (if l2 = Some CHR '':'' \<and> (w = ''public'' \<or> w = ''private'')
                  then (w @ '':'', NextC r2) else (w, l2, r2))
            in case map_of wordToTokenType (strtolower w') of
                 Some t \<Rightarrow> (strtolower w', t, l3, r3)
               | None \<Rightarrow> (w', TT_identifier, l3, r3)))"

section \<open>Sizes\<close>

definition lex_size :: "char option \<Rightarrow> string \<Rightarrow> nat" where
  "lex_size l r = length r + (if l = None then 0 else 1)"

lemma lex_size_NextC: "lex_size (fst (NextC r)) (snd (NextC r)) \<le> length r"
  by (auto simp: NextC_def lex_size_def split: list.splits)

lemma length_NextC: "length (snd (NextC r)) \<le> length r"
  by (auto simp: NextC_def split: list.splits)

lemma skip_ws_size: "lex_size (fst (skip_ws l r)) (snd (skip_ws l r)) \<le> lex_size l r"
  by (induction l r rule: skip_ws.induct) (auto simp: lex_size_def)

lemma lex_string_length: "length (snd (lex_string q st this l r)) \<le> length r"
proof (induction r arbitrary: st this l)
  case Nil
  then show ?case by (cases l) (auto simp: Let_def)
next
  case (Cons d ds)
  show ?case
  proof (cases l)
    case (Some c)
    show ?thesis
      unfolding Some lex_string.simps(2) Let_def list.case
      using Cons.IH by (auto simp del: lex_string.simps intro: le_SucI)
  qed simp
qed

lemma lex_while_size:
  "lex_size (fst (snd (lex_while P st l r))) (snd (snd (lex_while P st l r))) \<le> lex_size l r"
proof (induction r arbitrary: st l)
  case Nil
  then show ?case by (cases l) (auto simp: lex_size_def)
next
  case (Cons d ds)
  show ?case
  proof (cases l)
    case (Some c)
    then show ?thesis
      using Cons.IH [of "st @ [c]" "if d = CHR 0xFF then None else Some d"]
      by (auto simp: lex_size_def split: if_splits)
  qed (simp add: lex_size_def)
qed

lemma line_comment_length: "length (snd (line_comment cmt r)) \<le> length r"
  by (induction cmt r rule: line_comment.induct) auto

lemma multi_comment_length: "length (snd (multi_comment cmt l r)) \<le> length r"
  by (induction cmt l r rule: multi_comment.induct) auto

lemma lex_word_size:
  assumes "lex_word c rest = (w, t, l, r)"
  shows "lex_size l r \<le> length rest"
proof -
  obtain l1 r1 where n: "NextC rest = (l1, r1)" by fastforce
  let ?st = "if c = CHR ''$'' then [] else [c]"
  obtain v l2 r2 where v: "lex_while (\<lambda>d. c_isalnum d \<or> d = CHR ''_'') ?st l1 r1 = (v, l2, r2)"
    by (metis prod_cases3)
  have a: "lex_size l1 r1 \<le> length rest" using lex_size_NextC [of rest] n by simp
  have b: "lex_size l2 r2 \<le> lex_size l1 r1"
    using lex_while_size [of "\<lambda>d. c_isalnum d \<or> d = CHR ''_''" ?st l1 r1] v by simp
  have d: "lex_size (fst (NextC r2)) (snd (NextC r2)) \<le> length r2" by (rule lex_size_NextC)
  have "lex_size l r \<le> lex_size l2 r2"
    using assms d by (auto simp: lex_word_def n v Let_def lex_size_def split: if_splits option.splits prod.splits)
  with a b show ?thesis by simp
qed

section \<open>The lexer\<close>

text \<open>
  One round of the main loop: nothing at the end of the input, otherwise the token that was added
  (comments add none unless they are asked for) and the loop variables after it.
\<close>

definition lex_step ::
  "bool \<Rightarrow> string \<Rightarrow> char \<Rightarrow> string \<Rightarrow> token option \<times> string \<times> char option \<times> string" where
  "lex_step tc cmt c rest =
     (if c = dquote \<or> c = CHR 0x27 then
        (let (l1, r1) = NextC rest;
             (st, r2) = lex_string c [] (CHR 0x00) l1 r1
         in (Some (mk_token st TT_string cmt False), [], NextC r2))
      else if c = CHR ''#'' \<or> c = CHR ''$'' \<or> c = CHR ''_'' \<or> c_isalpha c then
        (case lex_word c rest of (w, t, l, r) \<Rightarrow> (Some (mk_token w t cmt True), next_comment t cmt, l, r))
      else if c_isdigit c \<or> c = CHR ''.'' then
        (case lex_while (\<lambda>d. c_isdigit d \<or> d = CHR ''.'') [] (Some c) rest of (n, l, r) \<Rightarrow>
           (Some (mk_token n TT_number cmt False), cmt, l, r))
      else
        (let (l1, r1) = NextC rest in
         if c = CHR ''/'' \<and> l1 = Some CHR ''/'' then
           (let (cm, r2) = line_comment ''//'' r1
            in if tc then (Some (mk_token cm TT_comment cmt False), cmt, NextC r2)
               else (None, cm, NextC r2))
         else if c = CHR ''/'' \<and> l1 = Some CHR ''*'' then
           (let (cm, r2) = multi_comment ''/*'' (CHR ''*'') r1
            in if tc then (Some (mk_token cm TT_comment cmt False), cmt, NextC r2)
               else (None, cm, NextC r2))
         else
           (case map_of operators [c, ch_of l1] of
              Some t \<Rightarrow> (Some (mk_token [c, ch_of l1] t cmt False), cmt, NextC r1)
            | None \<Rightarrow>
                (Some (mk_token [c] (case map_of operators [c] of Some t \<Rightarrow> t | None \<Rightarrow> TT_unknown)
                   cmt False), cmt, l1, r1))))"

lemma lex_while_step:
  assumes "P c" "lex_while P st (Some c) rest = (n, l, r)"
  shows "lex_size l r \<le> length rest"
proof (cases rest)
  case Nil
  then show ?thesis using assms by (simp add: lex_size_def)
next
  case (Cons d ds)
  then show ?thesis
    using assms lex_while_size [of P "st @ [c]" "if d = CHR 0xFF then None else Some d" ds]
    by (auto simp: lex_size_def split: if_splits)
qed

lemma NextC_le: "length r \<le> n \<Longrightarrow> NextC r = (l, r') \<Longrightarrow> lex_size l r' \<le> n \<and> length r' \<le> n"
  using lex_size_NextC [of r] length_NextC [of r] by simp

lemma lex_step_size:
  assumes "lex_step tc cmt c rest = (t, cmt', l, r)"
  shows "lex_size l r \<le> length rest"
proof -
  obtain l1 r1 where n: "NextC rest = (l1, r1)" by fastforce
  have n1: "lex_size l1 r1 \<le> length rest" "length r1 \<le> length rest" using NextC_le [OF _ n] by simp_all
  have nx: "lex_size l' r' \<le> length rest" if "length x \<le> length r1" "NextC x = (l', r')" for x l' r'
    using NextC_le [OF _ that(2)] that(1) n1(2) by (meson order_trans)
  obtain st r2 where s: "lex_string c [] (CHR 0x00) l1 r1 = (st, r2)" by fastforce
  have s2: "length r2 \<le> length r1" using lex_string_length [of c "[]" "CHR 0x00" l1 r1] s by simp
  obtain cm r3 where lc: "line_comment ''//'' r1 = (cm, r3)" by fastforce
  have lc2: "length r3 \<le> length r1" using line_comment_length [of "''//''" r1] lc by simp
  obtain cn r4 where mc: "multi_comment ''/*'' (CHR ''*'') r1 = (cn, r4)" by fastforce
  have mc2: "length r4 \<le> length r1" using multi_comment_length [of "''/*''" "CHR ''*''" r1] mc by simp
  obtain w tt l5 r5 where w: "lex_word c rest = (w, tt, l5, r5)" by (metis prod_cases4)
  obtain nn l6 r6 where d: "lex_while (\<lambda>d. c_isdigit d \<or> d = CHR ''.'') [] (Some c) rest = (nn, l6, r6)"
    by (metis prod_cases3)
  show ?thesis
    using assms n1 nx [OF s2] nx [OF lc2] nx [OF mc2] nx [of r1] lex_word_size [OF w]
      lex_while_step [OF _ d]
    unfolding lex_step_def n s lc mc w d Let_def prod.case
    by (simp split: if_split_asm option.split_asm)
qed

function lex_loop :: "bool \<Rightarrow> string \<Rightarrow> char option \<Rightarrow> string \<Rightarrow> token list" where
  "lex_loop tc cmt l r =
     (case skip_ws l r of
        (None, _) \<Rightarrow> [mk_token [] TT_eof cmt False]
      | (Some c, rest) \<Rightarrow>
          (case lex_step tc cmt c rest of (t, cmt', l', r') \<Rightarrow>
             (case t of None \<Rightarrow> [] | Some t \<Rightarrow> [t]) @ lex_loop tc cmt' l' r'))"
  by pat_completeness auto

lemma skip_ws_less: "skip_ws l r = (Some c, rest) \<Longrightarrow> length rest < lex_size l r"
  using skip_ws_size [of l r] by (simp add: lex_size_def)

termination lex_loop
proof (relation "measure (\<lambda>(tc, cmt, l, r). lex_size l r)", simp_all only: in_measure split, goal_cases)
  case 1
  then show ?case by simp
next
  case 2
  then show ?case
    using skip_ws_less [OF 2(1) [symmetric]] lex_step_size [of _ _ _ _ _ "fst y" for y]
    by (auto split: prod.splits dest: lex_step_size [OF sym] intro: le_less_trans)
qed

declare lex_loop.simps [simp del]

definition lexer :: "string \<Rightarrow> bool \<Rightarrow> token list" where
  "lexer c tokenizeComment = lex_loop tokenizeComment [] (Some CHR '' '') c"

end
