(* ===== verification/Json.thy ===== *)
theory Json
  imports Lexer
begin

text \<open>
  The JSON values in which directories and the metadata of the root node are kept:
  \<^verbatim>\<open>src/src/modules/script/JSON.h\<close> and \<^verbatim>\<open>JSON.cpp\<close>. An object is a
  \<^verbatim>\<open>std::map\<close> from names to lists of values of one type; a list converts itself when it is
  accessed at another type. Shared pointers to objects occur in one place each, so that objects
  are values here and the pointers on the parser's stack are paths from the root.
\<close>

section \<open>Data\<close>

datatype T = T_obj | T_str | T_int | T_flt | T_undef

datatype json = JSON (jvalues: "(string \<times> lvariant) list") (jcomments: "(string \<times> string) list")
  and lvariant =
    LUndef
  | LObj "json option list"
  | LStr "string list"
  | LInt "int list"
  | LFlt "flt_t list"

definition make_json :: json where "make_json = JSON [] []"

section \<open>std::map with string keys\<close>

text \<open>Keys are compared byte by byte.\<close>

fun str_less :: "string \<Rightarrow> string \<Rightarrow> bool" where
  "str_less [] [] = False"
| "str_less [] (d # ds) = True"
| "str_less (c # cs) [] = False"
| "str_less (c # cs) (d # ds) =
     ((of_char c :: nat) < of_char d \<or> c = d \<and> str_less cs ds)"

fun smap_set :: "(string \<times> 'v) list \<Rightarrow> string \<Rightarrow> 'v \<Rightarrow> (string \<times> 'v) list" where
  "smap_set [] k v = [(k, v)]"
| "smap_set ((k', v') # m) k v =
     (if k = k' then (k, v) # m
      else if str_less k k' then (k, v) # (k', v') # m
      else (k', v') # smap_set m k v)"

definition smap_del :: "(string \<times> 'v) list \<Rightarrow> string \<Rightarrow> (string \<times> 'v) list" where
  "smap_del m k = filter (\<lambda>(k', _). k' \<noteq> k) m"

section \<open>Lists of values\<close>

definition lv_type :: "lvariant \<Rightarrow> T" where
  "lv_type v = (case v of LUndef \<Rightarrow> T_undef | LObj _ \<Rightarrow> T_obj | LStr _ \<Rightarrow> T_str | LInt _ \<Rightarrow> T_int
     | LFlt _ \<Rightarrow> T_flt)"

fun mapR :: "('a \<Rightarrow> 'b res) \<Rightarrow> 'a list \<Rightarrow> 'b list res" where
  "mapR f [] = Inr []"
| "mapR f (x # xs) = bindR (f x) (\<lambda>y. bindR (mapR f xs) (\<lambda>ys. Inr (y # ys)))"

definition illegal_conversion :: exn where
  "illegal_conversion = StdExn ''illegal''"

text \<open>
  \<^verbatim>\<open>_GET\<close> at each type: a list of another type is converted, an undefined one starts
  empty. The conversions of \<^verbatim>\<open>convert\<close> between numbers and strings are element-wise.
\<close>

definition lv_int_vec :: "fpu \<Rightarrow> lvariant \<Rightarrow> int list res" where
  "lv_int_vec F v =
     (case v of LInt is \<Rightarrow> Inr is | LUndef \<Rightarrow> Inr []
      | LStr ss \<Rightarrow> mapR c_stoi ss
      | LFlt fs \<Rightarrow> Inr (map (f_to_int F) fs)
      | LObj _ \<Rightarrow> Inl illegal_conversion)"

definition lv_str_vec :: "fpu \<Rightarrow> lvariant \<Rightarrow> string list res" where
  "lv_str_vec F v =
     (case v of LStr ss \<Rightarrow> Inr ss | LUndef \<Rightarrow> Inr []
      | LInt is \<Rightarrow> Inr (map int_to_string is)
      | LFlt fs \<Rightarrow> Inr (map (f_to_string F) fs)
      | LObj _ \<Rightarrow> Inl illegal_conversion)"

definition lv_flt_vec :: "fpu \<Rightarrow> lvariant \<Rightarrow> flt_t list res" where
  "lv_flt_vec F v =
     (case v of LFlt fs \<Rightarrow> Inr fs | LUndef \<Rightarrow> Inr []
      | LStr ss \<Rightarrow> mapR (f_stof F) ss
      | LInt is \<Rightarrow> Inr (map (f_of_int F) is)
      | LObj _ \<Rightarrow> Inl illegal_conversion)"

definition lv_obj_vec :: "lvariant \<Rightarrow> json option list res" where
  "lv_obj_vec v =
     (case v of LObj os \<Rightarrow> Inr os | LUndef \<Rightarrow> Inr [] | _ \<Rightarrow> Inl illegal_conversion)"

text \<open>\<^verbatim>\<open>if(list.size()<offset+S) list.resize(offset+S)\<close>\<close>

definition vec_grow :: "'a list \<Rightarrow> nat \<Rightarrow> 'a \<Rightarrow> 'a list" where
  "vec_grow xs n d = xs @ replicate (n - length xs) d"

definition lv_set_int :: "fpu \<Rightarrow> lvariant \<Rightarrow> nat \<Rightarrow> int \<Rightarrow> lvariant res" where
  "lv_set_int F v offset x =
     bindR (lv_int_vec F v) (\<lambda>xs. Inr (LInt ((vec_grow xs (offset + 1) 0)[offset := x])))"

definition lv_set_flt :: "fpu \<Rightarrow> lvariant \<Rightarrow> nat \<Rightarrow> flt_t \<Rightarrow> lvariant res" where
  "lv_set_flt F v offset x =
     bindR (lv_flt_vec F v) (\<lambda>xs. Inr (LFlt ((vec_grow xs (offset + 1) 0)[offset := x])))"

definition lv_set_str :: "fpu \<Rightarrow> lvariant \<Rightarrow> nat \<Rightarrow> string \<Rightarrow> lvariant res" where
  "lv_set_str F v offset x =
     bindR (lv_str_vec F v) (\<lambda>xs. Inr (LStr ((vec_grow xs (offset + 1) [])[offset := x])))"

text \<open>\<^verbatim>\<open>get<JSONPtr>\<close> makes an object for a null pointer.\<close>

definition lv_get_obj :: "lvariant \<Rightarrow> nat \<Rightarrow> lvariant res" where
  "lv_get_obj v offset =
     bindR (lv_obj_vec v) (\<lambda>os.
     let os' = vec_grow os (offset + 1) None
     in Inr (LObj (if os' ! offset = None then os'[offset := Some make_json] else os')))"

definition lv_getSize :: "lvariant \<Rightarrow> nat" where
  "lv_getSize v =
     (case v of LUndef \<Rightarrow> 0 | LObj os \<Rightarrow> length os | LStr ss \<Rightarrow> length ss | LInt is \<Rightarrow> length is
      | LFlt fs \<Rightarrow> length fs)"

section \<open>Objects\<close>

text \<open>\<^verbatim>\<open>_values[name]\<close>, which makes an undefined value for a new name.\<close>

definition json_value :: "json \<Rightarrow> string \<Rightarrow> lvariant" where
  "json_value j name = (case map_of (jvalues j) name of Some v \<Rightarrow> v | None \<Rightarrow> LUndef)"

definition json_put :: "json \<Rightarrow> string \<Rightarrow> lvariant \<Rightarrow> json" where
  "json_put j name v = JSON (smap_set (jvalues j) name v) (jcomments j)"

definition json_set_int :: "fpu \<Rightarrow> json \<Rightarrow> string \<Rightarrow> nat \<Rightarrow> int \<Rightarrow> json res" where
  "json_set_int F j name i x =
     bindR (lv_set_int F (json_value j name) i x) (\<lambda>v. Inr (json_put j name v))"

definition json_set_flt :: "fpu \<Rightarrow> json \<Rightarrow> string \<Rightarrow> nat \<Rightarrow> flt_t \<Rightarrow> json res" where
  "json_set_flt F j name i x =
     bindR (lv_set_flt F (json_value j name) i x) (\<lambda>v. Inr (json_put j name v))"

definition json_set_str :: "fpu \<Rightarrow> json \<Rightarrow> string \<Rightarrow> nat \<Rightarrow> string \<Rightarrow> json res" where
  "json_set_str F j name i x =
     bindR (lv_set_str F (json_value j name) i x) (\<lambda>v. Inr (json_put j name v))"

definition json_get_obj :: "json \<Rightarrow> string \<Rightarrow> nat \<Rightarrow> json res" where
  "json_get_obj j name i =
     bindR (lv_get_obj (json_value j name) i) (\<lambda>v. Inr (json_put j name v))"

text \<open>\<^verbatim>\<open>get<I>(name, offset, size)\<close>: the element, and the object with the list grown.\<close>

definition json_get_int :: "fpu \<Rightarrow> json \<Rightarrow> string \<Rightarrow> nat \<Rightarrow> nat \<Rightarrow> (int \<times> json) res" where
  "json_get_int F j name offset sz =
     bindR (lv_int_vec F (json_value j name)) (\<lambda>xs.
     let xs' = vec_grow xs (offset + max 1 sz) 0
     in Inr (xs' ! offset, json_put j name (LInt xs')))"

definition json_set_obj :: "json \<Rightarrow> string \<Rightarrow> json \<Rightarrow> json res" where
  "json_set_obj j name x =
     bindR (lv_get_obj (json_value j name) 0) (\<lambda>v.
     case v of LObj os \<Rightarrow> Inr (json_put j name (LObj (os[0 := Some x]))) | _ \<Rightarrow> Inl Undefined)"

definition json_getSize :: "json \<Rightarrow> string \<Rightarrow> nat \<times> json" where
  "json_getSize j name = (lv_getSize (json_value j name), json_put j name (json_value j name))"

definition json_getType :: "json \<Rightarrow> string \<Rightarrow> T \<times> json" where
  "json_getType j name = (lv_type (json_value j name), json_put j name (json_value j name))"

definition json_clearProperty :: "json \<Rightarrow> string \<Rightarrow> nat \<times> json" where
  "json_clearProperty j name =
     (case map_of (jvalues j) name of
        Some _ \<Rightarrow> (1, JSON (smap_del (jvalues j) name) (jcomments j))
      | None \<Rightarrow> (0, j))"

definition json_hasProperty :: "json \<Rightarrow> string \<Rightarrow> bool" where
  "json_hasProperty j name \<longleftrightarrow> map_of (jvalues j) name \<noteq> None"

definition json_empty :: "json \<Rightarrow> bool" where
  "json_empty j \<longleftrightarrow> jvalues j = []"

definition json_clear :: "json \<Rightarrow> json" where
  "json_clear j = JSON [] (jcomments j)"

section \<open>Serializing\<close>

text \<open>A list with one null pointer, which no access makes, would crash; it is printed here like the longer lists.\<close>

definition pop_comma :: "string \<Rightarrow> string" where
  "pop_comma s = (if s \<noteq> [] \<and> last s = CHR '','' then butlast s else s)"

definition bracket :: "string \<Rightarrow> string" where
  "bracket items = pop_comma (CHR ''['' # items) @ '']''"

definition pop_trailing :: "string \<Rightarrow> string" where
  "pop_trailing s = rev (dropWhile (\<lambda>c. c = CHR '','' \<or> c = CHR 0x0A) (rev s))"

definition tabs :: "nat \<Rightarrow> string" where "tabs n = replicate n (CHR 0x09)"

text \<open>What the loop of \<^verbatim>\<open>JSON::serialize\<close> appends for one name.\<close>

definition ser_entry :: "nat \<Rightarrow> (string \<times> string) list \<Rightarrow> string \<Rightarrow> string \<Rightarrow> string" where
  "ser_entry pretty cs k n =
     (if n = [] then []
      else
        (if pretty > 0 then
           (case map_of cs k of
              Some cm \<Rightarrow> tabs pretty @ cm @ (if last (tabs pretty @ cm) \<noteq> CHR 0x0A then [CHR 0x0A] else [])
            | None \<Rightarrow> []) @ tabs pretty
         else []) @
        [dquote] @ k @ [dquote] @ '':'' @ n @ '','' @ (if pretty > 0 then [CHR 0x0A] else []))"

definition ser_close :: "nat \<Rightarrow> string \<Rightarrow> string" where
  "ser_close pretty out =
     (if pretty > 0 then pop_trailing out @ [CHR 0x0A] else pop_comma out) @
     tabs (pretty - 1) @ ''}''"

text \<open>The lists of one type of number or string: a single element stands without brackets.\<close>

definition ser_strs :: "string list \<Rightarrow> string" where
  "ser_strs ss = (case ss of [s] \<Rightarrow> quotestring s | _ \<Rightarrow> bracket (concat (map (\<lambda>s. quotestring s @ '','') ss)))"

definition ser_ints :: "int list \<Rightarrow> string" where
  "ser_ints is = (case is of [i] \<Rightarrow> int_to_string i | _ \<Rightarrow> ''['' @ listToString is @ '']'')"

definition ser_flts :: "fpu \<Rightarrow> flt_t list \<Rightarrow> string" where
  "ser_flts F fs =
     (case fs of [f] \<Rightarrow> f_to_string F f
      | _ \<Rightarrow> ''['' @ (let n = concat (map (\<lambda>f. f_to_string F f @ '','') fs) in if n = [] then n else butlast n) @ '']'')"

declare ser_strs_def [simp] ser_ints_def [simp] ser_flts_def [simp]

fun json_serialize :: "fpu \<Rightarrow> nat \<Rightarrow> json \<Rightarrow> string"
  and lv_serialize :: "fpu \<Rightarrow> nat \<Rightarrow> lvariant \<Rightarrow> string"
  and ser_values :: "fpu \<Rightarrow> nat \<Rightarrow> (string \<times> string) list \<Rightarrow> (string \<times> lvariant) list \<Rightarrow> string"
  and ser_objs :: "fpu \<Rightarrow> nat \<Rightarrow> json option list \<Rightarrow> string" where
  "json_serialize F pretty (JSON vs cs) =
     ser_close pretty ((if pretty > 0 then [CHR ''{'', CHR 0x0A] else ''{'') @ ser_values F pretty cs vs)"
| "lv_serialize F pretty LUndef = []"
| "lv_serialize F pretty (LObj [Some j]) = json_serialize F (if pretty > 0 then pretty + 1 else 0) j"
| "lv_serialize F pretty (LObj os) = bracket (ser_objs F (if pretty > 0 then pretty + 1 else 0) os)"
| "lv_serialize F pretty (LStr ss) = ser_strs ss"
| "lv_serialize F pretty (LInt is) = ser_ints is"
| "lv_serialize F pretty (LFlt fs) = ser_flts F fs"
| "ser_values F pretty cs [] = []"
| "ser_values F pretty cs ((k, v) # vs) = ser_entry pretty cs k (lv_serialize F pretty v) @ ser_values F pretty cs vs"
| "ser_objs F pretty [] = []"
| "ser_objs F pretty (None # os) = ''null,'' @ ser_objs F pretty os"
| "ser_objs F pretty (Some j # os) = json_serialize F pretty j @ '','' @ ser_objs F pretty os"

text \<open>\<^verbatim>\<open>_objStor::serialize\<close> by itself.\<close>

definition ser_objlist :: "fpu \<Rightarrow> nat \<Rightarrow> json option list \<Rightarrow> string" where
  "ser_objlist F pretty os =
     (let p = (if pretty > 0 then pretty + 1 else 0) in
      case os of [Some j] \<Rightarrow> json_serialize F p j
      | _ \<Rightarrow> bracket (concat (map (\<lambda>x. case x of Some j \<Rightarrow> json_serialize F p j @ '','' | None \<Rightarrow> ''null,'') os)))"

lemma ser_objs_concat:
  "ser_objs F p os = concat (map (\<lambda>x. case x of Some j \<Rightarrow> json_serialize F p j @ '','' | None \<Rightarrow> ''null,'') os)"
proof (induction os)
  case (Cons x os)
  then show ?case by (cases x) simp_all
qed simp

lemma lv_serialize_obj: "lv_serialize F pretty (LObj os) = ser_objlist F pretty os"
proof (cases "\<exists>j. os = [Some j]")
  case False
  then have "lv_serialize F pretty (LObj os) = bracket (ser_objs F (if pretty > 0 then pretty + 1 else 0) os)"
    by (cases os rule: remdups_adj.cases) (auto split: option.split, (metis option.exhaust lv_serialize.simps(3-))?)
  with False show ?thesis by (auto simp: ser_objlist_def ser_objs_concat Let_def split: list.split option.split)
qed (auto simp: ser_objlist_def)

end
