(* ===== verification/Json_Parse.thy ===== *)
theory Json_Parse
  imports Json
begin

text \<open>
  \<^verbatim>\<open>JSON::unserialize\<close> (\<^verbatim>\<open>src/src/modules/script/JSON.cpp\<close>) over the tokens of the lexer,
  and the round trip of the objects that directories are made of.
\<close>

section \<open>The parser\<close>

text \<open>
  The loop variables. The stacks have their \<^verbatim>\<open>back()\<close> at the head; an object on the stack
  is named by the path of property names and list positions that leads to it.
\<close>

type_synonym jpath = "(string \<times> nat) list"

record jparse =
  jp_root :: json
  jp_objStack :: "jpath list"
  jp_nameStack :: "(string \<times> nat \<times> bool) list"
  jp_isValue :: bool
  jp_negate :: bool
  jp_didCloseObj :: bool

fun upd_path :: "jpath \<Rightarrow> (json \<Rightarrow> json res) \<Rightarrow> json \<Rightarrow> json res" where
  "upd_path [] f j = f j"
| "upd_path ((name, i) # p) f j =
     (case json_value j name of
        LObj os \<Rightarrow>
          if i < length os \<and> os ! i \<noteq> None
          then bindR (upd_path p f (the (os ! i))) (\<lambda>x. Inr (json_put j name (LObj (os[i := Some x]))))
          else Inl Undefined
      | _ \<Rightarrow> Inl Undefined)"

definition vec_back :: "'a list \<Rightarrow> 'a res" where
  "vec_back xs = (case xs of [] \<Rightarrow> Inl Undefined | x # _ \<Rightarrow> Inr x)"

definition upd_back :: "jparse \<Rightarrow> (json \<Rightarrow> json res) \<Rightarrow> jparse res" where
  "upd_back s f =
     bindR (vec_back (jp_objStack s)) (\<lambda>p.
     bindR (upd_path p f (jp_root s)) (\<lambda>r. Inr (s\<lparr>jp_root := r\<rparr>)))"

definition json_comment :: "string \<Rightarrow> string \<Rightarrow> json \<Rightarrow> json" where
  "json_comment name c j = JSON (jvalues j) (smap_set (jcomments j) name c)"

text \<open>A string or number: the value for the name on top, or a new name.\<close>

definition parse_value :: "fpu \<Rightarrow> token \<Rightarrow> jparse \<Rightarrow> jparse res" where
  "parse_value F t s =
     bindR
      (if jp_isValue s then
         (if tok_type t = TT_string then
            bindR (vec_back (jp_nameStack s)) (\<lambda>(name, idx, _).
            upd_back s (\<lambda>j. json_set_str F j name idx (tok_content t)))
          else if CHR ''.'' \<in> set (tok_content t) then
            bindR (f_stof F (tok_content t)) (\<lambda>v.
            bindR (vec_back (jp_nameStack s)) (\<lambda>(name, idx, _).
            upd_back s (\<lambda>j. json_set_flt F j name idx (if jp_negate s then f_neg F v else v))))
          else
            bindR (c_stoi (tok_content t)) (\<lambda>v.
            bindR (vec_back (jp_nameStack s)) (\<lambda>(name, idx, _).
            upd_back s (\<lambda>j. json_set_int F j name idx (if jp_negate s then - v else v)))))
       else
         (let s' = s\<lparr>jp_nameStack := (tok_content t, 0, False) # jp_nameStack s\<rparr>
          in if tok_comment t \<noteq> [] then upd_back s' (\<lambda>j. Inr (json_comment (tok_content t) (tok_comment t) j))
             else Inr s'))
      (\<lambda>s'. Inr (s'\<lparr>jp_negate := False\<rparr>))"

text \<open>One round: \<open>Inl\<close> the finished object or \<open>Inr\<close> the next state.\<close>

definition parse_token :: "fpu \<Rightarrow> token \<Rightarrow> jparse \<Rightarrow> (json + jparse) res" where
  "parse_token F t s =
     (case tok_type t of
        TT_compound_l \<Rightarrow>
          bindR (if jp_objStack s = [] then Inr (s\<lparr>jp_objStack := [[]]\<rparr>)
                 else
                   bindR (assertR (jp_nameStack s \<noteq> [])) (\<lambda>_.
                   case hd (jp_nameStack s) of (name, idx, _) \<Rightarrow>
                     bindR (upd_back s (\<lambda>j. json_get_obj j name idx)) (\<lambda>s'.
                     Inr (s'\<lparr>jp_objStack := (hd (jp_objStack s) @ [(name, idx)]) # jp_objStack s\<rparr>))))
                (\<lambda>s'. Inr (Inr (s'\<lparr>jp_isValue := False\<rparr>)))
      | TT_compound_r \<Rightarrow>
          bindR (assertR (jp_objStack s \<noteq> [])) (\<lambda>_.
          if tl (jp_objStack s) = [] then Inr (Inl (jp_root s))
          else
            bindR (assertR (jp_nameStack s \<noteq> [])) (\<lambda>_.
            let s' = s\<lparr>jp_objStack := tl (jp_objStack s)\<rparr>
            in Inr (Inr (if \<not> snd (snd (hd (jp_nameStack s)))
                 then s'\<lparr>jp_isValue := False, jp_nameStack := tl (jp_nameStack s), jp_didCloseObj := True\<rparr>
                 else s'))))
      | TT_op O_op_sub \<Rightarrow> Inr (Inr (s\<lparr>jp_negate := True\<rparr>))
      | TT_string \<Rightarrow> bindR (parse_value F t s) (\<lambda>s'. Inr (Inr s'))
      | TT_number \<Rightarrow> bindR (parse_value F t s) (\<lambda>s'. Inr (Inr s'))
      | TT_jsonassign \<Rightarrow> Inr (Inr (s\<lparr>jp_isValue := True\<rparr>))
      | TT_seperator \<Rightarrow>
          bindR (assertR (jp_nameStack s \<noteq> [])) (\<lambda>_.
          case hd (jp_nameStack s) of (name, idx, isArray) \<Rightarrow>
            let s' = (if isArray then s\<lparr>jp_nameStack := (name, idx + 1, isArray) # tl (jp_nameStack s)\<rparr>
                      else s\<lparr>jp_isValue := False,
                             jp_nameStack := (if jp_didCloseObj s then jp_nameStack s else tl (jp_nameStack s))\<rparr>)
            in Inr (Inr (s'\<lparr>jp_didCloseObj := False\<rparr>)))
      | TT_subscr_l \<Rightarrow>
          bindR (assertR (jp_nameStack s \<noteq> [])) (\<lambda>_.
          case hd (jp_nameStack s) of (name, idx, _) \<Rightarrow>
            Inr (Inr (s\<lparr>jp_nameStack := (name, idx, True) # tl (jp_nameStack s)\<rparr>)))
      | TT_subscr_r \<Rightarrow>
          bindR (assertR (jp_nameStack s \<noteq> [])) (\<lambda>_.
          case hd (jp_nameStack s) of (name, idx, _) \<Rightarrow>
            Inr (Inr (s\<lparr>jp_nameStack := (name, idx, False) # tl (jp_nameStack s)\<rparr>)))
      | TT_kw KW_null \<Rightarrow> Inr (Inr s)
      | _ \<Rightarrow> Inl (StdExn ''logic_error''))"

fun parse_tokens :: "fpu \<Rightarrow> token list \<Rightarrow> jparse \<Rightarrow> json res" where
  "parse_tokens F [] s = Inl AssertFail"
| "parse_tokens F (t # ts) s =
     bindR (parse_token F t s) (\<lambda>r. case r of Inl j \<Rightarrow> Inr j | Inr s' \<Rightarrow> parse_tokens F ts s')"

definition jparse_init :: "json \<Rightarrow> jparse" where
  "jparse_init j =
     \<lparr>jp_root = json_clear j, jp_objStack = [], jp_nameStack = [], jp_isValue = False,
      jp_negate = False, jp_didCloseObj = False\<rparr>"

definition json_unserialize :: "fpu \<Rightarrow> json \<Rightarrow> string \<Rightarrow> json res" where
  "json_unserialize F j s = parse_tokens F (lexer s False) (jparse_init j)"

section \<open>Lexing an object of numbers\<close>

text \<open>A name that the serializer writes as it is and the lexer reads back as it is.\<close>

definition plain_name :: "string \<Rightarrow> bool" where
  "plain_name s \<longleftrightarrow> dquote \<notin> set s \<and> bslash \<notin> set s \<and> CHR 0xFF \<notin> set s"

lemma plain_name_Cons [simp]:
  "plain_name (c # cs) \<longleftrightarrow> c \<noteq> dquote \<and> c \<noteq> bslash \<and> c \<noteq> CHR 0xFF \<and> plain_name cs"
  by (auto simp: plain_name_def)

lemma lex_string_plain:
  assumes "plain_name cs" "c \<noteq> dquote" "c \<noteq> bslash" "this \<noteq> bslash"
  shows "lex_string dquote st this (Some c) (cs @ dquote # r) = (st @ c # cs, r)"
  using assms
proof (induction cs arbitrary: c st this)
  case Nil
  then show ?case by (simp add: Let_def)
next
  case (Cons d ds)
  have "lex_string dquote (st @ [c]) c (Some d) (ds @ dquote # r) = ((st @ [c]) @ d # ds, r)"
    using Cons.prems by (intro Cons.IH) simp_all
  then show ?case
    using Cons.prems by (subst append_Cons, subst lex_string.simps(2)) (simp add: Let_def del: lex_string.simps)
qed

abbreviation str_tok :: "string \<Rightarrow> token" where
  "str_tok s \<equiv> mk_token s TT_string [] False"

lemma skip_ws_id: "\<not> c_isspace c \<Longrightarrow> skip_ws (Some c) r = (Some c, r)"
  by (cases r) simp_all

lemma lex_loop_step:
  "\<not> c_isspace c \<Longrightarrow> lex_step tc cmt c r = (t, cmt', l', r') \<Longrightarrow>
     lex_loop tc cmt (Some c) r = (case t of None \<Rightarrow> [] | Some t \<Rightarrow> [t]) @ lex_loop tc cmt' l' r'"
  by (subst lex_loop.simps) (simp add: skip_ws_id)

lemma NextC_Cons: "d \<noteq> CHR 0xFF \<Longrightarrow> NextC (d # ds) = (Some d, ds)"
  by (simp add: NextC_def)

lemma lex_key:
  assumes "plain_name k" "d \<noteq> CHR 0xFF"
  shows "lex_loop tc [] (Some dquote) (k @ dquote # d # r) = str_tok k # lex_loop tc [] (Some d) r"
proof -
  have "lex_step tc [] dquote (k @ dquote # d # r) = (Some (str_tok k), [], Some d, r)"
  proof (cases k)
    case Nil
    then show ?thesis using assms(2) by (simp add: lex_step_def NextC_def)
  next
    case (Cons c cs)
    then have "lex_string dquote [] (CHR 0x00) (Some c) (cs @ dquote # d # r) = (c # cs, d # r)"
      using assms(1) lex_string_plain [of cs c "CHR 0x00" "[]"] by simp
    then show ?thesis
      using assms Cons by (simp add: lex_step_def NextC_def del: lex_string.simps)
  qed
  then show ?thesis by (subst lex_loop_step) (auto simp: c_isspace_def)
qed

lemma operators_two:
  assumes "map_of operators [c, x] = Some t"
  shows "c \<in> set ''-<>!=&|+/*%^''"
proof -
  have "list_all (\<lambda>(k, t). length k = 2 \<longrightarrow> hd k \<in> set ''-<>!=&|+/*%^'') operators"
    by (simp add: operators_def)
  moreover have "([c, x], t) \<in> set operators" using assms by (rule map_of_SomeD)
  ultimately show ?thesis by (auto simp: list_all_iff)
qed

text \<open>Punctuation that starts no operator of two characters with what follows.\<close>

lemma lex_punct:
  assumes "c \<in> {CHR ''{'', CHR ''}'', CHR '':'', CHR '',''}" "d \<noteq> CHR 0xFF"
    and "map_of operators [c] = Some t" "t \<noteq> TT_identifier" "t \<noteq> TT_string"
  shows "lex_loop tc [] (Some c) (d # r) = mk_token [c] t [] False # lex_loop tc [] (Some d) r"
    "lex_loop tc [] (Some c) [] = [mk_token [c] t [] False, mk_token [] TT_eof [] False]"
proof -
  have op: "map_of operators [c, x] = None" for x
  proof (rule ccontr)
    assume "map_of operators [c, x] \<noteq> None"
    then obtain u where "map_of operators [c, x] = Some u" by blast
    from operators_two [OF this] assms(1) show False by auto
  qed
  have c: "\<not> c_isspace c" "\<not> c_isalpha c" "\<not> c_isdigit c"
    "c \<noteq> dquote" "c \<noteq> CHR 0x27" "c \<noteq> CHR ''#''" "c \<noteq> CHR ''$''" "c \<noteq> CHR ''_''" "c \<noteq> CHR ''.''" "c \<noteq> CHR ''/''"
    using assms(1) by (auto simp: c_isspace_def c_isalpha_def c_isdigit_def c_isupper_def c_islower_def)
  have "lex_step tc [] c (d # r) = (Some (mk_token [c] t [] False), [], Some d, r)"
    using c assms(2,3) op by (simp add: lex_step_def NextC_def)
  then show "lex_loop tc [] (Some c) (d # r) = mk_token [c] t [] False # lex_loop tc [] (Some d) r"
    using c(1) by (simp add: lex_loop_step)
  have "lex_step tc [] c [] = (Some (mk_token [c] t [] False), [], None, [])"
    using c assms(3) op by (simp add: lex_step_def NextC_def)
  then show "lex_loop tc [] (Some c) [] = [mk_token [c] t [] False, mk_token [] TT_eof [] False]"
    using c(1) by (simp add: lex_loop_step lex_loop.simps [of tc "[]" None])
qed

lemma lex_while_all:
  assumes "\<forall>x \<in> set (c # cs). P x" "\<not> P e" "\<forall>x \<in> set cs. x \<noteq> CHR 0xFF" "e \<noteq> CHR 0xFF"
  shows "lex_while P st (Some c) (cs @ e # r) = (st @ c # cs, Some e, r)"
  using assms
proof (induction cs arbitrary: c st)
  case Nil
  then show ?case by simp
next
  case (Cons d ds)
  then show ?case by simp
qed

lemma digit_not_ff: "c_isdigit c \<Longrightarrow> c \<noteq> CHR 0xFF"
  by (auto simp: c_isdigit_def)

lemma digit_class:
  "c_isdigit c \<Longrightarrow> c \<noteq> dquote \<and> c \<noteq> CHR 0x27 \<and> c \<noteq> CHR ''#'' \<and> c \<noteq> CHR ''$'' \<and> c \<noteq> CHR ''_'' \<and> \<not> c_isalpha c"
  by (auto simp: c_isdigit_def c_isalpha_def c_isupper_def c_islower_def)

lemma lex_number:
  assumes n: "nat_to_string n = c # cs" and e: "e = CHR '','' \<or> e = CHR ''}''"
  shows "lex_loop tc [] (Some c) (cs @ e # r) =
    mk_token (nat_to_string n) TT_number [] False # lex_loop tc [] (Some e) r"
proof -
  have d: "\<forall>x \<in> set (c # cs). c_isdigit x" using nat_to_string_digits [of _ n] n by auto
  then have "\<forall>x \<in> set cs. x \<noteq> CHR 0xFF" using digit_not_ff by auto
  moreover have "\<not> c_isdigit e" "e \<noteq> CHR ''.''" "e \<noteq> CHR 0xFF" using e by (auto simp: c_isdigit_def)
  ultimately have w: "lex_while (\<lambda>d. c_isdigit d \<or> d = CHR ''.'') [] (Some c) (cs @ e # r) = (c # cs, Some e, r)"
    using d by (subst lex_while_all) auto
  have c: "c_isdigit c" using d by simp
  then have "lex_step tc [] c (cs @ e # r) = (Some (mk_token (c # cs) TT_number [] False), [], Some e, r)"
    unfolding lex_step_def w using digit_class [OF c] by simp
  then show ?thesis using digit_not_sign [OF c] by (simp add: lex_loop_step n)
qed

section \<open>Directories\<close>

text \<open>A directory is an object that maps names to node numbers.\<close>

definition dir_json :: "(string \<times> nat) list \<Rightarrow> json" where
  "dir_json d = JSON (map (\<lambda>(k, n). (k, LInt [int n])) d) []"

definition dir_entry :: "string \<times> nat \<Rightarrow> string" where
  "dir_entry e = [dquote] @ fst e @ [dquote] @ '':'' @ nat_to_string (snd e)"

fun dir_text :: "(string \<times> nat) list \<Rightarrow> string" where
  "dir_text [] = []"
| "dir_text [e] = dir_entry e"
| "dir_text (e # es) = dir_entry e @ CHR '','' # dir_text es"

lemma ser_values_dir:
  "ser_values F 0 cs (map (\<lambda>(k, n). (k, LInt [int n])) d) = concat (map (\<lambda>e. dir_entry e @ '','') d)"
  by (induction d) (auto simp: ser_entry_def dir_entry_def int_to_string_def)

lemma dir_text_concat: "d \<noteq> [] \<Longrightarrow> concat (map (\<lambda>e. dir_entry e @ '','') d) = dir_text d @ '',''"
  by (induction d rule: dir_text.induct) auto

lemma serialize_dir:
  assumes "d \<noteq> []"
  shows "json_serialize F 0 (dir_json d) = CHR ''{'' # dir_text d @ ''}''"
  by (simp add: dir_json_def ser_values_dir dir_text_concat [OF assms] ser_close_def pop_comma_def tabs_def
      butlast_append)

fun dir_tokens :: "(string \<times> nat) list \<Rightarrow> token list" where
  "dir_tokens [] = []"
| "dir_tokens [(k, n)] =
     [str_tok k, mk_token '':'' TT_jsonassign [] False, mk_token (nat_to_string n) TT_number [] False]"
| "dir_tokens ((k, n) # es) =
     str_tok k # mk_token '':'' TT_jsonassign [] False # mk_token (nat_to_string n) TT_number [] False #
     mk_token '','' TT_seperator [] False # dir_tokens es"

lemma op_single:
  "map_of operators ''{'' = Some TT_compound_l" "map_of operators ''}'' = Some TT_compound_r"
  "map_of operators '':'' = Some TT_jsonassign" "map_of operators '','' = Some TT_seperator"
  by (simp_all add: operators_def)

lemma lex_entry:
  assumes "plain_name k" "e = CHR '','' \<or> e = CHR ''}''"
  shows "lex_loop tc [] (Some dquote) (tl (dir_entry (k, n)) @ e # r) =
     str_tok k # mk_token '':'' TT_jsonassign [] False # mk_token (nat_to_string n) TT_number [] False #
     lex_loop tc [] (Some e) r"
proof -
  obtain c cs where n: "nat_to_string n = c # cs" by (cases "nat_to_string n") auto
  have ff: "c \<noteq> CHR 0xFF" using nat_to_string_digits [of c n] n digit_not_ff by simp
  have "lex_loop tc [] (Some dquote) (k @ dquote # CHR '':'' # (c # cs @ e # r)) =
     str_tok k # lex_loop tc [] (Some (CHR '':'')) (c # cs @ e # r)"
    by (rule lex_key [OF assms(1)]) simp
  also have "lex_loop tc [] (Some (CHR '':'')) (c # cs @ e # r) =
     mk_token '':'' TT_jsonassign [] False # lex_loop tc [] (Some c) (cs @ e # r)"
    by (rule lex_punct(1)) (use ff op_single in auto)
  also note lex_number [OF n assms(2)]
  finally show ?thesis by (simp add: dir_entry_def n)
qed

lemma dir_entry_Cons: "dir_entry e = dquote # tl (dir_entry e)"
  by (simp add: dir_entry_def)

lemma dir_text_Cons: "d \<noteq> [] \<Longrightarrow> dir_text d = dquote # tl (dir_text d)"
  by (cases d rule: dir_text.cases) (simp_all add: dir_entry_Cons [of "hd d"] dir_entry_def)

lemma lex_dir:
  assumes "d \<noteq> []" "\<forall>(k, n) \<in> set d. plain_name k"
  shows "lex_loop tc [] (Some dquote) (tl (dir_text d) @ ''}'') =
     dir_tokens d @ [mk_token ''}'' TT_compound_r [] False, mk_token [] TT_eof [] False]"
  using assms
proof (induction d rule: dir_tokens.induct)
  case (2 k n)
  then show ?case
    using lex_entry [of k "CHR ''}''" tc n "[]"] lex_punct(2) [of "CHR ''}''" "CHR '' ''" TT_compound_r tc] op_single
    by simp
next
  case (3 k n e es)
  let ?d = "e # es"
  have t: "dir_text ?d = dquote # tl (dir_text ?d)" by (rule dir_text_Cons) simp
  have "lex_loop tc [] (Some dquote) (tl (dir_entry (k, n)) @ CHR '','' # (dir_text ?d @ ''}'')) =
     str_tok k # mk_token '':'' TT_jsonassign [] False # mk_token (nat_to_string n) TT_number [] False #
     lex_loop tc [] (Some (CHR '','')) (dir_text ?d @ ''}'')"
    by (rule lex_entry) (use 3 in auto)
  also have "lex_loop tc [] (Some (CHR '','')) (dir_text ?d @ ''}'') =
     mk_token '','' TT_seperator [] False # lex_loop tc [] (Some dquote) (tl (dir_text ?d) @ ''}'')"
    by (subst t, subst append_Cons, rule lex_punct(1)) (use op_single in auto)
  finally show ?case
    using 3 dir_entry_Cons [of "(k, n)"] by (simp add: dir_entry_def)
qed simp

end
