(* ===== verification/Json_Props.thy ===== *)
theory Json_Props
  imports Json_Parse
begin

text \<open>
  What the directory format can and cannot carry: the round trip of a directory with plain
  names and node numbers below \<open>2\<^sup>3\<^sup>1\<close>, and the names and numbers for which it fails.
\<close>

text \<open>An arithmetic unit without floats, for the witnesses.\<close>

definition sample_fpu :: fpu where
  "sample_fpu = \<lparr>f_stof = (\<lambda>_. Inl (StdExn ''invalid_argument'')), f_to_string = (\<lambda>_. ''0.000000''),
     f_neg = (\<lambda>x. x), f_of_int = of_int, f_to_int = uint\<rparr>"

section \<open>Parsing an object of numbers\<close>

abbreviation pstate :: "json \<Rightarrow> (string \<times> nat \<times> bool) list \<Rightarrow> bool \<Rightarrow> jparse" where
  "pstate r names v \<equiv>
     \<lparr>jp_root = r, jp_objStack = [[]], jp_nameStack = names, jp_isValue = v, jp_negate = False,
      jp_didCloseObj = False\<rparr>"

lemma mk_token_simps [simp]:
  "tok_content (mk_token c t cm w) = c" "tok_type (mk_token c t cm w) = t"
  "tok_comment (mk_token c t [] w) = []"
  by (simp_all add: mk_token_def)

lemma parse_name:
  "parse_token F (str_tok k) (pstate r [] False) = Inr (Inr (pstate r [(k, 0, False)] False))"
  by (simp add: parse_token_def parse_value_def Let_def)

lemma parse_assign:
  "parse_token F (mk_token c TT_jsonassign [] w) (pstate r names v) = Inr (Inr (pstate r names True))"
  by (simp add: parse_token_def)

lemma no_dot: "CHR ''.'' \<notin> set (nat_to_string n)"
  using nat_to_string_digits [of "CHR ''.''" n] by (auto simp: c_isdigit_def)

lemma parse_number:
  assumes "n < 2 ^ 31" "json_value r k = LUndef"
  shows "parse_token F (mk_token (nat_to_string n) TT_number [] w) (pstate r [(k, 0, False)] True) =
    Inr (Inr (pstate (json_put r k (LInt [int n])) [(k, 0, False)] True))"
  using assms no_dot [of n]
  by (simp add: parse_token_def parse_value_def stoi_nat_to_string vec_back_def upd_back_def json_set_int_def
      lv_set_int_def lv_int_vec_def vec_grow_def)

lemma parse_number_big:
  assumes "2 ^ 31 \<le> n"
  shows "parse_token F (mk_token (nat_to_string n) TT_number [] w) (pstate r [(k, 0, False)] True) =
    Inl (StdExn ''out_of_range'')"
  using assms no_dot [of n] by (simp add: parse_token_def parse_value_def stoi_nat_to_string)

lemma parse_sep:
  "parse_token F (mk_token c TT_seperator [] w) (pstate r [(k, i, False)] v) = Inr (Inr (pstate r [] False))"
  by (simp add: parse_token_def Let_def)

lemma parse_close:
  "parse_token F (mk_token c TT_compound_r [] w) (pstate r names v) = Inr (Inl r)"
  by (simp add: parse_token_def)

lemma parse_open:
  "parse_token F (mk_token c TT_compound_l [] w) (jparse_init j) = Inr (Inr (pstate (json_clear j) [] False))"
  by (simp add: parse_token_def jparse_init_def)

section \<open>Sorted maps\<close>

lemma str_less_irrefl [simp]: "\<not> str_less s s"
  by (induction s) auto

lemma str_less_asym: "str_less s t \<Longrightarrow> \<not> str_less t s"
  by (induction s t rule: str_less.induct) auto

definition smap_sorted :: "(string \<times> 'v) list \<Rightarrow> bool" where
  "smap_sorted m \<longleftrightarrow> sorted_wrt (\<lambda>a b. str_less (fst a) (fst b)) m"

lemma smap_set_last:
  "\<forall>e \<in> set m. str_less (fst e) k \<Longrightarrow> smap_set m k v = m @ [(k, v)]"
  by (induction m k v rule: smap_set.induct) (auto dest: str_less_asym)

lemma map_of_last: "\<forall>e \<in> set m. str_less (fst e) k \<Longrightarrow> map_of m k = None"
  by (induction m) auto

text \<open>Insertion and deletion keep a map sorted and act on it as on a finite map.\<close>

lemma str_less_total: "str_less s t \<or> s = t \<or> str_less t s"
proof (induction s t rule: str_less.induct)
  case (4 c cs d ds)
  have "(of_char c :: nat) = of_char d \<Longrightarrow> c = d" by (metis char_of_char)
  with 4 show ?case by auto
qed auto

lemma str_less_trans: "str_less a b \<Longrightarrow> str_less b c \<Longrightarrow> str_less a c"
proof (induction a b arbitrary: c rule: str_less.induct)
  case (2 d ds)
  then show ?case by (cases c) auto
next
  case (4 x xs y ys)
  then show ?case by (cases c) (auto intro: less_trans)
qed auto

lemma smap_set_map_of: "smap_sorted m \<Longrightarrow> map_of (smap_set m k v) = (map_of m)(k \<mapsto> v)"
proof (induction m k v rule: smap_set.induct)
  case (2 k' v' m k v)
  have "map_of m k = None" if "str_less k k'" "k \<noteq> k'"
  proof -
    have "\<forall>e \<in> set m. fst e \<noteq> k"
      using 2(2) that str_less_asym by (auto simp: smap_sorted_def)
    then show ?thesis by (auto simp: map_of_eq_None_iff)
  qed
  with 2 show ?case by (auto simp: fun_eq_iff smap_sorted_def)
qed simp

lemma smap_set_keys: "fst ` set (smap_set m k v) = insert k (fst ` set m)"
  by (induction m k v rule: smap_set.induct) auto

lemma smap_set_sorted: "smap_sorted m \<Longrightarrow> smap_sorted (smap_set m k v)"
proof (induction m k v rule: smap_set.induct)
  case (2 k' v' m k v)
  have m: "smap_sorted m" "\<forall>e \<in> set m. str_less k' (fst e)" using 2(2) by (auto simp: smap_sorted_def)
  show ?case
  proof (cases "k = k'")
    case True
    then show ?thesis using 2(2) by (simp add: smap_sorted_def)
  next
    case False
    show ?thesis
    proof (cases "str_less k k'")
      case True
      then show ?thesis using False m 2(2) by (auto simp: smap_sorted_def intro: str_less_trans)
    next
      case no: False
      then have k: "str_less k' k" using False str_less_total by blast
      have "\<forall>x \<in> fst ` set (smap_set m k v). str_less k' x"
        unfolding smap_set_keys using k m(2) by auto
      then show ?thesis
        using False no 2(1) [OF False no m(1)] by (auto simp: smap_sorted_def)
    qed
  qed
qed (simp add: smap_sorted_def)

lemma smap_del_map_of: "map_of (smap_del m k) = (map_of m)(k := None)"
  by (induction m) (auto simp: smap_del_def fun_eq_iff)

lemma smap_del_sorted: "smap_sorted m \<Longrightarrow> smap_sorted (smap_del m k)"
  by (simp add: smap_sorted_def smap_del_def sorted_wrt_filter)

section \<open>The round trip\<close>

lemma parse_dir:
  assumes "d \<noteq> []" "\<forall>e \<in> set d. snd e < 2 ^ 31" "smap_sorted (d0 @ d)"
  shows "parse_tokens F (dir_tokens d @ mk_token ''}'' TT_compound_r [] False # ts)
      (pstate (dir_json d0) [] False) = Inr (dir_json (d0 @ d))"
  using assms
proof (induction d arbitrary: d0 rule: dir_tokens.induct)
  case (2 k n)
  have less: "\<forall>e \<in> set d0. str_less (fst e) k"
    using 2(3) by (auto simp: smap_sorted_def sorted_wrt_append)
  then have "map_of (map (\<lambda>(k, n). (k, LInt [int n])) d0) k = None"
    by (intro map_of_last) auto
  then have u: "json_value (dir_json d0) k = LUndef" by (simp add: json_value_def dir_json_def)
  have "smap_set (map (\<lambda>(k, n). (k, LInt [int n])) d0) k (LInt [int n]) =
     map (\<lambda>(k, n). (k, LInt [int n])) d0 @ [(k, LInt [int n])]"
    by (rule smap_set_last) (use less in auto)
  then have p: "json_put (dir_json d0) k (LInt [int n]) = dir_json (d0 @ [(k, n)])"
    by (simp add: json_put_def dir_json_def)
  show ?case using 2(2) u p by (simp add: parse_name parse_assign parse_number parse_close)
next
  case (3 k n e es)
  have less: "\<forall>e \<in> set d0. str_less (fst e) k"
    using 3(4) by (auto simp: smap_sorted_def sorted_wrt_append)
  then have "map_of (map (\<lambda>(k, n). (k, LInt [int n])) d0) k = None"
    by (intro map_of_last) auto
  then have u: "json_value (dir_json d0) k = LUndef" by (simp add: json_value_def dir_json_def)
  have "smap_set (map (\<lambda>(k, n). (k, LInt [int n])) d0) k (LInt [int n]) =
     map (\<lambda>(k, n). (k, LInt [int n])) d0 @ [(k, LInt [int n])]"
    by (rule smap_set_last) (use less in auto)
  then have p: "json_put (dir_json d0) k (LInt [int n]) = dir_json (d0 @ [(k, n)])"
    by (simp add: json_put_def dir_json_def)
  have "parse_tokens F (dir_tokens (e # es) @ mk_token ''}'' TT_compound_r [] False # ts)
      (pstate (dir_json (d0 @ [(k, n)])) [] False) = Inr (dir_json ((d0 @ [(k, n)]) @ e # es))"
    using 3 by (intro 3(1)) auto
  then show ?case using 3(3) u p by (simp add: parse_name parse_assign parse_number parse_sep)
qed simp

lemma lex_open: "d \<noteq> [] \<Longrightarrow> lexer (CHR ''{'' # dir_text d @ ''}'') False =
    mk_token ''{'' TT_compound_l [] False # lex_loop False [] (Some dquote) (tl (dir_text d) @ ''}'')"
proof -
  assume d: "d \<noteq> []"
  have "skip_ws (Some (CHR '' '')) (CHR ''{'' # r) = (Some (CHR ''{''), r)" for r
    by (cases r) (simp_all add: c_isspace_def)
  then have sp: "lex_loop False [] (Some (CHR '' '')) (CHR ''{'' # r) = lex_loop False [] (Some (CHR ''{'')) r" for r
    by (subst lex_loop.simps, subst (2) lex_loop.simps) (simp add: skip_ws_id c_isspace_def)
  show ?thesis
    unfolding lexer_def sp
    by (subst dir_text_Cons [OF d], subst append_Cons, rule lex_punct(1)) (use op_single in auto)
qed

lemma unserialize_dir:
  assumes "d \<noteq> []" "smap_sorted d" "\<forall>(k, n) \<in> set d. plain_name k \<and> n < 2 ^ 31" "jcomments j = []"
  shows "json_unserialize F j (json_serialize F 0 (dir_json d)) = Inr (dir_json d)"
proof -
  have c: "json_clear j = dir_json []" using assms(4) by (simp add: json_clear_def dir_json_def)
  have "parse_tokens F (dir_tokens d @ mk_token ''}'' TT_compound_r [] False # [mk_token [] TT_eof [] False])
      (pstate (dir_json []) [] False) = Inr (dir_json ([] @ d))"
    by (rule parse_dir) (use assms in auto)
  then show ?thesis
    using lex_dir [OF assms(1), of False] assms(3)
    by (simp add: json_unserialize_def serialize_dir [OF assms(1)] lex_open [OF assms(1)] parse_open c
        case_prod_unfold)
qed

text \<open>
  A directory with plain names and node numbers below \<open>2\<^sup>3\<^sup>1\<close> is read back as it was written.
\<close>

theorem json_dir_roundtrip:
  assumes "d \<noteq> []" "smap_sorted d" "\<forall>(k, n) \<in> set d. plain_name k \<and> n < 2 ^ 31" "jcomments j = []"
  shows "json_unserialize F j (json_serialize F 0 (dir_json d)) = Inr (dir_json d)"
  by (rule unserialize_dir [OF assms])

theorem json_dir_roundtrip_witness:
  "json_unserialize sample_fpu make_json (json_serialize sample_fpu 0 (dir_json [(''a b'', 256), (''log'', 511)])) =
     Inr (dir_json [(''a b'', 256), (''log'', 511)])"
  by (rule json_dir_roundtrip) (auto simp: smap_sorted_def plain_name_def make_json_def)

lemma parse_dir_prefix:
  assumes "\<forall>e \<in> set d. snd e < 2 ^ 31" "smap_sorted (d0 @ d)" "t \<noteq> []"
  shows "parse_tokens F (dir_tokens (d @ t) @ ts) (pstate (dir_json d0) [] False) =
     parse_tokens F (dir_tokens t @ ts) (pstate (dir_json (d0 @ d)) [] False)"
  using assms
proof (induction d arbitrary: d0)
  case (Cons e d)
  obtain k n where e: "e = (k, n)" by (cases e)
  obtain f es where dt: "d @ t = f # es" using Cons(4) by (cases "d @ t") auto
  have less: "\<forall>e \<in> set d0. str_less (fst e) k"
    using Cons(3) by (auto simp: smap_sorted_def sorted_wrt_append e)
  then have "map_of (map (\<lambda>(k, n). (k, LInt [int n])) d0) k = None"
    by (intro map_of_last) auto
  then have u: "json_value (dir_json d0) k = LUndef" by (simp add: json_value_def dir_json_def)
  have "smap_set (map (\<lambda>(k, n). (k, LInt [int n])) d0) k (LInt [int n]) =
     map (\<lambda>(k, n). (k, LInt [int n])) d0 @ [(k, LInt [int n])]"
    by (rule smap_set_last) (use less in auto)
  then have p: "json_put (dir_json d0) k (LInt [int n]) = dir_json (d0 @ [(k, n)])"
    by (simp add: json_put_def dir_json_def)
  have "parse_tokens F (dir_tokens ((e # d) @ t) @ ts) (pstate (dir_json d0) [] False) =
     parse_tokens F (dir_tokens (d @ t) @ ts) (pstate (dir_json (d0 @ [(k, n)])) [] False)"
    using Cons(2) u p by (simp add: e dt parse_name parse_assign parse_number parse_sep)
  also have "\<dots> = parse_tokens F (dir_tokens t @ ts) (pstate (dir_json ((d0 @ [(k, n)]) @ d)) [] False)"
    using Cons(2,3,4) by (intro Cons.IH) (auto simp: e)
  finally show ?case by (simp add: e)
qed simp

text \<open>
  C13: a node number of \<open>2\<^sup>3\<^sup>1\<close> or more makes the directory unreadable, since numbers are read
  with \<^verbatim>\<open>std::stoi\<close>.
\<close>

theorem json_dir_big_node:
  assumes "smap_sorted d" "\<forall>(k, n) \<in> set (d @ (k, n) # d'). plain_name k"
    and "\<forall>(k, n) \<in> set d. n < 2 ^ 31" "2 ^ 31 \<le> n" "jcomments j = []"
  shows "json_unserialize F j (json_serialize F 0 (dir_json (d @ (k, n) # d'))) =
    Inl (StdExn ''out_of_range'')"
proof -
  let ?d = "d @ (k, n) # d'"
  have ne: "?d \<noteq> []" by simp
  have c: "json_clear j = dir_json []" using assms(5) by (simp add: json_clear_def dir_json_def)
  have "parse_tokens F (dir_tokens ?d @ ts) (pstate (dir_json []) [] False) =
     parse_tokens F (dir_tokens ((k, n) # d') @ ts) (pstate (dir_json ([] @ d)) [] False)" for ts
    by (rule parse_dir_prefix) (use assms in auto)
  also have "\<dots> ts = Inl (StdExn ''out_of_range'')" for ts
    using assms(4) by (cases d') (simp_all add: parse_name parse_assign parse_number_big)
  finally have "parse_tokens F (dir_tokens ?d @ ts) (pstate (dir_json []) [] False) =
     Inl (StdExn ''out_of_range'')" for ts .
  then show ?thesis
    using lex_dir [OF ne, of False] assms(2)
    by (simp add: json_unserialize_def serialize_dir [OF ne] lex_open [OF ne] parse_open c case_prod_unfold)
qed

theorem json_dir_big_node_witness:
  "json_unserialize sample_fpu make_json (json_serialize sample_fpu 0 (dir_json [(''a'', 7), (''b'', 2147483648)])) =
     Inl (StdExn ''out_of_range'')"
  using json_dir_big_node [of "[(''a'', 7)]" "''b''" 2147483648 "[]" make_json sample_fpu]
  by (simp add: smap_sorted_def plain_name_def make_json_def)

text \<open>
  Names are not escaped when a directory is written, so that a name with a quotation mark can
  forge entries: the directory with the one name \<^verbatim>\<open>a":7,"b\<close> is read back as the two
  entries \<^verbatim>\<open>a\<close> and \<^verbatim>\<open>b\<close>.
\<close>

theorem json_dir_forgery:
  assumes "plain_name a" "plain_name b" "str_less a b" "m < 2 ^ 31" "n < 2 ^ 31" "jcomments j = []"
  shows "json_unserialize F j (json_serialize F 0
      (dir_json [(a @ [dquote] @ '':'' @ nat_to_string m @ '','' @ [dquote] @ b, n)])) =
    Inr (dir_json [(a, m), (b, n)])"
proof -
  let ?x = "a @ [dquote] @ '':'' @ nat_to_string m @ '','' @ [dquote] @ b"
  have "json_serialize F 0 (dir_json [(?x, n)]) = json_serialize F 0 (dir_json [(a, m), (b, n)])"
    by (subst (1 2) serialize_dir) (simp_all add: dir_entry_def)
  then show ?thesis
    using assms by (simp only:) (rule unserialize_dir, auto simp: smap_sorted_def)
qed

theorem json_dir_forgery_witness:
  "json_unserialize sample_fpu make_json (json_serialize sample_fpu 0
      (dir_json [(''a'' @ [dquote] @ '':'' @ nat_to_string 7 @ '','' @ [dquote] @ ''b'', 5)])) =
    Inr (dir_json [(''a'', 7), (''b'', 5)])"
  by (rule json_dir_forgery) (simp_all add: plain_name_def make_json_def)

end
