(* ===== verification/Fs_State.thy ===== *)
theory Fs_State
  imports Storage Mode Json_Parse
begin

text \<open>
  The state of the file system above the storage layer: inodes
  (\<^verbatim>\<open>src/src/modules/filesystem/inode.h\<close>, \<^verbatim>\<open>inode.cpp\<close>), open file
  objects (\<^verbatim>\<open>file.h\<close>), the members of class \<^verbatim>\<open>fs\<close>
  (\<^verbatim>\<open>fs.h\<close>) and the journal entries that changes leave (\<^verbatim>\<open>journal.h\<close>), with the
  operations of \<^verbatim>\<open>fs.cpp\<close> on metadata chunks. Shared pointers to metadata chunks and to
  files are positions in two heaps. The meta buckets are kept as the table of their slots.
\<close>

section \<open>Inodes (inode.h)\<close>

definition inode_numctd :: nat where "inode_numctd = 495"
definition ctd_numctd :: nat where "ctd_numctd = 508"
definition ctd_charSize :: nat where "ctd_charSize = 4064"

record inode =
  in_myID :: bucketIndex_t
  in_nextID :: bucketIndex_t
  in_metaID :: bucketIndex_t
  in_metasize :: nat
  in_mode :: my_mode_t
  in_atime :: timeHolder
  in_ctime :: timeHolder
  in_mtime :: timeHolder
  in_nlinks :: int
  in_uid :: my_uid_t
  in_gid :: my_gid_t
  in_size :: nat
  in_ctd :: "bucketIndex_t list"

text \<open>The union of the slot numbers \<^verbatim>\<open>ctd\<close> and the text \<^verbatim>\<open>charContent\<close> is its bytes.\<close>

record inode_ctd =
  ct_myID :: bucketIndex_t
  ct_nextID :: bucketIndex_t
  ct_content :: "byte list"

text \<open>A metadata chunk, by the type in its header.\<close>

datatype metachunk = MNone | MNode inode | MCtd inode_ctd

definition zero_time :: timeHolder where "zero_time = \<lparr>tv_sec = 0, tv_nsec = 0\<rparr>"

text \<open>A zeroed chunk that is first used as an inode or as a continuation.\<close>

definition zero_inode :: inode where
  "zero_inode =
     \<lparr>in_myID = 0, in_nextID = 0, in_metaID = 0, in_metasize = 0, in_mode = 0, in_atime = zero_time,
      in_ctime = zero_time, in_mtime = zero_time, in_nlinks = 0, in_uid = 0, in_gid = 0, in_size = 0,
      in_ctd = replicate inode_numctd 0\<rparr>"

definition zero_ctd :: inode_ctd where
  "zero_ctd = \<lparr>ct_myID = 0, ct_nextID = 0, ct_content = replicate ctd_charSize 0\<rparr>"

definition ctd_get :: "inode_ctd \<Rightarrow> nat \<Rightarrow> bucketIndex_t" where
  "ctd_get c i = of_le (take 8 (drop (8 * i) (ct_content c)))"

definition ctd_set :: "nat \<Rightarrow> bucketIndex_t \<Rightarrow> inode_ctd \<Rightarrow> inode_ctd" where
  "ctd_set i v c = c\<lparr>ct_content := list_splice (ct_content c) (8 * i) (le_bytes 8 v)\<rparr>"

definition ctd_setChar :: "nat \<Rightarrow> byte \<Rightarrow> inode_ctd \<Rightarrow> inode_ctd" where
  "ctd_setChar i b c = c\<lparr>ct_content := (ct_content c)[i := b]\<rparr>"

section \<open>Files and the journal\<close>

datatype fileType = FT_INVALID | FT_FILE | FT_DIR | FT_LNK | FT_FIFO | FT_UNKNOWN
datatype specialFile = SF_REGULAR | SF_ERROR | SF_STATS | SF_METADATA

type_synonym cid = nat
type_synonym fid = nat

text \<open>A \<^verbatim>\<open>permission\<close> holds a weak pointer to a file and its inode number.\<close>

record fileobj =
  f_special :: specialFile
  f_meta :: cid
  f_path :: string
  f_perms :: "(fid \<times> bucketIndex_t) list"
  f_hashes :: "hid ptr_list"
  f_hashWrites :: nat
  f_hashReads :: nat
  f_refs :: int
  f_deleted :: bool
  f_extraMeta :: json

datatype journalEntryType =
  JE_close | JE_mkobject | JE_write | JE_unlink | JE_renamemove | JE_chmod | JE_chown | JE_truncate

record journalEntry =
  je_id :: nat
  je_type :: journalEntryType
  je_parentNode :: bucketIndex_t
  je_newNode :: bucketIndex_t
  je_newParentNode :: bucketIndex_t
  je_mod :: my_mode_t
  je_offset :: int
  je_name :: string
  je_data :: "byte list"

section \<open>The state\<close>

text \<open>What the model takes from outside: the storage environment, the clock, the process owner.\<close>

record world =
  w_env :: env
  w_fpu :: fpu
  w_time :: "nat \<Rightarrow> timeHolder"
  w_uid :: my_uid_t
  w_gid :: my_gid_t

record fsys =
  fs_stor :: stor
  fs_chunks :: "metachunk list"
  fs_slots :: "bucketIndex_t \<Rightarrow> cid option"
  fs_slotHash :: "bucketIndex_t \<Rightarrow> bool"
  fs_metaLoaded :: "nat list"
  fs_metaAcc :: accounting
  fs_metaLog :: "(nat \<times> nat) list"
  fs_files :: "fileobj list"
  fs_rootFile :: fid
  fs_errorFile :: fid
  fs_inodeCache :: "(bucketIndex_t, fid) umap"
  fs_pathCache :: "(string, bucketIndex_t) umap"
  fs_handles :: "fid option list"
  fs_writeStats :: "nat list"
  fs_readStats :: "nat list"
  fs_journal :: "journalEntry list"
  fs_nextEntry :: nat
  fs_clock :: nat
  fs_unloads :: nat

type_synonym 'a fs_op = "(fsys, 'a) op"

definition maxOpenFiles :: nat where "maxOpenFiles = 128"

definition in_stor :: "'a stor_op \<Rightarrow> 'a fs_op" where
  "in_stor = zoomS fs_stor (\<lambda>s t. t\<lparr>fs_stor := s\<rparr>)"

definition currentTime :: "world \<Rightarrow> timeHolder fs_op" where
  "currentTime W =
     bindS (getS fs_clock) (\<lambda>n. bindS (modifyS (\<lambda>t. t\<lparr>fs_clock := Suc n\<rparr>)) (\<lambda>_. returnS (w_time W n)))"

text \<open>\<^verbatim>\<open>JOURNAL->add\<close>: the wrapper's constructor takes the next number and writes the entry.\<close>

definition journal_add ::
  "journalEntryType \<Rightarrow> bucketIndex_t \<Rightarrow> bucketIndex_t \<Rightarrow> bucketIndex_t \<Rightarrow> my_mode_t \<Rightarrow> int \<Rightarrow>
   string \<Rightarrow> byte list \<Rightarrow> journalEntry fs_op" where
  "journal_add ty parent new newParent md off name dta =
     bindS (getS fs_nextEntry) (\<lambda>n.
     let e = \<lparr>je_id = n, je_type = ty, je_parentNode = parent, je_newNode = new,
              je_newParentNode = newParent, je_mod = md, je_offset = off, je_name = name, je_data = dta\<rparr>
     in bindS (modifyS (\<lambda>t. t\<lparr>fs_nextEntry := Suc n, fs_journal := fs_journal t @ [e]\<rparr>)) (\<lambda>_.
        returnS e))"

text \<open>\<^verbatim>\<open>unloadBuckets\<close> starts a thread that stores the metadata later; its start is counted.\<close>

definition unloadBuckets :: "unit fs_op" where
  "unloadBuckets = modifyS (\<lambda>t. t\<lparr>fs_unloads := Suc (fs_unloads t)\<rparr>)"

definition classifySize :: "nat \<Rightarrow> nat" where
  "classifySize sz =
     (if sz < chunkSize then 0 else if sz = chunkSize then 1 else if sz < chunkSize * 9 then 2
      else if sz < chunkSize * chunksInBucket then 3 else 4)"

section \<open>Metadata chunks\<close>

definition new_metachunk :: "cid fs_op" where
  "new_metachunk =
     bindS (getS (\<lambda>t. length (fs_chunks t))) (\<lambda>c.
     bindS (modifyS (\<lambda>t. t\<lparr>fs_chunks := fs_chunks t @ [MNone]\<rparr>)) (\<lambda>_. returnS c))"

definition set_chunk :: "cid \<Rightarrow> metachunk \<Rightarrow> unit fs_op" where
  "set_chunk c m = modifyS (\<lambda>t. t\<lparr>fs_chunks := (fs_chunks t)[c := m]\<rparr>)"

text \<open>\<^verbatim>\<open>as<inode>()\<close> and \<^verbatim>\<open>as<inode_ctd>()\<close> with \<^verbatim>\<open>assertTypeValid\<close>.\<close>

definition as_inode :: "cid \<Rightarrow> inode fs_op" where
  "as_inode c =
     bindS (getS (\<lambda>t. fs_chunks t ! c)) (\<lambda>m.
     case m of
       MNone \<Rightarrow> bindS (set_chunk c (MNode zero_inode)) (\<lambda>_. returnS zero_inode)
     | MNode n \<Rightarrow> returnS n
     | MCtd _ \<Rightarrow> raiseS AssertFail)"

definition as_ctd :: "cid \<Rightarrow> inode_ctd fs_op" where
  "as_ctd c =
     bindS (getS (\<lambda>t. fs_chunks t ! c)) (\<lambda>m.
     case m of
       MNone \<Rightarrow> bindS (set_chunk c (MCtd zero_ctd)) (\<lambda>_. returnS zero_ctd)
     | MCtd n \<Rightarrow> returnS n
     | MNode _ \<Rightarrow> raiseS AssertFail)"

definition upd_inode :: "cid \<Rightarrow> (inode \<Rightarrow> inode) \<Rightarrow> unit fs_op" where
  "upd_inode c g = bindS (as_inode c) (\<lambda>n. set_chunk c (MNode (g n)))"

definition upd_ctd :: "cid \<Rightarrow> (inode_ctd \<Rightarrow> inode_ctd) \<Rightarrow> unit fs_op" where
  "upd_ctd c g = bindS (as_ctd c) (\<lambda>n. set_chunk c (MCtd (g n)))"

definition meta_getBucket :: "nat \<Rightarrow> unit fs_op" where
  "meta_getBucket b =
     modifyS (\<lambda>t. if b \<in> set (fs_metaLoaded t) then t else t\<lparr>fs_metaLoaded := fs_metaLoaded t @ [b]\<rparr>)"

definition meta_getChunk :: "bucketIndex_t \<Rightarrow> cid fs_op" where
  "meta_getChunk i =
     bindS (meta_getBucket (bucket_of i)) (\<lambda>_.
     bindS (getS (\<lambda>t. fs_slots t i)) (\<lambda>s.
     case s of Some c \<Rightarrow> returnS c
     | None \<Rightarrow>
         bindS new_metachunk (\<lambda>c.
         bindS (modifyS (\<lambda>t. t\<lparr>fs_slots := (fs_slots t)(i \<mapsto> c)\<rparr>)) (\<lambda>_. returnS c))))"

definition meta_putHashedChunk :: "bucketIndex_t \<Rightarrow> cid \<Rightarrow> unit fs_op" where
  "meta_putHashedChunk i c =
     bindS (meta_getBucket (bucket_of i)) (\<lambda>_.
     modifyS (\<lambda>t. t\<lparr>fs_slots := (fs_slots t)(i \<mapsto> c), fs_slotHash := (fs_slotHash t)(i := True)\<rparr>))"

definition meta_clearHashAndChunk :: "bucketIndex_t \<Rightarrow> unit fs_op" where
  "meta_clearHashAndChunk i =
     bindS (meta_getBucket (bucket_of i)) (\<lambda>_.
     bindS new_metachunk (\<lambda>c.
     modifyS (\<lambda>t. t\<lparr>fs_slots := (fs_slots t)(i \<mapsto> c), fs_slotHash := (fs_slotHash t)(i := False)\<rparr>)))"

definition meta_addChange :: "nat \<Rightarrow> journalEntry option \<Rightarrow> unit fs_op" where
  "meta_addChange b je =
     bindS (meta_getBucket b) (\<lambda>_.
     case je of None \<Rightarrow> returnS ()
     | Some e \<Rightarrow> modifyS (\<lambda>t. t\<lparr>fs_metaLog := fs_metaLog t @ [(b, je_id e)]\<rparr>))"

definition meta_fetch :: "bucketIndex_t fs_op" where
  "meta_fetch =
     bindS (getS fs_metaAcc) (\<lambda>a. bindS (liftS (acc_fetch a)) (\<lambda>(i, a').
     bindS (modifyS (\<lambda>t. t\<lparr>fs_metaAcc := a'\<rparr>)) (\<lambda>_. returnS i)))"

text \<open>
  Releasing a meta bucket drops its chunks from the table of loaded buckets, so that they are
  read from the disk again when they are next used. The table has them empty from here on; the files of a bucket show
  its slots empty when they were never written with hashes in them (\<open>bucket_store_keeps_stale_files\<close> says what
  happens otherwise).
\<close>

definition meta_removeBucket :: "nat \<Rightarrow> unit fs_op" where
  "meta_removeBucket b =
     modifyS (\<lambda>t. t\<lparr>fs_metaLoaded := remove1 b (fs_metaLoaded t),
       fs_slots := (\<lambda>i. if bucket_of i = b then None else fs_slots t i),
       fs_slotHash := (\<lambda>i. bucket_of i \<noteq> b \<and> fs_slotHash t i)\<rparr>)"

definition meta_post :: "bucketIndex_t \<Rightarrow> unit fs_op" where
  "meta_post i =
     bindS (getS fs_metaAcc) (\<lambda>a. bindS (liftS (acc_post a i)) (\<lambda>(a', rm).
     bindS (modifyS (\<lambda>t. t\<lparr>fs_metaAcc := a'\<rparr>)) (\<lambda>_. forS rm meta_removeBucket)))"

section \<open>fs.cpp: inodes\<close>

definition inoToChunk :: "bucketIndex_t \<Rightarrow> cid fs_op" where
  "inoToChunk i = bindS (assertS (i \<noteq> 0)) (\<lambda>_. meta_getChunk i)"

definition storeInode :: "cid \<Rightarrow> unit fs_op" where
  "storeInode c =
     bindS (getS (\<lambda>t. fs_chunks t ! c)) (\<lambda>m.
     case m of
       MNone \<Rightarrow> raiseS AssertFail
     | MNode n \<Rightarrow> meta_putHashedChunk (in_myID n) c
     | MCtd n \<Rightarrow> meta_putHashedChunk (ct_myID n) c)"

text \<open>The part that the two functions named \<^verbatim>\<open>createCtd\<close> share.\<close>

definition new_ctd :: "(bucketIndex_t \<Rightarrow> unit fs_op) \<Rightarrow> unit fs_op" where
  "new_ctd link =
     bindS new_metachunk (\<lambda>c.
     bindS meta_fetch (\<lambda>i.
     bindS (upd_ctd c (\<lambda>n. n\<lparr>ct_myID := i\<rparr>)) (\<lambda>_.
     bindS (link i) (\<lambda>_.
     storeInode c))))"

definition createCtd :: "cid \<Rightarrow> bool \<Rightarrow> cid fs_op" where
  "createCtd prev forMeta =
     (if forMeta then
        bindS (as_inode prev) (\<lambda>n.
        bindS (whenS (in_metaID n = 0) (new_ctd (\<lambda>i. upd_inode prev (\<lambda>n. n\<lparr>in_metaID := i\<rparr>)))) (\<lambda>_.
        bindS (as_inode prev) (\<lambda>n. inoToChunk (in_metaID n))))
      else
        bindS (as_inode prev) (\<lambda>n.
        bindS (whenS (in_nextID n = 0) (new_ctd (\<lambda>i. upd_inode prev (\<lambda>n. n\<lparr>in_nextID := i\<rparr>)))) (\<lambda>_.
        bindS (as_inode prev) (\<lambda>n. inoToChunk (in_nextID n)))))"

definition createCtd_ctd :: "cid \<Rightarrow> cid fs_op" where
  "createCtd_ctd prev =
     bindS (as_ctd prev) (\<lambda>n.
     bindS (whenS (ct_nextID n = 0) (new_ctd (\<lambda>i. upd_ctd prev (\<lambda>n. n\<lparr>ct_nextID := i\<rparr>)))) (\<lambda>_.
     bindS (as_ctd prev) (\<lambda>n. inoToChunk (ct_nextID n))))"

section \<open>fs.cpp: the metadata text\<close>

definition str_bytes :: "string \<Rightarrow> byte list" where "str_bytes s = map of_char s"
definition bytes_str :: "byte list \<Rightarrow> string" where "bytes_str bs = map (\<lambda>b. char_of (unat b)) bs"

text \<open>
  The walk over the continuation chunks does not end for a cyclic chain. Its fuel is one more
  than the number of chunk objects: a walk that visits no object twice never uses it up.
\<close>

fun meta_chain :: "nat \<Rightarrow> cid \<Rightarrow> byte list fs_op" where
  "meta_chain 0 c = raiseS Hang"
| "meta_chain (Suc k) c =
     bindS (as_ctd c) (\<lambda>n.
     if ct_nextID n = 0 then returnS (ct_content n)
     else
       bindS (inoToChunk (ct_nextID n)) (\<lambda>c'.
       bindS (meta_chain k c') (\<lambda>rest. returnS (ct_content n @ rest))))"

definition str_resize :: "byte list \<Rightarrow> nat \<Rightarrow> byte \<Rightarrow> byte list" where
  "str_resize s n x = take n s @ replicate (n - length s) x"

definition loadMetaDataFromINode :: "cid \<Rightarrow> string fs_op" where
  "loadMetaDataFromINode c =
     bindS (as_inode c) (\<lambda>n.
     if 0 < in_metasize n then
       bindS (inoToChunk (in_metaID n)) (\<lambda>c1.
       bindS (getS (\<lambda>t. length (fs_chunks t))) (\<lambda>k.
       bindS (meta_chain (Suc k) c1) (\<lambda>ret.
       let ret' = rev (dropWhile (\<lambda>b. b = 0) (rev ret))
       in returnS (bytes_str (str_resize ret' (in_metasize n) 32)))))
     else returnS [])"

fun store_text :: "byte list \<Rightarrow> nat \<Rightarrow> cid \<Rightarrow> unit fs_op" where
  "store_text [] off c = returnS ()"
| "store_text (b # bs) off c =
     bindS (upd_ctd c (ctd_setChar off b)) (\<lambda>_.
     if ctd_charSize \<le> Suc off
     then bindS (createCtd_ctd c) (\<lambda>c'. store_text bs 0 c')
     else store_text bs (Suc off) c)"

definition storeMetaDataInINode :: "cid \<Rightarrow> string \<Rightarrow> unit fs_op" where
  "storeMetaDataInINode c s =
     bindS (assertS (length s < 2 ^ 32 - 1)) (\<lambda>_.
     bindS (upd_inode c (\<lambda>n. n\<lparr>in_metasize := length s\<rparr>)) (\<lambda>_.
     bindS (createCtd c True) (\<lambda>c'. store_text (str_bytes s) 0 c')))"

end
