(* ===== verification/Inode_Layout.thy ===== *)
theory Inode_Layout
  imports Fs_State
begin

text \<open>
  The bytes of a metadata chunk: the structs \<^verbatim>\<open>inode\<close> and \<^verbatim>\<open>inode_ctd\<close> of
  \<^verbatim>\<open>src/src/modules/filesystem/inode.h\<close>, whose layout is the format on disk (``do NOT change
  the layout of this struct''), on the little-endian 64-bit systems that \<^verbatim>\<open>endian.h\<close>
  demands. Fields are naturally aligned, so that none of them is padded.
\<close>

section \<open>Encoding\<close>

definition inode_type_NODE :: nat where "inode_type_NODE = 0xFF00FABB"
definition inode_type_CTD :: nat where "inode_type_CTD = 0xFF00FACC"

text \<open>The header: the type word and \<^verbatim>\<open>latestversion\<close>.\<close>

definition header_bytes :: "nat \<Rightarrow> byte list" where
  "header_bytes ty = le_bytes 4 ty @ le_bytes 4 1"

definition time_bytes :: "timeHolder \<Rightarrow> byte list" where
  "time_bytes t = le_bytes 8 (nat64_of (tv_sec t)) @ le_bytes 8 (nat64_of (tv_nsec t))"

definition inode_bytes :: "inode \<Rightarrow> byte list" where
  "inode_bytes n =
     header_bytes inode_type_NODE @
     le_bytes 8 (in_myID n) @ le_bytes 8 (in_nextID n) @ le_bytes 8 (in_metaID n) @
     le_bytes 4 (in_metasize n) @ le_bytes 4 (unat (in_mode n)) @
     time_bytes (in_atime n) @ time_bytes (in_ctime n) @ time_bytes (in_mtime n) @
     le_bytes 8 (nat64_of (in_nlinks n)) @ le_bytes 4 (unat (in_uid n)) @ le_bytes 4 (unat (in_gid n)) @
     le_bytes 8 (in_size n) @ replicate 24 0 @
     concat (map (le_bytes 8) (in_ctd n))"

definition inode_ctd_bytes :: "inode_ctd \<Rightarrow> byte list" where
  "inode_ctd_bytes c =
     header_bytes inode_type_CTD @
     le_bytes 8 (ct_myID c) @ le_bytes 8 (ct_nextID c) @ replicate 8 0 @ ct_content c"

definition metachunk_bytes :: "metachunk \<Rightarrow> chunk" where
  "metachunk_bytes m =
     (case m of MNone \<Rightarrow> zero_chunk | MNode n \<Rightarrow> inode_bytes n | MCtd c \<Rightarrow> inode_ctd_bytes c)"

section \<open>Where the fields lie\<close>

text \<open>
  The program has no code that reads these bytes: it casts the chunk (\<^verbatim>\<open>as<inode>()\<close>). The functions of this
  section read the fields at their offsets and serve to show that different values have different bytes.
  Every inode and continuation that the program makes has version 1 and unused words of zero, which is what the
  encoding writes.
\<close>

definition le_at :: "byte list \<Rightarrow> nat \<Rightarrow> nat \<Rightarrow> nat" where
  "le_at bs off k = of_le (take k (drop off bs))"

definition time_at :: "byte list \<Rightarrow> nat \<Rightarrow> timeHolder" where
  "time_at bs off = \<lparr>tv_sec = int64_of (le_at bs off 8), tv_nsec = int64_of (le_at bs (off + 8) 8)\<rparr>"

definition inode_of :: "byte list \<Rightarrow> inode" where
  "inode_of bs =
     \<lparr>in_myID = le_at bs 8 8, in_nextID = le_at bs 16 8, in_metaID = le_at bs 24 8,
      in_metasize = le_at bs 32 4, in_mode = of_nat (le_at bs 36 4),
      in_atime = time_at bs 40, in_ctime = time_at bs 56, in_mtime = time_at bs 72,
      in_nlinks = int64_of (le_at bs 88 8), in_uid = of_nat (le_at bs 96 4), in_gid = of_nat (le_at bs 100 4),
      in_size = le_at bs 104 8,
      in_ctd = map (\<lambda>i. le_at bs (136 + 8 * i) 8) [0..<inode_numctd]\<rparr>"

definition inode_ctd_of :: "byte list \<Rightarrow> inode_ctd" where
  "inode_ctd_of bs = \<lparr>ct_myID = le_at bs 8 8, ct_nextID = le_at bs 16 8, ct_content = drop 32 bs\<rparr>"

definition metachunk_of :: "chunk \<Rightarrow> metachunk option" where
  "metachunk_of bs =
     (let ty = le_at bs 0 4 in
      if ty = 0 then Some MNone
      else if ty = inode_type_NODE then Some (MNode (inode_of bs))
      else if ty = inode_type_CTD then Some (MCtd (inode_ctd_of bs))
      else None)"

section \<open>Different values have different bytes\<close>

definition i64_ok :: "int \<Rightarrow> bool" where "i64_ok r \<longleftrightarrow> - (2 ^ 63) \<le> r \<and> r < 2 ^ 63"

definition time_ok :: "timeHolder \<Rightarrow> bool" where
  "time_ok t \<longleftrightarrow> i64_ok (tv_sec t) \<and> i64_ok (tv_nsec t)"

text \<open>The fields of a metadata chunk fit their words.\<close>

definition inode_ok :: "inode \<Rightarrow> bool" where
  "inode_ok n \<longleftrightarrow> in_myID n < 2 ^ 64 \<and> in_nextID n < 2 ^ 64 \<and> in_metaID n < 2 ^ 64 \<and>
     in_metasize n < 2 ^ 32 \<and> time_ok (in_atime n) \<and> time_ok (in_ctime n) \<and> time_ok (in_mtime n) \<and>
     i64_ok (in_nlinks n) \<and> in_size n < 2 ^ 64 \<and>
     length (in_ctd n) = inode_numctd \<and> (\<forall>i \<in> set (in_ctd n). i < 2 ^ 64)"

definition ctd_ok :: "inode_ctd \<Rightarrow> bool" where
  "ctd_ok c \<longleftrightarrow> ct_myID c < 2 ^ 64 \<and> ct_nextID c < 2 ^ 64 \<and> length (ct_content c) = ctd_charSize"

definition metachunk_ok :: "metachunk \<Rightarrow> bool" where
  "metachunk_ok m \<longleftrightarrow> (case m of MNone \<Rightarrow> True | MNode n \<Rightarrow> inode_ok n | MCtd c \<Rightarrow> ctd_ok c)"

named_theorems layout "where the fields of a struct lie"

lemma le_at_skip [layout]: "length xs \<le> off \<Longrightarrow> le_at (xs @ ys) off k = le_at ys (off - length xs) k"
  by (simp add: le_at_def)

lemma le_at_here [layout]: "n < 256 ^ k \<Longrightarrow> le_at (le_bytes k n @ ys) 0 k = n"
  by (simp add: le_at_def of_le_bytes)

lemma length_header [simp, layout]: "length (header_bytes ty) = 8"
  by (simp add: header_bytes_def)

lemma length_time [simp, layout]: "length (time_bytes t) = 16"
  by (simp add: time_bytes_def)

lemma time_at_skip [layout]: "length xs \<le> off \<Longrightarrow> time_at (xs @ ys) off = time_at ys (off - length xs)"
  by (simp add: time_at_def le_at_skip)

lemma i64_bytes: "nat64_of r < 256 ^ 8"
  using nat64_less [of r] by simp

lemma time_at_here [layout]: "time_ok t \<Longrightarrow> time_at (time_bytes t @ ys) 0 = t"
  using i64_bytes [of "tv_sec t"] i64_bytes [of "tv_nsec t"]
  by (simp add: time_at_def time_bytes_def layout time_ok_def i64_ok_def int64_nat64)

lemma unat_bytes: "unat (w :: 32 word) < 256 ^ 4"
proof -
  have "unat w < 2 ^ LENGTH(32)" by (rule unsigned_less)
  then show ?thesis by simp
qed

lemma le_at_slots:
  "\<forall>i \<in> set xs. i < 256 ^ 8 \<Longrightarrow>
   map (\<lambda>i. le_at (concat (map (le_bytes 8) xs)) (8 * i) 8) [0..<length xs] = xs"
proof (induction xs)
  case (Cons x xs)
  have "map (\<lambda>i. le_at (le_bytes 8 x @ concat (map (le_bytes 8) xs)) (8 * i) 8) [0..<Suc (length xs)] =
    le_at (le_bytes 8 x @ concat (map (le_bytes 8) xs)) 0 8 #
    map (\<lambda>i. le_at (le_bytes 8 x @ concat (map (le_bytes 8) xs)) (8 * Suc i) 8) [0..<length xs]"
    by (simp add: upt_conv_Cons map_Suc_upt [symmetric] del: upt_Suc)
  also have "\<dots> = x # map (\<lambda>i. le_at (concat (map (le_bytes 8) xs)) (8 * i) 8) [0..<length xs]"
    using Cons.prems by (simp add: layout)
  finally show ?case using Cons by simp
qed simp

lemma length_concat_le: "length (concat (map (le_bytes 8) xs)) = 8 * length xs"
  by (induction xs) auto

lemma length_inode_bytes: "inode_ok n \<Longrightarrow> length (inode_bytes n) = chunkSize"
  by (simp add: inode_bytes_def inode_ok_def length_concat_le inode_numctd_def chunkSize_def)

lemma inode_type_of: "le_at (inode_bytes n) 0 4 = inode_type_NODE"
  by (simp add: inode_bytes_def header_bytes_def layout inode_type_NODE_def)

lemma ctd_type_of: "le_at (inode_ctd_bytes n) 0 4 = inode_type_CTD"
  by (simp add: inode_ctd_bytes_def header_bytes_def layout inode_type_CTD_def)

lemma inode_slots_of:
  assumes "inode_ok n"
  shows "map (\<lambda>i. le_at (inode_bytes n) (136 + 8 * i) 8) [0..<inode_numctd] = in_ctd n"
proof -
  have "le_at (inode_bytes n) (136 + 8 * i) 8 = le_at (concat (map (le_bytes 8) (in_ctd n))) (8 * i) 8" for i
    by (simp add: inode_bytes_def layout)
  then show ?thesis using assms le_at_slots [of "in_ctd n"] by (simp add: inode_ok_def)
qed

lemma inode_of_bytes:
  assumes "inode_ok n" shows "inode_of (inode_bytes n) = n"
proof -
  note ok = assms [unfolded inode_ok_def]
  have "in_myID (inode_of (inode_bytes n)) = in_myID n" "in_nextID (inode_of (inode_bytes n)) = in_nextID n"
    "in_metaID (inode_of (inode_bytes n)) = in_metaID n" "in_metasize (inode_of (inode_bytes n)) = in_metasize n"
    "in_size (inode_of (inode_bytes n)) = in_size n"
    using ok by (simp_all add: inode_of_def inode_bytes_def layout)
  moreover have "in_mode (inode_of (inode_bytes n)) = in_mode n" "in_uid (inode_of (inode_bytes n)) = in_uid n"
    "in_gid (inode_of (inode_bytes n)) = in_gid n"
    using unat_bytes by (simp_all add: inode_of_def inode_bytes_def layout)
  moreover have "in_atime (inode_of (inode_bytes n)) = in_atime n" "in_ctime (inode_of (inode_bytes n)) = in_ctime n"
    "in_mtime (inode_of (inode_bytes n)) = in_mtime n"
    using ok by (simp_all add: inode_of_def inode_bytes_def layout)
  moreover have "in_nlinks (inode_of (inode_bytes n)) = in_nlinks n"
    using ok i64_bytes [of "in_nlinks n"] by (simp add: inode_of_def inode_bytes_def layout i64_ok_def int64_nat64)
  moreover have "in_ctd (inode_of (inode_bytes n)) = in_ctd n"
    using inode_slots_of [OF assms] by (simp add: inode_of_def)
  ultimately show ?thesis by (intro inode.equality) simp_all
qed

lemma inode_ctd_of_bytes: "ctd_ok c \<Longrightarrow> inode_ctd_of (inode_ctd_bytes c) = c"
  by (simp add: inode_ctd_of_def inode_ctd_bytes_def ctd_ok_def layout)

lemma metachunk_bytes_of:
  assumes "metachunk_ok m"
  shows "length (metachunk_bytes m) = chunkSize \<and> metachunk_of (metachunk_bytes m) = Some m"
proof (cases m)
  case MNone
  then show ?thesis by (simp add: metachunk_bytes_def metachunk_of_def zero_chunk_def chunkSize_def
    le_at_def numeral_eq_Suc)
next
  case (MNode n)
  then show ?thesis using assms length_inode_bytes [of n] inode_of_bytes [of n] inode_type_of [of n]
    by (simp add: metachunk_ok_def metachunk_bytes_def metachunk_of_def inode_type_NODE_def)
next
  case (MCtd c)
  then show ?thesis using assms inode_ctd_of_bytes [of c] ctd_type_of [of c]
    by (simp add: metachunk_ok_def metachunk_bytes_def metachunk_of_def inode_type_NODE_def inode_type_CTD_def
      Let_def ctd_ok_def inode_ctd_bytes_def chunkSize_def ctd_charSize_def)
qed

lemma length_metachunk_bytes: "metachunk_ok m \<Longrightarrow> length (metachunk_bytes m) = chunkSize"
  by (simp add: metachunk_bytes_of)

lemma metachunk_bytes_inj:
  "metachunk_ok m \<Longrightarrow> metachunk_ok m' \<Longrightarrow> metachunk_bytes m = metachunk_bytes m' \<longleftrightarrow> m = m'"
  by (metis metachunk_bytes_of option.inject)

end
