(* ===== verification/Fs_Info.thy ===== *)
theory Fs_Info
  imports Inode_Layout
begin

text \<open>
  The two special files: the statistics text (\<^verbatim>\<open>getStats\<close>) and the raw metadata buckets
  (\<^verbatim>\<open>metadataSize\<close>, \<^verbatim>\<open>readMetadata\<close>) of
  \<^verbatim>\<open>src/src/modules/filesystem/fs.cpp\<close>, and \<^verbatim>\<open>getStatFS\<close>. They only read the state.
\<close>

section \<open>The slots of the loaded meta buckets\<close>

definition meta_at :: "fsys \<Rightarrow> bucketIndex_t \<Rightarrow> metachunk" where
  "meta_at t i = (case fs_slots t i of Some c \<Rightarrow> fs_chunks t ! c | None \<Rightarrow> MNone)"

text \<open>The two nested loops over the buckets of \<^verbatim>\<open>loaded.list()\<close> and their chunks.\<close>

definition loaded_slots :: "fsys \<Rightarrow> bucketIndex_t list" where
  "loaded_slots t = concat (map (\<lambda>b. map (bucketIndex b) [0..<chunksInBucket]) (fs_metaLoaded t))"

section \<open>getStats\<close>

text \<open>\<^verbatim>\<open>hashDistribution[key]++\<close> for the reference count of one hash.\<close>

definition refcnt_class :: "int \<Rightarrow> string" where
  "refcnt_class ref =
     (if ref = 0 \<or> ref = 1 then int_to_string ref
      else if ref < 5 then ''1-5'' else if ref < 50 then ''5-50'' else ''50+'')"

definition count_class :: "(string \<times> nat) list \<Rightarrow> int \<Rightarrow> (string \<times> nat) list" where
  "count_class d ref =
     smap_set d (refcnt_class ref)
       (case map_of d (refcnt_class ref) of None \<Rightarrow> 1 | Some n \<Rightarrow> Suc n)"

definition dedup_kbs :: "int list \<Rightarrow> nat" where
  "dedup_kbs refs = sum_list (map (\<lambda>ref. if ref > 1 then nat (ref - 1) * (chunkSize div 1024) else 0) refs)"

definition count_meta :: "(metachunk \<Rightarrow> bool) \<Rightarrow> metachunk list \<Rightarrow> nat" where
  "count_meta p cs = length (filter p cs)"

definition is_node_type :: "my_mode_t \<Rightarrow> metachunk \<Rightarrow> bool" where
  "is_node_type ty m = (case m of MNode n \<Rightarrow> mode_type (in_mode n) = ty | _ \<Rightarrow> False)"

definition is_node_unknown :: "metachunk \<Rightarrow> bool" where
  "is_node_unknown m = (case m of
     MNode n \<Rightarrow> mode_type (in_mode n) \<notin> {mode_TYPE_DIR, mode_TYPE_REG, mode_TYPE_LNK, mode_TYPE_FIFO}
   | _ \<Rightarrow> False)"

text \<open>\<^verbatim>\<open>BUILDSTRING\<close>: the pieces of a line one after the other.\<close>

definition build_line :: "string list \<Rightarrow> string" where
  "build_line parts = concat parts @ [CHR 0x0A]"

definition size_lines :: "nat list \<Rightarrow> string" where
  "size_lines st =
     build_line [''S  < chunk   :'', nat_to_string (st ! 0)] @
     build_line [''S == chunk   :'', nat_to_string (st ! 1)] @
     build_line [''S  < 9*chunks:'', nat_to_string (st ! 2)] @
     build_line [''S  < bucket  :'', nat_to_string (st ! 3)] @
     build_line [''S >= bucket  :'', nat_to_string (st ! 4)]"

definition size_line :: "string \<Rightarrow> nat \<Rightarrow> nat \<Rightarrow> string" where
  "size_line label n unit_kb =
     build_line [label, nat_to_string n, '' * '', nat_to_string unit_kb, ''KB == '',
       nat_to_string (n * unit_kb div 1024), ''MB'']"

definition getStats :: "fsys \<Rightarrow> string" where
  "getStats t =
     (let s = fs_stor t;
          bucketSizeInKB = (chunkSize * chunksInBucket) div 1024;
          chunkSizeInKB = chunkSize div 1024;
          numBuckets = length (acc_getBucketsInUse (st_acc s));
          numMetaBuckets = length (acc_getBucketsInUse (fs_metaAcc t));
          hashesIndex = umap_list (st_index s);
          hashesInMem = length (filter (hash_hasData s) hashesIndex);
          refs = map (hash_getRefCnt s) hashesIndex;
          hashDistribution = foldl count_class [] refs;
          chunks = map (meta_at t) (loaded_slots t)
      in size_line ''(Dsk) Buckets: '' numBuckets bucketSizeInKB @
         size_line ''(Dsk) Hashes: '' (um_size (st_index s)) chunkSizeInKB @
         size_line ''(Mem) Hashes: '' hashesInMem chunkSizeInKB @
         size_line ''(Dsk&Mem) Metabuckets: '' numMetaBuckets bucketSizeInKB @
         build_line [''De-duplication stats:''] @
         concat (map (\<lambda>(k, n). build_line [''Hashes with refcnt('', k, ''): '', nat_to_string n]) hashDistribution) @
         build_line [''About ~'', nat_to_string (dedup_kbs refs div 1024), ''MB de-duplicated.''] @
         build_line [''Writes:''] @ size_lines (fs_writeStats t) @
         build_line [''Reads:''] @ size_lines (fs_readStats t) @
         build_line [''inodes: '', nat_to_string (count_meta (\<lambda>m. case m of MNode _ \<Rightarrow> True | _ \<Rightarrow> False) chunks),
                     '' ctd's: '', nat_to_string (count_meta (\<lambda>m. case m of MCtd _ \<Rightarrow> True | _ \<Rightarrow> False) chunks)] @
         build_line [''files: '', nat_to_string (count_meta (is_node_type mode_TYPE_REG) chunks)] @
         build_line [''dirs: '', nat_to_string (count_meta (is_node_type mode_TYPE_DIR) chunks)] @
         build_line [''links: '', nat_to_string (count_meta (is_node_type mode_TYPE_LNK) chunks)] @
         build_line [''fifo's: '', nat_to_string (count_meta (is_node_type mode_TYPE_FIFO) chunks)] @
         build_line [''unknown: '', nat_to_string (count_meta is_node_unknown chunks)])"

section \<open>The metadata file\<close>

definition metadataSize :: "fsys \<Rightarrow> nat" where
  "metadataSize t = length (fs_metaLoaded t) * chunksInBucket * chunkSize"

text \<open>
  The loop variables \<^verbatim>\<open>size\<close> and \<^verbatim>\<open>actualOffset\<close>; the buffer collects what was read
  so far.
\<close>

fun readMetadata_loop ::
  "fsys \<Rightarrow> nat \<Rightarrow> bucketIndex_t list \<Rightarrow> nat \<Rightarrow> nat \<Rightarrow> byte list \<Rightarrow> byte list res" where
  "readMetadata_loop t offset [] sz actualOffset buf = Inr buf"
| "readMetadata_loop t offset (i # is) sz actualOffset buf =
     bindR (if actualOffset \<le> offset \<and> offset < actualOffset + chunkSize
            then let newSize = min (min sz (actualOffset + chunkSize - offset)) chunkSize
                 in bindR (chunk_read (metachunk_bytes (meta_at t i)) (offset - actualOffset) newSize) (\<lambda>bs.
                    Inr (sz - newSize, buf @ bs))
            else Inr (sz, buf)) (\<lambda>(sz', buf').
     if sz' = 0 then Inr buf'
     else readMetadata_loop t offset is sz' (actualOffset + chunkSize) buf')"

definition readMetadata :: "fsys \<Rightarrow> nat \<Rightarrow> nat \<Rightarrow> byte list res" where
  "readMetadata t sz offset = readMetadata_loop t offset (loaded_slots t) sz 0 []"

text \<open>
  The index of the meta buckets stays empty: \<^verbatim>\<open>loadHashesFromBucket\<close> fills it for data
  buckets only.
\<close>

definition getStatFS :: "fsys \<Rightarrow> nat \<times> nat" where
  "getStatFS t = (chunkSize, um_size (st_index (fs_stor t)) + 0)"

end
