(* ===== verification/File_Attr.thy ===== *)
theory File_Attr
  imports Fs_Info Store_Init
begin

text \<open>
  Class \<^verbatim>\<open>file\<close> (\<^verbatim>\<open>src/src/modules/filesystem/file.h\<close>, \<^verbatim>\<open>file.cpp\<close>), part one:
  the attributes that the inode keeps, the constructors with \<^verbatim>\<open>loadHashes\<close>, the table of files by inode number
  (\<^verbatim>\<open>fs::inodeToFile\<close>) and the access checks. A file object is a position in
  \<open>fs_files\<close>. Operations take the world \<open>W\<close>: the storage environment, the clock and the owner of
  the process. Logging, locks and the counter of outstanding changes are left out.
\<close>

section \<open>Members\<close>

definition fget :: "fid \<Rightarrow> fileobj fs_op" where
  "fget f = getS (\<lambda>t. fs_files t ! f)"

definition fupd :: "fid \<Rightarrow> (fileobj \<Rightarrow> fileobj) \<Rightarrow> unit fs_op" where
  "fupd f g = modifyS (\<lambda>t. t\<lparr>fs_files := (fs_files t)[f := g (fs_files t ! f)]\<rparr>)"

definition INode :: "fid \<Rightarrow> inode fs_op" where
  "INode f = bindS (fget f) (\<lambda>x. as_inode (f_meta x))"

definition set_INode :: "fid \<Rightarrow> (inode \<Rightarrow> inode) \<Rightarrow> unit fs_op" where
  "set_INode f g = bindS (fget f) (\<lambda>x. upd_inode (f_meta x) g)"

definition maxFileSize :: nat where "maxFileSize = 1024 * 1024 * 1024 * 1024 * 16"

definition valid_obj :: "fileobj \<Rightarrow> bool" where
  "valid_obj x \<longleftrightarrow> f_special x \<noteq> SF_ERROR \<and> \<not> f_deleted x"

definition file_valid :: "fid \<Rightarrow> bool fs_op" where
  "file_valid f = bindS (fget f) (\<lambda>x. returnS (valid_obj x))"

definition file_isSpecial :: "fid \<Rightarrow> bool fs_op" where
  "file_isSpecial f = bindS (fget f) (\<lambda>x. returnS (f_special x \<noteq> SF_REGULAR))"

definition file_getMetaChunk :: "fid \<Rightarrow> cid fs_op" where
  "file_getMetaChunk f = bindS (fget f) (\<lambda>x. returnS (f_meta x))"

definition file_getPathPermissions :: "fid \<Rightarrow> (fid \<times> bucketIndex_t) list fs_op" where
  "file_getPathPermissions f = bindS (fget f) (\<lambda>x. returnS (f_perms x))"

definition file_setSpecialFile :: "fid \<Rightarrow> specialFile \<Rightarrow> unit fs_op" where
  "file_setSpecialFile f s = fupd f (\<lambda>x. x\<lparr>f_special := s\<rparr>)"

definition file_getNumLinks :: "fid \<Rightarrow> int fs_op" where
  "file_getNumLinks f = bindS (INode f) (\<lambda>n. returnS (in_nlinks n))"

definition file_bucketIdx :: "fid \<Rightarrow> bucketIndex_t fs_op" where
  "file_bucketIdx f = bindS (INode f) (\<lambda>n. returnS (in_myID n))"

definition file_getOpenHandles :: "fid \<Rightarrow> int fs_op" where
  "file_getOpenHandles f = bindS (fget f) (\<lambda>x. returnS (f_refs x))"

definition file_addLink :: "fid \<Rightarrow> unit fs_op" where
  "file_addLink f = set_INode f (\<lambda>n. n\<lparr>in_nlinks := in_nlinks n + 1\<rparr>)"

definition file_removeLink :: "fid \<Rightarrow> unit fs_op" where
  "file_removeLink f = set_INode f (\<lambda>n. n\<lparr>in_nlinks := in_nlinks n - 1\<rparr>)"

definition type_of_mode :: "my_mode_t \<Rightarrow> fileType" where
  "type_of_mode m =
     (if mode_type m = mode_TYPE_DIR then FT_DIR else if mode_type m = mode_TYPE_REG then FT_FILE
      else if mode_type m = mode_TYPE_LNK then FT_LNK else if mode_type m = mode_TYPE_FIFO then FT_FIFO
      else FT_INVALID)"

definition file_type :: "fid \<Rightarrow> fileType fs_op" where
  "file_type f =
     bindS (fget f) (\<lambda>x.
     if f_special x = SF_ERROR then returnS FT_INVALID
     else bindS (INode f) (\<lambda>n. returnS (type_of_mode (in_mode n))))"

definition file_requireType :: "fid \<Rightarrow> fileType \<Rightarrow> bool fs_op" where
  "file_requireType f required = bindS (file_type f) (\<lambda>ty. returnS (ty = required))"

definition file_uid :: "fid \<Rightarrow> my_uid_t fs_op" where
  "file_uid f = bindS (INode f) (\<lambda>n. returnS (in_uid n))"

definition file_gid :: "fid \<Rightarrow> my_gid_t fs_op" where
  "file_gid f = bindS (INode f) (\<lambda>n. returnS (in_gid n))"

definition file_size :: "fid \<Rightarrow> nat fs_op" where
  "file_size f =
     bindS (fget f) (\<lambda>x.
     case f_special x of
       SF_METADATA \<Rightarrow> getS metadataSize
     | SF_STATS \<Rightarrow> getS (\<lambda>t. length (getStats t))
     | _ \<Rightarrow> bindS (INode f) (\<lambda>n. returnS (in_size n)))"

definition file_mode :: "fid \<Rightarrow> my_mode_t fs_op" where
  "file_mode f = bindS (INode f) (\<lambda>n. returnS (in_mode n))"

definition file_ino :: "fid \<Rightarrow> bucketIndex_t fs_op" where
  "file_ino f = bindS (INode f) (\<lambda>n. returnS (in_myID n))"

definition file_mtime :: "fid \<Rightarrow> timeHolder fs_op" where
  "file_mtime f = bindS (INode f) (\<lambda>n. returnS (in_mtime n))"

definition file_atime :: "fid \<Rightarrow> timeHolder fs_op" where
  "file_atime f = bindS (INode f) (\<lambda>n. returnS (in_atime n))"

definition file_ctime :: "fid \<Rightarrow> timeHolder fs_op" where
  "file_ctime f = bindS (INode f) (\<lambda>n. returnS (in_ctime n))"

definition file_setTimes :: "fid \<Rightarrow> timeHolder \<Rightarrow> timeHolder \<Rightarrow> bool fs_op" where
  "file_setTimes f a m =
     bindS (file_valid f) (\<lambda>v.
     if v then bindS (set_INode f (\<lambda>n. n\<lparr>in_atime := a, in_mtime := m\<rparr>)) (\<lambda>_. returnS True)
     else returnS False)"

definition file_updateTimesWith :: "fid \<Rightarrow> bool \<Rightarrow> bool \<Rightarrow> bool \<Rightarrow> timeHolder \<Rightarrow> unit fs_op" where
  "file_updateTimesWith f A C M tm =
     bindS (whenS A (set_INode f (\<lambda>n. n\<lparr>in_atime := tm\<rparr>))) (\<lambda>_.
     bindS (whenS C (set_INode f (\<lambda>n. n\<lparr>in_ctime := tm\<rparr>))) (\<lambda>_.
     whenS M (set_INode f (\<lambda>n. n\<lparr>in_mtime := tm\<rparr>))))"

text \<open>What \<^verbatim>\<open>loadStat\<close> stores through its pointers.\<close>

record file_stat =
  s_type :: fileType
  s_mode :: my_mode_t
  s_size :: nat
  s_gid :: my_gid_t
  s_uid :: my_uid_t
  s_atime :: timeHolder
  s_mtime :: timeHolder
  s_ctime :: timeHolder
  s_ino :: bucketIndex_t

definition file_loadStat :: "fid \<Rightarrow> file_stat fs_op" where
  "file_loadStat f =
     bindS (file_type f) (\<lambda>ty. bindS (file_mode f) (\<lambda>m. bindS (file_size f) (\<lambda>s.
     bindS (file_gid f) (\<lambda>g. bindS (file_uid f) (\<lambda>u. bindS (file_mtime f) (\<lambda>mt.
     bindS (file_atime f) (\<lambda>at. bindS (file_ctime f) (\<lambda>ct. bindS (file_ino f) (\<lambda>i.
     returnS \<lparr>s_type = ty, s_mode = m, s_size = s, s_gid = g, s_uid = u, s_atime = at, s_mtime = mt,
              s_ctime = ct, s_ino = i\<rparr>)))))))))"

definition setFileDefaults :: "world \<Rightarrow> cid \<Rightarrow> my_mode_t \<Rightarrow> fs_context option \<Rightarrow> unit fs_op" where
  "setFileDefaults W c md ctx =
     bindS (upd_inode c (\<lambda>n. case ctx of
              Some x \<Rightarrow> n\<lparr>in_uid := ctx_uid x, in_gid := ctx_gid x\<rparr>
            | None \<Rightarrow> n\<lparr>in_uid := w_uid W, in_gid := w_gid W\<rparr>)) (\<lambda>_.
     bindS (upd_inode c (\<lambda>n. n\<lparr>in_mode := md\<rparr>)) (\<lambda>_.
     bindS (currentTime W) (\<lambda>tv.
     upd_inode c (\<lambda>n. n\<lparr>in_mtime := tv, in_atime := tv, in_ctime := tv, in_nlinks := 1\<rparr>))))"

section \<open>Loading a file\<close>

text \<open>
  The loop of \<^verbatim>\<open>loadHashes\<close> with its variables: the number of hashes still missing, whether
  the current chunk is the inode, the index in it, the chunk and its successor. It returns
  the number that is missing at the end and the hashes found.
\<close>

fun load_loop :: "env \<Rightarrow> nat \<Rightarrow> bool \<Rightarrow> nat \<Rightarrow> cid \<Rightarrow> bucketIndex_t \<Rightarrow> hid list \<Rightarrow> (nat \<times> hid list) fs_op" where
  "load_loop E 0 inInode idx c nextId hashes = returnS (0, hashes)"
| "load_loop E (Suc numHashes) inInode idx c nextId hashes =
     bindS (if inInode then bindS (as_inode c) (\<lambda>n. returnS (in_ctd n ! idx))
            else bindS (as_ctd c) (\<lambda>n. returnS (ctd_get n idx))) (\<lambda>i.
     if i = 0 then returnS (Suc numHashes, hashes)
     else
       bindS (in_stor (storage_getHash E i)) (\<lambda>loadHash.
       bindS (case loadHash of
                Some h \<Rightarrow> returnS h
              | None \<Rightarrow> bindS (in_stor (hash_incRefCnt E zeroHash 1)) (\<lambda>_. returnS zeroHash)) (\<lambda>h.
       if (if inInode then inode_numctd else ctd_numctd) \<le> Suc idx then
         if nextId \<noteq> 0 then
           bindS (inoToChunk nextId) (\<lambda>c'.
           bindS (as_ctd c') (\<lambda>n.
           load_loop E numHashes False 0 c' (ct_nextID n) (hashes @ [h])))
         else returnS (numHashes, hashes @ [h])
       else load_loop E numHashes inInode (Suc idx) c nextId (hashes @ [h]))))"

definition load_hashlist :: "world \<Rightarrow> fid \<Rightarrow> unit fs_op" where
  "load_hashlist W f =
     bindS (file_size f) (\<lambda>sz.
     let numHashes = ceildiv sz chunkSize in
     bindS (fupd f (\<lambda>x. x\<lparr>f_hashes := snd (plist_truncateAndReturn (f_hashes x) numHashes zeroHash)\<rparr>)) (\<lambda>_.
     bindS (fget f) (\<lambda>x.
     bindS (INode f) (\<lambda>n.
     bindS (load_loop (w_env W) numHashes True 0 (f_meta x) (in_nextID n) []) (\<lambda>(missing, hashes).
     bindS (whenS (missing > 0) (in_stor (hash_incRefCnt (w_env W) zeroHash missing))) (\<lambda>_.
     bindS (fget f) (\<lambda>x.
     bindS (assertS (fst (plist_updateRange (f_hashes x) 0 hashes))) (\<lambda>_.
     fupd f (\<lambda>x. x\<lparr>f_hashes := snd (plist_updateRange (f_hashes x) 0 hashes)\<rparr>)))))))))"

definition file_loadHashes :: "world \<Rightarrow> fid \<Rightarrow> unit fs_op" where
  "file_loadHashes W f =
     bindS (file_type f) (\<lambda>ty.
     bindS (whenS (ty \<in> {FT_FILE, FT_DIR, FT_LNK}) (load_hashlist W f)) (\<lambda>_.
     bindS (INode f) (\<lambda>n.
     whenS (in_metasize n > 0)
       (bindS (fget f) (\<lambda>x.
        bindS (loadMetaDataFromINode (f_meta x)) (\<lambda>metaString.
        bindS (liftS (json_unserialize (w_fpu W) (f_extraMeta x) metaString)) (\<lambda>j.
        fupd f (\<lambda>x. x\<lparr>f_extraMeta := j\<rparr>))))))))"

definition file_new :: "world \<Rightarrow> cid \<Rightarrow> string \<Rightarrow> (fid \<times> bucketIndex_t) list \<Rightarrow> fid fs_op" where
  "file_new W c path perms =
     bindS (getS (\<lambda>t. length (fs_files t))) (\<lambda>f.
     bindS (modifyS (\<lambda>t. t\<lparr>fs_files := fs_files t @
        [\<lparr>f_special = SF_REGULAR, f_meta = c, f_path = path, f_perms = perms, f_hashes = plist_new,
          f_hashWrites = 0, f_hashReads = 0, f_refs = 0, f_deleted = False, f_extraMeta = make_json\<rparr>]\<rparr>)) (\<lambda>_.
     bindS (file_loadHashes W f) (\<lambda>_. returnS f)))"

text \<open>The constructor that takes the kind of a special file.\<close>

definition file_new_special :: "world \<Rightarrow> specialFile \<Rightarrow> fid fs_op" where
  "file_new_special W s =
     bindS new_metachunk (\<lambda>c.
     bindS (getS (\<lambda>t. length (fs_files t))) (\<lambda>f.
     bindS (modifyS (\<lambda>t. t\<lparr>fs_files := fs_files t @
        [\<lparr>f_special = s, f_meta = c, f_path = [], f_perms = [], f_hashes = plist_new,
          f_hashWrites = 0, f_hashReads = 0, f_refs = 0, f_deleted = False, f_extraMeta = make_json\<rparr>]\<rparr>)) (\<lambda>_.
     bindS (file_loadHashes W f) (\<lambda>_. returnS f))))"

section \<open>Files by inode number\<close>

text \<open>\<^verbatim>\<open>errcode\<close> is written when the result names an error.\<close>

definition inodeToFile ::
  "world \<Rightarrow> bucketIndex_t \<Rightarrow> string \<Rightarrow> (fid \<times> bucketIndex_t) list \<Rightarrow> (fid \<times> EE option) fs_op" where
  "inodeToFile W i filename pPerm =
     bindS (getS (\<lambda>t. umap_get (fs_inodeCache t) i)) (\<lambda>fPtr.
     case fPtr of Some f \<Rightarrow> returnS (f, None)
     | None \<Rightarrow>
         bindS (getS fs_errorFile) (\<lambda>err.
         bindS (inoToChunk i) (\<lambda>node.
         bindS (getS (\<lambda>t. fs_chunks t ! node)) (\<lambda>m.
         case m of
           MNode n \<Rightarrow>
             if in_myID n \<noteq> i then returnS (err, Some EE_entity_not_found)
             else
               bindS (file_new W node filename pPerm) (\<lambda>NF.
               bindS (whenS (filename = ''/._stats'') (file_setSpecialFile NF SF_STATS)) (\<lambda>_.
               bindS (whenS (filename = ''/._meta'') (file_setSpecialFile NF SF_METADATA)) (\<lambda>_.
               bindS (modifyS (\<lambda>t. t\<lparr>fs_inodeCache := umap_insert (fs_inodeCache t) i NF\<rparr>)) (\<lambda>_.
               returnS (NF, None)))))
         | _ \<Rightarrow> returnS (err, Some EE_entity_not_found)))))"

text \<open>
  A weak pointer can be locked while some shared pointer holds the file: the cache, an open
  handle or the root. Otherwise the file is made anew from its inode.
\<close>

definition file_held :: "fsys \<Rightarrow> fid \<Rightarrow> bool" where
  "file_held t f \<longleftrightarrow> f \<in> set (umap_list (fs_inodeCache t)) \<or> Some f \<in> set (fs_handles t) \<or> f = fs_rootFile t"

definition permission_new :: "fid \<Rightarrow> (fid \<times> bucketIndex_t) fs_op" where
  "permission_new f = bindS (file_bucketIdx f) (\<lambda>i. returnS (f, i))"

definition permission_node :: "world \<Rightarrow> fid \<times> bucketIndex_t \<Rightarrow> fid fs_op" where
  "permission_node W p =
     bindS (getS (\<lambda>t. file_held t (fst p))) (\<lambda>held.
     if held then returnS (fst p)
     else bindS (inodeToFile W (snd p) ''{permission_temp}'' []) (\<lambda>(f, _). returnS f))"

section \<open>Access checks\<close>

definition granted :: "my_mode_t \<Rightarrow> my_mode_t \<Rightarrow> bool" where
  "granted m desired \<longleftrightarrow> m AND desired = desired"

text \<open>The three-way choice between owner, group and others.\<close>

definition class_bits :: "bool \<Rightarrow> bool \<Rightarrow> access \<Rightarrow> my_mode_t" where
  "class_bits u g da =
     (if u then push_bit 6 (access_bits da) else if g then push_bit 3 (access_bits da) else access_bits da)"

text \<open>
  The loop over the directories above the file. \<open>None\<close> is a refusal, otherwise the two flags
  \<^verbatim>\<open>stickySet\<close> and \<^verbatim>\<open>owndir\<close>.
\<close>

fun check_path ::
  "world \<Rightarrow> fs_context \<Rightarrow> bool \<Rightarrow> (fid \<times> bucketIndex_t) list \<Rightarrow> bool \<Rightarrow> bool \<Rightarrow> (bool \<times> bool) option fs_op" where
  "check_path W ctx sticky [] stickySet owndir = returnS (Some (stickySet, owndir))"
| "check_path W ctx sticky (p # ps) stickySet owndir =
     bindS (permission_node W p) (\<lambda>node.
     bindS (file_uid node) (\<lambda>nu.
     bindS (file_gid node) (\<lambda>ng.
     bindS (file_mode node) (\<lambda>m.
     let u = (nu = ctx_uid ctx); g = (ng = ctx_gid ctx);
         hit = (sticky \<and> \<not> stickySet \<and> m AND mode_FLAG_SVTX > 0)
     in if m AND class_bits u g AX > 0
        then check_path W ctx sticky ps (stickySet \<or> hit) (owndir \<or> hit \<and> u)
        else returnS None))))"

definition validate_access :: "world \<Rightarrow> fid \<Rightarrow> fs_context \<Rightarrow> access \<Rightarrow> access \<Rightarrow> bool \<Rightarrow> bool fs_op" where
  "validate_access W f ctx da dda checkStickyOwner =
     bindS (fget f) (\<lambda>x.
     if \<not> valid_obj x then returnS False
     else if ctx_uid ctx = 0 then returnS True
     else
       bindS (check_path W ctx checkStickyOwner (f_perms x) False False) (\<lambda>r.
       case r of None \<Rightarrow> returnS False
       | Some (stickySet, owndir) \<Rightarrow>
           bindS (if dda \<noteq> ANONE \<and> f_perms x \<noteq> [] then
                    bindS (permission_node W (last (f_perms x))) (\<lambda>node.
                    bindS (file_uid node) (\<lambda>nu.
                    bindS (file_gid node) (\<lambda>ng.
                    bindS (file_mode node) (\<lambda>m.
                    returnS (granted m (class_bits (nu = ctx_uid ctx) (ng = ctx_gid ctx) dda))))))
                  else returnS True) (\<lambda>dir_ok.
           if \<not> dir_ok then returnS False
           else
             bindS (file_uid f) (\<lambda>fu.
             bindS (file_gid f) (\<lambda>fg.
             bindS (file_mode f) (\<lambda>m.
             let u = (fu = ctx_uid ctx); g = (fg = ctx_gid ctx)
             in if checkStickyOwner \<and> stickySet \<and> \<not> u \<and> \<not> owndir then returnS False
                else returnS (granted m (class_bits u g da))))))))"

definition validate_ownership :: "fid \<Rightarrow> fs_context \<Rightarrow> my_mode_t \<Rightarrow> bool fs_op" where
  "validate_ownership f ctx newMode =
     bindS (file_valid f) (\<lambda>v.
     if \<not> v then returnS False
     else if ctx_uid ctx = 0 then returnS True
     else
       bindS (file_mode f) (\<lambda>m.
       bindS (file_uid f) (\<lambda>u.
       bindS (file_gid f) (\<lambda>g.
       let own = (ctx_uid ctx = u \<or> ctx_gid ctx = g);
           changes = (m AND 0x1FF \<noteq> newMode AND 0x1FF)
       in returnS (own \<or> \<not> changes)))))"

end
