(* ===== verification/File_Data.thy ===== *)
theory File_Data
  imports File_Attr
begin

text \<open>
  Class \<^verbatim>\<open>file\<close>, part two: the content. A file is the list of the hashes of its chunks;
  reading, writing, truncating and replacing the content work on this list and on the hashes'
  chunks, and \<^verbatim>\<open>rest\<close> writes the slots of the hashes into the inode and its continuations
  (\<^verbatim>\<open>src/src/modules/filesystem/file.cpp\<close>). Offsets and sizes are natural numbers: the kernel passes no negative
  ones and none near the limits of the 64-bit types.
\<close>

section \<open>rest\<close>

text \<open>
  The loop variables: whether the current chunk is the inode, the index in it, the chunk, its successor
  as it was read when the loop came to the chunk, and the number of hashes put to rest. The
  result has that number and the last chunk.
\<close>

fun rest_loop :: "hid list \<Rightarrow> bool \<Rightarrow> nat \<Rightarrow> cid \<Rightarrow> bucketIndex_t \<Rightarrow> nat \<Rightarrow> (nat \<times> cid) fs_op" where
  "rest_loop [] inInode idx c nextId num = returnS (num, c)"
| "rest_loop (H # hs) inInode idx c nextId num =
     bindS (getS (\<lambda>t. hash_at (fs_stor t) H)) (\<lambda>obj.
     bindS (assertS (h_refcnt obj > 0)) (\<lambda>_.
     bindS (in_stor (hash_rest H)) (\<lambda>r.
     let num' = (if r then Suc num else num); i = h_bucketIndex obj in
     bindS (if inInode then upd_inode c (\<lambda>n. n\<lparr>in_ctd := (in_ctd n)[idx := i]\<rparr>)
            else upd_ctd c (ctd_set idx i)) (\<lambda>_.
     if (if inInode then inode_numctd else ctd_numctd) \<le> Suc idx then
       bindS (storeInode c) (\<lambda>_.
       bindS (if nextId \<noteq> 0 then inoToChunk nextId
              else if inInode then createCtd c False else createCtd_ctd c) (\<lambda>c'.
       bindS (as_ctd c') (\<lambda>n.
       rest_loop hs False 0 c' (ct_nextID n) num')))
     else rest_loop hs inInode (Suc idx) c nextId num'))))"

definition file_rest :: "fid \<Rightarrow> bool fs_op" where
  "file_rest f =
     bindS (fget f) (\<lambda>x.
     if \<not> valid_obj x \<or> f_special x \<noteq> SF_REGULAR then returnS False
     else
       bindS (if plist_getAll (f_hashes x) \<noteq> [] then
                bindS (INode f) (\<lambda>n.
                bindS (rest_loop (plist_getAll (f_hashes x)) True 0 (f_meta x) (in_nextID n) 0) (\<lambda>(num, c).
                bindS (storeInode c) (\<lambda>_. returnS num)))
              else bindS (set_INode f (\<lambda>n. n\<lparr>in_ctd := (in_ctd n)[0 := 0]\<rparr>)) (\<lambda>_. returnS 0)) (\<lambda>num.
       bindS (INode f) (\<lambda>n.
       bindS (whenS (in_myID n \<noteq> 0) (storeInode (f_meta x))) (\<lambda>_.
       returnS (num > 0)))))"

text \<open>\<^verbatim>\<open>if(rest()) FS->unloadBuckets();\<close>\<close>

definition rest_unload :: "fid \<Rightarrow> bool fs_op" where
  "rest_unload f =
     bindS (file_rest f) (\<lambda>r. bindS (whenS r unloadBuckets) (\<lambda>_. returnS r))"

section \<open>read\<close>

text \<open>
  One round per hash: \<open>myOff\<close> is \<^verbatim>\<open>myFileOffset\<close>, \<open>sz\<close> the number of bytes still
  wanted. A byte offset that lies before the chunk counts as its start.
\<close>

fun read_loop :: "env \<Rightarrow> fid \<Rightarrow> nat \<Rightarrow> hid list \<Rightarrow> nat \<Rightarrow> nat \<Rightarrow> byte list \<Rightarrow> byte list fs_op" where
  "read_loop E f offset [] myOff sz buf = returnS buf"
| "read_loop E f offset (h # hs) myOff sz buf =
     (if offset < myOff + chunkSize \<and> sz > 0 then
        let newOffset = offset - myOff; newSize = min sz (chunkSize - newOffset) in
        bindS (in_stor (hash_read E h newOffset newSize)) (\<lambda>bs.
        bindS (fupd f (\<lambda>x. x\<lparr>f_hashReads := Suc (f_hashReads x)\<rparr>)) (\<lambda>_.
        read_loop E f offset hs (myOff + chunkSize) (sz - newSize) (buf @ bs)))
      else read_loop E f offset hs (myOff + chunkSize) sz buf)"

definition count_stat :: "nat \<Rightarrow> nat list \<Rightarrow> nat list" where
  "count_stat sz st = st[classifySize sz := Suc (st ! classifySize sz)]"

text \<open>
  The hashes that the \<^verbatim>\<open>try\<close> block of \<^verbatim>\<open>read\<close> takes from the list. When the first
  one lies behind the end of the list, the unsigned difference of lines 621 wraps and the vector of that size throws.
\<close>

definition read_range :: "hid ptr_list \<Rightarrow> nat \<Rightarrow> nat \<Rightarrow> hid list res" where
  "read_range l firstHash num =
     (if firstHash + num > plist_getSize l then
        (if firstHash > plist_getSize l then Inl (StdExn ''length_error'')
         else Inr (plist_getRange l firstHash (plist_getSize l - firstHash)))
      else Inr (plist_getRange l firstHash num))"

text \<open>
  The text of the statistics: the comparison with its length sees the offset as an \<^verbatim>\<open>unsigned\<close> of 32 bits, the copy
  the whole offset.
\<close>

definition file_read :: "world \<Rightarrow> fid \<Rightarrow> nat \<Rightarrow> nat \<Rightarrow> byte list fs_op" where
  "file_read W f sz offset =
     bindS (fget f) (\<lambda>x.
     if \<not> valid_obj x then returnS []
     else
       bindS (modifyS (\<lambda>t. t\<lparr>fs_readStats := count_stat sz (fs_readStats t)\<rparr>)) (\<lambda>_.
       case f_special x of
         SF_METADATA \<Rightarrow> bindS (getS (\<lambda>t. readMetadata t sz offset)) liftS
       | SF_STATS \<Rightarrow>
           bindS (getS (\<lambda>t. str_bytes (getStats t))) (\<lambda>c.
           if offset mod 2 ^ 32 < length c then
             (if offset \<le> length c then returnS (take sz (drop offset c)) else raiseS Undefined)
           else returnS [])
       | _ \<Rightarrow>
           bindS (INode f) (\<lambda>n.
           if in_size n \<le> offset then returnS []
           else
             let maxReadSize = min (in_size n - offset) sz;
                 firstHash = offset div chunkSize
             in
             bindS (catchS
               (bindS (liftS (read_range (f_hashes x) firstHash (ceildiv maxReadSize chunkSize))) (\<lambda>hashes.
                bindS (read_loop (w_env W) f offset hashes (firstHash * chunkSize) maxReadSize []) (\<lambda>buf.
                returnS (Some buf))))
               (\<lambda>_. returnS None)) (\<lambda>r.
             case r of None \<Rightarrow> returnS []
             | Some buf \<Rightarrow>
                 bindS (fget f) (\<lambda>x.
                 bindS (whenS (f_hashReads x > chunksInBucket * 5)
                   (bindS (fupd f (\<lambda>x. x\<lparr>f_hashReads := 0\<rparr>)) (\<lambda>_.
                    bindS (rest_unload f) (\<lambda>_. returnS ())))) (\<lambda>_.
                 returnS buf))))))"

section \<open>write\<close>

text \<open>
  One round per hash. The result has the hashes after the write, the overwritten ones and the
  buckets of both, in the order of the loop.
\<close>

fun write_loop ::
  "env \<Rightarrow> nat \<Rightarrow> hid list \<Rightarrow> nat \<Rightarrow> byte list \<Rightarrow> (hid list \<times> hid list \<times> nat list \<times> byte list) stor_op" where
  "write_loop E offset [] myOff buf = returnS ([], [], [], buf)"
| "write_loop E offset (h # hs) myOff buf =
     (if offset < myOff + chunkSize \<and> length buf > 0 then
        let newOffset = offset - myOff; newSize = min (length buf) (chunkSize - newOffset) in
        bindS (hash_write E h newOffset (take newSize buf)) (\<lambda>newHsh.
        case newHsh of
          None \<Rightarrow>
            bindS (write_loop E offset hs (myOff + chunkSize) (drop newSize buf)) (\<lambda>(hs', rem, bkts, rest).
            returnS (h # hs', rem, bkts, rest))
        | Some n \<Rightarrow>
            bindS (hash_incRefCnt E n 1) (\<lambda>_.
            bindS (getS (\<lambda>s. [bucket_of (hash_getBucketIndex s n), bucket_of (hash_getBucketIndex s h)])) (\<lambda>b.
            bindS (write_loop E offset hs (myOff + chunkSize) (drop newSize buf)) (\<lambda>(hs', rem, bkts, rest).
            returnS (n # hs', h # rem, b @ bkts, rest)))))
      else
        bindS (write_loop E offset hs (myOff + chunkSize) buf) (\<lambda>(hs', rem, bkts, rest).
        returnS (h # hs', rem, bkts, rest)))"

definition set_order :: "nat list \<Rightarrow> nat list" where
  "set_order xs = sort (remdups xs)"

text \<open>The list grows to the chunks that the new file size needs, and one more for an unaligned offset.\<close>

definition write_grow :: "world \<Rightarrow> fid \<Rightarrow> nat \<Rightarrow> nat \<Rightarrow> unit fs_op" where
  "write_grow W f sz offset =
     bindS (set_INode f (\<lambda>n. if in_size n < offset + sz then n\<lparr>in_size := offset + sz\<rparr> else n)) (\<lambda>_.
     bindS (INode f) (\<lambda>n.
     let numHashes = ceildiv (in_size n) chunkSize + (if 0 < offset mod chunkSize then 1 else 0) in
     bindS (fget f) (\<lambda>x.
     whenS (numHashes \<noteq> plist_getSize (f_hashes x))
       (bindS (assertS (plist_getSize (f_hashes x) < numHashes)) (\<lambda>_.
        let (added, l) = plist_truncateAndReturn (f_hashes x) numHashes zeroHash in
        bindS (fupd f (\<lambda>x. x\<lparr>f_hashes := l\<rparr>)) (\<lambda>_.
        in_stor (hash_incRefCnt (w_env W) zeroHash (length added))))))))"

definition mark_buckets :: "env \<Rightarrow> journalEntry option \<Rightarrow> nat list \<Rightarrow> unit fs_op" where
  "mark_buckets E je bkts =
     in_stor (forS (set_order bkts) (\<lambda>i. inBucket E i (bucket_addChange E (map_option je_id je))))"

text \<open>The \<^verbatim>\<open>try\<close> block of \<^verbatim>\<open>writeInner\<close>.\<close>

definition write_chunks :: "world \<Rightarrow> fid \<Rightarrow> byte list \<Rightarrow> nat \<Rightarrow> journalEntry option \<Rightarrow> unit fs_op" where
  "write_chunks W f buf offset je =
     (let E = w_env W; firstHash = offset div chunkSize;
          num = ceildiv (length buf) chunkSize + (if 0 < offset mod chunkSize then 1 else 0) in
      bindS (fget f) (\<lambda>x.
      let hashes = plist_getRange (f_hashes x) firstHash num in
      bindS (assertS (length hashes = num)) (\<lambda>_.
      bindS (in_stor (write_loop E offset hashes (firstHash * chunkSize) buf)) (\<lambda>(hashes', removed, bkts, rest).
      bindS (assertS (rest = [])) (\<lambda>_.
      bindS (whenS (removed \<noteq> [])
        (bindS (fupd f (\<lambda>x. x\<lparr>f_hashWrites := f_hashWrites x + length removed\<rparr>)) (\<lambda>_.
         bindS (fget f) (\<lambda>x.
         bindS (assertS (fst (plist_updateRange (f_hashes x) firstHash hashes'))) (\<lambda>_.
         bindS (fupd f (\<lambda>x. x\<lparr>f_hashes := snd (plist_updateRange (f_hashes x) firstHash hashes')\<rparr>)) (\<lambda>_.
         bindS (in_stor (forS removed (\<lambda>h. hash_decRefCnt E h 1))) (\<lambda>_.
         mark_buckets E je bkts))))))) (\<lambda>_.
      bindS (currentTime W) (\<lambda>tv.
      set_INode f (\<lambda>n. n\<lparr>in_mtime := tv\<rparr>))))))))"

definition file_writeInner :: "world \<Rightarrow> fid \<Rightarrow> byte list \<Rightarrow> nat \<Rightarrow> journalEntry option \<Rightarrow> nat fs_op" where
  "file_writeInner W f buf offset je =
     bindS (modifyS (\<lambda>t. t\<lparr>fs_writeStats := count_stat (length buf) (fs_writeStats t)\<rparr>)) (\<lambda>_.
     bindS (write_grow W f (length buf) offset) (\<lambda>_.
     bindS (catchS (bindS (write_chunks W f buf offset je) (\<lambda>_. returnS True)) (\<lambda>_. returnS False)) (\<lambda>ok.
     if \<not> ok then returnS 0
     else
       bindS (fget f) (\<lambda>x.
       bindS (whenS (f_hashWrites x > chunksInBucket * 5)
         (bindS (fupd f (\<lambda>x. x\<lparr>f_hashWrites := 0\<rparr>)) (\<lambda>_.
          bindS (rest_unload f) (\<lambda>_. returnS ())))) (\<lambda>_.
       returnS (length buf))))))"

definition file_write :: "world \<Rightarrow> fid \<Rightarrow> byte list \<Rightarrow> nat \<Rightarrow> nat fs_op" where
  "file_write W f buf offset =
     bindS (fget f) (\<lambda>x.
     if \<not> valid_obj x \<or> f_special x \<noteq> SF_REGULAR then returnS 0
     else
       bindS (INode f) (\<lambda>n.
       bindS (journal_add JE_write 0 (in_myID n) 0 0 (int offset) [] buf) (\<lambda>je.
       file_writeInner W f buf offset (Some je))))"

section \<open>truncate\<close>

definition opt_ids :: "hid option list \<Rightarrow> hid list" where
  "opt_ids hs = map the (filter (\<lambda>h. h \<noteq> None) hs)"

definition file_truncateInner :: "world \<Rightarrow> fid \<Rightarrow> nat \<Rightarrow> journalEntry option \<Rightarrow> EE fs_op" where
  "file_truncateInner W f newSize je =
     (let E = w_env W; newNum = ceildiv newSize chunkSize in
      bindS (currentTime W) (\<lambda>tv.
      bindS (file_size f) (\<lambda>sz.
      bindS (whenS (newSize \<noteq> sz) (set_INode f (\<lambda>n. n\<lparr>in_mtime := tv, in_ctime := tv\<rparr>))) (\<lambda>_.
      bindS (fget f) (\<lambda>x.
      let len = plist_getSize (f_hashes x); (ret, l) = plist_truncateAndReturn (f_hashes x) newNum zeroHash in
      bindS (if newNum < len then
               bindS (fupd f (\<lambda>x. x\<lparr>f_hashes := l\<rparr>)) (\<lambda>_.
               bindS (assertS (length ret = len - newNum)) (\<lambda>_.
               bindS (getS (\<lambda>t. map (\<lambda>h. bucket_of (hash_getBucketIndex (fs_stor t) h)) (opt_ids ret))) (\<lambda>bkts.
               bindS (in_stor (forS (opt_ids ret) (\<lambda>h.
                  bindS (hash_decRefCnt E h 1) (\<lambda>_. bindS (hash_rest h) (\<lambda>_. returnS ()))))) (\<lambda>_.
               bindS (assertS (length (opt_ids ret) = len - newNum)) (\<lambda>_. returnS bkts)))))
             else if len < newNum then
               bindS (fupd f (\<lambda>x. x\<lparr>f_hashes := l\<rparr>)) (\<lambda>_.
               bindS (in_stor (hash_incRefCnt E zeroHash (length ret))) (\<lambda>_.
               bindS (getS (\<lambda>t. hash_getBucketIndex (fs_stor t) zeroHash)) (\<lambda>i. returnS [bucket_of i])))
             else returnS []) (\<lambda>bkts.
      bindS (whenS (je \<noteq> None)
        (bindS (mark_buckets E je bkts) (\<lambda>_.
         bindS (INode f) (\<lambda>n. meta_addChange (bucket_of (in_myID n)) je)))) (\<lambda>_.
      bindS (set_INode f (\<lambda>n. n\<lparr>in_size := newSize\<rparr>)) (\<lambda>_.
      bindS (file_rest f) (\<lambda>_.
      returnS EE_ok)))))))))"

section \<open>Replacing the content\<close>

fun swap_loop :: "env \<Rightarrow> nat \<Rightarrow> byte list \<Rightarrow> (hid list \<times> nat list) stor_op" where
  "swap_loop E 0 rest = returnS ([], [])"
| "swap_loop E (Suc n) rest =
     (if rest = [] then returnS ([], [])
      else
        bindS (hash_write E zeroHash 0 (take chunkSize rest)) (\<lambda>newHsh.
        bindS (assertS (newHsh \<noteq> None)) (\<lambda>_.
        bindS (getS (\<lambda>s. bucket_of (hash_getBucketIndex s (the newHsh)))) (\<lambda>b.
        bindS (hash_incRefCnt E (the newHsh) 1) (\<lambda>_.
        bindS (swap_loop E n (drop chunkSize rest)) (\<lambda>(hs, bs).
        returnS (the newHsh # hs, b # bs)))))))"

text \<open>Each round takes at least one byte, so that the length of the content is enough fuel.\<close>

definition file_swapContent :: "world \<Rightarrow> fid \<Rightarrow> byte list \<Rightarrow> journalEntry option \<Rightarrow> bool fs_op" where
  "file_swapContent W f newContent je =
     (let E = w_env W in
      bindS (fget f) (\<lambda>x.
      if \<not> valid_obj x \<or> f_special x \<noteq> SF_REGULAR then returnS False
      else
        bindS (in_stor (swap_loop E (length newContent) newContent)) (\<lambda>(newList, bkts).
        bindS (fget f) (\<lambda>x.
        let (oldList, l) = plist_swap (f_hashes x) newList in
        bindS (fupd f (\<lambda>x. x\<lparr>f_hashes := l\<rparr>)) (\<lambda>_.
        bindS (set_INode f (\<lambda>n. n\<lparr>in_size := length newContent\<rparr>)) (\<lambda>_.
        bindS (currentTime W) (\<lambda>tv.
        bindS (set_INode f (\<lambda>n. n\<lparr>in_mtime := tv\<rparr>)) (\<lambda>_.
        bindS (currentTime W) (\<lambda>tv.
        bindS (set_INode f (\<lambda>n. n\<lparr>in_mtime := tv, in_ctime := tv\<rparr>)) (\<lambda>_.
        bindS (in_stor (forS oldList (\<lambda>h. hash_decRefCnt E h 1))) (\<lambda>_.
        bindS (mark_buckets E je bkts) (\<lambda>_.
        returnS True))))))))))))"

section \<open>Links and handles\<close>

text \<open>\<^verbatim>\<open>readlnk\<close> with the buffer it fills, zeroed first; \<open>None\<close> when it returns false.\<close>

definition file_readlnk :: "world \<Rightarrow> fid \<Rightarrow> nat \<Rightarrow> byte list option fs_op" where
  "file_readlnk W f bufferSize =
     bindS (fget f) (\<lambda>x.
     if \<not> valid_obj x \<or> f_special x \<noteq> SF_REGULAR then returnS None
     else
       bindS (file_type f) (\<lambda>ty.
       if ty \<noteq> FT_LNK then returnS None
       else
         bindS (file_size f) (\<lambda>sz.
         if sz = 0 then returnS (Some (replicate bufferSize 0))
         else
           bindS (file_read W f (min sz bufferSize) 0) (\<lambda>bs.
           if length bs \<noteq> sz then returnS None
           else returnS (Some (list_splice (replicate bufferSize 0) 0 bs))))))"

definition file_open :: "fid \<Rightarrow> unit fs_op" where
  "file_open f = fupd f (\<lambda>x. x\<lparr>f_refs := f_refs x + 1\<rparr>)"

definition file_close :: "fid \<Rightarrow> bool fs_op" where
  "file_close f =
     bindS (fupd f (\<lambda>x. x\<lparr>f_refs := f_refs x - 1\<rparr>)) (\<lambda>_.
     bindS (fget f) (\<lambda>x.
     if f_special x = SF_REGULAR then rest_unload f else returnS False))"

section \<open>Deleting a file\<close>

text \<open>The walk over a chain of continuations, with fuel as in \<open>meta_chain\<close>.\<close>

fun chain_ids :: "nat \<Rightarrow> bucketIndex_t \<Rightarrow> bucketIndex_t list fs_op" where
  "chain_ids 0 i = raiseS Hang"
| "chain_ids (Suc k) i =
     bindS (inoToChunk i) (\<lambda>c.
     bindS (as_ctd c) (\<lambda>n.
     if ct_nextID n = 0 then returnS [ct_myID n]
     else bindS (chain_ids k (ct_nextID n)) (\<lambda>is. returnS (ct_myID n # is))))"

definition chain_from :: "bucketIndex_t \<Rightarrow> bucketIndex_t list fs_op" where
  "chain_from i =
     (if i = 0 then returnS []
      else bindS (getS (\<lambda>t. length (fs_chunks t))) (\<lambda>k. chain_ids (Suc (Suc k)) i))"

definition setDeletedAndReturnAllUsedInodes :: "world \<Rightarrow> fid \<Rightarrow> bucketIndex_t list fs_op" where
  "setDeletedAndReturnAllUsedInodes W f =
     bindS (fupd f (\<lambda>x. x\<lparr>f_deleted := True\<rparr>)) (\<lambda>_.
     bindS (file_truncateInner W f 0 None) (\<lambda>_.
     bindS (INode f) (\<lambda>n.
     bindS (chain_from (in_nextID n)) (\<lambda>content.
     bindS (INode f) (\<lambda>n.
     bindS (chain_from (in_metaID n)) (\<lambda>meta.
     returnS (in_myID n # content @ meta)))))))"

end
