(* ===== verification/File_Dir.thy ===== *)
theory File_Dir
  imports File_Data
begin

text \<open>
  Class \<^verbatim>\<open>file\<close>, part three: directories, whose content is the JSON text of a map from names
  to inode numbers, the metadata properties of a file, and the operations that go through the
  journal (\<^verbatim>\<open>chmod\<close>, \<^verbatim>\<open>chown\<close>, \<^verbatim>\<open>truncate\<close>, \<^verbatim>\<open>replayEntry\<close>)
  (\<^verbatim>\<open>src/src/modules/filesystem/file.cpp\<close>).
\<close>

section \<open>Directory content\<close>

text \<open>\<open>None\<close> is the result false, \<open>Some\<close> the object that the argument is filled with.\<close>

definition readDirectoryContent :: "world \<Rightarrow> fid \<Rightarrow> json option fs_op" where
  "readDirectoryContent W f =
     bindS (file_valid f) (\<lambda>v.
     if \<not> v then returnS None
     else
       bindS (file_type f) (\<lambda>ty.
       bindS (file_size f) (\<lambda>sz.
       if ty = FT_DIR \<and> sz \<noteq> 0 then
         bindS (INode f) (\<lambda>n.
         bindS (file_read W f (in_size n) 0) (\<lambda>content.
         if length content \<noteq> in_size n then returnS None
         else catchS (bindS (liftS (json_unserialize (w_fpu W) make_json (bytes_str content))) (\<lambda>d.
                returnS (Some d))) (\<lambda>_. returnS None)))
       else returnS (Some make_json))))"

definition writeDirectoryContent :: "world \<Rightarrow> fid \<Rightarrow> json \<Rightarrow> journalEntry option \<Rightarrow> bool fs_op" where
  "writeDirectoryContent W f d je =
     bindS (file_valid f) (\<lambda>v.
     if \<not> v then returnS False
     else
       let content = json_serialize (w_fpu W) 0 d;
           content' = (if length content = 2 then [] else content)
       in
       bindS (file_swapContent W f (str_bytes content') je) (\<lambda>r.
       bindS (assertS r) (\<lambda>_.
       bindS (file_rest f) (\<lambda>_.
       returnS True))))"

definition file_addNode ::
  "world \<Rightarrow> fid \<Rightarrow> string \<Rightarrow> cid \<Rightarrow> fs_context \<Rightarrow> journalEntry option \<Rightarrow> EE fs_op" where
  "file_addNode W f name nodeMeta ctx je =
     bindS (file_valid f) (\<lambda>v.
     if \<not> v then returnS EE_entity_not_found
     else
       bindS (validate_access W f ctx AWX ANONE False) (\<lambda>acc.
       if \<not> acc then returnS EE_access_denied
       else
         bindS (readDirectoryContent W f) (\<lambda>d.
         case d of None \<Rightarrow> returnS EE_permission_denied
         | Some directory \<Rightarrow>
             if json_hasProperty directory name then returnS EE_exists
             else
               bindS (as_inode nodeMeta) (\<lambda>n.
               bindS (assertS (in_myID n \<noteq> 0)) (\<lambda>_.
               bindS (liftS (json_set_int (w_fpu W) directory name 0 (int64_of (in_myID n)))) (\<lambda>directory'.
               bindS (writeDirectoryContent W f directory' je) (\<lambda>ok.
               if \<not> ok then returnS EE_io_error
               else
                 bindS (currentTime W) (\<lambda>tv.
                 bindS (set_INode f (\<lambda>n. n\<lparr>in_ctime := tv\<rparr>)) (\<lambda>_.
                 returnS EE_ok)))))))))"

definition file_removeNode ::
  "world \<Rightarrow> fid \<Rightarrow> string \<Rightarrow> fs_context \<Rightarrow> journalEntry option \<Rightarrow> EE fs_op" where
  "file_removeNode W f name ctx je =
     bindS (file_valid f) (\<lambda>v.
     if \<not> v then returnS EE_entity_not_found
     else
       bindS (validate_access W f ctx AWX ANONE False) (\<lambda>acc.
       if \<not> acc then returnS EE_access_denied
       else
         bindS (readDirectoryContent W f) (\<lambda>d.
         case d of None \<Rightarrow> returnS EE_permission_denied
         | Some directory \<Rightarrow>
             if \<not> json_hasProperty directory name then returnS EE_entity_not_found
             else
               let (n, directory') = json_clearProperty directory name in
               if n \<noteq> 1 then returnS EE_entity_not_found
               else
                 bindS (writeDirectoryContent W f directory' je) (\<lambda>ok.
                 if \<not> ok then returnS EE_io_error
                 else
                   bindS (currentTime W) (\<lambda>tv.
                   bindS (set_INode f (\<lambda>n. n\<lparr>in_ctime := tv\<rparr>)) (\<lambda>_.
                   returnS EE_ok))))))"

text \<open>The error code, and the inode number that \<^verbatim>\<open>*id\<close> is set to.\<close>

definition file_hasNode ::
  "world \<Rightarrow> fid \<Rightarrow> string \<Rightarrow> fs_context option \<Rightarrow> (EE \<times> bucketIndex_t) fs_op" where
  "file_hasNode W f name ctx =
     bindS (file_valid f) (\<lambda>v.
     if \<not> v then returnS (EE_entity_not_found, 0)
     else
       bindS (case ctx of None \<Rightarrow> returnS True | Some c \<Rightarrow> validate_access W f c AX ANONE False) (\<lambda>acc.
       if \<not> acc then returnS (EE_access_denied, 0)
       else
         bindS (readDirectoryContent W f) (\<lambda>d.
         case d of None \<Rightarrow> returnS (EE_permission_denied, 0)
         | Some directory \<Rightarrow>
             if \<not> json_hasProperty directory name then returnS (EE_entity_not_found, 0)
             else
               bindS (liftS (json_get_int (w_fpu W) directory name 0 1)) (\<lambda>(i, _).
               returnS (EE_ok, nat64_of i)))))"

text \<open>Names that begin with a slash do not count.\<close>

definition file_isFullDir :: "world \<Rightarrow> fid \<Rightarrow> bool fs_op" where
  "file_isFullDir W f =
     bindS (file_valid f) (\<lambda>v.
     if \<not> v then returnS False
     else
       bindS (file_type f) (\<lambda>ty.
       if ty \<noteq> FT_DIR then returnS False
       else
         bindS (readDirectoryContent W f) (\<lambda>d.
         case d of None \<Rightarrow> returnS True
         | Some directory \<Rightarrow>
             returnS (\<exists>k \<in> set (map fst (jvalues directory)). k \<noteq> [] \<and> hd k \<noteq> CHR ''/''))))"

section \<open>Metadata properties\<close>

definition file_storeMetaProperties :: "world \<Rightarrow> fid \<Rightarrow> unit fs_op" where
  "file_storeMetaProperties W f =
     bindS (fget f) (\<lambda>x.
     whenS (valid_obj x)
       (bindS (INode f) (\<lambda>n.
        whenS (in_myID n \<noteq> 0)
          (let metaString = json_serialize (w_fpu W) 0 (f_extraMeta x) in
           whenS (length metaString > 2) (storeMetaDataInINode (f_meta x) metaString)))))"

text \<open>\<^verbatim>\<open>arr\<close> points at the first element of the list that \<^verbatim>\<open>get<I>\<close> makes.\<close>

definition json_set_ints :: "fpu \<Rightarrow> json \<Rightarrow> string \<Rightarrow> nat list \<Rightarrow> json res" where
  "json_set_ints F j name ns =
     bindR (json_get_int F (snd (json_clearProperty j name)) name 0 (length ns)) (\<lambda>(_, j').
     bindR (lv_int_vec F (json_value j' name)) (\<lambda>xs.
     Inr (json_put j' name (LInt (list_splice xs 0 (map int64_of ns))))))"

definition file_setMetaProperty :: "world \<Rightarrow> fid \<Rightarrow> string \<Rightarrow> nat list \<Rightarrow> unit fs_op" where
  "file_setMetaProperty W f name ns =
     bindS (fget f) (\<lambda>x.
     whenS (valid_obj x)
       (bindS (liftS (json_set_ints (w_fpu W) (f_extraMeta x) name ns)) (\<lambda>j.
        fupd f (\<lambda>x. x\<lparr>f_extraMeta := j\<rparr>))))"

definition file_setMetaProperty_obj :: "fid \<Rightarrow> string \<Rightarrow> json \<Rightarrow> unit fs_op" where
  "file_setMetaProperty_obj f name p =
     bindS (fget f) (\<lambda>x.
     whenS (valid_obj x)
       (bindS (liftS (json_set_obj (f_extraMeta x) name p)) (\<lambda>j.
        fupd f (\<lambda>x. x\<lparr>f_extraMeta := j\<rparr>))))"

section \<open>Operations of the journal\<close>

text \<open>\<^verbatim>\<open>STOR->metaBuckets->getBucket(INode()->myID.bucket())->addChange(je)\<close>, when there is an entry.\<close>

definition note_change :: "fid \<Rightarrow> journalEntry option \<Rightarrow> unit fs_op" where
  "note_change f je =
     whenS (je \<noteq> None) (bindS (INode f) (\<lambda>n. meta_addChange (bucket_of (in_myID n)) je))"

definition file_chmodInner :: "world \<Rightarrow> fid \<Rightarrow> my_mode_t \<Rightarrow> journalEntry option \<Rightarrow> EE fs_op" where
  "file_chmodInner W f md je =
     bindS (currentTime W) (\<lambda>tv.
     bindS (set_INode f (\<lambda>n. n\<lparr>in_mtime := tv, in_ctime := tv\<rparr>)) (\<lambda>_.
     bindS (INode f) (\<lambda>n.
     bindS (assertS (md AND mode_TYPE = mode_type (in_mode n))) (\<lambda>_.
     bindS (set_INode f (\<lambda>n. n\<lparr>in_mode := md\<rparr>)) (\<lambda>_.
     bindS (note_change f je) (\<lambda>_.
     returnS EE_ok))))))"

definition maxUid :: my_uid_t where "maxUid = - 1"
definition maxGid :: my_gid_t where "maxGid = - 1"

definition file_chownInner ::
  "world \<Rightarrow> fid \<Rightarrow> my_uid_t \<Rightarrow> my_gid_t \<Rightarrow> journalEntry option \<Rightarrow> EE fs_op" where
  "file_chownInner W f uid gid je =
     bindS (currentTime W) (\<lambda>tv.
     bindS (set_INode f (\<lambda>n. n\<lparr>in_mtime := tv, in_ctime := tv\<rparr>)) (\<lambda>_.
     bindS (whenS (uid \<noteq> maxUid) (set_INode f (\<lambda>n. n\<lparr>in_uid := uid\<rparr>))) (\<lambda>_.
     bindS (whenS (gid \<noteq> maxGid) (set_INode f (\<lambda>n. n\<lparr>in_gid := gid\<rparr>))) (\<lambda>_.
     bindS (note_change f je) (\<lambda>_.
     returnS EE_ok)))))"

definition file_replayEntry ::
  "world \<Rightarrow> fid \<Rightarrow> journalEntry \<Rightarrow> byte list \<Rightarrow> journalEntry option \<Rightarrow> EE fs_op" where
  "file_replayEntry W f entry dta je =
     bindS (file_valid f) (\<lambda>v.
     if \<not> v then returnS EE_entity_not_found
     else
       (case je_type entry of
          JE_write \<Rightarrow>
            bindS (file_writeInner W f dta (nat (je_offset entry)) None) (\<lambda>n.
            returnS (if n = length (je_data entry) then EE_ok else EE_io_error))
        | JE_chmod \<Rightarrow> file_chmodInner W f (je_mod entry) je
        | JE_chown \<Rightarrow> file_chownInner W f (je_mod entry) (word_of_int (je_offset entry)) je
        | JE_truncate \<Rightarrow> file_truncateInner W f (nat (je_offset entry)) je
        | _ \<Rightarrow> returnS EE_invalid_syscall))"

definition file_chmod :: "world \<Rightarrow> fid \<Rightarrow> my_mode_t \<Rightarrow> fs_context \<Rightarrow> EE fs_op" where
  "file_chmod W f md ctx =
     bindS (file_valid f) (\<lambda>v.
     if \<not> v then returnS EE_entity_not_found
     else
       bindS (file_uid f) (\<lambda>u.
       bindS (if ctx_uid ctx = u then returnS True
              else
                bindS (validate_access W f ctx AW ANONE False) (\<lambda>a.
                if \<not> a then returnS False else validate_ownership f ctx md)) (\<lambda>allowed.
       if \<not> allowed then returnS EE_permission_denied
       else
         bindS (file_gid f) (\<lambda>g.
         let md' = (if ctx_gid ctx \<noteq> g \<and> ctx_uid ctx \<noteq> 0 then mode_clear md mode_FLAG_SGID else md) in
         bindS (INode f) (\<lambda>n.
         bindS (journal_add JE_chmod 0 (in_myID n) 0 md' 0 [] []) (\<lambda>je.
         file_replayEntry W f je [] (Some je)))))))"

definition file_chown :: "world \<Rightarrow> fid \<Rightarrow> my_uid_t \<Rightarrow> my_gid_t \<Rightarrow> fs_context \<Rightarrow> EE fs_op" where
  "file_chown W f uid gid ctx =
     bindS (file_valid f) (\<lambda>v.
     if \<not> v then returnS EE_entity_not_found
     else
       bindS (validate_access W f ctx ANONE ANONE False) (\<lambda>a.
       if \<not> a then returnS EE_access_denied
       else
         bindS (file_uid f) (\<lambda>u.
         if ctx_uid ctx \<noteq> 0 \<and>
            ((uid \<noteq> u \<and> uid \<noteq> maxUid) \<or> u \<noteq> ctx_uid ctx \<or>
             (gid \<notin> ctx_gids ctx \<and> ctx_gid ctx \<noteq> gid \<and> gid \<noteq> maxGid))
         then returnS EE_permission_denied
         else
           bindS (whenS (uid \<noteq> maxUid \<or> gid \<noteq> maxGid)
             (set_INode f (\<lambda>n. n\<lparr>in_mode := mode_clear (in_mode n) (mode_FLAG_SGID OR mode_FLAG_SUID)\<rparr>))) (\<lambda>_.
           bindS (INode f) (\<lambda>n.
           bindS (journal_add JE_chown 0 (in_myID n) 0 uid (uint gid) [] []) (\<lambda>je.
           file_replayEntry W f je [] (Some je)))))))"

definition file_truncate :: "world \<Rightarrow> fid \<Rightarrow> nat \<Rightarrow> EE fs_op" where
  "file_truncate W f newSize =
     bindS (fget f) (\<lambda>x.
     if \<not> valid_obj x \<or> f_special x \<noteq> SF_REGULAR then returnS EE_entity_not_found
     else if maxFileSize < newSize then returnS EE_too_big
     else
       bindS (INode f) (\<lambda>n.
       bindS (journal_add JE_truncate 0 (in_myID n) 0 0 (int newSize) [] []) (\<lambda>je.
       file_replayEntry W f je [] (Some je))))"

end
