(* ===== verification/File_Write.thy ===== *)
theory File_Write
  imports File_Dir Store_Props
begin

text \<open>
  What a write does to the content of a file, over the contract of the storage layer: the loop
  over the hashes, the growth of the list and the whole of \<^verbatim>\<open>writeInner\<close>.
\<close>

section \<open>Content in blocks\<close>

text \<open>Every chunk of a content may be stored.\<close>

definition chunks_legal :: "chunk set \<Rightarrow> byte list \<Rightarrow> bool" where
  "chunks_legal U bs \<longleftrightarrow>
     (\<forall>i. i * chunkSize < length bs \<longrightarrow> take chunkSize (drop (i * chunkSize) bs) \<in> U)"

lemma chunks_legal_cons:
  assumes "length c = chunkSize"
  shows "chunks_legal U (c @ bs) \<longleftrightarrow> c \<in> U \<and> chunks_legal U bs"
proof
  assume l: "chunks_legal U (c @ bs)"
  have "c \<in> U" using l [unfolded chunks_legal_def, rule_format, of 0] assms by simp
  moreover have "take chunkSize (drop (i * chunkSize) bs) \<in> U" if "i * chunkSize < length bs" for i
    using l [unfolded chunks_legal_def, rule_format, of "Suc i"] that assms by simp
  ultimately show "c \<in> U \<and> chunks_legal U bs" by (simp add: chunks_legal_def)
next
  assume r: "c \<in> U \<and> chunks_legal U bs"
  show "chunks_legal U (c @ bs)"
    unfolding chunks_legal_def
  proof (intro allI impI)
    fix i assume "i * chunkSize < length (c @ bs)"
    then show "take chunkSize (drop (i * chunkSize) (c @ bs)) \<in> U"
      using r assms by (cases i) (simp_all add: chunks_legal_def)
  qed
qed

lemma chunks_legal_Nil [simp]: "chunks_legal U []"
  by (simp add: chunks_legal_def)

lemma chunks_legal_replicate:
  "length c = chunkSize \<Longrightarrow> c \<in> U \<Longrightarrow> chunks_legal U (concat (replicate n c))"
  by (induction n) (simp_all add: chunks_legal_cons)

lemma splice_block:
  assumes "o1 \<le> length c" "m = min (length buf) (length c - o1)"
  shows "list_splice (c @ ds) o1 buf = list_splice c o1 (take m buf) @ list_splice ds 0 (drop m buf)"
proof (cases "length buf \<le> length c - o1")
  case True
  then have "m = length buf" "o1 + length buf \<le> length c" using assms by simp_all
  then show ?thesis by (simp add: list_splice_append_left)
next
  case False
  then have m: "m = length c - o1" using assms by simp
  then have "length c = o1 + length (take m buf)" using assms False by simp
  then have "list_splice (c @ ds) o1 (take m buf @ drop m buf) =
      list_splice c o1 (take m buf) @ list_splice ds 0 (drop m buf)"
    using assms(1) by (intro list_splice_append_both) simp_all
  then show ?thesis by simp
qed

section \<open>The loop of a write\<close>

definition data_of :: "env \<Rightarrow> stor \<Rightarrow> hid list \<Rightarrow> byte list" where
  "data_of E s hs = concat (map (hcontent E s) hs)"

lemma data_of_simps [simp]:
  "data_of E s [] = []"
  "data_of E s (h # hs) = hcontent E s h @ data_of E s hs"
  "data_of E s (hs @ gs) = data_of E s hs @ data_of E s gs"
  by (simp_all add: data_of_def)

text \<open>A step of the storage that changes no hash that was live.\<close>

definition steady :: "env \<Rightarrow> stor \<Rightarrow> stor \<Rightarrow> bool" where
  "steady E s s' \<longleftrightarrow> (\<forall>g. alive s g \<longrightarrow> alive s' g \<and> hcontent E s' g = hcontent E s g)"

lemma steady_refl [simp]: "steady E s s"
  by (simp add: steady_def)

lemma steady_trans: "steady E a b \<Longrightarrow> steady E b c \<Longrightarrow> steady E a c"
  by (simp add: steady_def)

lemma steadyD: "steady E s s' \<Longrightarrow> alive s g \<Longrightarrow> alive s' g \<and> hcontent E s' g = hcontent E s g"
  by (simp add: steady_def)

lemma data_of_steady: "steady E s s' \<Longrightarrow> \<forall>h \<in> set hs. alive s h \<Longrightarrow> data_of E s' hs = data_of E s hs"
  by (induction hs) (simp_all add: steadyD)

lemma data_of_length:
  "store_inv E U R s \<Longrightarrow> \<forall>h \<in> set hs. alive s h \<Longrightarrow> length (data_of E s hs) = length hs * chunkSize"
  by (induction hs) (simp_all add: cs.content_length)

definition wrote ::
  "env \<Rightarrow> chunk set \<Rightarrow> (hid \<Rightarrow> nat) \<Rightarrow> stor \<Rightarrow> hid list \<Rightarrow> byte list \<Rightarrow> nat \<Rightarrow>
   hid list \<times> hid list \<times> nat list \<times> byte list \<Rightarrow> stor \<Rightarrow> bool" where
  "wrote E U R s hs new k r s' \<longleftrightarrow> (case r of (hs', removed, bkts, rest) \<Rightarrow>
     rest = [] \<and> length hs' = length hs \<and> (\<forall>h \<in> set hs'. alive s' h) \<and> data_of E s' hs' = new \<and>
     (removed = [] \<longrightarrow> hs' = hs) \<and> length removed \<le> length hs \<and>
     (\<forall>i \<in> set bkts. log_ok E s' i) \<and> (\<forall>i. log_ok E s i \<longrightarrow> log_ok E s' i) \<and>
     stor_room s' k \<and> steady E s s' \<and>
     (\<exists>R'. store_inv E U R' s' \<and>
        (\<forall>g. R' g + count_list hs g = R g + count_list hs' g + count_list removed g)))"

lemma wroteD:
  assumes "wrote E U R s hs new k (hs', removed, bkts, rest) t"
  shows "rest = []" "length hs' = length hs" "\<forall>h \<in> set hs'. alive t h" "data_of E t hs' = new"
    "removed = [] \<longrightarrow> hs' = hs" "length removed \<le> length hs" "\<forall>i \<in> set bkts. log_ok E t i"
    "\<forall>i. log_ok E s i \<longrightarrow> log_ok E t i" "stor_room t k" "steady E s t"
    "\<exists>R'. store_inv E U R' t \<and>
        (\<forall>g. R' g + count_list hs g = R g + count_list hs' g + count_list removed g)"
  using assms by (simp_all add: wrote_def)

text \<open>A hash that the round leaves as it is, after a step from \<open>s\<close> to \<open>u\<close>.\<close>

lemma wrote_keep:
  assumes "wrote E U R u hs new k (hs', removed, bkts, rest) t" "alive s h" "steady E s u"
    and "\<forall>i. log_ok E s i \<longrightarrow> log_ok E u i"
  shows "wrote E U R s (h # hs) (hcontent E s h @ new) k (h # hs', removed, bkts, rest) t"
proof -
  note w = wroteD [OF assms(1)]
  have st: "steady E s t" by (rule steady_trans [OF assms(3) w(10)])
  obtain R' where "store_inv E U R' t"
    "\<forall>g. R' g + count_list hs g = R g + count_list hs' g + count_list removed g" using w(11) by blast
  then have "\<exists>R'. store_inv E U R' t \<and>
      (\<forall>g. R' g + count_list (h # hs) g = R g + count_list (h # hs') g + count_list removed g)"
    by (intro exI [of _ R']) simp
  with w st steadyD [OF st assms(2)] assms(4) show ?thesis by (simp add: wrote_def)
qed

text \<open>A hash that is replaced by another one, which gets a reference.\<close>

lemma wrote_new:
  assumes "wrote E U (R(n := R n + 1)) u hs new k (hs', removed, bkts, rest) t"
    and "alive u n" "hcontent E u n = c" "steady E s u" "\<forall>i. log_ok E s i \<longrightarrow> log_ok E u i"
    and "\<forall>i \<in> set bs. log_ok E u i"
  shows "wrote E U R s (h # hs) (c @ new) k (n # hs', h # removed, bs @ bkts, rest) t"
proof -
  note w = wroteD [OF assms(1)]
  have st: "steady E s t" by (rule steady_trans [OF assms(4) w(10)])
  obtain R' where R': "store_inv E U R' t"
    "\<And>g. R' g + count_list hs g = (R(n := R n + 1)) g + count_list hs' g + count_list removed g"
    using w(11) by blast
  have "R' g + count_list (h # hs) g = R g + count_list (n # hs') g + count_list (h # removed) g" for g
    using R'(2) [of g] by simp
  with R'(1) have "\<exists>R'. store_inv E U R' t \<and>
      (\<forall>g. R' g + count_list (h # hs) g = R g + count_list (n # hs') g + count_list (h # removed) g)"
    by blast
  moreover have "\<forall>i \<in> set (bs @ bkts). log_ok E t i" "\<forall>i. log_ok E s i \<longrightarrow> log_ok E t i"
    using assms(5,6) w(7,8) by auto
  ultimately show ?thesis using w st steadyD [OF w(10) assms(2)] assms(3) by (simp add: wrote_def)
qed

lemma wp_write_loop:
  assumes "store_inv E U R s" "\<forall>h \<in> set hs. alive s h" "offset < my + chunkSize"
    and "(offset - my) + length buf \<le> length hs * chunkSize"
    and "chunks_legal U (list_splice (data_of E s hs) (offset - my) buf)"
    and "stor_room s (length hs + k)"
  shows "wp (write_loop E offset hs my buf)
    (wrote E U R s hs (list_splice (data_of E s hs) (offset - my) buf) k) s"
  using assms
proof (induction hs arbitrary: my buf s R)
  case Nil
  then show ?case by (auto simp: wrote_def)
next
  case (Cons h hs)
  let ?c = "hcontent E s h" and ?o = "offset - my"
  have al: "alive s h" "\<forall>g \<in> set hs. alive s g" using Cons.prems(2) by simp_all
  have len: "length ?c = chunkSize" by (rule cs.content_length [OF Cons.prems(1) al(1)])
  have off': "offset < (my + chunkSize) + chunkSize" "offset - (my + chunkSize) = 0"
    using Cons.prems(3) by simp_all
  show ?case
  proof (cases "buf = []")
    case True
    have room: "stor_room s (length hs + k)" using Cons.prems(6) by (simp add: stor_room_less)
    have leg: "chunks_legal U (list_splice (data_of E s hs) (offset - (my + chunkSize)) [])"
      using Cons.prems(5) True by (simp add: chunks_legal_cons [OF len])
    have ih: "wp (write_loop E offset hs (my + chunkSize) [])
      (wrote E U R s hs (list_splice (data_of E s hs) (offset - (my + chunkSize)) []) k) s"
      by (rule Cons.IH [OF Cons.prems(1) al(2) off'(1) _ leg room]) (use off' in simp)
    have "wp (write_loop E offset (h # hs) my []) (wrote E U R s (h # hs) (data_of E s (h # hs)) k) s"
      by (simp only: write_loop.simps list.size less_irrefl simp_thms if_False wp_bind, rule wp_mono [OF ih])
        (auto intro!: wrote_keep [OF _ al(1) steady_refl])
    then show ?thesis using True by simp
  next
    case False
    define m where "m = min (length buf) (chunkSize - ?o)"
    let ?new = "list_splice ?c ?o (take m buf)" and ?buf = "drop m buf"
    have o: "?o \<le> length ?c" using Cons.prems(3) len by simp
    have split: "list_splice (data_of E s (h # hs)) ?o buf = ?new @ list_splice (data_of E s hs) 0 ?buf"
      unfolding data_of_simps by (rule splice_block [OF o]) (simp add: m_def len)
    have fits: "?o + length (take m buf) \<le> chunkSize" using o len by (simp add: m_def)
    have nlen: "length ?new = chunkSize" using fits len by simp
    have leg: "?new \<in> U" "chunks_legal U (list_splice (data_of E s hs) 0 ?buf)"
      using Cons.prems(5) by (simp_all only: split chunks_legal_cons [OF nlen])
    have blen: "offset - (my + chunkSize) + length ?buf \<le> length hs * chunkSize"
      using Cons.prems(3,4) o len by (auto simp: m_def min_def)
    have room: "stor_room s (Suc (length hs + k))" using Cons.prems(6) by simp
    have next_ok: "wp (write_loop E offset hs (my + chunkSize) ?buf)
        (wrote E U R' u hs (list_splice (data_of E s hs) 0 ?buf) k) u"
      if "store_inv E U R' u" "steady E s u" "stor_room u (length hs + k)" for R' u
    proof -
      have d: "data_of E u hs = data_of E s hs" by (rule data_of_steady [OF that(2) al(2)])
      have "\<forall>g \<in> set hs. alive u g" using al(2) that(2) by (simp add: steadyD)
      from Cons.IH [OF that(1) this off'(1) blen _ that(3)] leg(2) show ?thesis
        by (simp add: off'(2) d)
    qed
    have c: "(offset < my + chunkSize \<and> 0 < length buf) = True" using Cons.prems(3) False by simp
    show ?thesis
      unfolding write_loop.simps c if_True Let_def wp_bind split m_def [symmetric]
    proof (rule wp_mono [OF cs.write_law [OF Cons.prems(1) al(1) fits leg(1) room]], elim conjE)
      fix r u
      assume u: "store_inv E U R u" "stor_room u (length hs + k)"
        "\<forall>g. alive s g \<longrightarrow> alive u g \<and> hcontent E u g = hcontent E s g"
        "\<forall>i. log_ok E s i \<longrightarrow> log_ok E u i"
        "case r of None \<Rightarrow> ?new = ?c | Some n \<Rightarrow> alive u n \<and> hcontent E u n = ?new"
      have st: "steady E s u" using u(3) by (simp add: steady_def)
      show "wp (case r of
          None \<Rightarrow> bindS (write_loop E offset hs (my + chunkSize) ?buf) (\<lambda>(hs', rem, bkts, rest).
            returnS (h # hs', rem, bkts, rest))
        | Some n \<Rightarrow> bindS (hash_incRefCnt E n 1) (\<lambda>_.
            bindS (getS (\<lambda>s. [bucket_of (hash_getBucketIndex s n), bucket_of (hash_getBucketIndex s h)])) (\<lambda>b.
            bindS (write_loop E offset hs (my + chunkSize) ?buf) (\<lambda>(hs', rem, bkts, rest).
            returnS (n # hs', h # rem, b @ bkts, rest)))))
        (wrote E U R s (h # hs) (?new @ list_splice (data_of E s hs) 0 ?buf) k) u"
      proof (cases r)
        case None
        have e: "?new = ?c" using u(5) None by simp
        show ?thesis
          unfolding None option.case wp_bind
          by (rule wp_mono [OF next_ok [OF u(1) st u(2)]])
            (use u(4) in \<open>auto simp: e intro!: wrote_keep [OF _ al(1) st]\<close>)
      next
        case (Some n)
        have n: "alive u n" "hcontent E u n = ?new" using u(5) Some by simp_all
        show ?thesis
          unfolding Some option.case wp_bind
        proof (rule wp_mono [OF cs.inc_law [OF u(1) n(1), of 1]], elim conjE)
          fix v assume v: "store_inv E U (R(n := R n + 1)) v" "\<forall>k. stor_room u k \<longrightarrow> stor_room v k"
            "\<forall>g. alive u g \<longrightarrow> alive v g \<and> hcontent E v g = hcontent E u g"
            "\<forall>i. log_ok E u i \<longrightarrow> log_ok E v i"
          have st': "steady E u v" using v(3) by (simp add: steady_def)
          have sv: "steady E s v" by (rule steady_trans [OF st st'])
          let ?bs = "[bucket_of (hash_getBucketIndex v n), bucket_of (hash_getBucketIndex v h)]"
          have bs: "\<forall>i \<in> set ?bs. log_ok E v i"
            using cs.live_markable [OF v(1)] steadyD [OF st' n(1)] steadyD [OF sv al(1)] by simp
          have room': "stor_room v (length hs + k)" using v(2) u(2) by blast
          have nv: "alive v n" "hcontent E v n = ?new" using steadyD [OF st' n(1)] n by simp_all
          have "\<forall>i. log_ok E s i \<longrightarrow> log_ok E v i" using u(4) v(4) by simp
          note new = wrote_new [OF _ nv sv this bs, simplified]
          have "wp (write_loop E offset hs (my + chunkSize) ?buf) (\<lambda>(hs', rem, bkts, rest).
              wrote E U R s (h # hs) (?new @ list_splice (data_of E s hs) 0 ?buf) k
                (n # hs', h # rem, ?bs @ bkts, rest)) v"
            by (rule wp_mono [OF next_ok [OF v(1) sv room']]) (auto intro!: new)
          then show "wp (getS (\<lambda>s. [bucket_of (hash_getBucketIndex s n), bucket_of (hash_getBucketIndex s h)]))
              (\<lambda>b. wp (write_loop E offset hs (my + chunkSize) ?buf)
                (\<lambda>x. wp (case x of (hs', rem, bkts, rest) \<Rightarrow> returnS (n # hs', h # rem, b @ bkts, rest))
                  (wrote E U R s (h # hs) (?new @ list_splice (data_of E s hs) 0 ?buf) k))) v"
            unfolding wp_get by (rule wp_mono) (auto split: prod.splits)
        qed
      qed
    qed
  qed
qed

section \<open>The state of one file\<close>

lemma wp_fget [simp, wp_simps]: "wpx A (fget f) Q = (\<lambda>t. Q (fs_files t ! f) t)"
  by (simp add: fget_def)

lemma wp_fupd [simp, wp_simps]:
  "wpx A (fupd f g) Q = (\<lambda>t. Q () (t\<lparr>fs_files := (fs_files t)[f := g (fs_files t ! f)]\<rparr>))"
  by (simp add: fupd_def)

lemma wp_in_stor [simp, wp_simps]:
  "wpx A (in_stor m) Q = (\<lambda>t. wpx A m (\<lambda>x s. Q x (t\<lparr>fs_stor := s\<rparr>)) (fs_stor t))"
  by (simp add: in_stor_def)

lemma wp_currentTime [simp, wp_simps]:
  "wpx A (currentTime W) Q = (\<lambda>t. Q (w_time W (fs_clock t)) (t\<lparr>fs_clock := Suc (fs_clock t)\<rparr>))"
  by (simp add: currentTime_def fun_eq_iff)

definition meta_of :: "fsys \<Rightarrow> fid \<Rightarrow> metachunk" where
  "meta_of t f = fs_chunks t ! f_meta (fs_files t ! f)"

definition has_node :: "fsys \<Rightarrow> fid \<Rightarrow> inode \<Rightarrow> bool" where
  "has_node t f n \<longleftrightarrow> f < length (fs_files t) \<and> f_meta (fs_files t ! f) < length (fs_chunks t) \<and>
     fs_chunks t ! f_meta (fs_files t ! f) = MNode n"

lemma wp_INode: "has_node t f n \<Longrightarrow> wpx A (INode f) Q t = Q n t"
  by (simp add: INode_def as_inode_def has_node_def)

definition put_node :: "fid \<Rightarrow> inode \<Rightarrow> fsys \<Rightarrow> fsys" where
  "put_node f n t = t\<lparr>fs_chunks := (fs_chunks t)[f_meta (fs_files t ! f) := MNode n]\<rparr>"

lemma wp_set_INode: "has_node t f n \<Longrightarrow> wpx A (set_INode f g) Q t = Q () (put_node f (g n) t)"
  by (simp add: set_INode_def upd_inode_def as_inode_def has_node_def set_chunk_def put_node_def)

lemma put_node_simps [simp]:
  "fs_stor (put_node f n t) = fs_stor t" "fs_files (put_node f n t) = fs_files t"
  "fs_clock (put_node f n t) = fs_clock t" "fs_slots (put_node f n t) = fs_slots t"
  "fs_writeStats (put_node f n t) = fs_writeStats t" "fs_readStats (put_node f n t) = fs_readStats t"
  "fs_inodeCache (put_node f n t) = fs_inodeCache t" "fs_journal (put_node f n t) = fs_journal t"
  "fs_metaLoaded (put_node f n t) = fs_metaLoaded t"
  "length (fs_chunks (put_node f n t)) = length (fs_chunks t)"
  by (simp_all add: put_node_def)

lemma has_node_put [simp]: "has_node t f m \<Longrightarrow> has_node (put_node f n t) f n"
  by (simp add: has_node_def put_node_def)

text \<open>The handle of a file changed, but not where its inode is.\<close>

definition put_file :: "fid \<Rightarrow> fileobj \<Rightarrow> fsys \<Rightarrow> fsys" where
  "put_file f x t = t\<lparr>fs_files := (fs_files t)[f := x]\<rparr>"

lemma has_node_file [simp]:
  "has_node t f n \<Longrightarrow> f_meta x = f_meta (fs_files t ! f) \<Longrightarrow>
     has_node (t\<lparr>fs_files := (fs_files t)[f := x]\<rparr>) f n"
  by (simp add: has_node_def)

lemma has_node_frame [simp]:
  "has_node (t\<lparr>fs_stor := s\<rparr>) f n = has_node t f n"
  "has_node (t\<lparr>fs_clock := c\<rparr>) f n = has_node t f n"
  "has_node (t\<lparr>fs_writeStats := ws\<rparr>) f n = has_node t f n"
  "has_node (t\<lparr>fs_readStats := ws\<rparr>) f n = has_node t f n"
  by (simp_all add: has_node_def)

lemma nth_file_upd [simp]:
  "has_node t f n \<Longrightarrow> (fs_files t)[f := x] ! f = x"
  by (simp add: has_node_def)

definition refs_of :: "fsys \<Rightarrow> fid \<Rightarrow> hid list" where
  "refs_of t f = pl_list (f_hashes (fs_files t ! f))"

text \<open>The content of a file: all bytes of its chunks. The file ends at \<open>in_size\<close> bytes.\<close>

definition file_bytes :: "env \<Rightarrow> fsys \<Rightarrow> fid \<Rightarrow> byte list" where
  "file_bytes E t f = data_of E (fs_stor t) (refs_of t f)"

text \<open>
  A file that is loaded: its list counts among the references \<open>R\<close>, and the zero hash is
  referenced from elsewhere, too.
\<close>

definition file_ready :: "env \<Rightarrow> chunk set \<Rightarrow> (hid \<Rightarrow> nat) \<Rightarrow> fsys \<Rightarrow> fid \<Rightarrow> bool" where
  "file_ready E U R t f \<longleftrightarrow> store_inv E U R (fs_stor t) \<and> plist_inv (f_hashes (fs_files t ! f)) \<and>
     (\<forall>g. count_list (refs_of t f) g \<le> R g) \<and> count_list (refs_of t f) zeroHash < R zeroHash \<and>
     hcontent E (fs_stor t) zeroHash = zero_chunk"

text \<open>References move from one list to another; the hashes that others refer to stay as they are.\<close>

definition rewired :: "(hid \<Rightarrow> nat) \<Rightarrow> hid list \<Rightarrow> (hid \<Rightarrow> nat) \<Rightarrow> hid list \<Rightarrow> bool" where
  "rewired R old R' new \<longleftrightarrow> (\<forall>g. R' g + count_list old g = R g + count_list new g)"

definition shared_kept :: "env \<Rightarrow> (hid \<Rightarrow> nat) \<Rightarrow> hid list \<Rightarrow> stor \<Rightarrow> stor \<Rightarrow> bool" where
  "shared_kept E R old s s' \<longleftrightarrow>
     (\<forall>g. count_list old g < R g \<longrightarrow> alive s' g \<and> hcontent E s' g = hcontent E s g)"

lemma ready_alive:
  assumes "file_ready E U R t f" shows "\<forall>h \<in> set (refs_of t f). alive (fs_stor t) h"
proof
  fix h assume "h \<in> set (refs_of t f)"
  then have "0 < count_list (refs_of t f) h" using count_list_0_iff by fastforce
  then have "0 < R h" using assms by (metis file_ready_def order_less_le_trans)
  then show "alive (fs_stor t) h" using assms cs.ref_live by (auto simp: file_ready_def)
qed

lemma ready_zero: "file_ready E U R t f \<Longrightarrow> alive (fs_stor t) zeroHash"
  using cs.ref_live by (metis file_ready_def gr0I not_less_zero)

lemma rewiredD: "rewired R old R' new \<Longrightarrow> R' g + count_list old g = R g + count_list new g"
  by (simp add: rewired_def)

lemma rewired_refl [simp]: "rewired R l R l"
  by (simp add: rewired_def)

lemma rewired_trans:
  assumes "rewired A a B b" "rewired B b C c" shows "rewired A a C c"
  unfolding rewired_def
proof
  fix g
  show "C g + count_list a g = A g + count_list c g"
    using rewiredD [OF assms(1), of g] rewiredD [OF assms(2), of g] by linarith
qed

lemma rewired_less: "rewired R old R' new \<Longrightarrow> count_list old g < R g \<Longrightarrow> count_list new g < R' g"
  using rewiredD [of R old R' new g] by linarith

lemma rewired_le: "rewired R old R' new \<Longrightarrow> count_list old g \<le> R g \<Longrightarrow> count_list new g \<le> R' g"
  using rewiredD [of R old R' new g] by linarith

lemma steady_shared:
  "store_inv E U R s \<Longrightarrow> steady E s s' \<Longrightarrow> shared_kept E R old s s'"
  unfolding shared_kept_def using cs.ref_live steadyD by (metis gr0I not_less_zero)

lemma shared_kept_trans:
  "rewired R old R' new \<Longrightarrow> shared_kept E R old a b \<Longrightarrow> shared_kept E R' new b c \<Longrightarrow> shared_kept E R old a c"
  by (simp add: shared_kept_def rewired_less)

end
