(* ===== verification/File_Writer.thy ===== *)
theory File_Writer
  imports File_Write
begin

text \<open>
  The whole of \<^verbatim>\<open>file::writeInner\<close> (\<^verbatim>\<open>src/src/modules/filesystem/file.cpp\<close>):
  growing the list of hashes, writing the chunks, giving back the overwritten hashes and noting the
  journal entry, in total correctness over the contract of the storage layer.
\<close>

section \<open>Lists of chunks\<close>

lemma chunks_legal_append:
  "length a = n * chunkSize \<Longrightarrow> chunks_legal U (a @ b) \<longleftrightarrow> chunks_legal U a \<and> chunks_legal U b"
proof (induction n arbitrary: a)
  case (Suc n)
  define c d where "c = take chunkSize a" and "d = drop chunkSize a"
  have a: "a = c @ d" and c: "length c = chunkSize" and d: "length d = n * chunkSize"
    using Suc.prems by (simp_all add: c_def d_def)
  show ?case by (simp only: a append_assoc chunks_legal_cons [OF c] Suc.IH [OF d] conj_assoc)
qed simp

lemma splice_middle:
  assumes "length a \<le> off" "off + length buf \<le> length a + length d"
  shows "list_splice (a @ d @ b) off buf = a @ list_splice d (off - length a) buf @ b"
  using assms by (simp add: list_splice_append_right list_splice_append_left)

lemma data_of_replicate: "data_of E s (replicate n h) = concat (replicate n (hcontent E s h))"
  by (simp add: data_of_def)

lemma count_list_replicate: "count_list (replicate n x) y = (if x = y then n else 0)"
  by (induction n) auto

section \<open>Growing the list\<close>

definition chunks_after :: "inode \<Rightarrow> nat \<Rightarrow> nat \<Rightarrow> nat" where
  "chunks_after n sz offset =
     ceildiv (max (in_size n) (offset + sz)) chunkSize + (if 0 < offset mod chunkSize then 1 else 0)"

definition grown :: "nat \<Rightarrow> fileobj \<Rightarrow> fileobj" where
  "grown k x = x\<lparr>f_hashes := \<lparr>pl_list = pl_list (f_hashes x) @ replicate k zeroHash,
                               pl_size = pl_size (f_hashes x) + k\<rparr>\<rparr>"

lemma grown_0 [simp]: "grown 0 x = x"
  by (cases x) (simp add: grown_def)

lemma plist_grow:
  assumes "plist_inv l" "0 < k"
  shows "plist_truncateAndReturn l (length (pl_list l) + k) z =
    (replicate k None, \<lparr>pl_list = pl_list l @ replicate k z, pl_size = length (pl_list l) + k\<rparr>)"
  using assms by (simp add: plist_truncateAndReturn_def plist_inv_def vec_resize_grow)

lemma wp_write_grow_step:
  assumes "plist_inv (f_hashes (fs_files t ! f))" "has_node t f n"
    and "length (refs_of t f) \<le> chunks_after n sz offset"
    and "k = chunks_after n sz offset - length (refs_of t f)"
  defines "t1 \<equiv> put_node f (n\<lparr>in_size := max (in_size n) (offset + sz)\<rparr>) t"
  shows "wp (write_grow W f sz offset) Q t =
    (if k = 0 then Q () t1
     else wp (hash_incRefCnt (w_env W) zeroHash k) (\<lambda>_ s. Q () (t1\<lparr>
        fs_files := (fs_files t)[f := grown k (fs_files t ! f)], fs_stor := s\<rparr>)) (fs_stor t))"
proof -
  let ?n = "if in_size n < offset + sz then n\<lparr>in_size := offset + sz\<rparr> else n"
  have n: "?n = n\<lparr>in_size := max (in_size n) (offset + sz)\<rparr>" by (cases n) auto
  let ?x = "fs_files t ! f" and ?N = "chunks_after n sz offset"
  have hn: "has_node t1 f ?n" unfolding t1_def n [symmetric] using assms(2) by simp
  have t1: "fs_files t1 = fs_files t" "fs_stor t1 = fs_stor t" by (simp_all add: t1_def)
  have sz: "pl_size (f_hashes ?x) = length (refs_of t f)"
    using assms(1) by (simp add: plist_inv_def refs_of_def)
  have N: "ceildiv (in_size ?n) chunkSize + (if 0 < offset mod chunkSize then 1 else 0) = ?N"
    by (simp add: chunks_after_def max_def)
  have "wp (write_grow W f sz offset) Q t =
    wp (INode f) (\<lambda>n. wp (let numHashes = ceildiv (in_size n) chunkSize + (if 0 < offset mod chunkSize then 1 else 0) in
     bindS (fget f) (\<lambda>x.
     whenS (numHashes \<noteq> plist_getSize (f_hashes x))
       (bindS (assertS (plist_getSize (f_hashes x) < numHashes)) (\<lambda>_.
        let (added, l) = plist_truncateAndReturn (f_hashes x) numHashes zeroHash in
        bindS (fupd f (\<lambda>x. x\<lparr>f_hashes := l\<rparr>)) (\<lambda>_.
        in_stor (hash_incRefCnt (w_env W) zeroHash (length added))))))) Q) t1"
    by (simp only: write_grow_def wp_bind wp_set_INode [OF assms(2)] n t1_def)
  also have "\<dots> = wp (bindS (fget f) (\<lambda>x.
     whenS (?N \<noteq> plist_getSize (f_hashes x))
       (bindS (assertS (plist_getSize (f_hashes x) < ?N)) (\<lambda>_.
        let (added, l) = plist_truncateAndReturn (f_hashes x) ?N zeroHash in
        bindS (fupd f (\<lambda>x. x\<lparr>f_hashes := l\<rparr>)) (\<lambda>_.
        in_stor (hash_incRefCnt (w_env W) zeroHash (length added))))))) Q t1"
    unfolding wp_INode [OF hn] N Let_def by simp
  also have "\<dots> = (if k = 0 then Q () t1
     else wp (hash_incRefCnt (w_env W) zeroHash k) (\<lambda>_ s. Q () (t1\<lparr>
        fs_files := (fs_files t)[f := grown k ?x], fs_stor := s\<rparr>)) (fs_stor t))"
  proof (cases "?N = length (refs_of t f)")
    case True
    then show ?thesis using assms(4) by (simp add: t1 plist_getSize_def sz)
  next
    case False
    have less: "pl_size (f_hashes ?x) < ?N" using False assms(3) sz by simp
    have k: "?N - length (refs_of t f) = k" "0 < k" "?N = length (refs_of t f) + k"
      using assms(3,4) False by simp_all
    show ?thesis
      using False less k
      by (simp add: t1 plist_getSize_def sz plist_grow [OF assms(1) k(2)] grown_def refs_of_def Let_def)
  qed
  finally show ?thesis .
qed


text \<open>The state after the list has grown by \<open>k\<close> zero hashes.\<close>

lemma wp_write_grow:
  assumes "file_ready (w_env W) U R t f" "has_node t f n"
    and "length (refs_of t f) \<le> chunks_after n sz offset"
    and "k = chunks_after n sz offset - length (refs_of t f)"
    and "\<And>s' R'. steady (w_env W) (fs_stor t) s' \<Longrightarrow> store_inv (w_env W) U R' s' \<Longrightarrow>
      rewired R (refs_of t f) R' (refs_of t f @ replicate k zeroHash) \<Longrightarrow>
      (\<And>m. stor_room (fs_stor t) m \<Longrightarrow> stor_room s' m) \<Longrightarrow>
      Q () ((put_node f (n\<lparr>in_size := max (in_size n) (offset + sz)\<rparr>) t)\<lparr>
        fs_files := (fs_files t)[f := grown k (fs_files t ! f)], fs_stor := s'\<rparr>)"
  shows "wp (write_grow W f sz offset) Q t"
proof -
  have si: "store_inv (w_env W) U R (fs_stor t)" and pl: "plist_inv (f_hashes (fs_files t ! f))"
    using assms(1) by (simp_all add: file_ready_def)
  let ?t1 = "put_node f (n\<lparr>in_size := max (in_size n) (offset + sz)\<rparr>) t"
  show ?thesis
  proof (cases "k = 0")
    case True
    have "Q () (?t1\<lparr>fs_files := (fs_files t)[f := grown k (fs_files t ! f)], fs_stor := fs_stor t\<rparr>)"
      by (rule assms(5) [of "fs_stor t" R]) (use si True in simp_all)
    moreover have "?t1\<lparr>fs_files := (fs_files t)[f := grown k (fs_files t ! f)], fs_stor := fs_stor t\<rparr> = ?t1"
      using True by (simp add: put_node_def)
    ultimately have "Q () ?t1" by metis
    with True show ?thesis by (simp add: wp_write_grow_step [OF pl assms(2,3,4)])
  next
    case False
    have "rewired R (refs_of t f) (R(zeroHash := R zeroHash + k)) (refs_of t f @ replicate k zeroHash)"
      by (simp add: rewired_def count_list_replicate)
    with False show ?thesis
      by (simp only: wp_write_grow_step [OF pl assms(2,3,4)] if_False)
        (rule wp_mono [OF cs.inc_law [OF si ready_zero [OF assms(1)]]], blast intro: assms(5) [unfolded steady_def])
  qed
qed


section \<open>Writing the chunks\<close>

definition chunks_in :: "nat \<Rightarrow> nat \<Rightarrow> nat" where
  "chunks_in sz offset = ceildiv sz chunkSize + (if 0 < offset mod chunkSize then 1 else 0)"

lemma chunks_in_fits: "offset mod chunkSize + sz \<le> chunks_in sz offset * chunkSize"
proof -
  have a: "sz \<le> ceildiv sz chunkSize * chunkSize" by (rule ceildiv_mult_ge) simp
  have b: "offset mod chunkSize \<le> chunkSize" using mod_less_divisor [OF chunkSize_pos, of offset] by linarith
  from add_mono [OF b a] show ?thesis using a by (simp add: chunks_in_def)
qed

text \<open>The list after a write of \<open>hs'\<close> from \<open>first\<close> on.\<close>

definition relist :: "nat \<Rightarrow> hid list \<Rightarrow> nat \<Rightarrow> fileobj \<Rightarrow> fileobj" where
  "relist first hs' w x =
     x\<lparr>f_hashWrites := w, f_hashes := (f_hashes x)\<lparr>pl_list := list_splice (pl_list (f_hashes x)) first hs'\<rparr>\<rparr>"

lemma list_splice_same: "list_splice xs i (take n (drop i xs)) = xs"
proof -
  have "drop (i + length (take n (drop i xs))) xs = drop n (drop i xs)"
    by (cases "n \<le> length (drop i xs)") (auto simp: add.commute)
  then have "list_splice xs i (take n (drop i xs)) = take i xs @ take n (drop i xs) @ drop n (drop i xs)"
    by (simp only: list_splice_def)
  then show ?thesis by (simp only: append_take_drop_id)
qed

lemma relist_same: "hs = take n (drop first (pl_list (f_hashes x))) \<Longrightarrow>
  relist first hs (f_hashWrites x) x = x"
  by (simp add: relist_def list_splice_same)


lemma set_order_simps [simp]: "distinct (set_order xs)" "set (set_order xs) = set xs"
  by (simp_all add: set_order_def)

lemma count_list_splice:
  assumes "i + length ys \<le> length xs"
  shows "count_list (list_splice xs i ys) g + count_list (take (length ys) (drop i xs)) g =
    count_list xs g + count_list ys g"
proof -
  have "count_list xs g = count_list (take i xs @ take (length ys) (drop i xs) @ drop (i + length ys) xs) g"
    by (metis append_take_drop_id drop_drop add.commute)
  then show ?thesis by (simp add: list_splice_def)
qed

lemma data_of_splice:
  assumes "store_inv E U R s" "\<forall>h \<in> set hs. alive s h" "first = offset div chunkSize"
    and "first + num \<le> length hs" "offset mod chunkSize + length buf \<le> num * chunkSize"
  shows "list_splice (data_of E s hs) offset buf =
    data_of E s (take first hs) @
    list_splice (data_of E s (take num (drop first hs))) (offset mod chunkSize) buf @
    data_of E s (drop (first + num) hs)"
proof -
  have hs: "hs = take first hs @ take num (drop first hs) @ drop (first + num) hs"
    by (metis append_take_drop_id drop_drop add.commute)
  have al: "\<forall>h \<in> set (take first hs). alive s h" "\<forall>h \<in> set (take num (drop first hs)). alive s h"
    using assms(2) by (auto dest: in_set_takeD in_set_dropD)
  have la: "length (data_of E s (take first hs)) = first * chunkSize"
    using data_of_length [OF assms(1) al(1)] assms(4) by simp
  have ld: "length (data_of E s (take num (drop first hs))) = num * chunkSize"
    using data_of_length [OF assms(1) al(2)] assms(4) by simp
  have off: "first * chunkSize \<le> offset" "offset - first * chunkSize = offset mod chunkSize"
    using assms(3) by (simp_all add: minus_div_mult_eq_mod)
  have "list_splice (data_of E s (take first hs @ take num (drop first hs) @ drop (first + num) hs)) offset buf =
    data_of E s (take first hs) @
    list_splice (data_of E s (take num (drop first hs))) (offset - length (data_of E s (take first hs))) buf @
    data_of E s (drop (first + num) hs)"
    unfolding data_of_simps
    by (rule splice_middle) (use la ld off assms(5) in linarith)+
  then show ?thesis using hs la off(2) by simp
qed

lemma data_of_cong: "\<forall>h \<in> set hs. hcontent E t h = hcontent E s h \<Longrightarrow> data_of E t hs = data_of E s hs"
  unfolding data_of_def by (intro arg_cong [where f = concat] map_cong) simp_all

text \<open>What giving back the overwritten hashes leaves.\<close>

lemma wrote_dec:
  assumes w: "wrote E U R s hs new k (hs', removed, bkts, rest) t"
    and si: "store_inv E U R s" and le: "\<forall>g. count_list L g \<le> R g"
    and L: "L = A @ hs @ B" and al: "\<forall>h \<in> set L. alive s h"
  shows "wpf (forS removed (\<lambda>h. hash_decRefCnt E h 1)) (\<lambda>_ t'. \<exists>R'. store_inv E U R' t' \<and>
      rewired R L R' (A @ hs' @ B) \<and> shared_kept E R L s t' \<and>
      data_of E t' (A @ hs' @ B) = data_of E s A @ new @ data_of E s B \<and>
      stor_room t' k \<and> (\<forall>i \<in> set bkts. log_ok E t' i)) t"
proof -
  note W = wroteD [OF w]
  obtain R1 where R1: "store_inv E U R1 t"
    "\<And>g. R1 g + count_list hs g = R g + count_list hs' g + count_list removed g"
    using W(11) by blast
  have cl: "count_list hs g \<le> R g" for g using le L by (metis count_list_append le_add1 le_add2 le_trans)
  have c: "count_list removed g \<le> R1 g" for g using R1(2) [of g] cl [of g] by linarith
  let ?R = "\<lambda>g. R1 g - count_list removed g"
  have rw: "rewired R L ?R (A @ hs' @ B)"
    unfolding rewired_def
  proof
    fix g
    show "?R g + count_list L g = R g + count_list (A @ hs' @ B) g"
      using R1(2) [of g] c [of g] by (simp add: L)
  qed
  have st: "steady E s t" by (rule W(10))
  show ?thesis
  proof (rule wp_mono [OF cs.dec_all [OF R1(1) c]], elim conjE, intro exI conjI)
    fix t' assume d: "store_inv E U ?R t'" "\<forall>k. stor_room t k \<longrightarrow> stor_room t' k"
      "\<forall>g. count_list removed g < R1 g \<longrightarrow> cs.kept E t t' g" "\<forall>i. log_ok E t i \<longrightarrow> log_ok E t' i"
    show "store_inv E U ?R t'" by (rule d(1))
    show "rewired R L ?R (A @ hs' @ B)" by (rule rw)
    show "stor_room t' k" using d(2) W(9) by blast
    show "\<forall>i \<in> set bkts. log_ok E t' i" using d(4) W(7) by blast
    have keep: "alive t' g \<and> hcontent E t' g = hcontent E t g" if "alive t g" "0 < ?R g" for g
      using d(3) that by (auto simp: cs.kept_def)
    have "alive t h \<and> 0 < ?R h" if "h \<in> set (A @ hs' @ B)" for h
    proof
      show "alive t h" using that W(3) al steadyD [OF st] by (auto simp: L)
      have "0 < count_list (A @ hs' @ B) h" using that count_list_0_iff by fastforce
      then show "0 < ?R h" using rewiredD [OF rw, of h] le [rule_format, of h] by linarith
    qed
    then have "data_of E t' (A @ hs' @ B) = data_of E t (A @ hs' @ B)"
      using keep by (intro data_of_cong) blast
    moreover have "data_of E t A = data_of E s A" "data_of E t B = data_of E s B"
      using al by (auto simp: L intro!: data_of_steady [OF st])
    ultimately show "data_of E t' (A @ hs' @ B) = data_of E s A @ new @ data_of E s B"
      by (simp add: W(4))
    show "shared_kept E R L s t'"
      unfolding shared_kept_def
    proof (intro allI impI)
      fix g assume g: "count_list L g < R g"
      then have "alive s g" using cs.ref_live [OF si, of g] by simp
      note sg = steadyD [OF st this]
      have "0 < ?R g" using rewired_less [OF rw g] by simp
      with keep [of g] sg show "alive t' g \<and> hcontent E t' g = hcontent E s g" by simp
    qed
  qed
qed


lemma wp_mark_buckets:
  assumes "store_inv E U R (fs_stor t)" "\<forall>i \<in> set bkts. log_ok E (fs_stor t) i"
    and "\<And>s'. store_inv E U R s' \<Longrightarrow> (\<And>k. stor_room (fs_stor t) k \<Longrightarrow> stor_room s' k) \<Longrightarrow>
      steady E (fs_stor t) s' \<Longrightarrow> Q () (t\<lparr>fs_stor := s'\<rparr>)"
  shows "wpx A (mark_buckets E je bkts) Q t"
  unfolding mark_buckets_def wp_in_stor
  by (rule wp_allow [OF cs.mark_all [OF assms(1)]]) (use assms(2,3) in \<open>auto simp: steady_def cs.kept_def\<close>)

lemma wp_write_chunks:
  assumes ready: "file_ready E U R t f" and W: "w_env W = E" and node: "has_node t f n"
    and first: "first = offset div chunkSize" and num: "num = chunks_in (length buf) offset"
    and fits: "first + num \<le> length (refs_of t f)"
    and legal: "chunks_legal U (list_splice (file_bytes E t f) offset buf)"
    and room: "stor_room (fs_stor t) (num + k)"
    and Q: "\<And>s' R' hs' w. length hs' = num \<Longrightarrow> w \<le> f_hashWrites (fs_files t ! f) + num \<Longrightarrow>
      store_inv E U R' s' \<Longrightarrow> rewired R (refs_of t f) R' (list_splice (refs_of t f) first hs') \<Longrightarrow>
      shared_kept E R (refs_of t f) (fs_stor t) s' \<Longrightarrow>
      data_of E s' (list_splice (refs_of t f) first hs') = list_splice (file_bytes E t f) offset buf \<Longrightarrow>
      stor_room s' k \<Longrightarrow>
      Q () (put_node f (n\<lparr>in_mtime := w_time W (fs_clock t)\<rparr>) (t\<lparr>
        fs_files := (fs_files t)[f := relist first hs' w (fs_files t ! f)], fs_stor := s', fs_clock := Suc (fs_clock t)\<rparr>))"
  shows "wpf (write_chunks W f buf offset je) Q t"
proof -
  let ?s = "fs_stor t" and ?L = "refs_of t f" and ?x = "fs_files t ! f"
  let ?A = "take first ?L" and ?hs = "take num (drop first ?L)" and ?B = "drop (first + num) ?L"
  have si: "store_inv E U R ?s" and pl: "plist_inv (f_hashes ?x)" and le: "\<forall>g. count_list ?L g \<le> R g"
    using ready by (simp_all add: file_ready_def)
  have al: "\<forall>h \<in> set ?L. alive ?s h" by (rule ready_alive [OF ready])
  have L: "?L = ?A @ ?hs @ ?B" by (metis append_take_drop_id drop_drop add.commute)
  have lh: "length ?hs = num" using fits by simp
  have fit: "offset mod chunkSize + length buf \<le> num * chunkSize" unfolding num by (rule chunks_in_fits)
  have om: "offset - first * chunkSize = offset mod chunkSize" by (simp add: first minus_div_mult_eq_mod)
  have lt: "offset < first * chunkSize + chunkSize"
    unfolding first using div_mult_mod_eq [of offset chunkSize] mod_less_divisor [OF chunkSize_pos, of offset] by linarith
  let ?new = "list_splice (data_of E ?s ?hs) (offset mod chunkSize) buf"
  have spl: "list_splice (file_bytes E t f) offset buf = data_of E ?s ?A @ ?new @ data_of E ?s ?B"
    unfolding file_bytes_def by (rule data_of_splice [OF si al first fits fit])
  have alh: "\<forall>h \<in> set ?hs. alive ?s h" using al by (auto dest: in_set_takeD in_set_dropD)
  have alA: "\<forall>h \<in> set ?A. alive ?s h" using al by (auto dest: in_set_takeD)
  have lA: "length (data_of E ?s ?A) = first * chunkSize"
    using data_of_length [OF si alA] fits by simp
  have ln: "length ?new = num * chunkSize" using data_of_length [OF si alh] lh fit by simp
  have leg: "chunks_legal U ?new"
    using legal unfolding spl by (simp add: chunks_legal_append [OF lA] chunks_legal_append [OF ln])
  have range: "plist_getRange (f_hashes ?x) first num = ?hs"
    using plist_getRange_eq [OF pl, of first num] fits by (simp add: refs_of_def)
  have spli: "list_splice ?L first hs' = ?A @ hs' @ ?B" if "length hs' = num" for hs'
    using that by (simp add: list_splice_def)
  have loop: "wp (write_loop E offset ?hs (first * chunkSize) buf) (wrote E U R ?s ?hs ?new k) ?s"
    using wp_write_loop [OF si alh lt, of buf k] fit leg room lh unfolding om by simp
  let ?t = "\<lambda>hs' w s'. t\<lparr>fs_files := (fs_files t)[f := relist first hs' w ?x], fs_stor := s'\<rparr>"
  have finish: "wpf (bindS (currentTime W) (\<lambda>tv. set_INode f (\<lambda>n. n\<lparr>in_mtime := tv\<rparr>))) Q (?t hs' w s')"
    if "Q () (put_node f (n\<lparr>in_mtime := w_time W (fs_clock t)\<rparr>) ((?t hs' w s')\<lparr>fs_clock := Suc (fs_clock t)\<rparr>))"
    for hs' w s'
  proof -
    have "has_node ((?t hs' w s')\<lparr>fs_clock := Suc (fs_clock t)\<rparr>) f n" using node by (simp add: relist_def)
    with that show ?thesis by (simp add: wp_set_INode)
  qed
  have rest: "wpf (bindS (whenS (removed \<noteq> [])
        (bindS (fupd f (\<lambda>x. x\<lparr>f_hashWrites := f_hashWrites x + length removed\<rparr>)) (\<lambda>_.
         bindS (fget f) (\<lambda>x.
         bindS (assertS (fst (plist_updateRange (f_hashes x) first hs'))) (\<lambda>_.
         bindS (fupd f (\<lambda>x. x\<lparr>f_hashes := snd (plist_updateRange (f_hashes x) first hs')\<rparr>)) (\<lambda>_.
         bindS (in_stor (forS removed (\<lambda>h. hash_decRefCnt E h 1))) (\<lambda>_.
         mark_buckets E je bkts))))))) (\<lambda>_.
      bindS (currentTime W) (\<lambda>tv. set_INode f (\<lambda>n. n\<lparr>in_mtime := tv\<rparr>)))) Q (t\<lparr>fs_stor := s1\<rparr>)"
    if w: "wrote E U R ?s ?hs ?new k (hs', removed, bkts, rest) s1" for hs' removed bkts rest s1
  proof (cases "removed = []")
    case True
    note D = wroteD [OF w]
    have hs': "hs' = ?hs" using D(5) True by simp
    obtain R1 where R1: "store_inv E U R1 s1" "rewired R ?L R1 ?L"
      using D(11) unfolding hs' True by (auto simp: rewired_def)
    have e: "relist first ?hs (f_hashWrites ?x) ?x = ?x" by (rule relist_same) (simp add: refs_of_def)
    have LL: "list_splice ?L first ?hs = ?L" by (rule list_splice_same)
    have "alive s1 h" if "h \<in> set ?L" for h using al that steadyD [OF D(10)] by blast
    then have "data_of E s1 ?A = data_of E ?s ?A" "data_of E s1 ?B = data_of E ?s ?B"
      using al by (auto intro!: data_of_steady [OF D(10)] dest: in_set_takeD in_set_dropD)
    then have dat: "data_of E s1 ?L = list_splice (file_bytes E t f) offset buf"
      unfolding spl using D(4) unfolding hs' by (subst (1) L) (simp only: data_of_simps)
    have "Q () (put_node f (n\<lparr>in_mtime := w_time W (fs_clock t)\<rparr>)
        ((?t ?hs (f_hashWrites ?x) s1)\<lparr>fs_clock := Suc (fs_clock t)\<rparr>))"
      by (rule Q [OF lh _ R1(1)]) (use R1(2) D(9) dat steady_shared [OF si D(10)] in \<open>simp_all add: LL\<close>)
    then have "wpf (bindS (currentTime W) (\<lambda>tv. set_INode f (\<lambda>n. n\<lparr>in_mtime := tv\<rparr>))) Q (?t ?hs (f_hashWrites ?x) s1)"
      by (rule finish)
    moreover have "?t ?hs (f_hashWrites ?x) s1 = t\<lparr>fs_stor := s1\<rparr>" by (simp add: e)
    ultimately show ?thesis using True by (simp del: wp_bind add: wp_bind [of _ "whenS _ _"])
  next
    case False
    note D = wroteD [OF w]
    let ?w = "f_hashWrites ?x + length removed"
    have upd: "plist_updateRange (f_hashes ?x) first hs' =
        (True, (f_hashes ?x)\<lparr>pl_list := list_splice (pl_list (f_hashes ?x)) first hs'\<rparr>)"
      by (rule plist_updateRange_eq [OF pl]) (use D(2) lh fits in \<open>simp add: refs_of_def\<close>)
    have len: "length hs' = num" using D(2) lh by simp
    have "wpf (forS removed (\<lambda>h. hash_decRefCnt E h 1)) (\<lambda>_ s'.
        wpf (mark_buckets E je bkts) (\<lambda>_. wpf (bindS (currentTime W) (\<lambda>tv. set_INode f (\<lambda>n. n\<lparr>in_mtime := tv\<rparr>))) Q)
          (?t hs' ?w s')) s1"
    proof (rule wp_mono [OF wrote_dec [OF w si le L al]], elim exE conjE)
      fix s2 R2
      assume d: "store_inv E U R2 s2" "rewired R ?L R2 (?A @ hs' @ ?B)" "shared_kept E R ?L ?s s2"
        "data_of E s2 (?A @ hs' @ ?B) = data_of E ?s ?A @ ?new @ data_of E ?s ?B"
        "stor_room s2 k" "\<forall>i \<in> set bkts. log_ok E s2 i"
      show "wpf (mark_buckets E je bkts) (\<lambda>_. wpf (bindS (currentTime W) (\<lambda>tv. set_INode f (\<lambda>n. n\<lparr>in_mtime := tv\<rparr>))) Q)
          (?t hs' ?w s2)"
      proof (rule wp_mark_buckets)
        show "store_inv E U R2 (fs_stor (?t hs' ?w s2))" "\<forall>i \<in> set bkts. log_ok E (fs_stor (?t hs' ?w s2)) i"
          using d by simp_all
        fix s3 assume m: "store_inv E U R2 s3"
          "\<And>k. stor_room (fs_stor (?t hs' ?w s2)) k \<Longrightarrow> stor_room s3 k" "steady E (fs_stor (?t hs' ?w s2)) s3"
        have st: "steady E s2 s3" using m(3) by simp
        have al2: "\<forall>h \<in> set (?A @ hs' @ ?B). alive s2 h"
        proof
          fix h assume "h \<in> set (?A @ hs' @ ?B)"
          then have "0 < count_list (?A @ hs' @ ?B) h" using count_list_0_iff by fastforce
          then have "0 < R2 h" using rewiredD [OF d(2), of h] le [rule_format, of h] by linarith
          then show "alive s2 h" by (rule cs.ref_live [OF d(1)])
        qed
        have "shared_kept E R2 (?A @ hs' @ ?B) s2 s3" by (rule steady_shared [OF d(1) st])
        note sk = shared_kept_trans [OF d(2) d(3) this]
        have "data_of E s3 (?A @ hs' @ ?B) = list_splice (file_bytes E t f) offset buf"
          unfolding spl d(4) [symmetric] by (rule data_of_steady [OF st al2])
        moreover have "?w \<le> f_hashWrites ?x + num" using D(6) lh by simp
        ultimately have "Q () (put_node f (n\<lparr>in_mtime := w_time W (fs_clock t)\<rparr>) ((?t hs' ?w s3)\<lparr>fs_clock := Suc (fs_clock t)\<rparr>))"
          by (intro Q [OF len _ m(1)]) (use d(2,5) m(2) sk in \<open>simp_all add: spli [OF len]\<close>)
        from finish [OF this] show "wpf (bindS (currentTime W) (\<lambda>tv. set_INode f (\<lambda>n. n\<lparr>in_mtime := tv\<rparr>))) Q
            ((?t hs' ?w s2)\<lparr>fs_stor := s3\<rparr>)" by simp
      qed
    qed
    moreover have "(fs_files t)[f := (?x\<lparr>f_hashWrites := ?w\<rparr>)\<lparr>f_hashes := (f_hashes ?x)\<lparr>pl_list :=
        list_splice (pl_list (f_hashes ?x)) first hs'\<rparr>\<rparr>] = (fs_files t)[f := relist first hs' ?w ?x]"
      by (simp add: relist_def)
    ultimately show ?thesis using False node by (simp add: upd has_node_def)
  qed
  let ?K = "\<lambda>(hs', removed, bkts, rest). bindS (assertS (rest = [])) (\<lambda>_.
      bindS (whenS (removed \<noteq> [])
        (bindS (fupd f (\<lambda>x. x\<lparr>f_hashWrites := f_hashWrites x + length removed\<rparr>)) (\<lambda>_.
         bindS (fget f) (\<lambda>x.
         bindS (assertS (fst (plist_updateRange (f_hashes x) first hs'))) (\<lambda>_.
         bindS (fupd f (\<lambda>x. x\<lparr>f_hashes := snd (plist_updateRange (f_hashes x) first hs')\<rparr>)) (\<lambda>_.
         bindS (in_stor (forS removed (\<lambda>h. hash_decRefCnt E h 1))) (\<lambda>_.
         mark_buckets E je bkts))))))) (\<lambda>_.
      bindS (currentTime W) (\<lambda>tv. set_INode f (\<lambda>n. n\<lparr>in_mtime := tv\<rparr>))))"
  have "wpf (write_loop E offset ?hs (first * chunkSize) buf) (\<lambda>r s1. wpf (?K r) Q (t\<lparr>fs_stor := s1\<rparr>)) ?s"
  proof (rule wp_allow [OF loop])
    fix r s1 assume w: "wrote E U R ?s ?hs ?new k r s1"
    obtain hs' removed bkts rs where r: "r = (hs', removed, bkts, rs)" by (cases r)
    from rest [OF w [unfolded r]] wroteD(1) [OF w [unfolded r]]
    show "wpf (?K r) Q (t\<lparr>fs_stor := s1\<rparr>)" by (simp only: r case_prod_conv wp_bind [of _ "assertS _"] wp_assert if_True simp_thms)
  qed
  then have "wpf (bindS (in_stor (write_loop E offset ?hs (first * chunkSize) buf)) ?K) Q t"
    by (simp only: wp_bind wp_in_stor)
  then have "wpf (bindS (assertS (length ?hs = num)) (\<lambda>_.
      bindS (in_stor (write_loop E offset ?hs (first * chunkSize) buf)) ?K)) Q t"
    by (simp only: lh wp_bind [of _ "assertS _"] wp_assert simp_thms if_True)
  then show ?thesis
    unfolding write_chunks_def Let_def W chunks_in_def [symmetric] num [symmetric] first [symmetric]
      wp_bind [of _ "fget _"] wp_fget range .
qed


section \<open>The whole write\<close>

lemma chunks_in_after: "offset div chunkSize + chunks_in sz offset \<le> chunks_after n sz offset"
proof -
  have "offset div chunkSize + ceildiv sz chunkSize = ceildiv (offset div chunkSize * chunkSize + sz) chunkSize"
    by (simp add: ceildiv_add_mult)
  also have "\<dots> \<le> ceildiv (max (in_size n) (offset + sz)) chunkSize"
    by (rule ceildiv_mono) (simp_all add: le_max_iff_disj)
  finally show ?thesis by (simp add: chunks_in_def chunks_after_def)
qed

lemma ready_frame [simp]:
  "file_ready E U R (t\<lparr>fs_writeStats := ws\<rparr>) f = file_ready E U R t f"
  "refs_of (t\<lparr>fs_writeStats := ws\<rparr>) f = refs_of t f"
  "file_bytes E (t\<lparr>fs_writeStats := ws\<rparr>) f = file_bytes E t f"
  by (simp_all add: file_ready_def refs_of_def file_bytes_def)

lemma concat_zero: "concat (replicate n zero_chunk) = replicate (n * chunkSize) 0"
  by (induction n) (simp_all add: zero_chunk_def replicate_add)

lemma ready_rewired:
  assumes "file_ready E U R t f" "store_inv E U R' (fs_stor t')" "rewired R (refs_of t f) R' (refs_of t' f)"
    and "shared_kept E R (refs_of t f) (fs_stor t) (fs_stor t')" "plist_inv (f_hashes (fs_files t' ! f))"
  shows "file_ready E U R' t' f"
  unfolding file_ready_def
proof (intro conjI allI)
  have r: "\<forall>g. count_list (refs_of t f) g \<le> R g" "count_list (refs_of t f) zeroHash < R zeroHash"
    "hcontent E (fs_stor t) zeroHash = zero_chunk"
    using assms(1) by (simp_all add: file_ready_def)
  show "count_list (refs_of t' f) g \<le> R' g" for g using rewired_le [OF assms(3)] r(1) by blast
  show "count_list (refs_of t' f) zeroHash < R' zeroHash" by (rule rewired_less [OF assms(3) r(2)])
  show "hcontent E (fs_stor t') zeroHash = zero_chunk" using assms(4) r(2,3) by (simp add: shared_kept_def)
qed (use assms(2,5) in simp_all)

text \<open>The content that a write finds: what is there and zeros up to the end of the grown list.\<close>

definition padded :: "env \<Rightarrow> fsys \<Rightarrow> fid \<Rightarrow> nat \<Rightarrow> byte list" where
  "padded E t f k = file_bytes E t f @ replicate ((k - length (refs_of t f)) * chunkSize) 0"

lemma wp_file_writeInner:
  assumes ready: "file_ready E U R t f" and W: "w_env W = E" and node: "has_node t f n"
    and len: "length (refs_of t f) \<le> chunks_after n (length buf) offset"
    and writes: "f_hashWrites (fs_files t ! f) + chunks_in (length buf) offset \<le> chunksInBucket * 5"
    and legal: "chunks_legal U (list_splice (padded E t f (chunks_after n (length buf) offset)) offset buf)"
    and room: "stor_room (fs_stor t) (chunks_in (length buf) offset + k)"
  shows "wpf (file_writeInner W f buf offset je) (\<lambda>r t'. r = length buf \<and>
    file_bytes E t' f = list_splice (padded E t f (chunks_after n (length buf) offset)) offset buf \<and>
    length (refs_of t' f) = chunks_after n (length buf) offset \<and>
    has_node t' f (n\<lparr>in_size := max (in_size n) (offset + length buf), in_mtime := w_time W (fs_clock t)\<rparr>) \<and>
    (\<exists>R'. file_ready E U R' t' f \<and> rewired R (refs_of t f) R' (refs_of t' f)) \<and>
    shared_kept E R (refs_of t f) (fs_stor t) (fs_stor t') \<and> stor_room (fs_stor t') k \<and>
    (\<exists>w l. fs_files t' ! f = (fs_files t ! f)\<lparr>f_hashWrites := w, f_hashes := l\<rparr>)) t"
    (is "wpf _ ?Q t")
proof -
  let ?N = "chunks_after n (length buf) offset" and ?num = "chunks_in (length buf) offset"
  let ?first = "offset div chunkSize"
  define t0 where "t0 = t\<lparr>fs_writeStats := count_stat (length buf) (fs_writeStats t)\<rparr>"
  define k0 where "k0 = ?N - length (refs_of t f)"
  define n1 where "n1 = n\<lparr>in_size := max (in_size n) (offset + length buf)\<rparr>"
  have t0: "file_ready (w_env W) U R t0 f" "has_node t0 f n" "refs_of t0 f = refs_of t f"
      "fs_files t0 = fs_files t" "fs_stor t0 = fs_stor t" "fs_clock t0 = fs_clock t"
    using ready node W by (simp_all add: t0_def)
  let ?K = "\<lambda>_::unit. bindS (catchS (bindS (write_chunks W f buf offset je) (\<lambda>_. returnS True)) (\<lambda>_. returnS False)) (\<lambda>ok.
     if \<not> ok then returnS 0
     else
       bindS (fget f) (\<lambda>x.
       bindS (whenS (f_hashWrites x > chunksInBucket * 5)
         (bindS (fupd f (\<lambda>x. x\<lparr>f_hashWrites := 0\<rparr>)) (\<lambda>_.
          bindS (rest_unload f) (\<lambda>_. returnS ())))) (\<lambda>_.
       returnS (length buf))))"
  have "wp (write_grow W f (length buf) offset) (\<lambda>u. wpf (?K u) ?Q) t0"
  proof (rule wp_write_grow [OF t0(1,2)])
    show "length (refs_of t0 f) \<le> ?N" by (simp add: t0 len)
    show "k0 = ?N - length (refs_of t0 f)" by (simp add: k0_def t0)
    fix s1 R1
    assume g: "steady (w_env W) (fs_stor t0) s1" "store_inv (w_env W) U R1 s1"
      "rewired R (refs_of t0 f) R1 (refs_of t0 f @ replicate k0 zeroHash)"
      "\<And>m. stor_room (fs_stor t0) m \<Longrightarrow> stor_room s1 m"
    let ?x1 = "grown k0 (fs_files t0 ! f)"
    define t1 where "t1 = (put_node f (n\<lparr>in_size := max (in_size n) (offset + length buf)\<rparr>) t0)\<lparr>
        fs_files := (fs_files t0)[f := ?x1], fs_stor := s1\<rparr>"
    have f: "f < length (fs_files t)" using node by (simp add: has_node_def)
    have t1: "fs_files t1 ! f = ?x1" "fs_stor t1 = s1" "fs_clock t1 = fs_clock t"
      using f by (simp_all add: t1_def t0)
    have rf: "refs_of t1 f = refs_of t f @ replicate k0 zeroHash"
      by (simp add: refs_of_def t1 t0 grown_def)
    have ns: "has_node t1 f n1"
      unfolding t1_def n1_def using t0(2) by (simp add: grown_def has_node_def put_node_def)
    have pl: "plist_inv (f_hashes (fs_files t1 ! f))"
      using ready by (simp add: t1 t0 grown_def plist_inv_def file_ready_def)
    have si: "store_inv E U R (fs_stor t)" using ready by (simp add: file_ready_def)
    have st: "steady E (fs_stor t) s1" using g(1) by (simp add: W t0)
    have sk: "shared_kept E R (refs_of t f) (fs_stor t) s1" by (rule steady_shared [OF si st])
    have rw: "rewired R (refs_of t f) R1 (refs_of t1 f)" using g(3) by (simp add: t0 rf)
    have r1: "file_ready E U R1 t1 f"
      by (rule ready_rewired [OF ready]) (use g(2) rw sk pl in \<open>simp_all add: W t1\<close>)
    have zero: "hcontent E s1 zeroHash = zero_chunk" using r1 by (simp add: file_ready_def t1)
    have fb: "file_bytes E t1 f = padded E t f ?N"
      using data_of_steady [OF st ready_alive [OF ready]]
      by (simp add: file_bytes_def rf t1 data_of_replicate zero concat_zero padded_def k0_def)
    have lr: "length (refs_of t1 f) = ?N" using len by (simp add: rf k0_def)
    have room1: "stor_room (fs_stor t1) (?num + k)" using g(4) room by (simp add: t0 t1)
    have "wpf (write_chunks W f buf offset je) (\<lambda>_ t2. wpf (bindS (fget f) (\<lambda>x.
       bindS (whenS (f_hashWrites x > chunksInBucket * 5)
         (bindS (fupd f (\<lambda>x. x\<lparr>f_hashWrites := 0\<rparr>)) (\<lambda>_.
          bindS (rest_unload f) (\<lambda>_. returnS ())))) (\<lambda>_.
       returnS (length buf)))) ?Q t2) t1"
    proof (rule wp_write_chunks [OF r1 W ns refl refl])
      show "?first + ?num \<le> length (refs_of t1 f)" by (simp only: lr chunks_in_after)
      show "chunks_legal U (list_splice (file_bytes E t1 f) offset buf)" using legal by (simp add: fb)
      show "stor_room (fs_stor t1) (?num + k)" by (rule room1)
      fix s2 R2 hs' w
      assume c: "length hs' = ?num" "w \<le> f_hashWrites (fs_files t1 ! f) + ?num" "store_inv E U R2 s2"
        "rewired R1 (refs_of t1 f) R2 (list_splice (refs_of t1 f) ?first hs')"
        "shared_kept E R1 (refs_of t1 f) (fs_stor t1) s2"
        "data_of E s2 (list_splice (refs_of t1 f) ?first hs') = list_splice (file_bytes E t1 f) offset buf"
        "stor_room s2 k"
      define t2 where "t2 = put_node f (n1\<lparr>in_mtime := w_time W (fs_clock t1)\<rparr>) (t1\<lparr>
        fs_files := (fs_files t1)[f := relist ?first hs' w (fs_files t1 ! f)], fs_stor := s2,
        fs_clock := Suc (fs_clock t1)\<rparr>)"
      have f1: "f < length (fs_files t1)" using ns by (simp add: has_node_def)
      have x2: "fs_files t2 ! f = relist ?first hs' w ?x1" "fs_stor t2 = s2"
        using f1 by (simp_all add: t2_def t1)
      have w: "f_hashWrites (fs_files t2 ! f) \<le> chunksInBucket * 5"
        using c(2) writes by (simp add: x2 relist_def t1 grown_def t0)
      have rf2: "refs_of t2 f = list_splice (refs_of t1 f) ?first hs'"
        by (simp add: refs_of_def x2 relist_def t1)
      have fit: "?first + length hs' \<le> length (refs_of t1 f)"
        using c(1) by (simp only: lr chunks_in_after)
      have pl2: "plist_inv (f_hashes (fs_files t2 ! f))"
        using pl fit by (simp add: x2 relist_def plist_inv_def t1 refs_of_def)
      have rw2: "rewired R (refs_of t f) R2 (refs_of t2 f)"
        unfolding rf2 by (rule rewired_trans [OF rw c(4)])
      have sk2: "shared_kept E R (refs_of t f) (fs_stor t) (fs_stor t2)"
        unfolding x2(2) by (rule shared_kept_trans [OF rw sk]) (use c(5) in \<open>simp add: t1\<close>)
      have "file_ready E U R2 t2 f"
        by (rule ready_rewired [OF ready _ rw2 sk2 pl2]) (simp add: x2 c(3))
      moreover have "has_node t2 f (n1\<lparr>in_mtime := w_time W (fs_clock t)\<rparr>)"
        unfolding t2_def using ns by (simp add: t1 relist_def grown_def has_node_def put_node_def)
      moreover have "file_bytes E t2 f = list_splice (padded E t f ?N) offset buf"
        by (simp add: file_bytes_def [of _ t2] x2 rf2 c(6) fb)
      moreover have "length (refs_of t2 f) = ?N" unfolding rf2 using fit lr by simp
      moreover have "\<exists>w l. fs_files t2 ! f = (fs_files t ! f)\<lparr>f_hashWrites := w, f_hashes := l\<rparr>"
        by (simp add: x2 relist_def grown_def t0) blast
      ultimately have "?Q (length buf) t2"
        using rw2 sk2 c(7) by (simp only: n1_def x2 simp_thms) (auto simp: n1_def)
      then show "wpf (bindS (fget f) (\<lambda>x.
       bindS (whenS (f_hashWrites x > chunksInBucket * 5)
         (bindS (fupd f (\<lambda>x. x\<lparr>f_hashWrites := 0\<rparr>)) (\<lambda>_.
          bindS (rest_unload f) (\<lambda>_. returnS ())))) (\<lambda>_.
       returnS (length buf)))) ?Q (put_node f (n1\<lparr>in_mtime := w_time W (fs_clock t1)\<rparr>) (t1\<lparr>
        fs_files := (fs_files t1)[f := relist ?first hs' w (fs_files t1 ! f)], fs_stor := s2,
        fs_clock := Suc (fs_clock t1)\<rparr>))"
        unfolding t2_def [symmetric] using w by (simp only: wp_bind wp_fget wp_when wp_return) simp
    qed
    then have "wpf (bindS (write_chunks W f buf offset je) (\<lambda>_. returnS True)) (\<lambda>ok. wpf
      (if \<not> ok then returnS 0 else bindS (fget f) (\<lambda>x.
       bindS (whenS (f_hashWrites x > chunksInBucket * 5)
         (bindS (fupd f (\<lambda>x. x\<lparr>f_hashWrites := 0\<rparr>)) (\<lambda>_.
          bindS (rest_unload f) (\<lambda>_. returnS ())))) (\<lambda>_.
       returnS (length buf)))) ?Q) t1"
      by (simp only: wp_bind [of _ "write_chunks _ _ _ _ _"] wp_return if_True if_False simp_thms)
    then have "wpf (?K ()) ?Q t1"
      by (simp only: wp_bind [of _ "catchS _ _"], intro wp_catch) simp_all
    then show "wpf (?K ()) ?Q ((put_node f (n\<lparr>in_size := max (in_size n) (offset + length buf)\<rparr>) t0)\<lparr>
        fs_files := (fs_files t0)[f := grown k0 (fs_files t0 ! f)], fs_stor := s1\<rparr>)"
      by (simp only: t1_def)
  qed
  then have "wpf (write_grow W f (length buf) offset) (\<lambda>u. wpf (?K u) ?Q) t0" by (rule wp_allow)
  then show ?thesis
    unfolding file_writeInner_def wp_bind [of _ "modifyS _"] wp_modify wp_bind [of _ "write_grow _ _ _ _"] t0_def .
qed

end
