(* ===== verification/File_Reader.thy ===== *)
theory File_Reader
  imports File_Writer
begin

text \<open>
  The whole of \<^verbatim>\<open>file::read\<close> (\<^verbatim>\<open>src/src/modules/filesystem/file.cpp\<close>) over the contract
  of the storage layer: which bytes of the content a call returns, and that it changes none.
\<close>

section \<open>Reading\<close>

definition read_count :: "fid \<Rightarrow> nat \<Rightarrow> fsys \<Rightarrow> fsys" where
  "read_count f c t = t\<lparr>fs_files := (fs_files t)[f := (fs_files t ! f)\<lparr>f_hashReads := c\<rparr>]\<rparr>"

lemma take_drop_block:
  assumes "o1 \<le> length c" "m = min sz (length c - o1)"
  shows "take sz (drop o1 (c @ d)) = take m (drop o1 c) @ take (sz - m) d"
  using assms by (auto simp: min_def)

lemma wp_read_loop:
  assumes "store_inv E U R (fs_stor t)" "\<forall>h \<in> set hs. alive (fs_stor t) h" "offset < my + chunkSize"
    and "f < length (fs_files t)"
    and "\<And>s' c. store_inv E U R s' \<Longrightarrow> steady E (fs_stor t) s' \<Longrightarrow>
      (\<And>k. stor_room (fs_stor t) k \<Longrightarrow> stor_room s' k) \<Longrightarrow>
      c \<le> f_hashReads (fs_files t ! f) + length hs \<Longrightarrow>
      Q (buf @ take sz (drop (offset - my) (data_of E (fs_stor t) hs)))
        ((read_count f c t)\<lparr>fs_stor := s'\<rparr>)"
  shows "wp (read_loop E f offset hs my sz buf) Q t"
  using assms
proof (induction hs arbitrary: my sz buf t)
  case Nil
  have "Q buf ((read_count f (f_hashReads (fs_files t ! f)) t)\<lparr>fs_stor := fs_stor t\<rparr>)"
    using Nil.prems(5) [of "fs_stor t" "f_hashReads (fs_files t ! f)"] Nil.prems(1) by simp
  moreover have "(read_count f (f_hashReads (fs_files t ! f)) t)\<lparr>fs_stor := fs_stor t\<rparr> = t"
    by (simp add: read_count_def)
  ultimately show ?case by simp
next
  case (Cons h hs)
  let ?s = "fs_stor t" and ?o = "offset - my"
  let ?c = "hcontent E ?s h"
  have al: "alive ?s h" "\<forall>g \<in> set hs. alive ?s g" using Cons.prems(2) by simp_all
  have len: "length ?c = chunkSize" by (rule cs.content_length [OF Cons.prems(1) al(1)])
  have off': "offset < (my + chunkSize) + chunkSize" "offset - (my + chunkSize) = 0"
    using Cons.prems(3) by simp_all
  show ?case
  proof (cases "sz = 0")
    case True
    have "wp (read_loop E f offset hs (my + chunkSize) sz buf) Q t"
    proof (rule Cons.IH [OF Cons.prems(1) al(2) off'(1) Cons.prems(4)])
      fix s' c
      assume "store_inv E U R s'" "steady E ?s s'" "\<And>k. stor_room ?s k \<Longrightarrow> stor_room s' k"
        "c \<le> f_hashReads (fs_files t ! f) + length hs"
      with Cons.prems(5) [of s' c]
      show "Q (buf @ take sz (drop (offset - (my + chunkSize)) (data_of E ?s hs))) ((read_count f c t)\<lparr>fs_stor := s'\<rparr>)"
        by (simp add: True)
    qed
    then show ?thesis using True by simp
  next
    case False
    define m where "m = min sz (chunkSize - ?o)"
    have o: "?o + m \<le> chunkSize" "?o \<le> length ?c" using Cons.prems(3) len by (simp_all add: m_def)
    have blk: "take sz (drop ?o (data_of E ?s (h # hs))) =
        take m (drop ?o ?c) @ take (sz - m) (data_of E ?s hs)"
      unfolding data_of_simps by (rule take_drop_block [OF o(2)]) (simp add: m_def len)
    have c: "(offset < my + chunkSize \<and> 0 < sz) = True" using Cons.prems(3) False by simp
    let ?x = "fs_files t ! f"
    show ?thesis
      unfolding read_loop.simps c if_True Let_def m_def [symmetric]
      unfolding wp_bind [of _ "in_stor _"] wp_in_stor wp_bind [of _ "fupd _ _"] wp_fupd
    proof (rule wp_mono [OF cs.read_law [OF Cons.prems(1) al(1) o(1)]], elim conjE)
      fix bs u
      assume u: "bs = take m (drop ?o ?c)" "store_inv E U R u"
        "\<forall>g. alive ?s g \<longrightarrow> alive u g \<and> hcontent E u g = hcontent E ?s g"
        "\<forall>k. stor_room ?s k \<longrightarrow> stor_room u k"
      have st: "steady E ?s u" using u(3) by (simp add: steady_def)
      let ?t = "t\<lparr>fs_stor := u, fs_files := (fs_files t)[f := ?x\<lparr>f_hashReads := Suc (f_hashReads ?x)\<rparr>]\<rparr>"
      have f: "f < length (fs_files ?t)" using Cons.prems(4) by simp
      have "wp (read_loop E f offset hs (my + chunkSize) (sz - m) (buf @ bs)) Q ?t"
      proof (rule Cons.IH [OF _ _ off'(1) f])
        show "store_inv E U R (fs_stor ?t)" using u(2) by simp
        show "\<forall>h \<in> set hs. alive (fs_stor ?t) h" using al(2) steadyD [OF st] by simp
        fix s' c
        assume q: "store_inv E U R s'" "steady E (fs_stor ?t) s'" "\<And>k. stor_room (fs_stor ?t) k \<Longrightarrow> stor_room s' k"
          "c \<le> f_hashReads (fs_files ?t ! f) + length hs"
        have "Q (buf @ take sz (drop ?o (data_of E ?s (h # hs)))) ((read_count f c t)\<lparr>fs_stor := s'\<rparr>)"
        proof (rule Cons.prems(5) [OF q(1)])
          show "steady E ?s s'" using steady_trans [OF st] q(2) by simp
          show "stor_room s' k" if "stor_room ?s k" for k using q(3) [of k] u(4) that by simp
          show "c \<le> f_hashReads ?x + length (h # hs)" using q(4) Cons.prems(4) by simp
        qed
        moreover have "data_of E (fs_stor ?t) hs = data_of E ?s hs"
          using data_of_steady [OF st al(2)] by simp
        moreover have "(read_count f c ?t)\<lparr>fs_stor := s'\<rparr> = (read_count f c t)\<lparr>fs_stor := s'\<rparr>"
          using Cons.prems(4) by (simp add: read_count_def)
        ultimately show "Q ((buf @ bs) @ take (sz - m) (drop (offset - (my + chunkSize)) (data_of E (fs_stor ?t) hs)))
            ((read_count f c ?t)\<lparr>fs_stor := s'\<rparr>)"
          by (simp only: blk u(1) off'(2) drop_0 append_assoc)
      qed
      then show "wp (read_loop E f offset hs (my + chunkSize) (sz - m) (buf @ bs)) Q
        ((t\<lparr>fs_stor := u\<rparr>)\<lparr>fs_files := (fs_files (t\<lparr>fs_stor := u\<rparr>))
          [f := (fs_files (t\<lparr>fs_stor := u\<rparr>) ! f)\<lparr>f_hashReads := Suc (f_hashReads (fs_files (t\<lparr>fs_stor := u\<rparr>) ! f))\<rparr>]\<rparr>)"
        by simp
    qed
  qed
qed


lemma data_of_blocks:
  "store_inv E U R s \<Longrightarrow> \<forall>h \<in> set hs. alive s h \<Longrightarrow> blocks_of chunkSize (map (hcontent E s) hs)"
  by (auto simp: blocks_of_def cs.content_length)

lemma data_of_range:
  assumes "store_inv E U R s" "\<forall>h \<in> set hs. alive s h"
  shows "data_of E s (take n (drop i hs)) = take (n * chunkSize) (drop (i * chunkSize) (data_of E s hs))"
proof -
  note b = data_of_blocks [OF assms]
  have "\<forall>h \<in> set (drop i hs). alive s h" using assms(2) by (auto dest: in_set_dropD)
  note b' = data_of_blocks [OF assms(1) this]
  show ?thesis
    using take_concat_blocks [OF b', of n] drop_concat_blocks [OF b, of i]
    by (simp add: data_of_def take_map drop_map)
qed

definition read_bytes :: "byte list \<Rightarrow> nat \<Rightarrow> nat \<Rightarrow> nat \<Rightarrow> byte list" where
  "read_bytes content fileSize sz offset =
     (let maxReadSize = min (fileSize - offset) sz
      in take (min maxReadSize (ceildiv maxReadSize chunkSize * chunkSize - offset mod chunkSize))
           (drop offset content))"

lemma read_range_eq:
  assumes "plist_inv l" "first \<le> length (pl_list l)"
  shows "read_range l first num = Inr (take num (drop first (pl_list l)))"
proof (cases "first + num \<le> length (pl_list l)")
  case True
  then show ?thesis
    using assms plist_getRange_eq [OF assms(1) True]
    by (simp add: read_range_def plist_getSize_def plist_inv_def)
next
  case False
  then show ?thesis
    using assms plist_getRange_eq [OF assms(1), of first "length (pl_list l) - first"]
    by (simp add: read_range_def plist_getSize_def plist_inv_def)
qed

text \<open>What a read of \<open>m\<close> chunks leaves: the reads counted, hashes loaded.\<close>

definition after_read :: "nat \<Rightarrow> fsys \<Rightarrow> fid \<Rightarrow> fsys \<Rightarrow> bool" where
  "after_read m t f t' \<longleftrightarrow> (\<exists>rs c s. c \<le> f_hashReads (fs_files t ! f) + m \<and> t' = t\<lparr>fs_readStats := rs,
     fs_files := (fs_files t)[f := (fs_files t ! f)\<lparr>f_hashReads := c\<rparr>], fs_stor := s\<rparr>)"

lemma after_readI:
  "c \<le> f_hashReads (fs_files t ! f) + m \<Longrightarrow> after_read m t f (t\<lparr>fs_readStats := rs,
     fs_files := (fs_files t)[f := (fs_files t ! f)\<lparr>f_hashReads := c\<rparr>], fs_stor := s\<rparr>)"
  unfolding after_read_def by blast

lemma after_read_refl: "after_read m t f t"
  using after_readI [of "f_hashReads (fs_files t ! f)" t f m "fs_stor t" "fs_readStats t"] by simp

lemma wp_file_read_frame:
  assumes ready: "file_ready E U R t f" and W: "w_env W = E" and node: "has_node t f n"
    and reg: "valid_obj (fs_files t ! f)" "f_special (fs_files t ! f) = SF_REGULAR"
    and off: "offset div chunkSize \<le> length (refs_of t f)"
    and reads: "f_hashReads (fs_files t ! f) + ceildiv (min (in_size n - offset) sz) chunkSize \<le> chunksInBucket * 5"
  shows "wp (file_read W f sz offset) (\<lambda>bs t'. bs = read_bytes (file_bytes E t f) (in_size n) sz offset \<and>
    file_ready E U R t' f \<and> has_node t' f n \<and> refs_of t' f = refs_of t f \<and> steady E (fs_stor t) (fs_stor t') \<and>
    valid_obj (fs_files t' ! f) \<and> f_special (fs_files t' ! f) = SF_REGULAR \<and>
    (\<forall>k. stor_room (fs_stor t) k \<longrightarrow> stor_room (fs_stor t') k) \<and>
    after_read (ceildiv (min (in_size n - offset) sz) chunkSize) t f t') t"
    (is "wp _ ?Q t")
proof -
  let ?max = "min (in_size n - offset) sz" and ?first = "offset div chunkSize"
  let ?num = "ceildiv ?max chunkSize" and ?L = "refs_of t f"
  define t0 where "t0 = t\<lparr>fs_readStats := count_stat sz (fs_readStats t)\<rparr>"
  have t0: "has_node t0 f n" "fs_files t0 = fs_files t" "fs_stor t0 = fs_stor t" using node by (simp_all add: t0_def)
  have si: "store_inv E U R (fs_stor t)" and pl: "plist_inv (f_hashes (fs_files t ! f))"
    using ready by (simp_all add: file_ready_def)
  have f: "f < length (fs_files t)" using node by (simp add: has_node_def)
  note al = ready_alive [OF ready]
  have enter: "wp (file_read W f sz offset) ?Q t =
    wp (if in_size n \<le> offset then returnS []
           else
             bindS (catchS
               (bindS (liftS (read_range (f_hashes (fs_files t ! f)) ?first ?num)) (\<lambda>hashes.
                bindS (read_loop E f offset hashes (?first * chunkSize) ?max []) (\<lambda>buf.
                returnS (Some buf))))
               (\<lambda>_. returnS None)) (\<lambda>r.
             case r of None \<Rightarrow> returnS []
             | Some buf \<Rightarrow>
                 bindS (fget f) (\<lambda>x.
                 bindS (whenS (f_hashReads x > chunksInBucket * 5)
                   (bindS (fupd f (\<lambda>x. x\<lparr>f_hashReads := 0\<rparr>)) (\<lambda>_.
                    bindS (rest_unload f) (\<lambda>_. returnS ())))) (\<lambda>_.
                 returnS buf)))) ?Q t0"
    using reg by (simp only: file_read_def wp_bind [of _ "fget _"] wp_fget simp_thms if_False not_True_eq_False
      specialFile.case wp_bind [of _ "modifyS _"] wp_modify t0_def [symmetric] wp_bind [of _ "INode _"] W Let_def)
      (simp only: wp_INode [OF t0(1)])
  have same: "read_bytes (file_bytes E t f) (in_size n) sz offset = [] \<and> file_ready E U R t0 f \<and> refs_of t0 f = ?L"
    if "in_size n \<le> offset"
    using that ready by (simp add: read_bytes_def file_ready_def refs_of_def t0)
  show ?thesis
  proof (cases "in_size n \<le> offset")
    case True
    have "after_read ?num t f t0"
      using after_readI [of "f_hashReads (fs_files t ! f)" t f ?num "fs_stor t" "fs_readStats t0"] by (simp add: t0_def)
    then have q: "?Q [] t0" using True same t0 reg by simp
    show ?thesis unfolding enter if_P [OF True] wp_return by (rule q)
  next
    case False
    let ?hs = "take ?num (drop ?first ?L)"
    have range: "read_range (f_hashes (fs_files t ! f)) ?first ?num = Inr ?hs"
      using read_range_eq [OF pl] off by (simp add: refs_of_def)
    have alh: "\<forall>h \<in> set ?hs. alive (fs_stor t0) h" using al by (auto simp: t0 dest: in_set_takeD in_set_dropD)
    have lt: "offset < ?first * chunkSize + chunkSize"
      using div_mult_mod_eq [of offset chunkSize] mod_less_divisor [OF chunkSize_pos, of offset] by linarith
    have om: "offset - ?first * chunkSize = offset mod chunkSize" by (simp add: minus_div_mult_eq_mod)
    have bytes: "take ?max (drop (offset mod chunkSize) (data_of E (fs_stor t0) ?hs)) =
        read_bytes (file_bytes E t f) (in_size n) sz offset"
      unfolding t0 data_of_range [OF si al] read_bytes_def Let_def file_bytes_def
      by (simp add: drop_take)
    have "wp (read_loop E f offset ?hs (?first * chunkSize) ?max []) (\<lambda>buf. wp (bindS (fget f) (\<lambda>x.
                 bindS (whenS (f_hashReads x > chunksInBucket * 5)
                   (bindS (fupd f (\<lambda>x. x\<lparr>f_hashReads := 0\<rparr>)) (\<lambda>_.
                    bindS (rest_unload f) (\<lambda>_. returnS ())))) (\<lambda>_.
                 returnS buf))) ?Q) t0"
    proof (rule wp_read_loop [OF _ alh lt])
      show "store_inv E U R (fs_stor t0)" "f < length (fs_files t0)" using si f by (simp_all add: t0)
      fix s' c
      assume q: "store_inv E U R s'" "steady E (fs_stor t0) s'" "\<And>k. stor_room (fs_stor t0) k \<Longrightarrow> stor_room s' k"
        "c \<le> f_hashReads (fs_files t0 ! f) + length ?hs"
      define t1 where "t1 = (read_count f c t0)\<lparr>fs_stor := s'\<rparr>"
      have x: "fs_files t1 ! f = (fs_files t ! f)\<lparr>f_hashReads := c\<rparr>" "fs_stor t1 = s'"
        using f by (simp_all add: t1_def read_count_def t0)
      have c: "c \<le> chunksInBucket * 5" using q(4) reads by (simp add: t0)
      have rf: "refs_of t1 f = ?L" by (simp add: refs_of_def x)
      have st: "steady E (fs_stor t) s'" using q(2) by (simp add: t0)
      have "shared_kept E R ?L (fs_stor t) (fs_stor t1)" unfolding x by (rule steady_shared [OF si st])
      then have "file_ready E U R t1 f"
        by (intro ready_rewired [OF ready]) (use q(1) pl in \<open>simp_all add: x rf\<close>)
      moreover have "has_node t1 f n" using t0(1) by (simp add: t1_def read_count_def)
      moreover have "after_read ?num t f t1"
        using after_readI [of c t f ?num s' "fs_readStats t0"] q(4) by (simp add: t1_def read_count_def t0_def)
      ultimately have "?Q (read_bytes (file_bytes E t f) (in_size n) sz offset) t1"
        using st q(3) reg by (simp add: rf x t0 valid_obj_def)
      then show "wp (bindS (fget f) (\<lambda>x.
                 bindS (whenS (f_hashReads x > chunksInBucket * 5)
                   (bindS (fupd f (\<lambda>x. x\<lparr>f_hashReads := 0\<rparr>)) (\<lambda>_.
                    bindS (rest_unload f) (\<lambda>_. returnS ())))) (\<lambda>_.
                 returnS ([] @ take ?max (drop (offset - ?first * chunkSize) (data_of E (fs_stor t0) ?hs))))))
           ?Q ((read_count f c t0)\<lparr>fs_stor := s'\<rparr>)"
        unfolding om bytes t1_def [symmetric] append_Nil
        using c by (simp only: wp_bind wp_fget wp_when wp_return x) simp
    qed
    then have "wp (bindS (catchS
               (bindS (liftS (read_range (f_hashes (fs_files t ! f)) ?first ?num)) (\<lambda>hashes.
                bindS (read_loop E f offset hashes (?first * chunkSize) ?max []) (\<lambda>buf.
                returnS (Some buf))))
               (\<lambda>_. returnS None)) (\<lambda>r.
             case r of None \<Rightarrow> returnS []
             | Some buf \<Rightarrow>
                 bindS (fget f) (\<lambda>x.
                 bindS (whenS (f_hashReads x > chunksInBucket * 5)
                   (bindS (fupd f (\<lambda>x. x\<lparr>f_hashReads := 0\<rparr>)) (\<lambda>_.
                    bindS (rest_unload f) (\<lambda>_. returnS ())))) (\<lambda>_.
                 returnS buf)))) ?Q t0"
      by (simp only: wp_bind [of _ "catchS _ _"], intro wp_catch)
        (simp_all only: empty_iff not_False_eq_True range wp_bind [of _ "liftS _"] wp_lift sum.case
          wp_bind [of _ "read_loop _ _ _ _ _ _ _"] wp_return option.case)
    then show ?thesis unfolding enter using False by (simp only: if_False)
  qed
qed

lemma wp_file_read:
  assumes "file_ready E U R t f" "w_env W = E" "has_node t f n"
    and "valid_obj (fs_files t ! f)" "f_special (fs_files t ! f) = SF_REGULAR"
    and "offset div chunkSize \<le> length (refs_of t f)"
    and "f_hashReads (fs_files t ! f) + ceildiv (min (in_size n - offset) sz) chunkSize \<le> chunksInBucket * 5"
  shows "wp (file_read W f sz offset) (\<lambda>bs t'. bs = read_bytes (file_bytes E t f) (in_size n) sz offset \<and>
    file_ready E U R t' f \<and> has_node t' f n \<and> refs_of t' f = refs_of t f \<and> steady E (fs_stor t) (fs_stor t') \<and>
    valid_obj (fs_files t' ! f) \<and> f_special (fs_files t' ! f) = SF_REGULAR \<and>
    (\<forall>k. stor_room (fs_stor t) k \<longrightarrow> stor_room (fs_stor t') k)) t"
  by (rule wp_mono [OF wp_file_read_frame [OF assms]]) blast

end
