(* ===== verification/File_Props.thy ===== *)
theory File_Props
  imports File_Reader Json_Props
begin

text \<open>
  The properties of reading and writing files: what a write does to the content, what a read
  returns, and where the code falls short of it. The first section has the file system on which the
  witnesses run the operations.
\<close>

section \<open>A file system for the witnesses\<close>

text \<open>One empty regular file, as it is after \<^verbatim>\<open>mkobject\<close> and \<^verbatim>\<open>get\<close>, on a mounted storage.\<close>

definition sample_world :: world where
  "sample_world = \<lparr>w_env = sample_env, w_fpu = sample_fpu, w_time = (\<lambda>n. \<lparr>tv_sec = int n, tv_nsec = 0\<rparr>),
     w_uid = 0, w_gid = 0\<rparr>"

definition sample_inode :: "nat \<Rightarrow> inode" where
  "sample_inode sz = zero_inode\<lparr>in_myID := bucketIndex 1 2, in_mode := 0x81A4, in_nlinks := 1, in_size := sz\<rparr>"

definition sample_fileobj :: "nat \<Rightarrow> fileobj" where
  "sample_fileobj n = \<lparr>f_special = SF_REGULAR, f_meta = 0, f_path = ''/f'', f_perms = [],
     f_hashes = \<lparr>pl_list = replicate n zeroHash, pl_size = n\<rparr>,
     f_hashWrites = 0, f_hashReads = 0, f_refs = 0, f_deleted = False, f_extraMeta = make_json\<rparr>"

text \<open>The storage after a mount, with \<open>n\<close> more references to the zero hash.\<close>

definition final_state :: "(exn \<times> 's) + ('a \<times> 's) \<Rightarrow> 's" where
  "final_state r = (case r of Inl (_, s) \<Rightarrow> s | Inr (_, s) \<Rightarrow> s)"

definition sample_stor :: "nat \<Rightarrow> stor" where
  "sample_stor n = final_state (hash_incRefCnt sample_env zeroHash n
     (final_state (stor_mount sample_env [1] (stor_start sample_env (\<lambda>_. None)))))"

text \<open>A file of \<open>sz\<close> bytes in \<open>n\<close> zero chunks.\<close>

definition sample_fsys :: "nat \<Rightarrow> nat \<Rightarrow> fsys" where
  "sample_fsys n sz = \<lparr>fs_stor = sample_stor n, fs_chunks = [MNode (sample_inode sz)], fs_slots = [bucketIndex 1 2 \<mapsto> 0],
     fs_slotHash = (\<lambda>i. i = bucketIndex 1 2), fs_metaLoaded = [1], fs_metaAcc = acc_new [1], fs_metaLog = [],
     fs_files = [sample_fileobj n], fs_rootFile = 0, fs_errorFile = 0,
     fs_inodeCache = umap_insert umap_empty (bucketIndex 1 2) 0, fs_pathCache = umap_empty, fs_handles = replicate 128 None,
     fs_writeStats = replicate 5 0, fs_readStats = replicate 5 0, fs_journal = [], fs_nextEntry = 0,
     fs_clock = 0, fs_unloads = 0\<rparr>"

definition sample_R :: "nat \<Rightarrow> hid \<Rightarrow> nat" where
  "sample_R n h = (if h = zeroHash then 1 + n else 0)"

lemma sample_fsys_simps [simp]:
  "fs_stor (sample_fsys n sz) = sample_stor n" "refs_of (sample_fsys n sz) 0 = replicate n zeroHash"
  "fs_files (sample_fsys n sz) ! 0 = sample_fileobj n" "has_node (sample_fsys n sz) 0 (sample_inode sz)"
  "w_env sample_world = sample_env" "valid_obj (sample_fileobj n)" "f_special (sample_fileobj n) = SF_REGULAR"
  "f_hashWrites (sample_fileobj n) = 0" "f_hashReads (sample_fileobj n) = 0" "in_size (sample_inode sz) = sz"
  by (simp_all add: sample_fsys_def refs_of_def has_node_def sample_world_def sample_fileobj_def
      valid_obj_def sample_inode_def)

lemma sample_stor:
  "store_inv sample_env sample_U (sample_R n) (sample_stor n)" "stor_room (sample_stor n) (2 ^ 52)"
  "hcontent sample_env (sample_stor n) zeroHash = zero_chunk"
proof -
  obtain s where r: "stor_mount sample_env [1] (stor_start sample_env (\<lambda>_. None)) = Inr ((), s)"
    and m: "mounted sample_env s"
    using wp_stor_mount [of sample_env] by (auto simp: wp_run)
  have c: "hcontent sample_env s zeroHash = zero_chunk"
    using m by (auto simp: mounted_def hcontent_def hash_at_def fresh_stor_def zeroHash_def zeroHash_obj_def)
  note i = mounted_inv [OF m sample_env_ok sample_names_ok sample_inj sample_zero]
  have R: "(\<lambda>h. if h = zeroHash then 1 else 0)(zeroHash := (if zeroHash = zeroHash then 1 else 0) + n) = sample_R n"
    by (auto simp: sample_R_def)
  have "wp (hash_incRefCnt sample_env zeroHash n) (\<lambda>_ s'. store_inv sample_env sample_U (sample_R n) s' \<and>
      stor_room s' (2 ^ 52) \<and> hcontent sample_env s' zeroHash = zero_chunk) s"
    by (rule wp_mono [OF cs.inc_law [OF i(1,3), of n, unfolded R]]) (use i(2,3) c in simp)
  then obtain s' where s': "hash_incRefCnt sample_env zeroHash n s = Inr ((), s')"
    "store_inv sample_env sample_U (sample_R n) s' \<and>
      stor_room s' (2 ^ 52) \<and> hcontent sample_env s' zeroHash = zero_chunk" by (auto simp: wp_run)
  have "sample_stor n = s'" unfolding sample_stor_def r final_state_def by (simp add: s'(1))
  with s'(2) show "store_inv sample_env sample_U (sample_R n) (sample_stor n)" "stor_room (sample_stor n) (2 ^ 52)"
    "hcontent sample_env (sample_stor n) zeroHash = zero_chunk" by simp_all
qed

lemma sample_bytes [simp]: "file_bytes sample_env (sample_fsys n sz) 0 = replicate (n * chunkSize) 0"
  by (simp add: file_bytes_def data_of_replicate sample_stor concat_zero)

lemma sample_ready: "file_ready sample_env sample_U (sample_R n) (sample_fsys n sz) 0"
  using sample_stor [of n]
  by (auto simp: file_ready_def count_list_replicate sample_R_def) (simp add: sample_fileobj_def plist_inv_def)

lemma sample_room: "k \<le> 2 ^ 52 \<Longrightarrow> stor_room (sample_stor n) k"
  using sample_stor(2) [of n] by (simp add: stor_room_def acc_room_def maxBuckets_def)

section \<open>Properties\<close>

text \<open>
  C23: a write either ends with the announced fragmentation abort or with all its bytes written: the content of the
  file, whole chunks with whatever their bytes past the end of the file are, is the old one, extended
  with zeros to the chunks that the new size needs, with the bytes at their place (a gap inside the last old chunk so shows
  the bytes that were there before a truncation); the size and the
  modification time are set; the references of the storage follow the new list of hashes, and
  every hash that another file refers to keeps its content. The file has at most the chunks that the new size needs, and its counter of
  writes with the chunks of this write does not pass 1280, so that the call does not end with \<^verbatim>\<open>rest\<close>.
\<close>

theorem file_write_content:
  assumes "file_ready E U R t f" "w_env W = E" "has_node t f n"
    and "length (refs_of t f) \<le> chunks_after n (length buf) offset"
    and "f_hashWrites (fs_files t ! f) + chunks_in (length buf) offset \<le> chunksInBucket * 5"
    and "chunks_legal U (list_splice (padded E t f (chunks_after n (length buf) offset)) offset buf)"
    and "stor_room (fs_stor t) (chunks_in (length buf) offset + k)"
  shows "wpf (file_writeInner W f buf offset je) (\<lambda>r t'. r = length buf \<and>
    file_bytes E t' f = list_splice (padded E t f (chunks_after n (length buf) offset)) offset buf \<and>
    has_node t' f (n\<lparr>in_size := max (in_size n) (offset + length buf), in_mtime := w_time W (fs_clock t)\<rparr>) \<and>
    (\<exists>R'. file_ready E U R' t' f \<and> rewired R (refs_of t f) R' (refs_of t' f)) \<and>
    (\<forall>g. count_list (refs_of t f) g < R g \<longrightarrow>
       alive (fs_stor t') g \<and> hcontent E (fs_stor t') g = hcontent E (fs_stor t) g)) t"
  by (rule wp_mono [OF wp_file_writeInner [OF assms]]) (simp add: shared_kept_def)

lemma sample_legal:
  assumes "length bs \<le> 32" shows "chunks_legal sample_U (list_splice (replicate chunkSize 0) 0 bs)"
proof -
  have len: "length bs \<le> chunkSize" using assms by (simp add: chunkSize_def)
  have "list_splice zero_chunk 0 bs \<in> sample_U" by (rule sample_splice [OF sample_zero]) (simp add: assms)
  moreover have "length (list_splice zero_chunk 0 bs) = chunkSize" using len by (simp add: zero_chunk_def)
  ultimately have "chunks_legal sample_U (list_splice zero_chunk 0 bs @ [])"
    by (simp only: chunks_legal_cons chunks_legal_Nil simp_thms)
  then show ?thesis by (simp add: zero_chunk_def)
qed

lemma sample_sizes:
  "chunks_after (sample_inode 0) 2 0 = 1" "chunks_in 2 0 = 1"
  "padded sample_env (sample_fsys 0 0) 0 1 = replicate chunkSize 0" "length [7::byte, 8] = 2"
  by (simp_all add: chunks_after_def chunks_in_def ceildiv_def chunkSize_def padded_def)

lemma sample_write_hyps:
  "length (refs_of (sample_fsys 0 0) 0) \<le> chunks_after (sample_inode 0) (length [7::byte, 8]) 0"
  "f_hashWrites (fs_files (sample_fsys 0 0) ! 0) + chunks_in (length [7::byte, 8]) 0 \<le> chunksInBucket * 5"
  "chunks_legal sample_U (list_splice (padded sample_env (sample_fsys 0 0) 0
       (chunks_after (sample_inode 0) (length [7::byte, 8]) 0)) 0 [7, 8])"
  "stor_room (fs_stor (sample_fsys 0 0)) (chunks_in (length [7::byte, 8]) 0 + 1)"
  unfolding sample_sizes by (simp_all add: sample_legal sample_room chunksInBucket_def)

theorem file_write_content_witness:
  "wpf (file_writeInner sample_world 0 [7, 8] 0 None) (\<lambda>r t'. r = 2 \<and>
     file_bytes sample_env t' 0 = list_splice (replicate chunkSize 0) 0 [7, 8]) (sample_fsys 0 0)"
  by (rule wp_mono [OF file_write_content [OF sample_ready _ _ sample_write_hyps]])
    (simp_all only: sample_sizes sample_fsys_simps simp_thms)

text \<open>
  C24: what a read of a regular file returns, byte for byte: the wanted bytes of the content
  before the end of the file, but no more than the chunks hold that a read from an aligned
  offset would visit. The call keeps the content of the file. Its counter of reads does not pass 1280, so that the call does not
  end with \<^verbatim>\<open>rest\<close>.
\<close>

theorem file_read_content:
  assumes "file_ready E U R t f" "w_env W = E" "has_node t f n"
    and "valid_obj (fs_files t ! f)" "f_special (fs_files t ! f) = SF_REGULAR"
    and "offset div chunkSize \<le> length (refs_of t f)"
    and "f_hashReads (fs_files t ! f) + ceildiv (min (in_size n - offset) sz) chunkSize \<le> chunksInBucket * 5"
  shows "wp (file_read W f sz offset) (\<lambda>bs t'.
    bs = (let m = min (in_size n - offset) sz
          in take (min m (ceildiv m chunkSize * chunkSize - offset mod chunkSize)) (drop offset (file_bytes E t f))) \<and>
    (offset mod chunkSize = 0 \<longrightarrow> bs = take sz (drop offset (take (in_size n) (file_bytes E t f)))) \<and>
    file_ready E U R t' f \<and> has_node t' f n \<and> file_bytes E t' f = file_bytes E t f) t"
proof (rule wp_mono [OF wp_file_read [OF assms]], elim conjE)
  fix bs t'
  assume q: "bs = read_bytes (file_bytes E t f) (in_size n) sz offset" "file_ready E U R t' f" "has_node t' f n"
    "refs_of t' f = refs_of t f" "steady E (fs_stor t) (fs_stor t')"
  have "file_bytes E t' f = file_bytes E t f"
    using data_of_steady [OF q(5) ready_alive [OF assms(1)]] q(4) by (simp add: file_bytes_def)
  moreover have "bs = take sz (drop offset (take (in_size n) (file_bytes E t f)))" if "offset mod chunkSize = 0"
    using that ceildiv_mult_ge [OF chunkSize_pos, of "min (in_size n - offset) sz"]
    by (simp add: q(1) read_bytes_def Let_def drop_take min_absorb1 min.commute)
  ultimately show "bs = (let m = min (in_size n - offset) sz
          in take (min m (ceildiv m chunkSize * chunkSize - offset mod chunkSize)) (drop offset (file_bytes E t f))) \<and>
    (offset mod chunkSize = 0 \<longrightarrow> bs = take sz (drop offset (take (in_size n) (file_bytes E t f)))) \<and>
    file_ready E U R t' f \<and> has_node t' f n \<and> file_bytes E t' f = file_bytes E t f"
    using q by (simp add: read_bytes_def)
qed

theorem file_read_content_witness:
  "wp (file_read sample_world 0 4 8192) (\<lambda>bs _. bs = [0]) (sample_fsys 3 8193)"
proof (rule wp_mono [OF file_read_content [where n = "sample_inode 8193", OF sample_ready]])
  show "f_hashReads (fs_files (sample_fsys 3 8193) ! 0) +
      ceildiv (min (in_size (sample_inode 8193) - 8192) 4) chunkSize \<le> chunksInBucket * 5"
    by (simp add: ceildiv_def chunkSize_def chunksInBucket_def)
qed (simp_all add: chunkSize_def)

lemma ready_journal [simp]:
  "file_ready E U R (t\<lparr>fs_journal := j\<rparr>) f = file_ready E U R t f"
  "file_ready E U R (t\<lparr>fs_nextEntry := i\<rparr>) f = file_ready E U R t f"
  "has_node (t\<lparr>fs_journal := j\<rparr>) f n = has_node t f n"
  "has_node (t\<lparr>fs_nextEntry := i\<rparr>) f n = has_node t f n"
  "padded E (t\<lparr>fs_journal := j\<rparr>) f k = padded E t f k"
  "padded E (t\<lparr>fs_nextEntry := i\<rparr>) f k = padded E t f k"
  "refs_of (t\<lparr>fs_journal := j\<rparr>) f = refs_of t f"
  "refs_of (t\<lparr>fs_nextEntry := i\<rparr>) f = refs_of t f"
  by (simp_all add: file_ready_def has_node_def padded_def file_bytes_def refs_of_def)

lemma wp_journal_add [simp, wp_simps]:
  "wpx A (journal_add ty p nw np md off nm dt) Q = (\<lambda>t.
     let e = \<lparr>je_id = fs_nextEntry t, je_type = ty, je_parentNode = p, je_newNode = nw, je_newParentNode = np,
              je_mod = md, je_offset = off, je_name = nm, je_data = dt\<rparr>
     in Q e (t\<lparr>fs_nextEntry := Suc (fs_nextEntry t), fs_journal := fs_journal t @ [e]\<rparr>))"
  by (simp add: journal_add_def fun_eq_iff Let_def)

lemma padded_length:
  assumes "file_ready E U R t f" "length (refs_of t f) \<le> k" shows "length (padded E t f k) = k * chunkSize"
proof -
  have "store_inv E U R (fs_stor t)" using assms(1) by (simp add: file_ready_def)
  then have "length (file_bytes E t f) = length (refs_of t f) * chunkSize"
    unfolding file_bytes_def by (rule data_of_length) (rule ready_alive [OF assms(1)])
  then show ?thesis using assms(2) by (simp add: padded_def diff_mult_distrib)
qed

lemma chunks_after_covers: "offset + sz \<le> chunks_after n sz offset * chunkSize"
proof -
  have "offset + sz \<le> max (in_size n) (offset + sz)" by simp
  also have "\<dots> \<le> ceildiv (max (in_size n) (offset + sz)) chunkSize * chunkSize" by (rule ceildiv_mult_ge) simp
  finally show ?thesis by (simp add: chunks_after_def add_mult_distrib)
qed

text \<open>
  What \<^verbatim>\<open>write\<close> has written, \<^verbatim>\<open>read\<close> of the same range returns, for an aligned offset (or as
  long as the bytes do not reach into one more chunk than an aligned write of their number).
\<close>

lemma wp_write_then_read:
  assumes "file_ready E U R t f" "w_env W = E" "has_node t f n"
    and "valid_obj (fs_files t ! f)" "f_special (fs_files t ! f) = SF_REGULAR"
    and "length (refs_of t f) \<le> chunks_after n (length buf) offset"
    and "f_hashWrites (fs_files t ! f) + chunks_in (length buf) offset \<le> chunksInBucket * 5"
    and "f_hashReads (fs_files t ! f) + ceildiv (length buf) chunkSize \<le> chunksInBucket * 5"
    and "chunks_legal U (list_splice (padded E t f (chunks_after n (length buf) offset)) offset buf)"
    and "stor_room (fs_stor t) (chunks_in (length buf) offset + k)"
    and "offset mod chunkSize + length buf \<le> ceildiv (length buf) chunkSize * chunkSize"
  shows "wpf (file_write W f buf offset) (\<lambda>r t'. r = length buf \<and>
    has_node t' f (n\<lparr>in_size := max (in_size n) (offset + length buf), in_mtime := w_time W (fs_clock t)\<rparr>) \<and>
    valid_obj (fs_files t' ! f) \<and> f_special (fs_files t' ! f) = SF_REGULAR \<and>
    wp (file_read W f (length buf) offset) (\<lambda>bs _. bs = buf) t') t"
proof -
  let ?e = "\<lparr>je_id = fs_nextEntry t, je_type = JE_write, je_parentNode = 0, je_newNode = in_myID n, je_newParentNode = 0,
              je_mod = 0, je_offset = int offset, je_name = [], je_data = buf\<rparr>"
  define t0 where "t0 = t\<lparr>fs_nextEntry := Suc (fs_nextEntry t), fs_journal := fs_journal t @ [?e]\<rparr>"
  have t0: "file_ready E U R t0 f" "has_node t0 f n" "refs_of t0 f = refs_of t f" "fs_files t0 = fs_files t"
    "fs_stor t0 = fs_stor t" "padded E t0 f m = padded E t f m" for m
    using assms(1,3) by (simp_all add: t0_def)
  let ?N = "chunks_after n (length buf) offset" and ?P = "padded E t f (chunks_after n (length buf) offset)"
  have lp: "length ?P = ?N * chunkSize" by (rule padded_length [OF assms(1,6)])
  have cov: "offset + length buf \<le> ?N * chunkSize" by (rule chunks_after_covers)
  have fit: "offset + length buf \<le> length ?P" by (simp only: lp cov)
  have got: "take (length buf) (drop offset (list_splice ?P offset buf)) = buf"
    using fit by (simp add: list_splice_def)
  let ?Q = "\<lambda>r t'. r = length buf \<and>
    has_node t' f (n\<lparr>in_size := max (in_size n) (offset + length buf), in_mtime := w_time W (fs_clock t)\<rparr>) \<and>
    valid_obj (fs_files t' ! f) \<and> f_special (fs_files t' ! f) = SF_REGULAR \<and>
    wp (file_read W f (length buf) offset) (\<lambda>bs _. bs = buf) t'"
  have "wpf (file_writeInner W f buf offset (Some ?e)) ?Q t0"
  proof (rule wp_mono [OF wp_file_writeInner [OF t0(1) assms(2) t0(2), where k = k]], unfold t0, fact+, elim conjE exE)
    fix r t' R' w l
    assume q: "r = length buf" "file_bytes E t' f = list_splice ?P offset buf" "length (refs_of t' f) = ?N"
      "has_node t' f (n\<lparr>in_size := max (in_size n) (offset + length buf), in_mtime := w_time W (fs_clock t0)\<rparr>)"
      "file_ready E U R' t' f" "fs_files t' ! f = (fs_files t ! f)\<lparr>f_hashWrites := w, f_hashes := l\<rparr>"
    let ?n = "n\<lparr>in_size := max (in_size n) (offset + length buf), in_mtime := w_time W (fs_clock t0)\<rparr>"
    have x: "valid_obj (fs_files t' ! f)" "f_special (fs_files t' ! f) = SF_REGULAR"
      "f_hashReads (fs_files t' ! f) = f_hashReads (fs_files t ! f)"
      using assms(4,5) q(6) by (simp_all add: valid_obj_def)
    have mx: "min (in_size ?n - offset) (length buf) = length buf" by simp
    have "offset div chunkSize \<le> ?N * chunkSize div chunkSize"
      by (rule div_le_mono) (use cov in linarith)
    then have od: "offset div chunkSize \<le> length (refs_of t' f)" by (simp add: q(3))
    have "wp (file_read W f r offset) (\<lambda>bs _. bs = buf) t'"
    proof (rule wp_mono [OF wp_file_read [OF q(5) assms(2) q(4) x(1,2) od]], unfold q(1) mx)
      show "f_hashReads (fs_files t' ! f) + ceildiv (length buf) chunkSize \<le> chunksInBucket * 5"
        unfolding x(3) by (rule assms(8))
    next
      fix bs t'' assume "bs = read_bytes (file_bytes E t' f) (in_size ?n) (length buf) offset \<and>
          file_ready E U R' t'' f \<and> has_node t'' f ?n \<and> refs_of t'' f = refs_of t' f \<and> steady E (fs_stor t') (fs_stor t'') \<and>
          valid_obj (fs_files t'' ! f) \<and> f_special (fs_files t'' ! f) = SF_REGULAR \<and>
          (\<forall>k. stor_room (fs_stor t') k \<longrightarrow> stor_room (fs_stor t'') k)"
      then have "bs = read_bytes (file_bytes E t' f) (in_size ?n) (length buf) offset" by blast
      then show "bs = buf"
        unfolding read_bytes_def mx Let_def q(2) using assms(11) got by (simp add: min_absorb1)
    qed
    then show "?Q r t'" using q(1,4) x(1,2) by (simp add: t0_def)
  qed
  then show ?thesis
    using assms(4,5)
    by (simp add: file_write_def wp_INode [OF assms(3)] Let_def t0_def)
qed

theorem file_write_then_read:
  assumes "file_ready E U R t f" "w_env W = E" "has_node t f n"
    and "valid_obj (fs_files t ! f)" "f_special (fs_files t ! f) = SF_REGULAR"
    and "length (refs_of t f) \<le> chunks_after n (length buf) offset"
    and "f_hashWrites (fs_files t ! f) + chunks_in (length buf) offset \<le> chunksInBucket * 5"
    and "f_hashReads (fs_files t ! f) + ceildiv (length buf) chunkSize \<le> chunksInBucket * 5"
    and "chunks_legal U (list_splice (padded E t f (chunks_after n (length buf) offset)) offset buf)"
    and "stor_room (fs_stor t) (chunks_in (length buf) offset + k)"
    and "offset mod chunkSize + length buf \<le> ceildiv (length buf) chunkSize * chunkSize"
  shows "wpf (bindS (file_write W f buf offset) (\<lambda>n. file_read W f n offset)) (\<lambda>bs _. bs = buf) t"
  by (simp, rule wp_mono [OF wp_write_then_read [OF assms]]) (auto elim: wp_allow)

theorem file_write_then_read_witness:
  "wpf (bindS (file_write sample_world 0 [7, 8] 0) (\<lambda>n. file_read sample_world 0 n 0)) (\<lambda>bs _. bs = [7, 8])
     (sample_fsys 0 0)"
  by (rule file_write_then_read [OF sample_ready _ _ _ _ sample_write_hyps(1,2) _ sample_write_hyps(3,4)])
    (simp_all add: ceildiv_def chunkSize_def chunksInBucket_def)

text \<open>
  C26: a read of \<open>sz\<close> bytes visits only as many chunks as \<open>sz\<close> bytes from an aligned offset need. When the range
  reaches into one chunk more (\<open>offset mod chunkSize + sz\<close> is larger than \<open>sz\<close> rounded up to whole chunks), the read
  comes back short, although the file has all the bytes: it gives what is left of the visited chunks.
\<close>

theorem file_read_short:
  assumes "file_ready E U R t f" "w_env W = E" "has_node t f n"
    and "valid_obj (fs_files t ! f)" "f_special (fs_files t ! f) = SF_REGULAR"
    and "offset + sz \<le> in_size n" "in_size n \<le> length (file_bytes E t f)" "0 < sz"
    and "ceildiv sz chunkSize * chunkSize < offset mod chunkSize + sz"
    and "f_hashReads (fs_files t ! f) + ceildiv sz chunkSize \<le> chunksInBucket * 5"
  shows "wp (file_read W f sz offset) (\<lambda>bs _.
    length bs = ceildiv sz chunkSize * chunkSize - offset mod chunkSize \<and> length bs < sz) t"
proof -
  have si: "store_inv E U R (fs_stor t)" using assms(1) by (simp add: file_ready_def)
  have lf: "length (file_bytes E t f) = length (refs_of t f) * chunkSize"
    unfolding file_bytes_def by (rule data_of_length [OF si ready_alive [OF assms(1)]])
  have mx: "min (in_size n - offset) sz = sz" using assms(6) by simp
  have "offset div chunkSize \<le> length (refs_of t f) * chunkSize div chunkSize"
    by (rule div_le_mono) (use assms(6,7) lf in linarith)
  then have od: "offset div chunkSize \<le> length (refs_of t f)" by simp
  let ?k = "ceildiv sz chunkSize * chunkSize - offset mod chunkSize"
  have k1: "?k < sz" using assms(8,9) by linarith
  have "sz \<le> length (file_bytes E t f) - offset" using assms(6,7) by linarith
  with k1 have k: "?k < sz" "?k \<le> length (file_bytes E t f) - offset" by simp_all
  show ?thesis
  proof (rule wp_mono [OF wp_file_read [OF assms(1-5) od]], unfold mx, rule assms(10), elim conjE)
    fix bs t' assume "bs = read_bytes (file_bytes E t f) (in_size n) sz offset"
    then have "length bs = ?k"
      unfolding read_bytes_def mx Let_def using k by simp
    with k(1) show "length bs = ?k \<and> length bs < sz" by simp
  qed
qed

theorem file_read_short_witness:
  "wp (file_read sample_world 0 4 8190) (\<lambda>bs _. length bs = 2) (sample_fsys 3 8300)"
proof (rule wp_mono [OF file_read_short [where n = "sample_inode 8300", OF sample_ready]])
  fix bs :: "byte list" and t :: fsys
  assume "length bs = ceildiv 4 chunkSize * chunkSize - 8190 mod chunkSize \<and> length bs < 4"
  then show "length bs = 2" by (simp add: ceildiv_def chunkSize_def)
qed (simp_all add: ceildiv_def chunkSize_def chunksInBucket_def)

text \<open>
  A write whose file already has more chunks than the new size needs is the end of the process: the
  assertion on the length of the list of hashes.
\<close>

lemma file_write_aborts:
  assumes "has_node t f n" "plist_inv (f_hashes (fs_files t ! f))"
    and "chunks_after n (length buf) offset < length (refs_of t f)"
  shows "\<exists>t'. file_writeInner W f buf offset je t = Inl (AssertFail, t') \<and> fs_stor t' = fs_stor t \<and>
    fs_files t' = fs_files t"
proof -
  let ?n = "if in_size n < offset + length buf then n\<lparr>in_size := offset + length buf\<rparr> else n"
  have N: "ceildiv (in_size ?n) chunkSize + (if 0 < offset mod chunkSize then 1 else 0) =
      chunks_after n (length buf) offset"
    by (simp add: chunks_after_def max_def)
  have sz: "pl_size (f_hashes (fs_files t ! f)) = length (refs_of t f)"
    using assms(2) by (simp add: plist_inv_def refs_of_def)
  have i: "as_inode (f_meta (fs_files t ! f)) (t\<lparr>fs_writeStats := st\<rparr>) = Inr (n, t\<lparr>fs_writeStats := st\<rparr>)" for st
    using assms(1) by (simp add: as_inode_def has_node_def run_simps)
  have j: "as_inode (f_meta (fs_files t ! f)) (t\<lparr>fs_writeStats := st, fs_chunks := (fs_chunks t)[f_meta (fs_files t ! f) := MNode m]\<rparr>) =
      Inr (m, t\<lparr>fs_writeStats := st, fs_chunks := (fs_chunks t)[f_meta (fs_files t ! f) := MNode m]\<rparr>)" for st m
    using assms(1) by (simp add: as_inode_def has_node_def run_simps)
  have ne: "chunks_after n (length buf) offset \<noteq> length (refs_of t f)" using assms(3) by simp
  show ?thesis
    unfolding file_writeInner_def write_grow_def
    by (simp add: run_simps set_INode_def upd_inode_def fget_def i j set_chunk_def INode_def Let_def N
        plist_getSize_def sz ne assms(3) less_imp_le del: if_split cong: if_cong)
      (use assms(3) N sz in \<open>auto simp: plist_getSize_def\<close>)
qed

text \<open>
  C27: an unaligned write leaves the file with exactly one chunk more than its size needs, and every aligned
  write after it that does not go beyond this size ends the process, by the assertion on the length of the list of
  hashes.
\<close>

theorem file_write_after_unaligned:
  assumes "file_ready E U R t f" "w_env W = E" "has_node t f n"
    and "length (refs_of t f) \<le> chunks_after n (length buf) offset"
    and "f_hashWrites (fs_files t ! f) + chunks_in (length buf) offset \<le> chunksInBucket * 5"
    and "chunks_legal U (list_splice (padded E t f (chunks_after n (length buf) offset)) offset buf)"
    and "stor_room (fs_stor t) (chunks_in (length buf) offset + k)"
    and "0 < offset mod chunkSize" "later mod chunkSize = 0"
    and "later + length again \<le> max (in_size n) (offset + length buf)"
  shows "wpf (file_writeInner W f buf offset je) (\<lambda>r t'. r = length buf \<and>
    length (refs_of t' f) = Suc (ceildiv (max (in_size n) (offset + length buf)) chunkSize) \<and>
    (\<exists>t''. file_writeInner W f again later jf t' = Inl (AssertFail, t''))) t"
proof (rule wp_mono [OF wp_file_writeInner [OF assms(1-7)]], elim conjE exE)
  fix r t' R'
  let ?n = "n\<lparr>in_size := max (in_size n) (offset + length buf), in_mtime := w_time W (fs_clock t)\<rparr>"
  assume q: "r = length buf" "length (refs_of t' f) = chunks_after n (length buf) offset" "has_node t' f ?n"
    "file_ready E U R' t' f"
  have "max (in_size ?n) (later + length again) = max (in_size n) (offset + length buf)"
    using assms(10) by simp
  then have "chunks_after ?n (length again) later < chunks_after n (length buf) offset"
    using assms(8,9) by (simp add: chunks_after_def)
  with file_write_aborts [OF q(3), of again later W jf] q
  show "r = length buf \<and> length (refs_of t' f) = Suc (ceildiv (max (in_size n) (offset + length buf)) chunkSize) \<and>
      (\<exists>t''. file_writeInner W f again later jf t' = Inl (AssertFail, t''))"
    using assms(8) by (auto simp: file_ready_def chunks_after_def)
qed

theorem file_write_after_unaligned_witness:
  "wpf (file_writeInner sample_world 0 [7] 1 None) (\<lambda>r t'. r = 1 \<and>
    (\<exists>t''. file_writeInner sample_world 0 [8] 0 None t' = Inl (AssertFail, t''))) (sample_fsys 1 10)"
proof -
  have c: "chunks_after (sample_inode 10) 1 1 = 2" "chunks_in 1 1 = 2"
    by (simp_all add: chunks_after_def chunks_in_def ceildiv_def chunkSize_def)
  have p: "padded sample_env (sample_fsys 1 10) 0 2 = zero_chunk @ zero_chunk"
    by (simp add: padded_def zero_chunk_def)
  have z: "length zero_chunk = chunkSize" by (simp add: zero_chunk_def)
  have l: "length (list_splice zero_chunk 1 [7]) = chunkSize" by (simp add: z chunkSize_def)
  have "list_splice (zero_chunk @ zero_chunk) 1 [7] = list_splice zero_chunk 1 [7] @ zero_chunk @ []"
    by (simp add: list_splice_append_left z chunkSize_def)
  then have leg: "chunks_legal sample_U (list_splice (zero_chunk @ zero_chunk) 1 [7])"
    using sample_splice [OF sample_zero, of 1 "[7]"] sample_zero
    by (simp only: chunks_legal_cons [OF l] chunks_legal_cons [OF z] chunks_legal_Nil) simp
  have one: "length [7::byte] = 1" by simp
  show ?thesis
    by (rule wp_mono [OF file_write_after_unaligned [where n = "sample_inode 10" and k = 0 and U = sample_U
          and again = "[8]" and later = 0 and jf = None, OF sample_ready]])
      (simp_all only: one c p leg sample_fsys_simps sample_room, simp_all add: chunksInBucket_def chunkSize_def sample_room)
qed

end
