(* ===== verification/Fs_Ops.thy ===== *)
theory Fs_Ops
  imports File_Dir
begin

text \<open>
  Class \<^verbatim>\<open>fs\<close> (\<^verbatim>\<open>src/src/modules/filesystem/fs.cpp\<close>): paths, the lookup of a file by
  its path with the two caches, open handles, and the operations that make, remove, rename and link
  objects, each with its journal entry and the inner function that also replays it.
\<close>

section \<open>Paths\<close>

text \<open>\<^verbatim>\<open>find_last_of('/')\<close>\<close>

fun last_slash :: "string \<Rightarrow> nat option" where
  "last_slash [] = None"
| "last_slash (c # cs) =
     (case last_slash cs of Some n \<Rightarrow> Some (Suc n) | None \<Rightarrow> if c = CHR ''/'' then Some 0 else None)"

definition getParentPath :: "string \<Rightarrow> string res" where
  "getParentPath s =
     (case last_slash s of None \<Rightarrow> Inl AssertFail
      | Some pos \<Rightarrow> Inr (if take pos s = [] then ''/'' else take pos s))"

definition getChildPath :: "string \<Rightarrow> string res" where
  "getChildPath s = (case last_slash s of None \<Rightarrow> Inl AssertFail | Some pos \<Rightarrow> Inr (drop (Suc pos) s))"

section \<open>Looking up a file\<close>

text \<open>
  \<^verbatim>\<open>get\<close> calls itself for the parent path, which is shorter than a path of two characters or
  more; a shorter path ends the recursion. Its fuel is the length of the path. \<open>err\<close> is the
  variable behind \<^verbatim>\<open>errcode\<close>, \<open>None\<close> before anything is stored in it.
\<close>

fun get_path :: "world \<Rightarrow> nat \<Rightarrow> string \<Rightarrow> EE option \<Rightarrow> (fid \<times> EE option) fs_op"
  and get_lookup :: "world \<Rightarrow> nat \<Rightarrow> string \<Rightarrow> EE option \<Rightarrow> (fid \<times> EE option) fs_op" where
  "get_path W k filename err =
     bindS (getS (\<lambda>t. umap_get (fs_pathCache t) filename)) (\<lambda>itr.
     case itr of
       Some i \<Rightarrow>
         if i \<noteq> 0 then
           bindS (inodeToFile W i filename []) (\<lambda>(F, e).
           let err' = (if e = None then err else e) in
           bindS (file_valid F) (\<lambda>v.
           if v then returnS (F, err')
           else
             bindS (modifyS (\<lambda>t. t\<lparr>fs_pathCache := umap_insert
               (snd (umap_erase (fs_pathCache t) filename)) ''/'' fs_rootIndex\<rparr>)) (\<lambda>_.
             get_lookup W k filename err')))
         else get_lookup W k filename err
     | None \<Rightarrow> get_lookup W k filename err)"
| "get_lookup W 0 filename err =
     (if length filename \<le> 1 then bindS (getS fs_rootFile) (\<lambda>r. returnS (r, err)) else raiseS Hang)"
| "get_lookup W (Suc k) filename err =
     (if length filename \<le> 1 then bindS (getS fs_rootFile) (\<lambda>r. returnS (r, err))
      else
        bindS (liftS (getChildPath filename)) (\<lambda>childname.
        bindS (liftS (getParentPath filename)) (\<lambda>parentname.
        bindS (getS fs_errorFile) (\<lambda>bad.
        if length childname > 255 then returnS (bad, Some EE_name_too_long)
        else
          bindS (get_path W k parentname err) (\<lambda>(parentFile, err').
          bindS (file_valid parentFile) (\<lambda>v.
          if \<not> v then returnS (bad, Some EE_entity_not_found)
          else
            bindS (file_type parentFile) (\<lambda>ty.
            if ty \<noteq> FT_DIR then returnS (bad, Some EE_entity_not_found)
            else
              bindS (file_hasNode W parentFile childname None) (\<lambda>(nodeError, i).
              if error_bool nodeError then returnS (bad, Some nodeError)
              else
                bindS (assertS (i \<noteq> 0)) (\<lambda>_.
                bindS (modifyS (\<lambda>t. t\<lparr>fs_pathCache := umap_insert (fs_pathCache t) filename i\<rparr>)) (\<lambda>_.
                bindS (file_getPathPermissions parentFile) (\<lambda>pPerm.
                bindS (permission_new parentFile) (\<lambda>p.
                bindS (inodeToFile W i filename (pPerm @ [p])) (\<lambda>(F, e).
                returnS (F, if e = None then err' else e))))))))))))))"

definition fs_get_err :: "world \<Rightarrow> string \<Rightarrow> nat \<Rightarrow> (fid \<times> EE option) fs_op" where
  "fs_get_err W filename H =
     bindS (getS fs_handles) (\<lambda>hs.
     if 0 < H \<and> H < length hs \<and> hs ! H \<noteq> None then returnS (the (hs ! H), None)
     else get_path W (length filename) filename None)"

definition fs_get :: "world \<Rightarrow> string \<Rightarrow> fid fs_op" where
  "fs_get W filename = bindS (fs_get_err W filename 0) (\<lambda>(F, _). returnS F)"

section \<open>Open handles\<close>

text \<open>The first free handle from 1 on; 0 says that there is none.\<close>

fun free_handle :: "fid option list \<Rightarrow> nat \<Rightarrow> nat" where
  "free_handle [] a = 0"
| "free_handle (h # hs) a = (if h = None then a else free_handle hs (Suc a))"

definition fs_open :: "fid \<Rightarrow> nat fs_op" where
  "fs_open F =
     bindS (getS (\<lambda>t. free_handle (drop 1 (fs_handles t)) 1)) (\<lambda>a.
     bindS (whenS (a > 0) (modifyS (\<lambda>t. t\<lparr>fs_handles := (fs_handles t)[a := Some F]\<rparr>))) (\<lambda>_.
     returnS a))"

definition fs_close :: "fid \<Rightarrow> nat \<Rightarrow> unit fs_op" where
  "fs_close F H =
     bindS (getS fs_handles) (\<lambda>hs.
     whenS (0 < H \<and> H < length hs \<and> hs ! H = Some F)
       (modifyS (\<lambda>t. t\<lparr>fs_handles := (fs_handles t)[H := None]\<rparr>)))"

section \<open>Removing\<close>

definition note_cleared :: "bucketIndex_t list \<Rightarrow> unit fs_op" where
  "note_cleared inos = forS inos (\<lambda>li. bindS (meta_clearHashAndChunk li) (\<lambda>_. meta_post li))"

definition fs_unlinkinner :: "world \<Rightarrow> string \<Rightarrow> fs_context \<Rightarrow> journalEntry option \<Rightarrow> EE fs_op" where
  "fs_unlinkinner W filename ctx je =
     bindS (liftS (getParentPath filename)) (\<lambda>srcParentName.
     bindS (liftS (getChildPath filename)) (\<lambda>srcChildName.
     bindS (fs_get W srcParentName) (\<lambda>parent.
     bindS (fs_get W filename) (\<lambda>f.
     bindS (case je of None \<Rightarrow> returnS ()
            | Some e \<Rightarrow>
                bindS (file_bucketIdx f) (\<lambda>i. bindS (assertS (je_newNode e = i)) (\<lambda>_.
                bindS (file_bucketIdx parent) (\<lambda>p. bindS (assertS (je_parentNode e = p)) (\<lambda>_.
                bindS (file_getNumLinks f) (\<lambda>n. assertS (je_offset e = n))))))) (\<lambda>_.
     bindS (file_type f) (\<lambda>ty.
     bindS (if ty = FT_DIR then
              bindS (file_isFullDir W f) (\<lambda>full. returnS (if full then None else Some True))
            else if ty \<in> {FT_FILE, FT_FIFO, FT_LNK} then
              bindS (file_removeLink f) (\<lambda>_.
              bindS (currentTime W) (\<lambda>tv.
              bindS (file_updateTimesWith f False True True tv) (\<lambda>_.
              bindS (file_getNumLinks f) (\<lambda>n. returnS (Some (n \<le> 0))))))
            else returnS (Some False)) (\<lambda>del.
     case del of None \<Rightarrow> returnS EE_not_empty
     | Some fileToDelete \<Rightarrow>
         bindS (file_removeNode W parent srcChildName ctx je) (\<lambda>ret.
         if ret \<noteq> EE_ok then returnS ret
         else
           bindS (whenS fileToDelete
             (bindS (setDeletedAndReturnAllUsedInodes W f) (\<lambda>inoToDel.
              bindS (file_ino f) (\<lambda>i.
              bindS (modifyS (\<lambda>t. t\<lparr>fs_inodeCache := snd (umap_erase (fs_inodeCache t) i)\<rparr>)) (\<lambda>_.
              note_cleared inoToDel))))) (\<lambda>_.
           bindS (getS (\<lambda>t. fst (umap_erase (fs_pathCache t) filename))) (\<lambda>num.
           bindS (modifyS (\<lambda>t. t\<lparr>fs_pathCache := snd (umap_erase (fs_pathCache t) filename)\<rparr>)) (\<lambda>_.
           bindS (whenS (num \<noteq> 1 \<and> fileToDelete) (raiseS Undefined)) (\<lambda>_.
           bindS unloadBuckets (\<lambda>_.
           returnS EE_ok)))))))))))))"

text \<open>\<^verbatim>\<open>replayEntry\<close> passes an unlink entry to \<^verbatim>\<open>unlinkinner\<close> (\<open>replay_unlink\<close> below).\<close>

definition fs_unlink :: "world \<Rightarrow> string \<Rightarrow> fs_context \<Rightarrow> EE fs_op" where
  "fs_unlink W filename ctx =
     bindS (liftS (getParentPath filename)) (\<lambda>srcParentName.
     bindS (liftS (getChildPath filename)) (\<lambda>srcChildName.
     bindS (fs_get W srcParentName) (\<lambda>parent.
     bindS (fs_get W filename) (\<lambda>f.
     bindS (file_valid f) (\<lambda>v.
     if \<not> v then returnS EE_entity_not_found
     else
       bindS (validate_access W f ctx ANONE AW True) (\<lambda>acc.
       if \<not> acc then returnS EE_access_denied
       else
         bindS (file_isSpecial f) (\<lambda>sp.
         bindS (getS fs_rootFile) (\<lambda>root.
         if sp \<or> f = root then returnS EE_access_denied
         else
           bindS (file_bucketIdx parent) (\<lambda>p.
           bindS (file_bucketIdx f) (\<lambda>i.
           bindS (file_getNumLinks f) (\<lambda>n.
           bindS (journal_add JE_unlink p i 0 0 n filename []) (\<lambda>entry.
           fs_unlinkinner W filename ctx (Some entry)))))))))))))"

section \<open>Renaming\<close>

definition fs_renamemoveinner ::
  "world \<Rightarrow> string \<Rightarrow> string \<Rightarrow> fs_context \<Rightarrow> journalEntry option \<Rightarrow> EE fs_op" where
  "fs_renamemoveinner W source dest ctx je =
     bindS (liftS (getParentPath source)) (\<lambda>srcParentName.
     bindS (liftS (getParentPath dest)) (\<lambda>dstParentName.
     bindS (liftS (getChildPath source)) (\<lambda>srcChildName.
     bindS (liftS (getChildPath dest)) (\<lambda>dstChildName.
     bindS (fs_get W srcParentName) (\<lambda>srcparent.
     bindS (fs_get W dstParentName) (\<lambda>dstparent.
     bindS (fs_get W source) (\<lambda>srcfile.
     bindS (fs_get W dest) (\<lambda>dstfile.
     bindS (case je of None \<Rightarrow> returnS ()
            | Some e \<Rightarrow>
                bindS (file_bucketIdx srcparent) (\<lambda>p. bindS (assertS (je_parentNode e = p)) (\<lambda>_.
                bindS (file_bucketIdx srcfile) (\<lambda>i. bindS (assertS (je_newNode e = i)) (\<lambda>_.
                bindS (file_bucketIdx dstparent) (\<lambda>q. assertS (je_newParentNode e = q))))))) (\<lambda>_.
     bindS (file_getMetaChunk srcfile) (\<lambda>node.
     bindS (file_addNode W dstparent dstChildName node ctx je) (\<lambda>error.
     bindS (if error = EE_exists then
              bindS (fs_unlink W dest ctx) (\<lambda>_. file_addNode W dstparent dstChildName node ctx je)
            else returnS error) (\<lambda>error.
     if error_bool error then returnS error
     else
       bindS (file_removeNode W srcparent srcChildName ctx je) (\<lambda>error.
       if error_bool error then returnS error
       else
         bindS (currentTime W) (\<lambda>tv.
         bindS (file_updateTimesWith srcfile False True True tv) (\<lambda>_.
         bindS (modifyS (\<lambda>t. t\<lparr>fs_pathCache :=
           snd (umap_erase (snd (umap_erase (fs_pathCache t) source)) dest)\<rparr>)) (\<lambda>_.
         returnS EE_ok))))))))))))))))"

definition fs_renamemove :: "world \<Rightarrow> string \<Rightarrow> string \<Rightarrow> fs_context \<Rightarrow> EE fs_op" where
  "fs_renamemove W source dest ctx =
     bindS (liftS (getParentPath source)) (\<lambda>srcParentName.
     bindS (liftS (getParentPath dest)) (\<lambda>dstParentName.
     bindS (liftS (getChildPath source)) (\<lambda>srcChildName.
     bindS (liftS (getChildPath dest)) (\<lambda>dstChildName.
     bindS (fs_get W srcParentName) (\<lambda>srcparent.
     bindS (fs_get W dstParentName) (\<lambda>dstparent.
     bindS (fs_get W source) (\<lambda>srcfile.
     bindS (fs_get W dest) (\<lambda>dstfile.
     bindS (file_valid srcparent) (\<lambda>v1. bindS (file_valid srcfile) (\<lambda>v2. bindS (file_valid dstparent) (\<lambda>v3.
     if \<not> v1 \<or> \<not> v2 \<or> \<not> v3 then returnS EE_entity_not_found
     else
       bindS (validate_access W srcfile ctx ANONE AWX True) (\<lambda>acc.
       if \<not> acc then returnS EE_access_denied
       else
         bindS (file_valid dstfile) (\<lambda>v.
         bindS (if \<not> v then returnS EE_ok
                else
                  bindS (validate_access W dstfile ctx ANONE AWX True) (\<lambda>acc.
                  if \<not> acc then returnS EE_access_denied
                  else bindS (file_isFullDir W dstfile) (\<lambda>full. returnS (if full then EE_not_empty else EE_ok))))
           (\<lambda>e.
         if error_bool e then returnS e
         else
           bindS (file_bucketIdx srcparent) (\<lambda>p.
           bindS (file_bucketIdx srcfile) (\<lambda>i.
           bindS (file_bucketIdx dstparent) (\<lambda>q.
           bindS (journal_add JE_renamemove p i q 0 0 source (str_bytes dest)) (\<lambda>entry.
           fs_renamemoveinner W source dest ctx (Some entry)))))))))))))))))))"

section \<open>Replaying a journal entry\<close>

definition fs_replayEntry ::
  "world \<Rightarrow> journalEntry \<Rightarrow> string \<Rightarrow> byte list \<Rightarrow> fs_context \<Rightarrow> journalEntry option \<Rightarrow> EE fs_op" where
  "fs_replayEntry W entry name dta ctx je =
     (case je_type entry of
        JE_mkobject \<Rightarrow>
          bindS (inodeToFile W (je_parentNode entry) [] []) (\<lambda>(parent, _).
          bindS (file_valid parent) (\<lambda>v.
          bindS (assertS v) (\<lambda>_.
          bindS new_metachunk (\<lambda>newInode.
          bindS (setFileDefaults W newInode (je_mod entry) (Some ctx)) (\<lambda>_.
          bindS (upd_inode newInode (\<lambda>n. n\<lparr>in_myID := je_newNode entry\<rparr>)) (\<lambda>_.
          bindS (assertS (je_newNode entry \<noteq> 0)) (\<lambda>_.
          bindS (file_addNode W parent name newInode ctx je) (\<lambda>status.
          bindS (whenS (status = EE_ok) (storeInode newInode)) (\<lambda>_.
          returnS status)))))))))
      | JE_unlink \<Rightarrow> fs_unlinkinner W name ctx je
      | JE_renamemove \<Rightarrow> fs_renamemoveinner W name (bytes_str dta) ctx je
      | _ \<Rightarrow>
          bindS (inodeToFile W (je_newNode entry) [] []) (\<lambda>(F, _).
          file_replayEntry W F entry dta je))"

section \<open>Making objects\<close>

text \<open>The metadata chunk of the new object, or the error code.\<close>

definition fs_mkobject ::
  "world \<Rightarrow> string \<Rightarrow> fs_context \<Rightarrow> my_mode_t \<Rightarrow> my_mode_t \<Rightarrow> (EE + cid) fs_op" where
  "fs_mkobject W filename ctx ty md =
     bindS (assertS (ty AND mode_TYPE \<noteq> 0)) (\<lambda>_.
     bindS (liftS (getParentPath filename)) (\<lambda>parentname.
     bindS (liftS (getChildPath filename)) (\<lambda>childname.
     if childname = [] then returnS (Inl EE_exists)
     else
       bindS (fs_get W parentname) (\<lambda>parent.
       bindS (file_valid parent) (\<lambda>v.
       if \<not> v then returnS (Inl EE_entity_not_found)
       else
         bindS meta_fetch (\<lambda>ino.
         bindS (file_bucketIdx parent) (\<lambda>p.
         bindS (journal_add JE_mkobject p ino 0 (md OR ty) 0 childname []) (\<lambda>entry.
         bindS (fs_replayEntry W entry childname [] ctx (Some entry)) (\<lambda>errorcode.
         if error_bool errorcode then bindS (meta_post ino) (\<lambda>_. returnS (Inl errorcode))
         else bindS (meta_getChunk ino) (\<lambda>c. returnS (Inr c)))))))))))"

definition fs_mkdir :: "world \<Rightarrow> string \<Rightarrow> my_mode_t \<Rightarrow> fs_context \<Rightarrow> EE fs_op" where
  "fs_mkdir W name md ctx =
     bindS (fs_mkobject W name ctx mode_TYPE_DIR md) (\<lambda>r.
     case r of Inl e \<Rightarrow> returnS e | Inr _ \<Rightarrow> returnS EE_ok)"

definition fs_mknod :: "world \<Rightarrow> string \<Rightarrow> my_mode_t \<Rightarrow> fs_context \<Rightarrow> EE fs_op" where
  "fs_mknod W filename m ctx =
     (let m' = (if m AND mode_TYPE = 0 then m OR mode_TYPE_REG else m) in
      bindS (fs_mkobject W filename ctx (m' AND mode_TYPE) m') (\<lambda>r.
      case r of Inl e \<Rightarrow> returnS e
      | Inr _ \<Rightarrow> bindS (fs_get W filename) (\<lambda>f. returnS EE_ok)))"

text \<open>\<^verbatim>\<open>e\<close> is \<^verbatim>\<open>EE::ok\<close> before \<^verbatim>\<open>get\<close> and is returned when \<^verbatim>\<open>get\<close> stores another code in it.\<close>

definition fs_softlink :: "world \<Rightarrow> string \<Rightarrow> string \<Rightarrow> fs_context \<Rightarrow> EE fs_op" where
  "fs_softlink W linktarget linkname ctx =
     bindS (fs_mkobject W linkname ctx mode_TYPE_LNK 0x1FF) (\<lambda>r.
     case r of Inl e \<Rightarrow> returnS e
     | Inr _ \<Rightarrow>
         bindS (fs_get_err W linkname 0) (\<lambda>(fil, err).
         if error_bool (case err of None \<Rightarrow> EE_ok | Some e \<Rightarrow> e) then returnS (the err)
         else
           bindS (file_write W fil (str_bytes linktarget) 0) (\<lambda>ret.
           bindS (file_truncate W fil (length linktarget)) (\<lambda>_.
           if ret \<noteq> length linktarget then returnS EE_entity_not_found
           else bindS (file_rest fil) (\<lambda>_. returnS EE_ok)))))"

definition fs_hardlink :: "world \<Rightarrow> string \<Rightarrow> string \<Rightarrow> fs_context \<Rightarrow> EE fs_op" where
  "fs_hardlink W linktarget linkname ctx =
     bindS (fs_get W linktarget) (\<lambda>target.
     bindS (file_valid target) (\<lambda>v.
     if \<not> v then returnS EE_entity_not_found
     else
       bindS (liftS (getParentPath linkname)) (\<lambda>parentName.
       bindS (liftS (getChildPath linkname)) (\<lambda>childName.
       bindS (fs_get W parentName) (\<lambda>parent.
       bindS (file_valid parent) (\<lambda>v.
       if \<not> v then returnS EE_entity_not_found
       else
         bindS (file_getMetaChunk target) (\<lambda>node.
         bindS (file_addNode W parent childName node ctx None) (\<lambda>e.
         if error_bool e then returnS e
         else
           bindS (file_addLink target) (\<lambda>_.
           bindS (currentTime W) (\<lambda>tv.
           bindS (file_updateTimesWith target False True True tv) (\<lambda>_.
           returnS EE_ok)))))))))))"

section \<open>Facts\<close>

lemma replay_unlink: "je_type e = JE_unlink \<Longrightarrow> fs_replayEntry W e name dta ctx je = fs_unlinkinner W name ctx je"
  by (simp add: fs_replayEntry_def)

lemma replay_rename:
  "je_type e = JE_renamemove \<Longrightarrow>
     fs_replayEntry W e name (str_bytes dest) ctx je = fs_renamemoveinner W name (bytes_str (str_bytes dest)) ctx je"
  by (simp add: fs_replayEntry_def)

lemma char_byte [simp]: "char_of (unat (of_char c :: byte)) = c"
proof -
  have "(of_char c :: nat) < 256" using range_nat_of_char by (metis atLeastLessThan_iff rangeI)
  then have "unat (of_char c :: byte) = of_char c"
    using unat_of_nat [of "of_char c :: nat", where ?'a = 8] by (simp add: of_nat_of_char)
  then show ?thesis by simp
qed

lemma str_bytes_inverse [simp]: "bytes_str (str_bytes s) = s"
  by (simp add: str_bytes_def bytes_str_def comp_def)

end
