(* ===== verification/Mutex.thy ===== *)
theory Mutex
  imports Main
begin

text \<open>
  Class \<^verbatim>\<open>shared_recursive_mutex\<close>
  (\<^verbatim>\<open>src/src/modules/util/shared_recursive_mutex.cpp\<close>): the spin lock behind every file. Its
  functions run concurrently, one atomic access at a time. A thread is a number below \<open>N\<close>; it has
  the next access of the function it is in and, as ghost state, how often it holds the lock uniquely
  and shared.
\<close>

section \<open>The lock and its threads\<close>

text \<open>
  The places inside the functions: \<open>LK\<close> in \<^verbatim>\<open>lock\<close>, \<open>TL\<close> in \<^verbatim>\<open>try_lock\<close>, \<open>UL\<close> in
  \<^verbatim>\<open>unlock\<close>, \<open>SH\<close> in \<^verbatim>\<open>lock_shared\<close>, \<open>TS\<close> in \<^verbatim>\<open>try_lock_shared\<close>, \<open>US\<close> in
  \<^verbatim>\<open>unlock_shared\<close>. The last stores of \<^verbatim>\<open>try_lock\<close> and \<^verbatim>\<open>try_lock_shared\<close> are those of
  \<^verbatim>\<open>lock\<close> and \<^verbatim>\<open>lock_shared\<close>. \<open>PC_Failed\<close> is a failed assertion.
\<close>

datatype mutex_pc =
  PC_Idle | LK_rec | LK_tas | LK_wait | LK_own | LK_count
| TL_tas | TL_shared | TL_clear
| UL_dec | UL_own | UL_count | UL_clear
| SH_tas | SH_inc | SH_clear | TS_tas | US_dec | PC_Failed

record mutex =
  mx_lck :: bool
  mx_owner :: "nat option"
  mx_count :: int
  mx_shared :: int
  mx_pc :: "nat \<Rightarrow> mutex_pc"
  mx_depth :: "nat \<Rightarrow> nat"
  mx_shares :: "nat \<Rightarrow> nat"

definition mutex_new :: mutex where
  "mutex_new = \<lparr>mx_lck = False, mx_owner = None, mx_count = 0, mx_shared = 0, mx_pc = (\<lambda>_. PC_Idle),
     mx_depth = (\<lambda>_. 0), mx_shares = (\<lambda>_. 0)\<rparr>"

definition goto :: "nat \<Rightarrow> mutex_pc \<Rightarrow> mutex \<Rightarrow> mutex" where
  "goto t p s = s\<lparr>mx_pc := (mx_pc s)(t := p)\<rparr>"

definition set_depth :: "nat \<Rightarrow> nat \<Rightarrow> mutex \<Rightarrow> mutex" where
  "set_depth t n s = s\<lparr>mx_depth := (mx_depth s)(t := n)\<rparr>"

definition set_shares :: "nat \<Rightarrow> nat \<Rightarrow> mutex \<Rightarrow> mutex" where
  "set_shares t n s = s\<lparr>mx_shares := (mx_shares s)(t := n)\<rparr>"

section \<open>Calls and steps\<close>

datatype mutex_call = C_lock | C_try_lock | C_unlock | C_lock_shared | C_try_lock_shared | C_unlock_shared

text \<open>The beginning of each function, up to its first access that changes the lock.\<close>

fun mutex_enter :: "nat \<Rightarrow> mutex_call \<Rightarrow> mutex \<Rightarrow> mutex" where
  "mutex_enter t C_lock s = goto t (if mx_owner s = Some t then LK_rec else LK_tas) s"
| "mutex_enter t C_try_lock s = goto t (if mx_owner s = Some t then LK_rec else TL_tas) s"
| "mutex_enter t C_unlock s =
     set_depth t (mx_depth s t - 1) (goto t (if mx_count s > 1 then UL_dec else UL_own) s)"
| "mutex_enter t C_lock_shared s = goto t (if mx_owner s = Some t then PC_Failed else SH_tas) s"
| "mutex_enter t C_try_lock_shared s = goto t TS_tas s"
| "mutex_enter t C_unlock_shared s = goto t US_dec s"

text \<open>The next access of a thread inside a function.\<close>

definition mutex_access :: "nat \<Rightarrow> mutex \<Rightarrow> mutex" where
  "mutex_access t s =
     (case mx_pc s t of
        PC_Idle \<Rightarrow> s
      | PC_Failed \<Rightarrow> s
      | LK_rec \<Rightarrow> set_depth t (Suc (mx_depth s t)) (goto t PC_Idle (s\<lparr>mx_count := mx_count s + 1\<rparr>))
      | LK_tas \<Rightarrow> if mx_lck s then s else goto t LK_wait (s\<lparr>mx_lck := True\<rparr>)
      | LK_wait \<Rightarrow> if mx_shared s > 0 then s else goto t LK_own s
      | LK_own \<Rightarrow> goto t LK_count (s\<lparr>mx_owner := Some t\<rparr>)
      | LK_count \<Rightarrow> set_depth t 1 (goto t PC_Idle (s\<lparr>mx_count := 1\<rparr>))
      | TL_tas \<Rightarrow> if mx_lck s then goto t PC_Idle s else goto t TL_shared (s\<lparr>mx_lck := True\<rparr>)
      | TL_shared \<Rightarrow> if mx_shared s > 0 then goto t TL_clear s else goto t LK_own s
      | TL_clear \<Rightarrow> goto t PC_Idle (s\<lparr>mx_lck := False\<rparr>)
      | UL_dec \<Rightarrow> goto t PC_Idle (s\<lparr>mx_count := mx_count s - 1\<rparr>)
      | UL_own \<Rightarrow> goto t UL_count (s\<lparr>mx_owner := None\<rparr>)
      | UL_count \<Rightarrow> goto t UL_clear (s\<lparr>mx_count := 0\<rparr>)
      | UL_clear \<Rightarrow> goto t PC_Idle (s\<lparr>mx_lck := False\<rparr>)
      | SH_tas \<Rightarrow> if mx_lck s then s else goto t SH_inc (s\<lparr>mx_lck := True\<rparr>)
      | SH_inc \<Rightarrow> set_shares t (Suc (mx_shares s t)) (goto t SH_clear (s\<lparr>mx_shared := mx_shared s + 1\<rparr>))
      | SH_clear \<Rightarrow> goto t PC_Idle (s\<lparr>mx_lck := False\<rparr>)
      | TS_tas \<Rightarrow> if mx_lck s then goto t PC_Idle s else goto t SH_inc (s\<lparr>mx_lck := True\<rparr>)
      | US_dec \<Rightarrow>
          set_shares t (mx_shares s t - 1)
            (goto t (if mx_shared s > - 1 then PC_Idle else PC_Failed) (s\<lparr>mx_shared := mx_shared s - 1\<rparr>)))"

text \<open>
  A thread that unlocks holds the lock, which is how the guards of the standard library call these
  functions.
\<close>

definition may_call :: "nat \<Rightarrow> mutex_call \<Rightarrow> mutex \<Rightarrow> bool" where
  "may_call t c s \<longleftrightarrow>
     mx_pc s t = PC_Idle \<and>
     (c = C_unlock \<longrightarrow> mx_depth s t > 0) \<and> (c = C_unlock_shared \<longrightarrow> mx_shares s t > 0)"

inductive mutex_step :: "nat \<Rightarrow> mutex \<Rightarrow> mutex \<Rightarrow> bool" for N where
  step_call: "\<lbrakk>t < N; may_call t c s\<rbrakk> \<Longrightarrow> mutex_step N s (mutex_enter t c s)"
| step_access: "\<lbrakk>t < N; mx_pc s t \<noteq> PC_Idle\<rbrakk> \<Longrightarrow> mutex_step N s (mutex_access t s)"

inductive mutex_reach :: "nat \<Rightarrow> mutex \<Rightarrow> mutex \<Rightarrow> bool" for N where
  reach_refl: "mutex_reach N s s"
| reach_step: "\<lbrakk>mutex_reach N s u; mutex_step N u v\<rbrakk> \<Longrightarrow> mutex_reach N s v"

section \<open>The invariant\<close>

definition in_lck :: "mutex_pc \<Rightarrow> bool" where
  "in_lck p \<longleftrightarrow> p \<in> {LK_wait, LK_own, LK_count, TL_shared, TL_clear, UL_own, UL_count, UL_clear, SH_inc, SH_clear}"

definition holds_lck :: "mutex \<Rightarrow> nat \<Rightarrow> bool" where
  "holds_lck s t \<longleftrightarrow> mx_depth s t > 0 \<or> in_lck (mx_pc s t)"

text \<open>
  What holds of thread \<open>t\<close> when \<open>h\<close> is the thread that has set the flag \<^verbatim>\<open>lck\<close>.
\<close>

definition thread_inv :: "nat \<Rightarrow> nat option \<Rightarrow> mutex \<Rightarrow> nat \<Rightarrow> bool" where
  "thread_inv N h s t \<longleftrightarrow>
     (holds_lck s t \<longleftrightarrow> h = Some t) \<and>
     (mx_pc s t \<in> {LK_rec, UL_dec} \<longrightarrow> mx_depth s t > 0) \<and>
     (mx_depth s t > 0 \<longrightarrow> mx_pc s t \<in> {PC_Idle, LK_rec, UL_dec, TS_tas, PC_Failed}) \<and>
     (mx_owner s = Some t \<longleftrightarrow> mx_depth s t > 0 \<or> mx_pc s t \<in> {LK_count, UL_own}) \<and>
     (mx_depth s t > 0 \<or> mx_pc s t \<in> {LK_own, LK_count} \<longrightarrow> mx_shared s = 0) \<and>
     (mx_depth s t > 0 \<longrightarrow> mx_count s = int (mx_depth s t) + (if mx_pc s t = UL_dec then 1 else 0)) \<and>
     (mx_pc s t = US_dec \<longrightarrow> mx_shares s t > 0) \<and>
     (t \<ge> N \<longrightarrow> mx_pc s t = PC_Idle \<and> mx_depth s t = 0 \<and> mx_shares s t = 0)"

definition mutex_inv :: "nat \<Rightarrow> mutex \<Rightarrow> bool" where
  "mutex_inv N s \<longleftrightarrow>
     mx_shared s = (\<Sum>t<N. int (mx_shares s t)) \<and>
     (\<exists>h. (mx_lck s \<longleftrightarrow> h \<noteq> None) \<and> (\<forall>t. thread_inv N h s t))"

lemmas mutex_upd = goto_def set_depth_def set_shares_def
lemmas thread_inv_defs = thread_inv_def holds_lck_def in_lck_def

lemma mutex_inv_new: "mutex_inv N mutex_new"
  unfolding mutex_inv_def by (auto intro!: exI [of _ None] simp: mutex_new_def thread_inv_defs)

lemma sum_shares:
  assumes "t < (N::nat)"
  shows "(\<Sum>u<N. int ((f(t := n)) u)) = (\<Sum>u<N. int (f u)) - int (f t) + int n"
proof -
  have "(\<Sum>u<N. int (g u)) = int (g t) + (\<Sum>u\<in>{..<N} - {t}. int (g u))" for g :: "nat \<Rightarrow> nat"
    using assms by (simp add: sum.remove)
  from this [of f] this [of "f(t := n)"] show ?thesis by simp
qed

lemma thread_inv_frame:
  assumes "thread_inv N h s u"
    and "mx_pc s' u = mx_pc s u" "mx_depth s' u = mx_depth s u" "mx_shares s' u = mx_shares s u"
    and "mx_owner s' = Some u \<longleftrightarrow> mx_owner s = Some u" "h' = Some u \<longleftrightarrow> h = Some u"
    and "mx_depth s u > 0 \<or> mx_pc s u \<in> {LK_own, LK_count} \<Longrightarrow> mx_shared s' = mx_shared s"
    and "mx_depth s u > 0 \<Longrightarrow> mx_count s' = mx_count s"
  shows "thread_inv N h' s' u"
  using assms unfolding thread_inv_defs by (auto split: if_splits)

lemma mutex_invI:
  assumes "mx_lck s' \<longleftrightarrow> h' \<noteq> None" "thread_inv N h' s' t" "\<And>u. u \<noteq> t \<Longrightarrow> thread_inv N h' s' u"
    and "mx_shared s' = (\<Sum>t<N. int (mx_shares s' t))"
  shows "mutex_inv N s'"
  unfolding mutex_inv_def using assms by metis

lemma mutex_inv_enter:
  assumes inv: "mutex_inv N s" and t: "t < N" and c: "may_call t c s"
  shows "mutex_inv N (mutex_enter t c s)"
proof -
  from inv obtain h where sum: "mx_shared s = (\<Sum>t<N. int (mx_shares s t))"
    and lck: "mx_lck s \<longleftrightarrow> h \<noteq> None" and th: "\<And>u. thread_inv N h s u"
    unfolding mutex_inv_def by blast
  have one: "mx_shared s \<ge> int (mx_shares s t)"
    unfolding sum using t by (intro member_le_sum) auto
  show ?thesis
  proof (rule mutex_invI [of _ h _ t])
    show "mx_lck (mutex_enter t c s) \<longleftrightarrow> h \<noteq> None" by (cases c) (simp_all add: mutex_upd lck)
    show "thread_inv N h (mutex_enter t c s) t"
      using th [of t] c t one by (cases c) (auto simp: mutex_upd thread_inv_defs may_call_def)
    show "mx_shared (mutex_enter t c s) = (\<Sum>u<N. int (mx_shares (mutex_enter t c s) u))"
      by (cases c) (simp_all add: mutex_upd sum)
    show "thread_inv N h (mutex_enter t c s) u" if "u \<noteq> t" for u
      by (rule thread_inv_frame [OF th]) (use that in \<open>cases c; simp add: mutex_upd\<close>)+
  qed
qed

lemma shares_access:
  "mx_shares (mutex_access t s) =
     (if mx_pc s t = SH_inc then (mx_shares s)(t := Suc (mx_shares s t))
      else if mx_pc s t = US_dec then (mx_shares s)(t := mx_shares s t - 1) else mx_shares s)"
  by (cases "mx_pc s t") (simp_all add: mutex_access_def mutex_upd)

lemma shared_access:
  "mx_shared (mutex_access t s) =
     (if mx_pc s t = SH_inc then mx_shared s + 1 else if mx_pc s t = US_dec then mx_shared s - 1 else mx_shared s)"
  by (cases "mx_pc s t") (simp_all add: mutex_access_def mutex_upd)

lemma mutex_inv_access:
  assumes inv: "mutex_inv N s" and t: "t < N"
  shows "mutex_inv N (mutex_access t s)"
proof -
  from inv obtain h where sum: "mx_shared s = (\<Sum>t<N. int (mx_shares s t))"
    and lck: "mx_lck s \<longleftrightarrow> h \<noteq> None" and th: "\<And>u. thread_inv N h s u"
    unfolding mutex_inv_def by blast
  let ?p = "mx_pc s t"
  let ?h = "if ?p \<in> {TL_clear, UL_clear, SH_clear} then None
            else if ?p \<in> {LK_tas, TL_tas, SH_tas, TS_tas} \<and> \<not> mx_lck s then Some t else h"
  have own: "h = Some t" if "mx_depth s t > 0 \<or> in_lck ?p"
    using th [of t] that by (simp add: thread_inv_def holds_lck_def)
  have pos: "0 \<le> mx_shared s" by (simp add: sum sum_nonneg)
  have one: "mx_shared s \<ge> int (mx_shares s t)"
    unfolding sum using t by (intro member_le_sum) auto
  show ?thesis
  proof (rule mutex_invI [of _ ?h _ t])
    show "mx_lck (mutex_access t s) \<longleftrightarrow> ?h \<noteq> None"
      using lck own by (cases ?p) (auto simp: mutex_access_def mutex_upd in_lck_def)
    show "thread_inv N ?h (mutex_access t s) t"
      using th [of t] t lck pos by (cases ?p) (auto simp: mutex_access_def mutex_upd thread_inv_defs)
    show "mx_shared (mutex_access t s) = (\<Sum>u<N. int (mx_shares (mutex_access t s) u))"
      using th [of t] sum unfolding shares_access shared_access
      by (cases ?p) (simp_all add: sum_shares [OF t] thread_inv_def of_nat_diff Suc_le_eq del: fun_upd_apply)
    show "thread_inv N ?h (mutex_access t s) u" if u: "u \<noteq> t" for u
    proof (rule thread_inv_frame [OF th])
      show "mx_shared (mutex_access t s) = mx_shared s"
        if "mx_depth s u > 0 \<or> mx_pc s u \<in> {LK_own, LK_count}"
        using th [of t] th [of u] that u one by (cases ?p) (auto simp: mutex_access_def mutex_upd thread_inv_defs)
      show "mx_count (mutex_access t s) = mx_count s" if "mx_depth s u > 0"
        using th [of t] th [of u] that u by (cases ?p) (auto simp: mutex_access_def mutex_upd thread_inv_defs)
      show "?h = Some u \<longleftrightarrow> h = Some u"
        using u own lck by (cases ?p) (auto simp: in_lck_def)
      show "mx_owner (mutex_access t s) = Some u \<longleftrightarrow> mx_owner s = Some u"
        using th [of t] th [of u] u by (cases ?p) (auto simp: mutex_access_def mutex_upd thread_inv_defs)
    qed (use u in \<open>cases ?p; simp add: mutex_access_def mutex_upd\<close>)+
  qed
qed


lemma mutex_inv_step: "mutex_step N s s' \<Longrightarrow> mutex_inv N s \<Longrightarrow> mutex_inv N s'"
  by (induction rule: mutex_step.induct) (auto intro: mutex_inv_enter mutex_inv_access)

lemma mutex_inv_reach: "mutex_reach N s s' \<Longrightarrow> mutex_inv N s \<Longrightarrow> mutex_inv N s'"
  by (induction rule: mutex_reach.induct) (auto intro: mutex_inv_step)

section \<open>Mutual exclusion\<close>

lemma mutex_inv_exclusive:
  assumes "mutex_inv N s" "mx_depth s t > 0"
  shows "mx_shares s u = 0" and "u \<noteq> t \<Longrightarrow> mx_depth s u = 0"
proof -
  from assms obtain h where sum: "mx_shared s = (\<Sum>t<N. int (mx_shares s t))"
    and th: "\<And>u. thread_inv N h s u" unfolding mutex_inv_def by blast
  have zero: "(\<Sum>t<N. int (mx_shares s t)) = 0"
    using th [of t] assms(2) sum by (simp add: thread_inv_def)
  show "mx_shares s u = 0"
  proof (cases "u < N")
    case True
    then show ?thesis using zero by (simp add: sum_nonneg_eq_0_iff)
  next
    case False
    then show ?thesis using th [of u] by (simp add: thread_inv_def)
  qed
  show "mx_depth s u = 0" if "u \<noteq> t"
    using th [of t] th [of u] assms(2) that by (auto simp: thread_inv_def holds_lck_def)
qed

text \<open>
  C28: In every reachable state of the lock, while one thread holds it uniquely no other thread
  holds it uniquely and no thread holds it shared; the owner is this thread, and the count is at least
  the number of times it holds it.
\<close>

theorem mutex_exclusion:
  assumes "mutex_reach N mutex_new s" "mx_depth s t > 0"
  shows "(\<forall>u. mx_shares s u = 0) \<and> (\<forall>u. u \<noteq> t \<longrightarrow> mx_depth s u = 0) \<and> mx_owner s = Some t
    \<and> mx_count s \<ge> int (mx_depth s t)"
proof -
  have inv: "mutex_inv N s" using mutex_inv_reach [OF assms(1)] mutex_inv_new by blast
  then obtain h where "thread_inv N h s t" unfolding mutex_inv_def by blast
  then show ?thesis
    using mutex_inv_exclusive [OF inv assms(2)] assms(2) by (auto simp: thread_inv_def)
qed

text \<open>A thread that runs alone.\<close>

fun mutex_alone :: "nat \<Rightarrow> nat \<Rightarrow> mutex \<Rightarrow> mutex" where
  "mutex_alone 0 t s = s"
| "mutex_alone (Suc k) t s = mutex_alone k t (mutex_access t s)"

lemma reach_alone:
  assumes "mutex_reach N s u" "t < N" "mx_pc u t \<noteq> PC_Idle"
  shows "mutex_reach N s (mutex_access t u)"
  using assms by (blast intro: reach_step step_access)

definition sample_locked :: mutex where
  "sample_locked = mutex_access 0 (mutex_access 0 (mutex_access 0 (mutex_access 0
     (mutex_enter 0 C_lock mutex_new))))"

lemma sample_locked_pc:
  "mx_pc (mutex_enter 0 C_lock mutex_new) 0 = LK_tas"
  "mx_pc (mutex_access 0 (mutex_enter 0 C_lock mutex_new)) 0 = LK_wait"
  "mx_pc (mutex_access 0 (mutex_access 0 (mutex_enter 0 C_lock mutex_new))) 0 = LK_own"
  "mx_pc (mutex_access 0 (mutex_access 0 (mutex_access 0 (mutex_enter 0 C_lock mutex_new)))) 0 = LK_count"
  by (simp_all add: mutex_new_def mutex_access_def mutex_upd)

lemma sample_locked_reach: "mutex_reach 2 mutex_new sample_locked"
  unfolding sample_locked_def
  by (intro reach_alone reach_step [OF reach_refl] step_call)
     (simp_all add: sample_locked_pc may_call_def del: mutex_enter.simps, simp add: mutex_new_def)

theorem mutex_exclusion_witness:
  "mx_depth sample_locked 0 > 0 \<and> mx_owner sample_locked = Some 0 \<and> mx_depth sample_locked 1 = 0"
proof -
  have d: "mx_depth sample_locked 0 > 0"
    by (simp add: sample_locked_def mutex_new_def mutex_access_def mutex_upd)
  show ?thesis using mutex_exclusion [OF sample_locked_reach d] d by simp
qed

section \<open>Progress\<close>

text \<open>
  C36: When no thread is inside a function of the lock and none holds it, a thread that calls
  \<^verbatim>\<open>lock\<close> and runs alone has it after four accesses: the flag is never left set.
\<close>

theorem mutex_free_lock:
  assumes "mutex_reach N mutex_new s" "t < N" "\<forall>u. mx_pc s u = PC_Idle \<and> mx_depth s u = 0 \<and> mx_shares s u = 0"
  shows "mx_depth (mutex_alone 4 t (mutex_enter t C_lock s)) t = 1
    \<and> mx_owner (mutex_alone 4 t (mutex_enter t C_lock s)) = Some t"
proof -
  from mutex_inv_reach [OF assms(1) mutex_inv_new] obtain h
    where "mx_shared s = (\<Sum>t<N. int (mx_shares s t))" "mx_lck s \<longleftrightarrow> h \<noteq> None"
      and th: "\<And>u. thread_inv N h s u" unfolding mutex_inv_def by blast
  moreover have "h = None" using assms(3) th by (cases h) (auto simp: thread_inv_defs)
  moreover have "mx_owner s \<noteq> Some t" using th [of t] assms(3) by (auto simp: thread_inv_defs)
  ultimately have f: "mx_shared s = 0" "\<not> mx_lck s" "mx_owner s \<noteq> Some t" using assms(3) by simp_all
  have 4: "(4::nat) = Suc (Suc (Suc (Suc 0)))" by simp
  define a where "a = mutex_enter t C_lock s"
  have a: "mx_pc a t = LK_tas" "mx_shared a = 0" "\<not> mx_lck a" using f by (simp_all add: a_def mutex_upd)
  define b where "b = mutex_access t a"
  have b: "mx_pc b t = LK_wait" "mx_shared b = 0" using a by (simp_all add: b_def mutex_access_def mutex_upd)
  define c where "c = mutex_access t b"
  have c: "mx_pc c t = LK_own" using b by (simp add: c_def mutex_access_def mutex_upd)
  define d where "d = mutex_access t c"
  have d: "mx_pc d t = LK_count" "mx_owner d = Some t" using c by (simp_all add: d_def mutex_access_def mutex_upd)
  have "mx_depth (mutex_access t d) t = 1 \<and> mx_owner (mutex_access t d) = Some t"
    using d by (simp add: mutex_access_def mutex_upd)
  then show ?thesis by (simp only: 4 mutex_alone.simps a_def [symmetric] b_def [symmetric] c_def [symmetric] d_def [symmetric])
qed

theorem mutex_free_lock_witness:
  "mx_depth (mutex_alone 4 1 (mutex_enter 1 C_lock mutex_new)) 1 = 1"
  using mutex_free_lock [OF reach_refl [of 2 mutex_new], of 1] by (simp add: mutex_new_def)

lemma upgrade_stuck_access:
  assumes inv: "mutex_inv N s" and "mx_pc s t = LK_wait" "mx_shares s t > 0"
  shows "mx_pc (mutex_access u s) t = LK_wait \<and> mx_shares (mutex_access u s) t > 0"
proof -
  from inv obtain h where sum: "mx_shared s = (\<Sum>t<N. int (mx_shares s t))"
    and th: "\<And>u. thread_inv N h s u" unfolding mutex_inv_def by blast
  have "t < N" using th [of t] assms(2) by (cases "t < N") (simp_all add: thread_inv_def)
  then have "mx_shared s \<ge> int (mx_shares s t)" unfolding sum by (intro member_le_sum) auto
  then show ?thesis
    using assms(2,3) by (cases "u = t"; cases "mx_pc s u") (auto simp: mutex_access_def mutex_upd)
qed

lemma upgrade_stuck_step:
  assumes "mutex_step N s s'" "mutex_inv N s" "mx_pc s t = LK_wait" "mx_shares s t > 0"
  shows "mx_pc s' t = LK_wait \<and> mx_shares s' t > 0"
  using assms
proof (induction rule: mutex_step.induct)
  case (step_call u c)
  then have "u \<noteq> t" by (auto simp: may_call_def)
  then show ?case using step_call by (cases c) (simp_all add: mutex_upd)
next
  case (step_access u)
  then show ?case by (intro upgrade_stuck_access)
qed

text \<open>
  A thread that holds the lock shared and calls \<^verbatim>\<open>lock\<close> never gets it: once it is waiting
  for the shared locks to go, it waits in every later state.
\<close>

theorem mutex_upgrade_stuck:
  assumes "mutex_reach N mutex_new s" "mx_pc s t = LK_wait" "mx_shares s t > 0" "mutex_reach N s s'"
  shows "mx_pc s' t = LK_wait \<and> mx_depth s' t = 0"
proof -
  have inv: "mutex_inv N s" using mutex_inv_reach [OF assms(1)] mutex_inv_new by blast
  from assms(4) inv assms(2,3) have "mx_pc s' t = LK_wait \<and> mx_shares s' t > 0 \<and> mutex_inv N s'"
  proof (induction rule: mutex_reach.induct)
    case (reach_step u v)
    then show ?case using upgrade_stuck_step mutex_inv_step by blast
  qed simp
  then show ?thesis unfolding mutex_inv_def thread_inv_def by (metis in_lck_def insert_iff mutex_pc.distinct empty_iff neq0_conv)
qed


definition sample_shared :: mutex where
  "sample_shared = mutex_access 0 (mutex_enter 0 C_lock (mutex_access 0 (mutex_access 0 (mutex_access 0
     (mutex_enter 0 C_lock_shared mutex_new)))))"

lemma sample_shared_pc:
  "mx_pc (mutex_enter 0 C_lock_shared mutex_new) 0 = SH_tas"
  "mx_pc (mutex_access 0 (mutex_enter 0 C_lock_shared mutex_new)) 0 = SH_inc"
  "mx_pc (mutex_access 0 (mutex_access 0 (mutex_enter 0 C_lock_shared mutex_new))) 0 = SH_clear"
  "mx_pc (mutex_access 0 (mutex_access 0 (mutex_access 0 (mutex_enter 0 C_lock_shared mutex_new)))) 0 = PC_Idle"
  "mx_pc (mutex_enter 0 C_lock (mutex_access 0 (mutex_access 0 (mutex_access 0
     (mutex_enter 0 C_lock_shared mutex_new))))) 0 = LK_tas"
  by (simp_all add: mutex_new_def mutex_access_def mutex_upd)

lemma sample_shared_reach: "mutex_reach 2 mutex_new sample_shared"
  unfolding sample_shared_def
  by (intro reach_alone reach_step [OF _ step_call] reach_refl)
     (simp_all add: sample_shared_pc may_call_def del: mutex_enter.simps, simp add: mutex_new_def)

theorem mutex_upgrade_stuck_witness: "mx_depth (mutex_access 0 sample_shared) 0 = 0"
proof -
  have p: "mx_pc sample_shared 0 = LK_wait" "mx_shares sample_shared 0 > 0"
    by (simp_all add: sample_shared_def mutex_new_def mutex_access_def mutex_upd)
  have r: "mutex_reach 2 sample_shared (mutex_access 0 sample_shared)"
    by (rule reach_alone [OF reach_refl]) (simp_all add: p)
  show ?thesis using mutex_upgrade_stuck [OF sample_shared_reach p r] by simp
qed

end
