(* ===== verification/Key.thy ===== *)
theory Key
  imports Bucket
begin

text \<open>
  Keys in memory (\<^verbatim>\<open>src/src/modules/crypto/key.cpp\<close>) and sums (\<^verbatim>\<open>sha256.cpp\<close>,
  \<^verbatim>\<open>sha256.h\<close>). What these call of libsodium is the record \<open>sodium\<close>, a parameter; the state
  is the number of random draws so far and the static master key.
\<close>

section \<open>libsodium\<close>

record sodium =
  so_random :: "nat \<Rightarrow> nat \<Rightarrow> byte list"
  so_sha256 :: "byte list \<Rightarrow> byte list"
  so_bin2hex :: "byte list \<Rightarrow> string"
  so_bin2base64 :: "byte list \<Rightarrow> string"
  so_base642bin :: "string \<Rightarrow> byte list option"
  so_argon2id :: "nat \<Rightarrow> byte list \<Rightarrow> byte list \<Rightarrow> int \<Rightarrow> int \<Rightarrow> byte list option"
  so_saltbytes :: nat
  so_opslimit :: int
  so_memlimit :: int
  so_aead_encrypt :: "byte list \<Rightarrow> byte list \<Rightarrow> byte list \<Rightarrow> byte list"
  so_aead_decrypt :: "byte list \<Rightarrow> byte list \<Rightarrow> byte list \<Rightarrow> byte list option"
  so_keybytes :: nat
  so_npubbytes :: nat
  so_abytes :: nat
  so_push :: "byte list \<Rightarrow> byte list \<Rightarrow> nat \<Rightarrow> byte list \<Rightarrow> byte list"
  so_pull :: "byte list \<Rightarrow> byte list \<Rightarrow> nat \<Rightarrow> byte list \<Rightarrow> byte list option"
  so_streamkeybytes :: nat
  so_streamheader :: nat
  so_streamabytes :: nat

record crypt =
  cr_draws :: nat
  cr_master :: "byte list"

type_synonym 'a crypt_op = "(crypt, 'a) op"

definition crypt_start :: crypt where
  "crypt_start = \<lparr>cr_draws = 0, cr_master = replicate 64 0\<rparr>"

definition randombytes_buf :: "sodium \<Rightarrow> nat \<Rightarrow> byte list crypt_op" where
  "randombytes_buf S n =
     bindS (getS cr_draws) (\<lambda>d.
     bindS (modifyS (\<lambda>c. c\<lparr>cr_draws := Suc d\<rparr>)) (\<lambda>_. returnS (so_random S d n)))"

section \<open>xorbuf\<close>

text \<open>The two loops; the first works on words of four bytes, read and written in the order of the machine.\<close>

fun xorbuf_words :: "nat \<Rightarrow> byte list \<Rightarrow> byte list \<Rightarrow> byte list" where
  "xorbuf_words 0 buf msk = buf"
| "xorbuf_words (Suc k) buf msk =
     le_bytes 4 (unat ((of_nat (of_le (take 4 buf)) :: u32) XOR of_nat (of_le (take 4 msk)))) @
     xorbuf_words k (drop 4 buf) (drop 4 msk)"

fun xorbuf_bytes :: "nat \<Rightarrow> byte list \<Rightarrow> byte list \<Rightarrow> byte list" where
  "xorbuf_bytes 0 buf msk = buf"
| "xorbuf_bytes (Suc k) buf msk = (hd buf XOR hd msk) # xorbuf_bytes k (tl buf) (tl msk)"

definition xorbuf :: "byte list \<Rightarrow> byte list \<Rightarrow> nat \<Rightarrow> byte list" where
  "xorbuf buf msk sz =
     (if sz mod 4 = 0 then xorbuf_words (sz div 4) buf msk else xorbuf_bytes sz buf msk)"

definition xor_bytes :: "byte list \<Rightarrow> byte list \<Rightarrow> byte list" where
  "xor_bytes xs ys = map2 (XOR) xs ys"

lemma xor_bytes_simps [simp]:
  "xor_bytes [] ys = []" "xor_bytes (x # xs) (y # ys) = (x XOR y) # xor_bytes xs ys"
  "length (xor_bytes xs ys) = min (length xs) (length ys)"
  by (simp_all add: xor_bytes_def)

lemma xor_bytes_append:
  "length a = length b \<Longrightarrow> xor_bytes (a @ xs) (b @ ys) = xor_bytes a b @ xor_bytes xs ys"
  by (simp add: xor_bytes_def)

lemma xor_bytes_twice: "length xs \<le> length ys \<Longrightarrow> xor_bytes (xor_bytes xs ys) ys = xs"
proof (induction xs arbitrary: ys)
  case (Cons x xs)
  then show ?case by (cases ys) (simp_all add: xor.assoc)
qed simp

lemma xor_split_nat:
  fixes x y X Y :: nat
  assumes "x < 256" "y < 256"
  shows "(x + 256 * X) XOR (y + 256 * Y) = (x XOR y) + 256 * (X XOR Y)"
proof -
  let ?a = "x + 256 * X" and ?b = "y + 256 * Y"
  have t: "take_bit 8 ?a = x" "take_bit 8 ?b = y" using assms by (simp_all add: take_bit_eq_mod)
  have d: "drop_bit 8 ?a = X" "drop_bit 8 ?b = Y" using assms by (simp_all add: drop_bit_eq_div)
  have "?a XOR ?b = push_bit 8 (drop_bit 8 (?a XOR ?b)) + take_bit 8 (?a XOR ?b)"
    by (simp only: bits_ident)
  also have "\<dots> = push_bit 8 (X XOR Y) + (x XOR y)" by (simp only: drop_bit_xor take_bit_xor t d)
  finally show ?thesis by (simp add: push_bit_eq_mult)
qed

lemma le_bytes_xor:
  "length xs = k \<Longrightarrow> length ys = k \<Longrightarrow> le_bytes k (of_le xs XOR of_le ys) = xor_bytes xs ys"
proof (induction k arbitrary: xs ys)
  case (Suc k)
  then obtain x xs' y ys' where [simp]: "xs = x # xs'" "ys = y # ys'" by (cases xs; cases ys) auto
  have l: "unat x < 256" "unat y < 256" using unsigned_less [of x] unsigned_less [of y] by simp_all
  have x: "unat x XOR unat y = unat (x XOR y)" by (simp add: unsigned_xor_eq)
  have l2: "unat (x XOR y) < 256" using unsigned_less [of "x XOR y"] by simp
  have IH: "le_bytes k (of_le xs' XOR of_le ys') = xor_bytes xs' ys'" using Suc by simp
  show ?case using l2 by (simp add: xor_split_nat [OF l] x IH)
qed simp

lemma xorbuf_words_eq:
  "4 * k \<le> length buf \<Longrightarrow> 4 * k \<le> length msk \<Longrightarrow>
     xorbuf_words k buf msk = xor_bytes (take (4 * k) buf) (take (4 * k) msk) @ drop (4 * k) buf"
proof (induction k arbitrary: buf msk)
  case (Suc k)
  have w: "unat ((of_nat (of_le (take 4 buf)) :: u32) XOR of_nat (of_le (take 4 msk))) =
      of_le (take 4 buf) XOR of_le (take 4 msk)"
    using of_le_less [of "take 4 buf"] of_le_less [of "take 4 msk"] Suc.prems
    by (simp add: unsigned_xor_eq unat_of_nat)
  have s: "4 * Suc k = 4 + 4 * k" by simp
  show ?case
    using Suc
    by (simp only: xorbuf_words.simps w s take_add drop_drop [symmetric])
       (simp add: le_bytes_xor xor_bytes_append add.commute)
qed simp

lemma xorbuf_bytes_eq:
  "k \<le> length buf \<Longrightarrow> k \<le> length msk \<Longrightarrow>
     xorbuf_bytes k buf msk = xor_bytes (take k buf) (take k msk) @ drop k buf"
proof (induction k arbitrary: buf msk)
  case (Suc k)
  then show ?case by (cases buf; cases msk) simp_all
qed simp

text \<open>
  The loop over machine words and the loop over bytes do the same: \<^verbatim>\<open>xorbuf\<close> combines
  the first bytes of both buffers by exclusive or, byte by byte, and leaves the rest.
\<close>

theorem xorbuf_bytewise:
  assumes "sz \<le> length buf" "sz \<le> length msk"
  shows "xorbuf buf msk sz = xor_bytes (take sz buf) (take sz msk) @ drop sz buf
    \<and> xorbuf buf msk sz = xorbuf_bytes sz buf msk"
proof -
  have "4 * (sz div 4) = sz" if "sz mod 4 = 0" using that by presburger
  then show ?thesis
    using assms xorbuf_words_eq [of "sz div 4" buf msk] xorbuf_bytes_eq [of sz buf msk]
    by (simp add: xorbuf_def)
qed

theorem xorbuf_bytewise_witness:
  "xorbuf [1, 2, 3, 4, 5] [255, 0, 1, 1, 1] 4 = xorbuf_bytes 4 [1, 2, 3, 4, 5] [255, 0, 1, 1, 1]"
  by (rule conjunct2 [OF xorbuf_bytewise]) simp_all

section \<open>Keys\<close>

text \<open>A key is its bytes under the master key. \<^verbatim>\<open>getMaster\<close> fills the master key when its first two bytes are zero.\<close>

type_synonym key = "byte list"

definition key_size :: "key \<Rightarrow> nat" where "key_size k = length k"

definition getMaster :: "sodium \<Rightarrow> nat \<Rightarrow> byte list crypt_op" where
  "getMaster S sz =
     bindS (assertS (sz < 64)) (\<lambda>_.
     bindS (getS cr_master) (\<lambda>m.
     bindS (whenS (m ! 0 = 0 \<and> m ! 1 = 0)
       (bindS (randombytes_buf S 64) (\<lambda>r. modifyS (\<lambda>c. c\<lparr>cr_master := r\<rparr>)))) (\<lambda>_.
     getS cr_master)))"

definition key_protect :: "sodium \<Rightarrow> byte list \<Rightarrow> key crypt_op" where
  "key_protect S realKey =
     bindS (getMaster S (length realKey)) (\<lambda>mk. returnS (xorbuf realKey mk (length realKey)))"

definition key_new :: "sodium \<Rightarrow> byte list \<Rightarrow> key crypt_op" where
  "key_new S keydata = key_protect S keydata"

definition key_use :: "sodium \<Rightarrow> key \<Rightarrow> byte list crypt_op" where
  "key_use S k = bindS (getMaster S (key_size k)) (\<lambda>mk. returnS (xorbuf k mk (key_size k)))"

text \<open>The encoded text comes with its terminating zero byte, which is taken off.\<close>

definition key_toBase64String :: "sodium \<Rightarrow> key \<Rightarrow> string crypt_op" where
  "key_toBase64String S k =
     bindS (key_use S k) (\<lambda>dta.
     returnS (rev (dropWhile (\<lambda>c. c = CHR 0x00) (rev (so_bin2base64 S dta @ [CHR 0x00])))))"

definition master_ready :: "crypt \<Rightarrow> bool" where
  "master_ready c \<longleftrightarrow> length (cr_master c) = 64 \<and> \<not> (cr_master c ! 0 = 0 \<and> cr_master c ! 1 = 0)"

lemma getMaster_ready:
  "master_ready c \<Longrightarrow> sz < 64 \<Longrightarrow> getMaster S sz c = Inr (cr_master c, c)"
  by (auto simp: getMaster_def master_ready_def bindS_def assertS_def getS_def whenS_def returnS_def)

lemma key_use_ready:
  "master_ready c \<Longrightarrow> length k < 64 \<Longrightarrow> key_use S k c = Inr (xor_bytes k (take (length k) (cr_master c)), c)"
  using xorbuf_bytewise [of "length k" k "cr_master c"]
  by (simp add: key_use_def key_size_def getMaster_ready bindS_def returnS_def master_ready_def)

lemma key_new_ready:
  "master_ready c \<Longrightarrow> length k < 64 \<Longrightarrow> key_new S k c = Inr (xor_bytes k (take (length k) (cr_master c)), c)"
  using key_use_ready by (simp add: key_new_def key_protect_def key_use_def key_size_def)

text \<open>
  Under a master key whose first two bytes are not both zero, a key gives back the bytes it
  was made of, and neither call touches the state.
\<close>

theorem key_roundtrip:
  assumes "master_ready c" "length bs < 64"
  shows "bindS (key_new S bs) (key_use S) c = Inr (bs, c)"
proof -
  let ?k = "xor_bytes bs (take (length bs) (cr_master c))"
  have l: "length ?k = length bs" using assms by (simp add: master_ready_def)
  have "key_use S ?k c = Inr (bs, c)"
    using key_use_ready [of c ?k S] assms l by (simp add: xor_bytes_twice master_ready_def)
  then show ?thesis using key_new_ready [OF assms] by (simp add: bindS_def)
qed

definition sample_crypt :: crypt where
  "sample_crypt = \<lparr>cr_draws = 1, cr_master = replicate 64 9\<rparr>"

text \<open>
  When the random master key begins with two zero bytes, \<^verbatim>\<open>getMaster\<close> takes it for missing
  and draws another one at the next call, so that a key gives back its bytes combined with both
  masters.
\<close>

theorem key_master_redrawn:
  assumes "so_random S 0 64 = 0 # 0 # ms" "length ms = 62" "so_random S 1 64 = m2" "length m2 = 64"
    and "length bs < 64"
  shows "bindS (key_new S bs) (key_use S) crypt_start =
     Inr (xor_bytes (xor_bytes bs (take (length bs) (0 # 0 # ms))) (take (length bs) m2),
          \<lparr>cr_draws = 2, cr_master = m2\<rparr>)"
proof -
  let ?m1 = "0 # 0 # ms" and ?c1 = "\<lparr>cr_draws = 1, cr_master = 0 # 0 # ms\<rparr>"
  have 1: "getMaster S n crypt_start = Inr (?m1, ?c1)" if "n < 64" for n
    using that assms(1) by (simp add: getMaster_def crypt_start_def randombytes_buf_def bindS_def assertS_def getS_def
        whenS_def modifyS_def returnS_def)
  have 2: "getMaster S n ?c1 = Inr (m2, \<lparr>cr_draws = 2, cr_master = m2\<rparr>)" if "n < 64" for n
    using that assms(3) by (simp add: getMaster_def randombytes_buf_def bindS_def assertS_def getS_def
        whenS_def modifyS_def returnS_def numeral_2_eq_2)
  let ?k = "xor_bytes bs (take (length bs) ?m1)"
  have l: "length ?k = length bs" using assms by simp
  have k: "key_new S bs crypt_start = Inr (?k, ?c1)"
    using xorbuf_bytewise [of "length bs" bs ?m1] assms 1 [of "length bs"]
    by (simp add: key_new_def key_protect_def bindS_def returnS_def)
  have "key_use S ?k ?c1 = Inr (xor_bytes ?k (take (length bs) m2), \<lparr>cr_draws = 2, cr_master = m2\<rparr>)"
    using xorbuf_bytewise [of "length bs" ?k m2] assms 2 [of "length bs"] l
    by (simp add: key_use_def key_size_def bindS_def returnS_def del: xor_bytes_simps)
  then show ?thesis using k by (simp add: bindS_def)
qed

text \<open>A stand-in for libsodium, for the witnesses: the cipher puts nonce and tag in front.\<close>

definition sample_base64 :: "byte list \<Rightarrow> string" where
  "sample_base64 bs = concat (map (\<lambda>b. [char_of (65 + unat b div 16), char_of (65 + unat b mod 16)]) bs)"

fun sample_unbase64 :: "string \<Rightarrow> byte list" where
  "sample_unbase64 (c # d # cs) = of_nat (16 * (of_char c - 65) + (of_char d - 65)) # sample_unbase64 cs"
| "sample_unbase64 cs = []"

lemma sample_base64_roundtrip: "sample_unbase64 (sample_base64 bs) = bs"
proof (induction bs)
  case (Cons b bs)
  have lt: "unat b < 256" using unsigned_less [of b] by simp
  have "of_nat (16 * (unat b div 16) + unat b mod 16) = b" by simp
  moreover have "(65 + unat b div 16) mod 256 = 65 + unat b div 16" "(65 + unat b mod 16) mod 256 = 65 + unat b mod 16"
    using lt by simp_all
  ultimately show ?case using Cons by (simp add: sample_base64_def of_char_of)
qed (simp add: sample_base64_def)

lemma sample_base64_nul: "CHR 0x00 \<notin> set (sample_base64 bs)"
proof -
  have c: "char_of (65 + n) \<noteq> CHR 0x00" if "n < 16" for n :: nat
    using that by (simp add: char_of_eq_iff take_bit_eq_mod)
  have d: "unat b div 16 < 16 \<and> unat b mod 16 < 16" for b :: byte
  proof -
    have "unat b < 16 * 16" using unsigned_less [of b] by simp
    then show ?thesis by (simp add: less_mult_imp_div_less)
  qed
  show ?thesis using c d by (induction bs) (simp_all add: sample_base64_def eq_commute [of "CHR 0x00"])
qed

definition sample_sodium :: sodium where
  "sample_sodium =
     \<lparr>so_random = (\<lambda>d n. if d = 0 then replicate n 0 else replicate n (of_nat d)),
      so_sha256 = (\<lambda>x. take 32 (x @ replicate 32 0)),
      so_bin2hex = map (\<lambda>b. char_of (unat b)), so_bin2base64 = sample_base64,
      so_base642bin = (\<lambda>s. Some (sample_unbase64 s)),
      so_argon2id = (\<lambda>n pw salt a b. Some (take n (pw @ replicate n 0))), so_saltbytes = 16,
      so_opslimit = 3, so_memlimit = 268435456,
      so_aead_encrypt = (\<lambda>k iv m. take 16 (iv @ replicate 16 0) @ m),
      so_aead_decrypt = (\<lambda>k iv c. if take 16 c = take 16 (iv @ replicate 16 0) then Some (drop 16 c) else None),
      so_keybytes = 32, so_npubbytes = 24, so_abytes = 16,
      so_push = (\<lambda>k h n m. replicate 17 (of_nat n) @ m),
      so_pull = (\<lambda>k h n c. if take 17 c = replicate 17 (of_nat n) then Some (drop 17 c) else None),
      so_streamkeybytes = 32, so_streamheader = 24, so_streamabytes = 17\<rparr>"

theorem key_roundtrip_witness:
  "bindS (key_new sample_sodium [5, 6]) (key_use sample_sodium) sample_crypt = Inr ([5, 6], sample_crypt)"
  by (rule key_roundtrip) (simp_all add: master_ready_def sample_crypt_def)

theorem key_master_redrawn_witness:
  "bindS (key_new sample_sodium [5, 6]) (key_use sample_sodium) crypt_start =
     Inr ([4, 7], \<lparr>cr_draws = 2, cr_master = replicate 64 1\<rparr>)"
proof -
  have z: "so_random sample_sodium 0 64 = 0 # 0 # replicate 62 0" "so_random sample_sodium 1 64 = replicate 64 1"
    by (simp_all add: sample_sodium_def numeral_eq_Suc)
  show ?thesis using key_master_redrawn [OF z(1) _ z(2), of "[5, 6]"] by (simp add: numeral_2_eq_2)
qed

section \<open>Sums\<close>

text \<open>The four words of a sum, in the order of the machine.\<close>

definition sum_data :: "sha256sum \<Rightarrow> nat \<Rightarrow> nat" where
  "sum_data s a = of_le (take 8 (drop (8 * a) s))"

definition sha256sum_new :: "sodium \<Rightarrow> byte list \<Rightarrow> sha256sum" where
  "sha256sum_new S x = so_sha256 S x"

definition sha256sum_eq :: "sha256sum \<Rightarrow> sha256sum \<Rightarrow> bool" where
  "sha256sum_eq s t \<longleftrightarrow> list_all (\<lambda>a. sum_data t a = sum_data s a) [0, 1, 2, 3]"

definition sha256sum_less :: "sha256sum \<Rightarrow> sha256sum \<Rightarrow> bool" where
  "sha256sum_less s t \<longleftrightarrow> list_ex (\<lambda>a. sum_data t a < sum_data s a) [0, 1, 2, 3]"

definition sha256sum_hash :: "sha256sum \<Rightarrow> u64" where
  "sha256sum_hash s = foldl (\<lambda>h a. h * 31 + of_nat (sum_data s a)) 17 [0, 1, 2, 3]"

definition toLongStr :: "sodium \<Rightarrow> sha256sum \<Rightarrow> string" where
  "toLongStr S s = take 64 (so_bin2hex S s)"

text \<open>The length of \<^verbatim>\<open>toShortStr\<close> counts the terminating zero byte.\<close>

definition toShortStr :: "sodium \<Rightarrow> sha256sum \<Rightarrow> string" where
  "toShortStr S s = so_bin2base64 S s @ [CHR 0x00]"

lemma of_le_inject: "length xs = length ys \<Longrightarrow> of_le xs = of_le ys \<Longrightarrow> xs = ys"
proof (induction xs ys rule: list_induct2)
  case (Cons x xs y ys)
  have l: "unat x < 256" "unat y < 256" using unsigned_less [of x] unsigned_less [of y] by simp_all
  have m: "of_le (x # xs) mod 256 = unat x" "of_le (y # ys) mod 256 = unat y" using l by simp_all
  have 1: "unat x = unat y" using Cons.prems m by metis
  then have "of_le xs = of_le ys" using Cons.prems by simp
  then show ?case using Cons.IH 1 by (simp add: word_unat_eq_iff)
qed simp

text \<open>
  Two sums are equal for \<^verbatim>\<open>operator==\<close> exactly when all their bytes are, and equal sums
  have the same \<^verbatim>\<open>std::hash\<close>, which is what the index of hashes relies on.
\<close>

theorem sha256sum_eq_iff:
  assumes "length s = 32" "length t = 32"
  shows "(sha256sum_eq s t \<longleftrightarrow> s = t) \<and> (sha256sum_eq s t \<longrightarrow> sha256sum_hash s = sha256sum_hash t)"
proof -
  have parts: "u = take 8 u @ take 8 (drop 8 u) @ take 8 (drop 16 u) @ take 8 (drop 24 u)" if "length u = 32" for u :: sha256sum
  proof -
    have "u = take 8 u @ take 8 (drop 8 u) @ take 8 (drop 8 (drop 8 u)) @ drop 8 (drop 8 (drop 8 u))"
      by (simp only: append_take_drop_id)
    then show ?thesis using that by simp
  qed
  have "s = t" if eq: "sha256sum_eq s t"
  proof -
    have w: "take 8 (drop (8 * a) s) = take 8 (drop (8 * a) t)" if "a \<in> {0, 1, 2, 3}" for a
      using eq that assms by (intro of_le_inject) (auto simp: sha256sum_eq_def sum_data_def)
    show ?thesis
      using parts [OF assms(1)] parts [OF assms(2)] w [of 0] w [of 1] w [of 2] w [of 3] by simp
  qed
  then show ?thesis by (auto simp: sha256sum_eq_def)
qed

theorem sha256sum_eq_iff_witness: "\<not> sha256sum_eq (replicate 32 1) (replicate 31 1 @ [2])"
proof -
  have "replicate 32 1 \<noteq> replicate 31 (1::byte) @ [2]" by (simp add: numeral_eq_Suc)
  then show ?thesis using sha256sum_eq_iff [of "replicate 32 1" "replicate 31 1 @ [2]"] by simp
qed

lemma sum_data_words:
  "sum_data (le_bytes 8 a @ le_bytes 8 b @ u) 0 = of_le (le_bytes 8 a)"
  "sum_data (le_bytes 8 a @ le_bytes 8 b @ u) (Suc 0) = of_le (le_bytes 8 b)"
  by (simp_all add: sum_data_def)

text \<open>
  \<^verbatim>\<open>operator<\<close> is no order: two sums that differ in two words in opposite directions are
  each less than the other.
\<close>

theorem sha256sum_less_symmetric:
  assumes "a < b" "b < 2 ^ 64" "length u = 16"
  shows "sha256sum_less (le_bytes 8 a @ le_bytes 8 b @ u) (le_bytes 8 b @ le_bytes 8 a @ u)
    \<and> sha256sum_less (le_bytes 8 b @ le_bytes 8 a @ u) (le_bytes 8 a @ le_bytes 8 b @ u)"
proof -
  have "of_le (le_bytes 8 a) = a" "of_le (le_bytes 8 b) = b" using assms by (simp_all add: of_le_bytes)
  then show ?thesis using assms(1) by (simp add: sha256sum_less_def sum_data_words)
qed

theorem sha256sum_less_symmetric_witness:
  "sha256sum_less (le_bytes 8 1 @ le_bytes 8 2 @ replicate 16 0) (le_bytes 8 2 @ le_bytes 8 1 @ replicate 16 0)"
  by (rule conjunct1 [OF sha256sum_less_symmetric]) simp_all

end
