(* ===== verification/Protocol.thy ===== *)
theory Protocol
  imports Key Json_Parse
begin

text \<open>
  The crypto protocol (\<^verbatim>\<open>src/src/modules/crypto/protocol.h\<close>, \<^verbatim>\<open>protocol.cpp\<close>): the
  versions, the keys it derives and keeps, the names of the bucket files, the encryption of buckets and
  the encrypted streams of the journal. A shared pointer to a key is an option.
\<close>

section \<open>Streams\<close>

text \<open>
  \<^verbatim>\<open>crypto_secretstream\<close> keeps a state that starts from key and header and advances with
  each message; here it is both and the number of messages.
\<close>

record stream =
  sm_key :: "byte list"
  sm_header :: "byte list"
  sm_count :: nat
  sm_push :: bool

definition stream_headerSize :: "sodium \<Rightarrow> nat" where "stream_headerSize S = so_streamheader S"

definition stream_overhead :: "sodium \<Rightarrow> nat \<Rightarrow> nat" where
  "stream_overhead S n = n + so_streamabytes S"

definition startStreamWrite :: "sodium \<Rightarrow> key \<Rightarrow> (stream \<times> byte list) crypt_op" where
  "startStreamWrite S k =
     bindS (assertS (key_size k \<ge> so_streamkeybytes S)) (\<lambda>_.
     bindS (key_use S k) (\<lambda>K.
     bindS (randombytes_buf S (so_streamheader S)) (\<lambda>h.
     returnS (\<lparr>sm_key = K, sm_header = h, sm_count = 0, sm_push = True\<rparr>, h))))"

text \<open>The header is cut or filled up to its size; \<^verbatim>\<open>init_pull\<close> of the library returns 0.\<close>

definition startStreamRead :: "sodium \<Rightarrow> key \<Rightarrow> byte list \<Rightarrow> stream crypt_op" where
  "startStreamRead S k header =
     bindS (assertS (key_size k \<ge> so_streamkeybytes S)) (\<lambda>_.
     bindS (key_use S k) (\<lambda>K.
     returnS \<lparr>sm_key = K, sm_header = take (so_streamheader S) header @
        replicate (so_streamheader S - length header) 0, sm_count = 0, sm_push = False\<rparr>))"

text \<open>A message too short for its tag makes the size wrap, and the string of that size throws.\<close>

definition stream_message :: "sodium \<Rightarrow> stream \<Rightarrow> byte list \<Rightarrow> (byte list \<times> stream) res" where
  "stream_message S s inp =
     (if sm_push s then
        Inr (so_push S (sm_key s) (sm_header s) (sm_count s) inp, s\<lparr>sm_count := Suc (sm_count s)\<rparr>)
      else if length inp < so_streamabytes S then Inl (StdExn ''length_error'')
      else
        (case so_pull S (sm_key s) (sm_header s) (sm_count s) inp of
           None \<Rightarrow> Inl (StdExn ''Message forged'')
         | Some out \<Rightarrow> Inr (out, s\<lparr>sm_count := Suc (sm_count s)\<rparr>)))"

section \<open>The protocol object\<close>

record protocol =
  p_V :: nat
  p_MV :: nat
  p_VA :: bool
  p_config :: json
  p_keySize :: nat
  p_IVSize :: nat
  p_tagSize :: nat
  p_key :: "key option"
  p_protokey :: "key option"
  p_filenamepublic :: "key option"
  p_filenamesecret :: "key option"
  p_passwordpublic :: "key option"

text \<open>Reading a string and a nested object of the configuration; both leave the entry converted.\<close>

definition json_get_str :: "fpu \<Rightarrow> json \<Rightarrow> string \<Rightarrow> (string \<times> json) res" where
  "json_get_str F j name =
     bindR (lv_str_vec F (json_value j name)) (\<lambda>xs.
     let xs' = vec_grow xs 1 [] in Inr (hd xs', json_put j name (LStr xs')))"

definition json_sub :: "json \<Rightarrow> string \<Rightarrow> (json \<times> json) res" where
  "json_sub j name =
     bindR (json_get_obj j name 0) (\<lambda>j'.
     case json_value j' name of
       LObj (Some o0 # _) \<Rightarrow> Inr (o0, j')
     | _ \<Rightarrow> Inl Undefined)"

definition newRandomKey :: "sodium \<Rightarrow> protocol \<Rightarrow> key crypt_op" where
  "newRandomKey S p = bindS (randombytes_buf S (p_keySize p)) (key_new S)"

definition newRandomIV :: "sodium \<Rightarrow> protocol \<Rightarrow> key crypt_op" where
  "newRandomIV S p = bindS (randombytes_buf S (p_IVSize p)) (key_new S)"

definition storeKey :: "sodium \<Rightarrow> fpu \<Rightarrow> key \<Rightarrow> json \<Rightarrow> json crypt_op" where
  "storeKey S F k node =
     bindS (key_toBase64String S k) (\<lambda>s. liftS (json_set_str F node ''key'' 0 s))"

definition loadKey :: "sodium \<Rightarrow> fpu \<Rightarrow> nat \<Rightarrow> json \<Rightarrow> (key option \<times> json) crypt_op" where
  "loadKey S F keySize node =
     bindS (liftS (json_get_str F node ''key'')) (\<lambda>(input, node').
     case so_base642bin S input of
       None \<Rightarrow> returnS (None, node')
     | Some out \<Rightarrow>
         if length out = keySize then bindS (key_new S out) (\<lambda>k. returnS (Some k, node'))
         else returnS (None, node'))"

text \<open>\<^verbatim>\<open>_UNDEFINED()\<close> throws.\<close>

definition undefined_protocol :: exn where
  "undefined_protocol = StdExn ''Protocol undefined''"

text \<open>An entry of the configuration that is a key object is read, and put back as converted.\<close>

definition load_config_key :: "sodium \<Rightarrow> fpu \<Rightarrow> nat \<Rightarrow> json \<Rightarrow> string \<Rightarrow> (key option \<times> json) crypt_op" where
  "load_config_key S F keySize config name =
     bindS (liftS (json_sub config name)) (\<lambda>(node, config').
     bindS (loadKey S F keySize node) (\<lambda>(k, node').
     bindS (liftS (json_set_obj config' name node')) (\<lambda>config''. returnS (k, config''))))"

definition store_config_key :: "sodium \<Rightarrow> fpu \<Rightarrow> key \<Rightarrow> json \<Rightarrow> string \<Rightarrow> json crypt_op" where
  "store_config_key S F k config name =
     bindS (liftS (json_sub config name)) (\<lambda>(node, config').
     bindS (storeKey S F k node) (\<lambda>node'. liftS (json_set_obj config' name node')))"

definition protocol_new :: "sodium \<Rightarrow> fpu \<Rightarrow> nat \<Rightarrow> nat \<Rightarrow> bool \<Rightarrow> json \<Rightarrow> protocol crypt_op" where
  "protocol_new S F V MV VA config =
     (if V = 1 then
        bindS (load_config_key S F (so_keybytes S) config ''filenamepublic'') (\<lambda>(fp, c1).
        bindS (load_config_key S F (so_keybytes S) c1 ''passwordpublic'') (\<lambda>(pp, c2).
        bindS (liftS (json_set_str F c2 ''keyfile'' 0 ''private_key_file.bin'')) (\<lambda>c3.
        returnS \<lparr>p_V = V, p_MV = MV, p_VA = VA, p_config = c3, p_keySize = so_keybytes S,
                 p_IVSize = so_npubbytes S, p_tagSize = 16, p_key = None, p_protokey = None,
                 p_filenamepublic = fp, p_filenamesecret = None, p_passwordpublic = pp\<rparr>)))
      else raiseS undefined_protocol)"

definition getStaticVersion :: "nat \<Rightarrow> nat \<Rightarrow> bool \<Rightarrow> string" where
  "getStaticVersion V MV VA = nat_to_string V @ ''.'' @ nat_to_string MV @ (if VA then ''b'' else [])"

definition protocol_getVersion :: "protocol \<Rightarrow> string" where
  "protocol_getVersion p = getStaticVersion (p_V p) (p_MV p) (p_VA p)"

definition createIfVersionMatches ::
  "sodium \<Rightarrow> fpu \<Rightarrow> nat \<Rightarrow> nat \<Rightarrow> bool \<Rightarrow> string \<Rightarrow> json \<Rightarrow> protocol option crypt_op" where
  "createIfVersionMatches S F V MV VA version config =
     (if version = getStaticVersion V MV VA
      then bindS (protocol_new S F V MV VA config) (\<lambda>p. returnS (Some p))
      else returnS None)"

text \<open>\<^verbatim>\<open>protocolInterface::get\<close>: the list of protocols.\<close>

definition protocol_get :: "sodium \<Rightarrow> fpu \<Rightarrow> json \<Rightarrow> protocol crypt_op" where
  "protocol_get S F config =
     bindS (liftS (json_get_str F config ''version'')) (\<lambda>(version, config').
     bindS (createIfVersionMatches S F 1 0 False version config') (\<lambda>r.
     case r of Some p \<Rightarrow> returnS p
     | None \<Rightarrow>
         bindS (createIfVersionMatches S F 0 0 False version config') (\<lambda>r.
         case r of Some p \<Rightarrow> returnS p
         | None \<Rightarrow> raiseS (StdExn ''protocol version could not be instantiated''))))"

definition buildNewConfig :: "sodium \<Rightarrow> fpu \<Rightarrow> protocol \<Rightarrow> protocol crypt_op" where
  "buildNewConfig S F p =
     (if p_V p = 1 then
        bindS (newRandomKey S p) (\<lambda>fp.
        bindS (store_config_key S F fp (p_config p) ''filenamepublic'') (\<lambda>c1.
        bindS (newRandomKey S p) (\<lambda>pp.
        bindS (store_config_key S F pp c1 ''passwordpublic'') (\<lambda>c2.
        bindS (liftS (json_set_int F c2 ''opslimit'' 0 (so_opslimit S))) (\<lambda>c3.
        bindS (liftS (json_set_int F c3 ''memlimit'' 0 (so_memlimit S))) (\<lambda>c4.
        returnS (p\<lparr>p_filenamepublic := Some fp, p_passwordpublic := Some pp, p_config := c4\<rparr>)))))))
      else raiseS undefined_protocol)"

definition newConfig :: "sodium \<Rightarrow> fpu \<Rightarrow> string \<Rightarrow> json crypt_op" where
  "newConfig S F version =
     (let v = (if version = ''latest'' then ''1.0'' else if version = ''latest_b'' then ''1.0b'' else version) in
      bindS (liftS (json_set_str F make_json ''version'' 0 v)) (\<lambda>ret.
      bindS (protocol_get S F ret) (\<lambda>prot.
      bindS (buildNewConfig S F prot) (\<lambda>prot. returnS (p_config prot)))))"

text \<open>The key derived from a salt and a pass phrase, and the configuration with its limits read as numbers.\<close>

definition expandToKey :: "sodium \<Rightarrow> fpu \<Rightarrow> protocol \<Rightarrow> key option \<Rightarrow> byte list \<Rightarrow> (key \<times> protocol) crypt_op" where
  "expandToKey S F p saltKey input =
     (if p_V p = 1 then
        bindS (assertS (saltKey \<noteq> None)) (\<lambda>_.
        bindS (assertS (so_saltbytes S \<le> key_size (the saltKey))) (\<lambda>_.
        bindS (key_use S (the saltKey)) (\<lambda>salt.
        bindS (liftS (json_get_int F (p_config p) ''opslimit'' 0 1)) (\<lambda>(ops, c1).
        bindS (liftS (json_get_int F c1 ''memlimit'' 0 1)) (\<lambda>(mem, c2).
        let r = so_argon2id S (p_keySize p) input salt ops mem in
        bindS (assertS (r \<noteq> None)) (\<lambda>_.
        bindS (key_new S (the r)) (\<lambda>k. returnS (k, p\<lparr>p_config := c2\<rparr>))))))))
      else raiseS undefined_protocol)"

definition enterPasswordAndKeyFileContent ::
  "sodium \<Rightarrow> fpu \<Rightarrow> protocol \<Rightarrow> byte list \<Rightarrow> byte list \<Rightarrow> protocol crypt_op" where
  "enterPasswordAndKeyFileContent S F p input keyfileContent =
     (if p_V p = 1 then
        let fullInput = map of_char (toShortStr S (sha256sum_new S keyfileContent)) @ input in
        bindS (assertS (p_filenamepublic p \<noteq> None)) (\<lambda>_.
        bindS (assertS (p_passwordpublic p \<noteq> None)) (\<lambda>_.
        bindS (expandToKey S F p (p_passwordpublic p) fullInput) (\<lambda>(pk, p1).
        bindS (expandToKey S F p1 (p_filenamepublic p1) fullInput) (\<lambda>(fs, p2).
        returnS (p2\<lparr>p_protokey := Some pk, p_filenamesecret := Some fs\<rparr>)))))
      else raiseS undefined_protocol)"

definition regenerateEncryptionKey :: "sodium \<Rightarrow> protocol \<Rightarrow> protocol crypt_op" where
  "regenerateEncryptionKey S p = bindS (newRandomKey S p) (\<lambda>k. returnS (p\<lparr>p_key := Some k\<rparr>))"

definition storeEncryptionKeyToBlock :: "sodium \<Rightarrow> fpu \<Rightarrow> protocol \<Rightarrow> json \<Rightarrow> json crypt_op" where
  "storeEncryptionKeyToBlock S F p out =
     (case p_key p of None \<Rightarrow> raiseS Undefined | Some k \<Rightarrow> storeKey S F k out)"

definition loadEncryptionKeyFromBlock :: "sodium \<Rightarrow> fpu \<Rightarrow> protocol \<Rightarrow> json \<Rightarrow> (bool \<times> protocol) crypt_op" where
  "loadEncryptionKeyFromBlock S F p block =
     bindS (loadKey S F (p_keySize p) block) (\<lambda>(k, _). returnS (k \<noteq> None, p\<lparr>p_key := k\<rparr>))"

section \<open>File names\<close>

definition bucketFileName_input :: "nat \<Rightarrow> string \<Rightarrow> byte list \<Rightarrow> byte list" where
  "bucketFileName_input i part secret = map of_char (nat_to_string i @ part) @ secret"

definition getBucketFileName :: "sodium \<Rightarrow> protocol \<Rightarrow> nat \<Rightarrow> string crypt_op" where
  "getBucketFileName S p i =
     bindS (whenS (p_filenamesecret p = None) (raiseS Undefined)) (\<lambda>_.
     bindS (key_use S (the (p_filenamesecret p))) (\<lambda>hsh.
     returnS (toLongStr S (sha256sum_new S (bucketFileName_input i '':bucket:'' hsh)))))"

definition getMetaBucketFileName :: "sodium \<Rightarrow> protocol \<Rightarrow> nat \<Rightarrow> string crypt_op" where
  "getMetaBucketFileName S p i =
     bindS (whenS (p_filenamesecret p = None) (raiseS Undefined)) (\<lambda>_.
     bindS (key_use S (the (p_filenamesecret p))) (\<lambda>hsh.
     returnS (toLongStr S (sha256sum_new S (bucketFileName_input i '':metabucket:'' hsh)))))"

section \<open>Encryption of a bucket file\<close>

definition protocol_encrypt :: "sodium \<Rightarrow> protocol \<Rightarrow> key \<Rightarrow> byte list \<Rightarrow> byte list crypt_op" where
  "protocol_encrypt S p k inp =
     bindS (newRandomIV S p) (\<lambda>iv.
     bindS (key_use S iv) (\<lambda>ivbytes.
     bindS (key_use S k) (\<lambda>keybytes.
     returnS (so_aead_encrypt S keybytes ivbytes inp @ ivbytes))))"

text \<open>The first eight bytes of the nonce are refused when they are zero.\<close>

definition protocol_decrypt :: "sodium \<Rightarrow> protocol \<Rightarrow> key \<Rightarrow> byte list \<Rightarrow> byte list crypt_op" where
  "protocol_decrypt S p k inp =
     (if length inp < p_IVSize p then raiseS (StdExn ''out_of_range'')
      else
        let cipher = take (length inp - p_IVSize p) inp; ivdta = drop (length inp - p_IVSize p) inp in
        if of_le (take 8 ivdta) = 0 then raiseS (StdExn ''Too many zeros in IV'')
        else
          bindS (assertS (length cipher > 0)) (\<lambda>_.
          bindS (key_use S k) (\<lambda>keybytes.
          case so_aead_decrypt S keybytes ivdta cipher of
            None \<Rightarrow> raiseS (StdExn ''Message forged'')
          | Some out \<Rightarrow> returnS out)))"

text \<open>Five random keys.\<close>

fun keyfile_loop :: "sodium \<Rightarrow> protocol \<Rightarrow> nat \<Rightarrow> byte list crypt_op" where
  "keyfile_loop S p 0 = returnS []"
| "keyfile_loop S p (Suc a) =
     bindS (newRandomKey S p) (\<lambda>k.
     bindS (key_use S k) (\<lambda>ku.
     bindS (keyfile_loop S p a) (\<lambda>rest. returnS (ku @ rest))))"

definition createKeyfileContent :: "sodium \<Rightarrow> protocol \<Rightarrow> byte list crypt_op" where
  "createKeyfileContent S p = keyfile_loop S p 5"

end
