(* ===== verification/Protocol_Props.thy ===== *)
theory Protocol_Props
  imports Protocol Json_Props Bucket_Store
begin

text \<open>
  Laws of the crypto protocol: encryption and decryption of bucket files, keys in the metadata, new
  configurations, the streams, and that a protocol with its keys is an environment of the storage layer.
\<close>

section \<open>What is used of libsodium\<close>

definition sodium_ok :: "sodium \<Rightarrow> bool" where
  "sodium_ok S \<longleftrightarrow>
     (\<forall>d n. length (so_random S d n) = n) \<and>
     (\<forall>x. length (so_sha256 S x) = 32) \<and>
     (\<forall>x. so_base642bin S (so_bin2base64 S x) = Some x \<and> CHR 0x00 \<notin> set (so_bin2base64 S x)) \<and>
     (\<forall>k iv m. so_aead_decrypt S k iv (so_aead_encrypt S k iv m) = Some m \<and>
        length (so_aead_encrypt S k iv m) = length m + so_abytes S) \<and>
     (\<forall>k h n m. so_pull S k h n (so_push S k h n m) = Some m \<and>
        length (so_push S k h n m) = length m + so_streamabytes S) \<and>
     0 < so_abytes S \<and> so_keybytes S < 64 \<and> so_npubbytes S < 64"

lemma sodium_okD:
  assumes "sodium_ok S"
  shows "length (so_random S d n) = n" "length (so_sha256 S x) = 32"
    "so_base642bin S (so_bin2base64 S x) = Some x" "CHR 0x00 \<notin> set (so_bin2base64 S x)"
    "so_aead_decrypt S k iv (so_aead_encrypt S k iv m) = Some m"
    "length (so_aead_encrypt S k iv m) = length m + so_abytes S"
    "so_pull S k h e (so_push S k h e m) = Some m"
    "length (so_push S k h e m) = length m + so_streamabytes S"
    "0 < so_abytes S" "so_keybytes S < 64" "so_npubbytes S < 64"
  using assms by (simp_all add: sodium_ok_def)

section \<open>Keys under a ready master\<close>

definition key_bytes :: "crypt \<Rightarrow> key \<Rightarrow> byte list" where
  "key_bytes c k = xor_bytes k (take (length k) (cr_master c))"

lemma master_ready_draws [simp]: "master_ready (c\<lparr>cr_draws := d\<rparr>) = master_ready c"
  by (simp add: master_ready_def)

lemma key_bytes_draws [simp]: "key_bytes (c\<lparr>cr_draws := d\<rparr>) k = key_bytes c k"
  by (simp add: key_bytes_def)

lemma length_key_bytes [simp]: "master_ready c \<Longrightarrow> length k < 64 \<Longrightarrow> length (key_bytes c k) = length k"
  by (simp add: key_bytes_def master_ready_def)

lemma key_bytes_twice [simp]: "master_ready c \<Longrightarrow> length k < 64 \<Longrightarrow> key_bytes c (key_bytes c k) = k"
  by (simp add: key_bytes_def master_ready_def xor_bytes_twice)

lemma wp_key_use:
  "master_ready c \<Longrightarrow> length k < 64 \<Longrightarrow> wpx A (key_use S k) Q c \<longleftrightarrow> Q (key_bytes c k) c"
  by (simp add: wpx_def key_use_ready key_bytes_def)

lemma wp_key_new:
  "master_ready c \<Longrightarrow> length k < 64 \<Longrightarrow> wpx A (key_new S k) Q c \<longleftrightarrow> Q (key_bytes c k) c"
  by (simp add: wpx_def key_new_ready key_bytes_def)

lemma wp_randombytes:
  "wpx A (randombytes_buf S n) Q c \<longleftrightarrow> Q (so_random S (cr_draws c) n) (c\<lparr>cr_draws := Suc (cr_draws c)\<rparr>)"
  by (simp add: wpx_def randombytes_buf_def bindS_def getS_def modifyS_def returnS_def)

lemmas wp_keys = wp_key_use wp_key_new wp_randombytes

section \<open>Bucket files\<close>

definition nonce_ok :: "byte list \<Rightarrow> bool" where
  "nonce_ok iv \<longleftrightarrow> of_le (take 8 iv) \<noteq> 0"

lemma wp_protocol_encrypt:
  assumes "sodium_ok S" "master_ready c" "length k < 64" "p_IVSize p < 64"
  shows "wpx A (protocol_encrypt S p k m) Q c \<longleftrightarrow>
    Q (so_aead_encrypt S (key_bytes c k) (so_random S (cr_draws c) (p_IVSize p)) m @
       so_random S (cr_draws c) (p_IVSize p)) (c\<lparr>cr_draws := Suc (cr_draws c)\<rparr>)"
  using assms by (simp add: protocol_encrypt_def newRandomIV_def wp_keys sodium_okD(1) length_key_bytes)

lemma wp_protocol_decrypt:
  assumes "sodium_ok S" "master_ready c" "length k < 64" "length iv = p_IVSize p" "nonce_ok iv"
  shows "wpx A (protocol_decrypt S p k (so_aead_encrypt S (key_bytes c k) iv m @ iv)) Q c \<longleftrightarrow> Q m c"
proof -
  have "so_aead_encrypt S (key_bytes c k) iv m \<noteq> []"
    using sodium_okD(6) [OF assms(1), of "key_bytes c k" iv m] sodium_okD(9) [OF assms(1)] by auto
  then show ?thesis
    using assms by (simp add: protocol_decrypt_def Let_def nonce_ok_def wp_keys sodium_okD)
qed

text \<open>
  C31: What \<^verbatim>\<open>encrypt\<close> makes of a text is read back by \<^verbatim>\<open>decrypt\<close> with the same key,
  whenever the first eight bytes of the nonce are not all zero; it is longer by nonce and tag.
\<close>

theorem protocol_crypt_roundtrip:
  assumes "sodium_ok S" "master_ready c" "length k < 64" "p_IVSize p < 64"
    and "nonce_ok (so_random S (cr_draws c) (p_IVSize p))"
  shows "wp (protocol_encrypt S p k m) (\<lambda>y c'. length y = length m + so_abytes S + p_IVSize p \<and>
           wp (protocol_decrypt S p k y) (\<lambda>x c''. x = m \<and> c'' = c') c') c"
proof -
  let ?iv = "so_random S (cr_draws c) (p_IVSize p)"
  have l: "length ?iv = p_IVSize p" using sodium_okD(1) [OF assms(1)] by simp
  show ?thesis
    unfolding wp_protocol_encrypt [OF assms(1-4)]
    using wp_protocol_decrypt [OF assms(1) _ assms(3) l assms(5), of "c\<lparr>cr_draws := Suc (cr_draws c)\<rparr>"]
      assms(2) by (simp add: l sodium_okD(6) [OF assms(1)])
qed

text \<open>
  A text that was encrypted under a nonce whose first eight bytes are zero, which the random
  generator can draw, is refused by \<^verbatim>\<open>decrypt\<close>: the file cannot be read again.
\<close>

theorem protocol_zero_nonce:
  assumes "sodium_ok S" "master_ready c" "length k < 64" "p_IVSize p < 64"
    and "\<not> nonce_ok (so_random S (cr_draws c) (p_IVSize p))"
  shows "wp (protocol_encrypt S p k m)
           (\<lambda>y c'. protocol_decrypt S p k y c' = Inl (StdExn ''Too many zeros in IV'', c')) c"
proof -
  let ?iv = "so_random S (cr_draws c) (p_IVSize p)"
  have "length ?iv = p_IVSize p" using sodium_okD(1) [OF assms(1)] by simp
  then show ?thesis
    unfolding wp_protocol_encrypt [OF assms(1-4)]
    using assms(5) by (simp add: protocol_decrypt_def nonce_ok_def Let_def raiseS_def)
qed

section \<open>The environment of the storage layer\<close>

text \<open>
  The functions that the storage layer takes from the protocol, with the key of the data buckets and the
  master at hand.
\<close>

definition protocol_env :: "sodium \<Rightarrow> protocol \<Rightarrow> crypt \<Rightarrow> string \<Rightarrow> env" where
  "protocol_env S p c path =
     \<lparr>e_sha = sha256sum_new S,
      e_enc = (\<lambda>n x. case protocol_encrypt S p (the (p_key p)) x (c\<lparr>cr_draws := n\<rparr>) of
         Inr (y, _) \<Rightarrow> y | Inl _ \<Rightarrow> []),
      e_dec = (\<lambda>y. case protocol_decrypt S p (the (p_key p)) y c of Inr (x, _) \<Rightarrow> Inr x | Inl (e, _) \<Rightarrow> Inl e),
      e_over = so_abytes S + p_IVSize p,
      e_bucketName = (\<lambda>n. case getBucketFileName S p n c of Inr (s, _) \<Rightarrow> s | Inl _ \<Rightarrow> []),
      e_path = path\<rparr>"

text \<open>
  C30: A protocol with its key in place, a ready master and no nonce that begins with eight zero
  bytes satisfies the contract under which the storage layer is proved correct.
\<close>

theorem protocol_env_ok:
  assumes "sodium_ok S" "master_ready c" "p_key p = Some k" "length k < 64" "p_IVSize p < 64"
    and "\<forall>d. nonce_ok (so_random S d (p_IVSize p))"
  shows "env_ok (protocol_env S p c path)"
proof -
  note enc = wp_protocol_encrypt [OF assms(1) _ assms(4,5)]
  have run: "protocol_encrypt S p k x (c\<lparr>cr_draws := n\<rparr>) =
      Inr (so_aead_encrypt S (key_bytes c k) (so_random S n (p_IVSize p)) x @ so_random S n (p_IVSize p),
           c\<lparr>cr_draws := Suc n\<rparr>)" for x n
    using enc [of "c\<lparr>cr_draws := n\<rparr>" "{}" x "\<lambda>y s. y = so_aead_encrypt S (key_bytes c k) (so_random S n (p_IVSize p)) x @
      so_random S n (p_IVSize p) \<and> s = c\<lparr>cr_draws := Suc n\<rparr>"] assms(2)
    by (auto simp: wp_run)
  have dec: "protocol_decrypt S p k (so_aead_encrypt S (key_bytes c k) (so_random S n (p_IVSize p)) x @
      so_random S n (p_IVSize p)) c = Inr (x, c)" for x n
    using wp_protocol_decrypt [OF assms(1,2,4), of "so_random S n (p_IVSize p)" p "{}" x "\<lambda>y s. y = x \<and> s = c"]
      sodium_okD(1) [OF assms(1)] assms(6) by (auto simp: wp_run)
  show ?thesis
    using assms(3) by (simp add: env_ok_def protocol_env_def run dec sodium_okD [OF assms(1)] sha256sum_new_def)
qed

section \<open>Keys in the metadata\<close>

lemma strip_nul: "CHR 0x00 \<notin> set s \<Longrightarrow> rev (dropWhile (\<lambda>c. c = CHR 0x00) (rev (s @ [CHR 0x00]))) = s"
  by (cases s rule: rev_cases) auto

lemma json_value_put: "json_value (json_put j n v) m =
    (if m = n then v else json_value j m)" if "smap_sorted (jvalues j)"
  using smap_set_map_of [OF that] by (simp add: json_value_def json_put_def)

lemma json_put_sorted [simp]: "smap_sorted (jvalues j) \<Longrightarrow> smap_sorted (jvalues (json_put j n v))"
  by (simp add: json_put_def smap_set_sorted)

definition str_node :: "json \<Rightarrow> string \<Rightarrow> bool" where
  "str_node j n \<longleftrightarrow> smap_sorted (jvalues j) \<and> (json_value j n = LUndef \<or> (\<exists>s. json_value j n = LStr [s]))"

lemma json_set_str_run:
  "str_node j n \<Longrightarrow> json_set_str F j n 0 s = Inr (json_put j n (LStr [s]))"
  by (auto simp: str_node_def json_set_str_def lv_set_str_def lv_str_vec_def vec_grow_def)

lemma wp_storeKey:
  assumes "sodium_ok S" "master_ready c" "length k < 64" "str_node j ''key''"
  shows "wpx A (storeKey S F k j) Q c \<longleftrightarrow> Q (json_put j ''key'' (LStr [so_bin2base64 S (key_bytes c k)])) c"
  using assms strip_nul [OF sodium_okD(4) [OF assms(1), of "key_bytes c k"]]
  by (simp add: storeKey_def key_toBase64String_def wp_keys json_set_str_run del: rev_append)

lemma wp_loadKey:
  assumes "sodium_ok S" "master_ready c" "length k < 64"
    and "json_value j ''key'' = LStr [so_bin2base64 S (key_bytes c k)]"
  shows "wpx A (loadKey S F (length k) j) Q c \<longleftrightarrow> Q (Some k, json_put j ''key'' (json_value j ''key'')) c"
  using assms
  by (simp add: loadKey_def json_get_str_def lv_str_vec_def vec_grow_def sodium_okD(3) wp_keys Let_def)

text \<open>
  A key stored as text in a metadata object is loaded from it as the same key.
\<close>

theorem key_block_roundtrip:
  assumes "sodium_ok S" "master_ready c" "p_key p = Some k" "length k = p_keySize p" "p_keySize p < 64"
    and "str_node j ''key''"
  shows "wp (storeEncryptionKeyToBlock S F p j)
           (\<lambda>j' c'. wp (loadEncryptionKeyFromBlock S F (p\<lparr>p_key := None\<rparr>) j')
                     (\<lambda>r c''. r = (True, p) \<and> c'' = c) c') c"
proof -
  have l: "length k < 64" using assms by simp
  let ?j = "json_put j ''key'' (LStr [so_bin2base64 S (key_bytes c k)])"
  have v: "json_value ?j ''key'' = LStr [so_bin2base64 S (key_bytes c k)]"
    using assms(6) by (simp add: json_value_put str_node_def)
  have p: "p\<lparr>p_key := Some k\<rparr> = p" using assms(3) by (cases p) simp
  show ?thesis
    using assms(3,4) wp_storeKey [OF assms(1,2) l assms(6)] wp_loadKey [OF assms(1,2) l v]
    by (simp add: storeEncryptionKeyToBlock_def loadEncryptionKeyFromBlock_def p)
qed


section \<open>New configurations\<close>

text \<open>An object after one of its entries was set.\<close>

definition entry_set :: "json \<Rightarrow> string \<Rightarrow> lvariant \<Rightarrow> json \<Rightarrow> bool" where
  "entry_set j name v j' \<longleftrightarrow>
     smap_sorted (jvalues j') \<and> (\<forall>m. json_value j' m = (if m = name then v else json_value j m))"

lemma entry_set_put: "smap_sorted (jvalues j) \<Longrightarrow> entry_set j name v (json_put j name v)"
  by (simp add: entry_set_def json_value_put)

lemma entry_set_trans: "entry_set j name u j1 \<Longrightarrow> entry_set j1 name v j2 \<Longrightarrow> entry_set j name v j2"
  by (simp add: entry_set_def)

lemma entry_setD: "entry_set j name v j' \<Longrightarrow> json_value j' m = (if m = name then v else json_value j m)"
  and entry_set_sorted: "entry_set j name v j' \<Longrightarrow> smap_sorted (jvalues j')"
  by (simp_all add: entry_set_def)

definition sub_of :: "lvariant \<Rightarrow> json option" where
  "sub_of v = (case v of LUndef \<Rightarrow> Some make_json | LObj [Some j] \<Rightarrow> Some j | _ \<Rightarrow> None)"

lemma json_sub_run:
  assumes "smap_sorted (jvalues j)" "sub_of (json_value j name) = Some n"
  obtains j' where "json_sub j name = Inr (n, j')" "entry_set j name (LObj [Some n]) j'"
proof
  have v: "json_value j name = LUndef \<and> n = make_json \<or> json_value j name = LObj [Some n]"
    using assms(2) by (auto simp: sub_of_def split: lvariant.splits list.splits option.splits)
  show "json_sub j name = Inr (n, json_put j name (LObj [Some n]))"
    using v assms(1) by (auto simp: json_sub_def json_get_obj_def lv_get_obj_def lv_obj_vec_def vec_grow_def
        json_value_put Let_def)
  show "entry_set j name (LObj [Some n]) (json_put j name (LObj [Some n]))"
    using assms(1) by (rule entry_set_put)
qed

lemma json_set_obj_run:
  assumes "entry_set j0 name (LObj [Some n]) j"
  obtains j' where "json_set_obj j name x = Inr j'" "entry_set j0 name (LObj [Some x]) j'"
proof
  show "json_set_obj j name x = Inr (json_put j name (LObj [Some x]))"
    using entry_setD [OF assms, of name]
    by (simp add: json_set_obj_def lv_get_obj_def lv_obj_vec_def vec_grow_def)
  show "entry_set j0 name (LObj [Some x]) (json_put j name (LObj [Some x]))"
    by (rule entry_set_trans [OF assms entry_set_put [OF entry_set_sorted [OF assms]]])
qed

text \<open>Storing a key under a name, and loading whatever is there.\<close>

lemma wp_store_config_key:
  assumes "sodium_ok S" "master_ready c" "length k < 64" "smap_sorted (jvalues j)"
    and "sub_of (json_value j name) = Some n" "str_node n ''key''"
    and Q: "\<And>j'. entry_set j name (LObj [Some (json_put n ''key'' (LStr [so_bin2base64 S (key_bytes c k)]))]) j' \<Longrightarrow> Q j' c"
  shows "wp (store_config_key S F k j name) Q c"
proof -
  let ?n = "json_put n ''key'' (LStr [so_bin2base64 S (key_bytes c k)])"
  from json_sub_run [OF assms(4,5)] obtain j1 where 1: "json_sub j name = Inr (n, j1)"
    and e1: "entry_set j name (LObj [Some n]) j1" .
  from json_set_obj_run [OF e1, of ?n] obtain j2 where 2: "json_set_obj j1 name ?n = Inr j2"
    and e2: "entry_set j name (LObj [Some ?n]) j2" .
  show ?thesis using 2 Q [OF e2] by (simp add: store_config_key_def 1 wp_storeKey [OF assms(1-3,6)])
qed

lemma wp_load_config_key:
  assumes "sodium_ok S" "master_ready c" "m < 64" "smap_sorted (jvalues j)"
    and "sub_of (json_value j name) = Some n" "str_node n ''key''"
    and Q: "\<And>r n' j'. entry_set j name (LObj [Some n']) j' \<Longrightarrow> str_node n' ''key'' \<Longrightarrow>
       (\<And>k. json_value n ''key'' = LStr [so_bin2base64 S (key_bytes c k)] \<Longrightarrow> length k = m \<Longrightarrow> r = Some k) \<Longrightarrow> Q (r, j') c"
  shows "wp (load_config_key S F m j name) Q c"
proof -
  define s where "s = (case json_value n ''key'' of LStr [s] \<Rightarrow> s | _ \<Rightarrow> [])"
  let ?n = "json_put n ''key'' (LStr [s])"
  define r where "r = (case so_base642bin S s of None \<Rightarrow> None
     | Some out \<Rightarrow> if length out = m then Some (key_bytes c out) else None)"
  from json_sub_run [OF assms(4,5)] obtain j1 where 1: "json_sub j name = Inr (n, j1)"
    and e1: "entry_set j name (LObj [Some n]) j1" .
  from json_set_obj_run [OF e1, of ?n] obtain j2 where 2: "json_set_obj j1 name ?n = Inr j2"
    and e2: "entry_set j name (LObj [Some ?n]) j2" .
  have g: "json_get_str F n ''key'' = Inr (s, ?n)"
    using assms(6) by (auto simp: str_node_def json_get_str_def lv_str_vec_def vec_grow_def s_def Let_def)
  have n: "str_node ?n ''key''" using assms(6) by (simp add: str_node_def json_value_put)
  have l: "wp (loadKey S F m n) P c" if "P (r, ?n) c" for P
    using that assms(2,3) by (auto simp: loadKey_def g r_def wp_key_new split: option.splits if_splits)
  have k: "r = Some k" if "json_value n ''key'' = LStr [so_bin2base64 S (key_bytes c k)]" "length k = m" for k
    using that assms(1-3) by (simp add: r_def s_def sodium_okD(3))
  show ?thesis
    unfolding load_config_key_def by (simp add: 1, rule l) (simp add: 2 Q [OF e2 n k])
qed


lemma version_1_0: "getStaticVersion 1 0 False = ''1.0''"
  by (simp add: getStaticVersion_def nat_to_string.simps digit_char_def char_of_eq_iff)

text \<open>A configuration of version 1.0 in which the two key objects can be read.\<close>

definition config_1_0 :: "json \<Rightarrow> bool" where
  "config_1_0 j \<longleftrightarrow>
     smap_sorted (jvalues j) \<and> json_value j ''version'' = LStr [''1.0''] \<and>
     (\<exists>n1. sub_of (json_value j ''filenamepublic'') = Some n1 \<and> str_node n1 ''key'') \<and>
     (\<exists>n2. sub_of (json_value j ''passwordpublic'') = Some n2 \<and> str_node n2 ''key'') \<and>
     str_node j ''keyfile''"

definition key_at :: "sodium \<Rightarrow> crypt \<Rightarrow> json \<Rightarrow> string \<Rightarrow> key \<Rightarrow> bool" where
  "key_at S c j name k \<longleftrightarrow>
     (\<exists>n. sub_of (json_value j name) = Some n \<and> json_value n ''key'' = LStr [so_bin2base64 S (key_bytes c k)])"

lemma wp_protocol_get:
  assumes S: "sodium_ok S" "master_ready c" and j: "config_1_0 j"
    and Q: "\<And>p. p_V p = 1 \<Longrightarrow> protocol_getVersion p = ''1.0'' \<Longrightarrow> p_keySize p = so_keybytes S \<Longrightarrow>
       config_1_0 (p_config p) \<Longrightarrow>
       (\<And>n. n \<notin> {''version'', ''filenamepublic'', ''passwordpublic'', ''keyfile''} \<Longrightarrow>
          json_value (p_config p) n = json_value j n) \<Longrightarrow>
       (\<And>k. key_at S c j ''filenamepublic'' k \<Longrightarrow> length k = so_keybytes S \<Longrightarrow> p_filenamepublic p = Some k) \<Longrightarrow>
       (\<And>k. key_at S c j ''passwordpublic'' k \<Longrightarrow> length k = so_keybytes S \<Longrightarrow> p_passwordpublic p = Some k) \<Longrightarrow> Q p c"
  shows "wp (protocol_get S F j) Q c"
proof -
  from j obtain n1 n2 where srt: "smap_sorted (jvalues j)" and v: "json_value j ''version'' = LStr [''1.0'']"
    and n1: "sub_of (json_value j ''filenamepublic'') = Some n1" "str_node n1 ''key''"
    and n2: "sub_of (json_value j ''passwordpublic'') = Some n2" "str_node n2 ''key''"
    and kf: "str_node j ''keyfile''" by (auto simp: config_1_0_def)
  define j0 where "j0 = json_put j ''version'' (LStr [''1.0''])"
  have e0: "entry_set j ''version'' (LStr [''1.0'']) j0" unfolding j0_def by (rule entry_set_put [OF srt])
  have get: "json_get_str F j ''version'' = Inr (''1.0'', j0)"
    by (simp add: json_get_str_def v lv_str_vec_def vec_grow_def Let_def j0_def)
  have "wp (protocol_new S F 1 0 False j0) Q c"
    unfolding protocol_new_def if_P [OF refl] wp_bind
  proof (rule wp_load_config_key [OF S sodium_okD(10) [OF S(1)] entry_set_sorted [OF e0]])
    show "sub_of (json_value j0 ''filenamepublic'') = Some n1" using n1 entry_setD [OF e0] by simp
    show "str_node n1 ''key''" by (rule n1)
    fix r1 m1 j1
    assume e1: "entry_set j0 ''filenamepublic'' (LObj [Some m1]) j1" and m1: "str_node m1 ''key''"
      and r1: "\<And>k. json_value n1 ''key'' = LStr [so_bin2base64 S (key_bytes c k)] \<Longrightarrow> length k = so_keybytes S \<Longrightarrow> r1 = Some k"
    show "wp (case (r1, j1) of (fp, c1) \<Rightarrow> bindS (load_config_key S F (so_keybytes S) c1 ''passwordpublic'')
       (\<lambda>(pp, c2). bindS (liftS (json_set_str F c2 ''keyfile'' 0 ''private_key_file.bin'')) (\<lambda>c3.
        returnS \<lparr>p_V = 1, p_MV = 0, p_VA = False, p_config = c3, p_keySize = so_keybytes S,
                 p_IVSize = so_npubbytes S, p_tagSize = 16, p_key = None, p_protokey = None,
                 p_filenamepublic = fp, p_filenamesecret = None, p_passwordpublic = pp\<rparr>))) Q c"
      unfolding prod.case wp_bind
    proof (rule wp_load_config_key [OF S sodium_okD(10) [OF S(1)] entry_set_sorted [OF e1]])
      show "sub_of (json_value j1 ''passwordpublic'') = Some n2"
        using n2 entry_setD [OF e0] entry_setD [OF e1] by simp
      show "str_node n2 ''key''" by (rule n2)
      fix r2 m2 j2
      assume e2: "entry_set j1 ''passwordpublic'' (LObj [Some m2]) j2" and m2: "str_node m2 ''key''"
        and r2: "\<And>k. json_value n2 ''key'' = LStr [so_bin2base64 S (key_bytes c k)] \<Longrightarrow> length k = so_keybytes S \<Longrightarrow> r2 = Some k"
      have val: "json_value j2 m = (if m = ''passwordpublic'' then LObj [Some m2] else if m = ''filenamepublic'' then LObj [Some m1]
          else if m = ''version'' then LStr [''1.0''] else json_value j m)" for m
        using entry_setD [OF e0] entry_setD [OF e1] entry_setD [OF e2] by simp
      have kf2: "str_node j2 ''keyfile''"
        using kf entry_set_sorted [OF e2] by (simp add: str_node_def val)
      define j3 where "j3 = json_put j2 ''keyfile'' (LStr [''private_key_file.bin''])"
      have e3: "entry_set j2 ''keyfile'' (LStr [''private_key_file.bin'']) j3"
        unfolding j3_def by (rule entry_set_put [OF entry_set_sorted [OF e2]])
      have c3: "config_1_0 j3"
        using m1 m2 entry_set_sorted [OF e3]
        by (simp add: config_1_0_def entry_setD [OF e3] val sub_of_def str_node_def)
      show "wp (case (r2, j2) of (pp, c2) \<Rightarrow> bindS (liftS (json_set_str F c2 ''keyfile'' 0 ''private_key_file.bin'')) (\<lambda>c3.
        returnS \<lparr>p_V = 1, p_MV = 0, p_VA = False, p_config = c3, p_keySize = so_keybytes S,
                 p_IVSize = so_npubbytes S, p_tagSize = 16, p_key = None, p_protokey = None,
                 p_filenamepublic = r1, p_filenamesecret = None, p_passwordpublic = pp\<rparr>)) Q c"
        using r1 r2 n1 n2 c3 version_1_0
        by (simp add: json_set_str_run [OF kf2] j3_def [symmetric])
           (rule Q; simp add: protocol_getVersion_def entry_setD [OF e3] val key_at_def)
    qed
  qed
  then show ?thesis by (simp add: protocol_get_def get createIfVersionMatches_def version_1_0 [unfolded One_nat_def])
qed


definition int_node :: "json \<Rightarrow> string \<Rightarrow> bool" where
  "int_node j n \<longleftrightarrow> json_value j n = LUndef \<or> (\<exists>i. json_value j n = LInt [i])"

lemma json_set_int_run: "int_node j n \<Longrightarrow> json_set_int F j n 0 x = Inr (json_put j n (LInt [x]))"
  by (auto simp: int_node_def json_set_int_def lv_set_int_def lv_int_vec_def vec_grow_def)

lemma config_1_0_sub:
  assumes "config_1_0 j" "entry_set j n v j'"
    and "n \<in> {''filenamepublic'', ''passwordpublic''} \<Longrightarrow> \<exists>m. sub_of v = Some m \<and> str_node m ''key''"
    and "n \<notin> {''version'', ''keyfile''}"
  shows "config_1_0 j'"
  using assms unfolding config_1_0_def str_node_def by (auto simp: entry_set_def)

lemma wp_newRandomKey:
  assumes "sodium_ok S" "master_ready c" "p_keySize p = so_keybytes S"
    and "k = key_bytes c (so_random S (cr_draws c) (so_keybytes S))"
  shows "wpx A (newRandomKey S p) Q c \<longleftrightarrow> Q k (c\<lparr>cr_draws := Suc (cr_draws c)\<rparr>)"
  using assms sodium_okD(1,10) [OF assms(1)] by (simp add: newRandomKey_def wp_keys)

lemma wp_buildNewConfig:
  assumes S: "sodium_ok S" "master_ready c" and p: "p_V p = 1" "p_keySize p = so_keybytes S" "config_1_0 (p_config p)"
    and i: "int_node (p_config p) ''opslimit''" "int_node (p_config p) ''memlimit''"
    and k1: "k1 = key_bytes c (so_random S (cr_draws c) (so_keybytes S))"
    and k2: "k2 = key_bytes c (so_random S (Suc (cr_draws c)) (so_keybytes S))"
    and Q: "\<And>p'. config_1_0 (p_config p') \<Longrightarrow> key_at S c (p_config p') ''filenamepublic'' k1 \<Longrightarrow>
       key_at S c (p_config p') ''passwordpublic'' k2 \<Longrightarrow> Q p' (c\<lparr>cr_draws := Suc (Suc (cr_draws c))\<rparr>)"
  shows "wp (buildNewConfig S F p) Q c"
proof -
  let ?c1 = "c\<lparr>cr_draws := Suc (cr_draws c)\<rparr>" and ?c2 = "c\<lparr>cr_draws := Suc (Suc (cr_draws c))\<rparr>"
  have len: "length (so_random S d (so_keybytes S)) < 64" for d using sodium_okD(1,10) [OF S(1)] by simp
  have kl: "length k1 < 64" "length k2 < 64" using len S unfolding k1 k2 by simp_all
  have r1: "master_ready ?c1" and r2: "master_ready ?c2" using S by simp_all
  let ?t1 = "LStr [so_bin2base64 S (key_bytes c k1)]" and ?t2 = "LStr [so_bin2base64 S (key_bytes c k2)]"
  obtain n1 n2 where n1: "sub_of (json_value (p_config p) ''filenamepublic'') = Some n1" "str_node n1 ''key''"
    and n2: "sub_of (json_value (p_config p) ''passwordpublic'') = Some n2" "str_node n2 ''key''"
    using p(3) by (auto simp: config_1_0_def)
  have srt: "smap_sorted (jvalues (p_config p))" using p(3) by (simp add: config_1_0_def)
  have put: "str_node (json_put n ''key'' (LStr [t])) ''key''" "json_value (json_put n ''key'' (LStr [t])) ''key'' = LStr [t]"
    if "str_node n ''key''" for n t
    using that by (simp_all add: str_node_def json_value_put)
  have "wp (store_config_key S F k1 (p_config p) ''filenamepublic'')
     (\<lambda>c1. wp (bindS (newRandomKey S p) (\<lambda>pp. bindS (store_config_key S F pp c1 ''passwordpublic'') (\<lambda>c2.
        bindS (liftS (json_set_int F c2 ''opslimit'' 0 (so_opslimit S))) (\<lambda>c3.
        bindS (liftS (json_set_int F c3 ''memlimit'' 0 (so_memlimit S))) (\<lambda>c4.
        returnS (p\<lparr>p_filenamepublic := Some k1, p_passwordpublic := Some pp, p_config := c4\<rparr>)))))) Q) ?c1"
  proof (rule wp_store_config_key [OF S(1) r1 kl(1) srt n1])
    fix j1 assume e1: "entry_set (p_config p) ''filenamepublic''
      (LObj [Some (json_put n1 ''key'' (LStr [so_bin2base64 S (key_bytes ?c1 k1)]))]) j1"
    have "wp (store_config_key S F k2 j1 ''passwordpublic'') (\<lambda>c2. wp (bindS (liftS (json_set_int F c2 ''opslimit'' 0 (so_opslimit S))) (\<lambda>c3.
        bindS (liftS (json_set_int F c3 ''memlimit'' 0 (so_memlimit S))) (\<lambda>c4.
        returnS (p\<lparr>p_filenamepublic := Some k1, p_passwordpublic := Some k2, p_config := c4\<rparr>)))) Q) ?c2"
    proof (rule wp_store_config_key [OF S(1) r2 kl(2) entry_set_sorted [OF e1] _ n2(2)])
      show "sub_of (json_value j1 ''passwordpublic'') = Some n2" using n2 entry_setD [OF e1] by simp
      fix j2 assume e2: "entry_set j1 ''passwordpublic''
        (LObj [Some (json_put n2 ''key'' (LStr [so_bin2base64 S (key_bytes ?c2 k2)]))]) j2"
      have o: "int_node j2 ''opslimit''" using i(1) by (simp add: int_node_def entry_setD [OF e1] entry_setD [OF e2])
      define j3 where "j3 = json_put j2 ''opslimit'' (LInt [so_opslimit S])"
      have e3: "entry_set j2 ''opslimit'' (LInt [so_opslimit S]) j3"
        unfolding j3_def by (rule entry_set_put [OF entry_set_sorted [OF e2]])
      have m: "int_node j3 ''memlimit''"
        using i(2) by (simp add: int_node_def entry_setD [OF e1] entry_setD [OF e2] entry_setD [OF e3])
      define j4 where "j4 = json_put j3 ''memlimit'' (LInt [so_memlimit S])"
      have e4: "entry_set j3 ''memlimit'' (LInt [so_memlimit S]) j4"
        unfolding j4_def by (rule entry_set_put [OF entry_set_sorted [OF e3]])
      have "config_1_0 j1" by (rule config_1_0_sub [OF p(3) e1]) (use put(1) [OF n1(2)] in \<open>simp_all add: sub_of_def\<close>)
      then have "config_1_0 j2" by (rule config_1_0_sub [OF _ e2]) (use put(1) [OF n2(2)] in \<open>simp_all add: sub_of_def\<close>)
      then have "config_1_0 j3" by (rule config_1_0_sub [OF _ e3]) simp_all
      then have c4: "config_1_0 j4" by (rule config_1_0_sub [OF _ e4]) simp_all
      have "key_at S c j4 ''filenamepublic'' k1" "key_at S c j4 ''passwordpublic'' k2"
        using put(2) [OF n1(2)] put(2) [OF n2(2)]
        by (simp_all add: key_at_def entry_setD [OF e1] entry_setD [OF e2] entry_setD [OF e3] entry_setD [OF e4] sub_of_def)
      then show "wp (bindS (liftS (json_set_int F j2 ''opslimit'' 0 (so_opslimit S))) (\<lambda>c3.
        bindS (liftS (json_set_int F c3 ''memlimit'' 0 (so_memlimit S))) (\<lambda>c4.
        returnS (p\<lparr>p_filenamepublic := Some k1, p_passwordpublic := Some k2, p_config := c4\<rparr>)))) Q ?c2"
        using c4 by (simp add: json_set_int_run [OF o] j3_def [symmetric] json_set_int_run [OF m] j4_def [symmetric] Q)
    qed
    then show "wp (bindS (newRandomKey S p) (\<lambda>pp. bindS (store_config_key S F pp j1 ''passwordpublic'') (\<lambda>c2.
        bindS (liftS (json_set_int F c2 ''opslimit'' 0 (so_opslimit S))) (\<lambda>c3.
        bindS (liftS (json_set_int F c3 ''memlimit'' 0 (so_memlimit S))) (\<lambda>c4.
        returnS (p\<lparr>p_filenamepublic := Some k1, p_passwordpublic := Some pp, p_config := c4\<rparr>)))))) Q ?c1"
      unfolding wp_bind [of _ "newRandomKey S p"]
      by (subst wp_newRandomKey [OF S(1) r1 p(2), of k2]) (simp_all add: k2)
  qed
  then show ?thesis
    unfolding buildNewConfig_def if_P [OF p(1)]
    by (subst wp_bind, subst wp_newRandomKey [OF S p(2) k1], subst wp_bind)
qed

lemma wp_newConfig:
  assumes S: "sodium_ok S" "master_ready c"
    and k1: "k1 = key_bytes c (so_random S (cr_draws c) (so_keybytes S))"
    and k2: "k2 = key_bytes c (so_random S (Suc (cr_draws c)) (so_keybytes S))"
    and Q: "\<And>cfg. config_1_0 cfg \<Longrightarrow> key_at S c cfg ''filenamepublic'' k1 \<Longrightarrow>
       key_at S c cfg ''passwordpublic'' k2 \<Longrightarrow> Q cfg (c\<lparr>cr_draws := Suc (Suc (cr_draws c))\<rparr>)"
  shows "wp (newConfig S F ''latest'') Q c"
proof -
  define j where "j = json_put make_json ''version'' (LStr [''1.0''])"
  have mk: "smap_sorted (jvalues make_json)" "json_value make_json n = LUndef" for n
    by (simp_all add: make_json_def json_value_def smap_sorted_def)
  have e0: "entry_set make_json ''version'' (LStr [''1.0'']) j" unfolding j_def by (rule entry_set_put [OF mk(1)])
  have cfg: "config_1_0 j"
    using entry_setD [OF e0] entry_set_sorted [OF e0] mk by (simp add: config_1_0_def sub_of_def str_node_def)
  have set: "json_set_str F make_json ''version'' 0 ''1.0'' = Inr j"
    using mk by (simp add: j_def json_set_str_run str_node_def)
  have undef: "int_node j ''opslimit''" "int_node j ''memlimit''"
    using entry_setD [OF e0] mk by (simp_all add: int_node_def)
  have "wp (protocol_get S F j) (\<lambda>prot. wp (bindS (buildNewConfig S F prot) (\<lambda>prot. returnS (p_config prot))) Q) c"
  proof (rule wp_protocol_get [OF S cfg])
    fix p :: protocol
    assume p: "p_V p = 1" "p_keySize p = so_keybytes S" "config_1_0 (p_config p)"
      and same: "\<And>n. n \<notin> {''version'', ''filenamepublic'', ''passwordpublic'', ''keyfile''} \<Longrightarrow>
          json_value (p_config p) n = json_value j n"
    have i: "int_node (p_config p) ''opslimit''" "int_node (p_config p) ''memlimit''"
      using undef by (simp_all add: int_node_def same)
    show "wp (bindS (buildNewConfig S F p) (\<lambda>prot. returnS (p_config prot))) Q c"
      unfolding wp_bind by (rule wp_buildNewConfig [OF S p i k1 k2]) (simp add: Q)
  qed
  then show ?thesis by (simp add: newConfig_def set)
qed

text \<open>
  A configuration made for the latest version is accepted when it is read back: the protocol
  that \<^verbatim>\<open>get\<close> makes of it is version 1.0 and has both public keys that \<^verbatim>\<open>buildNewConfig\<close>
  drew, so that a password can be entered.
\<close>

theorem newConfig_usable:
  assumes S: "sodium_ok S" "master_ready c"
  shows "wp (newConfig S F ''latest'')
           (\<lambda>cfg c'. wp (protocol_get S F cfg)
              (\<lambda>p c''. protocol_getVersion p = ''1.0'' \<and>
                 p_filenamepublic p = Some (key_bytes c (so_random S (cr_draws c) (so_keybytes S))) \<and>
                 p_passwordpublic p = Some (key_bytes c (so_random S (Suc (cr_draws c)) (so_keybytes S)))) c') c"
proof (rule wp_newConfig [OF S refl refl])
  let ?k1 = "key_bytes c (so_random S (cr_draws c) (so_keybytes S))"
  let ?k2 = "key_bytes c (so_random S (Suc (cr_draws c)) (so_keybytes S))"
  fix cfg
  assume c: "config_1_0 cfg" and k: "key_at S c cfg ''filenamepublic'' ?k1" "key_at S c cfg ''passwordpublic'' ?k2"
  let ?c2 = "c\<lparr>cr_draws := Suc (Suc (cr_draws c))\<rparr>"
  have kl: "length ?k1 = so_keybytes S" "length ?k2 = so_keybytes S"
    using S sodium_okD(1,10) [OF S(1)] by simp_all
  have k': "key_at S ?c2 cfg ''filenamepublic'' ?k1" "key_at S ?c2 cfg ''passwordpublic'' ?k2"
    using k by (simp_all add: key_at_def)
  show "wp (protocol_get S F cfg) (\<lambda>p c''. protocol_getVersion p = ''1.0'' \<and>
     p_filenamepublic p = Some ?k1 \<and> p_passwordpublic p = Some ?k2) ?c2"
    by (rule wp_protocol_get [OF S(1) _ c]) (use S(2) k' kl in simp_all)
qed

section \<open>Witnesses\<close>

lemma sample_sodium_ok: "sodium_ok (sample_sodium\<lparr>so_random := r\<rparr>)" if "\<And>d n. length (r d n) = n"
  using that by (simp add: sodium_ok_def sample_sodium_def sample_base64_roundtrip sample_base64_nul min_def)

definition sample_protocol :: protocol where
  "sample_protocol = \<lparr>p_V = 1, p_MV = 0, p_VA = False, p_config = make_json, p_keySize = 32, p_IVSize = 24,
     p_tagSize = 16, p_key = Some (replicate 32 3), p_protokey = None, p_filenamepublic = None,
     p_filenamesecret = None, p_passwordpublic = None\<rparr>"

definition ones_sodium :: sodium where
  "ones_sodium = sample_sodium\<lparr>so_random := (\<lambda>d n. replicate n 1)\<rparr>"

definition zeros_sodium :: sodium where
  "zeros_sodium = sample_sodium\<lparr>so_random := (\<lambda>d n. replicate n 0)\<rparr>"

lemma sample_nonces: "nonce_ok (so_random ones_sodium d 24)" "\<not> nonce_ok (so_random zeros_sodium d 24)"
proof -
  have "of_le (replicate n 0) = 0" for n by (induction n) simp_all
  moreover have "of_le (replicate (Suc n) 1) \<noteq> 0" for n by simp
  from this [of 7] have "of_le (replicate 8 1) \<noteq> 0" by (simp del: of_le.simps replicate.simps)
  ultimately show "nonce_ok (so_random ones_sodium d 24)" "\<not> nonce_ok (so_random zeros_sodium d 24)"
    by (simp_all add: nonce_ok_def ones_sodium_def zeros_sodium_def min_def)
qed

lemma sample_oks: "sodium_ok ones_sodium" "sodium_ok zeros_sodium" "master_ready sample_crypt"
  by (simp_all add: ones_sodium_def zeros_sodium_def sample_sodium_ok master_ready_def sample_crypt_def)

theorem protocol_crypt_roundtrip_witness:
  "wp (protocol_encrypt ones_sodium sample_protocol (replicate 32 3) [1, 2])
     (\<lambda>y c'. length y = 2 + so_abytes ones_sodium + p_IVSize sample_protocol \<and>
        wp (protocol_decrypt ones_sodium sample_protocol (replicate 32 3) y) (\<lambda>x c''. x = [1, 2] \<and> c'' = c') c')
     sample_crypt"
proof -
  have n: "nonce_ok (so_random ones_sodium (cr_draws sample_crypt) (p_IVSize sample_protocol))"
    using sample_nonces(1) by (simp add: sample_protocol_def)
  show ?thesis
    using protocol_crypt_roundtrip [OF sample_oks(1,3) _ _ n, of "replicate 32 3" "[1, 2]"]
    by (simp add: sample_protocol_def)
qed

theorem protocol_zero_nonce_witness:
  "wp (protocol_encrypt zeros_sodium sample_protocol (replicate 32 3) [1, 2])
     (\<lambda>y c'. protocol_decrypt zeros_sodium sample_protocol (replicate 32 3) y c' =
        Inl (StdExn ''Too many zeros in IV'', c')) sample_crypt"
proof -
  have n: "\<not> nonce_ok (so_random zeros_sodium (cr_draws sample_crypt) (p_IVSize sample_protocol))"
    using sample_nonces(2) by (simp add: sample_protocol_def)
  show ?thesis
    by (rule protocol_zero_nonce [OF sample_oks(2,3) _ _ n]) (simp_all add: sample_protocol_def)
qed

theorem protocol_env_ok_witness: "env_ok (protocol_env ones_sodium sample_protocol sample_crypt ''/s/'')"
  by (rule protocol_env_ok [OF sample_oks(1,3), of _ "replicate 32 3"])
    (use sample_nonces(1) in \<open>simp_all add: sample_protocol_def\<close>)

lemma make_json_node: "str_node make_json n"
  by (simp add: str_node_def make_json_def json_value_def smap_sorted_def)

theorem key_block_roundtrip_witness:
  "wp (storeEncryptionKeyToBlock ones_sodium sample_fpu sample_protocol make_json)
     (\<lambda>j' c'. wp (loadEncryptionKeyFromBlock ones_sodium sample_fpu (sample_protocol\<lparr>p_key := None\<rparr>) j')
        (\<lambda>r c''. r = (True, sample_protocol) \<and> c'' = sample_crypt) c') sample_crypt"
  by (rule key_block_roundtrip [OF sample_oks(1,3) _ _ _ make_json_node, of _ "replicate 32 3"])
    (simp_all add: sample_protocol_def)

theorem newConfig_usable_witness:
  "wp (newConfig ones_sodium sample_fpu ''latest'')
     (\<lambda>cfg c'. wp (protocol_get ones_sodium sample_fpu cfg)
        (\<lambda>p c''. p_filenamepublic p \<noteq> None \<and> p_passwordpublic p \<noteq> None) c') sample_crypt"
  by (rule wp_mono [OF newConfig_usable [OF sample_oks(1,3)]]) (erule wp_mono, simp)

end
