(* ===== verification/Journal.thy ===== *)
theory Journal
  imports Protocol Inode_Layout
begin

text \<open>
  The journal (\<^verbatim>\<open>src/src/modules/filesystem/journal.h\<close>, \<^verbatim>\<open>journal.cpp\<close>): entries,
  their bytes, the encrypted files they are appended to, the wrappers that hold a file open until their
  entry is closed, and the reading of all files when the file system starts.
\<close>

section \<open>Entries and their bytes\<close>

fun type_code :: "journalEntryType \<Rightarrow> nat" where
  "type_code JE_close = 0x10" | "type_code JE_mkobject = 0x20" | "type_code JE_write = 0x30"
| "type_code JE_unlink = 0x40" | "type_code JE_renamemove = 0x50" | "type_code JE_chmod = 0x60"
| "type_code JE_chown = 0x70" | "type_code JE_truncate = 0x80"

definition type_of_code :: "nat \<Rightarrow> journalEntryType option" where
  "type_of_code n =
     (if n = 0x10 then Some JE_close else if n = 0x20 then Some JE_mkobject else if n = 0x30 then Some JE_write
      else if n = 0x40 then Some JE_unlink else if n = 0x50 then Some JE_renamemove else if n = 0x60 then Some JE_chmod
      else if n = 0x70 then Some JE_chown else if n = 0x80 then Some JE_truncate else None)"

text \<open>The struct \<^verbatim>\<open>journalEntry\<close>; name and data follow it.\<close>

record jheader =
  jh_id :: nat
  jh_type :: nat
  jh_parentNode :: bucketIndex_t
  jh_newNode :: bucketIndex_t
  jh_newParentNode :: bucketIndex_t
  jh_mod :: my_mode_t
  jh_offset :: int
  jh_nameLength :: nat
  jh_dataLength :: nat

definition sizeof_entry :: nat where "sizeof_entry = 64"

text \<open>\<open>pad\<close> is what the compiler leaves between \<^verbatim>\<open>mod\<close> and \<^verbatim>\<open>offset\<close>.\<close>

definition jheader_bytes :: "byte list \<Rightarrow> jheader \<Rightarrow> byte list" where
  "jheader_bytes pad h =
     le_bytes 4 (jh_id h) @ le_bytes 4 (jh_type h) @ le_bytes 8 (jh_parentNode h) @ le_bytes 8 (jh_newNode h) @
     le_bytes 8 (jh_newParentNode h) @ le_bytes 4 (unat (jh_mod h)) @ pad @ le_bytes 8 (nat64_of (jh_offset h)) @
     le_bytes 8 (jh_nameLength h) @ le_bytes 8 (jh_dataLength h)"

definition jheader_of :: "byte list \<Rightarrow> jheader" where
  "jheader_of bs =
     \<lparr>jh_id = le_at bs 0 4, jh_type = le_at bs 4 4, jh_parentNode = le_at bs 8 8, jh_newNode = le_at bs 16 8,
      jh_newParentNode = le_at bs 24 8, jh_mod = of_nat (le_at bs 32 4), jh_offset = int64_of (le_at bs 40 8),
      jh_nameLength = le_at bs 48 8, jh_dataLength = le_at bs 56 8\<rparr>"

definition header_of_entry :: "journalEntry \<Rightarrow> jheader" where
  "header_of_entry e =
     \<lparr>jh_id = je_id e, jh_type = type_code (je_type e), jh_parentNode = je_parentNode e, jh_newNode = je_newNode e,
      jh_newParentNode = je_newParentNode e, jh_mod = je_mod e, jh_offset = je_offset e,
      jh_nameLength = length (je_name e), jh_dataLength = length (je_data e)\<rparr>"

definition close_header :: "nat \<Rightarrow> jheader" where
  "close_header i =
     \<lparr>jh_id = i, jh_type = type_code JE_close, jh_parentNode = 0, jh_newNode = 0, jh_newParentNode = 0,
      jh_mod = 0, jh_offset = 0, jh_nameLength = 0, jh_dataLength = 0\<rparr>"

section \<open>Journal files\<close>

record jenv =
  jv_sodium :: sodium
  jv_protokey :: key
  jv_path :: string
  jv_pad :: "byte list"

text \<open>\<open>jf_refs\<close>: the wrappers that share the file. A file without any has been destroyed.\<close>

record jfile =
  jf_name :: string
  jf_stream :: stream
  jf_entries :: nat
  jf_refs :: nat

text \<open>\<open>js_current\<close> is the weak pointer that each thread has.\<close>

record jstate =
  js_next :: nat
  js_files :: "jfile list"
  js_current :: "nat \<Rightarrow> nat option"
  js_disk :: "string \<Rightarrow> byte list option"
  js_crypt :: crypt

type_synonym 'a journal_op = "(jstate, 'a) op"

definition in_crypt :: "'a crypt_op \<Rightarrow> 'a journal_op" where
  "in_crypt = zoomS js_crypt (\<lambda>c s. s\<lparr>js_crypt := c\<rparr>)"

text \<open>\<^verbatim>\<open>nextJournalEntry.fetch_add(1)\<close>\<close>

definition next_id :: "nat journal_op" where
  "next_id =
     bindS (getS js_next) (\<lambda>n. bindS (modifyS (\<lambda>s. s\<lparr>js_next := (n + 1) mod 2 ^ 32\<rparr>)) (\<lambda>_. returnS n))"

definition append_disk :: "string \<Rightarrow> byte list \<Rightarrow> unit journal_op" where
  "append_disk name bs =
     modifyS (\<lambda>s. s\<lparr>js_disk := (js_disk s)(name \<mapsto> (case js_disk s name of None \<Rightarrow> [] | Some x \<Rightarrow> x) @ bs)\<rparr>)"

definition upd_jfile :: "nat \<Rightarrow> (jfile \<Rightarrow> jfile) \<Rightarrow> unit journal_op" where
  "upd_jfile i f = modifyS (\<lambda>s. s\<lparr>js_files := (js_files s)[i := f (js_files s ! i)]\<rparr>)"

definition journalFile_new :: "jenv \<Rightarrow> string \<Rightarrow> nat journal_op" where
  "journalFile_new J name =
     bindS (in_crypt (startStreamWrite (jv_sodium J) (jv_protokey J))) (\<lambda>(st, header).
     bindS (append_disk name header) (\<lambda>_.
     bindS (getS (\<lambda>s. length (js_files s))) (\<lambda>i.
     bindS (modifyS (\<lambda>s. s\<lparr>js_files := js_files s @
        [\<lparr>jf_name = name, jf_stream = st, jf_entries = 0, jf_refs = 0\<rparr>]\<rparr>)) (\<lambda>_. returnS i))))"

definition journalFile_writeEntry :: "jenv \<Rightarrow> nat \<Rightarrow> jheader \<Rightarrow> byte list \<Rightarrow> unit journal_op" where
  "journalFile_writeEntry J i h datacontent =
     bindS (getS (\<lambda>s. js_files s ! i)) (\<lambda>f.
     bindS (liftS (stream_message (jv_sodium J) (jf_stream f) (jheader_bytes (jv_pad J) h))) (\<lambda>(enc, st).
     bindS (if datacontent \<noteq> [] then
              bindS (liftS (stream_message (jv_sodium J) st datacontent)) (\<lambda>(encData, st'). returnS (enc @ encData, st'))
            else returnS (enc, st)) (\<lambda>(content, st).
     bindS (append_disk (jf_name f) content) (\<lambda>_.
     upd_jfile i (\<lambda>f. f\<lparr>jf_stream := st, jf_entries := Suc (jf_entries f)\<rparr>)))))"

definition journalFile_deleteEntry :: "jenv \<Rightarrow> nat \<Rightarrow> nat \<Rightarrow> unit journal_op" where
  "journalFile_deleteEntry J i eid = journalFile_writeEntry J i (close_header eid) []"

text \<open>The destructor: \<^verbatim>\<open>remove\<close> tells whether there was a file.\<close>

definition journalFile_destroy :: "nat \<Rightarrow> unit journal_op" where
  "journalFile_destroy i =
     bindS (getS (\<lambda>s. jf_name (js_files s ! i))) (\<lambda>name.
     bindS (getS (\<lambda>s. js_disk s name \<noteq> None)) (\<lambda>there.
     bindS (modifyS (\<lambda>s. s\<lparr>js_disk := (js_disk s)(name := None)\<rparr>)) (\<lambda>_. assertS there)))"

definition new_current :: "jenv \<Rightarrow> nat \<Rightarrow> nat journal_op" where
  "new_current J t =
     bindS next_id (\<lambda>n.
     bindS (journalFile_new J (jv_path J @ ''journal/.'' @ nat_to_string n)) (\<lambda>i.
     bindS (modifyS (\<lambda>s. s\<lparr>js_current := (js_current s)(t \<mapsto> i)\<rparr>)) (\<lambda>_. returnS i)))"

definition getJournalFile :: "jenv \<Rightarrow> nat \<Rightarrow> nat journal_op" where
  "getJournalFile J t =
     bindS (getS (\<lambda>s. case js_current s t of None \<Rightarrow> None
        | Some i \<Rightarrow> if jf_refs (js_files s ! i) > 0 then Some i else None)) (\<lambda>locked.
     case locked of None \<Rightarrow> new_current J t
     | Some i \<Rightarrow>
         bindS (getS (\<lambda>s. jf_entries (js_files s ! i))) (\<lambda>n. if n > 1024 then new_current J t else returnS i))"

definition journal_writeEntry :: "jenv \<Rightarrow> nat \<Rightarrow> jheader \<Rightarrow> byte list \<Rightarrow> nat journal_op" where
  "journal_writeEntry J t h datacontent =
     bindS (getJournalFile J t) (\<lambda>i.
     bindS (journalFile_writeEntry J i h datacontent) (\<lambda>_. returnS i))"

text \<open>The constructor and the destructor of \<^verbatim>\<open>journalEntryWrapper\<close>; the wrapper is the entry and its file.\<close>

definition wrapper_new :: "jenv \<Rightarrow> nat \<Rightarrow> journalEntry \<Rightarrow> (journalEntry \<times> nat) journal_op" where
  "wrapper_new J t e =
     bindS next_id (\<lambda>n.
     let e' = e\<lparr>je_id := n\<rparr> in
     bindS (journal_writeEntry J t (header_of_entry e') (str_bytes (je_name e) @ je_data e)) (\<lambda>i.
     bindS (upd_jfile i (\<lambda>f. f\<lparr>jf_refs := Suc (jf_refs f)\<rparr>)) (\<lambda>_. returnS (e', i))))"

definition wrapper_delete :: "jenv \<Rightarrow> journalEntry \<times> nat \<Rightarrow> unit journal_op" where
  "wrapper_delete J w =
     (let (e, i) = w in
      bindS (journalFile_deleteEntry J i (je_id e)) (\<lambda>_.
      bindS (upd_jfile i (\<lambda>f. f\<lparr>jf_refs := jf_refs f - 1\<rparr>)) (\<lambda>_.
      bindS (getS (\<lambda>s. jf_refs (js_files s ! i))) (\<lambda>r.
      whenS (r = 0) (journalFile_destroy i)))))"

section \<open>Reading the journal\<close>

text \<open>
  The records of one file, decrypted. A record that the file does not hold in full makes the constructor of
  the string read behind the end of the buffer.
\<close>

function read_records :: "sodium \<Rightarrow> stream \<Rightarrow> byte list \<Rightarrow> byte list res" where
  "read_records S st rest =
     (if rest = [] then Inr []
      else
        let n = stream_overhead S sizeof_entry in
        if length rest < n then Inl Undefined
        else
          bindR (stream_message S st (take n rest)) (\<lambda>(entry, st1).
          bindR (assertR (length entry = sizeof_entry)) (\<lambda>_.
          let h = jheader_of entry; d = (jh_dataLength h + jh_nameLength h) mod 2 ^ 64; rest1 = drop n rest
          in if d = 0 then bindR (read_records S st1 rest1) (\<lambda>r. Inr (entry @ r))
             else
               let m = stream_overhead S d in
               if length rest1 < m then Inl Undefined
               else
                 bindR (stream_message S st1 (take m rest1)) (\<lambda>(dta, st2).
                 bindR (read_records S st2 (drop m rest1)) (\<lambda>r. Inr (entry @ dta @ r))))))"
  by pat_completeness auto

termination
  by (relation "measure (\<lambda>(S, st, rest). length rest)")
    (auto simp: stream_overhead_def sizeof_entry_def)

declare read_records.simps [simp del]

definition read_journal_file :: "jenv \<Rightarrow> byte list \<Rightarrow> byte list crypt_op" where
  "read_journal_file J enc =
     (let header = take (stream_headerSize (jv_sodium J)) enc in
      bindS (startStreamRead (jv_sodium J) (jv_protokey J) header) (\<lambda>st.
      liftS (read_records (jv_sodium J) st (drop (stream_headerSize (jv_sodium J)) enc))))"

text \<open>\<^verbatim>\<open>std::map\<close> with numbers as keys.\<close>

fun nmap_set :: "(nat \<times> 'v) list \<Rightarrow> nat \<Rightarrow> 'v \<Rightarrow> (nat \<times> 'v) list" where
  "nmap_set [] k v = [(k, v)]"
| "nmap_set ((k', v') # m) k v =
     (if k = k' then (k, v) # m else if k < k' then (k, v) # (k', v') # m else (k', v') # nmap_set m k v)"

definition nmap_del :: "(nat \<times> 'v) list \<Rightarrow> nat \<Rightarrow> (nat \<times> 'v) list" where
  "nmap_del m k = filter (\<lambda>(k', _). k' \<noteq> k) m"

text \<open>The pass over the whole journal; the items are offset and size by the number of the entry.\<close>

function collect_items ::
  "byte list \<Rightarrow> nat \<Rightarrow> (nat \<times> nat \<times> nat) list \<Rightarrow> (nat \<times> nat \<times> nat) list res" where
  "collect_items completeJournal offset items =
     (if \<not> offset < length completeJournal then Inr items
      else
        let h = jheader_of (take sizeof_entry (drop offset completeJournal));
            sz = sizeof_entry + jh_nameLength h + jh_dataLength h
        in if length completeJournal - offset < sizeof_entry then Inl Undefined
           else
             case type_of_code (jh_type h) of
               None \<Rightarrow> Inl (StdExn ''corrupted journal'')
             | Some JE_close \<Rightarrow> collect_items completeJournal (offset + sz) (nmap_del items (jh_id h))
             | Some _ \<Rightarrow> collect_items completeJournal (offset + sz) (nmap_set items (jh_id h) (offset, sz)))"
  by pat_completeness auto

termination
  by (relation "measure (\<lambda>(cj, offset, items). length cj - offset)") (auto simp: sizeof_entry_def)

declare collect_items.simps [simp del]

text \<open>What is replayed for one item: the entry with its name and data.\<close>

definition entry_of_content :: "byte list \<Rightarrow> journalEntry option" where
  "entry_of_content content =
     (let h = jheader_of content; nl = jh_nameLength h; dl = jh_dataLength h in
      if length content \<ge> sizeof_entry \<and> length content \<ge> sizeof_entry + nl + dl then
        map_option (\<lambda>ty. \<lparr>je_id = jh_id h, je_type = ty, je_parentNode = jh_parentNode h, je_newNode = jh_newNode h,
              je_newParentNode = jh_newParentNode h, je_mod = jh_mod h, je_offset = jh_offset h,
              je_name = bytes_str (take nl (drop sizeof_entry content)),
              je_data = take dl (drop (sizeof_entry + nl) content)\<rparr>) (type_of_code (jh_type h))
      else None)"

definition replay_list :: "byte list \<Rightarrow> journalEntry list res" where
  "replay_list completeJournal =
     bindR (collect_items completeJournal 0 []) (\<lambda>items.
     Inr (List.map_filter (\<lambda>(_, offset, sz). entry_of_content (take sz (drop offset completeJournal))) items))"

text \<open>The files in the order of the directory.\<close>

fun read_all_files :: "jenv \<Rightarrow> string list \<Rightarrow> byte list journal_op" where
  "read_all_files J [] = returnS []"
| "read_all_files J (p # ps) =
     bindS (getS (\<lambda>s. case js_disk s p of None \<Rightarrow> [] | Some x \<Rightarrow> x)) (\<lambda>enc.
     bindS (in_crypt (read_journal_file J enc)) (\<lambda>plain.
     bindS (read_all_files J ps) (\<lambda>rest. returnS (plain @ rest))))"

fun remove_files :: "string list \<Rightarrow> unit journal_op" where
  "remove_files [] = returnS ()"
| "remove_files (p # ps) =
     bindS (modifyS (\<lambda>s. s\<lparr>js_disk := (js_disk s)(p := None)\<rparr>)) (\<lambda>_. remove_files ps)"

end
