(* ===== verification/Journal_Props.thy ===== *)
theory Journal_Props
  imports Journal Protocol_Props Fs_Ops "HOL-Library.Multiset"
begin

text \<open>
  Laws of the journal: a file of records is read back as it was written, what is replayed are the entries
  that were not closed, in the order of their numbers and whatever the order of the files, and a file cut
  short is not read.
\<close>

section \<open>Records\<close>

definition jheader_ok :: "jheader \<Rightarrow> bool" where
  "jheader_ok h \<longleftrightarrow>
     jh_id h < 2 ^ 32 \<and> type_of_code (jh_type h) \<noteq> None \<and> jh_parentNode h < 2 ^ 64 \<and> jh_newNode h < 2 ^ 64 \<and>
     jh_newParentNode h < 2 ^ 64 \<and> - (2 ^ 63) \<le> jh_offset h \<and> jh_offset h < 2 ^ 63 \<and>
     jh_dataLength h + jh_nameLength h < 2 ^ 64"

lemma type_code_less: "type_of_code n \<noteq> None \<Longrightarrow> n < 256 ^ 4"
  by (simp add: type_of_code_def split: if_splits)

lemma type_code_inverse [simp]: "type_of_code (type_code ty) = Some ty"
  by (cases ty) (simp_all add: type_of_code_def)

lemma length_jheader: "length pad = 4 \<Longrightarrow> length (jheader_bytes pad h) = sizeof_entry"
  by (simp add: jheader_bytes_def sizeof_entry_def)

lemma jheader_of_bytes:
  assumes "jheader_ok h" "length pad = 4"
  shows "jheader_of (jheader_bytes pad h @ x) = h"
proof -
  note ok = assms(1) [unfolded jheader_ok_def]
  have t: "jh_type h < 256 ^ 4" using ok type_code_less by blast
  let ?b = "jheader_bytes pad h @ x"
  have "jh_id (jheader_of ?b) = jh_id h" "jh_type (jheader_of ?b) = jh_type h"
    "jh_parentNode (jheader_of ?b) = jh_parentNode h" "jh_newNode (jheader_of ?b) = jh_newNode h"
    "jh_newParentNode (jheader_of ?b) = jh_newParentNode h"
    "jh_nameLength (jheader_of ?b) = jh_nameLength h" "jh_dataLength (jheader_of ?b) = jh_dataLength h"
    using ok t assms(2) by (simp_all add: jheader_of_def jheader_bytes_def layout)
  moreover have "jh_mod (jheader_of ?b) = jh_mod h"
    using unat_bytes [of "jh_mod h"] assms(2) by (simp add: jheader_of_def jheader_bytes_def layout)
  moreover have "jh_offset (jheader_of ?b) = jh_offset h"
    using i64_bytes [of "jh_offset h"] ok assms(2) by (simp add: jheader_of_def jheader_bytes_def layout int64_nat64)
  ultimately show ?thesis by (intro jheader.equality) simp_all
qed

text \<open>A record in the log of a file: an entry with the bytes that follow it.\<close>

type_synonym jrecord = "jheader \<times> byte list"

definition record_ok :: "jrecord \<Rightarrow> bool" where
  "record_ok r \<longleftrightarrow> jheader_ok (fst r) \<and> length (snd r) = jh_nameLength (fst r) + jh_dataLength (fst r)"

definition record_plain :: "byte list \<Rightarrow> jrecord \<Rightarrow> byte list" where
  "record_plain pad r = jheader_bytes pad (fst r) @ snd r"

definition log_plain :: "byte list \<Rightarrow> jrecord list \<Rightarrow> byte list" where
  "log_plain pad rs = concat (map (record_plain pad) rs)"

fun log_cipher :: "sodium \<Rightarrow> byte list \<Rightarrow> byte list \<Rightarrow> byte list \<Rightarrow> nat \<Rightarrow> jrecord list \<Rightarrow> byte list" where
  "log_cipher S pad K h n [] = []"
| "log_cipher S pad K h n (r # rs) =
     so_push S K h n (jheader_bytes pad (fst r)) @
     (if snd r = [] then log_cipher S pad K h (Suc n) rs
      else so_push S K h (Suc n) (snd r) @ log_cipher S pad K h (Suc (Suc n)) rs)"

definition messages :: "jrecord list \<Rightarrow> nat" where
  "messages rs = sum_list (map (\<lambda>r. if snd r = [] then 1 else 2) rs)"

lemma log_cipher_append:
  "log_cipher S pad K h n (rs @ ss) = log_cipher S pad K h n rs @ log_cipher S pad K h (n + messages rs) ss"
  by (induction S pad K h n rs rule: log_cipher.induct) (simp_all add: messages_def)

lemma read_records_Nil: "read_records S st [] = Inr []"
  by (simp add: read_records.simps)

text \<open>Reading goes through the records of a log and on with what follows it.\<close>

lemma read_log:
  assumes S: "sodium_ok S" and pad: "length pad = 4" and rs: "\<forall>r \<in> set rs. record_ok r"
  shows "read_records S \<lparr>sm_key = K, sm_header = h, sm_count = n, sm_push = False\<rparr> (log_cipher S pad K h n rs @ t) =
    bindR (read_records S \<lparr>sm_key = K, sm_header = h, sm_count = n + messages rs, sm_push = False\<rparr> t)
      (\<lambda>x. Inr (log_plain pad rs @ x))"
  using rs
proof (induction rs arbitrary: n)
  case Nil
  then show ?case
    by (cases "read_records S \<lparr>sm_key = K, sm_header = h, sm_count = n, sm_push = False\<rparr> t")
       (simp_all add: log_plain_def messages_def)
next
  case (Cons r rs)
  obtain hd d where r: "r = (hd, d)" by (cases r)
  have ok: "jheader_ok hd" "length d = jh_nameLength hd + jh_dataLength hd" using Cons.prems by (simp_all add: r record_ok_def)
  have len: "(jh_dataLength hd + jh_nameLength hd) mod 2 ^ 64 = length d"
    using ok by (simp add: jheader_ok_def)
  let ?st = "\<lambda>m. \<lparr>sm_key = K, sm_header = h, sm_count = m, sm_push = False\<rparr>"
  have IH: "read_records S (?st m) (log_cipher S pad K h m rs @ t) =
      bindR (read_records S (?st (m + messages rs)) t) (\<lambda>x. Inr (log_plain pad rs @ x))" for m using Cons by simp
  have e: "length (so_push S K h m x) = stream_overhead S (length x)" for m x
    using sodium_okD(8) [OF S] by (simp add: stream_overhead_def)
  have e64: "length (so_push S K h m (jheader_bytes pad hd)) = stream_overhead S sizeof_entry" for m
    using e length_jheader [OF pad] by simp
  have pos: "so_push S K h m x \<noteq> []" if "x \<noteq> []" for m x
    using e [of m x] that by (auto simp: stream_overhead_def)
  have hne: "jheader_bytes pad hd \<noteq> []" using length_jheader [OF pad, of hd] by (auto simp: sizeof_entry_def)
  have parse: "jheader_of (jheader_bytes pad hd) = hd" using jheader_of_bytes [OF ok(1) pad, of "[]"] by simp
  have msg: "stream_message S (?st m) (so_push S K h m x) = Inr (x, ?st (Suc m))" for m x
    using sodium_okD(7) [OF S] sodium_okD(8) [OF S] by (simp add: stream_message_def)
  show ?case
  proof (cases "d = []")
    case True
    then show ?thesis
      using len IH [of "Suc n"] pos [OF hne]
      by (subst read_records.simps)
         (simp add: r e64 msg length_jheader [OF pad] parse Let_def log_plain_def record_plain_def messages_def
           bindR_def split: sum.splits)
  next
    case False
    then have "length d > 0" by simp
    with False show ?thesis
      using len IH [of "Suc (Suc n)"] pos [OF hne] e [of "Suc n" d]
      by (subst read_records.simps)
         (simp add: r e64 msg length_jheader [OF pad] parse Let_def log_plain_def record_plain_def messages_def
           bindR_def split: sum.splits)
  qed
qed

section \<open>The pass over all records\<close>

text \<open>What the map of items should hold: the records by their number.\<close>

fun pending :: "jrecord list \<Rightarrow> (nat \<times> jrecord) list \<Rightarrow> (nat \<times> jrecord) list" where
  "pending [] m = m"
| "pending (r # rs) m =
     pending rs (if type_of_code (jh_type (fst r)) = Some JE_close then nmap_del m (jh_id (fst r))
                 else nmap_set m (jh_id (fst r)) r)"

lemma nmap_set_map: "nmap_set (map (\<lambda>(k, v). (k, f v)) m) k (f v) = map (\<lambda>(k, v). (k, f v)) (nmap_set m k v)"
  by (induction m k v rule: nmap_set.induct) auto

lemma nmap_del_map: "nmap_del (map (\<lambda>(k, v). (k, f v)) m) k = map (\<lambda>(k, v). (k, f v)) (nmap_del m k)"
  by (induction m) (auto simp: nmap_del_def)

text \<open>An item list that points to the records of a map.\<close>

definition points_to :: "byte list \<Rightarrow> byte list \<Rightarrow> (nat \<times> nat \<times> nat) list \<Rightarrow> (nat \<times> jrecord) list \<Rightarrow> bool" where
  "points_to pad cj items m \<longleftrightarrow>
     map (\<lambda>(k, v). (k, case v of (off, sz) \<Rightarrow> take sz (drop off cj))) items =
     map (\<lambda>(k, v). (k, record_plain pad v)) m"

lemma points_to_set:
  assumes "points_to pad cj items m" "take sz (drop off cj) = record_plain pad r"
  shows "points_to pad cj (nmap_set items k (off, sz)) (nmap_set m k r)"
  using assms
    nmap_set_map [of "\<lambda>v. case v of (off, sz) \<Rightarrow> take sz (drop off cj)" items k "(off, sz)"]
    nmap_set_map [of "record_plain pad" m k r]
  by (simp add: points_to_def)

lemma points_to_del:
  "points_to pad cj items m \<Longrightarrow> points_to pad cj (nmap_del items k) (nmap_del m k)"
  using nmap_del_map [of "\<lambda>v. case v of (off, sz) \<Rightarrow> take sz (drop off cj)" items k]
    nmap_del_map [of "record_plain pad" m k]
  by (simp add: points_to_def)

lemma collect_log:
  assumes pad: "length pad = 4" and "\<forall>r \<in> set rs. record_ok r"
    and "points_to pad cj items m" "cj = pre @ log_plain pad rs"
  shows "\<exists>items'. collect_items cj (length pre) items = Inr items' \<and> points_to pad cj items' (pending rs m)"
  using assms(2-)
proof (induction rs arbitrary: pre items m)
  case Nil
  then show ?case by (subst collect_items.simps) (simp add: log_plain_def)
next
  case (Cons r rs)
  obtain h d where r: "r = (h, d)" by (cases r)
  have ok: "jheader_ok h" "length d = jh_nameLength h + jh_dataLength h" using Cons.prems(1) by (simp_all add: r record_ok_def)
  let ?sz = "sizeof_entry + jh_nameLength h + jh_dataLength h"
  have lr: "length (record_plain pad r) = ?sz" using ok by (simp add: r record_plain_def length_jheader [OF pad])
  have cj: "cj = (pre @ record_plain pad r) @ log_plain pad rs" using Cons.prems(3) by (simp add: log_plain_def)
  have hd: "jheader_of (take sizeof_entry (drop (length pre) cj)) = h"
    using jheader_of_bytes [OF ok(1) pad, of "[]"] length_jheader [OF pad, of h] by (simp add: cj r record_plain_def)
  have at: "take ?sz (drop (length pre) cj) = record_plain pad r" using lr by (simp add: cj)
  have lp: "length (pre @ record_plain pad r) = length pre + ?sz" using lr by simp
  have long: "length pre < length cj" "\<not> length cj - length pre < sizeof_entry"
    using lr by (simp_all add: cj sizeof_entry_def)
  have rest: "\<forall>r \<in> set rs. record_ok r" using Cons.prems(1) by simp
  obtain ty where ty: "type_of_code (jh_type h) = Some ty" using ok(1) by (auto simp: jheader_ok_def)
  show ?case
  proof (cases "ty = JE_close")
    case True
    then show ?thesis
      using Cons.IH [OF rest points_to_del [OF Cons.prems(2), of "jh_id h"] cj] long lp
      by (subst collect_items.simps) (simp add: hd ty Let_def r add.assoc)
  next
    case False
    then show ?thesis
      using Cons.IH [OF rest points_to_set [OF Cons.prems(2) at, of "jh_id h"] cj] long lp
      by (subst collect_items.simps) (cases ty; simp add: hd ty Let_def r add.assoc)
  qed
qed

section \<open>The map of pending records\<close>

definition nmap_sorted :: "(nat \<times> 'v) list \<Rightarrow> bool" where
  "nmap_sorted m \<longleftrightarrow> sorted_wrt (<) (map fst m)"

lemma nmap_set_keys: "fst ` set (nmap_set m k v) = insert k (fst ` set m)"
  by (induction m k v rule: nmap_set.induct) auto

lemma nmap_set_sorted: "nmap_sorted m \<Longrightarrow> nmap_sorted (nmap_set m k v)"
proof (induction m k v rule: nmap_set.induct)
  case (2 k' v' m k v)
  have m: "nmap_sorted m" "\<forall>x \<in> fst ` set m. k' < x" using 2(2) by (auto simp: nmap_sorted_def)
  then show ?case
    using 2 nmap_set_keys [of m k v] by (auto simp: nmap_sorted_def)
qed (simp add: nmap_sorted_def)

lemma nmap_del_sorted: "nmap_sorted m \<Longrightarrow> nmap_sorted (nmap_del m k)"
  by (induction m) (auto simp: nmap_sorted_def nmap_del_def)

lemma nmap_set_map_of: "nmap_sorted m \<Longrightarrow> map_of (nmap_set m k v) = (map_of m)(k \<mapsto> v)"
proof (induction m k v rule: nmap_set.induct)
  case (2 k' v' m k v)
  then show ?case
    by (auto simp: nmap_sorted_def fun_eq_iff map_of_eq_None_iff)
qed auto

lemma nmap_del_map_of: "map_of (nmap_del m k) = (map_of m)(k := None)"
  by (induction m) (auto simp: nmap_del_def fun_eq_iff)

definition is_close :: "jrecord \<Rightarrow> bool" where
  "is_close r \<longleftrightarrow> type_of_code (jh_type (fst r)) = Some JE_close"

definition rid :: "jrecord \<Rightarrow> nat" where "rid r = jh_id (fst r)"

text \<open>The last record of each number decides.\<close>

definition records_of :: "jrecord list \<Rightarrow> nat \<Rightarrow> jrecord list" where
  "records_of rs k = filter (\<lambda>r. rid r = k) rs"

lemma pending_map_of:
  "nmap_sorted m \<Longrightarrow> nmap_sorted (pending rs m) \<and>
   map_of (pending rs m) k =
     (if records_of rs k = [] then map_of m k
      else if is_close (last (records_of rs k)) then None else Some (last (records_of rs k)))"
proof (induction rs m rule: pending.induct)
  case (2 r rs m)
  let ?m = "if type_of_code (jh_type (fst r)) = Some JE_close then nmap_del m (jh_id (fst r)) else nmap_set m (jh_id (fst r)) r"
  have s: "nmap_sorted ?m" using 2(2) by (simp add: nmap_set_sorted nmap_del_sorted)
  have v: "map_of ?m k = (if rid r = k then if is_close r then None else Some r else map_of m k)"
    using 2(2) by (auto simp: nmap_set_map_of nmap_del_map_of rid_def is_close_def)
  show ?case using 2(1) [OF s] v by (auto simp: records_of_def)
qed (simp add: records_of_def)

section \<open>What is replayed\<close>

definition entry_of_record :: "jrecord \<Rightarrow> journalEntry" where
  "entry_of_record r =
     (let h = fst r in
      \<lparr>je_id = jh_id h, je_type = the (type_of_code (jh_type h)), je_parentNode = jh_parentNode h,
       je_newNode = jh_newNode h, je_newParentNode = jh_newParentNode h, je_mod = jh_mod h, je_offset = jh_offset h,
       je_name = bytes_str (take (jh_nameLength h) (snd r)), je_data = drop (jh_nameLength h) (snd r)\<rparr>)"

text \<open>The record that a wrapper writes for an entry stands for that entry.\<close>

lemma entry_of_written:
  "entry_of_record (header_of_entry e, str_bytes (je_name e) @ je_data e) = e"
  by (simp add: entry_of_record_def header_of_entry_def str_bytes_def Let_def)
     (simp add: str_bytes_def [symmetric])

lemma content_entry:
  assumes "record_ok r" "length pad = 4"
  shows "entry_of_content (record_plain pad r) = Some (entry_of_record r)"
proof -
  obtain h d where r: "r = (h, d)" by (cases r)
  have ok: "jheader_ok h" "length d = jh_nameLength h + jh_dataLength h" using assms by (simp_all add: r record_ok_def)
  obtain ty where ty: "type_of_code (jh_type h) = Some ty" using ok(1) by (auto simp: jheader_ok_def)
  have l: "length (jheader_bytes pad h) = sizeof_entry" by (rule length_jheader [OF assms(2)])
  show ?thesis
    using ok(2) l by (simp add: entry_of_content_def r record_plain_def jheader_of_bytes [OF ok(1) assms(2)] ty
        entry_of_record_def Let_def)
qed

lemma nmap_set_values: "snd ` set (nmap_set m k v) \<subseteq> insert v (snd ` set m)"
  by (induction m k v rule: nmap_set.induct) auto

lemma nmap_del_values: "snd ` set (nmap_del m k) \<subseteq> snd ` set m"
  by (auto simp: nmap_del_def)

lemma pending_values: "snd ` set (pending rs m) \<subseteq> set rs \<union> snd ` set m"
proof (induction rs m rule: pending.induct)
  case (2 r rs m)
  show ?case
    using 2 nmap_set_values [of m "jh_id (fst r)" r] nmap_del_values [of m "jh_id (fst r)"]
    by (cases "type_of_code (jh_type (fst r)) = Some JE_close"; simp; blast)
qed simp

lemma replay_list_pending:
  assumes "length pad = 4" "\<forall>r \<in> set rs. record_ok r"
  shows "replay_list (log_plain pad rs) = Inr (map (\<lambda>(k, r). entry_of_record r) (pending rs []))"
proof -
  let ?cj = "log_plain pad rs"
  from collect_log [OF assms, of ?cj "[]" "[]" "[]"] obtain items
    where c: "collect_items ?cj 0 [] = Inr items" and p: "points_to pad ?cj items (pending rs [])"
    by (auto simp: points_to_def)
  have ok: "\<forall>r \<in> snd ` set (pending rs []). record_ok r" using pending_values [of rs "[]"] assms(2) by auto
  have filter: "List.map_filter (\<lambda>(_, x). entry_of_content x) (map (\<lambda>(k, v). (k, record_plain pad v)) m) =
      map (\<lambda>(k, r). entry_of_record r) m" if "\<forall>r \<in> snd ` set m. record_ok r" for m :: "(nat \<times> jrecord) list"
    using that content_entry [OF _ assms(1)] by (induction m) (auto simp: List.map_filter_simps)
  have "List.map_filter (\<lambda>(_, off, sz). entry_of_content (take sz (drop off ?cj))) items =
      List.map_filter (\<lambda>(_, x). entry_of_content x) (map (\<lambda>(k, v). (k, case v of (off, sz) \<Rightarrow> take sz (drop off ?cj))) items)"
    by (induction items) (auto simp: List.map_filter_simps split: option.splits)
  also have "\<dots> = List.map_filter (\<lambda>(_, x). entry_of_content x) (map (\<lambda>(k, v). (k, record_plain pad v)) (pending rs []))"
    using p by (simp add: points_to_def)
  also have "\<dots> = map (\<lambda>(k, r). entry_of_record r) (pending rs [])"
    by (rule filter [OF ok])
  finally show ?thesis by (simp add: replay_list_def c)
qed


lemma je_id_record [simp]: "je_id (entry_of_record r) = rid r"
  by (simp add: entry_of_record_def rid_def Let_def)

lemma pending_entries:
  "sorted_wrt (<) (map rid (map snd (pending rs []))) \<and>
   set (map snd (pending rs [])) = {r \<in> set rs. \<not> is_close r \<and> last (records_of rs (rid r)) = r}"
proof -
  have empty: "nmap_sorted ([] :: (nat \<times> jrecord) list)" by (simp add: nmap_sorted_def)
  note p = pending_map_of [OF empty, of rs]
  have srt: "nmap_sorted (pending rs [])" using p by blast
  have mo: "map_of (pending rs []) k = (if records_of rs k = [] then None
      else if is_close (last (records_of rs k)) then None else Some (last (records_of rs k)))" for k using p by simp
  have id: "rid (last (records_of rs k)) = k \<and> last (records_of rs k) \<in> set rs" if "records_of rs k \<noteq> []" for k
    using last_in_set [OF that] by (auto simp: records_of_def)
  have dist: "distinct (map fst (pending rs []))" using srt by (simp add: nmap_sorted_def strict_sorted_iff)
  have mem: "(k, r) \<in> set (pending rs []) \<longleftrightarrow> map_of (pending rs []) k = Some r" for k r
    using dist by simp
  have "rid r = k" if "(k, r) \<in> set (pending rs [])" for k r
  proof -
    have "map_of (pending rs []) k = Some r" using that mem by blast
    then show ?thesis using mo [of k] id [of k] by (auto split: if_splits)
  qed
  then have "map rid (map snd (pending rs [])) = map fst (pending rs [])" by auto
  then have "sorted_wrt (<) (map rid (map snd (pending rs [])))" using srt by (simp only: nmap_sorted_def)
  moreover have "set (map snd (pending rs [])) = {r \<in> set rs. \<not> is_close r \<and> last (records_of rs (rid r)) = r}"
  proof (intro set_eqI iffI)
    fix r assume "r \<in> set (map snd (pending rs []))"
    then obtain k where "map_of (pending rs []) k = Some r" using mem by auto
    then show "r \<in> {r \<in> set rs. \<not> is_close r \<and> last (records_of rs (rid r)) = r}"
      using mo [of k] id [of k] by (auto split: if_splits)
  next
    fix r assume r: "r \<in> {r \<in> set rs. \<not> is_close r \<and> last (records_of rs (rid r)) = r}"
    then have "records_of rs (rid r) \<noteq> []" by (auto simp: records_of_def filter_empty_conv)
    then have "map_of (pending rs []) (rid r) = Some r" using mo [of "rid r"] r by simp
    then have "(rid r, r) \<in> set (pending rs [])" using mem by blast
    then show "r \<in> set (map snd (pending rs []))" by (metis image_eqI list.set_map snd_conv)
  qed
  ultimately show ?thesis by blast
qed

lemma replayed_entries:
  assumes "length pad = 4" "\<forall>r \<in> set rs. record_ok r"
  shows "\<exists>es. replay_list (log_plain pad rs) = Inr es \<and> sorted_wrt (<) (map je_id es) \<and>
    set es = entry_of_record ` {r \<in> set rs. \<not> is_close r \<and> last (records_of rs (rid r)) = r}"
proof -
  let ?es = "map entry_of_record (map snd (pending rs []))"
  have "replay_list (log_plain pad rs) = Inr ?es"
    using replay_list_pending [OF assms] by (simp add: case_prod_unfold comp_def)
  moreover have "map je_id ?es = map rid (map snd (pending rs []))" by simp
  ultimately show ?thesis using pending_entries [of rs] by (metis set_map)
qed

text \<open>
  C29: What is replayed from the records of the journal are exactly the entries that were written
  and have no later record of their number, in particular no closing one, in increasing order of their
  numbers.
\<close>

theorem journal_replay_pending:
  assumes "length pad = 4" "\<forall>r \<in> set rs. record_ok r"
  shows "\<exists>es. replay_list (log_plain pad rs) = Inr es \<and> sorted_wrt (<) (map je_id es) \<and>
    set es = entry_of_record ` {r \<in> set rs. \<not> is_close r \<and> last (records_of rs (rid r)) = r}"
  by (rule replayed_entries [OF assms])

text \<open>
  The order in which the directory lists the journal files does not matter: when no number
  occurs in two files, which the numbering of entries ensures, the same entries are replayed in the same
  order.
\<close>

theorem journal_replay_file_order:
  assumes "length pad = 4" "\<forall>L \<in> set Ls. \<forall>r \<in> set L. record_ok r" "mset Ls = mset Ls'"
    and "\<forall>L \<in> set Ls. \<forall>M \<in> set Ls. \<forall>r \<in> set L. \<forall>s \<in> set M. rid r = rid s \<longrightarrow> L = M" "distinct Ls"
  shows "replay_list (log_plain pad (concat Ls)) = replay_list (log_plain pad (concat Ls'))"
proof -
  have sets: "set Ls = set Ls'" "distinct Ls'"
    using assms(3,5) mset_eq_setD mset_eq_imp_distinct_iff by blast+
  have one: "records_of (concat Xs) (rid r) = records_of L (rid r)"
    if "L \<in> set Xs" "r \<in> set L" "set Xs = set Ls" "distinct Xs" for Xs L r
  proof -
    have "records_of (concat Xs) (rid r) = concat (map (\<lambda>M. records_of M (rid r)) Xs)"
      by (simp add: records_of_def filter_concat)
    also have "\<dots> = concat (map (\<lambda>M. if M = L then records_of L (rid r) else []) Xs)"
      using assms(4) that by (intro arg_cong [of _ _ concat] map_cong) (auto simp: records_of_def filter_empty_conv)
    also have "\<dots> = records_of L (rid r)"
      using that(1,4) by (induction Xs) (auto simp: filter_empty_conv)
    finally show ?thesis .
  qed
  define keep where "keep Xs = {r \<in> set (concat Xs). \<not> is_close r \<and> last (records_of (concat Xs) (rid r)) = r}" for Xs
  have same: "records_of (concat Ls) (rid r) = records_of (concat Ls') (rid r)" if r: "r \<in> set (concat Ls)" for r
  proof -
    obtain L where "L \<in> set Ls" "r \<in> set L" using r unfolding set_concat by blast
    then have "records_of (concat Ls) (rid r) = records_of L (rid r)" "records_of (concat Ls') (rid r) = records_of L (rid r)"
      using one [OF _ _ refl assms(5)] one [OF _ _ sets(1) [symmetric] sets(2)] sets(1) by blast+
    then show ?thesis by simp
  qed
  moreover have "set (concat Ls) = set (concat Ls')" using sets by simp
  ultimately have "keep Ls = keep Ls'" unfolding keep_def by (intro Collect_cong) metis
  moreover obtain es where es: "replay_list (log_plain pad (concat Ls)) = Inr es" "sorted_wrt (<) (map je_id es)"
      "set es = entry_of_record ` keep Ls"
    using replayed_entries [OF assms(1), of "concat Ls"] assms(2) unfolding keep_def by auto
  moreover obtain es' where es': "replay_list (log_plain pad (concat Ls')) = Inr es'" "sorted_wrt (<) (map je_id es')"
      "set es' = entry_of_record ` keep Ls'"
    using replayed_entries [OF assms(1), of "concat Ls'"] assms(2) sets unfolding keep_def by auto
  moreover have "inj_on je_id (set es)" using es(2) by (simp add: strict_sorted_iff distinct_map)
  ultimately have "es = es'"
    by (intro map_sorted_distinct_set_unique [of je_id]) (simp_all add: strict_sorted_iff)
  then show ?thesis using es es' by simp
qed


section \<open>Files of the journal\<close>

text \<open>The file of index \<open>i\<close> is open and holds the records \<open>rs\<close>.\<close>

definition jfile_holds :: "jenv \<Rightarrow> jstate \<Rightarrow> nat \<Rightarrow> byte list \<Rightarrow> byte list \<Rightarrow> jrecord list \<Rightarrow> bool" where
  "jfile_holds J s i K hdr rs \<longleftrightarrow>
     i < length (js_files s) \<and> length hdr = so_streamheader (jv_sodium J) \<and>
     jf_stream (js_files s ! i) = \<lparr>sm_key = K, sm_header = hdr, sm_count = messages rs, sm_push = True\<rparr> \<and>
     js_disk s (jf_name (js_files s ! i)) = Some (hdr @ log_cipher (jv_sodium J) (jv_pad J) K hdr 0 rs)"

lemma wp_writeEntry:
  assumes "jfile_holds J s i K hdr rs"
  shows "wp (journalFile_writeEntry J i h d)
    (\<lambda>_ s'. jfile_holds J s' i K hdr (rs @ [(h, d)]) \<and> js_crypt s' = js_crypt s \<and>
       jf_name (js_files s' ! i) = jf_name (js_files s ! i)) s"
  using assms
  by (simp add: journalFile_writeEntry_def jfile_holds_def stream_message_def append_disk_def upd_jfile_def
      log_cipher_append) (simp add: messages_def)

text \<open>
  C32: The records written one after the other to a journal file are decrypted from its bytes as
  they were written.
\<close>

theorem journal_file_roundtrip:
  assumes J: "sodium_ok (jv_sodium J)" "length (jv_pad J) = 4"
    and k: "length (jv_protokey J) < 64" "so_streamkeybytes (jv_sodium J) \<le> length (jv_protokey J)"
    and s: "master_ready (js_crypt s)" "js_disk s name = None" and rs: "\<forall>r \<in> set rs. record_ok r"
  shows "wp (bindS (journalFile_new J name) (\<lambda>i. forS rs (\<lambda>(h, d). journalFile_writeEntry J i h d)))
    (\<lambda>_ s'. \<exists>bs. js_disk s' name = Some bs \<and>
       wp (read_journal_file J bs) (\<lambda>x c. x = log_plain (jv_pad J) rs \<and> c = js_crypt s') (js_crypt s')) s"
proof -
  let ?S = "jv_sodium J" and ?c = "js_crypt s"
  let ?K = "key_bytes ?c (jv_protokey J)" and ?h = "so_random ?S (cr_draws ?c) (so_streamheader ?S)"
  let ?c1 = "?c\<lparr>cr_draws := Suc (cr_draws ?c)\<rparr>"
  have lh: "length ?h = so_streamheader ?S" using sodium_okD(1) [OF J(1)] by simp
  have loop: "wp (forS xs (\<lambda>(h, d). journalFile_writeEntry J i h d))
     (\<lambda>_ s'. jfile_holds J s' i ?K ?h (ys @ xs) \<and> js_crypt s' = js_crypt u \<and>
        jf_name (js_files s' ! i) = jf_name (js_files u ! i)) u"
    if "jfile_holds J u i ?K ?h ys" for u i ys xs
    using that
  proof (induction xs arbitrary: u ys)
    case (Cons x xs)
    obtain h d where x: "x = (h, d)" by (cases x)
    show ?case
      unfolding forS.simps x prod.case wp_bind
      by (rule wp_mono [OF wp_writeEntry [OF Cons.prems]], elim conjE, rule wp_mono [OF Cons.IH]) auto
  qed simp
  have new: "wp (journalFile_new J name) (\<lambda>i s'. jfile_holds J s' i ?K ?h [] \<and> js_crypt s' = ?c1 \<and>
      jf_name (js_files s' ! i) = name) s"
    using s k lh
    by (simp add: journalFile_new_def in_crypt_def startStreamWrite_def key_size_def wp_keys append_disk_def
        jfile_holds_def messages_def)
  have fin: "wp (read_journal_file J (?h @ log_cipher ?S (jv_pad J) ?K ?h 0 rs))
      (\<lambda>x c. x = log_plain (jv_pad J) rs \<and> c = ?c1) ?c1"
    using s(1) k lh read_log [OF J rs, of ?K ?h 0 "[]"]
    by (simp add: read_journal_file_def startStreamRead_def key_size_def stream_headerSize_def wp_keys Let_def
        read_records_Nil)
  show ?thesis
    unfolding wp_bind
    by (rule wp_mono [OF new], elim conjE, rule wp_mono [OF loop], assumption)
       (use fin in \<open>auto simp: jfile_holds_def\<close>)
qed

section \<open>Witnesses\<close>

definition sample_entry :: "nat \<Rightarrow> journalEntry" where
  "sample_entry i = \<lparr>je_id = i, je_type = JE_unlink, je_parentNode = 256, je_newNode = 300, je_newParentNode = 0,
     je_mod = 0, je_offset = 1, je_name = ''/a'', je_data = []\<rparr>"

definition sample_record :: "nat \<Rightarrow> jrecord" where
  "sample_record i = (header_of_entry (sample_entry i), str_bytes ''/a'')"

definition sample_close :: "nat \<Rightarrow> jrecord" where "sample_close i = (close_header i, [])"

definition sample_jenv :: jenv where
  "sample_jenv = \<lparr>jv_sodium = ones_sodium, jv_protokey = replicate 32 5, jv_path = ''/s/'', jv_pad = [0, 0, 0, 0]\<rparr>"

definition sample_jstate :: jstate where
  "sample_jstate = \<lparr>js_next = 0, js_files = [], js_current = (\<lambda>_. None), js_disk = (\<lambda>_. None),
     js_crypt = sample_crypt\<rparr>"

lemma sample_record_ok: "i < 2 ^ 32 \<Longrightarrow> record_ok (sample_record i)" "i < 2 ^ 32 \<Longrightarrow> record_ok (sample_close i)"
  by (simp_all add: record_ok_def sample_record_def sample_close_def close_header_def header_of_entry_def
      sample_entry_def jheader_ok_def type_of_code_def str_bytes_def)

lemma sample_rid: "rid (sample_record i) = i" "rid (sample_close i) = i" "\<not> is_close (sample_record i)"
    "is_close (sample_close i)"
  by (simp_all add: rid_def is_close_def sample_record_def sample_close_def close_header_def header_of_entry_def
      sample_entry_def type_of_code_def)

lemma sample_jenv_ok: "sodium_ok (jv_sodium sample_jenv)" "length (jv_pad sample_jenv) = 4"
    "length (jv_protokey sample_jenv) < 64" "so_streamkeybytes (jv_sodium sample_jenv) \<le> length (jv_protokey sample_jenv)"
    "master_ready (js_crypt sample_jstate)"
  using sample_oks by (simp_all add: sample_jenv_def sample_jstate_def ones_sodium_def sample_sodium_def)

theorem journal_replay_pending_witness:
  "\<exists>es. replay_list (log_plain [0, 0, 0, 0] [sample_record 7, sample_record 3, sample_close 7]) = Inr es \<and>
     map je_id es = [3]"
proof -
  have ok: "\<forall>r \<in> set [sample_record 7, sample_record 3, sample_close 7]. record_ok r" using sample_record_ok by simp
  have ne: "sample_record i \<noteq> sample_close j" for i j using sample_rid by metis
  have "{r \<in> set [sample_record 7, sample_record 3, sample_close 7]. \<not> is_close r \<and>
      last (records_of [sample_record 7, sample_record 3, sample_close 7] (rid r)) = r} = {sample_record 3}"
    unfolding set_filter [symmetric] using ne [of 7 7] by (simp add: records_of_def sample_rid)
  with journal_replay_pending [OF _ ok, of "[0, 0, 0, 0]"] obtain es
    where es: "replay_list (log_plain [0, 0, 0, 0] [sample_record 7, sample_record 3, sample_close 7]) = Inr es"
      "sorted_wrt (<) (map je_id es)" "set es = {entry_of_record (sample_record 3)}" by auto
  have "set (map je_id es) = {3}" using es(3) sample_rid by simp
  moreover have "distinct (map je_id es)" using es(2) strict_sorted_iff by blast
  moreover have "xs = [3]" if "set xs = {3}" "distinct xs" for xs :: "nat list"
  proof -
    have "length xs = 1" using distinct_card [OF that(2)] that(1) by simp
    then show ?thesis using that(1) by (cases xs) auto
  qed
  ultimately have "map je_id es = [3]" by blast
  then show ?thesis using es(1) by auto
qed

theorem journal_replay_file_order_witness:
  "replay_list (log_plain [0, 0, 0, 0] (concat [[sample_record 7], [sample_record 3]])) =
   replay_list (log_plain [0, 0, 0, 0] (concat [[sample_record 3], [sample_record 7]]))"
proof -
  have "rid (sample_record 7) \<noteq> rid (sample_record 3)" by (simp add: sample_rid)
  then have "sample_record 7 \<noteq> sample_record 3" by metis
  then show ?thesis
    by (intro journal_replay_file_order) (auto simp: sample_record_ok sample_rid)
qed

theorem journal_file_roundtrip_witness:
  "wp (bindS (journalFile_new sample_jenv ''/s/journal/.1'')
        (\<lambda>i. forS [sample_record 7, sample_close 7] (\<lambda>(h, d). journalFile_writeEntry sample_jenv i h d)))
     (\<lambda>_ s'. \<exists>bs. js_disk s' ''/s/journal/.1'' = Some bs \<and>
        wp (read_journal_file sample_jenv bs)
           (\<lambda>x c. x = log_plain (jv_pad sample_jenv) [sample_record 7, sample_close 7] \<and> c = js_crypt s') (js_crypt s'))
     sample_jstate"
  by (rule journal_file_roundtrip [OF sample_jenv_ok]) (simp_all add: sample_jstate_def sample_record_ok)

end
