(* ===== verification/Fs_Mount.thy ===== *)
theory Fs_Mount
  imports Fs_Ops Journal Protocol_Props
begin

text \<open>
  Mounting and unmounting (\<^verbatim>\<open>initFileSystem\<close>, \<^verbatim>\<open>storeMetadata\<close>,
  \<^verbatim>\<open>migrate\<close> and the destructor in \<^verbatim>\<open>src/src/modules/filesystem/fs.cpp\<close>,
  \<^verbatim>\<open>bucketInfo::loadBuckets\<close> for the meta buckets in \<^verbatim>\<open>storage.cpp\<close>,
  \<^verbatim>\<open>journal::tryReplay\<close>): the program's state is the file system, the journal files with the
  state of the crypto library, and the protocol. The meta buckets are the table of slots of \<open>Fs_State\<close>, which stays as
  it is over a mount; the theories \<open>Meta_Buckets\<close> to \<open>Meta_Mount\<close> model them with their caches and files and
  refine the table. The lock file of \<^verbatim>\<open>initStorage\<close> is left out.
\<close>

record prog =
  pg_fs :: fsys
  pg_js :: jstate
  pg_prot :: protocol
  pg_up :: bool

type_synonym 'a prog_op = "(prog, 'a) op"

text \<open>What stays the same while the program runs.\<close>

record penv =
  pv_sodium :: sodium
  pv_world :: world
  pv_path :: string
  pv_pad :: "byte list"

definition in_fs :: "'a fs_op \<Rightarrow> 'a prog_op" where
  "in_fs = zoomS pg_fs (\<lambda>t g. g\<lparr>pg_fs := t\<rparr>)"

definition in_js :: "'a journal_op \<Rightarrow> 'a prog_op" where
  "in_js = zoomS pg_js (\<lambda>s g. g\<lparr>pg_js := s\<rparr>)"

definition in_cr :: "'a crypt_op \<Rightarrow> 'a prog_op" where
  "in_cr m = in_js (in_crypt m)"

text \<open>The storage environment that the protocol gives at this moment, with its present key.\<close>

definition prog_world :: "penv \<Rightarrow> prog \<Rightarrow> world" where
  "prog_world P g =
     (pv_world P)\<lparr>w_env := protocol_env (pv_sodium P) (pg_prot g) (js_crypt (pg_js g)) (pv_path P)\<rparr>"

definition with_world :: "penv \<Rightarrow> (world \<Rightarrow> 'a fs_op) \<Rightarrow> 'a prog_op" where
  "with_world P m = (\<lambda>g. in_fs (m (prog_world P g)) g)"

abbreviation pv_fpu :: "penv \<Rightarrow> fpu" where "pv_fpu P \<equiv> w_fpu (pv_world P)"

definition fs_metaIndex :: bucketIndex_t where "fs_metaIndex = bucketIndex 1 1"

section \<open>Meta buckets\<close>

text \<open>
  One slot of \<^verbatim>\<open>loadHashesFromBucket\<close>: whether it is free and has to be posted. The meta buckets are
  in memory here, so that nothing of it throws.
\<close>

definition meta_load_slot :: "nat \<Rightarrow> nat \<Rightarrow> bool fs_op" where
  "meta_load_slot b a =
     bindS (getS (\<lambda>t. fs_slotHash t (bucketIndex b a))) (\<lambda>hsh.
     if hsh then
       bindS (meta_getChunk (bucketIndex b a)) (\<lambda>c.
       getS (\<lambda>t. fs_chunks t ! c = MNone))
     else returnS True)"

fun meta_load_slots :: "(nat \<times> nat) list \<Rightarrow> bucketIndex_t list fs_op" where
  "meta_load_slots [] = returnS []"
| "meta_load_slots ((b, a) # xs) =
     bindS (meta_getBucket b) (\<lambda>_.
     bindS (meta_load_slot b a) (\<lambda>post.
     bindS (meta_load_slots xs) (\<lambda>r.
     returnS (if post then bucketIndex b a # r else r))))"

definition meta_loadBuckets :: "nat list \<Rightarrow> unit fs_op" where
  "meta_loadBuckets ids =
     bindS (meta_load_slots (List.product ids [0..<chunksInBucket])) (\<lambda>postList.
     bindS (modifyS (\<lambda>t. t\<lparr>fs_metaAcc := acc_new (sorted_list_of_set (set ids))\<rparr>)) (\<lambda>_.
     forS (rev postList) meta_post))"

text \<open>The numbers in a list of buckets of the metadata.\<close>

definition json_numbers :: "fpu \<Rightarrow> json \<Rightarrow> string \<Rightarrow> nat list res" where
  "json_numbers F j name =
     (let (l, j1) = json_getSize j name in
      bindR (json_get_int F j1 name 0 l) (\<lambda>(_, j2).
      bindR (lv_int_vec F (json_value j2 name)) (\<lambda>xs. Inr (take l (map nat64_of xs)))))"

section \<open>Storing the metadata\<close>

text \<open>
  The loop stores the two lists of buckets until doing so loads no further meta bucket. \<open>k\<close> is its fuel.
\<close>

fun store_lists :: "world \<Rightarrow> nat \<Rightarrow> unit fs_op" where
  "store_lists W 0 = raiseS Hang"
| "store_lists W (Suc k) =
     bindS (getS (\<lambda>t. length (fs_metaLoaded t))) (\<lambda>oldSize.
     bindS (getS fs_rootFile) (\<lambda>root.
     bindS (getS (\<lambda>t. sorted_list_of_set (set (bucketsInUse (fs_metaAcc t))))) (\<lambda>ml.
     bindS (file_setMetaProperty W root ''metaBuckets'' ml) (\<lambda>_.
     bindS (getS (\<lambda>t. sorted_list_of_set (set (bucketsInUse (st_acc (fs_stor t)))))) (\<lambda>bl.
     bindS (file_setMetaProperty W root ''buckets'' bl) (\<lambda>_.
     bindS (file_storeMetaProperties W root) (\<lambda>_.
     bindS (getS (\<lambda>t. length (fs_metaLoaded t))) (\<lambda>newSize.
     if oldSize = newSize then returnS () else store_lists W k))))))))"

definition fs_storeMetadata :: "world \<Rightarrow> nat \<Rightarrow> unit fs_op" where
  "fs_storeMetadata W k =
     catchS
       (bindS (store_lists W k) (\<lambda>_. in_stor (storeAllData (w_env W))))
       (\<lambda>_. returnS ())"

text \<open>The detached thread that \<^verbatim>\<open>unloadBuckets\<close> starts, once it has waited.\<close>

definition unload_thread :: "world \<Rightarrow> nat \<Rightarrow> unit fs_op" where
  "unload_thread W k =
     bindS (modifyS (\<lambda>t. t\<lparr>fs_unloads := fs_unloads t - 1\<rparr>)) (\<lambda>_. fs_storeMetadata W k)"

section \<open>Replaying the journal\<close>

definition root_context :: fs_context where
  "root_context = \<lparr>ctx_uid = 0, ctx_gid = 0, ctx_gids = {}\<rparr>"

definition journal_env :: "penv \<Rightarrow> prog \<Rightarrow> jenv" where
  "journal_env P g =
     \<lparr>jv_sodium = pv_sodium P, jv_protokey = the (p_protokey (pg_prot g)), jv_path = pv_path P, jv_pad = pv_pad P\<rparr>"

text \<open>An error of an entry is only reported.\<close>

definition replay_entry :: "penv \<Rightarrow> journalEntry \<Rightarrow> unit prog_op" where
  "replay_entry P e =
     bindS (with_world P (\<lambda>W. fs_replayEntry W e (je_name e) (je_data e) root_context None)) (\<lambda>_. returnS ())"

definition tryReplay :: "penv \<Rightarrow> string list \<Rightarrow> unit prog_op" where
  "tryReplay P files =
     bindS (\<lambda>g. in_js (read_all_files (journal_env P g) files) g) (\<lambda>completeJournal.
     bindS (liftS (replay_list completeJournal)) (\<lambda>es.
     bindS (forS es (replay_entry P)) (\<lambda>_.
     in_js (remove_files files))))"

section \<open>Mounting\<close>

definition prot_step :: "(protocol \<Rightarrow> protocol crypt_op) \<Rightarrow> unit prog_op" where
  "prot_step m =
     bindS (getS pg_prot) (\<lambda>p. bindS (in_cr (m p)) (\<lambda>p'. modifyS (\<lambda>g. g\<lparr>pg_prot := p'\<rparr>)))"

text \<open>The text that a new file system keeps in its metadata chunk.\<close>

definition new_metaInfo :: "penv \<Rightarrow> json prog_op" where
  "new_metaInfo P =
     bindS (liftS (json_set_int (pv_fpu P) make_json ''metaBuckets'' 0 1)) (\<lambda>m1.
     bindS (liftS (json_set_int (pv_fpu P) m1 ''buckets'' 0 1)) (\<lambda>m2.
     bindS (liftS (json_sub m2 ''encryptionKey'')) (\<lambda>(node, m3).
     bindS (getS pg_prot) (\<lambda>p.
     bindS (in_cr (storeEncryptionKeyToBlock (pv_sodium P) (pv_fpu P) p node)) (\<lambda>node'.
     liftS (json_set_obj m3 ''encryptionKey'' node'))))))"

definition fs_create :: "penv \<Rightarrow> json prog_op" where
  "fs_create P =
     bindS (prot_step (regenerateEncryptionKey (pv_sodium P))) (\<lambda>_.
     bindS (in_fs new_metachunk) (\<lambda>rootChunk.
     bindS (in_fs new_metachunk) (\<lambda>metaChunk.
     bindS (in_fs (setFileDefaults (pv_world P) rootChunk (0x1FF OR mode_TYPE_DIR) None)) (\<lambda>_.
     bindS (in_fs (upd_inode rootChunk (\<lambda>n. n\<lparr>in_myID := fs_rootIndex\<rparr>))) (\<lambda>_.
     bindS (in_fs (upd_inode rootChunk (\<lambda>n. n\<lparr>in_metaID := fs_metaIndex\<rparr>))) (\<lambda>_.
     bindS (in_fs (upd_ctd metaChunk (\<lambda>n. n\<lparr>ct_myID := fs_metaIndex\<rparr>))) (\<lambda>_.
     bindS (new_metaInfo P) (\<lambda>metaInfo.
     let metaString = json_serialize (pv_fpu P) 0 metaInfo in
     bindS (assertS (length metaString < ctd_charSize)) (\<lambda>_.
     bindS (in_fs (upd_inode rootChunk (\<lambda>n. n\<lparr>in_metasize := length metaString\<rparr>))) (\<lambda>_.
     bindS (in_fs (upd_ctd metaChunk (\<lambda>n. n\<lparr>ct_content := list_splice (ct_content n) 0 (str_bytes metaString)\<rparr>))) (\<lambda>_.
     bindS (in_fs (storeInode rootChunk)) (\<lambda>_.
     bindS (in_fs (storeInode metaChunk)) (\<lambda>_.
     bindS (with_world P (\<lambda>W. in_stor (inBucket (w_env W) 1 (bucket_store (w_env W) False)))) (\<lambda>_.
     returnS metaInfo))))))))))))))"

text \<open>The metadata of the root node; \<open>None\<close> when it cannot be read.\<close>

definition load_metaInfo :: "penv \<Rightarrow> cid \<Rightarrow> json \<Rightarrow> json option prog_op" where
  "load_metaInfo P rootChunk metaInfo =
     catchS
       (bindS (in_fs (loadMetaDataFromINode rootChunk)) (\<lambda>metaString.
        bindS (assertS (length metaString > 0)) (\<lambda>_.
        bindS (liftS (json_unserialize (pv_fpu P) metaInfo metaString)) (\<lambda>j. returnS (Some j)))))
       (\<lambda>_. returnS None)"

definition load_key :: "penv \<Rightarrow> json \<Rightarrow> unit prog_op" where
  "load_key P metaInfo =
     bindS (liftS (json_sub metaInfo ''encryptionKey'')) (\<lambda>(node, _).
     bindS (getS pg_prot) (\<lambda>p.
     bindS (in_cr (loadEncryptionKeyFromBlock (pv_sodium P) (pv_fpu P) p node)) (\<lambda>(ok, p').
     bindS (assertS ok) (\<lambda>_.
     bindS (modifyS (\<lambda>g. g\<lparr>pg_prot := p'\<rparr>)) (\<lambda>_. assertS (p_key p' \<noteq> None))))))"

text \<open>From the loaded key on: the zero hash, the buckets, the root and the error file.\<close>

definition load_buckets :: "penv \<Rightarrow> json \<Rightarrow> unit prog_op" where
  "load_buckets P metaInfo =
     bindS (with_world P (\<lambda>W. in_stor (inBucket (w_env W) (bucket_of fs_rootIndex)
        (putHashAndChunk (w_env W) (index_of fs_rootIndex) (Some zeroHash) zero_chunk)))) (\<lambda>_.
     bindS (liftS (json_numbers (pv_fpu P) metaInfo ''metaBuckets'')) (\<lambda>ml.
     bindS (in_fs (meta_loadBuckets ml)) (\<lambda>_.
     bindS (liftS (json_numbers (pv_fpu P) metaInfo ''buckets'')) (\<lambda>bl.
     with_world P (\<lambda>W. in_stor (loadBuckets (w_env W) bl))))))"

definition load_root :: "penv \<Rightarrow> cid \<Rightarrow> unit prog_op" where
  "load_root P rootChunk =
     bindS (with_world P (\<lambda>W. file_new W rootChunk ''/'' [])) (\<lambda>root.
     bindS (in_fs (modifyS (\<lambda>t. t\<lparr>fs_rootFile := root,
        fs_inodeCache := umap_insert (fs_inodeCache t) fs_rootIndex root,
        fs_pathCache := umap_insert (fs_pathCache t) ''/'' fs_rootIndex\<rparr>))) (\<lambda>_.
     bindS (in_fs new_metachunk) (\<lambda>c.
     bindS (with_world P (\<lambda>W. file_new W c [] [])) (\<lambda>bad.
     bindS (in_fs (file_setSpecialFile bad SF_ERROR)) (\<lambda>_.
     bindS (in_fs (modifyS (\<lambda>t. t\<lparr>fs_errorFile := bad\<rparr>))) (\<lambda>_.
     bindS (in_fs (file_isSpecial bad)) assertS))))))"

definition initFileSystem :: "penv \<Rightarrow> string list \<Rightarrow> bool \<Rightarrow> bool prog_op" where
  "initFileSystem P journalFiles mustCreate =
     bindS (in_fs (modifyS (\<lambda>t. t\<lparr>fs_stor := (fs_stor t)\<lparr>st_index :=
        umap_insert (st_index (fs_stor t)) (so_sha256 (pv_sodium P) zero_chunk) zeroHash\<rparr>\<rparr>))) (\<lambda>_.
     bindS (in_fs (meta_getBucket 1)) (\<lambda>_.
     bindS (in_fs (getS (\<lambda>t. fs_slotHash t (bucketIndex 1 0)))) (\<lambda>foundFileSystem.
     if mustCreate = foundFileSystem then returnS False
     else
       bindS (if mustCreate then fs_create P else returnS make_json) (\<lambda>metaInfo0.
       bindS (in_fs (inoToChunk fs_rootIndex)) (\<lambda>rootChunk.
       bindS (load_metaInfo P rootChunk metaInfo0) (\<lambda>r.
       case r of None \<Rightarrow> returnS False
       | Some metaInfo \<Rightarrow>
           bindS (load_key P metaInfo) (\<lambda>_.
           bindS (load_buckets P metaInfo) (\<lambda>_.
           bindS (load_root P rootChunk) (\<lambda>_.
           bindS (tryReplay P journalFiles) (\<lambda>_.
           bindS (modifyS (\<lambda>g. g\<lparr>pg_up := True\<rparr>)) (\<lambda>_. returnS True)))))))))))"

section \<open>Migrating and unmounting\<close>

definition fs_migrate :: "penv \<Rightarrow> protocol \<Rightarrow> unit prog_op" where
  "fs_migrate P newProtocol =
     bindS (assertS (p_protokey newProtocol \<noteq> None)) (\<lambda>_.
     bindS (in_cr (regenerateEncryptionKey (pv_sodium P) newProtocol)) (\<lambda>np.
     bindS (assertS (p_key np \<noteq> None)) (\<lambda>_.
     bindS (in_cr (storeEncryptionKeyToBlock (pv_sodium P) (pv_fpu P) np make_json)) (\<lambda>key.
     bindS (in_fs (getS fs_rootFile)) (\<lambda>root.
     bindS (in_fs (file_setMetaProperty_obj root ''encryptionKey'' key)) (\<lambda>_.
     bindS (with_world P (\<lambda>W. file_storeMetaProperties W root)) (\<lambda>_.
     bindS (in_fs (file_rest root)) (\<lambda>_.
     bindS (getS (\<lambda>g. protocol_env (pv_sodium P) np (js_crypt (pg_js g)) (pv_path P))) (\<lambda>E'.
     bindS (with_world P (\<lambda>W. in_stor (storage_migrate (w_env W) E'))) (\<lambda>_.
     modifyS (\<lambda>g. g\<lparr>pg_prot := np\<rparr>)))))))))))"

fun rest_handles :: "fid option list \<Rightarrow> unit fs_op" where
  "rest_handles [] = returnS ()"
| "rest_handles (h # hs) =
     bindS (case h of None \<Rightarrow> returnS () | Some f \<Rightarrow> bindS (file_rest f) (\<lambda>_. returnS ())) (\<lambda>_. rest_handles hs)"

text \<open>The destructor of \<^verbatim>\<open>fs\<close>, after the changes that are under way have ended.\<close>

definition fs_destroy :: "penv \<Rightarrow> nat \<Rightarrow> unit prog_op" where
  "fs_destroy P k =
     bindS (in_fs (getS fs_rootFile)) (\<lambda>root.
     bindS (in_fs (file_rest root)) (\<lambda>_.
     bindS (in_fs (modifyS (\<lambda>t. t\<lparr>fs_inodeCache := umap_empty, fs_pathCache := umap_empty\<rparr>))) (\<lambda>_.
     bindS (in_fs (bindS (getS fs_handles) rest_handles)) (\<lambda>_.
     bindS (in_fs (modifyS (\<lambda>t. t\<lparr>fs_handles := replicate maxOpenFiles None\<rparr>))) (\<lambda>_.
     bindS (getS pg_up) (\<lambda>up. whenS up (with_world P (\<lambda>W. fs_storeMetadata W k))))))))"

end
