(* ===== verification/Fuse.thy ===== *)
theory Fuse
  imports Fs_Ops
begin

text \<open>
  The callbacks of \<^verbatim>\<open>src/src/fuse_main.cpp\<close>: each translates a request of FUSE into calls of
  the file system and the outcome into a return value, zero or a count on success and a negative errno
  otherwise. The caller's identity, as \<^verbatim>\<open>fuse_get_context\<close> and \<^verbatim>\<open>fuse_getgroups\<close> give
  it, is a parameter.
\<close>

section \<open>Requests\<close>

text \<open>\<open>fr_groups\<close>: the groups of the calling process, or \<open>None\<close> when they cannot be had.\<close>

record fuse_request =
  fr_uid :: my_uid_t
  fr_gid :: my_gid_t
  fr_groups :: "my_gid_t list option"

definition EACCES :: int where "EACCES = 13"
definition ENOENT :: int where "ENOENT = 2"
definition ENOSYS :: int where "ENOSYS = 38"

definition O_WRONLY :: u32 where "O_WRONLY = 1"
definition O_RDWR :: u32 where "O_RDWR = 2"
definition O_TRUNC :: u32 where "O_TRUNC = 0x200"

definition error_to_fuse :: "EE \<Rightarrow> int" where
  "error_to_fuse e = - error_int e"

text \<open>The buffer has 64 places; the library returns the number of groups, which may be larger.\<close>

definition getContext :: "fuse_request \<Rightarrow> bool \<Rightarrow> fs_context fs_op" where
  "getContext r getGroups =
     (let c = \<lparr>ctx_uid = fr_uid r, ctx_gid = fr_gid r, ctx_gids = {}\<rparr> in
      if getGroups then
        (case fr_groups r of
           None \<Rightarrow> returnS c
         | Some gs \<Rightarrow> if length gs > 64 then raiseS Undefined else returnS (c\<lparr>ctx_gids := set gs\<rparr>))
      else returnS c)"

definition flagsToAccess :: "u32 \<Rightarrow> access" where
  "flagsToAccess flags =
     (if flags AND O_RDWR = O_RDWR then ARW
      else if flags AND O_WRONLY = O_WRONLY then AW
      else if flags AND O_TRUNC = O_TRUNC then ARW
      else AR)"

text \<open>An error code as the value of a callback.\<close>

definition result_of :: "EE \<Rightarrow> int" where
  "result_of e = (if error_bool e then error_to_fuse e else 0)"

section \<open>Attributes\<close>

record stat_buf =
  st_stat :: file_stat
  st_nlink :: int
  st_blocks :: nat
  st_blksize :: nat

definition getattr_callback :: "world \<Rightarrow> fuse_request \<Rightarrow> string \<Rightarrow> (int \<times> stat_buf option) fs_op" where
  "getattr_callback W r path =
     bindS (fs_get_err W path 0) (\<lambda>(F, errCode).
     bindS (file_valid F) (\<lambda>v.
     if v then
       bindS (getContext r False) (\<lambda>ctx.
       bindS (validate_access W F ctx ANONE AX False) (\<lambda>ok.
       if \<not> ok then returnS (- EACCES, None)
       else
         bindS (file_loadStat F) (\<lambda>s.
         bindS (file_getNumLinks F) (\<lambda>n.
         returnS (0, Some \<lparr>st_stat = s, st_nlink = n, st_blocks = s_size s div 4096, st_blksize = 4096\<rparr>)))))
     else
       returnS (case errCode of
                  Some e \<Rightarrow> if error_bool e then (error_to_fuse e, None) else (- ENOENT, None)
                | None \<Rightarrow> (- ENOENT, None))))"

definition chmod_callback :: "world \<Rightarrow> fuse_request \<Rightarrow> string \<Rightarrow> my_mode_t \<Rightarrow> int fs_op" where
  "chmod_callback W r path md =
     bindS (getContext r False) (\<lambda>ctx.
     bindS (fs_get W path) (\<lambda>f.
     bindS (file_chmod W f md ctx) (\<lambda>e. returnS (result_of e))))"

definition chown_callback :: "world \<Rightarrow> fuse_request \<Rightarrow> string \<Rightarrow> my_uid_t \<Rightarrow> my_gid_t \<Rightarrow> int fs_op" where
  "chown_callback W r path uid gid =
     bindS (getContext r True) (\<lambda>ctx.
     bindS (fs_get W path) (\<lambda>f.
     bindS (file_chown W f uid gid ctx) (\<lambda>e. returnS (result_of e))))"

definition utimens_callback :: "world \<Rightarrow> string \<Rightarrow> timeHolder \<Rightarrow> timeHolder \<Rightarrow> int fs_op" where
  "utimens_callback W path a m =
     bindS (fs_get W path) (\<lambda>f.
     bindS (file_setTimes f a m) (\<lambda>ok. returnS (if ok then 0 else - ENOENT)))"

definition truncate_callback :: "world \<Rightarrow> fuse_request \<Rightarrow> string \<Rightarrow> nat \<Rightarrow> int fs_op" where
  "truncate_callback W r path newSize =
     bindS (fs_get W path) (\<lambda>F.
     bindS (file_valid F) (\<lambda>v.
     if v then
       bindS (getContext r False) (\<lambda>ctx.
       bindS (validate_access W F ctx AW ANONE False) (\<lambda>ok.
       if \<not> ok then returnS (- EACCES)
       else bindS (file_truncate W F newSize) (\<lambda>e. returnS (result_of e))))
     else returnS (- ENOENT)))"

definition ftruncate_callback :: "world \<Rightarrow> fuse_request \<Rightarrow> string \<Rightarrow> nat \<Rightarrow> int fs_op" where
  "ftruncate_callback W r path newSize = truncate_callback W r path newSize"

section \<open>Directories\<close>

text \<open>The names that \<^verbatim>\<open>filler\<close> is called with; an entry counts when its node number is positive.\<close>

fun list_names :: "fpu \<Rightarrow> (string \<times> lvariant) list \<Rightarrow> string list res" where
  "list_names F [] = Inr []"
| "list_names F ((k, v) # m) =
     bindR (lv_int_vec F v) (\<lambda>xs.
     bindR (list_names F m) (\<lambda>ns. Inr (if hd (vec_grow xs 1 0) > 0 then k # ns else ns)))"

definition readdir_callback :: "world \<Rightarrow> string \<Rightarrow> (int \<times> string list) fs_op" where
  "readdir_callback W path =
     bindS (fs_get W path) (\<lambda>D.
     bindS (file_valid D) (\<lambda>v.
     bindS (if v then file_requireType D FT_DIR else returnS False) (\<lambda>dir.
     if dir then
       bindS (readDirectoryContent W D) (\<lambda>r.
       case r of None \<Rightarrow> returnS (- ENOENT, [''.'', ''..''])
       | Some meta \<Rightarrow>
           bindS (liftS (list_names (w_fpu W) (jvalues meta))) (\<lambda>ns. returnS (0, [''.'', ''..''] @ ns)))
     else returnS (0, []))))"

definition mkdir_callback :: "world \<Rightarrow> fuse_request \<Rightarrow> string \<Rightarrow> my_mode_t \<Rightarrow> int fs_op" where
  "mkdir_callback W r path md =
     bindS (getContext r False) (\<lambda>ctx. bindS (fs_mkdir W path md ctx) (\<lambda>e. returnS (result_of e)))"

definition mknod_callback :: "world \<Rightarrow> fuse_request \<Rightarrow> string \<Rightarrow> my_mode_t \<Rightarrow> int fs_op" where
  "mknod_callback W r path md =
     bindS (getContext r False) (\<lambda>ctx. bindS (fs_mknod W path md ctx) (\<lambda>e. returnS (result_of e)))"

definition unlink_callback :: "world \<Rightarrow> fuse_request \<Rightarrow> string \<Rightarrow> int fs_op" where
  "unlink_callback W r path =
     bindS (getContext r False) (\<lambda>ctx. bindS (fs_unlink W path ctx) (\<lambda>e. returnS (result_of e)))"

definition symlink_callback :: "world \<Rightarrow> fuse_request \<Rightarrow> string \<Rightarrow> string \<Rightarrow> int fs_op" where
  "symlink_callback W r path b =
     bindS (getContext r False) (\<lambda>ctx. bindS (fs_softlink W path b ctx) (\<lambda>e. returnS (result_of e)))"

definition link_callback :: "world \<Rightarrow> fuse_request \<Rightarrow> string \<Rightarrow> string \<Rightarrow> int fs_op" where
  "link_callback W r path b =
     bindS (getContext r False) (\<lambda>ctx. bindS (fs_hardlink W path b ctx) (\<lambda>e. returnS (result_of e)))"

definition rename_callback :: "world \<Rightarrow> fuse_request \<Rightarrow> string \<Rightarrow> string \<Rightarrow> int fs_op" where
  "rename_callback W r path dst =
     bindS (getContext r False) (\<lambda>ctx. bindS (fs_renamemove W path dst ctx) (\<lambda>e. returnS (result_of e)))"

definition readlink_callback :: "world \<Rightarrow> string \<Rightarrow> nat \<Rightarrow> (int \<times> byte list) fs_op" where
  "readlink_callback W path bufferSize =
     bindS (fs_get W path) (\<lambda>F.
     bindS (file_valid F) (\<lambda>v.
     bindS (if v then file_readlnk W F bufferSize else returnS None) (\<lambda>r.
     returnS (case r of Some bs \<Rightarrow> (0, bs) | None \<Rightarrow> (- ENOENT, [])))))"

section \<open>Open files\<close>

text \<open>The value and what \<^verbatim>\<open>fi->fh\<close> holds afterwards.\<close>

definition open_callback :: "world \<Rightarrow> fuse_request \<Rightarrow> string \<Rightarrow> u32 \<Rightarrow> (int \<times> nat option) fs_op" where
  "open_callback W r path flags =
     bindS (fs_get W path) (\<lambda>F.
     bindS (getContext r False) (\<lambda>ctx.
     bindS (validate_access W F ctx (flagsToAccess flags) ANONE False) (\<lambda>ok.
     if \<not> ok then returnS (- EACCES, None)
     else
       bindS (file_valid F) (\<lambda>v.
       if \<not> v then returnS (- ENOENT, None)
       else
         bindS (file_open F) (\<lambda>_.
         bindS (fs_open F) (\<lambda>fh. returnS (0, Some fh)))))))"

definition opendir_callback :: "world \<Rightarrow> fuse_request \<Rightarrow> string \<Rightarrow> u32 \<Rightarrow> int fs_op" where
  "opendir_callback W r path flags =
     bindS (fs_get W path) (\<lambda>F.
     bindS (getContext r False) (\<lambda>ctx.
     bindS (validate_access W F ctx (flagsToAccess flags) ANONE False) (\<lambda>ok.
     if \<not> ok then returnS (- EACCES)
     else bindS (file_valid F) (\<lambda>v. returnS (if v then 0 else - ENOENT)))))"

definition releasedir_callback :: "string \<Rightarrow> int fs_op" where
  "releasedir_callback path = returnS 0"

definition release_callback :: "world \<Rightarrow> string \<Rightarrow> nat \<Rightarrow> (int \<times> nat) fs_op" where
  "release_callback W path fh =
     bindS (fs_get_err W path fh) (\<lambda>(F, _).
     bindS (file_valid F) (\<lambda>v.
     if v then bindS (file_close F) (\<lambda>_. bindS (fs_close F fh) (\<lambda>_. returnS (0, 0)))
     else returnS (- ENOENT, fh)))"

definition read_callback :: "world \<Rightarrow> string \<Rightarrow> nat \<Rightarrow> nat \<Rightarrow> nat \<Rightarrow> (int \<times> byte list) fs_op" where
  "read_callback W path sz offset fh =
     bindS (fs_get_err W path fh) (\<lambda>(D, _).
     bindS (file_valid D) (\<lambda>v.
     bindS (if v then file_requireType D FT_FILE else returnS False) (\<lambda>ok.
     if ok then bindS (file_read W D sz offset) (\<lambda>bs. returnS (int (length bs), bs))
     else returnS (- ENOENT, []))))"

definition write_callback :: "world \<Rightarrow> string \<Rightarrow> byte list \<Rightarrow> nat \<Rightarrow> nat \<Rightarrow> int fs_op" where
  "write_callback W path buf offset fh =
     bindS (fs_get_err W path fh) (\<lambda>(D, _).
     bindS (file_valid D) (\<lambda>v.
     bindS (if v then file_requireType D FT_FILE else returnS False) (\<lambda>ok.
     if ok then bindS (file_write W D buf offset) (\<lambda>n. returnS (int n))
     else returnS (- ENOENT))))"

text \<open>The file system's part of \<^verbatim>\<open>statfs\<close>: the two block sizes it sets; the rest is the host's.\<close>

definition statfs_callback :: "(nat \<times> nat) fs_op" where
  "statfs_callback = bindS (getS getStatFS) (\<lambda>p. returnS (fst p, fst p))"

section \<open>Stubs\<close>

datatype stub = S_flush | S_fsync | S_setxattr | S_getxattr | S_listxattr | S_removexattr | S_access | S_lock
  | S_flock | S_fallocate | S_ioctl | S_poll

definition stub_callback :: "stub \<Rightarrow> int fs_op" where
  "stub_callback s = returnS (- ENOSYS)"

end
