(* ===== verification/Fs_Access.thy ===== *)
theory Fs_Access
  imports Fs_Ops File_Props
begin

text \<open>
  What \<^verbatim>\<open>file::validate_access\<close> decides, stated over the bits of the mode words
  of the directories along the path, and why the lookup of a path ends.
\<close>

section \<open>The rule of access\<close>

text \<open>The bits of owner, group and others begin at bit 6, 3 and 0.\<close>

definition class_of :: "fs_context \<Rightarrow> inode \<Rightarrow> nat" where
  "class_of ctx n = (if in_uid n = ctx_uid ctx then 6 else if in_gid n = ctx_gid ctx then 3 else 0)"

definition allows :: "fs_context \<Rightarrow> inode \<Rightarrow> access \<Rightarrow> bool" where
  "allows ctx n a \<longleftrightarrow> (\<forall>k<3. bit (access_bits a) k \<longrightarrow> bit (in_mode n) (class_of ctx n + k))"

definition sticky :: "inode \<Rightarrow> bool" where "sticky n \<longleftrightarrow> bit (in_mode n) 9"

text \<open>With the sticky check: the file or the \<^emph>\<open>first\<close> sticky directory belongs to the caller.\<close>

definition sticky_allows :: "fs_context \<Rightarrow> inode list \<Rightarrow> inode \<Rightarrow> bool" where
  "sticky_allows ctx ds n \<longleftrightarrow>
     (case List.find sticky ds of None \<Rightarrow> True
      | Some d \<Rightarrow> in_uid n = ctx_uid ctx \<or> in_uid d = ctx_uid ctx)"

definition access_rule :: "fs_context \<Rightarrow> access \<Rightarrow> access \<Rightarrow> bool \<Rightarrow> inode list \<Rightarrow> inode \<Rightarrow> bool" where
  "access_rule ctx da dda check ds n \<longleftrightarrow>
     ctx_uid ctx = 0 \<or>
     list_all (\<lambda>d. allows ctx d AX) ds \<and>
     (dda \<noteq> ANONE \<and> ds \<noteq> [] \<longrightarrow> allows ctx (last ds) dda) \<and>
     (check \<longrightarrow> sticky_allows ctx ds n) \<and>
     allows ctx n da"

section \<open>Reading the inodes\<close>

lemma wp_attributes:
  assumes "has_node t f n"
  shows "wpx A (file_uid f) Q t = Q (in_uid n) t" "wpx A (file_gid f) Q' t = Q' (in_gid n) t"
    "wpx A (file_mode f) Q'' t = Q'' (in_mode n) t"
  using assms by (simp_all add: file_uid_def file_gid_def file_mode_def wp_INode)

lemma wp_permission_node:
  "file_held t (fst p) \<Longrightarrow> wpx A (permission_node W p) Q t = Q (fst p) t"
  by (simp add: permission_node_def)

text \<open>\<open>ds\<close> are the inodes of the directories that \<open>ps\<close> points to, all of them in the table.\<close>

definition dirs_are :: "fsys \<Rightarrow> (fid \<times> bucketIndex_t) list \<Rightarrow> inode list \<Rightarrow> bool" where
  "dirs_are t ps ds \<longleftrightarrow> list_all2 (\<lambda>p d. file_held t (fst p) \<and> has_node t (fst p) d) ps ds"

lemma dirs_are_simps [simp]:
  "dirs_are t [] ds \<longleftrightarrow> ds = []"
  "dirs_are t (p # ps) ds \<longleftrightarrow> (\<exists>d ds'. ds = d # ds' \<and> file_held t (fst p) \<and> has_node t (fst p) d \<and> dirs_are t ps ds')"
  by (auto simp: dirs_are_def list_all2_Cons1)

lemma dirs_are_last:
  "dirs_are t ps ds \<Longrightarrow> ps \<noteq> [] \<Longrightarrow> ds \<noteq> [] \<and> file_held t (fst (last ps)) \<and> has_node t (fst (last ps)) (last ds)"
  by (induction ps arbitrary: ds) auto

section \<open>Bits\<close>

lemma mask_bits: "(m AND w = w) \<longleftrightarrow> (\<forall>k. bit w k \<longrightarrow> bit (m :: 'a::len word) k)"
  by (auto simp: bit_eq_iff bit_and_iff dest: bit_imp_le_length)

lemma access_bits_small: "bit (access_bits a) k \<Longrightarrow> k < 3"
proof -
  have "take_bit 3 (access_bits a) = access_bits a" by (cases a) simp_all
  then show "bit (access_bits a) k \<Longrightarrow> k < 3" by (metis bit_take_bit_iff)
qed

lemma granted_push:
  assumes "s \<le> 6"
  shows "granted m (push_bit s (access_bits a)) \<longleftrightarrow> (\<forall>k<3. bit (access_bits a) k \<longrightarrow> bit m (s + k))"
proof -
  have "s + k < LENGTH(32)" if "bit (access_bits a) k" for k using access_bits_small [OF that] assms by simp
  then show ?thesis
    unfolding granted_def mask_bits bit_push_bit_iff
    using access_bits_small [of a] by (auto simp: le_iff_add)
qed

lemma granted_allows:
  "granted (in_mode n) (class_bits (in_uid n = ctx_uid ctx) (in_gid n = ctx_gid ctx) a) \<longleftrightarrow> allows ctx n a"
  using granted_push [of 0] granted_push [of 3] granted_push [of 6]
  by (simp add: class_bits_def allows_def class_of_def)

lemma allows_search:
  "in_mode n AND class_bits (in_uid n = ctx_uid ctx) (in_gid n = ctx_gid ctx) AX > 0 \<longleftrightarrow> allows ctx n AX"
proof -
  have "bit (access_bits AX) k \<longleftrightarrow> k = 0" for k by (simp add: bit_1_iff)
  then have "allows ctx n AX \<longleftrightarrow> bit (in_mode n) (class_of ctx n)" by (auto simp: allows_def)
  moreover have "class_bits (in_uid n = ctx_uid ctx) (in_gid n = ctx_gid ctx) AX = push_bit (class_of ctx n) 1"
    by (simp add: class_bits_def class_of_def)
  ultimately show ?thesis by (simp add: bit_iff_and_push_bit_not_eq_0 word_gt_0)
qed

lemma sticky_mask: "in_mode n AND mode_FLAG_SVTX > 0 \<longleftrightarrow> sticky n"
proof -
  have "mode_FLAG_SVTX = push_bit 9 1" by (simp add: mode_FLAG_SVTX_def)
  then show ?thesis by (simp add: sticky_def bit_iff_and_push_bit_not_eq_0 word_gt_0)
qed

section \<open>The walk along the path\<close>

definition any_sticky :: "inode list \<Rightarrow> bool" where "any_sticky ds \<longleftrightarrow> (\<exists>d \<in> set ds. sticky d)"

definition owns_first_sticky :: "fs_context \<Rightarrow> inode list \<Rightarrow> bool" where
  "owns_first_sticky ctx ds \<longleftrightarrow> (case List.find sticky ds of None \<Rightarrow> False | Some d \<Rightarrow> in_uid d = ctx_uid ctx)"

lemma wp_check_path:
  "dirs_are t ps ds \<Longrightarrow>
   wpx A (check_path W ctx c ps s own) Q t =
     Q (if list_all (\<lambda>d. allows ctx d AX) ds
        then Some (s \<or> c \<and> any_sticky ds, own \<or> c \<and> \<not> s \<and> owns_first_sticky ctx ds) else None) t"
proof (induction ps arbitrary: ds s own)
  case Nil
  then show ?case by (simp add: any_sticky_def owns_first_sticky_def)
next
  case (Cons p ps)
  then obtain d ds' where d: "ds = d # ds'" "file_held t (fst p)" "has_node t (fst p) d" "dirs_are t ps ds'" by auto
  show ?case
    using Cons.IH [OF d(4)] d(1)
    by (simp add: wp_permission_node [OF d(2)] wp_attributes [OF d(3)] allows_search sticky_mask Let_def)
       (auto simp: any_sticky_def owns_first_sticky_def intro!: arg_cong [where f = "\<lambda>x. Q x t"])
qed

lemma sticky_allows_alt:
  "sticky_allows ctx ds n \<longleftrightarrow> in_uid n = ctx_uid ctx \<or> owns_first_sticky ctx ds \<or> \<not> any_sticky ds"
proof (cases "List.find sticky ds")
  case None
  then have "\<forall>d \<in> set ds. \<not> sticky d" by (auto simp: find_None_iff)
  with None show ?thesis by (simp add: sticky_allows_def any_sticky_def)
next
  case (Some d)
  then have "\<exists>d \<in> set ds. sticky d" by (auto simp: find_Some_iff)
  with Some show ?thesis by (auto simp: sticky_allows_def any_sticky_def owns_first_sticky_def)
qed

lemma wp_validate_access:
  assumes "valid_obj (fs_files t ! f)" "has_node t f n" "dirs_are t (f_perms (fs_files t ! f)) ds"
  shows "wpx A (validate_access W f ctx da dda c) Q t = Q (access_rule ctx da dda c ds n) t"
proof -
  let ?ps = "f_perms (fs_files t ! f)"
  have e: "?ps = [] \<longleftrightarrow> ds = []" using assms(3) by (cases "?ps") auto
  have last: "wpx A (permission_node W (last ?ps)) R t = R (fst (last ?ps)) t"
    "has_node t (fst (last ?ps)) (last ds)" if "ds \<noteq> []" for R
    using dirs_are_last [OF assms(3)] that e by (simp_all add: wp_permission_node)
  show ?thesis
    by (cases "ds = []"; cases "list_all (\<lambda>d. allows ctx d AX) ds"; cases "any_sticky ds"; cases "dda = ANONE"; cases "allows ctx (last ds) dda")
       (simp_all add: validate_access_def wp_fget wp_check_path [OF assms(3)] wp_attributes [OF assms(2)]
          wp_attributes [OF last(2)] last(1) access_rule_def granted_allows sticky_allows_alt e assms(1) Let_def)
qed

text \<open>
  C22: \<^verbatim>\<open>validate_access\<close> grants access exactly when the caller is root, or may search
  every directory of the path, has the access wanted to the last of them and to the file, by the bits of the
  first of owner, group and others that fits the caller, and, when the sticky bit is to be checked, owns the
  file or the first sticky directory of the path. It changes nothing.
\<close>

theorem validate_access_rule:
  assumes "valid_obj (fs_files t ! f)" "has_node t f n" "dirs_are t (f_perms (fs_files t ! f)) ds"
  shows "validate_access W f ctx da dda check t = Inr (access_rule ctx da dda check ds n, t)"
proof -
  have "wp (validate_access W f ctx da dda check) (\<lambda>r t'. r = access_rule ctx da dda check ds n \<and> t' = t) t"
    by (simp add: wp_validate_access [OF assms])
  then show ?thesis by (auto simp: wp_run)
qed

text \<open>
  The owner of a sticky directory may remove any file below it, also from a sticky directory of
  somebody else: \<^verbatim>\<open>unlink\<close>'s check looks at the first sticky directory of the path and not at
  the one that holds the file.
\<close>

theorem sticky_outer_owner:
  assumes "valid_obj (fs_files t ! f)" "has_node t f n" "dirs_are t (f_perms (fs_files t ! f)) ds"
    and "\<forall>d \<in> set ds. allows ctx d AX" "ds \<noteq> []" "allows ctx (last ds) AW"
    and "List.find sticky ds = Some d" "in_uid d = ctx_uid ctx"
    and "sticky (last ds)" "in_uid (last ds) \<noteq> ctx_uid ctx" "in_uid n \<noteq> ctx_uid ctx"
  shows "validate_access W f ctx ANONE AW True t = Inr (True, t)"
proof -
  have "access_rule ctx ANONE AW True ds n"
    using assms(4-8) by (simp add: access_rule_def sticky_allows_def list_all_iff allows_def [of ctx n])
  moreover have "wp (validate_access W f ctx ANONE AW True)
      (\<lambda>r t'. r = access_rule ctx ANONE AW True ds n \<and> t' = t) t"
    by (simp add: wp_validate_access [OF assms(1-3)])
  ultimately show ?thesis by (auto simp: wp_run)
qed

section \<open>The lookup of a path ends\<close>

lemma parent_shorter:
  assumes "getParentPath s = Inr p" "1 < length s"
  shows "length p < length s"
proof -
  have "last_slash s = Some k \<Longrightarrow> k < length s" for k s
    by (induction s arbitrary: k) (auto split: option.splits if_splits)
  then show ?thesis using assms by (auto simp: getParentPath_def split: option.splits if_splits)
qed

lemma bind_lift:
  "bindS (liftS (Inr x)) m = m x" "bindS (liftS (Inl e)) m = raiseS e"
  by (simp_all add: fun_eq_iff bindS_def liftS_def raiseS_def)

text \<open>
  The lookup as it is written, without fuel, by recursion on the length of the path.
\<close>

function get_full :: "world \<Rightarrow> string \<Rightarrow> EE option \<Rightarrow> fsys \<Rightarrow> (exn \<times> fsys) + ((fid \<times> EE option) \<times> fsys)"
  and lookup_full :: "world \<Rightarrow> string \<Rightarrow> EE option \<Rightarrow> fsys \<Rightarrow> (exn \<times> fsys) + ((fid \<times> EE option) \<times> fsys)" where
  "get_full W filename err t =
     (case umap_get (fs_pathCache t) filename of
       Some i \<Rightarrow>
         if i \<noteq> 0 then
           bindS (inodeToFile W i filename []) (\<lambda>(F, e).
           let err' = (if e = None then err else e) in
           bindS (file_valid F) (\<lambda>v.
           if v then returnS (F, err')
           else
             bindS (modifyS (\<lambda>t. t\<lparr>fs_pathCache := umap_insert
               (snd (umap_erase (fs_pathCache t) filename)) ''/'' fs_rootIndex\<rparr>)) (\<lambda>_.
             (\<lambda>t. lookup_full W filename err' t)))) t
         else lookup_full W filename err t
     | None \<Rightarrow> lookup_full W filename err t)"
| "lookup_full W filename err t =
     (if length filename \<le> 1 then Inr ((fs_rootFile t, err), t)
      else
        bindS (liftS (getChildPath filename)) (\<lambda>childname.
        bindS (liftS (getParentPath filename)) (\<lambda>parentname.
        bindS (getS fs_errorFile) (\<lambda>bad.
        if length childname > 255 then returnS (bad, Some EE_name_too_long)
        else
          bindS (\<lambda>t. get_full W parentname err t) (\<lambda>(parentFile, err').
          bindS (file_valid parentFile) (\<lambda>v.
          if \<not> v then returnS (bad, Some EE_entity_not_found)
          else
            bindS (file_type parentFile) (\<lambda>ty.
            if ty \<noteq> FT_DIR then returnS (bad, Some EE_entity_not_found)
            else
              bindS (file_hasNode W parentFile childname None) (\<lambda>(nodeError, i).
              if error_bool nodeError then returnS (bad, Some nodeError)
              else
                bindS (assertS (i \<noteq> 0)) (\<lambda>_.
                bindS (modifyS (\<lambda>t. t\<lparr>fs_pathCache := umap_insert (fs_pathCache t) filename i\<rparr>)) (\<lambda>_.
                bindS (file_getPathPermissions parentFile) (\<lambda>pPerm.
                bindS (permission_new parentFile) (\<lambda>p.
                bindS (inodeToFile W i filename (pPerm @ [p])) (\<lambda>(F, e).
                returnS (F, if e = None then err' else e))))))))))))) t)"
  by pat_completeness auto

termination
  apply (relation "measure (\<lambda>x. case x of Inl (_, s, _) \<Rightarrow> 2 * length s + 1 | Inr (_, s, _) \<Rightarrow> 2 * length s)")
  apply (auto simp: liftS_def getS_def split: sum.splits dest: parent_shorter)
  done

declare get_full.simps [simp del] lookup_full.simps [simp del]

lemma path_full:
  assumes "\<And>e t. get_lookup W k s e t = lookup_full W s e t"
  shows "get_path W k s err t = get_full W s err t"
proof -
  have eq: "get_lookup W k s = lookup_full W s" using assms by (simp add: fun_eq_iff)
  show ?thesis unfolding get_path.simps get_full.simps eq
    by (simp add: bindS_def getS_def split: option.splits)
qed

lemma lookup_full: "length s \<le> Suc k \<Longrightarrow> get_lookup W k s err t = lookup_full W s err t"
proof (induction k arbitrary: s err t)
  case 0
  then show ?case by (simp add: lookup_full.simps run_simps)
next
  case (Suc k)
  show ?case
  proof (cases "length s \<le> 1")
    case True
    then show ?thesis by (simp add: lookup_full.simps run_simps)
  next
    case False
    have rec: "get_path W k p e = (\<lambda>t. get_full W p e t)" if "getParentPath s = Inr p" for p e
    proof -
      have "length p \<le> Suc k" using parent_shorter [OF that] False Suc.prems by simp
      then show ?thesis using path_full [OF Suc.IH] by (simp add: fun_eq_iff)
    qed
    show ?thesis
      by (cases "getParentPath s") (simp_all only: get_lookup.simps lookup_full.simps bind_lift rec False if_False)
  qed
qed

text \<open>
  C35: The lookup of a path ends: with the length of the path as fuel, which \<open>fs_get\<close> gives it, or
  more, it does what the recursion without fuel does, whose termination is proved from the length of the
  parent path, whatever the caches and the directories hold.
\<close>

theorem get_terminates:
  assumes "length filename \<le> k"
  shows "get_path W k filename err = get_full W filename err"
  using assms path_full [OF lookup_full] by (simp add: fun_eq_iff)

section \<open>Open handles\<close>

lemma free_handle_found:
  "free_handle hs a \<noteq> 0 \<Longrightarrow> \<exists>k < length hs. free_handle hs a = a + k \<and> hs ! k = None"
proof (induction hs arbitrary: a)
  case (Cons h hs)
  then show ?case using Cons.IH [of "Suc a"] by (cases "h = None") fastforce+
qed simp

lemma free_handle_none: "0 < a \<Longrightarrow> free_handle hs a = 0 \<Longrightarrow> None \<notin> set hs"
  by (induction hs arbitrary: a) (auto split: if_splits)

text \<open>
  Opening a file gives it a handle that was free, under which every later lookup finds this
  file whatever the path says, and leaves the other handles alone; closing it frees the handle again. Handle 0
  says that all 127 are taken, and then nothing changes.
\<close>

theorem handle_open_close:
  assumes "length (fs_handles t) = maxOpenFiles"
  shows "wp (fs_open F) (\<lambda>h t'.
    (h = 0 \<longrightarrow> t' = t \<and> (\<forall>i. 0 < i \<and> i < maxOpenFiles \<longrightarrow> fs_handles t ! i \<noteq> None)) \<and>
    (h \<noteq> 0 \<longrightarrow> h < maxOpenFiles \<and> fs_handles t ! h = None \<and>
       (\<forall>W path. fs_get_err W path h t' = Inr ((F, None), t')) \<and>
       (\<forall>i. i \<noteq> h \<longrightarrow> fs_handles t' ! i = fs_handles t ! i) \<and>
       wp (fs_close F h) (\<lambda>_ t''. t'' = t) t')) t"
proof -
  let ?hs = "fs_handles t" and ?h = "free_handle (drop 1 (fs_handles t)) 1"
  have free: "?h < maxOpenFiles \<and> ?hs ! ?h = None" if "?h \<noteq> 0"
    using free_handle_found [OF that] assms by (auto simp: maxOpenFiles_def)
  have taken: "?hs ! i \<noteq> None" if "?h = 0" "0 < i" "i < maxOpenFiles" for i
  proof -
    have "drop 1 ?hs ! (i - 1) \<in> set (drop 1 ?hs)" using that assms by (intro nth_mem) simp
    moreover have "drop 1 ?hs ! (i - 1) = ?hs ! i" using that assms by simp
    ultimately show ?thesis using free_handle_none [OF _ that(1)] by (metis zero_less_one)
  qed
  have restored: "t\<lparr>fs_handles := ?hs[k := None]\<rparr> = t" if "?hs ! k = None" for k
    using that by (metis fsys.surjective fsys.update_convs(13) list_update_id)
  show ?thesis
    using free taken restored assms
    by (cases "?h = 0") (simp_all add: fs_open_def fs_close_def fs_get_err_def run_simps)
qed

section \<open>Sample states\<close>

text \<open>
  \<^verbatim>\<open>/shared\<close> is sticky and belongs to user 5, \<^verbatim>\<open>/shared/pub\<close> is sticky and belongs to root,
  \<^verbatim>\<open>/shared/pub/f\<close> belongs to user 7.
\<close>

definition sample_dir :: "my_uid_t \<Rightarrow> my_mode_t \<Rightarrow> inode" where
  "sample_dir u m = zero_inode\<lparr>in_uid := u, in_mode := mode_TYPE_DIR OR m\<rparr>"

definition sample_node :: inode where
  "sample_node = zero_inode\<lparr>in_uid := 7, in_mode := mode_TYPE_REG OR 0x1B6\<rparr>"

definition sample_tree :: fsys where
  "sample_tree = (sample_fsys 0 0)\<lparr>
     fs_chunks := [MNode (sample_dir 0 0x1FF), MNode (sample_dir 5 0x3FF), MNode (sample_dir 0 0x3FF), MNode sample_node],
     fs_files := map (\<lambda>i. (sample_fileobj 0)\<lparr>f_meta := i, f_perms := map (\<lambda>j. (j, 0)) [0..<i]\<rparr>) [0, 1, 2, 3],
     fs_handles := [None, Some 1, Some 2]\<rparr>"

definition sample_user :: "my_uid_t \<Rightarrow> fs_context" where
  "sample_user u = \<lparr>ctx_uid = u, ctx_gid = 100, ctx_gids = {}\<rparr>"

lemma sample_tree_facts:
  "valid_obj (fs_files sample_tree ! 3)" "has_node sample_tree 3 sample_node"
  "dirs_are sample_tree (f_perms (fs_files sample_tree ! 3))
     [sample_dir 0 0x1FF, sample_dir 5 0x3FF, sample_dir 0 0x3FF]"
proof -
  have p: "f_perms (fs_files sample_tree ! 3) = [(0, 0), (1, 0), (2, 0)]"
    by (simp add: sample_tree_def upt_rec)
  show "dirs_are sample_tree (f_perms (fs_files sample_tree ! 3))
     [sample_dir 0 0x1FF, sample_dir 5 0x3FF, sample_dir 0 0x3FF]"
    unfolding p by (simp add: sample_tree_def has_node_def file_held_def sample_fsys_def)
qed (simp_all add: sample_tree_def valid_obj_def sample_fileobj_def has_node_def)

lemma sample_allows:
  "allows (sample_user 5) (sample_dir u m) a \<longleftrightarrow>
     (\<forall>k<3. bit (access_bits a) k \<longrightarrow> bit (mode_TYPE_DIR OR m) ((if u = 5 then 6 else 0) + k))"
  by (simp add: allows_def class_of_def sample_dir_def sample_user_def zero_inode_def)

theorem validate_access_rule_witness:
  "\<exists>r. validate_access sample_world 3 (sample_user 9) AR AX True sample_tree = Inr (r, sample_tree)"
  using validate_access_rule [OF sample_tree_facts] by blast

theorem sticky_outer_owner_witness:
  "validate_access sample_world 3 (sample_user 5) ANONE AW True sample_tree = Inr (True, sample_tree)"
proof (rule sticky_outer_owner [OF sample_tree_facts, where d = "sample_dir 5 0x3FF"])
  have less3: "(\<forall>k<3. P k) \<longleftrightarrow> P 0 \<and> P 1 \<and> P (2::nat)" for P by (auto simp: less_Suc_eq numeral_3_eq_3 numeral_2_eq_2)
  show "\<forall>d \<in> set [sample_dir 0 0x1FF, sample_dir 5 0x3FF, sample_dir 0 0x3FF]. allows (sample_user 5) d AX"
    "allows (sample_user 5) (last [sample_dir 0 0x1FF, sample_dir 5 0x3FF, sample_dir 0 0x3FF]) AW"
    by (simp_all add: sample_allows less3 mode_TYPE_DIR_def bit_or_iff)
qed (simp_all add: zero_inode_def sticky_def sample_dir_def sample_user_def sample_node_def mode_TYPE_DIR_def bit_or_iff)

theorem get_terminates_witness:
  "get_path sample_world 9 ''/a/b'' None = get_full sample_world ''/a/b'' None"
  by (rule get_terminates) simp

theorem handle_open_close_witness:
  "wp (fs_open 0) (\<lambda>h t. (\<forall>W path. h \<noteq> 0 \<longrightarrow> fs_get_err W path h t = Inr ((0, None), t))) (sample_fsys 0 0)"
  by (rule wp_mono [OF handle_open_close]) (simp_all add: sample_fsys_def maxOpenFiles_def)

end
