(* ===== verification/Meta_Text.thy ===== *)
theory Meta_Text
  imports Fs_Ops File_Props
begin

text \<open>
  The metadata text of an inode (\<^verbatim>\<open>storeMetaDataInINode\<close> and \<^verbatim>\<open>loadMetaDataFromINode\<close> in
  \<^verbatim>\<open>src/src/modules/filesystem/fs.cpp\<close>): the chain of continuation chunks that holds it grows as
  needed, from slots that the meta accounting hands out, and the text is read back from it.
\<close>

section \<open>Chains of continuation chunks\<close>

text \<open>From slot \<open>i\<close> on the chain has the slots and chunk objects \<open>xs\<close>.\<close>

fun chain :: "fsys \<Rightarrow> bucketIndex_t \<Rightarrow> (bucketIndex_t \<times> cid) list \<Rightarrow> bool" where
  "chain t i [] \<longleftrightarrow> i = 0"
| "chain t i ((j, c) # xs) \<longleftrightarrow> i = j \<and> i \<noteq> 0 \<and> fs_slots t i = Some c \<and> c < length (fs_chunks t) \<and>
     (\<exists>n. fs_chunks t ! c = MCtd n \<and> length (ct_content n) = ctd_charSize \<and> chain t (ct_nextID n) xs)"

definition content_at :: "fsys \<Rightarrow> cid \<Rightarrow> byte list" where
  "content_at t c = (case fs_chunks t ! c of MCtd n \<Rightarrow> ct_content n | _ \<Rightarrow> [])"

definition chain_text :: "fsys \<Rightarrow> (bucketIndex_t \<times> cid) list \<Rightarrow> byte list" where
  "chain_text t xs = concat (map (\<lambda>(_, c). content_at t c) xs)"

lemma chain_text_simps [simp]:
  "chain_text t [] = []" "chain_text t ((j, c) # xs) = content_at t c @ chain_text t xs"
  by (simp_all add: chain_text_def)

lemma chain_unique: "chain t i xs \<Longrightarrow> chain t i ys \<Longrightarrow> xs = ys"
proof (induction t i xs arbitrary: ys rule: chain.induct)
  case (2 t i j c xs)
  then show ?case by (cases ys) auto
qed (metis chain.elims(1) chain.simps(1))

lemma chain_suffix: "chain t i (xs @ (j, c) # ys) \<Longrightarrow> chain t j ((j, c) # ys)"
  by (induction xs arbitrary: i) auto

text \<open>A chain that ends visits no chunk twice, so that the number of chunks is enough fuel for it.\<close>

lemma chain_distinct: "chain t i xs \<Longrightarrow> distinct (map snd xs)"
proof (induction xs arbitrary: i)
  case (Cons x xs)
  obtain j c where x: "x = (j, c)" by (cases x)
  with Cons.prems obtain n where n: "fs_chunks t ! c = MCtd n" "chain t (ct_nextID n) xs" by auto
  have "c \<notin> snd ` set xs"
  proof
    assume "c \<in> snd ` set xs"
    then obtain j' us vs where "xs = us @ (j', c) # vs" by (metis imageE split_list surjective_pairing)
    then show False using chain_suffix [of t _ us j' c vs] chain_unique [OF n(2), of vs] n by auto
  qed
  then show ?case using Cons.IH [OF n(2)] x by simp
qed simp

lemma chain_bounded: "chain t i xs \<Longrightarrow> snd ` set xs \<subseteq> {..<length (fs_chunks t)}"
  by (induction t i xs rule: chain.induct) auto

lemma chain_length: "chain t i xs \<Longrightarrow> length xs \<le> length (fs_chunks t)"
  using card_mono [OF _ chain_bounded, of t i xs] distinct_card [OF chain_distinct, of t i xs] by simp

text \<open>The chunks outside \<open>cs\<close> and the slots in \<open>L\<close> are as they were.\<close>

definition meta_kept :: "nat set \<Rightarrow> bucketIndex_t set \<Rightarrow> fsys \<Rightarrow> fsys \<Rightarrow> bool" where
  "meta_kept cs L t t' \<longleftrightarrow> length (fs_chunks t) \<le> length (fs_chunks t') \<and>
     (\<forall>d < length (fs_chunks t). d \<notin> cs \<longrightarrow> fs_chunks t' ! d = fs_chunks t ! d) \<and>
     (\<forall>i \<in> L. fs_slots t' i = fs_slots t i)"

lemma meta_kept_refl: "meta_kept cs L t t"
  by (simp add: meta_kept_def)

lemma meta_kept_trans:
  "meta_kept cs L t u \<Longrightarrow> meta_kept cs' L' u v \<Longrightarrow> L \<subseteq> L' \<Longrightarrow> {d \<in> cs'. d < length (fs_chunks t)} \<subseteq> cs \<Longrightarrow>
   meta_kept cs L t v"
  unfolding meta_kept_def by (auto simp: subset_iff) (metis order_less_le_trans)+

lemma meta_kept_mono: "meta_kept cs L t t' \<Longrightarrow> cs \<subseteq> cs' \<Longrightarrow> meta_kept cs' L t t'"
  by (auto simp: meta_kept_def)

lemma chain_kept:
  "chain t i xs \<Longrightarrow> meta_kept cs L t t' \<Longrightarrow> fst ` set xs \<subseteq> L \<Longrightarrow> snd ` set xs \<inter> cs = {} \<Longrightarrow>
   chain t' i xs \<and> chain_text t' xs = chain_text t xs"
proof (induction xs arbitrary: i)
  case (Cons x xs)
  obtain j c where x: "x = (j, c)" by (cases x)
  then have "fs_chunks t' ! c = fs_chunks t ! c" "fs_slots t' j = fs_slots t j" "length (fs_chunks t) \<le> length (fs_chunks t')"
    using Cons.prems by (auto simp: meta_kept_def)
  then show ?case using Cons x by (auto simp: content_at_def)
qed simp

lemma wp_meta_getBucket: "wpx A (meta_getBucket b) Q t = Q () (if b \<in> set (fs_metaLoaded t) then t else t\<lparr>fs_metaLoaded := fs_metaLoaded t @ [b]\<rparr>)"
  by (simp add: meta_getBucket_def)

text \<open>Two states with the same metadata chunks, which may differ in the buckets loaded.\<close>

definition loads :: "fsys \<Rightarrow> fsys \<Rightarrow> bool" where
  "loads t t' \<longleftrightarrow> fs_chunks t' = fs_chunks t \<and> fs_slots t' = fs_slots t \<and> fs_metaAcc t' = fs_metaAcc t"

lemma loads_intro [simp]: "loads t t" "loads t (t\<lparr>fs_metaLoaded := l\<rparr>)"
  by (simp_all add: loads_def)

lemma chain_cong: "fs_chunks t' = fs_chunks t \<Longrightarrow> fs_slots t' = fs_slots t \<Longrightarrow> chain t' i xs = chain t i xs"
  by (induction t i xs rule: chain.induct) simp_all

lemma loads_simps:
  assumes "loads t t'"
  shows "fs_chunks t' = fs_chunks t" "fs_slots t' = fs_slots t" "fs_metaAcc t' = fs_metaAcc t"
    "chain t' i xs = chain t i xs" "content_at t' c = content_at t c" "chain_text t' xs = chain_text t xs"
  using assms chain_cong [of t' t] by (auto simp: loads_def content_at_def chain_text_def)

lemma wp_inoToChunk:
  assumes "i \<noteq> 0" "fs_slots t i = Some c" "\<And>t'. loads t t' \<Longrightarrow> Q c t'"
  shows "wp (inoToChunk i) Q t"
  using assms loads_intro by (simp add: inoToChunk_def meta_getChunk_def meta_getBucket_def)

section \<open>A new chunk at the end of a chain\<close>

definition pool_ok :: "fsys \<Rightarrow> bucketIndex_t set \<Rightarrow> nat \<Rightarrow> bool" where
  "pool_ok t L k \<longleftrightarrow> acc.holds (fs_metaAcc t) L \<and> acc_room (fs_metaAcc t) k"

lemma pool_ok_loads: "loads t t' \<Longrightarrow> pool_ok t' L k = pool_ok t L k"
  by (simp add: pool_ok_def loads_def)

lemmas loads_same = loads_simps pool_ok_loads

definition extended :: "fsys \<Rightarrow> cid \<Rightarrow> (bucketIndex_t \<Rightarrow> metachunk) \<Rightarrow> bucketIndex_t \<Rightarrow> fsys \<Rightarrow> bool" where
  "extended t c g i t' \<longleftrightarrow>
     fs_chunks t' = (fs_chunks t)[c := g i] @ [MCtd (zero_ctd\<lparr>ct_myID := i\<rparr>)] \<and>
     fs_slots t' = (fs_slots t)(i \<mapsto> length (fs_chunks t))"

lemma wp_new_ctd:
  assumes "pool_ok t L (Suc k)" "c < length (fs_chunks t)"
    and link: "\<And>i Q u. fs_chunks u ! c = fs_chunks t ! c \<Longrightarrow> c < length (fs_chunks u) \<Longrightarrow>
      wp (link i) Q u = Q () (u\<lparr>fs_chunks := (fs_chunks u)[c := g i]\<rparr>)"
  shows "wp (new_ctd link) (\<lambda>_ t'. \<exists>i. i \<notin> L \<and> i \<noteq> 0 \<and> extended t c g i t' \<and> pool_ok t' (insert i L) k) t"
proof -
  obtain i a where f: "acc_fetch (fs_metaAcc t) = Inr (i, a)" "i \<notin> L" "acc.holds a (insert i L)" "acc_room a k"
    using acc.holds_fetch assms(1) unfolding pool_ok_def by blast
  have "i \<noteq> 0" using acc.holds_nonzero [OF f(3)] by auto
  with f assms(2) show ?thesis
    by (auto simp: new_ctd_def new_metachunk_def meta_fetch_def upd_ctd_def as_ctd_def set_chunk_def
        link nth_append storeInode_def meta_putHashedChunk_def meta_getBucket_def list_update_append
        extended_def pool_ok_def)
qed

lemma length_zero_ctd [simp]: "length (ct_content zero_ctd) = ctd_charSize" "ct_nextID zero_ctd = 0"
  by (simp_all add: zero_ctd_def)

lemma pool_ok_less: "pool_ok t L (Suc k) \<Longrightarrow> pool_ok t L k"
  by (simp add: pool_ok_def acc_room_def)

text \<open>The chunk after \<open>c\<close> in its chain, which is made when there is none.\<close>

definition next_made :: "fsys \<Rightarrow> bucketIndex_t set \<Rightarrow> nat \<Rightarrow> cid set \<Rightarrow> bucketIndex_t \<Rightarrow> cid \<Rightarrow> cid \<Rightarrow> fsys \<Rightarrow> bool" where
  "next_made t L k cs j c d t' \<longleftrightarrow> (\<exists>i ys L'. chain t' j ((j, c) # (i, d) # ys) \<and> content_at t' c = content_at t c \<and>
     L \<subseteq> L' \<and> fst ` set ((j, c) # (i, d) # ys) \<subseteq> L' \<and> pool_ok t' L' k \<and> meta_kept {c} L t t' \<and>
     {e \<in> snd ` set ((i, d) # ys). e < length (fs_chunks t)} \<subseteq> cs)"

lemma wp_createCtd_ctd:
  assumes ch: "chain t j ((j, c) # xs)" and pool: "pool_ok t L (Suc k)" and sub: "fst ` set ((j, c) # xs) \<subseteq> L"
  shows "wp (createCtd_ctd c) (next_made t L k (snd ` set xs) j c) t"
proof -
  obtain n where n: "fs_chunks t ! c = MCtd n" "c < length (fs_chunks t)" "chain t (ct_nextID n) xs" using ch by auto
  show ?thesis
  proof (cases xs)
    case (Cons x ys)
    obtain i d where x: "x = (i, d)" by (cases x)
    then have i: "ct_nextID n = i" "i \<noteq> 0" "fs_slots t i = Some d" using n Cons by auto
    have "next_made t L k (snd ` set xs) j c d t'" if "loads t t'" for t'
      unfolding next_made_def using ch sub pool_ok_less [OF pool] that Cons x
      by (intro exI [of _ i] exI [of _ ys] exI [of _ L]) (auto simp: meta_kept_def loads_same [OF that])
    then show ?thesis using i n by (simp add: createCtd_ctd_def as_ctd_def) (rule wp_inoToChunk [where c = d]; simp)
  next
    case Nil
    let ?g = "\<lambda>i. MCtd (n\<lparr>ct_nextID := i\<rparr>)" and ?d = "length (fs_chunks t)"
    have made: "next_made t L k (snd ` set xs) j c ?d t'"
      if "i \<notin> L" "i \<noteq> 0" "extended t c ?g i u" "pool_ok u (insert i L) k" "loads u t'" for i u t'
      unfolding next_made_def
      using that n ch sub by (intro exI [of _ i] exI [of _ "[]"] exI [of _ "insert i L"])
        (auto simp: extended_def content_at_def meta_kept_def nth_append nth_list_update loads_same [OF that(5)])
    have "wp (new_ctd (\<lambda>i. upd_ctd c (\<lambda>n. n\<lparr>ct_nextID := i\<rparr>)))
        (\<lambda>_. wp (bindS (as_ctd c) (\<lambda>n. inoToChunk (ct_nextID n))) (next_made t L k (snd ` set xs) j c)) t"
    proof (rule wp_mono [OF wp_new_ctd [where g = ?g, OF pool n(2)]])
      fix u assume "\<exists>i. i \<notin> L \<and> i \<noteq> 0 \<and> extended t c ?g i u \<and> pool_ok u (insert i L) k"
      then obtain i where i: "i \<notin> L" "i \<noteq> 0" "extended t c ?g i u" "pool_ok u (insert i L) k" by blast
      then show "wp (bindS (as_ctd c) (\<lambda>n. inoToChunk (ct_nextID n))) (next_made t L k (snd ` set xs) j c) u"
        using n(2) made [OF i]
        by (simp add: as_ctd_def extended_def nth_append) (rule wp_inoToChunk [where c = ?d]; simp add: extended_def)
    qed (simp add: upd_ctd_def as_ctd_def set_chunk_def n(1))
    then show ?thesis using n Nil by (simp add: createCtd_ctd_def as_ctd_def)
  qed
qed

section \<open>Writing a text\<close>

text \<open>The text \<open>bs\<close> stands in the chain from offset \<open>off\<close> of its first chunk on.\<close>

lemma charSize_pos: "0 < ctd_charSize"
  by (simp add: ctd_charSize_def)

definition text_written ::
  "fsys \<Rightarrow> bucketIndex_t set \<Rightarrow> bucketIndex_t \<Rightarrow> cid \<Rightarrow> cid set \<Rightarrow> byte list \<Rightarrow> byte list \<Rightarrow> fsys \<Rightarrow> bool" where
  "text_written t L j c cs pre bs t' \<longleftrightarrow> (\<exists>ys rest. chain t' j ((j, c) # ys) \<and>
     chain_text t' ((j, c) # ys) = pre @ bs @ rest \<and> meta_kept (insert c cs) L t t')"

lemma chain_set_char:
  assumes "chain t j ((j, c) # xs)" "off < ctd_charSize"
  shows "wp (upd_ctd c (ctd_setChar off b)) Q t = Q () (t\<lparr>fs_chunks := (fs_chunks t)[c :=
      MCtd (ctd_setChar off b (case fs_chunks t ! c of MCtd n \<Rightarrow> n))]\<rparr>)"
  using assms by (auto simp: upd_ctd_def as_ctd_def set_chunk_def)

lemma store_text_step:
  assumes ch: "chain t j ((j, c) # xs)" and off: "off < ctd_charSize"
    and t1: "t1 = t\<lparr>fs_chunks := (fs_chunks t)[c := MCtd (ctd_setChar off b (case fs_chunks t ! c of MCtd n \<Rightarrow> n))]\<rparr>"
  shows "chain t1 j ((j, c) # xs)" "take (Suc off) (content_at t1 c) = take off (content_at t c) @ [b]"
    "length (content_at t1 c) = ctd_charSize" "meta_kept {c} L t t1" "pool_ok t1 M k = pool_ok t M k"
proof -
  obtain n where n: "fs_chunks t ! c = MCtd n" "c < length (fs_chunks t)" "length (ct_content n) = ctd_charSize"
    "chain t (ct_nextID n) xs" using ch by auto
  show kept: "meta_kept {c} L t t1" for L by (simp add: meta_kept_def t1)
  have "c \<notin> snd ` set xs" using chain_distinct [OF ch] by simp
  then have "chain t1 (ct_nextID n) xs"
    using chain_kept [OF n(4) kept [of "fst ` set xs"]] by simp
  then show "chain t1 j ((j, c) # xs)" using ch n by (simp add: t1 ctd_setChar_def)
  show "take (Suc off) (content_at t1 c) = take off (content_at t c) @ [b]" "length (content_at t1 c) = ctd_charSize"
    "pool_ok t1 M k = pool_ok t M k"
    using n off by (simp_all add: content_at_def t1 ctd_setChar_def take_Suc_conv_app_nth pool_ok_def)
qed

lemma wp_store_text:
  "chain t j ((j, c) # xs) \<Longrightarrow> pool_ok t L ((off + length bs) div ctd_charSize) \<Longrightarrow> fst ` set ((j, c) # xs) \<subseteq> L \<Longrightarrow>
   off < ctd_charSize \<Longrightarrow>
   wp (store_text bs off c) (\<lambda>_. text_written t L j c (snd ` set xs) (take off (content_at t c)) bs) t"
proof (induction bs arbitrary: t j c xs L off)
  case Nil
  have "chain_text t ((j, c) # xs) = take off (content_at t c) @ [] @ drop off (content_at t c) @ chain_text t xs" by simp
  then have "text_written t L j c (snd ` set xs) (take off (content_at t c)) [] t"
    unfolding text_written_def using Nil(1) meta_kept_refl by blast
  then show ?case by simp
next
  case (Cons b bs)
  define t1 where "t1 = t\<lparr>fs_chunks := (fs_chunks t)[c := MCtd (ctd_setChar off b (case fs_chunks t ! c of MCtd n \<Rightarrow> n))]\<rparr>"
  note step = store_text_step [OF Cons.prems(1,4) t1_def]
  have "wp (if ctd_charSize \<le> Suc off then bindS (createCtd_ctd c) (\<lambda>c'. store_text bs 0 c')
        else store_text bs (Suc off) c) (\<lambda>_. text_written t L j c (snd ` set xs) (take off (content_at t c)) (b # bs)) t1"
  proof (cases "ctd_charSize \<le> Suc off")
    case False
    have "wp (store_text bs (Suc off) c) (\<lambda>_. text_written t1 L j c (snd ` set xs) (take (Suc off) (content_at t1 c)) bs) t1"
      using Cons.IH [OF step(1)] Cons.prems False by (simp add: step(5))
    moreover have "text_written t L j c (snd ` set xs) (take off (content_at t c)) (b # bs) t'"
      if "text_written t1 L j c (snd ` set xs) (take (Suc off) (content_at t1 c)) bs t'" for t'
    proof -
      from that obtain ys rest where w: "chain t' j ((j, c) # ys)"
        "chain_text t' ((j, c) # ys) = (take off (content_at t c) @ [b]) @ bs @ rest"
        "meta_kept (insert c (snd ` set xs)) L t1 t'" unfolding text_written_def step(2) by blast
      have "meta_kept (insert c (snd ` set xs)) L t t'"
        by (rule meta_kept_trans [OF meta_kept_mono [OF step(4)] w(3)]) auto
      then show ?thesis unfolding text_written_def using w by (intro exI [of _ ys] exI [of _ rest]) simp
    qed
    ultimately show ?thesis using False by (simp add: wp_mono)
  next
    case True
    let ?k = "length bs div ctd_charSize"
    have full: "content_at t1 c = take off (content_at t c) @ [b]" using step(2,3) True by simp
    have "off + length (b # bs) = ctd_charSize + length bs" using True Cons.prems(4) by simp
    moreover have "(ctd_charSize + length bs) div ctd_charSize = Suc ?k" by (simp add: ctd_charSize_def div_add_self1)
    ultimately have "pool_ok t1 L (Suc ?k)" using Cons.prems(2) by (simp only: step(5))
    from wp_createCtd_ctd [OF step(1) this Cons.prems(3)]
    have "wp (createCtd_ctd c) (\<lambda>d. wp (store_text bs 0 d)
        (\<lambda>_. text_written t L j c (snd ` set xs) (take off (content_at t c)) (b # bs))) t1"
    proof (rule wp_mono)
      fix d u assume "next_made t1 L ?k (snd ` set xs) j c d u"
      then obtain i ys L' where u: "chain u j ((j, c) # (i, d) # ys)" "content_at u c = content_at t1 c" "L \<subseteq> L'"
        "fst ` set ((j, c) # (i, d) # ys) \<subseteq> L'" "pool_ok u L' ?k" "meta_kept {c} L t1 u"
        "{e \<in> snd ` set ((i, d) # ys). e < length (fs_chunks t1)} \<subseteq> snd ` set xs"
        unfolding next_made_def by (elim exE conjE) (rule that, assumption+)
      have di: "chain u i ((i, d) # ys)" using u(1) by auto
      have "pool_ok u L' ((0 + length bs) div ctd_charSize)" "fst ` set ((i, d) # ys) \<subseteq> L'" using u(4,5) by simp_all
      from Cons.IH [OF di this]
      have "wp (store_text bs 0 d) (\<lambda>_. text_written u L' i d (snd ` set ys) [] bs) u" using charSize_pos by (simp only: take_0)
      then show "wp (store_text bs 0 d) (\<lambda>_. text_written t L j c (snd ` set xs) (take off (content_at t c)) (b # bs)) u"
      proof (rule wp_mono)
        fix t' assume "text_written u L' i d (snd ` set ys) [] bs t'"
        then obtain zs rest where w: "chain t' i ((i, d) # zs)" "chain_text t' ((i, d) # zs) = bs @ rest"
          "meta_kept (insert d (snd ` set ys)) L' u t'" unfolding text_written_def by auto
        have c: "c \<notin> insert d (snd ` set ys)" using chain_distinct [OF u(1)] by simp
        then have same: "fs_chunks t' ! c = fs_chunks u ! c" "fs_slots t' j = fs_slots u j" "c < length (fs_chunks t')"
          using w(3) u(1,4) by (auto simp: meta_kept_def)
        then have "chain t' j ((j, c) # (i, d) # zs)" "content_at t' c = content_at t1 c"
          using w(1) u(1,2) by (auto simp: content_at_def)
        moreover have "meta_kept (insert c (snd ` set xs)) L t u"
          by (rule meta_kept_trans [OF meta_kept_mono [OF step(4)] u(6)]) auto
        then have "meta_kept (insert c (snd ` set xs)) L t t'"
          by (rule meta_kept_trans [OF _ w(3) u(3)]) (use u(7) in \<open>auto simp: t1_def\<close>)
        ultimately show "text_written t L j c (snd ` set xs) (take off (content_at t c)) (b # bs) t'"
          unfolding text_written_def using w(2) full
          by (intro exI [of _ "(i, d) # zs"] exI [of _ rest]) simp
      qed
    qed
    then show ?thesis using True by simp
  qed
  then show ?case using chain_set_char [OF Cons.prems(1,4)] by (simp add: t1_def)
qed

section \<open>Storing and loading the text of an inode\<close>

text \<open>
  The inode chunk \<open>c\<close> has the chain \<open>xs\<close> for its text, \<open>L\<close> are the meta slots in use, and
  there is room for \<open>k\<close> more.
\<close>

definition text_ready :: "fsys \<Rightarrow> cid \<Rightarrow> (bucketIndex_t \<times> cid) list \<Rightarrow> bucketIndex_t set \<Rightarrow> nat \<Rightarrow> bool" where
  "text_ready t c xs L k \<longleftrightarrow> c < length (fs_chunks t) \<and> pool_ok t L k \<and> fst ` set xs \<subseteq> L \<and>
     (\<exists>n. fs_chunks t ! c = MNode n \<and> chain t (in_metaID n) xs)"

lemma chain_ctd: "chain t i xs \<Longrightarrow> c \<in> snd ` set xs \<Longrightarrow> \<exists>n. fs_chunks t ! c = MCtd n"
  by (induction t i xs rule: chain.induct) auto

text \<open>The first chunk of the text.\<close>

definition first_made ::
  "fsys \<Rightarrow> bucketIndex_t set \<Rightarrow> nat \<Rightarrow> cid set \<Rightarrow> cid \<Rightarrow> inode \<Rightarrow> cid \<Rightarrow> fsys \<Rightarrow> bool" where
  "first_made t L k cs c n d t' \<longleftrightarrow> (\<exists>i ys L'. chain t' i ((i, d) # ys) \<and>
     fs_chunks t' ! c = MNode (n\<lparr>in_metaID := i\<rparr>) \<and>
     L \<subseteq> L' \<and> fst ` set ((i, d) # ys) \<subseteq> L' \<and> pool_ok t' L' k \<and> meta_kept {c} L t t' \<and>
     {e \<in> snd ` set ((i, d) # ys). e < length (fs_chunks t)} \<subseteq> cs)"

lemma wp_createCtd_meta:
  assumes "text_ready t c xs L (Suc k)" "fs_chunks t ! c = MNode n"
  shows "wp (createCtd c True) (first_made t L k (snd ` set xs) c n) t"
proof -
  have c: "c < length (fs_chunks t)" "pool_ok t L (Suc k)" "fst ` set xs \<subseteq> L" "chain t (in_metaID n) xs"
    using assms by (auto simp: text_ready_def)
  show ?thesis
  proof (cases xs)
    case (Cons x ys)
    obtain i d where x: "x = (i, d)" by (cases x)
    then have i: "in_metaID n = i" "i \<noteq> 0" "fs_slots t i = Some d" using c(4) Cons by auto
    then have "fs_chunks t ! c = MNode (n\<lparr>in_metaID := i\<rparr>)" using assms(2) by simp
    then have "first_made t L k (snd ` set xs) c n d t'" if "loads t t'" for t'
      unfolding first_made_def using c pool_ok_less [OF c(2)] that Cons x i(1)
      by (intro exI [of _ i] exI [of _ ys] exI [of _ L]) (auto simp: meta_kept_def loads_same [OF that])
    then show ?thesis using i assms(2) by (simp add: createCtd_def as_inode_def) (rule wp_inoToChunk [where c = d]; simp)
  next
    case Nil
    let ?g = "\<lambda>i. MNode (n\<lparr>in_metaID := i\<rparr>)" and ?d = "length (fs_chunks t)"
    have made: "first_made t L k (snd ` set xs) c n ?d t'"
      if "i \<notin> L" "i \<noteq> 0" "extended t c ?g i u" "pool_ok u (insert i L) k" "loads u t'" for i u t'
      unfolding first_made_def using that c by (intro exI [of _ i] exI [of _ "[]"] exI [of _ "insert i L"])
        (auto simp: extended_def content_at_def meta_kept_def nth_append nth_list_update loads_same [OF that(5)])
    have "wp (new_ctd (\<lambda>i. upd_inode c (\<lambda>n. n\<lparr>in_metaID := i\<rparr>)))
        (\<lambda>_. wp (bindS (as_inode c) (\<lambda>n. inoToChunk (in_metaID n))) (first_made t L k (snd ` set xs) c n)) t"
    proof (rule wp_mono [OF wp_new_ctd [where g = ?g, OF c(2,1)]])
      fix u assume "\<exists>i. i \<notin> L \<and> i \<noteq> 0 \<and> extended t c ?g i u \<and> pool_ok u (insert i L) k"
      then obtain i where i: "i \<notin> L" "i \<noteq> 0" "extended t c ?g i u" "pool_ok u (insert i L) k" by blast
      then show "wp (bindS (as_inode c) (\<lambda>n. inoToChunk (in_metaID n))) (first_made t L k (snd ` set xs) c n) u"
        using c(1) made [OF i]
        by (simp add: as_inode_def extended_def nth_append) (rule wp_inoToChunk [where c = ?d]; simp add: extended_def)
    qed (simp add: upd_inode_def as_inode_def set_chunk_def assms(2))
    then show ?thesis using assms(2) c Nil by (simp add: createCtd_def as_inode_def)
  qed
qed

lemma wp_meta_chain:
  assumes "chain t i ((j, c) # xs)" "length xs < k" "\<And>t'. loads t t' \<Longrightarrow> Q (chain_text t ((j, c) # xs)) t'"
  shows "wp (meta_chain k c) Q t"
  using assms
proof (induction xs arbitrary: t i j c k Q)
  case Nil
  from Nil.prems(1,2) obtain m n where "k = Suc m" "fs_chunks t ! c = MCtd n" "ct_nextID n = 0" by (cases k) auto
  then show ?case using Nil.prems(3) [of t] by (simp add: as_ctd_def content_at_def)
next
  case (Cons x xs)
  obtain i' c' where x: "x = (i', c')" by (cases x)
  obtain m where k: "k = Suc m" "length xs < m" using Cons.prems(2) by (cases k) auto
  obtain n where n: "fs_chunks t ! c = MCtd n" "chain t i' ((i', c') # xs)" "ct_nextID n = i'" "i' \<noteq> 0"
    "fs_slots t i' = Some c'" using Cons.prems(1) x by auto
  have "wp (meta_chain m c') (\<lambda>r. Q (ct_content n @ r)) t'" if t': "loads t t'" for t'
  proof (rule Cons.IH [of t' i' i'])
    show "Q (ct_content n @ chain_text t' ((i', c') # xs)) t''" if "loads t' t''" for t''
      using Cons.prems(3) [of t''] t' that n(1) x by (simp add: loads_def content_at_def chain_text_def)
  qed (use n k in \<open>simp_all add: loads_same [OF t']\<close>)
  then show ?case using n k by (simp add: as_ctd_def) (rule wp_inoToChunk [where c = c']; simp)
qed

lemma strip_zeros:
  fixes bs rest :: "byte list"
  assumes "bs \<noteq> []" "last bs \<noteq> 0"
  shows "take (length bs) (rev (dropWhile (\<lambda>b. b = 0) (rev (bs @ rest)))) = bs"
    "length bs \<le> length (rev (dropWhile (\<lambda>b. b = 0) (rev (bs @ rest))))"
proof -
  have "\<exists>zs. rev (dropWhile (\<lambda>b. b = 0) (rev (bs @ rest))) = bs @ zs"
  proof (induction rest rule: rev_induct)
    case Nil
    have "dropWhile (\<lambda>b. b = 0) (rev bs) = rev bs" using assms by (cases bs rule: rev_cases) auto
    then show ?case by simp
  qed auto
  then obtain zs where "rev (dropWhile (\<lambda>b. b = 0) (rev (bs @ rest))) = bs @ zs" by blast
  then show "take (length bs) (rev (dropWhile (\<lambda>b. b = 0) (rev (bs @ rest)))) = bs"
    "length bs \<le> length (rev (dropWhile (\<lambda>b. b = 0) (rev (bs @ rest))))" by simp_all
qed

lemma wp_loadMetaDataFromINode:
  assumes node: "fs_chunks t ! c = MNode n" and ch: "chain t (in_metaID n) xs"
    and stored: "chain_text t xs = str_bytes s @ rest" "in_metasize n = length s" "xs \<noteq> []"
    and last: "s = [] \<or> last s \<noteq> CHR 0x00"
  shows "wp (loadMetaDataFromINode c) (\<lambda>r t'. r = s \<and> loads t t') t"
proof (cases "s = []")
  case True
  then show ?thesis using node stored by (simp add: loadMetaDataFromINode_def as_inode_def)
next
  case False
  obtain i d ys where xs: "xs = (i, d) # ys" using stored(3) by (cases xs) auto
  then have i: "in_metaID n = i" "i \<noteq> 0" "fs_slots t i = Some d" using ch by auto
  have fuel: "length ys < Suc (length (fs_chunks t))" using chain_length [OF ch] xs by simp
  have nz: "last (str_bytes s) \<noteq> 0"
  proof
    assume "last (str_bytes s) = 0"
    then have "(of_char (last s) :: byte) = 0" using False by (simp add: str_bytes_def last_map)
    then have "last s = char_of (unat (0 :: byte))" by (metis char_byte)
    then show False using last False by (simp add: char_of_def)
  qed
  note strip = strip_zeros [OF _ nz, of rest]
  have res: "bytes_str (str_resize (rev (dropWhile (\<lambda>b. b = 0) (rev (str_bytes s @ rest)))) (length s) 32) = s"
    using strip False by (simp add: str_resize_def str_bytes_def bytes_str_def comp_def)
  have "wp (meta_chain (Suc (length (fs_chunks t'))) d) (\<lambda>ret t''. bytes_str (str_resize (rev (dropWhile (\<lambda>b. b = 0)
      (rev ret))) (length s) 32) = s \<and> loads t t'') t'" if t': "loads t t'" for t'
  proof (rule wp_meta_chain [of t' i i d ys])
    show "chain t' i ((i, d) # ys)" using ch xs i by (simp add: loads_same [OF t'])
    show "length ys < Suc (length (fs_chunks t'))" using fuel by (simp add: loads_same [OF t'])
    fix t'' assume "loads t' t''"
    then have "loads t t''" using t' by (simp add: loads_def)
    moreover have "chain_text t' ((i, d) # ys) = str_bytes s @ rest"
      using stored(1) xs by (simp only: loads_same [OF t'])
    ultimately show "bytes_str (str_resize (rev (dropWhile (\<lambda>b. b = 0) (rev (chain_text t' ((i, d) # ys))))) (length s) 32) = s \<and>
        loads t t''" using res by simp
  qed
  then show ?thesis using node False i stored(2)
    by (simp add: loadMetaDataFromINode_def as_inode_def Let_def) (rule wp_inoToChunk [where c = d]; simp)
qed

text \<open>The text \<open>s\<close> is stored; nothing else of the metadata that was in use has changed.\<close>

definition text_stored :: "fsys \<Rightarrow> bucketIndex_t set \<Rightarrow> cid \<Rightarrow> inode \<Rightarrow> cid set \<Rightarrow> string \<Rightarrow> fsys \<Rightarrow> bool" where
  "text_stored t L c n cs s t' \<longleftrightarrow> (\<exists>i ys rest. fs_chunks t' ! c = MNode (n\<lparr>in_metasize := length s, in_metaID := i\<rparr>) \<and>
     ys \<noteq> [] \<and> chain t' i ys \<and> chain_text t' ys = str_bytes s @ rest \<and> meta_kept (insert c cs) L t t')"

lemma wp_storeMetaDataInINode:
  assumes ready: "text_ready t c xs L (Suc (length s div ctd_charSize))" and n: "fs_chunks t ! c = MNode n"
    and len: "length s < 2 ^ 32 - 1"
  shows "wp (storeMetaDataInINode c s) (\<lambda>_. text_stored t L c n (snd ` set xs) s) t"
proof -
  define n1 t1 where "n1 = n\<lparr>in_metasize := length s\<rparr>" and "t1 = t\<lparr>fs_chunks := (fs_chunks t)[c := MNode n1]\<rparr>"
  have r: "c < length (fs_chunks t)" "pool_ok t L (Suc (length s div ctd_charSize))" "fst ` set xs \<subseteq> L"
    "chain t (in_metaID n) xs" using ready n by (auto simp: text_ready_def)
  have kept1: "meta_kept {c} L t t1" by (simp add: meta_kept_def t1_def)
  have "c \<notin> snd ` set xs" using chain_ctd [OF r(4)] n by fastforce
  then have "chain t1 (in_metaID n) xs" using chain_kept [OF r(4) kept1 r(3)] by simp
  then have ready1: "text_ready t1 c xs L (Suc (length s div ctd_charSize))" and n1: "fs_chunks t1 ! c = MNode n1"
    using r by (simp_all add: text_ready_def t1_def n1_def pool_ok_def)
  have "wp (createCtd c True) (\<lambda>d. wp (store_text (str_bytes s) 0 d)
      (\<lambda>_. text_stored t L c n (snd ` set xs) s)) t1"
  proof (rule wp_mono [OF wp_createCtd_meta [OF ready1 n1]])
    fix d u assume "first_made t1 L (length s div ctd_charSize) (snd ` set xs) c n1 d u"
    then obtain i ys L' where u: "chain u i ((i, d) # ys)" "fs_chunks u ! c = MNode (n1\<lparr>in_metaID := i\<rparr>)" "L \<subseteq> L'"
      "fst ` set ((i, d) # ys) \<subseteq> L'" "pool_ok u L' (length s div ctd_charSize)" "meta_kept {c} L t1 u"
      "{e \<in> snd ` set ((i, d) # ys). e < length (fs_chunks t1)} \<subseteq> snd ` set xs"
      unfolding first_made_def by (elim exE conjE) (rule that, assumption+)
    have "pool_ok u L' ((0 + length (str_bytes s)) div ctd_charSize)" using u(5) by (simp add: str_bytes_def)
    from wp_store_text [OF u(1) this u(4) charSize_pos]
    show "wp (store_text (str_bytes s) 0 d) (\<lambda>_. text_stored t L c n (snd ` set xs) s) u"
    proof (rule wp_mono)
      fix t' assume "text_written u L' i d (snd ` set ys) (take 0 (content_at u d)) (str_bytes s) t'"
      then obtain zs rest where w: "chain t' i ((i, d) # zs)" "chain_text t' ((i, d) # zs) = str_bytes s @ rest"
        "meta_kept (insert d (snd ` set ys)) L' u t'" unfolding text_written_def by auto
      have "c \<notin> insert d (snd ` set ys)" using chain_ctd [OF u(1), of c] u(2) by fastforce
      moreover have "c < length (fs_chunks u)" using u(6) r(1) by (simp add: meta_kept_def t1_def)
      ultimately have "fs_chunks t' ! c = MNode (n1\<lparr>in_metaID := i\<rparr>)" using w(3) u(2) by (simp add: meta_kept_def)
      moreover have "meta_kept (insert c (snd ` set xs)) L t u"
        by (rule meta_kept_trans [OF meta_kept_mono [OF kept1] u(6)]) auto
      then have "meta_kept (insert c (snd ` set xs)) L t t'"
        by (rule meta_kept_trans [OF _ w(3) u(3)]) (use u(7) in \<open>auto simp: t1_def\<close>)
      ultimately show "text_stored t L c n (snd ` set xs) s t'"
        unfolding text_stored_def using w(1,2)
        by (intro exI [of _ i] exI [of _ "(i, d) # zs"] exI [of _ rest]) (simp add: n1_def)
    qed
  qed
  then show ?thesis using n len r(1)
    by (simp add: storeMetaDataInINode_def upd_inode_def as_inode_def set_chunk_def t1_def n1_def)
qed

text \<open>
  C21: A text that \<^verbatim>\<open>storeMetaDataInINode\<close> writes into the continuation chunks of an inode,
  whatever chain it had before and however many chunks have to be added to it, is what
  \<^verbatim>\<open>loadMetaDataFromINode\<close> reads, unless its last character is NUL; no chunk outside this inode and
  its chain and no slot in use changes.
\<close>

theorem meta_text_roundtrip:
  assumes "text_ready t c xs L (Suc (length s div ctd_charSize))"
    and "length s < 2 ^ 32 - 1" "s = [] \<or> last s \<noteq> CHR 0x00"
  shows "wp (storeMetaDataInINode c s) (\<lambda>_ t'.
     wp (loadMetaDataFromINode c) (\<lambda>r _. r = s) t' \<and> meta_kept (insert c (snd ` set xs)) L t t') t"
proof -
  obtain n where n: "fs_chunks t ! c = MNode n" using assms(1) by (auto simp: text_ready_def)
  from wp_storeMetaDataInINode [OF assms(1) n assms(2)] show ?thesis
  proof (rule wp_mono)
    fix t' assume "text_stored t L c n (snd ` set xs) s t'"
    then obtain i ys rest where w: "fs_chunks t' ! c = MNode (n\<lparr>in_metasize := length s, in_metaID := i\<rparr>)"
      "ys \<noteq> []" "chain t' i ys" "chain_text t' ys = str_bytes s @ rest" "meta_kept (insert c (snd ` set xs)) L t t'"
      unfolding text_stored_def by blast
    have "wp (loadMetaDataFromINode c) (\<lambda>r t''. r = s \<and> loads t' t'') t'"
      using w assms(3) by (intro wp_loadMetaDataFromINode [OF w(1)]) simp_all
    then show "wp (loadMetaDataFromINode c) (\<lambda>r _. r = s) t' \<and> meta_kept (insert c (snd ` set xs)) L t t'"
      using w(5) wp_mono by fastforce
  qed
qed

lemma sample_text_ready: "text_ready (sample_fsys 0 0) 0 [] {bucketIndex 1 2} 1"
proof -
  have "used_ok [1]" by (simp add: used_ok_def)
  note a = acc_new_inv [OF this]
  have "acc.holds (acc_new [1]) {bucketIndex 1 2}"
    using a(1,2) by (simp add: acc.holds_def acc_new_def)
  moreover have "acc_room (acc_new [1]) 1"
    by (simp add: acc_room_def acc_top_def acc_new_def maxBuckets_def)
  ultimately show ?thesis
    by (simp add: text_ready_def pool_ok_def sample_fsys_def sample_inode_def zero_inode_def)
qed

theorem meta_text_roundtrip_witness:
  "wp (bindS (storeMetaDataInINode 0 ''{}'') (\<lambda>_. loadMetaDataFromINode 0)) (\<lambda>r _. r = ''{}'') (sample_fsys 0 0)"
proof -
  have "text_ready (sample_fsys 0 0) 0 [] {bucketIndex 1 2} (Suc (length ''{}'' div ctd_charSize))"
    using sample_text_ready by (simp add: ctd_charSize_def)
  from meta_text_roundtrip [OF this] show ?thesis by (auto elim: wp_mono)
qed

end
