(* ===== verification/File_Swap.thy ===== *)
theory File_Swap
  imports File_Props
begin

text \<open>
  Replacing the whole content of a file, as \<^verbatim>\<open>file::swapContent\<close> does for directories and
  symbolic links: the new chunks, each patched into a copy of the zero chunk, and the old list of
  hashes given back.
\<close>

section \<open>Content padded to whole chunks\<close>

definition pad :: "byte list \<Rightarrow> byte list" where
  "pad bs = bs @ replicate (ceildiv (length bs) chunkSize * chunkSize - length bs) 0"

lemma pad_Nil [simp]: "pad [] = []"
  by (simp add: pad_def ceildiv_def)

lemma ceildiv_step: "0 < n \<Longrightarrow> ceildiv n chunkSize = Suc (ceildiv (n - chunkSize) chunkSize)"
proof (cases "n \<le> chunkSize")
  case True
  moreover assume "0 < n"
  ultimately show ?thesis by (cases "n = chunkSize") (simp_all add: ceildiv_def)
next
  case False
  then show ?thesis using ceildiv_add_mult [OF chunkSize_pos, of 1 "n - chunkSize"] by simp
qed

lemma pad_step:
  assumes "bs \<noteq> []"
  shows "pad bs = list_splice zero_chunk 0 (take chunkSize bs) @ pad (drop chunkSize bs)"
proof (cases "length bs \<le> chunkSize")
  case True
  then have "ceildiv (length bs) chunkSize = 1" using ceildiv_step [of "length bs"] assms by (simp add: ceildiv_def)
  with True show ?thesis by (simp add: pad_def list_splice_def zero_chunk_def)
next
  case False
  have "length bs \<le> ceildiv (length bs) chunkSize * chunkSize" by (rule ceildiv_mult_ge) simp
  moreover have "ceildiv (length bs) chunkSize = Suc (ceildiv (length bs - chunkSize) chunkSize)"
    using assms by (intro ceildiv_step) simp
  ultimately have e: "ceildiv (length bs) chunkSize * chunkSize - length bs =
      ceildiv (length bs - chunkSize) chunkSize * chunkSize - (length bs - chunkSize)" using False by simp
  have "list_splice zero_chunk 0 (take chunkSize bs) = take chunkSize bs"
    using False by (simp add: list_splice_def zero_chunk_def)
  with e show ?thesis by (simp add: pad_def)
qed

section \<open>The loop\<close>

definition swapped_in :: "env \<Rightarrow> chunk set \<Rightarrow> (hid \<Rightarrow> nat) \<Rightarrow> stor \<Rightarrow> byte list \<Rightarrow> nat \<Rightarrow> hid list \<times> nat list \<Rightarrow> stor \<Rightarrow> bool" where
  "swapped_in E U R s new k r s' \<longleftrightarrow> (case r of (hs, bkts) \<Rightarrow>
     (\<forall>h \<in> set hs. alive s' h) \<and> data_of E s' hs = new \<and> (\<forall>i \<in> set bkts. log_ok E s' i) \<and>
     (\<forall>i. log_ok E s i \<longrightarrow> log_ok E s' i) \<and> stor_room s' k \<and> steady E s s' \<and>
     store_inv E U (\<lambda>g. R g + count_list hs g) s')"

lemma swapped_in_cons:
  assumes "swapped_in E U (R(n := R n + 1)) u new k (hs, bkts) t" "alive u n" "hcontent E u n = c"
    and "steady E s u" "\<forall>i. log_ok E s i \<longrightarrow> log_ok E u i" "log_ok E u b"
  shows "swapped_in E U R s (c @ new) k (n # hs, b # bkts) t"
proof -
  have R: "(\<lambda>g. (R(n := R n + 1)) g + count_list hs g) = (\<lambda>g. R g + count_list (n # hs) g)" by auto
  have st: "steady E u t" and si: "store_inv E U (\<lambda>g. R g + count_list (n # hs) g) t"
    using assms(1) by (simp_all only: swapped_in_def case_prod_conv R simp_thms)
  have "steady E s t" by (rule steady_trans [OF assms(4) st])
  with si show ?thesis using assms steadyD [OF st assms(2)] by (simp add: swapped_in_def)
qed

lemma wp_swap_loop:
  assumes "store_inv E U R s" "alive s zeroHash" "hcontent E s zeroHash = zero_chunk"
    and "length bs \<le> fuel" "chunks_legal (U - {zero_chunk}) (pad bs)"
    and "stor_room s (ceildiv (length bs) chunkSize + k)"
  shows "wp (swap_loop E fuel bs) (swapped_in E U R s (pad bs) k) s"
  using assms
proof (induction fuel arbitrary: bs s R)
  case 0
  then show ?case by (simp add: swapped_in_def ceildiv_def)
next
  case (Suc fuel)
  show ?case
  proof (cases "bs = []")
    case True
    with Suc.prems show ?thesis by (simp add: swapped_in_def ceildiv_def)
  next
    case False
    let ?c = "list_splice zero_chunk 0 (take chunkSize bs)" and ?r = "drop chunkSize bs"
    have len: "length ?c = chunkSize" by (simp add: zero_chunk_def)
    have leg: "?c \<in> U" "?c \<noteq> zero_chunk" "chunks_legal (U - {zero_chunk}) (pad ?r)"
      using Suc.prems(5) by (simp_all add: pad_step [OF False] chunks_legal_cons [OF len])
    have fuel: "length ?r \<le> fuel" using Suc.prems(4) False by (simp add: chunkSize_def)
    have room: "stor_room s (Suc (ceildiv (length ?r) chunkSize + k))"
      using Suc.prems(6) False by (simp add: ceildiv_step)
    have fits: "0 + length (take chunkSize bs) \<le> chunkSize" by simp
    note law = cs.write_law [OF Suc.prems(1,2) fits _ room, unfolded Suc.prems(3), OF leg(1)]
    show ?thesis
      unfolding swap_loop.simps if_not_P [OF False] wp_bind
    proof (rule wp_mono [OF law], elim conjE)
      fix r u
      assume u: "store_inv E U R u" "stor_room u (ceildiv (length ?r) chunkSize + k)"
        "\<forall>g. alive s g \<longrightarrow> alive u g \<and> hcontent E u g = hcontent E s g"
        "\<forall>i. log_ok E s i \<longrightarrow> log_ok E u i"
        "case r of None \<Rightarrow> ?c = zero_chunk | Some n \<Rightarrow> alive u n \<and> hcontent E u n = ?c"
      have st: "steady E s u" using u(3) by (simp add: steady_def)
      obtain n where n: "r = Some n" "alive u n" "hcontent E u n = ?c" using u(5) leg(2) by (cases r) auto
      let ?b = "bucket_of (hash_getBucketIndex u n)"
      have b: "log_ok E u ?b" by (rule cs.live_markable [OF u(1) n(2)])
      have "wp (hash_incRefCnt E n 1) (\<lambda>_. wp (swap_loop E fuel ?r) (\<lambda>(hs, bs).
          swapped_in E U R s (?c @ pad ?r) k (n # hs, ?b # bs))) u"
      proof (rule wp_mono [OF cs.inc_law [OF u(1) n(2), of 1]], elim conjE)
        fix v assume v: "store_inv E U (R(n := R n + 1)) v" "\<forall>k. stor_room u k \<longrightarrow> stor_room v k"
            "\<forall>g. alive u g \<longrightarrow> alive v g \<and> hcontent E v g = hcontent E u g"
            "\<forall>i. log_ok E u i \<longrightarrow> log_ok E v i"
        have sv: "steady E s v" using v(3) steadyD [OF st] by (simp add: steady_def)
        have z: "alive v zeroHash" "hcontent E v zeroHash = zero_chunk"
          using steadyD [OF sv Suc.prems(2)] Suc.prems(3) by simp_all
        have nv: "alive v n" "hcontent E v n = ?c" using v(3) n by simp_all
        have lg: "\<forall>i. log_ok E s i \<longrightarrow> log_ok E v i" "log_ok E v ?b" using u(4) v(4) b by simp_all
        have "stor_room v (ceildiv (length ?r) chunkSize + k)" using v(2) u(2) by blast
        from Suc.IH [OF v(1) z fuel leg(3) this]
        show "wp (swap_loop E fuel ?r) (\<lambda>(hs, bs). swapped_in E U R s (?c @ pad ?r) k (n # hs, ?b # bs)) v"
          by (rule wp_mono) (simp only: split_paired_all case_prod_conv, erule swapped_in_cons [OF _ nv sv lg])
      qed
      then show "wp (assertS (r \<noteq> None)) (\<lambda>_. wp (getS (\<lambda>s. bucket_of (hash_getBucketIndex s (the r)))) (\<lambda>b.
          wp (hash_incRefCnt E (the r) 1) (\<lambda>_. wp (swap_loop E fuel ?r)
            (\<lambda>x. wp (case x of (hs, bs) \<Rightarrow> returnS (the r # hs, b # bs)) (swapped_in E U R s (pad bs) k))))) u"
        by (simp add: n(1) pad_step [OF False] case_prod_unfold)
    qed
  qed
qed

section \<open>The whole operation\<close>

definition node_swapped :: "world \<Rightarrow> fsys \<Rightarrow> byte list \<Rightarrow> inode \<Rightarrow> inode" where
  "node_swapped W t bs n = n\<lparr>in_size := length bs, in_mtime := w_time W (Suc (fs_clock t)),
     in_ctime := w_time W (Suc (fs_clock t))\<rparr>"

definition swapped :: "env \<Rightarrow> world \<Rightarrow> chunk set \<Rightarrow> (hid \<Rightarrow> nat) \<Rightarrow> fsys \<Rightarrow> fid \<Rightarrow> byte list \<Rightarrow> inode \<Rightarrow> nat \<Rightarrow> fsys \<Rightarrow> bool" where
  "swapped E W U R t f bs n k t' \<longleftrightarrow>
     file_bytes E t' f = pad bs \<and> has_node t' f (node_swapped W t bs n) \<and>
     (\<exists>R'. file_ready E U R' t' f \<and> rewired R (refs_of t f) R' (refs_of t' f)) \<and>
     shared_kept E R (refs_of t f) (fs_stor t) (fs_stor t') \<and> stor_room (fs_stor t') k \<and>
     (\<exists>hs s. t' = put_node f (node_swapped W t bs n) (t\<lparr>
        fs_files := (fs_files t)[f := (fs_files t ! f)\<lparr>f_hashes := \<lparr>pl_list = hs, pl_size = length hs\<rparr>\<rparr>],
        fs_clock := Suc (Suc (fs_clock t)), fs_stor := s\<rparr>))"

lemma wp_stamp:
  assumes "has_node u f n"
  shows "wpx A (bindS (set_INode f g1) (\<lambda>_. bindS (currentTime W) (\<lambda>tv. bindS (set_INode f (g2 tv)) (\<lambda>_.
      bindS (currentTime W) (\<lambda>tv. bindS (set_INode f (g3 tv)) (\<lambda>_. m)))))) Q u =
    wpx A m Q (put_node f (g3 (w_time W (Suc (fs_clock u))) (g2 (w_time W (fs_clock u)) (g1 n)))
      (u\<lparr>fs_clock := Suc (Suc (fs_clock u))\<rparr>))"
proof -
  have h1: "has_node (put_node f (g1 n) u \<lparr>fs_clock := c\<rparr>) f (g1 n)" for c using assms by simp
  have h2: "has_node (put_node f a (put_node f (g1 n) u \<lparr>fs_clock := c\<rparr>) \<lparr>fs_clock := d\<rparr>) f a" for a c d
    using h1 by simp
  have p: "put_node f x (put_node f a (put_node f b u \<lparr>fs_clock := c\<rparr>) \<lparr>fs_clock := d\<rparr>) = put_node f x (u\<lparr>fs_clock := d\<rparr>)" for x a b c d
    by (simp add: put_node_def)
  show ?thesis
    by (simp add: wp_set_INode [OF assms] wp_set_INode [OF h1] wp_set_INode [OF h2] p)
qed

lemma wp_file_swapContent:
  assumes ready: "file_ready E U R t f" and W: "w_env W = E" and node: "has_node t f n"
    and obj: "valid_obj (fs_files t ! f)" "f_special (fs_files t ! f) = SF_REGULAR"
    and legal: "chunks_legal (U - {zero_chunk}) (pad bs)"
    and room: "stor_room (fs_stor t) (ceildiv (length bs) chunkSize + k)"
  shows "wpf (file_swapContent W f bs je) (\<lambda>r t'. r \<and> swapped E W U R t f bs n k t') t"
    (is "wpf _ ?Q t")
proof -
  let ?x = "fs_files t ! f" and ?s = "fs_stor t" and ?L = "refs_of t f"
  have F: "store_inv E U R ?s" "\<forall>g. count_list ?L g \<le> R g" "hcontent E ?s zeroHash = zero_chunk"
    using ready by (simp_all add: file_ready_def)
  have f: "f < length (fs_files t)" using node by (simp add: has_node_def)
  let ?K = "\<lambda>(newList, bkts). bindS (fget f) (\<lambda>x.
        let (oldList, l) = plist_swap (f_hashes x) newList in
        bindS (fupd f (\<lambda>x. x\<lparr>f_hashes := l\<rparr>)) (\<lambda>_.
        bindS (set_INode f (\<lambda>n. n\<lparr>in_size := length bs\<rparr>)) (\<lambda>_.
        bindS (currentTime W) (\<lambda>tv.
        bindS (set_INode f (\<lambda>n. n\<lparr>in_mtime := tv\<rparr>)) (\<lambda>_.
        bindS (currentTime W) (\<lambda>tv.
        bindS (set_INode f (\<lambda>n. n\<lparr>in_mtime := tv, in_ctime := tv\<rparr>)) (\<lambda>_.
        bindS (in_stor (forS oldList (\<lambda>h. hash_decRefCnt E h 1))) (\<lambda>_.
        bindS (mark_buckets E je bkts) (\<lambda>_.
        returnS True)))))))))"
  have "wpf (?K (hs, bkts)) ?Q (t\<lparr>fs_stor := s1\<rparr>)" if w: "swapped_in E U R ?s (pad bs) k (hs, bkts) s1" for hs bkts s1
  proof -
    let ?l = "\<lparr>pl_list = hs, pl_size = length hs\<rparr>"
    let ?t = "\<lambda>s. put_node f (node_swapped W t bs n) (t\<lparr>fs_files := (fs_files t)[f := ?x\<lparr>f_hashes := ?l\<rparr>],
      fs_clock := Suc (Suc (fs_clock t)), fs_stor := s\<rparr>)"
    note S = w [unfolded swapped_in_def case_prod_conv]
    let ?R1 = "\<lambda>g. R g + count_list hs g"
    let ?R2 = "\<lambda>g. ?R1 g - count_list ?L g"
    have si: "store_inv E U ?R1 s1" using S by blast
    have cnt: "count_list ?L g \<le> ?R1 g" for g using F(2) by (simp add: trans_le_add1)
    have rw: "rewired R ?L ?R2 hs" using cnt by (simp add: rewired_def)
    have dec: "wpf (forS ?L (\<lambda>h. hash_decRefCnt E h 1)) (\<lambda>_ s2. wpf (mark_buckets E je bkts) (\<lambda>_. ?Q True) (?t s2)) s1"
    proof (rule wp_mono [OF cs.dec_all [OF si cnt]], elim conjE)
      fix s2 assume d: "store_inv E U ?R2 s2" "\<forall>k. stor_room s1 k \<longrightarrow> stor_room s2 k"
        "\<forall>g. count_list ?L g < ?R1 g \<longrightarrow> cs.kept E s1 s2 g" "\<forall>i. log_ok E s1 i \<longrightarrow> log_ok E s2 i"
      have keep: "alive s2 g \<and> hcontent E s2 g = hcontent E s1 g" if "alive s1 g" "count_list ?L g < ?R1 g" for g
        using d(3) that by (auto simp: cs.kept_def)
      have hs: "alive s2 h \<and> hcontent E s2 h = hcontent E s1 h" if "h \<in> set hs" for h
      proof -
        have "0 < count_list hs h" using that count_list_0_iff by fastforce
        then have "count_list ?L h < ?R1 h" using F(2) [rule_format, of h] by linarith
        with keep S that show ?thesis by blast
      qed
      have sk: "shared_kept E R ?L ?s s2"
        unfolding shared_kept_def
      proof (intro allI impI)
        fix g assume g: "count_list ?L g < R g"
        then have "alive ?s g" using cs.ref_live [OF F(1), of g] by simp
        then have "alive s1 g \<and> hcontent E s1 g = hcontent E ?s g" using S steadyD by blast
        with keep [of g] g show "alive s2 g \<and> hcontent E s2 g = hcontent E ?s g" by simp
      qed
      show "wpf (mark_buckets E je bkts) (\<lambda>_. ?Q True) (?t s2)"
      proof (rule wp_mark_buckets)
        show "store_inv E U ?R2 (fs_stor (?t s2))" using d(1) by simp
        show "\<forall>i \<in> set bkts. log_ok E (fs_stor (?t s2)) i" using d(4) S by simp
        fix s3 assume m: "store_inv E U ?R2 s3" "\<And>k. stor_room (fs_stor (?t s2)) k \<Longrightarrow> stor_room s3 k"
          "steady E (fs_stor (?t s2)) s3"
        define t3 where "t3 = (?t s2)\<lparr>fs_stor := s3\<rparr>"
        have t3: "fs_stor t3 = s3" "fs_files t3 ! f = ?x\<lparr>f_hashes := ?l\<rparr>" using f by (simp_all add: t3_def)
        then have r3: "refs_of t3 f = hs" by (simp add: refs_of_def)
        have st: "steady E s2 s3" using m(3) by simp
        have sk3: "shared_kept E R ?L ?s s3"
          by (rule shared_kept_trans [OF rw sk steady_shared [OF d(1) st]])
        have "data_of E s3 hs = data_of E s2 hs" by (rule data_of_steady [OF st]) (use hs in blast)
        also have "\<dots> = data_of E s1 hs" by (rule data_of_cong) (use hs in blast)
        finally have fb: "file_bytes E t3 f = pad bs" using S by (simp add: file_bytes_def r3 t3)
        have rdy: "file_ready E U ?R2 t3 f"
          by (rule ready_rewired [OF ready]) (use m(1) rw sk3 in \<open>simp_all add: t3 r3 plist_inv_def\<close>)
        have hn: "has_node t3 f (node_swapped W t bs n)"
          unfolding t3_def using node by (simp add: has_node_def put_node_def)
        have rm: "stor_room s3 k" using m(2) d(2) S by simp
        have e3: "t3 = ?t s3" by (simp add: t3_def put_node_def)
        have "swapped E W U R t f bs n k t3"
          unfolding swapped_def t3(1) r3
          by (intro conjI exI [of _ ?R2] fb hn sk3 rm rdy rw) (intro exI, rule e3)
        then show "?Q True ((?t s2)\<lparr>fs_stor := s3\<rparr>)" by (simp add: t3_def)
      qed
    qed
    have nd: "has_node (t\<lparr>fs_stor := s1, fs_files := (fs_files t)[f := ?x\<lparr>f_hashes := ?l\<rparr>]\<rparr>) f n"
      using node by (simp add: has_node_def)
    have e: "put_node f (n\<lparr>in_size := length bs, in_mtime := w_time W (Suc (fs_clock t)),
          in_ctime := w_time W (Suc (fs_clock t))\<rparr>) (t\<lparr>fs_stor := s1, fs_files := (fs_files t)[f := ?x\<lparr>f_hashes := ?l\<rparr>],
          fs_clock := Suc (Suc (fs_clock t))\<rparr>)\<lparr>fs_stor := s\<rparr> = ?t s" for s
      by (simp add: put_node_def node_swapped_def)
    show ?thesis
      unfolding case_prod_conv plist_swap_def Let_def wp_bind [of _ "fget _"] wp_bind [of _ "fupd _ _"] wp_fget wp_fupd
      using dec by (simp add: wp_stamp [OF nd] e refs_of_def wp_bind [of _ "in_stor _"] wp_bind [of _ "mark_buckets _ _ _"]
        del: wp_bind)
  qed
  then have "wpf (bindS (in_stor (swap_loop E (length bs) bs)) ?K) ?Q t"
    unfolding wp_bind wp_in_stor
    by (intro wp_allow [OF wp_swap_loop [OF F(1) ready_zero [OF ready] F(3) order_refl legal room]])
       (auto simp: split_paired_all)
  then show ?thesis
    unfolding file_swapContent_def Let_def W
    using obj by (simp only: wp_bind [of _ "fget _"] wp_fget if_False simp_thms)
qed

end
