(* ===== verification/File_Rest.thy ===== *)
theory File_Rest
  imports File_Swap
begin

text \<open>
  Storing and loading the list of hashes of a file (\<^verbatim>\<open>file::rest\<close> and
  \<^verbatim>\<open>file::loadHashes\<close> in \<^verbatim>\<open>src/src/modules/filesystem/file.cpp\<close>), for
  files whose hashes fit into the inode itself.
\<close>

section \<open>Slots of live hashes\<close>

abbreviation slot_nr :: "stor \<Rightarrow> hid \<Rightarrow> bucketIndex_t" where
  "slot_nr s h \<equiv> h_bucketIndex (hash_at s h)"

lemma store_invD: "store_inv E U R s \<Longrightarrow> stor_inv E U R s"
  by (simp add: store_inv_def)

lemma slot_nonzero:
  assumes "store_inv E U R s" "alive s h" shows "slot_nr s h \<noteq> 0"
proof -
  have "slot_nr s h \<in> slots_of s" using assms(2) by (auto simp: slots_of_def)
  then show ?thesis using acc.holds_nonzero [OF stor_invD(4) [OF store_invD [OF assms(1)]]] by metis
qed

lemma ref_count: "store_inv E U R s \<Longrightarrow> 0 < R h \<Longrightarrow> 0 < h_refcnt (hash_at s h)"
  using stor_invD(5,7) [OF store_invD] by (metis of_nat_0_less_iff)

lemma quiet_steady:
  assumes "store_inv E U R s" "quiet E s s'"
  shows "store_inv E U R s'" "steady E s s'" "\<And>k. stor_room s k \<Longrightarrow> stor_room s' k"
    "\<And>h. alive s h \<Longrightarrow> slot_nr s' h = slot_nr s h"
  using quiet_post [OF assms] quietD(5) [OF assms(2)] by (auto simp: steady_def)

section \<open>Storing the list\<close>

definition rested :: "stor \<Rightarrow> hid list \<Rightarrow> inode \<Rightarrow> inode" where
  "rested s hs n = n\<lparr>in_ctd := if hs = [] then (in_ctd n)[0 := 0] else list_splice (in_ctd n) 0 (map (slot_nr s) hs)\<rparr>"

lemma splice_update:
  "i + length ys < length xs \<Longrightarrow> list_splice (xs[i := y]) (Suc i) ys = list_splice xs i (y # ys)"
  by (simp add: list_splice_def take_Suc_conv_app_nth)

lemma wp_rest_loop:
  assumes "store_inv E U R (fs_stor t)" "\<forall>h \<in> set hs. 0 < R h"
    and "c < length (fs_chunks t)" "fs_chunks t ! c = MNode n"
    and "idx + length hs < inode_numctd" "length (in_ctd n) = inode_numctd"
    and "\<And>s' m. quiet E (fs_stor t) s' \<Longrightarrow> Q (m, c) (t\<lparr>fs_stor := s', fs_chunks := (fs_chunks t)[c :=
      MNode (n\<lparr>in_ctd := list_splice (in_ctd n) idx (map (slot_nr (fs_stor t)) hs)\<rparr>)]\<rparr>)"
  shows "wp (rest_loop hs True idx c nx num) Q t"
  using assms
proof (induction hs arbitrary: idx num t n)
  case Nil
  have "quiet E (fs_stor t) (fs_stor t)" by (rule quiet_refl [OF store_invD [OF Nil.prems(1)]])
  moreover have "(fs_chunks t)[c := MNode n] = fs_chunks t" using Nil.prems(4) by (metis list_update_id)
  ultimately show ?case using Nil.prems(7) [of "fs_stor t" num] by simp
next
  case (Cons h hs)
  let ?s = "fs_stor t" and ?i = "slot_nr (fs_stor t) h"
  have a: "alive ?s h" using cs.ref_live [OF Cons.prems(1)] Cons.prems(2) by simp
  have rc: "0 < h_refcnt (hash_at ?s h)" using ref_count [OF Cons.prems(1)] Cons.prems(2) by simp
  have small: "\<not> inode_numctd \<le> Suc idx" using Cons.prems(5) by simp
  have "wp (hash_rest h) (\<lambda>r s1. wp (rest_loop hs True (Suc idx) c nx (if r then Suc num else num)) Q
      (t\<lparr>fs_stor := s1, fs_chunks := (fs_chunks t)[c := MNode (n\<lparr>in_ctd := (in_ctd n)[idx := ?i]\<rparr>)]\<rparr>)) ?s"
  proof (rule wp_mono [OF wp_hash_rest [OF store_invD [OF Cons.prems(1)] a]])
    fix r s1 assume q: "quiet E ?s s1"
    note Q1 = quiet_steady [OF Cons.prems(1) q]
    let ?n = "n\<lparr>in_ctd := (in_ctd n)[idx := ?i]\<rparr>"
    let ?t = "t\<lparr>fs_stor := s1, fs_chunks := (fs_chunks t)[c := MNode ?n]\<rparr>"
    have al: "\<forall>g \<in> set hs. alive ?s g" using cs.ref_live [OF Cons.prems(1)] Cons.prems(2) by simp
    have ms: "map (slot_nr s1) hs = map (slot_nr ?s) hs" using Q1(4) al by simp
    show "wp (rest_loop hs True (Suc idx) c nx (if r then Suc num else num)) Q ?t"
    proof (rule Cons.IH)
      show "store_inv E U R (fs_stor ?t)" using Q1(1) by simp
      show "\<forall>h \<in> set hs. 0 < R h" using Cons.prems(2) by simp
      show "c < length (fs_chunks ?t)" "fs_chunks ?t ! c = MNode ?n" using Cons.prems(3) by simp_all
      show "Suc idx + length hs < inode_numctd" "length (in_ctd ?n) = inode_numctd" using Cons.prems(5,6) by simp_all
      fix s2 m assume "quiet E (fs_stor ?t) s2"
      then have "quiet E ?s s2" using quiet_trans [OF q] by simp
      from Cons.prems(7) [OF this, of m]
      show "Q (m, c) (?t\<lparr>fs_stor := s2, fs_chunks := (fs_chunks ?t)[c :=
          MNode (?n\<lparr>in_ctd := list_splice (in_ctd ?n) (Suc idx) (map (slot_nr (fs_stor ?t)) hs)\<rparr>)]\<rparr>)"
        using Cons.prems(5,6) splice_update [of idx "map (slot_nr ?s) hs" "in_ctd n" ?i] by (simp add: ms)
    qed
  qed
  then show ?case
    using rc small Cons.prems(3,4)
    by (simp add: upd_inode_def as_inode_def set_chunk_def Let_def)
qed

text \<open>Metadata chunks put into their slot.\<close>

definition node_stored :: "fsys \<Rightarrow> bucketIndex_t \<Rightarrow> cid \<Rightarrow> fsys" where
  "node_stored t i c = t\<lparr>fs_metaLoaded := if bucket_of i \<in> set (fs_metaLoaded t) then fs_metaLoaded t
       else fs_metaLoaded t @ [bucket_of i],
     fs_slots := (fs_slots t)(i \<mapsto> c), fs_slotHash := (fs_slotHash t)(i := True)\<rparr>"

lemma wp_storeInode:
  "fs_chunks t ! c = MNode n \<Longrightarrow> wpx A (storeInode c) Q t = Q () (node_stored t (in_myID n) c)"
  by (simp add: storeInode_def meta_putHashedChunk_def meta_getBucket_def node_stored_def)

lemma node_stored_simps [simp]:
  "fs_files (node_stored t i c) = fs_files t" "fs_chunks (node_stored t i c) = fs_chunks t"
  "fs_stor (node_stored t i c) = fs_stor t" "fs_clock (node_stored t i c) = fs_clock t"
  "fs_slots (node_stored t i c) = (fs_slots t)(i \<mapsto> c)" "fs_handles (node_stored t i c) = fs_handles t"
  "fs_pathCache (node_stored t i c) = fs_pathCache t" "fs_inodeCache (node_stored t i c) = fs_inodeCache t"
  "fs_rootFile (node_stored t i c) = fs_rootFile t" "fs_errorFile (node_stored t i c) = fs_errorFile t"
  "has_node (node_stored t i c) f n = has_node t f n" "refs_of (node_stored t i c) f = refs_of t f"
  by (simp_all add: node_stored_def has_node_def refs_of_def)

lemma refs_frame [simp]:
  "refs_of (put_node f n t) g = refs_of t g" "refs_of (t\<lparr>fs_stor := s\<rparr>) g = refs_of t g"
  by (simp_all add: refs_of_def)

lemma node_stored_twice [simp]: "node_stored (node_stored t i c) i c = node_stored t i c"
  by (simp add: node_stored_def)

lemma wp_file_rest:
  assumes ready: "file_ready E U R t f" and node: "has_node t f n"
    and obj: "valid_obj (fs_files t ! f)" "f_special (fs_files t ! f) = SF_REGULAR"
    and small: "length (refs_of t f) < inode_numctd" "length (in_ctd n) = inode_numctd" "in_myID n \<noteq> 0"
    and Q: "\<And>s' r. quiet E (fs_stor t) s' \<Longrightarrow> Q r (node_stored
      (put_node f (rested (fs_stor t) (refs_of t f) n) (t\<lparr>fs_stor := s'\<rparr>)) (in_myID n) (f_meta (fs_files t ! f)))"
  shows "wp (file_rest f) Q t"
proof -
  let ?x = "fs_files t ! f" and ?L = "refs_of t f"
  have si: "store_inv E U R (fs_stor t)" and pl: "plist_inv (f_hashes ?x)"
    using ready by (simp_all add: file_ready_def)
  have c: "f_meta ?x < length (fs_chunks t)" "fs_chunks t ! f_meta ?x = MNode n"
    using node by (simp_all add: has_node_def)
  have all: "plist_getAll (f_hashes ?x) = ?L" using plist_getAll_eq [OF pl] by (simp add: refs_of_def)
  have R: "\<forall>h \<in> set ?L. 0 < R h"
    using ready count_list_0_iff by (metis file_ready_def gr0I le_zero_eq)
  let ?K = "\<lambda>num :: nat. bindS (INode f) (\<lambda>n. bindS (whenS (in_myID n \<noteq> 0) (storeInode (f_meta ?x))) (\<lambda>_. returnS (num > 0)))"
  have fin: "wp (?K num) Q v"
    if "Q (num > 0) (node_stored v (in_myID n) (f_meta ?x))" "in_myID n' = in_myID n"
      "has_node v f n'" "f_meta (fs_files v ! f) = f_meta ?x" for n' num v
  proof -
    have "fs_chunks v ! f_meta ?x = MNode n'" using that(3,4) by (simp add: has_node_def)
    then show ?thesis using that small(3) by (simp add: wp_INode [OF that(3)] wp_storeInode)
  qed
  show ?thesis
  proof (cases "?L = []")
    case True
    have "Q False (node_stored (put_node f (rested (fs_stor t) [] n) t) (in_myID n) (f_meta ?x))"
      using Q [OF quiet_refl [OF store_invD [OF si]], of False] True by simp
    then have "wp (?K 0) Q (put_node f (rested (fs_stor t) [] n) t)"
      by (intro fin [OF _ _ has_node_put [OF node]]) (simp_all add: rested_def)
    then show ?thesis
      using obj True by (simp add: file_rest_def all wp_set_INode [OF node] rested_def if_bool_eq_conj)
  next
    case False
    have "wp (rest_loop ?L True 0 (f_meta ?x) (in_nextID n) 0) (\<lambda>(num, c).
        wp (bindS (storeInode c) (\<lambda>_. ?K num)) Q) t"
    proof (rule wp_rest_loop [OF si R c _ small(2)])
      show "0 + length ?L < inode_numctd" using small(1) by simp
      fix s' m assume q: "quiet E (fs_stor t) s'"
      let ?n = "rested (fs_stor t) ?L n"
      let ?v = "put_node f ?n (t\<lparr>fs_stor := s'\<rparr>)"
      let ?w = "node_stored ?v (in_myID n) (f_meta ?x)"
      have v: "t\<lparr>fs_stor := s', fs_chunks := (fs_chunks t)[f_meta ?x :=
          MNode (n\<lparr>in_ctd := list_splice (in_ctd n) 0 (map (slot_nr (fs_stor t)) ?L)\<rparr>)]\<rparr> = ?v"
        using False by (simp add: put_node_def rested_def)
      have hv: "has_node ?v f ?n" using node by simp
      then have cv: "fs_chunks ?v ! f_meta ?x = MNode ?n" by (simp add: has_node_def)
      have hw: "has_node ?w f ?n" using hv by (simp add: has_node_def node_stored_def)
      have my: "in_myID ?n = in_myID n" by (simp add: rested_def)
      have "wp (?K m) Q ?w"
        by (rule fin [OF _ my hw]) (use Q [OF q] in simp_all)
      then show "(case (m, f_meta ?x) of (num, c) \<Rightarrow> wp (bindS (storeInode c) (\<lambda>_. ?K num)) Q)
          (t\<lparr>fs_stor := s', fs_chunks := (fs_chunks t)[f_meta ?x :=
            MNode (n\<lparr>in_ctd := list_splice (in_ctd n) 0 (map (slot_nr (fs_stor t)) ?L)\<rparr>)]\<rparr>)"
        unfolding case_prod_conv v wp_bind [of _ "storeInode _"] wp_storeInode [OF cv] my .
    qed
    then show ?thesis
      using obj False by (simp add: file_rest_def all wp_INode [OF node] case_prod_unfold)
  qed
qed

section \<open>Loading the list\<close>

lemma wp_load_loop:
  assumes "store_inv E U R (fs_stor t)" "\<forall>h \<in> set hs. alive (fs_stor t) h"
    and "fs_chunks t ! c = MNode n" "idx + length hs < inode_numctd"
    and "\<forall>i < length hs. in_ctd n ! (idx + i) = slot_nr (fs_stor t) (hs ! i)"
    and "\<And>s'. quiet E (fs_stor t) s' \<Longrightarrow> Q (0, acc @ hs) (t\<lparr>fs_stor := s'\<rparr>)"
  shows "wp (load_loop E (length hs) True idx c nx acc) Q t"
  using assms
proof (induction hs arbitrary: idx acc t)
  case Nil
  have "quiet E (fs_stor t) (fs_stor t)" by (rule quiet_refl [OF store_invD [OF Nil.prems(1)]])
  from Nil.prems(6) [OF this] show ?case by simp
next
  case (Cons h hs)
  let ?s = "fs_stor t"
  have a: "alive ?s h" using Cons.prems(2) by simp
  have i: "in_ctd n ! idx = slot_nr ?s h" "slot_nr ?s h \<noteq> 0"
    using Cons.prems(5) slot_nonzero [OF Cons.prems(1) a] by fastforce+
  have small: "\<not> inode_numctd \<le> Suc idx" using Cons.prems(4) by simp
  have "wp (storage_getHash E (slot_nr ?s h)) (\<lambda>r s1. r = Some h \<and>
      wp (load_loop E (length hs) True (Suc idx) c nx (acc @ [h])) Q (t\<lparr>fs_stor := s1\<rparr>)) ?s"
  proof (rule wp_mono [OF wp_storage_getHash [OF store_invD [OF Cons.prems(1)] a]], elim conjE, intro conjI)
    fix s1 assume q: "quiet E ?s s1"
    note Q1 = quiet_steady [OF Cons.prems(1) q]
    let ?t = "t\<lparr>fs_stor := s1\<rparr>"
    show "wp (load_loop E (length hs) True (Suc idx) c nx (acc @ [h])) Q ?t"
    proof (rule Cons.IH)
      show "store_inv E U R (fs_stor ?t)" using Q1(1) by simp
      show "\<forall>h \<in> set hs. alive (fs_stor ?t) h" using Cons.prems(2) steadyD [OF Q1(2)] by simp
      show "fs_chunks ?t ! c = MNode n" "Suc idx + length hs < inode_numctd" using Cons.prems(3,4) by simp_all
      show "\<forall>i < length hs. in_ctd n ! (Suc idx + i) = slot_nr (fs_stor ?t) (hs ! i)"
      proof (intro allI impI)
        fix i assume l: "i < length hs"
        have "alive ?s (hs ! i)" using Cons.prems(2) l by simp
        then show "in_ctd n ! (Suc idx + i) = slot_nr (fs_stor ?t) (hs ! i)"
          using Cons.prems(5) [rule_format, of "Suc i"] l Q1(4) by simp
      qed
      fix s2 assume "quiet E (fs_stor ?t) s2"
      then have "quiet E ?s s2" using quiet_trans [OF q] by simp
      from Cons.prems(6) [OF this] show "Q (0, (acc @ [h]) @ hs) (?t\<lparr>fs_stor := s2\<rparr>)" by simp
    qed
  qed
  then have "wp (storage_getHash E (slot_nr ?s h)) (\<lambda>r s1. wp (bindS (case r of
                Some h \<Rightarrow> returnS h
              | None \<Rightarrow> bindS (in_stor (hash_incRefCnt E zeroHash 1)) (\<lambda>_. returnS zeroHash)) (\<lambda>h.
       load_loop E (length hs) True (Suc idx) c nx (acc @ [h]))) Q (t\<lparr>fs_stor := s1\<rparr>)) ?s"
    by (rule wp_mono) simp
  then show ?case
    using small Cons.prems(3) i by (simp add: as_inode_def)
qed

lemma wp_load_hashlist:
  assumes si: "store_inv E U R (fs_stor t)" and al: "\<forall>h \<in> set hs. alive (fs_stor t) h" and W: "w_env W = E"
    and node: "has_node t f n" and reg: "f_special (fs_files t ! f) = SF_REGULAR"
    and new: "f_hashes (fs_files t ! f) = plist_new"
    and len: "ceildiv (in_size n) chunkSize = length hs" "length hs < inode_numctd"
    and ctd: "\<forall>i < length hs. in_ctd n ! i = slot_nr (fs_stor t) (hs ! i)"
    and Q: "\<And>s'. quiet E (fs_stor t) s' \<Longrightarrow> Q () (t\<lparr>fs_stor := s', fs_files := (fs_files t)[f :=
      (fs_files t ! f)\<lparr>f_hashes := \<lparr>pl_list = hs, pl_size = length hs\<rparr>\<rparr>]\<rparr>)"
  shows "wp (load_hashlist W f) Q t"
proof -
  let ?N = "length hs" and ?x = "fs_files t ! f"
  let ?l = "\<lparr>pl_list = replicate ?N zeroHash, pl_size = ?N\<rparr>"
  let ?t = "t\<lparr>fs_files := (fs_files t)[f := ?x\<lparr>f_hashes := ?l\<rparr>]\<rparr>"
  have f: "f < length (fs_files t)" using node by (simp add: has_node_def)
  have tr: "snd (plist_truncateAndReturn plist_new ?N zeroHash) = ?l"
    by (simp add: plist_truncateAndReturn_def plist_new_def vec_resize_def Let_def)
  have up: "plist_updateRange ?l 0 hs = (True, \<lparr>pl_list = hs, pl_size = ?N\<rparr>)"
    by (simp add: plist_updateRange_def store_from_eq list_splice_def)
  have h1: "has_node ?t f n" using node by simp
  have c1: "fs_chunks ?t ! f_meta ?x = MNode n" using node by (simp add: has_node_def)
  have "wp (load_loop E ?N True 0 (f_meta ?x) (in_nextID n) []) (\<lambda>(m, gs) u. m = 0 \<and> gs = hs \<and>
      (\<exists>s'. quiet E (fs_stor t) s' \<and> u = ?t\<lparr>fs_stor := s'\<rparr>)) ?t"
    by (rule wp_load_loop [OF _ _ c1]) (use si al len(2) ctd in auto)
  then have "wp (load_loop E ?N True 0 (f_meta ?x) (in_nextID n) []) (\<lambda>(missing, hashes).
      wp (bindS (whenS (missing > 0) (in_stor (hash_incRefCnt E zeroHash missing))) (\<lambda>_.
     bindS (fget f) (\<lambda>x.
     bindS (assertS (fst (plist_updateRange (f_hashes x) 0 hashes))) (\<lambda>_.
     fupd f (\<lambda>x. x\<lparr>f_hashes := snd (plist_updateRange (f_hashes x) 0 hashes)\<rparr>))))) Q) ?t"
  proof (rule wp_mono, unfold split_paired_all case_prod_conv, elim conjE exE)
    fix m :: nat and gs u s' assume q: "quiet E (fs_stor t) s'" and e: "m = 0" "gs = hs" "u = ?t\<lparr>fs_stor := s'\<rparr>"
    show "wp (bindS (whenS (m > 0) (in_stor (hash_incRefCnt E zeroHash m))) (\<lambda>_.
     bindS (fget f) (\<lambda>x.
     bindS (assertS (fst (plist_updateRange (f_hashes x) 0 gs))) (\<lambda>_.
     fupd f (\<lambda>x. x\<lparr>f_hashes := snd (plist_updateRange (f_hashes x) 0 gs)\<rparr>))))) Q u"
      using Q [OF q] f unfolding e by (simp add: up)
  qed
  then show ?thesis
    unfolding load_hashlist_def W
    by (simp add: file_size_def reg wp_INode [OF node] len(1) Let_def new tr wp_INode [OF h1] f case_prod_unfold)
qed

lemma wp_file_new:
  assumes si: "store_inv E U R (fs_stor t)" and al: "\<forall>h \<in> set hs. alive (fs_stor t) h" and W: "w_env W = E"
    and c: "c < length (fs_chunks t)" "fs_chunks t ! c = MNode n"
    and ty: "type_of_mode (in_mode n) \<in> {FT_FILE, FT_DIR, FT_LNK}" and meta: "in_metasize n = 0"
    and len: "ceildiv (in_size n) chunkSize = length hs" "length hs < inode_numctd"
    and ctd: "\<forall>i < length hs. in_ctd n ! i = slot_nr (fs_stor t) (hs ! i)"
    and Q: "\<And>s'. quiet E (fs_stor t) s' \<Longrightarrow> Q (length (fs_files t)) (t\<lparr>fs_stor := s', fs_files := fs_files t @
        [\<lparr>f_special = SF_REGULAR, f_meta = c, f_path = path, f_perms = perms,
          f_hashes = \<lparr>pl_list = hs, pl_size = length hs\<rparr>,
          f_hashWrites = 0, f_hashReads = 0, f_refs = 0, f_deleted = False, f_extraMeta = make_json\<rparr>]\<rparr>)"
  shows "wp (file_new W c path perms) Q t"
proof -
  let ?f = "length (fs_files t)"
  let ?x = "\<lparr>f_special = SF_REGULAR, f_meta = c, f_path = path, f_perms = perms, f_hashes = plist_new,
          f_hashWrites = 0, f_hashReads = 0, f_refs = 0, f_deleted = False, f_extraMeta = make_json\<rparr>"
  let ?t = "t\<lparr>fs_files := fs_files t @ [?x]\<rparr>"
  have node: "has_node ?t ?f n" using c by (simp add: has_node_def)
  let ?K = "\<lambda>_::unit. bindS (INode ?f) (\<lambda>n. whenS (in_metasize n > 0)
       (bindS (fget ?f) (\<lambda>x.
        bindS (loadMetaDataFromINode (f_meta x)) (\<lambda>metaString.
        bindS (liftS (json_unserialize (w_fpu W) (f_extraMeta x) metaString)) (\<lambda>j.
        fupd ?f (\<lambda>x. x\<lparr>f_extraMeta := j\<rparr>))))))"
  have "wp (load_hashlist W ?f) (\<lambda>u. wp (?K u) (\<lambda>_. Q ?f)) ?t"
  proof (rule wp_load_hashlist [OF _ _ W node _ _ len])
    fix s' assume q: "quiet E (fs_stor ?t) s'"
    let ?u = "?t\<lparr>fs_stor := s', fs_files := (fs_files ?t)[?f :=
      (fs_files ?t ! ?f)\<lparr>f_hashes := \<lparr>pl_list = hs, pl_size = length hs\<rparr>\<rparr>]\<rparr>"
    have h: "has_node ?u ?f n" using c by (simp add: has_node_def)
    show "wp (?K ()) (\<lambda>_. Q ?f) ?u"
      using Q [of s'] q by (simp only: wp_bind wp_INode [OF h] meta less_irrefl) simp
  qed (use si al ctd in simp_all)
  then show ?thesis
    using ty by (simp add: file_new_def file_loadHashes_def file_type_def wp_INode [OF node])
qed

section \<open>The round trip\<close>

lemma rested_ctd:
  assumes "length hs < inode_numctd" "length (in_ctd n) = inode_numctd" "i < length hs"
  shows "in_ctd (rested s hs n) ! i = slot_nr s (hs ! i)"
  using assms by (auto simp: rested_def list_splice_def nth_append)

text \<open>
  C19: a file whose hashes fit into its inode keeps its content over \<^verbatim>\<open>rest\<close> and a
  fresh load: the object that the constructor makes from the stored inode has the same list of hashes, and
  so the same bytes, and takes over the references of the old one.
\<close>

theorem file_rest_reload:
  assumes "file_ready E U R t f" "w_env W = E" "has_node t f n"
    and "valid_obj (fs_files t ! f)" "f_special (fs_files t ! f) = SF_REGULAR"
    and "length (refs_of t f) < inode_numctd" "length (in_ctd n) = inode_numctd" "in_myID n \<noteq> 0"
    and "type_of_mode (in_mode n) \<in> {FT_FILE, FT_DIR, FT_LNK}" "in_metasize n = 0"
    and "ceildiv (in_size n) chunkSize = length (refs_of t f)"
  shows "wp (bindS (file_rest f) (\<lambda>_. file_new W (f_meta (fs_files t ! f)) path perms)) (\<lambda>F t'.
    F = length (fs_files t) \<and> f_path (fs_files t' ! F) = path \<and> f_perms (fs_files t' ! F) = perms \<and>
    refs_of t' F = refs_of t f \<and> file_bytes E t' F = file_bytes E t f \<and> file_ready E U R t' F) t"
proof -
  let ?L = "refs_of t f" and ?c = "f_meta (fs_files t ! f)" and ?n = "rested (fs_stor t) (refs_of t f) n"
  have F: "store_inv E U R (fs_stor t)" "\<forall>g. count_list ?L g \<le> R g" "count_list ?L zeroHash < R zeroHash"
    "hcontent E (fs_stor t) zeroHash = zero_chunk"
    using assms(1) by (simp_all add: file_ready_def)
  note al = ready_alive [OF assms(1)]
  show ?thesis
    unfolding wp_bind
  proof (rule wp_file_rest [OF assms(1,3-8)])
    fix s1 r assume q: "quiet E (fs_stor t) s1"
    note Q1 = quiet_steady [OF F(1) q]
    let ?t = "node_stored (put_node f ?n (t\<lparr>fs_stor := s1\<rparr>)) (in_myID n) ?c"
    have c: "?c < length (fs_chunks ?t)" "fs_chunks ?t ! ?c = MNode ?n"
      using assms(3) by (simp_all add: has_node_def put_node_def)
    show "wp (file_new W ?c path perms) (\<lambda>F t'. F = length (fs_files t) \<and> f_path (fs_files t' ! F) = path \<and>
        f_perms (fs_files t' ! F) = perms \<and> refs_of t' F = ?L \<and> file_bytes E t' F = file_bytes E t f \<and>
        file_ready E U R t' F) ?t"
    proof (rule wp_file_new [OF _ _ assms(2) c])
      show "store_inv E U R (fs_stor ?t)" using Q1(1) by simp
      show "\<forall>h \<in> set ?L. alive (fs_stor ?t) h" using al steadyD [OF Q1(2)] by simp
      show "\<forall>i < length ?L. in_ctd ?n ! i = slot_nr (fs_stor ?t) (?L ! i)"
        using rested_ctd [OF assms(6,7)] Q1(4) al by simp
      fix s2 assume "quiet E (fs_stor ?t) s2"
      then have q2: "quiet E (fs_stor t) s2" using quiet_trans [OF q] by simp
      note Q2 = quiet_steady [OF F(1) q2]
      let ?F = "length (fs_files ?t)"
      let ?x = "\<lparr>f_special = SF_REGULAR, f_meta = ?c, f_path = path, f_perms = perms,
        f_hashes = \<lparr>pl_list = ?L, pl_size = length ?L\<rparr>,
        f_hashWrites = 0, f_hashReads = 0, f_refs = 0, f_deleted = False, f_extraMeta = make_json\<rparr>"
      let ?u = "?t\<lparr>fs_stor := s2, fs_files := fs_files ?t @ [?x]\<rparr>"
      have x: "fs_files ?u ! ?F = ?x" "fs_stor ?u = s2" by simp_all
      then have rf: "refs_of ?u ?F = ?L" by (simp add: refs_of_def)
      have "hcontent E s2 zeroHash = zero_chunk" using steadyD [OF Q2(2) ready_zero [OF assms(1)]] F(4) by simp
      then have rdy: "file_ready E U R ?u ?F"
        unfolding file_ready_def rf x using Q2(1) F(2,3) by (simp add: plist_inv_def)
      have "file_bytes E ?u ?F = file_bytes E t f"
        unfolding file_bytes_def rf x by (rule data_of_steady [OF Q2(2) al])
      then show "?F = length (fs_files t) \<and> f_path (fs_files ?u ! ?F) = path \<and> f_perms (fs_files ?u ! ?F) = perms \<and>
        refs_of ?u ?F = ?L \<and> file_bytes E ?u ?F = file_bytes E t f \<and> file_ready E U R ?u ?F"
        using rf rdy x(1) by simp
    qed (use assms in \<open>simp_all add: rested_def\<close>)
  qed
qed

theorem file_rest_reload_witness:
  "wp (bindS (file_rest 0) (\<lambda>_. file_new sample_world 0 ''/f'' [])) (\<lambda>F t'. F = 1 \<and>
     file_bytes sample_env t' F = replicate (3 * chunkSize) 0) (sample_fsys 3 8193)"
proof -
  have m: "f_meta (fs_files (sample_fsys 3 8193) ! 0) = 0" "length (fs_files (sample_fsys 3 8193)) = 1"
    by (simp_all add: sample_fsys_def sample_fileobj_def)
  have "ceildiv (in_size (sample_inode 8193)) chunkSize = length (refs_of (sample_fsys 3 8193) 0)"
    by (simp add: ceildiv_def chunkSize_def)
  note r = file_rest_reload [OF sample_ready _ sample_fsys_simps(4) _ _ _ _ _ _ _ this, of sample_world "''/f''" "[]", unfolded m]
  show ?thesis
    by (rule wp_mono [OF r]) (simp_all add: sample_inode_def zero_inode_def inode_numctd_def bucketIndex_def
        type_of_mode_def mode_type_def mode_TYPE_def mode_TYPE_DIR_def mode_TYPE_REG_def)
qed

end
