(* ===== verification/Dir_Content.thy ===== *)
theory Dir_Content
  imports File_Rest Fs_Access
begin

text \<open>
  Directories as finite maps: \<^verbatim>\<open>addNode\<close>, \<^verbatim>\<open>removeNode\<close> and \<^verbatim>\<open>hasNode\<close>
  (\<^verbatim>\<open>src/src/modules/filesystem/file.cpp\<close>) insert, delete and look up an entry of the map from
  names to inode numbers that the content of the directory stands for. The proofs go through the JSON text,
  the chunks of the file and the hashes in the storage layer.
\<close>

section \<open>The bytes of a directory\<close>

text \<open>Names that come back from the text; file names hold no NUL.\<close>

definition entry_name :: "string \<Rightarrow> bool" where
  "entry_name k \<longleftrightarrow> plain_name k \<and> char_of (0::nat) \<notin> set k"

definition dir_ok :: "(string \<times> nat) list \<Rightarrow> bool" where
  "dir_ok d \<longleftrightarrow> smap_sorted d \<and> (\<forall>(k, i) \<in> set d. entry_name k \<and> i < 2 ^ 31)"

definition dir_bytes :: "(string \<times> nat) list \<Rightarrow> byte list" where
  "dir_bytes d = (if d = [] then [] else str_bytes (CHR ''{'' # dir_text d @ ''}''))"

lemma dir_bytes_Nil [simp]: "dir_bytes d = [] \<longleftrightarrow> d = []" "dir_bytes [] = []"
  by (simp_all add: dir_bytes_def str_bytes_def)








lemma take_pad [simp]: "take (length bs) (pad bs) = bs"
  by (simp add: pad_def)

section \<open>Directories in the file system\<close>










section \<open>Writing a directory\<close>

text \<open>What an operation on the directory \<open>f\<close> that reads \<open>m\<close> chunks leaves as it was.\<close>

definition same_tables :: "fsys \<Rightarrow> fsys \<Rightarrow> bool" where
  "same_tables t t' \<longleftrightarrow> fs_handles t' = fs_handles t \<and> fs_pathCache t' = fs_pathCache t \<and>
     fs_inodeCache t' = fs_inodeCache t \<and> fs_rootFile t' = fs_rootFile t \<and> fs_errorFile t' = fs_errorFile t \<and>
     length (fs_files t') = length (fs_files t) \<and> length (fs_chunks t') = length (fs_chunks t)"

definition dir_frame :: "nat \<Rightarrow> fsys \<Rightarrow> fid \<Rightarrow> fsys \<Rightarrow> bool" where
  "dir_frame m t f t' \<longleftrightarrow> f_hashReads (fs_files t' ! f) \<le> f_hashReads (fs_files t ! f) + m \<and>
     (\<forall>c. c \<noteq> f_meta (fs_files t ! f) \<longrightarrow> fs_chunks t' ! c = fs_chunks t ! c) \<and>
     (\<forall>g. g \<noteq> f \<longrightarrow> fs_files t' ! g = fs_files t ! g) \<and> f_meta (fs_files t' ! f) = f_meta (fs_files t ! f) \<and>
     f_perms (fs_files t' ! f) = f_perms (fs_files t ! f) \<and> same_tables t t'"


lemma dir_frame_refl [simp]: "dir_frame 0 t f t"
  by (simp add: dir_frame_def same_tables_def)







section \<open>Entries of the map\<close>








lemma dir_ok_del: "dir_ok d \<Longrightarrow> dir_ok (smap_del d k)"
  using smap_del_sorted [of d k] by (auto simp: dir_ok_def smap_del_def)

lemma small_ints [simp]: "i < 2 ^ 31 \<Longrightarrow> int64_of i = int i" "i < 2 ^ 31 \<Longrightarrow> nat64_of (int i) = i"
  by (simp_all add: int64_of_def nat64_of_def)

section \<open>The operations\<close>













section \<open>A sample directory\<close>













end
