(* ===== verification/Json_Ops.thy ===== *)
theory Json_Ops
  imports Json
begin

text \<open>
  The rest of the JSON values (\<^verbatim>\<open>src/src/modules/script/JSON.h\<close>, \<^verbatim>\<open>JSON.cpp\<close>):
  conversion between the types of a list, copying, merging, counting, and the assignments that the proxies of
  \<^verbatim>\<open>operator[]\<close> make. An undefined value has no storage object: what calls a member of it
  crashes, and so does the use of an object behind a null pointer.
\<close>

section \<open>Copying\<close>

text \<open>The assignment of an object to a new one: the values are converted to their own types, comments go along.\<close>

fun json_copy :: "json \<Rightarrow> json res"
  and copy_values :: "(string \<times> lvariant) list \<Rightarrow> (string \<times> lvariant) list res"
  and copy_lv :: "lvariant \<Rightarrow> lvariant res"
  and copy_objs :: "json option list \<Rightarrow> json option list res" where
  "json_copy (JSON vs cs) = bindR (copy_values vs) (\<lambda>vs'. Inr (JSON vs' cs))"
| "copy_values [] = Inr []"
| "copy_values ((k, v) # vs) = bindR (copy_lv v) (\<lambda>v'. bindR (copy_values vs) (\<lambda>vs'. Inr ((k, v') # vs')))"
| "copy_lv LUndef = Inl Undefined"
| "copy_lv (LObj os) = bindR (copy_objs os) (\<lambda>os'. Inr (LObj os'))"
| "copy_lv v = Inr v"
| "copy_objs [] = Inr []"
| "copy_objs (None # os) = Inl Undefined"
| "copy_objs (Some j # os) = bindR (json_copy j) (\<lambda>j'. bindR (copy_objs os) (\<lambda>os'. Inr (Some j' # os')))"

section \<open>Conversion\<close>

definition obj_convert :: "T \<Rightarrow> json option list \<Rightarrow> lvariant res" where
  "obj_convert ty os =
     (if ty = T_obj then
        bindR (mapR (\<lambda>x. case x of None \<Rightarrow> Inl Undefined | Some j \<Rightarrow> bindR (json_copy j) (\<lambda>j'. Inr (Some j'))) os)
          (\<lambda>os'. Inr (LObj os'))
      else Inl illegal_conversion)"

definition str_convert :: "fpu \<Rightarrow> T \<Rightarrow> string list \<Rightarrow> lvariant res" where
  "str_convert F ty ss =
     (case ty of T_str \<Rightarrow> Inr (LStr ss)
      | T_int \<Rightarrow> bindR (mapR c_stoi ss) (\<lambda>xs. Inr (LInt xs))
      | T_flt \<Rightarrow> bindR (mapR (f_stof F) ss) (\<lambda>xs. Inr (LFlt xs))
      | _ \<Rightarrow> Inl illegal_conversion)"

definition int_convert :: "fpu \<Rightarrow> T \<Rightarrow> int list \<Rightarrow> lvariant res" where
  "int_convert F ty xs =
     (case ty of T_int \<Rightarrow> Inr (LInt xs)
      | T_str \<Rightarrow> Inr (LStr (map int_to_string xs))
      | T_flt \<Rightarrow> Inr (LFlt (map (f_of_int F) xs))
      | _ \<Rightarrow> Inl illegal_conversion)"

definition flt_convert :: "fpu \<Rightarrow> T \<Rightarrow> flt_t list \<Rightarrow> lvariant res" where
  "flt_convert F ty xs =
     (case ty of T_flt \<Rightarrow> Inr (LFlt xs)
      | T_str \<Rightarrow> Inr (LStr (map (f_to_string F) xs))
      | T_int \<Rightarrow> Inr (LInt (map (f_to_int F) xs))
      | _ \<Rightarrow> Inl illegal_conversion)"

definition lv_convert :: "fpu \<Rightarrow> T \<Rightarrow> lvariant \<Rightarrow> lvariant res" where
  "lv_convert F ty v =
     (case v of LUndef \<Rightarrow> Inl Undefined | LObj os \<Rightarrow> obj_convert ty os | LStr ss \<Rightarrow> str_convert F ty ss
      | LInt xs \<Rightarrow> int_convert F ty xs | LFlt xs \<Rightarrow> flt_convert F ty xs)"

text \<open>The copy constructor and the assignment.\<close>

definition lv_copy :: "fpu \<Rightarrow> lvariant \<Rightarrow> lvariant res" where
  "lv_copy F v = lv_convert F (lv_type v) v"

text \<open>\<^verbatim>\<open>_GET\<close> for the storage of a type.\<close>

definition lv_empty :: "T \<Rightarrow> lvariant" where
  "lv_empty ty = (case ty of T_obj \<Rightarrow> LObj [] | T_str \<Rightarrow> LStr [] | T_int \<Rightarrow> LInt [] | T_flt \<Rightarrow> LFlt [] | T_undef \<Rightarrow> LUndef)"

definition lv_GET :: "fpu \<Rightarrow> T \<Rightarrow> lvariant \<Rightarrow> lvariant res" where
  "lv_GET F ty v =
     (if lv_type v \<noteq> ty then (if v \<noteq> LUndef then lv_convert F ty v else Inr (lv_empty ty)) else Inr v)"

section \<open>Counting\<close>

text \<open>A list of objects counts one more than the elements in them.\<close>

fun json_numElements :: "json \<Rightarrow> nat res"
  and values_numElements :: "(string \<times> lvariant) list \<Rightarrow> nat res"
  and lv_numElements :: "lvariant \<Rightarrow> nat res"
  and objs_numElements :: "json option list \<Rightarrow> nat res" where
  "json_numElements (JSON vs cs) = values_numElements vs"
| "values_numElements [] = Inr 0"
| "values_numElements ((k, v) # vs) =
     bindR (lv_numElements v) (\<lambda>n. bindR (values_numElements vs) (\<lambda>m. Inr (n + m)))"
| "lv_numElements LUndef = Inr 0"
| "lv_numElements (LObj os) = bindR (objs_numElements os) (\<lambda>n. Inr (1 + n))"
| "lv_numElements (LStr ss) = Inr (length ss)"
| "lv_numElements (LInt xs) = Inr (length xs)"
| "lv_numElements (LFlt xs) = Inr (length xs)"
| "objs_numElements [] = Inr 0"
| "objs_numElements (None # os) = Inl Undefined"
| "objs_numElements (Some j # os) =
     bindR (json_numElements j) (\<lambda>n. bindR (objs_numElements os) (\<lambda>m. Inr (n + m)))"

text \<open>The two levels of the list of objects by themselves.\<close>

definition objstor_numElements :: "json option list \<Rightarrow> nat res" where
  "objstor_numElements os =
     bindR (mapR (\<lambda>x. case x of None \<Rightarrow> Inl Undefined | Some j \<Rightarrow> json_numElements j) os) (\<lambda>ns. Inr (1 + sum_list ns))"

section \<open>Merging\<close>

text \<open>
  The values of the second object go into the first: lists of objects are merged place by place, anything
  else is replaced by a copy. Only a list of objects can merge, and only with another one.
\<close>

fun json_merge :: "json \<Rightarrow> json \<Rightarrow> json res"
  and merge_values :: "json \<Rightarrow> (string \<times> lvariant) list \<Rightarrow> json res"
  and merge_lv :: "lvariant \<Rightarrow> lvariant \<Rightarrow> lvariant res"
  and merge_objs :: "json option list \<Rightarrow> json option list \<Rightarrow> json option list res" where
  "json_merge a (JSON vs cs) = merge_values a vs"
| "merge_values a [] = Inr a"
| "merge_values a ((k, v) # vs) =
     bindR (merge_lv (json_value a k) v) (\<lambda>v'. merge_values (json_put a k v') vs)"
| "merge_lv a LUndef = Inl Undefined"
| "merge_lv a (LObj os) =
     (case a of LObj as \<Rightarrow> bindR (merge_objs as os) (\<lambda>r. Inr (LObj r)) | _ \<Rightarrow> copy_lv (LObj os))"
| "merge_lv a v = (case a of LObj _ \<Rightarrow> Inl AssertFail | _ \<Rightarrow> Inr v)"
| "merge_objs as [] = Inr as"
| "merge_objs as (None # os) = Inl Undefined"
| "merge_objs as (Some j # os) =
     bindR (json_merge (case as of Some x # _ \<Rightarrow> x | _ \<Rightarrow> make_json) j) (\<lambda>x.
     bindR (merge_objs (tl as) os) (\<lambda>r. Inr (Some x # r)))"

text \<open>\<^verbatim>\<open>ListVariant::merge\<close> by itself.\<close>

definition lv_merge :: "fpu \<Rightarrow> lvariant \<Rightarrow> lvariant \<Rightarrow> lvariant res" where
  "lv_merge F a v =
     (case a of
        LObj as \<Rightarrow>
          (case v of LUndef \<Rightarrow> Inl Undefined | LObj os \<Rightarrow> bindR (merge_objs as os) (\<lambda>r. Inr (LObj r)) | _ \<Rightarrow> Inl AssertFail)
      | _ \<Rightarrow> lv_copy F v)"

section \<open>Assignments\<close>

text \<open>What can be assigned to a proxy: a value, a list of values, an object.\<close>

datatype jarg = A_int int | A_flt flt_t | A_str string | A_ints "int list" | A_strs "string list" | A_obj json

text \<open>A list overwrites as many places from the offset on; an empty one only grows the list to the offset.\<close>

definition overwrite :: "'a list \<Rightarrow> nat \<Rightarrow> 'a list \<Rightarrow> 'a \<Rightarrow> 'a list" where
  "overwrite xs offset ys d =
     (let zs = vec_grow xs (offset + max 1 (length ys)) d in take offset zs @ ys @ drop (offset + length ys) zs)"

definition proxy_assign :: "fpu \<Rightarrow> json \<Rightarrow> string \<Rightarrow> nat \<Rightarrow> jarg \<Rightarrow> json res" where
  "proxy_assign F j name offset a =
     (case a of
        A_int i \<Rightarrow> json_set_int F j name offset i
      | A_flt x \<Rightarrow> json_set_flt F j name offset x
      | A_str s \<Rightarrow> json_set_str F j name offset s
      | A_ints is \<Rightarrow>
          bindR (lv_int_vec F (json_value j name)) (\<lambda>xs. Inr (json_put j name (LInt (overwrite xs offset is 0))))
      | A_strs ss \<Rightarrow>
          bindR (lv_str_vec F (json_value j name)) (\<lambda>xs. Inr (json_put j name (LStr (overwrite xs offset ss []))))
      | A_obj x \<Rightarrow>
          bindR (lv_get_obj (json_value j name) offset) (\<lambda>v.
          bindR (json_copy x) (\<lambda>x'.
          case v of LObj os \<Rightarrow> Inr (json_put j name (LObj (os[offset := Some x']))) | _ \<Rightarrow> Inl Undefined)))"

text \<open>\<^verbatim>\<open>setAll\<close> and \<^verbatim>\<open>init\<close>: names and values alternate in the arguments.\<close>

fun json_setAll :: "fpu \<Rightarrow> json \<Rightarrow> (string \<times> jarg) list \<Rightarrow> json res" where
  "json_setAll F j [] = Inr j"
| "json_setAll F j ((name, a) # args) = bindR (proxy_assign F j name 0 a) (\<lambda>j'. json_setAll F j' args)"

definition json_init :: "fpu \<Rightarrow> (string \<times> jarg) list \<Rightarrow> json res" where
  "json_init F args = json_setAll F make_json args"

section \<open>Laws\<close>

lemma mapR_objs:
  "mapR (\<lambda>x. case x of None \<Rightarrow> Inl Undefined | Some j \<Rightarrow> bindR (json_copy j) (\<lambda>j'. Inr (Some j'))) os = copy_objs os"
proof (induction os)
  case (Cons x os)
  then show ?case by (cases x) (simp_all add: bindR_def split: sum.split)
qed simp

lemma lv_copy_eq: "lv_copy F v = copy_lv v"
  by (cases v) (simp_all add: lv_copy_def lv_convert_def lv_type_def obj_convert_def str_convert_def int_convert_def
      flt_convert_def mapR_objs)

lemma lv_merge_eq: "lv_merge F a v = merge_lv a v"
  by (cases a; cases v) (simp_all add: lv_merge_def lv_copy_eq)

text \<open>The accesses of theory Json are \<^verbatim>\<open>_GET\<close> at each type.\<close>

lemma lv_GET_vec:
  "bindR (lv_GET F T_int v) (\<lambda>r. case r of LInt xs \<Rightarrow> Inr xs | _ \<Rightarrow> Inl Undefined) = lv_int_vec F v"
  "bindR (lv_GET F T_str v) (\<lambda>r. case r of LStr xs \<Rightarrow> Inr xs | _ \<Rightarrow> Inl Undefined) = lv_str_vec F v"
  "bindR (lv_GET F T_flt v) (\<lambda>r. case r of LFlt xs \<Rightarrow> Inr xs | _ \<Rightarrow> Inl Undefined) = lv_flt_vec F v"
  "bindR (lv_GET F T_obj v) (\<lambda>r. case r of LObj xs \<Rightarrow> Inr xs | _ \<Rightarrow> Inl Undefined) = lv_obj_vec v"
  by (cases v; simp add: lv_GET_def lv_empty_def lv_type_def lv_convert_def obj_convert_def str_convert_def int_convert_def
      flt_convert_def lv_int_vec_def lv_str_vec_def lv_flt_vec_def lv_obj_vec_def; simp add: bindR_def split: sum.split)+

text \<open>An object can be copied when nothing in it is undefined and no pointer in it is null.\<close>

fun json_total :: "json \<Rightarrow> bool"
  and lv_total :: "lvariant \<Rightarrow> bool" where
  "json_total (JSON vs cs) \<longleftrightarrow> (\<forall>(k, v) \<in> set vs. lv_total v)"
| "lv_total LUndef \<longleftrightarrow> False"
| "lv_total (LObj os) \<longleftrightarrow> (\<forall>x \<in> set os. case x of None \<Rightarrow> False | Some j \<Rightarrow> json_total j)"
| "lv_total v \<longleftrightarrow> True"

lemma copy_exact:
  "json_copy j = (if json_total j then Inr j else Inl Undefined)"
  "copy_values vs = (if \<forall>(k, v) \<in> set vs. lv_total v then Inr vs else Inl Undefined)"
  "copy_lv v = (if lv_total v then Inr v else Inl Undefined)"
  "copy_objs os = (if \<forall>x \<in> set os. (case x of None \<Rightarrow> False | Some j \<Rightarrow> json_total j) then Inr os else Inl Undefined)"
  by (induction j and vs and v and os rule: json_copy_copy_values_copy_lv_copy_objs.induct)
    (auto simp: bindR_def split: if_splits)

end
