(* ===== verification/Services.thy ===== *)
theory Services
  imports Effect
begin

text \<open>
  The services (\<^verbatim>\<open>src/src/modules/services/serviceHandler.h\<close>,
  \<^verbatim>\<open>serviceHandler.cpp\<close>): the handler's list of the services that run, and the automatic
  pointers that start a service when it is first used. A service is a place in a heap of objects, \<open>None\<close>
  once it has been deleted; using it after that is undefined. \<^verbatim>\<open>delete\<close> of a service runs the destructor of its
  class first (that of \<^verbatim>\<open>fs\<close>, in theory \<open>Fs_Mount\<close>, waits for changes without a limit, and uses the pointers of other services, which
  starts those that have been deleted); what these destructors do to the services is an argument here.
\<close>

section \<open>State\<close>

record service =
  sv_name :: string
  sv_deletemeptr :: "nat option"
  sv_loglevel :: int

text \<open>\<^verbatim>\<open>t_autoStartService\<close>; \<open>sv_deletemeptr\<close> is the number of the one whose flag it points to.\<close>

record autostart =
  as_ptr :: "nat option"
  as_deleted :: bool

record handler =
  sh_heap :: "service option list"
  sh_services :: "nat list"
  sh_slots :: "autostart list"
  sh_log :: "string list"

type_synonym 'a handler_op = "(handler, 'a) op"

definition CLOG :: "string \<Rightarrow> unit handler_op" where
  "CLOG s = modifyS (\<lambda>h. h\<lparr>sh_log := sh_log h @ [s]\<rparr>)"

definition service_at :: "nat \<Rightarrow> service handler_op" where
  "service_at p = bindS (getS (\<lambda>h. if p < length (sh_heap h) then sh_heap h ! p else None)) (\<lambda>r.
     case r of None \<Rightarrow> raiseS Undefined | Some s \<Rightarrow> returnS s)"

definition upd_slot :: "nat \<Rightarrow> (autostart \<Rightarrow> autostart) \<Rightarrow> unit handler_op" where
  "upd_slot k f = modifyS (\<lambda>h. h\<lparr>sh_slots := (sh_slots h)[k := f (sh_slots h ! k)]\<rparr>)"

section \<open>Services\<close>

definition srvMESSAGE :: "nat \<Rightarrow> string \<Rightarrow> unit handler_op" where
  "srvMESSAGE p m = bindS (service_at p) (\<lambda>s. whenS (sv_loglevel s > 0) (CLOG (sv_name s @ '': '' @ m)))"

definition srvERROR :: "nat \<Rightarrow> string \<Rightarrow> unit handler_op" where
  "srvERROR p m = bindS (service_at p) (\<lambda>s. whenS (sv_loglevel s > 1) (CLOG (sv_name s @ '' ERROR: '' @ m)))"

definition srvWARNING :: "nat \<Rightarrow> string \<Rightarrow> unit handler_op" where
  "srvWARNING p m = bindS (service_at p) (\<lambda>s. whenS (sv_loglevel s > 2) (CLOG (sv_name s @ '' WARNING: '' @ m)))"

definition srvDEBUG :: "nat \<Rightarrow> string \<Rightarrow> unit handler_op" where
  "srvDEBUG p m = bindS (service_at p) (\<lambda>s. whenS (sv_loglevel s > 3) (CLOG (sv_name s @ '' DEBUG: '' @ m)))"

definition setLogLevel :: "nat \<Rightarrow> int \<Rightarrow> unit handler_op" where
  "setLogLevel p a = bindS (service_at p) (\<lambda>s.
     modifyS (\<lambda>h. h\<lparr>sh_heap := (sh_heap h)[p := Some (s\<lparr>sv_loglevel := a\<rparr>)]\<rparr>))"

definition attachDeleteMePtr :: "nat \<Rightarrow> nat \<Rightarrow> unit handler_op" where
  "attachDeleteMePtr p k = bindS (service_at p) (\<lambda>s.
     modifyS (\<lambda>h. h\<lparr>sh_heap := (sh_heap h)[p := Some (s\<lparr>sv_deletemeptr := Some k\<rparr>)]\<rparr>))"

definition startService :: "nat \<Rightarrow> unit handler_op" where
  "startService p = modifyS (\<lambda>h. h\<lparr>sh_services := sh_services h @ [p]\<rparr>)"

text \<open>The first place of the list that holds the service is removed.\<close>

definition stopService :: "nat \<Rightarrow> unit handler_op" where
  "stopService p = bindS (getS sh_services) (\<lambda>ps.
     if p \<in> set ps then modifyS (\<lambda>h. h\<lparr>sh_services := remove1 p ps\<rparr>)
     else CLOG ''ERROR: Failed to stop service! could not find service pointer!'')"

definition service_new :: "string \<Rightarrow> nat handler_op" where
  "service_new n =
     bindS (getS (\<lambda>h. length (sh_heap h))) (\<lambda>p.
     bindS (modifyS (\<lambda>h. h\<lparr>sh_heap := sh_heap h @ [Some \<lparr>sv_name = n, sv_deletemeptr = None, sv_loglevel = 3\<rparr>]\<rparr>)) (\<lambda>_.
     bindS (srvMESSAGE p ''starting'') (\<lambda>_.
     bindS (startService p) (\<lambda>_. returnS p))))"

text \<open>The destructor of the base class.\<close>

definition service_destroy :: "nat \<Rightarrow> unit handler_op" where
  "service_destroy p =
     bindS (service_at p) (\<lambda>s.
     bindS (case sv_deletemeptr s of None \<Rightarrow> returnS ()
            | Some k \<Rightarrow> upd_slot k (\<lambda>a. a\<lparr>as_deleted := True\<rparr>)) (\<lambda>_.
     bindS (srvMESSAGE p ''stopping'') (\<lambda>_.
     stopService p)))"

section \<open>Automatic pointers\<close>

definition getIsRunning :: "autostart \<Rightarrow> bool" where
  "getIsRunning a \<longleftrightarrow> as_ptr a \<noteq> None \<and> \<not> as_deleted a"

text \<open>\<^verbatim>\<open>operator->\<close> of the pointer with number \<open>k\<close>, for the service of name \<open>n\<close>.\<close>

definition autostart_get :: "nat \<Rightarrow> string \<Rightarrow> nat handler_op" where
  "autostart_get k n =
     bindS (getS (\<lambda>h. as_deleted (sh_slots h ! k))) (\<lambda>d.
     bindS (whenS d (bindS (CLOG ''Service is required AGAIN after being retired.'')
              (\<lambda>_. upd_slot k (\<lambda>a. a\<lparr>as_ptr := None, as_deleted := False\<rparr>)))) (\<lambda>_.
     bindS (getS (\<lambda>h. as_ptr (sh_slots h ! k))) (\<lambda>r.
     case r of Some p \<Rightarrow> returnS p
     | None \<Rightarrow>
         bindS (service_new n) (\<lambda>p.
         bindS (upd_slot k (\<lambda>a. a\<lparr>as_ptr := Some p\<rparr>)) (\<lambda>_.
         bindS (attachDeleteMePtr p k) (\<lambda>_. returnS p))))))"

text \<open>
  What the destructor of a class does to the services: nothing when it never returns, otherwise the automatic pointers it uses, in order.
\<close>

type_synonym dtors = "string \<Rightarrow> (nat \<times> string) list option"

definition service_delete :: "dtors \<Rightarrow> nat \<Rightarrow> unit handler_op" where
  "service_delete D p =
     bindS (service_at p) (\<lambda>s.
     bindS (case D (sv_name s) of None \<Rightarrow> raiseS Hang
            | Some us \<Rightarrow> forS us (\<lambda>(k, n). bindS (autostart_get k n) (\<lambda>_. returnS ()))) (\<lambda>_.
     bindS (service_destroy p) (\<lambda>_.
     modifyS (\<lambda>h. h\<lparr>sh_heap := (sh_heap h)[p := None]\<rparr>))))"

definition autostart_stop :: "dtors \<Rightarrow> nat \<Rightarrow> unit handler_op" where
  "autostart_stop D k =
     bindS (getS (\<lambda>h. sh_slots h ! k)) (\<lambda>a.
     if getIsRunning a then
       bindS (service_delete D (the (as_ptr a))) (\<lambda>_. upd_slot k (\<lambda>a. a\<lparr>as_ptr := None\<rparr>))
     else returnS ())"

section \<open>The handler\<close>

text \<open>
  What the handler calls on every service each frame; no class of the program overrides it, so that the
  service's own function, which does nothing, is the one that runs.
\<close>

definition service_running :: "nat \<Rightarrow> unit handler_op" where
  "service_running p = bindS (service_at p) (\<lambda>_. returnS ())"

definition handler_run :: "unit handler_op" where
  "handler_run = bindS (getS sh_services) (\<lambda>ps. forS ps service_running)"

text \<open>
  The loop deletes the last service until none is left. A destructor can start services again, so that the loop has a fuel.
\<close>

fun stopAllServices :: "dtors \<Rightarrow> nat \<Rightarrow> unit handler_op" where
  "stopAllServices D 0 = bindS (getS sh_services) (\<lambda>ps. if ps = [] then returnS () else raiseS Hang)"
| "stopAllServices D (Suc n) =
     bindS (getS sh_services) (\<lambda>ps.
     if ps = [] then returnS () else bindS (service_delete D (last ps)) (\<lambda>_. stopAllServices D n))"

text \<open>The handler's destructor, which runs when the program ends.\<close>

definition handler_destroy :: "dtors \<Rightarrow> nat \<Rightarrow> unit handler_op" where
  "handler_destroy D n =
     bindS (getS sh_services) (\<lambda>ps.
     bindS (whenS (ps \<noteq> []) (CLOG ''ERROR: services array not empty.'')) (\<lambda>_. stopAllServices D n))"

section \<open>What is running\<close>

definition service_obj :: "handler \<Rightarrow> nat \<Rightarrow> service option" where
  "service_obj h p = (if p < length (sh_heap h) then sh_heap h ! p else None)"

text \<open>
  The handler lists exactly the objects that live, each once; a pointer that counts as running points to an
  object that lives and that will tell this pointer when it is deleted.
\<close>

definition services_ok :: "handler \<Rightarrow> bool" where
  "services_ok h \<longleftrightarrow> distinct (sh_services h) \<and>
     (\<forall>p. p \<in> set (sh_services h) \<longleftrightarrow> service_obj h p \<noteq> None) \<and>
     (\<forall>k < length (sh_slots h). getIsRunning (sh_slots h ! k) \<longrightarrow>
        (\<exists>p s. as_ptr (sh_slots h ! k) = Some p \<and> service_obj h p = Some s \<and> sv_deletemeptr s = Some k))"

definition no_services :: "nat \<Rightarrow> handler" where
  "no_services m = \<lparr>sh_heap = [], sh_services = [], sh_slots = replicate m \<lparr>as_ptr = None, as_deleted = False\<rparr>,
     sh_log = []\<rparr>"

lemma no_services_ok: "services_ok (no_services m)"
  by (simp add: services_ok_def no_services_def service_obj_def getIsRunning_def)

lemma wp_service_at [simp]:
  "wpx A (service_at p) Q = (\<lambda>h. case service_obj h p of None \<Rightarrow> Undefined \<in> A | Some s \<Rightarrow> Q s h)"
  by (auto simp: service_at_def service_obj_def fun_eq_iff split: option.splits)

lemma wp_CLOG [simp]: "wpx A (CLOG s) Q = (\<lambda>h. Q () (h\<lparr>sh_log := sh_log h @ [s]\<rparr>))"
  by (simp add: CLOG_def)

lemma wp_upd_slot [simp]:
  "wpx A (upd_slot k f) Q = (\<lambda>h. Q () (h\<lparr>sh_slots := (sh_slots h)[k := f (sh_slots h ! k)]\<rparr>))"
  by (simp add: upd_slot_def)

lemma service_obj_simps [simp]:
  "service_obj (h\<lparr>sh_log := l\<rparr>) p = service_obj h p"
  "service_obj (h\<lparr>sh_slots := ss\<rparr>) p = service_obj h p"
  "service_obj (h\<lparr>sh_services := ps\<rparr>) p = service_obj h p"
  "service_obj (h\<lparr>sh_heap := sh_heap h @ [x]\<rparr>) p = (if p = length (sh_heap h) then x else service_obj h p)"
  by (auto simp: service_obj_def nth_append)

lemma service_obj_upd:
  "q < length (sh_heap h) \<Longrightarrow> service_obj (h\<lparr>sh_heap := (sh_heap h)[q := x]\<rparr>) p = (if p = q then x else service_obj h p)"
  by (auto simp: service_obj_def)

lemma service_obj_less: "service_obj h p = Some s \<Longrightarrow> p < length (sh_heap h)"
  by (auto simp: service_obj_def split: if_splits)

lemma running_obj:
  assumes "services_ok h" "k < length (sh_slots h)" "getIsRunning (sh_slots h ! k)"
  obtains p s where "as_ptr (sh_slots h ! k) = Some p" "service_obj h p = Some s" "sv_deletemeptr s = Some k"
  using assms unfolding services_ok_def by blast

lemma services_ok_log [simp]: "services_ok (h\<lparr>sh_log := l\<rparr>) = services_ok h"
  by (simp add: services_ok_def)

text \<open>Destructors that return and use no service.\<close>

definition plain_dtors :: "dtors \<Rightarrow> bool" where
  "plain_dtors D \<longleftrightarrow> (\<forall>n. D n = Some [])"

text \<open>Deleting a service that lives.\<close>

lemma wp_service_delete:
  assumes D: "plain_dtors D" and ok: "services_ok h" and s: "service_obj h p = Some s"
  shows "wp (service_delete D p) (\<lambda>_ h'. services_ok h' \<and> service_obj h' p = None \<and>
     sh_services h' = remove1 p (sh_services h) \<and> length (sh_slots h') = length (sh_slots h) \<and>
     (sv_deletemeptr s = Some k \<longrightarrow> k < length (sh_slots h) \<longrightarrow> \<not> getIsRunning (sh_slots h' ! k))) h"
proof -
  have p: "p \<in> set (sh_services h)" "p < length (sh_heap h)"
    using ok s by (auto simp: services_ok_def service_obj_less)
  let ?h = "\<lambda>ss l. h\<lparr>sh_slots := ss, sh_log := l, sh_services := remove1 p (sh_services h), sh_heap := (sh_heap h)[p := None]\<rparr>"
  have obj: "service_obj (?h ss l) q = (if q = p then None else service_obj h q)" for ss l q
    using p(2) by (auto simp: service_obj_def)
  have inv: "services_ok (?h ss l)"
    if "length ss = length (sh_slots h)"
      "\<And>k. k < length ss \<Longrightarrow> getIsRunning (ss ! k) \<Longrightarrow> ss ! k = sh_slots h ! k \<and> sv_deletemeptr s \<noteq> Some k" for ss l
    unfolding services_ok_def obj
  proof (intro conjI allI impI)
    show "distinct (sh_services (?h ss l))" using ok by (simp add: services_ok_def)
  next
    fix q show "(q \<in> set (sh_services (?h ss l))) = ((if q = p then None else service_obj h q) \<noteq> None)"
      using ok by (auto simp: services_ok_def)
  next
    fix k assume k: "k < length (sh_slots (?h ss l))" "getIsRunning (sh_slots (?h ss l) ! k)"
    then have "ss ! k = sh_slots h ! k" "sv_deletemeptr s \<noteq> Some k" using that by auto
    then show "\<exists>q t. as_ptr (sh_slots (?h ss l) ! k) = Some q \<and>
       (if q = p then None else service_obj h q) = Some t \<and> sv_deletemeptr t = Some k"
      using ok k s that(1) unfolding services_ok_def by fastforce
  qed
  show ?thesis
  proof (cases "sv_deletemeptr s")
    case None
    then show ?thesis
      using p s inv [where ss = "sh_slots h"] inv [where ss = "sh_slots h" and l = "sh_log h"]
        obj [where ss = "sh_slots h" and q = p] obj [where ss = "sh_slots h" and q = p and l = "sh_log h"]
      by (auto simp: service_delete_def service_destroy_def D [unfolded plain_dtors_def] srvMESSAGE_def stopService_def)
  next
    case (Some j)
    let ?ss = "(sh_slots h)[j := (sh_slots h ! j)\<lparr>as_deleted := True\<rparr>]"
    have i: "services_ok (?h ?ss l)" for l
    proof (rule inv)
      fix k assume "k < length ?ss" "getIsRunning (?ss ! k)"
      then show "?ss ! k = sh_slots h ! k \<and> sv_deletemeptr s \<noteq> Some k"
        using Some by (cases "k = j") (auto simp: getIsRunning_def)
    qed simp
    then show ?thesis
      using p s obj [where ss = ?ss and q = p] obj [where ss = ?ss and q = p and l = "sh_log h"] Some i i [of "sh_log h"]
      by (auto simp: service_delete_def service_destroy_def D [unfolded plain_dtors_def] srvMESSAGE_def stopService_def nth_list_update getIsRunning_def)
  qed
qed

lemma wp_stopAllServices:
  assumes D: "plain_dtors D"
  shows "services_ok h \<Longrightarrow> length (sh_services h) \<le> n \<Longrightarrow> wp (stopAllServices D n) (\<lambda>_ h'. services_ok h' \<and>
     sh_services h' = [] \<and> length (sh_slots h') = length (sh_slots h)) h"
proof (induction n arbitrary: h)
  case (Suc n)
  show ?case
  proof (cases "sh_services h = []")
    case False
    then obtain s where s: "service_obj h (last (sh_services h)) = Some s"
      using Suc.prems last_in_set [OF False] unfolding services_ok_def by auto
    have "wp (service_delete D (last (sh_services h))) (\<lambda>_. wp (stopAllServices D n) (\<lambda>_ h'. services_ok h' \<and>
        sh_services h' = [] \<and> length (sh_slots h') = length (sh_slots h))) h"
    proof (rule wp_mono [OF wp_service_delete [OF D Suc.prems(1) s]], elim conjE)
      fix h' assume h': "services_ok h'" "sh_services h' = remove1 (last (sh_services h)) (sh_services h)"
        "length (sh_slots h') = length (sh_slots h)"
      have "length (sh_services h') \<le> n" using h'(2) Suc.prems(2) False by (simp add: length_remove1)
      from Suc.IH [OF h'(1) this] show "wp (stopAllServices D n) (\<lambda>_ h'. services_ok h' \<and>
        sh_services h' = [] \<and> length (sh_slots h') = length (sh_slots h)) h'" by (simp add: h'(3))
    qed
    then show ?thesis using False by simp
  qed (use Suc.prems in simp)
qed simp

text \<open>The destructor of a class that waits for ever, as that of \<^verbatim>\<open>fs\<close> can, stops the loop.\<close>

lemma stopAllServices_hangs:
  assumes "service_obj h (last (sh_services h)) = Some s" "D (sv_name s) = None" "sh_services h \<noteq> []"
  shows "stopAllServices D n h = Inl (Hang, h)"
  using assms
  by (cases n) (auto simp: bindS_def getS_def raiseS_def returnS_def service_delete_def service_at_def service_obj_def
      split: if_splits)

text \<open>Using a pointer: the service behind it lives and is listed.\<close>

lemma wp_autostart_get:
  assumes ok: "services_ok h" and k: "k < length (sh_slots h)"
  shows "wp (autostart_get k n) (\<lambda>p h'. services_ok h' \<and> length (sh_slots h') = length (sh_slots h) \<and>
     p \<in> set (sh_services h') \<and> service_obj h' p \<noteq> None \<and> getIsRunning (sh_slots h' ! k) \<and>
     as_ptr (sh_slots h' ! k) = Some p) h"
proof (cases "getIsRunning (sh_slots h ! k)")
  case True
  then obtain p s where "as_ptr (sh_slots h ! k) = Some p" "service_obj h p = Some s"
    using ok k unfolding services_ok_def by blast
  then show ?thesis using True ok k unfolding services_ok_def by (auto simp: autostart_get_def getIsRunning_def)
next
  case False
  let ?p = "length (sh_heap h)"
  let ?s = "\<lparr>sv_name = n, sv_deletemeptr = Some k, sv_loglevel = 3\<rparr>"
  let ?h = "\<lambda>a l. h\<lparr>sh_log := l, sh_services := sh_services h @ [?p], sh_slots := (sh_slots h)[k := a],
     sh_heap := sh_heap h @ [Some ?s]\<rparr>"
  have fresh: "?p \<notin> set (sh_services h)" "service_obj h ?p = None"
    using ok by (auto simp: services_ok_def service_obj_def)
  have obj: "service_obj (?h a l) q = (if q = ?p then Some ?s else service_obj h q)" for a l q
    by (auto simp: service_obj_def nth_append)
  have inv: "services_ok (?h a l)" if "as_ptr a = Some ?p" for a l
    unfolding services_ok_def obj
  proof (intro conjI allI impI)
    show "distinct (sh_services (?h a l))" using ok fresh by (simp add: services_ok_def)
  next
    fix q show "(q \<in> set (sh_services (?h a l))) = ((if q = ?p then Some ?s else service_obj h q) \<noteq> None)"
      using ok by (auto simp: services_ok_def)
  next
    fix j assume j: "j < length (sh_slots (?h a l))" "getIsRunning (sh_slots (?h a l) ! j)"
    show "\<exists>q t. as_ptr (sh_slots (?h a l) ! j) = Some q \<and>
       (if q = ?p then Some ?s else service_obj h q) = Some t \<and> sv_deletemeptr t = Some j"
    proof (cases "j = k")
      case False
      then have "j < length (sh_slots h)" "getIsRunning (sh_slots h ! j)" using j by simp_all
      then obtain q t where "as_ptr (sh_slots h ! j) = Some q" "service_obj h q = Some t" "sv_deletemeptr t = Some j"
        by (rule running_obj [OF ok])
      then show ?thesis using False fresh(2) by (intro exI [of _ q] exI [of _ t]) auto
    qed (use k that in simp)
  qed
  show ?thesis
    using False k inv obj [where q = ?p] fresh(2)
    by (auto simp: autostart_get_def getIsRunning_def service_new_def srvMESSAGE_def startService_def
        attachDeleteMePtr_def)
qed

section \<open>Sequences of uses\<close>

text \<open>What the program does with the automatic pointers: use one, stop one.\<close>

datatype service_call = Use nat string | Retire nat

fun service_call_run :: "dtors \<Rightarrow> service_call \<Rightarrow> unit handler_op" where
  "service_call_run D (Use k n) = bindS (autostart_get k n) (\<lambda>_. returnS ())"
| "service_call_run D (Retire k) = autostart_stop D k"

fun call_within :: "nat \<Rightarrow> service_call \<Rightarrow> bool" where
  "call_within m (Use k n) = (k < m)"
| "call_within m (Retire k) = (k < m)"

lemma wp_autostart_stop:
  assumes D: "plain_dtors D" and ok: "services_ok h" and k: "k < length (sh_slots h)"
  shows "wp (autostart_stop D k) (\<lambda>_ h'. services_ok h' \<and> length (sh_slots h') = length (sh_slots h)) h"
proof (cases "getIsRunning (sh_slots h ! k)")
  case True
  then obtain p s where p: "as_ptr (sh_slots h ! k) = Some p" "service_obj h p = Some s" "sv_deletemeptr s = Some k"
    using ok k unfolding services_ok_def by blast
  have "services_ok (h'\<lparr>sh_slots := (sh_slots h')[k := (sh_slots h' ! k)\<lparr>as_ptr := None\<rparr>]\<rparr>)"
    if "services_ok h'" for h'
    unfolding services_ok_def
  proof (intro conjI allI impI)
    fix j assume j: "j < length (sh_slots (h'\<lparr>sh_slots := (sh_slots h')[k := (sh_slots h' ! k)\<lparr>as_ptr := None\<rparr>]\<rparr>))"
      "getIsRunning (sh_slots (h'\<lparr>sh_slots := (sh_slots h')[k := (sh_slots h' ! k)\<lparr>as_ptr := None\<rparr>]\<rparr>) ! j)"
    then have "j \<noteq> k" by (auto simp: getIsRunning_def)
    then show "\<exists>p s. as_ptr (sh_slots (h'\<lparr>sh_slots := (sh_slots h')[k := (sh_slots h' ! k)\<lparr>as_ptr := None\<rparr>]\<rparr>) ! j) = Some p \<and>
       service_obj (h'\<lparr>sh_slots := (sh_slots h')[k := (sh_slots h' ! k)\<lparr>as_ptr := None\<rparr>]\<rparr>) p = Some s \<and>
       sv_deletemeptr s = Some j"
      using j that unfolding services_ok_def by simp
  qed (use that in \<open>simp_all add: services_ok_def\<close>)
  then show ?thesis
    using True p k wp_mono [OF wp_service_delete [OF D ok p(2), of k]] by (simp add: autostart_stop_def)
next
  case False
  then show ?thesis using ok by (simp add: autostart_stop_def)
qed

lemma wp_service_call:
  "plain_dtors D \<Longrightarrow> services_ok h \<Longrightarrow> call_within (length (sh_slots h)) c \<Longrightarrow>
   wp (service_call_run D c) (\<lambda>_ h'. services_ok h' \<and> length (sh_slots h') = length (sh_slots h)) h"
  by (cases c) (auto intro: wp_mono [OF wp_autostart_get] wp_autostart_stop)

lemma wp_service_calls:
  assumes D: "plain_dtors D" and "\<forall>c \<in> set cs. call_within m c"
  shows "wp (forS cs (service_call_run D)) (\<lambda>_ h. services_ok h \<and> length (sh_slots h) = m) (no_services m)"
  by (rule wp_for [where I = "\<lambda>cs h. services_ok h \<and> length (sh_slots h) = m \<and> (\<forall>c \<in> set cs. call_within m c)"])
    (use assms no_services_ok in \<open>auto simp: no_services_def intro: wp_mono [OF wp_service_call [OF D]]\<close>)

lemma stopped_none_running:
  assumes "services_ok h" "sh_services h = []"
  shows "\<forall>o1 \<in> set (sh_heap h). o1 = None" "\<forall>a \<in> set (sh_slots h). \<not> getIsRunning a"
proof -
  have none: "service_obj h p = None" for p using assms by (auto simp: services_ok_def)
  show "\<forall>o1 \<in> set (sh_heap h). o1 = None"
    using none by (fastforce simp: in_set_conv_nth service_obj_def split: if_splits)
  show "\<forall>a \<in> set (sh_slots h). \<not> getIsRunning a"
    using assms(1) none unfolding services_ok_def by (force simp: in_set_conv_nth)
qed

text \<open>Whatever the program did with its automatic pointers, \<open>stop_all_services\<close> ends with as much fuel as there are services, deletes every
  service once and leaves no pointer that counts as running, provided that the destructors of the classes return and use no
  service.\<close>

theorem stop_all_services_ends:
  assumes D: "plain_dtors D" and "\<forall>c \<in> set cs. call_within m c"
  shows "wp (forS cs (service_call_run D)) (\<lambda>_ h. wp (stopAllServices D (length (sh_services h)))
    (\<lambda>_ h'. sh_services h' = [] \<and> (\<forall>o1 \<in> set (sh_heap h'). o1 = None) \<and>
       (\<forall>a \<in> set (sh_slots h'). \<not> getIsRunning a)) h) (no_services m)"
  by (rule wp_mono [OF wp_service_calls [OF assms]], elim conjE, rule wp_mono [OF wp_stopAllServices [OF D]])
    (use stopped_none_running in auto)

theorem stop_all_services_ends_witness:
  "wp (forS [Use 0 ''STORAGE'', Use 1 ''FS'', Retire 0, Use 0 ''STORAGE''] (service_call_run (\<lambda>_. Some [])))
    (\<lambda>_ h. wp (stopAllServices (\<lambda>_. Some []) (length (sh_services h))) (\<lambda>_ h'. sh_services h' = [] \<and>
       (\<forall>o1 \<in> set (sh_heap h'). o1 = None) \<and> (\<forall>a \<in> set (sh_slots h'). \<not> getIsRunning a)) h) (no_services 3)"
  by (rule stop_all_services_ends) (simp_all add: plain_dtors_def)

end
