(* ===== verification/Host.thy ===== *)
theory Host
  imports Bucket Effect Str
begin

text \<open>
  What the program uses of the host: whole files (\<^verbatim>\<open>src/src/modules/util/files.cpp\<close>), the
  console (\<^verbatim>\<open>console.cpp\<close>), and the order of bytes in integers
  (\<^verbatim>\<open>endian.h\<close>).
\<close>

section \<open>Files\<close>

record host =
  ho_files :: "string \<Rightarrow> byte list option"
  ho_stdin :: string
  ho_stdout :: string
  ho_echo :: bool

type_synonym 'a host_op = "(host, 'a) op"

text \<open>
  What the operating system decides: which files can be opened for writing, how much of what is written
  they take, and which renames succeed.
\<close>

record host_env =
  he_writable :: "string \<Rightarrow> bool"
  he_room :: "string \<Rightarrow> nat"
  he_rename :: "string \<Rightarrow> string \<Rightarrow> bool"

definition openfile :: "host_env \<Rightarrow> string \<Rightarrow> bool host_op" where
  "openfile H name = returnS (he_writable H name)"

definition fileExists :: "string \<Rightarrow> (bool \<times> nat option) host_op" where
  "fileExists name = getS (\<lambda>h. case ho_files h name of
     Some c \<Rightarrow> (True, Some (length c)) | None \<Rightarrow> (False, None))"

definition host_getSystemString :: "string \<Rightarrow> nat \<Rightarrow> byte list host_op" where
  "host_getSystemString name offset = getS (\<lambda>h. case ho_files h name of
     Some c \<Rightarrow> (if offset \<noteq> 0 then drop offset c else c) | None \<Rightarrow> [])"

text \<open>
  Writing to a stream does not throw: what the file does not take is lost and nobody asks. A rename that
  fails throws, which the function reports as \<open>False\<close>.
\<close>

definition host_putSystemString :: "host_env \<Rightarrow> string \<Rightarrow> byte list \<Rightarrow> bool host_op" where
  "host_putSystemString H name content =
     (let tmp = name @ ''~'' in
      bindS (openfile H tmp) (\<lambda>ok.
      if ok then
        bindS (modifyS (\<lambda>h. h\<lparr>ho_files := (ho_files h)(tmp \<mapsto> take (he_room H tmp) content)\<rparr>)) (\<lambda>_.
        if he_rename H tmp name then
          bindS (modifyS (\<lambda>h. h\<lparr>ho_files := (ho_files h)(name := ho_files h tmp, tmp := None)\<rparr>)) (\<lambda>_.
          returnS True)
        else returnS False)
      else returnS False))"

text \<open>A file is replaced as a whole or kept: when \<^verbatim>\<open>putSystemString\<close> reports success the name holds
  what the host took of the new content and the temporary file is gone, otherwise the name holds what it held
  before; no file but these two is touched. The new content is cut off silently when the host takes less of
  it.\<close>

theorem putSystemString_whole:
  "wp (host_putSystemString H name content)
     (\<lambda>ok h'. ho_files h' name = (if ok then Some (take (he_room H (name @ ''~'')) content) else ho_files h name) \<and>
        (ok \<longrightarrow> ho_files h' (name @ ''~'') = None) \<and>
        (\<forall>n. n \<notin> {name, name @ ''~''} \<longrightarrow> ho_files h' n = ho_files h n) \<and>
        ho_stdin h' = ho_stdin h \<and> ho_stdout h' = ho_stdout h \<and> ho_echo h' = ho_echo h) h"
  by (simp add: host_putSystemString_def openfile_def Let_def)

theorem putSystemString_whole_witness:
  "wp (host_putSystemString \<lparr>he_writable = (\<lambda>_. True), he_room = (\<lambda>_. 2), he_rename = (\<lambda>_ _. True)\<rparr> ''config.json'' [123, 10, 125])
     (\<lambda>ok h'. ho_files h' ''config.json'' = (if ok then Some [123, 10] else None))
     \<lparr>ho_files = (\<lambda>_. None), ho_stdin = [], ho_stdout = [], ho_echo = True\<rparr>"
  by (rule wp_mono [OF putSystemString_whole]) simp

text \<open>A write to a file that can be made and renamed.\<close>

lemma wp_putSystemString_ok:
  assumes "he_writable H (name @ ''~'')" "he_rename H (name @ ''~'') name"
  shows "wpx A (host_putSystemString H name content) Q =
    (\<lambda>h. Q True (h\<lparr>ho_files := (ho_files h)(name \<mapsto> take (he_room H (name @ ''~'')) content, name @ ''~'' := None)\<rparr>))"
  using assms by (simp add: host_putSystemString_def openfile_def Let_def fun_eq_iff fun_upd_twist)

section \<open>The console\<close>

definition SetStdinEcho :: "bool \<Rightarrow> unit host_op" where
  "SetStdinEcho enable = modifyS (\<lambda>h. h\<lparr>ho_echo := enable\<rparr>)"

text \<open>\<^verbatim>\<open>std::cin >> passwd\<close>: white space is skipped, and the word ends before the next one.\<close>

definition cin_word :: "string host_op" where
  "cin_word =
     bindS (getS (\<lambda>h. dropWhile c_isspace (ho_stdin h))) (\<lambda>s.
     bindS (modifyS (\<lambda>h. h\<lparr>ho_stdin := dropWhile (\<lambda>c. \<not> c_isspace c) s\<rparr>)) (\<lambda>_.
     returnS (takeWhile (\<lambda>c. \<not> c_isspace c) s)))"

definition getPassWord :: "string \<Rightarrow> string host_op" where
  "getPassWord prompt =
     bindS (SetStdinEcho False) (\<lambda>_.
     bindS (modifyS (\<lambda>h. h\<lparr>ho_stdout := ho_stdout h @ prompt\<rparr>)) (\<lambda>_.
     bindS cin_word (\<lambda>passwd.
     bindS (modifyS (\<lambda>h. h\<lparr>ho_stdout := ho_stdout h @ [CHR 0x0A]\<rparr>)) (\<lambda>_.
     bindS (SetStdinEcho True) (\<lambda>_. returnS passwd)))))"

lemma wp_getPassWord [simp]:
  "wpx A (getPassWord prompt) Q = (\<lambda>h. Q (takeWhile (\<lambda>c. \<not> c_isspace c) (dropWhile c_isspace (ho_stdin h)))
     (h\<lparr>ho_stdin := dropWhile (\<lambda>c. \<not> c_isspace c) (dropWhile c_isspace (ho_stdin h)),
        ho_stdout := ho_stdout h @ prompt @ [CHR 0x0A], ho_echo := True\<rparr>))"
  by (simp add: getPassWord_def SetStdinEcho_def cin_word_def fun_eq_iff)

section \<open>Order of bytes\<close>

text \<open>The program refuses to be compiled for another host than a little-endian one.\<close>

definition isLittleEndian :: bool where "isLittleEndian = True"
definition isBigEndian :: bool where "isBigEndian = False"

text \<open>\<open>n\<close> is the size of the type in bytes.\<close>

definition swap_bytes :: "nat \<Rightarrow> nat \<Rightarrow> nat" where
  "swap_bytes n x = of_le (rev (le_bytes n x))"

definition host_to_little_endian :: "nat \<Rightarrow> nat \<Rightarrow> nat" where
  "host_to_little_endian n x = (if isLittleEndian then x else swap_bytes n x)"

definition host_to_big_endian :: "nat \<Rightarrow> nat \<Rightarrow> nat" where
  "host_to_big_endian n x = (if isBigEndian then x else swap_bytes n x)"

definition little_endian_to_host :: "nat \<Rightarrow> nat \<Rightarrow> nat" where
  "little_endian_to_host n x = (if isLittleEndian then x else swap_bytes n x)"

definition big_endian_to_host :: "nat \<Rightarrow> nat \<Rightarrow> nat" where
  "big_endian_to_host n x = (if isBigEndian then x else swap_bytes n x)"

definition testEndianFunction :: "unit res" where
  "testEndianFunction = assertR (swap_bytes 4 0xAABBCCDD = 0xDDCCBBAA)"

lemma testEndianFunction_passes: "testEndianFunction = Inr ()"
proof -
  have n: "(4::nat) = Suc (Suc (Suc (Suc 0)))" by simp
  have "swap_bytes 4 0xAABBCCDD = 0xDDCCBBAA" unfolding swap_bytes_def n le_bytes.simps by simp
  then show ?thesis by (simp add: testEndianFunction_def assertR_def)
qed

end
