(* ===== verification/Startup.thy ===== *)
theory Startup
  imports Host Fs_Mount
begin

text \<open>
  The start of the program (\<^verbatim>\<open>main\<close> in \<^verbatim>\<open>src/src/main.cpp\<close>): the
  options, the configuration and the key file, the pass phrase, and the three things a run can do: make a
  file system, migrate one, or mount one. What \<^verbatim>\<open>fuse_opt_parse\<close> makes of the command line
  is the argument \<open>conf\<close>; the messages to the log are left out.
\<close>

section \<open>State\<close>

record myfs_config =
  cf_source :: "string option"
  cf_keyfile :: "string option"
  cf_password :: "string option"
  cf_create :: "string option"
  cf_migrate :: "string option"
  cf_loglevel :: "string option"

text \<open>The three services with the host; \<open>ms_path\<close> is the storage's path, \<open>ms_loglevel\<close> their level.\<close>

record mstate =
  ms_host :: host
  ms_path :: string
  ms_loglevel :: int
  ms_fs :: fsys
  ms_js :: jstate
  ms_up :: bool

type_synonym 'a main_op = "(mstate, 'a) op"

record menv =
  me_host :: host_env
  me_sodium :: sodium
  me_world :: world
  me_pad :: "byte list"
  me_journal :: "string list"
  me_fuel :: nat

text \<open>How \<^verbatim>\<open>main\<close> ends: with an exit code, or in the loop of FUSE.\<close>

datatype outcome = EXIT_FAILURE | EXIT_SUCCESS | RealMain

definition in_host :: "'a host_op \<Rightarrow> 'a main_op" where
  "in_host = zoomS ms_host (\<lambda>h s. s\<lparr>ms_host := h\<rparr>)"

definition main_crypt :: "'a crypt_op \<Rightarrow> 'a main_op" where
  "main_crypt m = zoomS ms_js (\<lambda>j s. s\<lparr>ms_js := j\<rparr>) (in_crypt m)"

definition main_penv :: "menv \<Rightarrow> mstate \<Rightarrow> penv" where
  "main_penv M s = \<lparr>pv_sodium = me_sodium M, pv_world = me_world M, pv_path = ms_path s, pv_pad = me_pad M\<rparr>"

text \<open>A step of the mounted program under a protocol, and the protocol it leaves.\<close>

definition in_prog :: "menv \<Rightarrow> protocol \<Rightarrow> (penv \<Rightarrow> 'a prog_op) \<Rightarrow> ('a \<times> protocol) main_op" where
  "in_prog M p m = (\<lambda>s.
     let back = (\<lambda>g. s\<lparr>ms_fs := pg_fs g, ms_js := pg_js g, ms_up := pg_up g\<rparr>) in
     case m (main_penv M s) \<lparr>pg_fs = ms_fs s, pg_js = ms_js s, pg_prot = p, pg_up = ms_up s\<rparr> of
       Inl (e, g) \<Rightarrow> Inl (e, back g)
     | Inr (x, g) \<Rightarrow> Inr ((x, pg_prot g), back g))"

section \<open>Options\<close>

text \<open>False stands for \<^verbatim>\<open>exit(EXIT_FAILURE)\<close>. The first and last character of an empty path do not exist.\<close>

definition main_source :: "myfs_config \<Rightarrow> bool main_op" where
  "main_source conf =
     (case cf_source conf of
        None \<Rightarrow> returnS True
      | Some src \<Rightarrow>
          bindS (modifyS (\<lambda>s. s\<lparr>ms_path := src\<rparr>)) (\<lambda>_.
          if src = [] then raiseS Undefined
          else returnS (last src = CHR ''/'' \<and> hd src \<noteq> CHR ''.'')))"

definition main_loglevel :: "myfs_config \<Rightarrow> unit main_op" where
  "main_loglevel conf =
     (case cf_loglevel conf of
        None \<Rightarrow> returnS ()
      | Some l \<Rightarrow> bindS (liftS (c_stoi l)) (\<lambda>n. modifyS (\<lambda>s. s\<lparr>ms_loglevel := n\<rparr>)))"

section \<open>Configuration, key file and pass phrase\<close>

definition config_name :: "mstate \<Rightarrow> string" where
  "config_name s = ms_path s @ ''config.json''"

text \<open>\<open>None\<close>: a new file system over an old configuration, or none to mount.\<close>

definition main_config :: "menv \<Rightarrow> bool \<Rightarrow> json option main_op" where
  "main_config M mustCreate =
     bindS (getS config_name) (\<lambda>fn.
     bindS (in_host (host_getSystemString fn 0)) (\<lambda>cfg.
     if mustCreate then
       bindS (main_crypt (newConfig (me_sodium M) (w_fpu (me_world M)) ''latest'')) (\<lambda>config.
       returnS (if cfg \<noteq> [] then None else Some config))
     else if cfg \<noteq> [] then
       bindS (liftS (json_unserialize (w_fpu (me_world M)) make_json (bytes_str cfg))) (\<lambda>config. returnS (Some config))
     else returnS None))"

text \<open>The configuration is shared with the protocol, which has changed it by now.\<close>

definition main_store :: "menv \<Rightarrow> string \<Rightarrow> protocol \<Rightarrow> unit main_op" where
  "main_store M keyfileName p =
     bindS (main_crypt (createKeyfileContent (me_sodium M) p)) (\<lambda>content.
     bindS (in_host (host_putSystemString (me_host M) keyfileName content)) (\<lambda>_.
     bindS (getS config_name) (\<lambda>fn.
     bindS (in_host (host_putSystemString (me_host M) fn
        (str_bytes (json_serialize (w_fpu (me_world M)) 1 (p_config p))))) (\<lambda>_. returnS ()))))"

definition passphrase_prompt :: string where
  "passphrase_prompt = ''Please enter passphrase:''"

text \<open>The pass phrase of the options, or the one that is typed, twice when \<open>again\<close>; \<open>None\<close> when the two differ.\<close>

definition ask_password :: "myfs_config \<Rightarrow> bool \<Rightarrow> string option main_op" where
  "ask_password conf again =
     (case cf_password conf of
        Some p \<Rightarrow> returnS (Some p)
      | None \<Rightarrow>
          bindS (in_host (getPassWord passphrase_prompt)) (\<lambda>passwd.
          if again then
            bindS (in_host (getPassWord passphrase_prompt)) (\<lambda>passwd2.
            returnS (if passwd \<noteq> passwd2 then None else Some passwd))
          else returnS (Some passwd)))"

definition enter_password :: "menv \<Rightarrow> protocol \<Rightarrow> string \<Rightarrow> byte list \<Rightarrow> protocol main_op" where
  "enter_password M p passwd keyfileContent =
     main_crypt (enterPasswordAndKeyFileContent (me_sodium M) (w_fpu (me_world M)) p (str_bytes passwd) keyfileContent)"

section \<open>Ending the services\<close>

text \<open>
  \<^verbatim>\<open>stop_all_services\<close> deletes the file system first, then the journal, then the storage, which
  drops what it has in memory.
\<close>

definition main_stop :: "menv \<Rightarrow> protocol \<Rightarrow> unit main_op" where
  "main_stop M p =
     bindS (in_prog M p (\<lambda>P. bindS (fs_destroy P (me_fuel M)) (\<lambda>_.
        with_world P (\<lambda>W. in_stor (bucketInfo_clear (w_env W)))))) (\<lambda>_. returnS ())"

section \<open>Migrating\<close>

text \<open>The old key file is kept beside the new one.\<close>

definition main_migrate :: "menv \<Rightarrow> myfs_config \<Rightarrow> string \<Rightarrow> string \<Rightarrow> protocol \<Rightarrow> outcome main_op" where
  "main_migrate M conf version keyfileName p =
     bindS (main_crypt (newConfig (me_sodium M) (w_fpu (me_world M)) version)) (\<lambda>config.
     bindS (main_crypt (protocol_get (me_sodium M) (w_fpu (me_world M)) config)) (\<lambda>np.
     bindS (main_crypt (createKeyfileContent (me_sodium M) np)) (\<lambda>keyfileContent.
     bindS (ask_password conf True) (\<lambda>passwd.
     case passwd of
       None \<Rightarrow> returnS EXIT_FAILURE
     | Some pw \<Rightarrow>
         bindS (enter_password M np pw keyfileContent) (\<lambda>np.
         bindS (in_prog M p (\<lambda>P. fs_migrate P np)) (\<lambda>(_, p').
         bindS (in_host (host_getSystemString keyfileName 0)) (\<lambda>old.
         bindS (in_host (host_putSystemString (me_host M) (keyfileName @ ''.bak'') old)) (\<lambda>_.
         bindS (in_host (host_putSystemString (me_host M) keyfileName keyfileContent)) (\<lambda>_.
         bindS (getS config_name) (\<lambda>fn.
         bindS (in_host (host_putSystemString (me_host M) fn
            (str_bytes (json_serialize (w_fpu (me_world M)) 1 (p_config p'))))) (\<lambda>_.
         bindS (main_stop M p') (\<lambda>_. returnS EXIT_SUCCESS))))))))))))"

section \<open>The program\<close>

text \<open>From the protocol with its keys on.\<close>

definition main_run :: "menv \<Rightarrow> myfs_config \<Rightarrow> bool \<Rightarrow> string \<Rightarrow> protocol \<Rightarrow> outcome main_op" where
  "main_run M conf mustCreate keyfileName p =
     bindS (in_prog M p (\<lambda>P. initFileSystem P (me_journal M) mustCreate)) (\<lambda>(ok, p).
     if \<not> ok then returnS EXIT_FAILURE
     else
       case cf_migrate conf of
         Some version \<Rightarrow> main_migrate M conf version keyfileName p
       | None \<Rightarrow> if mustCreate then bindS (main_stop M p) (\<lambda>_. returnS EXIT_SUCCESS) else returnS RealMain)"

definition main_keys :: "menv \<Rightarrow> myfs_config \<Rightarrow> bool \<Rightarrow> json \<Rightarrow> outcome main_op" where
  "main_keys M conf mustCreate config =
     bindS (liftS (json_get_str (w_fpu (me_world M)) config ''keyfile'')) (\<lambda>(configured, config).
     let keyfileName = (case cf_keyfile conf of Some k \<Rightarrow> k | None \<Rightarrow> configured) in
     bindS (main_crypt (protocol_get (me_sodium M) (w_fpu (me_world M)) config)) (\<lambda>p.
     bindS (whenS mustCreate (main_store M keyfileName p)) (\<lambda>_.
     bindS (in_host (host_getSystemString keyfileName 0)) (\<lambda>keyfileContent.
     if keyfileContent = [] then returnS EXIT_FAILURE
     else
       bindS (ask_password conf mustCreate) (\<lambda>passwd.
       case passwd of
         None \<Rightarrow> returnS EXIT_FAILURE
       | Some pw \<Rightarrow>
           bindS (enter_password M p pw keyfileContent) (\<lambda>p.
           main_run M conf mustCreate keyfileName p))))))"

definition main_prog :: "menv \<Rightarrow> myfs_config \<Rightarrow> outcome main_op" where
  "main_prog M conf =
     bindS (liftS testEndianFunction) (\<lambda>_.
     bindS (main_source conf) (\<lambda>ok.
     if \<not> ok then returnS EXIT_FAILURE
     else
       bindS (main_loglevel conf) (\<lambda>_.
       let mustCreate = (cf_create conf = Some ''yes'') in
       bindS (main_config M mustCreate) (\<lambda>r.
       case r of None \<Rightarrow> returnS EXIT_FAILURE
       | Some config \<Rightarrow> main_keys M conf mustCreate config))))"

end
