(* ===== verification/Startup_Props.thy ===== *)
theory Startup_Props
  imports Startup File_Props
begin

text \<open>
  Laws of the start of the program: what a run that is to make a file system does to the host's files.
\<close>

section \<open>Key files\<close>

lemma wp_keyfile_loop:
  assumes S: "sodium_ok S" "p_keySize p = so_keybytes S"
    and Q: "\<And>content d. length content = n * so_keybytes S \<Longrightarrow> Q content (c\<lparr>cr_draws := d\<rparr>)" and c: "master_ready c"
  shows "wpx A (keyfile_loop S p n) Q c"
  using Q c
proof (induction n arbitrary: Q c)
  case 0
  then show ?case using 0(1) [of "[]" "cr_draws c"] by simp
next
  case (Suc n)
  let ?k = "key_bytes c (so_random S (cr_draws c) (so_keybytes S))"
  have k: "length ?k = so_keybytes S" "so_keybytes S < 64" using S(1) Suc.prems(2) sodium_okD(1,10) [OF S(1)] by simp_all
  show ?case
    unfolding keyfile_loop.simps
    using Suc.prems(2) k sodium_okD(1) [OF S(1)]
    by (subst wp_bind, subst wp_newRandomKey [OF S(1) Suc.prems(2) S(2) refl])
      (simp add: wp_key_use, rule Suc.IH, auto intro!: Suc.prems)
qed

section \<open>Making a file system\<close>

lemma wp_main_crypt [simp]:
  "wpx A (main_crypt m) Q = (\<lambda>s. wpx A m (\<lambda>x c. Q x (s\<lparr>ms_js := (ms_js s)\<lparr>js_crypt := c\<rparr>\<rparr>)) (js_crypt (ms_js s)))"
  by (simp add: main_crypt_def in_crypt_def)

lemma wp_in_host [simp]: "wpx A (in_host m) Q = (\<lambda>s. wpx A m (\<lambda>x h. Q x (s\<lparr>ms_host := h\<rparr>)) (ms_host s))"
  by (simp add: in_host_def)

lemma wp_getSystemString [simp]:
  "wpx A (host_getSystemString name offset) Q = (\<lambda>h. Q (case ho_files h name of
     Some c \<Rightarrow> (if offset \<noteq> 0 then drop offset c else c) | None \<Rightarrow> []) h)"
  by (simp add: host_getSystemString_def)

definition source_ok :: "myfs_config \<Rightarrow> string \<Rightarrow> bool" where
  "source_ok conf src \<longleftrightarrow> cf_source conf = Some src \<and> src \<noteq> [] \<and> last src = CHR ''/'' \<and> hd src \<noteq> CHR ''.'' \<and>
     cf_loglevel conf = None"

text \<open>With an accepted path the run comes to the configuration.\<close>

lemma wp_main_prog:
  assumes "source_ok conf src"
  shows "wpx A (main_prog M conf) Q s = wpx A (main_config M (cf_create conf = Some ''yes'')) (\<lambda>r.
    wpx A (case r of None \<Rightarrow> returnS EXIT_FAILURE
     | Some config \<Rightarrow> main_keys M conf (cf_create conf = Some ''yes'') config) Q) (s\<lparr>ms_path := src\<rparr>)"
  using assms by (simp add: main_prog_def source_ok_def main_source_def main_loglevel_def testEndianFunction_passes Let_def)

lemma wp_create_existing:
  assumes "sodium_ok (me_sodium M)" "master_ready (js_crypt (ms_js s))" "source_ok conf src"
    and "cf_create conf = Some ''yes''" "ho_files (ms_host s) (src @ ''config.json'') = Some cfg" "cfg \<noteq> []"
  shows "wp (main_prog M conf) (\<lambda>r s'. r = EXIT_FAILURE \<and> ms_host s' = ms_host s \<and> ms_fs s' = ms_fs s) s"
  using assms(4-6)
  by (simp add: wp_main_prog [OF assms(3)] main_config_def config_name_def)
    (rule wp_newConfig [OF assms(1) _ refl refl]; simp add: assms(2))

text \<open>A run that is to make a file system fails when there is a configuration already, and leaves the host's
  files, the console and the file system as they were.\<close>

theorem create_keeps_existing:
  assumes "sodium_ok (me_sodium M)" "master_ready (js_crypt (ms_js s))" "source_ok conf src"
    and "cf_create conf = Some ''yes''" "ho_files (ms_host s) (src @ ''config.json'') = Some cfg" "cfg \<noteq> []"
  shows "wp (main_prog M conf) (\<lambda>r s'. r = EXIT_FAILURE \<and> ms_host s' = ms_host s \<and> ms_fs s' = ms_fs s) s"
  by (rule wp_create_existing [OF assms])

lemma json_get_str_run:
  assumes "str_node j n" obtains x where "json_get_str F j n = Inr (x, json_put j n (LStr [x]))"
  using assms by (auto simp: str_node_def json_get_str_def lv_str_vec_def vec_grow_def Let_def)

lemma config_1_0_keyfile:
  assumes "config_1_0 j" shows "config_1_0 (json_put j ''keyfile'' (LStr [x]))"
proof -
  have e: "entry_set j ''keyfile'' (LStr [x]) (json_put j ''keyfile'' (LStr [x]))"
    by (rule entry_set_put) (use assms in \<open>simp add: config_1_0_def\<close>)
  show ?thesis using assms entry_set_sorted [OF e] by (simp add: config_1_0_def entry_setD [OF e] str_node_def)
qed

lemma serialize_not_empty: "json_serialize F k j \<noteq> []"
  by (cases j) (simp add: ser_close_def)

text \<open>Files of the configuration and the keys, which the host takes at least in part.\<close>

definition host_takes :: "host_env \<Rightarrow> string \<Rightarrow> nat \<Rightarrow> bool" where
  "host_takes H name n \<longleftrightarrow> he_writable H (name @ ''~'') \<and> he_rename H (name @ ''~'') name \<and> n \<le> he_room H (name @ ''~'')"

text \<open>A new run in an empty place whose two pass phrases differ.\<close>

lemma wp_create_mismatch:
  assumes S: "sodium_ok (me_sodium M)" "0 < so_keybytes (me_sodium M)" "master_ready (js_crypt (ms_js s))"
    and conf: "source_ok conf src" "cf_create conf = Some ''yes''" "cf_password conf = None" "cf_keyfile conf = Some kf"
    and host: "host_takes (me_host M) kf (5 * so_keybytes (me_sodium M))" "host_takes (me_host M) (src @ ''config.json'') 1"
    and kf: "kf \<notin> {src @ ''config.json'', src @ ''config.json~''}" "kf @ ''~'' \<noteq> src @ ''config.json''"
    and cfg: "ho_files (ms_host s) (src @ ''config.json'') = None"
    and typed: "takeWhile (\<lambda>c. \<not> c_isspace c) (dropWhile c_isspace (ho_stdin (ms_host s))) = w1"
      "takeWhile (\<lambda>c. \<not> c_isspace c) (dropWhile c_isspace (dropWhile (\<lambda>c. \<not> c_isspace c)
         (dropWhile c_isspace (ho_stdin (ms_host s))))) = w2" "w1 \<noteq> w2"
    and Q: "\<And>s' content text. length content = 5 * so_keybytes (me_sodium M) \<Longrightarrow>
      ho_files (ms_host s') kf = Some content \<Longrightarrow> ho_files (ms_host s') (src @ ''config.json'') = Some text \<Longrightarrow>
      text \<noteq> [] \<Longrightarrow> ms_fs s' = ms_fs s \<Longrightarrow> master_ready (js_crypt (ms_js s')) \<Longrightarrow> Q EXIT_FAILURE s'"
  shows "wp (main_prog M conf) Q s"
proof -
  let ?S = "me_sodium M" and ?F = "w_fpu (me_world M)"
  have put: "str_bytes (json_serialize ?F 1 j) \<noteq> []" for j
    using serialize_not_empty by (simp add: str_bytes_def)
  have run: "wp (main_keys M conf True config) Q (s\<lparr>ms_path := src, ms_js := (ms_js s)\<lparr>js_crypt := c\<rparr>\<rparr>)"
    if config: "config_1_0 config" and c: "master_ready c" for config c
  proof -
    obtain x where x: "json_get_str ?F config ''keyfile'' = Inr (x, json_put config ''keyfile'' (LStr [x]))"
      using config by (auto simp: config_1_0_def intro: json_get_str_run)
    have "wp (protocol_get ?S ?F (json_put config ''keyfile'' (LStr [x])))
       (\<lambda>p c'. c' = c \<and> p_keySize p = so_keybytes ?S) c"
      by (rule wp_protocol_get [OF S(1) c config_1_0_keyfile [OF config]]) simp
    then obtain p where p: "protocol_get ?S ?F (json_put config ''keyfile'' (LStr [x])) c = Inr (p, c)"
        "p_keySize p = so_keybytes ?S" by (auto simp: wp_run)
    have "wp (createKeyfileContent ?S p) (\<lambda>content c'. length content = 5 * so_keybytes ?S \<and> master_ready c') c"
      unfolding createKeyfileContent_def by (rule wp_keyfile_loop [OF S(1) p(2) _ c]) (use c in simp)
    then obtain content c' where k: "createKeyfileContent ?S p c = Inr (content, c')"
        "length content = 5 * so_keybytes ?S" "master_ready c'" by (auto simp: wp_run)
    have "content \<noteq> []" using k(2) S(2) by auto
    then show ?thesis
      using conf host kf typed put k(2,3)
      by (simp add: main_keys_def x main_store_def config_name_def host_takes_def wp_putSystemString_ok ask_password_def
          wpx_def [of _ "protocol_get _ _ _"] p(1) wpx_def [of _ "createKeyfileContent _ _"] k(1))
        (intro conjI impI; rule Q [of content _ "take (he_room (me_host M) (src @ ''config.json~''))
           (str_bytes (json_serialize ?F 1 (p_config p)))"]; force)
  qed
  show ?thesis
    using conf(2) cfg
    by (simp add: wp_main_prog [OF conf(1)] main_config_def config_name_def)
      (rule wp_newConfig [OF S(1,3) refl refl]; simp add: run S(3))
qed

text \<open>C39: A run that is to make a file system in an empty place and gets two different pass phrases fails only
  after it has replaced the key file by new keys and written the configuration, so that the next such run, whatever is
  typed, refuses because of that configuration; no file system is made.\<close>

theorem create_mismatch_strands:
  assumes "sodium_ok (me_sodium M)" "0 < so_keybytes (me_sodium M)" "master_ready (js_crypt (ms_js s))"
    and "source_ok conf src" "cf_create conf = Some ''yes''" "cf_password conf = None" "cf_keyfile conf = Some kf"
    and "host_takes (me_host M) kf (5 * so_keybytes (me_sodium M))" "host_takes (me_host M) (src @ ''config.json'') 1"
    and "kf \<notin> {src @ ''config.json'', src @ ''config.json~''}" "kf @ ''~'' \<noteq> src @ ''config.json''"
    and "ho_files (ms_host s) (src @ ''config.json'') = None"
    and "takeWhile (\<lambda>c. \<not> c_isspace c) (dropWhile c_isspace (ho_stdin (ms_host s))) = w1"
      "takeWhile (\<lambda>c. \<not> c_isspace c) (dropWhile c_isspace (dropWhile (\<lambda>c. \<not> c_isspace c)
         (dropWhile c_isspace (ho_stdin (ms_host s))))) = w2" "w1 \<noteq> w2"
  shows "wp (bindS (main_prog M conf) (\<lambda>o1. bindS (main_prog M conf) (\<lambda>o2. returnS (o1, o2))))
     (\<lambda>r s'. r = (EXIT_FAILURE, EXIT_FAILURE) \<and> ms_fs s' = ms_fs s \<and>
        map_option length (ho_files (ms_host s') kf) = Some (5 * so_keybytes (me_sodium M)) \<and>
        ho_files (ms_host s') (src @ ''config.json'') \<notin> {None, Some []}) s"
  unfolding wp_bind
proof (rule wp_create_mismatch [OF assms])
  fix s' :: mstate and content cfgtext
  assume *: "length content = 5 * so_keybytes (me_sodium M)" "ho_files (ms_host s') kf = Some content"
    "ho_files (ms_host s') (src @ ''config.json'') = Some cfgtext" "cfgtext \<noteq> []" "ms_fs s' = ms_fs s"
    "master_ready (js_crypt (ms_js s'))"
  show "wp (main_prog M conf) (\<lambda>o2. wp (returnS (EXIT_FAILURE, o2)) (\<lambda>r s'. r = (EXIT_FAILURE, EXIT_FAILURE) \<and>
       ms_fs s' = ms_fs s \<and> map_option length (ho_files (ms_host s') kf) = Some (5 * so_keybytes (me_sodium M)) \<and>
       ho_files (ms_host s') (src @ ''config.json'') \<notin> {None, Some []})) s'"
    by (rule wp_mono [OF wp_create_existing [OF assms(1) *(6) assms(4,5) *(3,4)]]) (use * in auto)
qed

section \<open>Witnesses\<close>

definition sample_host :: "(string \<Rightarrow> byte list option) \<Rightarrow> string \<Rightarrow> host" where
  "sample_host files typed = \<lparr>ho_files = files, ho_stdin = typed, ho_stdout = [], ho_echo = True\<rparr>"

definition sample_menv :: menv where
  "sample_menv = \<lparr>me_host = \<lparr>he_writable = (\<lambda>_. True), he_room = (\<lambda>_. 1000), he_rename = (\<lambda>_ _. True)\<rparr>,
     me_sodium = ones_sodium, me_world = sample_world, me_pad = [], me_journal = [], me_fuel = 1\<rparr>"

definition sample_conf :: myfs_config where
  "sample_conf = \<lparr>cf_source = Some ''/s/'', cf_keyfile = Some ''/k'', cf_password = None, cf_create = Some ''yes'',
     cf_migrate = None, cf_loglevel = None\<rparr>"

definition sample_mstate :: "fsys \<Rightarrow> host \<Rightarrow> mstate" where
  "sample_mstate t h = \<lparr>ms_host = h, ms_path = [], ms_loglevel = 3, ms_fs = t,
     ms_js = \<lparr>js_next = 0, js_files = [], js_current = (\<lambda>_. None), js_disk = (\<lambda>_. None), js_crypt = sample_crypt\<rparr>,
     ms_up = False\<rparr>"

theorem create_keeps_existing_witness:
  "wp (main_prog sample_menv sample_conf)
     (\<lambda>r s'. r = EXIT_FAILURE \<and> ho_files (ms_host s') ''/s/config.json'' = Some [123, 125])
     (sample_mstate (sample_fsys 0 0) (sample_host [''/s/config.json'' \<mapsto> [123, 125]] ''pw''))"
  by (rule wp_mono, rule create_keeps_existing)
    (auto simp: sample_menv_def sample_conf_def sample_mstate_def sample_host_def source_ok_def sample_oks)

lemma sample_keybytes: "so_keybytes ones_sodium = 32"
  by (simp add: ones_sodium_def sample_sodium_def)

theorem create_mismatch_strands_witness:
  "wp (bindS (main_prog sample_menv sample_conf) (\<lambda>o1. bindS (main_prog sample_menv sample_conf) (\<lambda>o2. returnS (o1, o2))))
     (\<lambda>r s'. r = (EXIT_FAILURE, EXIT_FAILURE)) (sample_mstate (sample_fsys 0 0) (sample_host (\<lambda>_. None) ''pw1 pw2''))"
  by (rule wp_mono, rule create_mismatch_strands [where src = "''/s/''" and kf = "''/k''"])
    (auto simp: sample_menv_def sample_conf_def sample_mstate_def sample_host_def source_ok_def host_takes_def
      sample_oks sample_keybytes c_isspace_def)

end
