(* ===== verification/Fuse_Table.thy ===== *)
theory Fuse_Table
  imports Fuse Startup
begin

text \<open>
  The options of the command line and the table of callbacks that \<^verbatim>\<open>_realMain\<close> hands to FUSE
  (\<^verbatim>\<open>src/src/fuse_main.cpp\<close>): which callback answers which request, and a session as the
  sequence of requests that FUSE makes.
\<close>

section \<open>Options\<close>

text \<open>
  The table of templates with the member of the configuration that each sets. The library matches the
  command line against the templates; the argument of \<open>parseArgs\<close> is the list of matches in their order.
\<close>

definition myfs_opts :: "(string \<times> (string \<Rightarrow> myfs_config \<Rightarrow> myfs_config)) list" where
  "myfs_opts =
     [(''--src %s'', \<lambda>v c. c\<lparr>cf_source := Some v\<rparr>), (''src=%s'', \<lambda>v c. c\<lparr>cf_source := Some v\<rparr>),
      (''--loglevel %s'', \<lambda>v c. c\<lparr>cf_loglevel := Some v\<rparr>), (''loglevel=%s'', \<lambda>v c. c\<lparr>cf_loglevel := Some v\<rparr>),
      (''--keyfile %s'', \<lambda>v c. c\<lparr>cf_keyfile := Some v\<rparr>), (''keyfile=%s'', \<lambda>v c. c\<lparr>cf_keyfile := Some v\<rparr>),
      (''--pass %s'', \<lambda>v c. c\<lparr>cf_password := Some v\<rparr>), (''pass=%s'', \<lambda>v c. c\<lparr>cf_password := Some v\<rparr>),
      (''--create %s'', \<lambda>v c. c\<lparr>cf_create := Some v\<rparr>), (''--migrateto %s'', \<lambda>v c. c\<lparr>cf_migrate := Some v\<rparr>)]"

datatype opt_key = KEY_HELP | KEY_VERSION

definition opt_keys :: "(string \<times> opt_key) list" where
  "opt_keys = [(''-V'', KEY_VERSION), (''--version'', KEY_VERSION), (''-h'', KEY_HELP), (''--help'', KEY_HELP)]"

text \<open>Both keys end the program with success after their message.\<close>

definition myfs_opt_proc :: "opt_key option \<Rightarrow> outcome option" where
  "myfs_opt_proc key = (case key of Some KEY_HELP \<Rightarrow> Some EXIT_SUCCESS | Some KEY_VERSION \<Rightarrow> Some EXIT_SUCCESS
     | None \<Rightarrow> None)"

definition no_config :: myfs_config where
  "no_config = \<lparr>cf_source = None, cf_keyfile = None, cf_password = None, cf_create = None, cf_migrate = None,
     cf_loglevel = None\<rparr>"

fun set_options :: "(string \<times> string) list \<Rightarrow> myfs_config \<Rightarrow> outcome + myfs_config" where
  "set_options [] c = Inr c"
| "set_options ((template, v) # ms) c =
     (case myfs_opt_proc (map_of opt_keys template) of
        Some r \<Rightarrow> Inl r
      | None \<Rightarrow> set_options ms (case map_of myfs_opts template of Some put \<Rightarrow> put v c | None \<Rightarrow> c))"

definition parseArgs :: "(string \<times> string) list \<Rightarrow> outcome + myfs_config" where
  "parseArgs ms = set_options ms no_config"

section \<open>Requests and replies\<close>

datatype fuse_call =
    F_stub stub string
  | F_mknod string my_mode_t
  | F_chmod string my_mode_t
  | F_chown string my_uid_t my_gid_t
  | F_unlink string
  | F_rmdir string
  | F_utimens string timeHolder timeHolder
  | F_truncate string nat
  | F_ftruncate string nat
  | F_getattr string
  | F_open string u32
  | F_release string nat
  | F_opendir string u32
  | F_releasedir string
  | F_read string nat nat nat
  | F_write string "byte list" nat nat
  | F_readdir string
  | F_mkdir string my_mode_t
  | F_destroy
  | F_symlink string string
  | F_link string string
  | F_readlink string nat
  | F_rename string string
  | F_statfs string
  | F_init

datatype fuse_reply =
    R_int int
  | R_attr int "stat_buf option"
  | R_open int "nat option"
  | R_release int nat
  | R_data int "byte list"
  | R_names int "string list"
  | R_sizes nat nat
  | R_none

section \<open>The table\<close>

definition reply_int :: "int fs_op \<Rightarrow> fuse_reply fs_op" where
  "reply_int m = bindS m (\<lambda>r. returnS (R_int r))"

text \<open>
  The requests that work on the file system. A directory is removed by the callback that removes a file.
\<close>

fun fuse_operation :: "world \<Rightarrow> fuse_request \<Rightarrow> fuse_call \<Rightarrow> fuse_reply fs_op" where
  "fuse_operation W r (F_stub s path) = reply_int (stub_callback s)"
| "fuse_operation W r (F_mknod path md) = reply_int (mknod_callback W r path md)"
| "fuse_operation W r (F_chmod path md) = reply_int (chmod_callback W r path md)"
| "fuse_operation W r (F_chown path uid gid) = reply_int (chown_callback W r path uid gid)"
| "fuse_operation W r (F_unlink path) = reply_int (unlink_callback W r path)"
| "fuse_operation W r (F_rmdir path) = reply_int (unlink_callback W r path)"
| "fuse_operation W r (F_utimens path a m) = reply_int (utimens_callback W path a m)"
| "fuse_operation W r (F_truncate path n) = reply_int (truncate_callback W r path n)"
| "fuse_operation W r (F_ftruncate path n) = reply_int (ftruncate_callback W r path n)"
| "fuse_operation W r (F_getattr path) = bindS (getattr_callback W r path) (\<lambda>(n, st). returnS (R_attr n st))"
| "fuse_operation W r (F_open path fl) = bindS (open_callback W r path fl) (\<lambda>(n, fh). returnS (R_open n fh))"
| "fuse_operation W r (F_release path fh) = bindS (release_callback W path fh) (\<lambda>(n, fh'). returnS (R_release n fh'))"
| "fuse_operation W r (F_opendir path fl) = reply_int (opendir_callback W r path fl)"
| "fuse_operation W r (F_releasedir path) = reply_int (releasedir_callback path)"
| "fuse_operation W r (F_read path n off fh) = bindS (read_callback W path n off fh) (\<lambda>(k, bs). returnS (R_data k bs))"
| "fuse_operation W r (F_write path bs off fh) = reply_int (write_callback W path bs off fh)"
| "fuse_operation W r (F_readdir path) = bindS (readdir_callback W path) (\<lambda>(n, ns). returnS (R_names n ns))"
| "fuse_operation W r (F_mkdir path md) = reply_int (mkdir_callback W r path md)"
| "fuse_operation W r (F_symlink path b) = reply_int (symlink_callback W r path b)"
| "fuse_operation W r (F_link path b) = reply_int (link_callback W r path b)"
| "fuse_operation W r (F_readlink path n) = bindS (readlink_callback W path n) (\<lambda>(k, bs). returnS (R_data k bs))"
| "fuse_operation W r (F_rename path dst) = reply_int (rename_callback W r path dst)"
| "fuse_operation W r (F_statfs path) = bindS statfs_callback (\<lambda>(a, b). returnS (R_sizes a b))"
| "fuse_operation W r F_init = returnS R_none"
| "fuse_operation W r F_destroy = returnS R_none"

text \<open>
  All requests; \<^verbatim>\<open>_destroy_callback\<close> stops the services, \<open>k\<close> is the fuel of the last
  write of the metadata.
\<close>

definition cloudcryptops :: "penv \<Rightarrow> nat \<Rightarrow> fuse_request \<Rightarrow> fuse_call \<Rightarrow> fuse_reply prog_op" where
  "cloudcryptops P k r c =
     (if c = F_destroy then
        bindS (fs_destroy P k) (\<lambda>_.
        bindS (with_world P (\<lambda>W. in_stor (bucketInfo_clear (w_env W)))) (\<lambda>_. returnS R_none))
      else with_world P (\<lambda>W. fuse_operation W r c))"

text \<open>A session: the replies to the requests in their order.\<close>

fun fuse_session :: "penv \<Rightarrow> nat \<Rightarrow> (fuse_request \<times> fuse_call) list \<Rightarrow> fuse_reply list prog_op" where
  "fuse_session P k [] = returnS []"
| "fuse_session P k ((r, c) # cs) =
     bindS (cloudcryptops P k r c) (\<lambda>x. bindS (fuse_session P k cs) (\<lambda>xs. returnS (x # xs)))"

end
