(* ===== verification/Fuse_Props.thy ===== *)
theory Fuse_Props
  imports Fuse_Table File_Props
begin

text \<open>
  Laws of the callbacks: what reading and writing do not touch, and that through an open handle what a write
  request wrote is what a read request returns.
\<close>

section \<open>The tables of the file system\<close>

text \<open>The open handles and the caches that lookups use.\<close>

definition fs_tables :: "fsys \<Rightarrow> fid option list \<times> (string, bucketIndex_t) umap \<times> (bucketIndex_t, fid) umap \<times> fid \<times> fid" where
  "fs_tables t = (fs_handles t, fs_pathCache t, fs_inodeCache t, fs_rootFile t, fs_errorFile t)"

definition keeps_tables :: "'a fs_op \<Rightarrow> bool" where
  "keeps_tables m \<longleftrightarrow> (\<forall>t. fs_tables (final_state (m t)) = fs_tables t)"

named_theorems keeps "operations that keep the tables"

lemma keepsD: "keeps_tables m \<Longrightarrow> m t = Inl (e, t') \<Longrightarrow> fs_tables t' = fs_tables t"
  "keeps_tables m \<Longrightarrow> m t = Inr (x, t') \<Longrightarrow> fs_tables t' = fs_tables t"
  unfolding keeps_tables_def by (metis final_state_def old.sum.simps(5) old.prod.case, metis final_state_def old.sum.simps(6) old.prod.case)

lemma wp_keeps: "keeps_tables m \<Longrightarrow> wpx A m Q t \<Longrightarrow> wpx A m (\<lambda>x t'. Q x t' \<and> fs_tables t' = fs_tables t) t"
  by (auto simp: wpx_def split: sum.splits dest: keepsD)

lemma keeps_basic [keeps]:
  "keeps_tables (returnS x)" "keeps_tables (raiseS e)" "keeps_tables (getS f)" "keeps_tables (assertS b)"
  "keeps_tables (liftS r)"
  by (simp_all add: keeps_tables_def final_state_def run_simps split: sum.split)

lemma sum_pair_cases:
  obtains (Inl) e t' where "r = Inl (e, t')" | (Inr) x t' where "r = Inr (x, t')"
  by (cases r) auto

lemma keeps_bind [keeps]:
  assumes "keeps_tables m" "\<And>x. keeps_tables (f x)" shows "keeps_tables (bindS m f)"
  unfolding keeps_tables_def
proof
  fix t
  have "fs_tables (final_state (f x t')) = fs_tables t'" for x t' using assms(2) by (simp add: keeps_tables_def)
  then show "fs_tables (final_state (bindS m f t)) = fs_tables t"
    using keepsD [OF assms(1)] by (cases "m t" rule: sum_pair_cases) (simp_all add: bindS_def, simp add: final_state_def)
qed

lemma keeps_catch [keeps]:
  assumes "keeps_tables m" "\<And>w. keeps_tables (h w)" shows "keeps_tables (catchS m h)"
  unfolding keeps_tables_def
proof
  fix t
  have "fs_tables (final_state (h w t')) = fs_tables t'" for w t' using assms(2) by (simp add: keeps_tables_def)
  then show "fs_tables (final_state (catchS m h t)) = fs_tables t"
    using keepsD [OF assms(1)]
    by (cases "m t" rule: sum_pair_cases) (auto simp: catchS_def final_state_def split: exn.split)
qed

lemma keeps_when [keeps]: "keeps_tables m \<Longrightarrow> keeps_tables (whenS b m)"
  by (cases b) (simp_all add: whenS_def keeps)

lemma keeps_if [keeps]: "keeps_tables m \<Longrightarrow> keeps_tables n \<Longrightarrow> keeps_tables (if b then m else n)"
  by simp

lemma keeps_modify: "(\<And>t. fs_tables (f t) = fs_tables t) \<Longrightarrow> keeps_tables (modifyS f)"
  by (simp add: keeps_tables_def modifyS_def final_state_def)

lemma keeps_stor [keeps]: "keeps_tables (in_stor m)"
  by (auto simp: keeps_tables_def final_state_def in_stor_def zoomS_def fs_tables_def split: sum.splits)

lemma keeps_for [keeps]: "(\<And>x. keeps_tables (m x)) \<Longrightarrow> keeps_tables (forS xs m)"
  by (induction xs) (auto intro: keeps)

lemma keeps_cases [keeps]:
  "(\<And>x y. keeps_tables (g x y)) \<Longrightarrow> keeps_tables (case p of (x, y) \<Rightarrow> g x y)"
  "keeps_tables a \<Longrightarrow> (\<And>x. keeps_tables (b x)) \<Longrightarrow> keeps_tables (case r of None \<Rightarrow> a | Some x \<Rightarrow> b x)"
  by (auto split: prod.split option.split)

section \<open>Operations that keep the tables\<close>

lemma keeps_chunks [keeps]:
  "keeps_tables (as_inode c)" "keeps_tables (as_ctd c)" "keeps_tables (set_chunk c m)" "keeps_tables new_metachunk"
  by (auto simp: as_inode_def as_ctd_def set_chunk_def new_metachunk_def fs_tables_def
      intro!: keeps keeps_modify split: metachunk.split)

lemma keeps_upd [keeps]: "keeps_tables (upd_inode c g)" "keeps_tables (upd_ctd c h)"
  by (auto simp: upd_inode_def upd_ctd_def intro!: keeps)

lemma keeps_meta [keeps]:
  "keeps_tables (meta_getBucket b)" "keeps_tables (meta_getChunk i)" "keeps_tables (meta_putHashedChunk i c)"
  "keeps_tables meta_fetch" "keeps_tables unloadBuckets" "keeps_tables (currentTime W)"
  "keeps_tables (journal_add ty pn nn np md off nm dta)"
  by (auto simp: meta_getBucket_def meta_getChunk_def meta_putHashedChunk_def meta_fetch_def unloadBuckets_def currentTime_def
      journal_add_def Let_def fs_tables_def intro!: keeps keeps_modify)

lemma keeps_inodes [keeps]:
  "keeps_tables (inoToChunk i)" "keeps_tables (storeInode c)"
  by (auto simp: inoToChunk_def storeInode_def intro!: keeps split: metachunk.split)

lemma keeps_ctd [keeps]:
  assumes "\<And>i. keeps_tables (link i)" shows "keeps_tables (new_ctd link)"
  unfolding new_ctd_def by (intro keeps assms)

lemma keeps_createCtd [keeps]: "keeps_tables (createCtd c b)" "keeps_tables (createCtd_ctd c)"
  unfolding createCtd_def createCtd_ctd_def by (intro keeps)+

lemma keeps_file [keeps]:
  "keeps_tables (fget f)" "keeps_tables (fupd f g)" "keeps_tables (INode f)" "keeps_tables (set_INode f h)"
  by (auto simp: fget_def fupd_def INode_def set_INode_def fs_tables_def intro!: keeps keeps_modify)

lemma keeps_rest_loop [keeps]: "keeps_tables (rest_loop hs b idx c nextId num)"
proof (induction hs arbitrary: b idx c nextId num)
  case (Cons h hs)
  show ?case unfolding rest_loop.simps Let_def by (intro keeps Cons)
qed (simp add: keeps)

lemma keeps_rest [keeps]: "keeps_tables (file_rest f)" "keeps_tables (rest_unload f)"
  unfolding rest_unload_def file_rest_def by (intro keeps)+

lemma keeps_write_parts [keeps]:
  "keeps_tables (write_grow W f n offset)" "keeps_tables (mark_buckets E je bkts)" "keeps_tables (write_chunks W f buf offset je)"
  unfolding write_grow_def mark_buckets_def write_chunks_def Let_def by (intro keeps)+

lemma keeps_write [keeps]: "keeps_tables (file_writeInner W f buf offset je)" "keeps_tables (file_write W f buf offset)"
  unfolding file_writeInner_def file_write_def by (intro keeps keeps_modify; simp add: fs_tables_def)+

section \<open>Writing and reading through a handle\<close>

lemma wp_handle:
  assumes "fs_handles t ! fh = Some f" "0 < fh" "fh < length (fs_handles t)"
  shows "wpx A (fs_get_err W path fh) Q t = Q (f, None) t"
  using assms by (simp add: fs_get_err_def)

lemma wp_file_valid_obj [simp]: "wpx A (file_valid f) Q = (\<lambda>t. Q (valid_obj (fs_files t ! f)) t)"
  by (simp add: file_valid_def fget_def)

lemma wp_requireType:
  assumes "has_node t f n" "valid_obj (fs_files t ! f)"
  shows "wpx A (file_requireType f ty) Q t = Q (type_of_mode (in_mode n) = ty) t"
  using assms by (simp add: file_requireType_def file_type_def fget_def wp_INode [OF assms(1)] valid_obj_def)

text \<open>C25: Through an open handle of a regular file, a write request that does not abort answers with the number of bytes, and
  a read request for the same range that follows answers with exactly these bytes, whatever path the kernel passes along. The
  range has to end in the chunks that as many bytes from an aligned offset would take (other reads come back short, see
  \<open>file_read_short\<close>), and neither counter of the file passes 1280 chunks.\<close>

theorem fuse_write_then_read:
  assumes "fs_handles t ! fh = Some f" "0 < fh" "fh < length (fs_handles t)"
    and "file_ready E U R t f" "w_env W = E" "has_node t f n" "type_of_mode (in_mode n) = FT_FILE"
    and "valid_obj (fs_files t ! f)" "f_special (fs_files t ! f) = SF_REGULAR"
    and "length (refs_of t f) \<le> chunks_after n (length buf) offset"
    and "f_hashWrites (fs_files t ! f) + chunks_in (length buf) offset \<le> chunksInBucket * 5"
    and "f_hashReads (fs_files t ! f) + ceildiv (length buf) chunkSize \<le> chunksInBucket * 5"
    and "chunks_legal U (list_splice (padded E t f (chunks_after n (length buf) offset)) offset buf)"
    and "stor_room (fs_stor t) (chunks_in (length buf) offset + k)"
    and "offset mod chunkSize + length buf \<le> ceildiv (length buf) chunkSize * chunkSize"
  shows "wpf (bindS (fuse_operation W r (F_write path buf offset fh)) (\<lambda>x.
     bindS (fuse_operation W r' (F_read path' (length buf) offset fh)) (\<lambda>y. returnS (x, y))))
     (\<lambda>p _. p = (R_int (int (length buf)), R_data (int (length buf)) buf)) t"
proof -
  note wr = wp_keeps [OF keeps_write(2) wp_write_then_read [OF assms(4-6,8-15)]]
  show ?thesis
    using assms(5,7,8)
    by (simp add: reply_int_def write_callback_def wp_handle [OF assms(1-3)] wp_requireType [OF assms(6,8)])
      (rule wp_mono [OF wr], use assms(1-3,7) in \<open>auto simp: read_callback_def wp_handle fs_tables_def wp_requireType
        elim: wp_allow\<close>)
qed

text \<open>The sample file with an open handle.\<close>

definition sample_open :: fsys where
  "sample_open = (sample_fsys 0 0)\<lparr>fs_handles := [None, Some 0]\<rparr>"

lemma sample_open_simps:
  "fs_files sample_open = fs_files (sample_fsys 0 0)" "refs_of sample_open 0 = refs_of (sample_fsys 0 0) 0"
  "has_node sample_open 0 (sample_inode 0)" "fs_stor sample_open = fs_stor (sample_fsys 0 0)"
  "padded E sample_open 0 m = padded E (sample_fsys 0 0) 0 m"
  using sample_fsys_simps(4) [of 0 0]
  by (simp_all add: sample_open_def refs_of_def padded_def file_bytes_def has_node_def)

lemma sample_open_ready: "file_ready sample_env sample_U (sample_R 0) sample_open 0"
  using sample_ready [of 0 0] sample_open_simps(2)
  by (simp add: file_ready_def sample_open_simps(1,4) refs_of_def)

theorem fuse_write_then_read_witness:
  "wpf (bindS (fuse_operation sample_world \<lparr>fr_uid = 0, fr_gid = 0, fr_groups = None\<rparr> (F_write ''/f'' [7, 8] 0 1)) (\<lambda>x.
     bindS (fuse_operation sample_world \<lparr>fr_uid = 0, fr_gid = 0, fr_groups = None\<rparr> (F_read ''/f'' (length [7::byte, 8]) 0 1))
       (\<lambda>y. returnS (x, y)))) (\<lambda>p _. p = (R_int 2, R_data 2 [7, 8])) sample_open"
proof -
  have t: "type_of_mode (in_mode (sample_inode 0)) = FT_FILE"
    by (simp add: sample_inode_def type_of_mode_def mode_type_def mode_consts)
  note h = sample_write_hyps [folded sample_open_simps(1,2,4,5)]
  show ?thesis
    by (rule wp_mono [OF fuse_write_then_read [where t = sample_open and f = 0 and fh = 1 and buf = "[7, 8]" and offset = 0
        and k = 1 and n = "sample_inode 0", OF _ _ _ sample_open_ready _ sample_open_simps(3) t _ _ h(1,2) _ h(3,4)]])
      (simp_all add: sample_open_def ceildiv_def chunkSize_def chunksInBucket_def)
qed

end
