(* ===== verification/Json_Round.thy ===== *)
theory Json_Round
  imports Json_Props
begin

text \<open>
  The round trip of JSON values through their text (\<^verbatim>\<open>src/src/modules/script/JSON.cpp\<close>,
  \<^verbatim>\<open>lexer.cpp\<close>): objects of strings, numbers and lists of them, nested to any depth and
  printed with or without indentation.
\<close>

section \<open>Reading the text\<close>

text \<open>The tokens of a text, wherever it stands.\<close>

definition lexq :: "string \<Rightarrow> token list" where
  "lexq s = (case NextC s of (l, r) \<Rightarrow> lex_loop False [] l r)"

lemma lexq_step:
  "c \<noteq> CHR 0xFF \<Longrightarrow> \<not> c_isspace c \<Longrightarrow> lex_step False [] c r = (t, [], NextC r') \<Longrightarrow>
   lexq (c # r) = (case t of None \<Rightarrow> [] | Some t \<Rightarrow> [t]) @ lexq r'"
  by (cases "NextC r'") (simp add: lexq_def NextC_Cons lex_loop_step)

lemma lex_loop_cong: "skip_ws l r = skip_ws l' r' \<Longrightarrow> lex_loop tc cm l r = lex_loop tc cm l' r'"
  by (simp only: lex_loop.simps [of tc cm l r] lex_loop.simps [of tc cm l' r'])

lemma lexq_space:
  assumes "c_isspace c" shows "lexq (c # r) = lexq r"
proof -
  have "skip_ws (Some c) r = skip_ws (fst (NextC r)) (snd (NextC r))"
    using assms by (cases r) (auto simp: NextC_def)
  moreover have "c \<noteq> CHR 0xFF" using assms by (auto simp: c_isspace_def)
  ultimately show ?thesis
    by (simp add: lexq_def NextC_Cons case_prod_unfold) (rule lex_loop_cong, simp)
qed

lemma lexer_lexq: "lexer s False = lexq s"
proof -
  have "skip_ws (Some (CHR '' '')) s = skip_ws (fst (NextC s)) (snd (NextC s))"
    by (cases s) (auto simp: NextC_def c_isspace_def)
  then show ?thesis by (simp add: lexer_def lexq_def case_prod_unfold) (rule lex_loop_cong, simp)
qed

text \<open>A quoted text: the escapes of \<^verbatim>\<open>quotestring\<close> are undone.\<close>

definition plain_text :: "string \<Rightarrow> bool" where
  "plain_text s \<longleftrightarrow> bslash \<notin> set s \<and> CHR 0xFF \<notin> set s"

lemma plain_text_Cons [simp]:
  "plain_text (c # cs) \<longleftrightarrow> c \<noteq> bslash \<and> c \<noteq> CHR 0xFF \<and> plain_text cs"
  by (auto simp: plain_text_def)

lemma NextC_pair: "lex_string q st this (fst (NextC s)) (snd (NextC s)) = (case NextC s of (l, r) \<Rightarrow> lex_string q st this l r)"
  by (simp add: case_prod_unfold)

lemma lex_string_Cons:
  "c \<noteq> CHR 0xFF \<Longrightarrow> this = bslash \<or> c \<noteq> q \<Longrightarrow> r \<noteq> [] \<Longrightarrow>
   (case NextC (c # r) of (l, r') \<Rightarrow> lex_string q st this l r') =
   (case NextC r of (l, r') \<Rightarrow> lex_string q (if this = bslash then butlast st @ escape_char c else st @ [c]) c l r')"
  by (cases r) (auto simp: NextC_def Let_def)

lemma lex_string_quoted:
  assumes "plain_text s" "this \<noteq> bslash"
  shows "(case NextC (concat (map quote_char s) @ dquote # r) of (l, r') \<Rightarrow> lex_string dquote st this l r') = (st @ s, r)"
  using assms
proof (induction s arbitrary: st this)
  case Nil
  then show ?case by (simp add: NextC_def)
next
  case (Cons c s)
  note st = lex_string_Cons
  consider "quote_char c = [c]" "c \<noteq> dquote"
    | e where "quote_char c = [bslash, e]" "escape_char e = [c]" "e \<noteq> bslash" "e \<noteq> CHR 0xFF"
    using Cons.prems(1) by (fastforce simp: quote_char_def escape_char_def split: if_splits)
  then show ?case
  proof cases
    case 1
    then show ?thesis
      using Cons.prems by (simp add: st del: lex_string.simps) (subst Cons.IH, simp_all)
  next
    case 2
    then show ?thesis
      using Cons.prems by (simp add: st del: lex_string.simps) (subst Cons.IH, simp_all add: butlast_append)
  qed
qed

lemma lex_string_raw:
  assumes "plain_name k" "this \<noteq> bslash"
  shows "(case NextC (k @ dquote # r) of (l, r') \<Rightarrow> lex_string dquote st this l r') = (st @ k, r)"
proof (cases k)
  case Nil
  then show ?thesis using assms by (simp add: NextC_def)
next
  case (Cons c cs)
  then show ?thesis using assms lex_string_plain [of cs c this st r] by (simp add: NextC_def)
qed

lemma lexq_string:
  assumes "(case NextC t of (l, r') \<Rightarrow> lex_string dquote [] (CHR 0x00) l r') = (s, r)"
  shows "lexq (dquote # t) = str_tok s # lexq r"
proof -
  have "lex_step False [] dquote t = (Some (str_tok s), [], NextC r)"
    using assms by (cases "NextC t") (simp add: lex_step_def)
  then show ?thesis by (subst lexq_step) (auto simp: c_isspace_def)
qed

lemma no_bslash: "bslash \<notin> set s \<Longrightarrow> \<not> str_contains [bslash, dquote] s"
  by (induction s) (auto simp: take_Suc_conv_app_nth split: list.splits)

lemma lexq_quoted: "plain_text s \<Longrightarrow> lexq (quotestring s @ r) = str_tok s # lexq r"
  using no_bslash [of s] lexq_string [OF lex_string_quoted [where st = "[]" and this = "CHR 0x00" and s = s and r = r, simplified]]
  by (simp add: quotestring_def plain_text_def)

lemma lexq_name: "plain_name k \<Longrightarrow> lexq (dquote # k @ dquote # r) = str_tok k # lexq r"
  by (rule lexq_string) (simp add: lex_string_raw)

text \<open>Punctuation.\<close>

lemma lexq_punct:
  assumes "(c, t) \<in> set [(CHR ''{'', TT_compound_l), (CHR ''}'', TT_compound_r), (CHR ''['', TT_subscr_l),
     (CHR '']'', TT_subscr_r), (CHR '':'', TT_jsonassign), (CHR '','', TT_seperator)]"
  shows "lexq (c # r) = mk_token [c] t [] False # lexq r"
proof -
  have op: "map_of operators [c, x] = None" for x
  proof (rule ccontr)
    assume "map_of operators [c, x] \<noteq> None"
    then obtain u where "map_of operators [c, x] = Some u" by blast
    from operators_two [OF this] assms show False by auto
  qed
  have t: "map_of operators [c] = Some t" "t \<noteq> TT_identifier" "t \<noteq> TT_string"
    using assms by (simp_all add: operators_def, (elim disjE conjE, simp_all)+)
  have c: "\<not> c_isspace c" "\<not> c_isalpha c" "\<not> c_isdigit c" "c \<noteq> CHR 0xFF"
    "c \<noteq> dquote" "c \<noteq> CHR 0x27" "c \<noteq> CHR ''#''" "c \<noteq> CHR ''$''" "c \<noteq> CHR ''_''" "c \<noteq> CHR ''.''" "c \<noteq> CHR ''/''"
    using assms by (auto simp: c_isspace_def c_isalpha_def c_isdigit_def c_isupper_def c_islower_def)
  have "lex_step False [] c r = (Some (mk_token [c] t [] False), [], NextC r)"
    using c t op by (simp add: lex_step_def case_prod_unfold)
  then show ?thesis using c by (simp add: lexq_step)
qed

text \<open>Numbers end at a character that is neither a digit nor a dot.\<close>

definition ends_number :: "string \<Rightarrow> bool" where
  "ends_number r \<longleftrightarrow> (case r of [] \<Rightarrow> True | e # _ \<Rightarrow> e \<noteq> CHR 0xFF \<and> \<not> c_isdigit e \<and> e \<noteq> CHR ''.'')"

lemma lex_while_end:
  assumes "\<forall>x \<in> set (c # cs). P x \<and> x \<noteq> CHR 0xFF" "case r of [] \<Rightarrow> True | e # _ \<Rightarrow> e \<noteq> CHR 0xFF \<and> \<not> P e"
  shows "lex_while P st (Some c) (cs @ r) = (st @ c # cs, NextC r)"
  using assms
proof (induction cs arbitrary: c st)
  case Nil
  then show ?case by (cases r) (simp_all add: NextC_def)
qed simp

lemma lexq_nat:
  assumes "ends_number r"
  shows "lexq (nat_to_string n @ r) = mk_token (nat_to_string n) TT_number [] False # lexq r"
proof -
  obtain c cs where n: "nat_to_string n = c # cs" by (cases "nat_to_string n") auto
  have d: "\<forall>x \<in> set (c # cs). c_isdigit x" using nat_to_string_digits [of _ n] n by auto
  have "lex_while (\<lambda>d. c_isdigit d \<or> d = CHR ''.'') [] (Some c) (cs @ r) = (c # cs, NextC r)"
    using assms d digit_not_ff by (subst lex_while_end) (auto simp: ends_number_def split: list.split)
  moreover have c: "c_isdigit c" using d by simp
  ultimately have "lex_step False [] c (cs @ r) = (Some (mk_token (c # cs) TT_number [] False), [], NextC r)"
    unfolding lex_step_def using digit_class [OF c] by (simp add: case_prod_unfold)
  then show ?thesis using digit_not_sign [OF c] digit_not_ff [OF c] by (simp add: lexq_step n)
qed

lemma lexq_minus: 
  assumes "c_isdigit c"
  shows "lexq (CHR ''-'' # c # r) = mk_token ''-'' (TT_op O_op_sub) [] False # lexq (c # r)"
proof -
  have "map_of operators [CHR ''-'', c] = None" "map_of operators ''-'' = Some (TT_op O_op_sub)"
    using assms by (auto simp: operators_def c_isdigit_def)
  then have "lex_step False [] (CHR ''-'') (c # r) = (Some (mk_token ''-'' (TT_op O_op_sub) [] False), [], NextC (c # r))"
    using digit_not_ff [OF assms]
    by (simp add: lex_step_def NextC_def ch_of_def c_isalpha_def c_isdigit_def c_isupper_def c_islower_def)
  then show ?thesis by (subst lexq_step) (auto simp: c_isspace_def)
qed

section \<open>The parser over a text\<close>

definition pq :: "fpu \<Rightarrow> string \<Rightarrow> jparse \<Rightarrow> json res" where
  "pq F t s = parse_tokens F (lexq t) s"

abbreviation jst :: "json \<Rightarrow> jpath list \<Rightarrow> (string \<times> nat \<times> bool) list \<Rightarrow> bool \<Rightarrow> bool \<Rightarrow> bool \<Rightarrow> jparse" where
  "jst r os N v n d \<equiv>
     \<lparr>jp_root = r, jp_objStack = os, jp_nameStack = N, jp_isValue = v, jp_negate = n, jp_didCloseObj = d\<rparr>"

lemma pq_space [simp]: "c_isspace c \<Longrightarrow> pq F (c # r) s = pq F r s"
  by (simp add: pq_def lexq_space)

lemma pq_spaces: "\<forall>c \<in> set w. c_isspace c \<Longrightarrow> pq F (w @ r) s = pq F r s"
  by (induction w) simp_all

lemma pq_name [simp]:
  "plain_name k \<Longrightarrow>
   pq F (dquote # k @ dquote # r) (jst j os N False n d) = pq F r (jst j os ((k, 0, False) # N) False False d)"
  by (simp add: pq_def lexq_name parse_token_def parse_value_def Let_def)

lemma pq_colon [simp]: "pq F (CHR '':'' # r) (jst j os N v n d) = pq F r (jst j os N True n d)"
  by (simp add: pq_def lexq_punct [of "CHR '':''" TT_jsonassign] parse_token_def)

lemma pq_comma [simp]:
  "pq F (CHR '','' # r) (jst j os ((k, i, a) # N) v n d) =
     pq F r (if a then jst j os ((k, i + 1, a) # N) v n False
             else jst j os (if d then (k, i, a) # N else N) False n False)"
  by (simp add: pq_def lexq_punct [of "CHR '',''" TT_seperator] parse_token_def Let_def)

lemma pq_left [simp]:
  "pq F (CHR ''['' # r) (jst j os ((k, i, a) # N) v n d) = pq F r (jst j os ((k, i, True) # N) v n d)"
  by (simp add: pq_def lexq_punct [of "CHR ''[''" TT_subscr_l] parse_token_def)

lemma pq_right [simp]:
  "pq F (CHR '']'' # r) (jst j os ((k, i, a) # N) v n d) = pq F r (jst j os ((k, i, False) # N) v n d)"
  by (simp add: pq_def lexq_punct [of "CHR '']''" TT_subscr_r] parse_token_def)

text \<open>The object on top of the stack, and the rest of the tree around it.\<close>

definition focus :: "jpath \<Rightarrow> (json \<Rightarrow> json) \<Rightarrow> bool" where
  "focus p plug \<longleftrightarrow> (\<forall>x f. upd_path p f (plug x) = bindR (f x) (\<lambda>y. Inr (plug y)))"

lemma focus_root: "focus [] id"
  by (auto simp: focus_def bindR_def split: sum.split)

lemma upd_back_focus:
  "focus p plug \<Longrightarrow> f x = Inr y \<Longrightarrow>
   upd_back (jst (plug x) (p # ps) N v n d) f = Inr (jst (plug y) (p # ps) N v n d)"
  by (simp add: upd_back_def vec_back_def focus_def)

lemma pq_string:
  assumes "plain_text s" "focus p plug" "json_set_str F x k i s = Inr y"
  shows "pq F (quotestring s @ r) (jst (plug x) (p # ps) ((k, i, a) # N) True n d) =
    pq F r (jst (plug y) (p # ps) ((k, i, a) # N) True False d)"
  using upd_back_focus [OF assms(2), of "\<lambda>j. json_set_str F j k i s", OF assms(3)]
  by (simp add: pq_def lexq_quoted [OF assms(1)] parse_token_def parse_value_def vec_back_def)

lemma pq_nat:
  assumes "ends_number r" "n < 2 ^ 31" "focus p plug"
    "json_set_int F x k i (if g then - int n else int n) = Inr y"
  shows "pq F (nat_to_string n @ r) (jst (plug x) (p # ps) ((k, i, a) # N) True g d) =
    pq F r (jst (plug y) (p # ps) ((k, i, a) # N) True False d)"
  using upd_back_focus [OF assms(3), of "\<lambda>j. json_set_int F j k i (if g then - int n else int n)", OF assms(4)] assms(2) no_dot [of n]
  by (simp add: pq_def lexq_nat [OF assms(1)] parse_token_def parse_value_def vec_back_def stoi_nat_to_string)

lemma pq_minus:
  "pq F (CHR ''-'' # nat_to_string n @ r) (jst j os N v g d) = pq F (nat_to_string n @ r) (jst j os N v True d)"
proof -
  obtain c cs where n: "nat_to_string n = c # cs" by (cases "nat_to_string n") auto
  then have "c_isdigit c" using nat_to_string_digits [of c n] by simp
  then show ?thesis by (simp add: pq_def n lexq_minus parse_token_def)
qed

lemma pq_int:
  assumes "ends_number r" "\<bar>n\<bar> < 2 ^ 31" "focus p plug" "json_set_int F x k i n = Inr y"
  shows "pq F (int_to_string n @ r) (jst (plug x) (p # ps) ((k, i, a) # N) True False d) =
    pq F r (jst (plug y) (p # ps) ((k, i, a) # N) True False d)"
proof (cases "n < 0")
  case True
  then show ?thesis
    using pq_nat [of r "nat (- n)" p plug F x k i True y ps a N d] assms by (simp add: int_to_string_def pq_minus)
next
  case False
  then show ?thesis
    using pq_nat [of r "nat n" p plug F x k i False y ps a N d] assms by (simp add: int_to_string_def)
qed

text \<open>Objects open at a new property and close with the last name of their own.\<close>

abbreviation below :: "(string \<times> 'v) list \<Rightarrow> string \<Rightarrow> bool" where
  "below m k \<equiv> \<forall>e \<in> set m. str_less (fst e) k"

lemma smap_set_again: "below m k \<Longrightarrow> smap_set (m @ [(k, v)]) k w = m @ [(k, w)]"
  by (induction m) (auto dest: str_less_asym)

lemma json_value_end: "below m k \<Longrightarrow> json_value (JSON (m @ [(k, v)]) cs) k = v"
  by (simp add: json_value_def map_of_last map_add_def)

lemma focus_in:
  assumes "focus p plug" "below m k"
  shows "focus (p @ [(k, 0)]) (\<lambda>x. plug (JSON (m @ [(k, LObj [Some x])]) []))"
proof -
  have app: "upd_path (p @ q) f j = upd_path p (upd_path q f) j" for q f j
    by (induction p f j rule: upd_path.induct) (auto split: lvariant.split intro!: arg_cong2 [where f = bindR] ext)
  show ?thesis
    using assms
    by (simp add: focus_def app json_value_end json_put_def smap_set_again bindR_def split: sum.split)
qed

lemma pq_open:
  assumes "focus p plug" "below m k"
  shows "pq F (CHR ''{'' # r) (jst (plug (JSON m [])) (p # ps) ((k, 0, a) # N) v n d) =
    pq F r (jst (plug (JSON (m @ [(k, LObj [Some make_json])]) [])) ((p @ [(k, 0)]) # p # ps) ((k, 0, a) # N) False n d)"
proof -
  have "json_get_obj (JSON m []) k 0 = Inr (JSON (m @ [(k, LObj [Some make_json])]) [])"
    using assms(2) by (simp add: json_get_obj_def lv_get_obj_def lv_obj_vec_def json_value_def map_of_last
        vec_grow_def json_put_def smap_set_last)
  from upd_back_focus [OF assms(1), of "\<lambda>j. json_get_obj j k 0", OF this] show ?thesis
    by (simp add: pq_def lexq_punct [of "CHR ''{''" TT_compound_l] parse_token_def)
qed

lemma pq_close:
  "os \<noteq> [] \<Longrightarrow> pq F (CHR ''}'' # r) (jst j (p # os) ((k, i, False) # N) v n d) = pq F r (jst j os N False n True)"
  by (simp add: pq_def lexq_punct [of "CHR ''}''" TT_compound_r] parse_token_def Let_def)

lemma pq_start: "pq F (CHR ''{'' # r) (jst j [] N v n d) = pq F r (jst j [[]] N False n d)"
  by (simp add: pq_def lexq_punct [of "CHR ''{''" TT_compound_l] parse_token_def)

lemma pq_end: "pq F (CHR ''}'' # r) (jst j [p] N v n d) = Inr j"
  by (simp add: pq_def lexq_punct [of "CHR ''}''" TT_compound_r] parse_token_def)

section \<open>Lists of strings and numbers\<close>

text \<open>The object with the first elements of a list in place.\<close>

definition fld :: "(string \<times> lvariant) list \<Rightarrow> string \<Rightarrow> ('a list \<Rightarrow> lvariant) \<Rightarrow> 'a list \<Rightarrow> json" where
  "fld m k c xs = JSON (m @ (if xs = [] then [] else [(k, c xs)])) []"

lemma vec_snoc: "(vec_grow xs (length xs + 1) d)[length xs := x] = xs @ [x]"
  by (simp add: vec_grow_def)

lemma fld_value: "below m k \<Longrightarrow> json_value (fld m k c xs) k = (if xs = [] then LUndef else c xs)"
  by (auto simp: fld_def json_value_end) (simp add: json_value_def map_of_last)

lemma fld_put: "below m k \<Longrightarrow> json_put (fld m k c xs) k (c (xs @ [x])) = fld m k c (xs @ [x])"
  by (simp add: fld_def json_put_def smap_set_last smap_set_again)

lemma fld_set_str: "below m k \<Longrightarrow> json_set_str F (fld m k LStr xs) k (length xs) s = Inr (fld m k LStr (xs @ [s]))"
  using vec_snoc [of "xs" "[]" s] fld_put [of m k LStr "[]" s]
  by (auto simp: json_set_str_def lv_set_str_def lv_str_vec_def fld_value fld_put vec_grow_def)

lemma fld_set_int: "below m k \<Longrightarrow> json_set_int F (fld m k LInt xs) k (length xs) n = Inr (fld m k LInt (xs @ [n]))"
  using vec_snoc [of "xs" 0 n] fld_put [of m k LInt "[]" n]
  by (auto simp: json_set_int_def lv_set_int_def lv_int_vec_def fld_value fld_put vec_grow_def)

definition commas :: "string list \<Rightarrow> string" where
  "commas ts = butlast (concat (map (\<lambda>t. t @ '','') ts))"

lemma commas_simps [simp]:
  "commas [] = []" "commas [t] = t" "commas (t # u # us) = t @ CHR '','' # commas (u # us)"
  by (simp_all add: commas_def butlast_append)

lemma commas_concat: "ts \<noteq> [] \<Longrightarrow> concat (map (\<lambda>t. t @ '','') ts) = commas ts @ '',''"
  by (induction ts rule: induct_list012) simp_all

text \<open>
  If every element is read into its place, the list between brackets is read element by element.
\<close>

lemma pq_items:
  assumes elem: "\<And>pre x r a. x \<in> set xs \<Longrightarrow> ends_number r \<Longrightarrow>
      pq F (txt x @ r) (jst (plug (fld m k c pre)) os ((k, length pre, a) # N) True False False) =
      pq F r (jst (plug (fld m k c (pre @ [x]))) os ((k, length pre, a) # N) True False False)"
    and "xs \<noteq> []"
  shows "\<exists>i. \<forall>r. ends_number r \<longrightarrow> pq F (commas (map txt xs) @ r)
        (jst (plug (fld m k c pre)) os ((k, length pre, True) # N) True False False) =
      pq F r (jst (plug (fld m k c (pre @ xs))) os ((k, i, True) # N) True False False)"
  using assms
proof (induction xs arbitrary: pre)
  case (Cons x xs)
  show ?case
  proof (cases xs)
    case Nil
    then show ?thesis using Cons.prems(1) [of x _ pre True] by auto
  next
    case xs: (Cons y ys)
    have "\<exists>i. \<forall>r. ends_number r \<longrightarrow> pq F (commas (map txt xs) @ r)
        (jst (plug (fld m k c (pre @ [x]))) os ((k, length (pre @ [x]), True) # N) True False False) =
      pq F r (jst (plug (fld m k c ((pre @ [x]) @ xs))) os ((k, i, True) # N) True False False)"
      by (rule Cons.IH) (use Cons.prems xs in auto)
    moreover have "pq F (txt x @ CHR '','' # commas (map txt xs) @ r)
        (jst (plug (fld m k c pre)) os ((k, length pre, True) # N) True False False) =
      pq F (CHR '','' # commas (map txt xs) @ r)
        (jst (plug (fld m k c (pre @ [x]))) os ((k, length pre, True) # N) True False False)" for r
      by (rule Cons.prems(1)) (simp_all add: ends_number_def c_isdigit_def)
    ultimately show ?thesis by (simp add: xs)
  qed
qed simp

section \<open>Values\<close>

text \<open>
  A text that stands for a value: behind the name and the colon it puts the value below the name.
  Names of inner objects may stay on the stack, but only below an object that closed.
\<close>

definition value_end :: "string \<Rightarrow> bool" where
  "value_end t \<longleftrightarrow> t \<noteq> [] \<and> last t \<noteq> CHR '','' \<and> last t \<noteq> CHR 0x0A"

abbreviation closed :: "(string \<times> nat \<times> bool) list \<Rightarrow> bool" where
  "closed T \<equiv> \<forall>e \<in> set T. \<not> snd (snd e)"

definition reads_value :: "fpu \<Rightarrow> lvariant \<Rightarrow> string \<Rightarrow> bool" where
  "reads_value F v t \<longleftrightarrow>
     (\<forall>p ps plug m k S. focus p plug \<longrightarrow> below m k \<longrightarrow>
        (\<exists>T i b d. closed T \<and> (d \<or> T = []) \<and>
          (\<forall>r. ends_number r \<longrightarrow>
             pq F (t @ r) (jst (plug (JSON m [])) (p # ps) ((k, 0, False) # S) True False False) =
             pq F r (jst (plug (JSON (m @ [(k, v)]) [])) (p # ps) (T @ (k, i, False) # S) b False d))))"

definition reads_body :: "fpu \<Rightarrow> (string \<times> lvariant) list \<Rightarrow> string \<Rightarrow> bool" where
  "reads_body F vs t \<longleftrightarrow>
     (\<forall>p ps plug m S. focus p plug \<longrightarrow> smap_sorted (m @ vs) \<longrightarrow>
        (\<exists>T b d. T \<noteq> [] \<and> closed T \<and>
          (\<forall>r. ends_number r \<longrightarrow>
             pq F (t @ r) (jst (plug (JSON m [])) (p # ps) S False False False) =
             pq F r (jst (plug (JSON (m @ vs) [])) (p # ps) (T @ S) b False d))))"

lemma fld_Nil: "fld m k c [] = JSON m []" and fld_all: "xs \<noteq> [] \<Longrightarrow> fld m k c xs = JSON (m @ [(k, c xs)]) []"
  by (simp_all add: fld_def)

lemma reads_list:
  fixes xs :: "'x list"
  assumes elem: "\<And>p ps plug m k S x r pre a. focus p plug \<Longrightarrow> below m k \<Longrightarrow> x \<in> set xs \<Longrightarrow> ends_number r \<Longrightarrow>
      pq F (txt x @ r) (jst (plug (fld m k c pre)) (p # ps) ((k, length pre, a) # S) True False False) =
      pq F r (jst (plug (fld m k c (pre @ [x]))) (p # ps) ((k, length pre, a) # S) True False False)"
    and ne: "xs \<noteq> []"
  shows "reads_value F (c xs) (case xs of [x] \<Rightarrow> txt x | _ \<Rightarrow> ''['' @ commas (map txt xs) @ '']'')"
proof -
  have "\<exists>i b d. (d \<or> [] = []) \<and> (\<forall>r. ends_number r \<longrightarrow>
             pq F ((case xs of [x] \<Rightarrow> txt x | _ \<Rightarrow> ''['' @ commas (map txt xs) @ '']'') @ r)
               (jst (plug (JSON m [])) (p # ps) ((k, 0, False) # S) True False False) =
             pq F r (jst (plug (JSON (m @ [(k, c xs)]) [])) (p # ps) ((k, i, False) # S) b False d))"
    if fb: "focus p plug" "below m k" for p ps plug m k S
  proof (cases "\<exists>x. xs = [x]")
    case True
    then show ?thesis
      using elem [OF fb, of _ _ "[]"] by (force simp: fld_Nil fld_all)
  next
    case False
    then have t: "(case xs of [x] \<Rightarrow> txt x | _ \<Rightarrow> ''['' @ commas (map txt xs) @ '']'') = ''['' @ commas (map txt xs) @ '']''"
      by (cases xs rule: remdups_adj.cases) auto
    have r: "ends_number ('']'' @ r)" for r by (simp add: ends_number_def c_isdigit_def)
    have "\<exists>i. \<forall>r. ends_number r \<longrightarrow> pq F (commas (map txt xs) @ r)
        (jst (plug (fld m k c [])) (p # ps) ((k, length ([] :: 'x list), True) # S) True False False) =
      pq F r (jst (plug (fld m k c ([] @ xs))) (p # ps) ((k, i, True) # S) True False False)"
      by (rule pq_items) (rule elem [OF fb], assumption+, rule ne)
    then obtain i where i: "\<And>r. ends_number r \<Longrightarrow> pq F (commas (map txt xs) @ r)
        (jst (plug (fld m k c [])) (p # ps) ((k, 0, True) # S) True False False) =
      pq F r (jst (plug (fld m k c xs)) (p # ps) ((k, i, True) # S) True False False)" by auto
    have "pq F (''['' @ commas (map txt xs) @ '']'' @ r)
               (jst (plug (JSON m [])) (p # ps) ((k, 0, False) # S) True False False) =
             pq F r (jst (plug (JSON (m @ [(k, c xs)]) [])) (p # ps) ((k, i, False) # S) True False False)" for r
      using i [OF r [of r]] ne by (simp add: fld_Nil fld_all)
    then show ?thesis unfolding t by auto
  qed
  then show ?thesis unfolding reads_value_def by (metis append_Nil empty_iff empty_set)
qed

lemma bracket_commas: "ts \<noteq> [] \<Longrightarrow> bracket (concat (map (\<lambda>t. t @ '','') ts)) = ''['' @ commas ts @ '']''"
  by (simp add: bracket_def commas_concat pop_comma_def butlast_append)

lemma reads_strs:
  assumes "ss \<noteq> []" "list_all plain_text ss"
  shows "reads_value F (LStr ss) (ser_strs ss) \<and> value_end (ser_strs ss)"
proof -
  have t: "ser_strs ss = (case ss of [s] \<Rightarrow> quotestring s | _ \<Rightarrow> ''['' @ commas (map quotestring ss) @ '']'')"
    using bracket_commas [of "map quotestring ss"] assms(1)
    by (cases ss rule: remdups_adj.cases) (simp_all add: o_def)
  have "reads_value F (LStr ss) (ser_strs ss)"
    unfolding t by (rule reads_list [OF pq_string [OF _ _ fld_set_str] assms(1)])
      (use assms(2) in \<open>auto simp: list_all_iff\<close>)
  moreover have "value_end (quotestring s)" for s by (simp add: value_end_def quotestring_def)
  then have "value_end (ser_strs ss)"
    unfolding t by (auto simp: value_end_def split: list.split)
  ultimately show ?thesis by blast
qed

lemma value_end_int: "value_end (int_to_string n)"
proof -
  have "c_isdigit (last (int_to_string n))"
    using nat_to_string_digits [OF last_in_set [OF nat_to_string_nonempty]] by (simp add: int_to_string_def)
  then show ?thesis by (auto simp: value_end_def c_isdigit_def int_to_string_def)
qed

lemma reads_ints:
  assumes "is \<noteq> []" "list_all (\<lambda>n. \<bar>n\<bar> < 2 ^ 31) is"
  shows "reads_value F (LInt is) (ser_ints is) \<and> value_end (ser_ints is)"
proof -
  have "listToString is = commas (map int_to_string is)"
    using commas_concat [of "map int_to_string is"] assms(1) by (simp add: listToString_def o_def Let_def)
  then have t: "ser_ints is = (case is of [n] \<Rightarrow> int_to_string n | _ \<Rightarrow> ''['' @ commas (map int_to_string is) @ '']'')"
    by (cases "is" rule: remdups_adj.cases) simp_all
  have "reads_value F (LInt is) (ser_ints is)"
    unfolding t by (rule reads_list [OF pq_int [OF _ _ _ fld_set_int] assms(1)])
      (use assms(2) in \<open>auto simp: list_all_iff\<close>)
  moreover have "value_end (ser_ints is)"
    unfolding t using value_end_int by (auto simp: value_end_def split: list.split)
  ultimately show ?thesis by blast
qed

section \<open>Objects\<close>

lemma ends_close: "ends_number (CHR ''}'' # r)" "c_isspace c \<Longrightarrow> ends_number (c # r)" "ends_number (CHR '','' # r)"
  by (auto simp: ends_number_def c_isdigit_def c_isspace_def)

lemma ends_spaces: "\<forall>c \<in> set w. c_isspace c \<Longrightarrow> ends_number (w @ CHR ''}'' # r)"
  by (cases w) (simp_all add: ends_close)

lemma pq_body_end:
  assumes "\<forall>c \<in> set w. c_isspace c" "\<And>r. ends_number r \<Longrightarrow> pq F (t @ r) s = pq F r s'"
  shows "pq F (t @ w @ CHR ''}'' # r) s = pq F (CHR ''}'' # r) s'"
  by (simp add: assms(2) [OF ends_spaces [OF assms(1)]] pq_spaces [OF assms(1)])

lemma reads_bodyD:
  "reads_body F vs t \<Longrightarrow> focus p plug \<Longrightarrow> smap_sorted (m @ vs) \<Longrightarrow>
   \<exists>T b d. T \<noteq> [] \<and> closed T \<and> (\<forall>r. ends_number r \<longrightarrow>
     pq F (t @ r) (jst (plug (JSON m [])) (p # ps) S False False False) =
     pq F r (jst (plug (JSON (m @ vs) [])) (p # ps) (T @ S) b False d))"
  by (simp add: reads_body_def)

lemma reads_object:
  assumes body: "reads_body F vs t" and vs: "smap_sorted vs"
    and w: "\<forall>c \<in> set w. c_isspace c" "\<forall>c \<in> set w'. c_isspace c"
  shows "reads_value F (LObj [Some (JSON vs [])]) (CHR ''{'' # w @ t @ w' @ ''}'')"
  unfolding reads_value_def
proof (intro allI impI)
  fix p ps plug k and m :: "(string \<times> lvariant) list" and S :: "(string \<times> nat \<times> bool) list"
  assume fb: "focus p plug" "below m k"
  have "\<exists>T b d. T \<noteq> [] \<and> closed T \<and> (\<forall>r. ends_number r \<longrightarrow>
      pq F (t @ r) (jst (plug (JSON (m @ [(k, LObj [Some (JSON [] [])])]) [])) ((p @ [(k, 0)]) # p # ps)
        ((k, 0, False) # S) False False False) =
      pq F r (jst (plug (JSON (m @ [(k, LObj [Some (JSON ([] @ vs) [])])]) [])) ((p @ [(k, 0)]) # p # ps)
        (T @ (k, 0, False) # S) b False d))"
    using reads_bodyD [OF body focus_in [OF fb], where m = "[]" and ps = "p # ps" and S = "(k, 0, False) # S"] vs by simp
  then obtain T b d where T: "T \<noteq> []" "closed T"
    and r: "\<And>r. ends_number r \<Longrightarrow>
      pq F (t @ r) (jst (plug (JSON (m @ [(k, LObj [Some (JSON [] [])])]) [])) ((p @ [(k, 0)]) # p # ps)
        ((k, 0, False) # S) False False False) =
      pq F r (jst (plug (JSON (m @ [(k, LObj [Some (JSON vs [])])]) [])) ((p @ [(k, 0)]) # p # ps)
        (T @ (k, 0, False) # S) b False d)" by auto
  obtain x i T' where T': "T = (x, i, False) # T'" using T by (cases T) auto
  have "pq F ((CHR ''{'' # w @ t @ w' @ ''}'') @ r) (jst (plug (JSON m [])) (p # ps) ((k, 0, False) # S) True False False) =
     pq F r (jst (plug (JSON (m @ [(k, LObj [Some (JSON vs [])])]) [])) (p # ps) (T' @ (k, 0, False) # S) False False True)"
    for r
    using pq_body_end [OF w(2) r, of r]
    by (simp add: pq_open [OF fb] pq_spaces [OF w(1)] make_json_def T' pq_close)
  then show "\<exists>T i b d. closed T \<and> (d \<or> T = []) \<and>
      (\<forall>r. ends_number r \<longrightarrow>
         pq F ((CHR ''{'' # w @ t @ w' @ ''}'') @ r)
           (jst (plug (JSON m [])) (p # ps) ((k, 0, False) # S) True False False) =
         pq F r (jst (plug (JSON (m @ [(k, LObj [Some (JSON vs [])])]) [])) (p # ps)
           (T @ (k, i, False) # S) b False d))"
    using T T' by (intro exI [of _ T'] exI [of _ 0] exI [of _ False] exI [of _ True]) auto
qed

lemma reads_entry:
  assumes v: "reads_value F v t" and k: "plain_name k" and w: "\<forall>c \<in> set w. c_isspace c"
    and fb: "focus p plug" "below m k"
  obtains T i b d where "closed T" "d \<or> T = []"
    "\<And>r. ends_number r \<Longrightarrow>
       pq F (w @ dquote # k @ dquote # CHR '':'' # t @ r) (jst (plug (JSON m [])) (p # ps) S False False False) =
       pq F r (jst (plug (JSON (m @ [(k, v)]) [])) (p # ps) (T @ (k, i, False) # S) b False d)"
proof -
  obtain T i b d where "closed T" "d \<or> T = []"
    "\<And>r. ends_number r \<Longrightarrow>
       pq F (t @ r) (jst (plug (JSON m [])) (p # ps) ((k, 0, False) # S) True False False) =
       pq F r (jst (plug (JSON (m @ [(k, v)]) [])) (p # ps) (T @ (k, i, False) # S) b False d)"
    using v fb unfolding reads_value_def by metis
  then show ?thesis using k by (intro that [of T d i b]) (simp_all add: pq_spaces [OF w])
qed

lemma reads_body_one:
  assumes "reads_value F v t" "plain_name k" "\<forall>c \<in> set w. c_isspace c"
  shows "reads_body F [(k, v)] (w @ dquote # k @ dquote # CHR '':'' # t)"
  unfolding reads_body_def
proof (intro allI impI)
  fix p ps plug and m :: "(string \<times> lvariant) list" and S :: "(string \<times> nat \<times> bool) list"
  assume fb: "focus p plug" and s: "smap_sorted (m @ [(k, v)])"
  have "below m k" using s by (auto simp: smap_sorted_def sorted_wrt_append)
  then obtain T i b d where T: "closed T"
    "\<And>r. ends_number r \<Longrightarrow>
       pq F (w @ dquote # k @ dquote # CHR '':'' # t @ r) (jst (plug (JSON m [])) (p # ps) S False False False) =
       pq F r (jst (plug (JSON (m @ [(k, v)]) [])) (p # ps) (T @ (k, i, False) # S) b False d)"
    using reads_entry [OF assms fb] by metis
  then show "\<exists>T b d. T \<noteq> [] \<and> closed T \<and>
      (\<forall>r. ends_number r \<longrightarrow>
         pq F ((w @ dquote # k @ dquote # CHR '':'' # t) @ r) (jst (plug (JSON m [])) (p # ps) S False False False) =
         pq F r (jst (plug (JSON (m @ [(k, v)]) [])) (p # ps) (T @ S) b False d))"
    by (intro exI [of _ "T @ [(k, i, False)]"] exI [of _ b] exI [of _ d]) auto
qed

lemma reads_body_more:
  assumes "reads_value F v t" "plain_name k" "\<forall>c \<in> set w. c_isspace c"
    and w': "\<forall>c \<in> set w'. c_isspace c" and body: "reads_body F vs t'" "vs \<noteq> []"
  shows "reads_body F ((k, v) # vs) (w @ dquote # k @ dquote # CHR '':'' # t @ CHR '','' # w' @ t')"
  unfolding reads_body_def
proof (intro allI impI)
  fix p ps plug and m :: "(string \<times> lvariant) list" and S :: "(string \<times> nat \<times> bool) list"
  assume fb: "focus p plug" and s: "smap_sorted (m @ (k, v) # vs)"
  have "below m k" using s by (auto simp: smap_sorted_def sorted_wrt_append)
  then obtain T i b d where T: "closed T" "d \<or> T = []" and
    r: "\<And>r. ends_number r \<Longrightarrow>
       pq F (w @ dquote # k @ dquote # CHR '':'' # t @ r) (jst (plug (JSON m [])) (p # ps) S False False False) =
       pq F r (jst (plug (JSON (m @ [(k, v)]) [])) (p # ps) (T @ (k, i, False) # S) b False d)"
    using reads_entry [OF assms(1-3) fb] by metis
  define U where "U = (if d then T @ [(k, i, False)] else [])"
  have comma: "pq F (CHR '','' # r) (jst j os (T @ (k, i, False) # S) b False d) = pq F r (jst j os (U @ S) False False False)"
    for r j os
    using T by (cases T) (auto simp: U_def)
  obtain T2 b2 d2 where T2: "T2 \<noteq> []" "closed T2" and
    r2: "\<And>r. ends_number r \<Longrightarrow>
       pq F (t' @ r) (jst (plug (JSON (m @ [(k, v)]) [])) (p # ps) (U @ S) False False False) =
       pq F r (jst (plug (JSON ((m @ [(k, v)]) @ vs) [])) (p # ps) (T2 @ U @ S) b2 False d2)"
    using reads_bodyD [OF body(1) fb, where m = "m @ [(k, v)]" and ps = ps and S = "U @ S"] s by auto
  have "pq F ((w @ dquote # k @ dquote # CHR '':'' # t @ CHR '','' # w' @ t') @ r)
      (jst (plug (JSON m [])) (p # ps) S False False False) =
     pq F r (jst (plug (JSON (m @ (k, v) # vs) [])) (p # ps) ((T2 @ U) @ S) b2 False d2)" if "ends_number r" for r
    using r [OF ends_close(3), of "w' @ t' @ r"] r2 [OF that] by (simp add: comma pq_spaces [OF w'])
  moreover have "closed (T2 @ U)" using T T2 by (auto simp: U_def)
  ultimately show "\<exists>T b d. T \<noteq> [] \<and> closed T \<and>
      (\<forall>r. ends_number r \<longrightarrow>
         pq F ((w @ dquote # k @ dquote # CHR '':'' # t @ CHR '','' # w' @ t') @ r)
           (jst (plug (JSON m [])) (p # ps) S False False False) =
         pq F r (jst (plug (JSON (m @ (k, v) # vs) [])) (p # ps) (T @ S) b False d))"
    using T2(1) by (intro exI [of _ "T2 @ U"] exI [of _ b2] exI [of _ d2]) auto
qed

section \<open>What is printed\<close>

text \<open>
  The objects that the text carries: sorted plain names, no comments, no empty lists or objects,
  no floats, numbers of 32 bits, and an object or a list of numbers or strings for every name.
\<close>

fun json_plain :: "json \<Rightarrow> bool" and lv_plain :: "lvariant \<Rightarrow> bool"
  and vals_plain :: "(string \<times> lvariant) list \<Rightarrow> bool" where
  "json_plain (JSON vs cs) \<longleftrightarrow> cs = [] \<and> vs \<noteq> [] \<and> smap_sorted vs \<and> vals_plain vs"
| "lv_plain LUndef \<longleftrightarrow> False"
| "lv_plain (LObj [Some j]) \<longleftrightarrow> json_plain j"
| "lv_plain (LObj os) \<longleftrightarrow> False"
| "lv_plain (LStr ss) \<longleftrightarrow> ss \<noteq> [] \<and> list_all plain_text ss"
| "lv_plain (LInt is) \<longleftrightarrow> is \<noteq> [] \<and> list_all (\<lambda>n. \<bar>n\<bar> < 2 ^ 31) is"
| "lv_plain (LFlt fs) \<longleftrightarrow> False"
| "vals_plain [] \<longleftrightarrow> True"
| "vals_plain ((k, v) # vs) \<longleftrightarrow> plain_name k \<and> lv_plain v \<and> vals_plain vs"

abbreviation nl :: "nat \<Rightarrow> string" where
  "nl p \<equiv> (if p > 0 then [CHR 0x0A] else [])"

abbreviation indent :: "nat \<Rightarrow> string" where
  "indent p \<equiv> (if p > 0 then tabs p else [])"

lemma spaces_nl: "\<forall>c \<in> set (nl p). c_isspace c" "\<forall>c \<in> set (tabs n). c_isspace c"
  by (auto simp: tabs_def c_isspace_def)

lemma ser_entry_plain:
  "n \<noteq> [] \<Longrightarrow> ser_entry p [] k n = (indent p @ dquote # k @ dquote # CHR '':'' # n) @ CHR '','' # nl p"
  by (simp add: ser_entry_def)

lemma pop_trailing_end: "value_end t \<Longrightarrow> pop_trailing (x @ t @ CHR '','' # nl p) = x @ t"
  by (cases t rule: rev_cases) (simp_all add: pop_trailing_def value_end_def)

lemma ser_json:
  assumes "value_end t" "ser_values F p [] vs = t @ CHR '','' # nl p"
  shows "json_serialize F p (JSON vs []) = CHR ''{'' # nl p @ t @ (nl p @ tabs (p - 1)) @ ''}''"
  using pop_trailing_end [OF assms(1), of "[CHR ''{'', CHR 0x0A]" p] assms(2)
  by (simp add: ser_close_def pop_comma_def butlast_append split: if_splits)

lemma value_end_append: "value_end t \<Longrightarrow> value_end (x @ t)"
  by (simp add: value_end_def)

lemma reads_json:
  "json_plain j \<Longrightarrow> \<exists>w t w'. json_serialize F p j = CHR ''{'' # w @ t @ w' @ ''}'' \<and>
     reads_body F (jvalues j) t \<and> (\<forall>c \<in> set w. c_isspace c) \<and> (\<forall>c \<in> set w'. c_isspace c)"
  "lv_plain v \<Longrightarrow> reads_value F v (lv_serialize F p v) \<and> value_end (lv_serialize F p v)"
  "vals_plain vs \<Longrightarrow> vs \<noteq> [] \<Longrightarrow>
     \<exists>t. ser_values F p [] vs = t @ CHR '','' # nl p \<and> reads_body F vs t \<and> value_end t"
proof (induction j and v and vs arbitrary: p and p and p rule: json_plain_lv_plain_vals_plain.induct)
  case (1 vs cs)
  then obtain t where t: "ser_values F p [] vs = t @ CHR '','' # nl p" "reads_body F vs t" "value_end t" by auto
  have "json_serialize F p (JSON vs cs) = CHR ''{'' # nl p @ t @ (nl p @ tabs (p - 1)) @ ''}''"
    using ser_json [OF t(3,1)] 1 by simp
  moreover have "\<forall>c \<in> set (nl p @ tabs (p - 1)). c_isspace c" using spaces_nl by auto
  ultimately show ?case using t(2) spaces_nl(1) [of p] by (metis json.sel(1))
next
  case (3 j)
  let ?q = "if p > 0 then p + 1 else 0"
  obtain vs where j: "j = JSON vs []" "smap_sorted vs" using 3(2) by (cases j) simp
  obtain w t w' where t: "json_serialize F ?q j = CHR ''{'' # w @ t @ w' @ ''}''" "reads_body F vs t"
    "\<forall>c \<in> set w. c_isspace c" "\<forall>c \<in> set w'. c_isspace c"
    using 3(1) [of ?q] 3(2) j(1) by auto
  then have "lv_serialize F p (LObj [Some j]) = CHR ''{'' # w @ t @ w' @ ''}''" by simp
  then show ?case
    using reads_object [OF t(2) j(2) t(3,4)] j(1) by (simp add: value_end_def)
next
  case (5 ss)
  then show ?case using reads_strs by simp
next
  case (6 "is")
  then show ?case using reads_ints by simp
next
  case (9 k v vs)
  have v: "reads_value F v (lv_serialize F p v)" "value_end (lv_serialize F p v)" and k: "plain_name k"
    using 9 by simp_all
  let ?e = "indent p @ dquote # k @ dquote # CHR '':'' # lv_serialize F p v"
  have e: "ser_entry p [] k (lv_serialize F p v) = ?e @ CHR '','' # nl p"
    by (rule ser_entry_plain) (use v(2) in \<open>simp add: value_end_def\<close>)
  have w: "\<forall>c \<in> set (indent p). c_isspace c" using spaces_nl(2) by auto
  show ?case
  proof (cases "vs = []")
    case True
    have "ser_values F p [] ((k, v) # vs) = ?e @ CHR '','' # nl p" using e True by simp
    moreover have "reads_body F ((k, v) # vs) ?e" unfolding True by (rule reads_body_one [OF v(1) k w])
    moreover have "value_end ?e" using v(2) by (simp add: value_end_def)
    ultimately show ?thesis by blast
  next
    case False
    then obtain t where t: "ser_values F p [] vs = t @ CHR '','' # nl p" "reads_body F vs t" "value_end t"
      using 9 by auto
    let ?t = "indent p @ dquote # k @ dquote # CHR '':'' # lv_serialize F p v @ CHR '','' # nl p @ t"
    have "ser_values F p [] ((k, v) # vs) = ?t @ CHR '','' # nl p" using e t(1) by simp
    moreover have "reads_body F ((k, v) # vs) ?t"
      by (rule reads_body_more [OF v(1) k w spaces_nl(1) t(2) False])
    moreover have "value_end ?t" using t(3) by (simp add: value_end_def)
    ultimately show ?thesis by blast
  qed
qed simp_all

section \<open>The round trip\<close>

text \<open>
  C10: an object of plain values is read back from its text as it was, however deep it is and
  whether it was printed with indentation or without. Plain (\<open>json_plain\<close>) are objects that have a property, in the order of their names
  and without comments, whose names have no quotation mark, backslash or byte 255 and whose values are a non-empty list of strings without
  backslash and byte 255, a non-empty list of numbers of absolute value below two to the power 31, or one plain object. What is left out is not
  read back in general: see \<open>json_empty_object\<close> and \<open>json_dir_big_node\<close>.
\<close>

theorem json_roundtrip:
  assumes "json_plain j" "jcomments j0 = []"
  shows "json_unserialize F j0 (json_serialize F pretty j) = Inr j"
proof -
  obtain w t w' where t: "json_serialize F pretty j = CHR ''{'' # w @ t @ w' @ ''}''" "reads_body F (jvalues j) t"
    "\<forall>c \<in> set w. c_isspace c" "\<forall>c \<in> set w'. c_isspace c"
    using reads_json(1) [OF assms(1)] by metis
  have j: "j = JSON (jvalues j) []" "smap_sorted (jvalues j)" using assms(1) by (cases j; simp)+
  have "json_unserialize F j0 (json_serialize F pretty j) =
      pq F (t @ w' @ ''}'') (jst (JSON [] []) [[]] [] False False False)"
    using assms(2)
    by (simp add: json_unserialize_def jparse_init_def lexer_lexq t(1) pq_start pq_spaces [OF t(3)] json_clear_def
        flip: pq_def)
  moreover obtain T b d where
    r: "\<And>r. ends_number r \<Longrightarrow>
       pq F (t @ r) (jst (JSON [] []) [[]] [] False False False) = pq F r (jst j [[]] T b False d)"
    using reads_bodyD [OF t(2) focus_root, where m = "[]" and ps = "[]" and S = "[]"] j by auto
  ultimately show ?thesis using pq_body_end [OF t(4) r, of "[]"] by (simp add: pq_end)
qed

definition sample_json :: json where
  "sample_json = JSON [(''files'', LObj [Some (JSON [(''a b'', LInt [256, -1]), (''sub'', LObj [Some (JSON [(''x'', LStr [[CHR 0x22]])] [])])] [])]),
     (''name'', LStr [''one'', ''two'']), (''version'', LInt [1])] []"

theorem json_roundtrip_witness:
  "json_unserialize sample_fpu make_json (json_serialize sample_fpu 1 sample_json) = Inr sample_json"
  by (rule json_roundtrip) (simp_all add: sample_json_def smap_sorted_def plain_name_def plain_text_def make_json_def)

section \<open>Empty objects\<close>

lemma pq_comma_none: "pq F (CHR '','' # r) (jst j os [] v n d) = Inl AssertFail"
  by (simp add: pq_def lexq_punct [of "CHR '',''" TT_seperator] parse_token_def assertR_def)

lemma ser_empty:
  "json_serialize F p (JSON [] []) = CHR ''{'' # (nl p @ tabs (p - 1)) @ ''}''"
  by (simp add: ser_close_def pop_comma_def pop_trailing_def)

text \<open>
  An empty object below a name is printed but cannot be read when another property follows
  it: the brace that closes it drops the name it stands under, and the comma finds no name.
\<close>

theorem json_empty_object:
  assumes "plain_name k" "lv_plain v" "jcomments j0 = []"
  shows "json_unserialize F j0
      (json_serialize F pretty (JSON [(k, LObj [Some (JSON [] [])]), (k', v)] [])) = Inl AssertFail"
proof -
  let ?q = "if pretty > 0 then pretty + 1 else 0"
  let ?n = "lv_serialize F pretty v"
  let ?o = "CHR ''{'' # (nl ?q @ tabs (?q - 1)) @ ''}''"
  let ?t = "indent pretty @ dquote # k @ dquote # CHR '':'' # ?o @
     CHR '','' # nl pretty @ indent pretty @ dquote # k' @ dquote # CHR '':'' # ?n"
  have n: "value_end ?n" using reads_json(2) [OF assms(2)] by blast
  have "ser_values F pretty [] [(k, LObj [Some (JSON [] [])]), (k', v)] = ?t @ CHR '','' # nl pretty"
    using n by (simp add: ser_entry_plain ser_empty value_end_def del: json_serialize.simps)
  moreover have "value_end ?t" using n by (simp add: value_end_def)
  ultimately have s: "json_serialize F pretty (JSON [(k, LObj [Some (JSON [] [])]), (k', v)] []) =
      CHR ''{'' # nl pretty @ ?t @ (nl pretty @ tabs (pretty - 1)) @ ''}''"
    using ser_json by blast
  have open_k: "pq F (CHR ''{'' # r) (jst (JSON [] []) [[]] [(k, 0, False)] True False False) =
      pq F r (jst (JSON [(k, LObj [Some make_json])] []) [[(k, 0)], []] [(k, 0, False)] False False False)" for r
    using pq_open [OF focus_root, of "[]" k F r "[]" False "[]" True False False] by simp
  have "\<forall>c \<in> set (nl ?q @ tabs (?q - 1)). c_isspace c" "\<forall>c \<in> set (indent pretty). c_isspace c"
    using spaces_nl by auto
  note sp = this [THEN pq_spaces] spaces_nl(1) [of pretty, THEN pq_spaces]
  have "json_unserialize F j0 (json_serialize F pretty (JSON [(k, LObj [Some (JSON [] [])]), (k', v)] [])) =
      pq F (?t @ (nl pretty @ tabs (pretty - 1)) @ ''}'') (jst (JSON [] []) [[]] [] False False False)"
    using assms(3)
    by (simp only: s json_unserialize_def jparse_init_def lexer_lexq json_clear_def flip: pq_def)
      (simp only: pq_start sp)
  also have "\<dots> = Inl AssertFail"
    using assms(1) sp(1)
    by (simp only: append_assoc append_Cons append_Nil sp pq_name [OF assms(1)] pq_colon open_k)
      (simp add: pq_close pq_comma_none del: pq_comma)
  finally show ?thesis .
qed

theorem json_empty_object_witness:
  "json_unserialize sample_fpu make_json
      (json_serialize sample_fpu 0 (JSON [(''x'', LObj [Some (JSON [] [])]), (''y'', LInt [1])] [])) = Inl AssertFail"
  by (rule json_empty_object) (simp_all add: plain_name_def make_json_def)

end
