(* ===== verification/Acc_Threads.thy ===== *)
theory Acc_Threads
  imports Accounting_Pool "HOL-Library.Multiset"
begin

text \<open>
  The bucket accounting under concurrent calls
  (\<^verbatim>\<open>src/src/modules/filesystem/bucketaccounting.cpp\<close>): \<open>fetch\<close> and \<open>post\<close> as
  sequences of accesses to the shared nodes and list heads, interleaved over any number of threads.
  What runs under \<^verbatim>\<open>_mut\<close> (\<open>createBuckets\<close>, \<open>releaseBuckets\<close>) is one step here; the
  source does not keep the other threads from the lists while it runs.
\<close>

section \<open>Calls and places\<close>

datatype acc_call = C_fetch | C_post bucketIndex_t

text \<open>The list a call takes a node from, and the list its node goes to.\<close>

datatype acc_list = L_available | L_free

fun take_from :: "acc_call \<Rightarrow> acc_list" where
  "take_from C_fetch = L_available"
| "take_from (C_post d) = L_free"

text \<open>
  The next access of a thread: in \<open>takeFromList\<close> the load of the head, the load of
  \<^verbatim>\<open>nextNode\<close>, the exchange; then the accesses to \<^verbatim>\<open>node->data\<close>; in \<open>insertIntoList\<close> the
  load of the head, the store of \<^verbatim>\<open>nextNode\<close>, the exchange, with the slot that \<open>fetch\<close> is going
  to return; \<open>AP_locked\<close> is the section under the lock.
\<close>

datatype acc_pc =
    AP_idle
  | AP_load acc_call
  | AP_next acc_call nat
  | AP_take acc_call nat "nat option"
  | AP_locked acc_call
  | AP_data acc_call nat
  | AP_zero bucketIndex_t nat
  | AP_head "bucketIndex_t option" nat
  | AP_link "bucketIndex_t option" nat "nat option"
  | AP_insert "bucketIndex_t option" nat "nat option"
  | AP_failed exn

record acc_conc =
  ac_acc :: accounting
  ac_pc :: "nat \<Rightarrow> acc_pc"
  ac_posted :: "bucketIndex_t list"
  ac_given :: "(nat \<times> bucketIndex_t) list"
  ac_removed :: "nat list"

definition acc_conc_new :: "accounting \<Rightarrow> acc_conc" where
  "acc_conc_new a = \<lparr>ac_acc = a, ac_pc = (\<lambda>_. AP_idle), ac_posted = [], ac_given = [], ac_removed = []\<rparr>"

definition list_head :: "acc_list \<Rightarrow> accounting \<Rightarrow> nat option" where
  "list_head l a = (case l of L_available \<Rightarrow> availableList a | L_free \<Rightarrow> freeList a)"

definition set_head :: "acc_list \<Rightarrow> nat option \<Rightarrow> accounting \<Rightarrow> accounting" where
  "set_head l h a = (case l of L_available \<Rightarrow> a\<lparr>availableList := h\<rparr> | L_free \<Rightarrow> a\<lparr>freeList := h\<rparr>)"

definition go :: "nat \<Rightarrow> acc_pc \<Rightarrow> acc_conc \<Rightarrow> acc_conc" where
  "go t p s = s\<lparr>ac_pc := (ac_pc s)(t := p)\<rparr>"

definition upd_acc :: "(accounting \<Rightarrow> accounting) \<Rightarrow> acc_conc \<Rightarrow> acc_conc" where
  "upd_acc f s = s\<lparr>ac_acc := f (ac_acc s)\<rparr>"

section \<open>Steps\<close>

text \<open>A call; the posted slots are kept as a list, the last one first.\<close>

fun acc_enter :: "nat \<Rightarrow> acc_call \<Rightarrow> acc_conc \<Rightarrow> acc_conc" where
  "acc_enter t C_fetch s = go t (AP_load C_fetch) s"
| "acc_enter t (C_post d) s = go t (AP_load (C_post d)) (s\<lparr>ac_posted := d # ac_posted s\<rparr>)"

text \<open>What \<open>takeFromList\<close> does with the head it has seen.\<close>

definition acc_seen :: "nat \<Rightarrow> acc_call \<Rightarrow> nat option \<Rightarrow> acc_conc \<Rightarrow> acc_conc" where
  "acc_seen t c h s = go t (case h of None \<Rightarrow> AP_locked c | Some n \<Rightarrow> AP_next c n) s"

text \<open>The sections under the lock, entered when the list to take from was empty.\<close>

definition fetch_locked :: "nat \<Rightarrow> acc_conc \<Rightarrow> acc_conc" where
  "fetch_locked t s =
     (if availableList (ac_acc s) = None \<and> freeList (ac_acc s) \<noteq> None
      then (case createBuckets (ac_acc s) of
              Inl e \<Rightarrow> go t (AP_failed e) s
            | Inr a \<Rightarrow> go t (AP_load C_fetch) (s\<lparr>ac_acc := a\<rparr>))
      else go t (AP_load C_fetch) s)"

definition post_locked :: "nat \<Rightarrow> bucketIndex_t \<Rightarrow> acc_conc \<Rightarrow> acc_conc" where
  "post_locked t d s =
     (if freeList (ac_acc s) = None \<and> availableList (ac_acc s) \<noteq> None
      then (case releaseBuckets (ac_acc s) of
              Inl e \<Rightarrow> go t (AP_failed e) s
            | Inr (a, del) \<Rightarrow> go t (AP_load (C_post d)) (s\<lparr>ac_acc := a, ac_removed := ac_removed s @ del\<rparr>))
      else go t (AP_load (C_post d)) s)"

definition acc_locked :: "nat \<Rightarrow> acc_call \<Rightarrow> acc_conc \<Rightarrow> acc_conc" where
  "acc_locked t c s = (case c of C_fetch \<Rightarrow> fetch_locked t s | C_post d \<Rightarrow> post_locked t d s)"

lemmas acc_locked_defs = acc_locked_def fetch_locked_def post_locked_def

text \<open>The end of a call: \<open>fetch\<close> returns its slot.\<close>

definition acc_done :: "nat \<Rightarrow> bucketIndex_t option \<Rightarrow> acc_conc \<Rightarrow> acc_conc" where
  "acc_done t r s =
     go t AP_idle (case r of None \<Rightarrow> s | Some d \<Rightarrow> s\<lparr>ac_given := (t, d) # ac_given s\<rparr>)"

definition insert_to :: "bucketIndex_t option \<Rightarrow> acc_list" where
  "insert_to r = (case r of None \<Rightarrow> L_available | Some _ \<Rightarrow> L_free)"

text \<open>\<open>takeFromList\<close>: the loop goes on with the head that a failed exchange has seen.\<close>

definition take_access :: "nat \<Rightarrow> acc_conc \<Rightarrow> acc_conc" where
  "take_access t s =
     (case ac_pc s t of
        AP_load c \<Rightarrow> acc_seen t c (list_head (take_from c) (ac_acc s)) s
      | AP_next c n \<Rightarrow> go t (AP_take c n (acc_next (ac_acc s) ! n)) s
      | AP_take c n new \<Rightarrow>
          (let h = list_head (take_from c) (ac_acc s)
           in if h = Some n then go t (AP_data c n) (upd_acc (set_head (take_from c) new) s)
              else acc_seen t c h s)
      | _ \<Rightarrow> s)"

text \<open>\<open>insertIntoList\<close>\<close>

definition insert_access :: "nat \<Rightarrow> acc_conc \<Rightarrow> acc_conc" where
  "insert_access t s =
     (case ac_pc s t of
        AP_head r n \<Rightarrow> go t (AP_link r n (list_head (insert_to r) (ac_acc s))) s
      | AP_link r n h \<Rightarrow>
          go t (AP_insert r n h) (upd_acc (\<lambda>a. a\<lparr>acc_next := (acc_next a)[n := h]\<rparr>) s)
      | AP_insert r n h \<Rightarrow>
          if list_head (insert_to r) (ac_acc s) = h
          then acc_done t r (upd_acc (set_head (insert_to r) (Some n)) s)
          else go t (AP_head r n) s
      | _ \<Rightarrow> s)"

text \<open>The accesses of \<open>fetch\<close> and \<open>post\<close> to the slot of the node they have taken.\<close>

definition fetch_access :: "nat \<Rightarrow> acc_conc \<Rightarrow> acc_conc" where
  "fetch_access t s =
     (case ac_pc s t of
        AP_data C_fetch n \<Rightarrow> go t (AP_zero (acc_data (ac_acc s) ! n) n) s
      | AP_zero d n \<Rightarrow>
          go t (AP_head (Some d) n) (upd_acc (\<lambda>a. a\<lparr>acc_data := (acc_data a)[n := 0]\<rparr>) s)
      | _ \<Rightarrow> s)"

definition post_access :: "nat \<Rightarrow> acc_conc \<Rightarrow> acc_conc" where
  "post_access t s =
     (case ac_pc s t of
        AP_data (C_post d) n \<Rightarrow>
          go t (AP_head None n) (upd_acc (\<lambda>a. a\<lparr>acc_data := (acc_data a)[n := d]\<rparr>) s)
      | _ \<Rightarrow> s)"

definition acc_access :: "nat \<Rightarrow> acc_conc \<Rightarrow> acc_conc" where
  "acc_access t s =
     (case ac_pc s t of
        AP_idle \<Rightarrow> s
      | AP_failed e \<Rightarrow> s
      | AP_locked c \<Rightarrow> acc_locked t c s
      | AP_data C_fetch n \<Rightarrow> fetch_access t s
      | AP_zero d n \<Rightarrow> fetch_access t s
      | AP_data (C_post d) n \<Rightarrow> post_access t s
      | AP_load c \<Rightarrow> take_access t s
      | AP_next c n \<Rightarrow> take_access t s
      | AP_take c n new \<Rightarrow> take_access t s
      | AP_head r n \<Rightarrow> insert_access t s
      | AP_link r n h \<Rightarrow> insert_access t s
      | AP_insert r n h \<Rightarrow> insert_access t s)"

lemmas acc_access_defs = acc_access_def take_access_def insert_access_def fetch_access_def post_access_def

inductive acc_step :: "nat \<Rightarrow> acc_conc \<Rightarrow> acc_conc \<Rightarrow> bool" for N where
  enter: "\<lbrakk>t < N; ac_pc s t = AP_idle\<rbrakk> \<Longrightarrow> acc_step N s (acc_enter t c s)"
| access: "\<lbrakk>t < N; ac_pc s t \<noteq> AP_idle\<rbrakk> \<Longrightarrow> acc_step N s (acc_access t s)"

inductive acc_reach :: "nat \<Rightarrow> acc_conc \<Rightarrow> acc_conc \<Rightarrow> bool" for N where
  none: "acc_reach N s s"
| more: "\<lbrakk>acc_reach N s u; acc_step N u v\<rbrakk> \<Longrightarrow> acc_reach N s v"

section \<open>Runs\<close>

text \<open>A thread that runs alone for some accesses.\<close>

fun acc_alone :: "nat \<Rightarrow> nat \<Rightarrow> acc_conc \<Rightarrow> acc_conc" where
  "acc_alone t 0 s = s"
| "acc_alone t (Suc k) s = acc_alone t k (acc_access t s)"

lemma acc_alone_add: "acc_alone t (j + k) s = acc_alone t k (acc_alone t j s)"
  by (induction j arbitrary: s) simp_all

lemma acc_access_idle: "ac_pc s t = AP_idle \<Longrightarrow> acc_access t s = s"
  by (simp add: acc_access_defs)

lemma acc_reach_access: "acc_reach N s u \<Longrightarrow> t < N \<Longrightarrow> acc_reach N s (acc_access t u)"
  by (cases "ac_pc u t = AP_idle") (auto simp: acc_access_idle intro: acc_reach.more acc_step.access)

lemma acc_reach_alone: "acc_reach N s u \<Longrightarrow> t < N \<Longrightarrow> acc_reach N s (acc_alone t k u)"
  by (induction k arbitrary: u) (simp_all add: acc_reach_access)

lemma acc_reach_enter:
  "acc_reach N s u \<Longrightarrow> t < N \<Longrightarrow> ac_pc u t = AP_idle \<Longrightarrow> acc_reach N s (acc_enter t c u)"
  by (auto intro: acc_reach.more acc_step.enter)

lemmas acc_upd = go_def upd_acc_def set_head_def list_head_def acc_seen_def acc_done_def insert_to_def
lemmas acc_eval = acc_access_defs acc_upd Let_def

section \<open>Without interference\<close>

text \<open>The accesses from the head of the list on, when no other thread runs.\<close>

lemma alone_fetch_node:
  assumes "ac_pc s t = AP_load C_fetch" "availableList (ac_acc s) = Some n"
  shows "acc_alone t 8 s =
    s\<lparr>ac_acc := snd (fetch_node (ac_acc s) n (acc_next (ac_acc s) ! n)), ac_pc := (ac_pc s)(t := AP_idle),
      ac_given := (t, acc_data (ac_acc s) ! n) # ac_given s\<rparr>"
  using assms
  by (cases s) (auto simp: eval_nat_numeral acc_eval fetch_node_def insertIntoList_def fun_eq_iff)

lemma alone_post_node:
  assumes "ac_pc s t = AP_load (C_post d)" "freeList (ac_acc s) = Some n"
  shows "acc_alone t 7 s =
    s\<lparr>ac_acc := post_node (ac_acc s) n (acc_next (ac_acc s) ! n) d, ac_pc := (ac_pc s)(t := AP_idle)\<rparr>"
  using assms
  by (cases s) (auto simp: eval_nat_numeral acc_eval post_node_def insertIntoList_def fun_eq_iff)

text \<open>Both loops fail to end only when both lists are empty.\<close>

lemma fetch_loop_ends: "fetch_loop a = Some r \<Longrightarrow> availableList a \<noteq> None \<or> freeList a \<noteq> None"
  by (erule fetch_loop.raw_induct [rotated])
    (auto simp: takeFromList_def split: option.split_asm if_split_asm, metis option.distinct(1))

lemma post_loop_ends: "post_loop a d del = Some r \<Longrightarrow> availableList a \<noteq> None \<or> freeList a \<noteq> None"
  by (erule post_loop.raw_induct [rotated])
    (auto simp: takeFromList_def split: option.split_asm if_split_asm, metis option.distinct(1))

lemma releaseBuckets_free: "releaseBuckets a = Inr (a', del) \<Longrightarrow> freeList a' \<noteq> None"
  by (auto simp: releaseBuckets_def Let_def bindR_def assertR_def assertAs_def split: prod.splits if_splits sum.splits)

lemma createBuckets_available: "createBuckets a = Inr a' \<Longrightarrow> availableList a' = Some 0"
  by (auto simp: createBuckets_def Let_def bindR_def assertR_def split: prod.splits if_splits sum.splits)

lemma alone_create:
  assumes "ac_pc s t = AP_load C_fetch" "availableList (ac_acc s) = None" "freeList (ac_acc s) \<noteq> None"
    and "createBuckets (ac_acc s) = Inr a"
  shows "acc_alone t 2 s = s\<lparr>ac_acc := a\<rparr>"
  using assms by (cases s) (auto simp: eval_nat_numeral acc_eval acc_locked_defs fun_eq_iff)

lemma alone_release:
  assumes "ac_pc s t = AP_load (C_post d)" "freeList (ac_acc s) = None" "availableList (ac_acc s) \<noteq> None"
    and "releaseBuckets (ac_acc s) = Inr (a, del)"
  shows "acc_alone t 2 s = s\<lparr>ac_acc := a, ac_removed := ac_removed s @ del\<rparr>"
  using assms by (cases s) (auto simp: eval_nat_numeral acc_eval acc_locked_defs fun_eq_iff)

lemma alone_fetch:
  assumes r: "acc_fetch (ac_acc s) = Inr (d, a')" and idle: "ac_pc s t = AP_idle"
  shows "\<exists>k. acc_alone t k (acc_enter t C_fetch s) = s\<lparr>ac_acc := a', ac_given := (t, d) # ac_given s\<rparr>"
proof -
  let ?s = "acc_enter t C_fetch s"
  have pc: "(ac_pc s)(t := AP_idle) = ac_pc s" using idle by (auto simp: fun_eq_iff)
  obtain x where l: "fetch_loop (ac_acc s) = Some (Inr x)" "x = (d, a')"
    using r by (auto simp: acc_fetch_def split: option.split_asm)
  show ?thesis
  proof (cases "availableList (ac_acc s)")
    case (Some n)
    then have "fetch_node (ac_acc s) n (acc_next (ac_acc s) ! n) = (d, a')"
      using l by (simp add: fetch_loop.simps [of "ac_acc s"] takeFromList_def)
    moreover have "d = acc_data (ac_acc s) ! n"
      using calculation by (simp add: fetch_node_def split: prod.split_asm)
    ultimately show ?thesis
      using alone_fetch_node [of ?s t n] Some pc by (intro exI [of _ 8]) (simp add: go_def)
  next
    case None
    then have f: "freeList (ac_acc s) \<noteq> None" using fetch_loop_ends [OF l(1)] by simp
    obtain a1 where c: "createBuckets (ac_acc s) = Inr a1" "fetch_loop a1 = Some (Inr (d, a'))"
      using l None f by (auto simp: fetch_loop.simps [of "ac_acc s"] takeFromList_def split: sum.split_asm)
    note av = createBuckets_available [OF c(1)]
    have "fetch_node a1 0 (acc_next a1 ! 0) = (d, a')"
      using c(2) av by (simp add: fetch_loop.simps [of a1] takeFromList_def)
    moreover have "d = acc_data a1 ! 0"
      using calculation by (simp add: fetch_node_def split: prod.split_asm)
    moreover have "acc_alone t 2 ?s = ?s\<lparr>ac_acc := a1\<rparr>"
      using alone_create [of ?s t] None f c(1) by (simp add: go_def)
    ultimately show ?thesis
      using alone_fetch_node [of "?s\<lparr>ac_acc := a1\<rparr>" t 0] av pc acc_alone_add [of t 2 8 ?s]
      by (intro exI [of _ "2 + 8"]) (simp add: go_def)
  qed
qed

lemma alone_post:
  assumes r: "acc_post (ac_acc s) d = Inr (a', del)" and idle: "ac_pc s t = AP_idle"
  shows "\<exists>k. acc_alone t k (acc_enter t (C_post d) s) =
    s\<lparr>ac_acc := a', ac_posted := d # ac_posted s, ac_removed := ac_removed s @ del\<rparr>"
proof -
  let ?s = "acc_enter t (C_post d) s"
  have pc: "(ac_pc s)(t := AP_idle) = ac_pc s" using idle by (auto simp: fun_eq_iff)
  have l: "post_loop (ac_acc s) d [] = Some (Inr (a', del))"
    using r by (simp add: acc_post_def split: option.split_asm)
  show ?thesis
  proof (cases "freeList (ac_acc s)")
    case (Some n)
    then have "post_node (ac_acc s) n (acc_next (ac_acc s) ! n) d = a'" "del = []"
      using l by (simp_all add: post_loop.simps [of "ac_acc s"] takeFromList_def)
    then show ?thesis
      using alone_post_node [of ?s t d n] Some pc by (intro exI [of _ 7]) (simp add: go_def)
  next
    case None
    then have f: "availableList (ac_acc s) \<noteq> None" using post_loop_ends [OF l] by simp
    obtain a1 del1 where c: "releaseBuckets (ac_acc s) = Inr (a1, del1)" "post_loop a1 d del1 = Some (Inr (a', del))"
      using l None f by (auto simp: post_loop.simps [of "ac_acc s"] takeFromList_def split: sum.split_asm)
    obtain n where n: "freeList a1 = Some n" using releaseBuckets_free [OF c(1)] by blast
    then have "post_node a1 n (acc_next a1 ! n) d = a'" "del = del1"
      using c(2) by (simp_all add: post_loop.simps [of a1] takeFromList_def)
    moreover have "acc_alone t 2 ?s = ?s\<lparr>ac_acc := a1, ac_removed := ac_removed s @ del1\<rparr>"
      using alone_release [of ?s t d] None f c(1) by (simp add: go_def)
    ultimately show ?thesis
      using alone_post_node [of "?s\<lparr>ac_acc := a1, ac_removed := ac_removed s @ del1\<rparr>" t d n] n pc
        acc_alone_add [of t 2 7 ?s]
      by (intro exI [of _ "2 + 7"]) (simp add: go_def)
  qed
qed

text \<open>
  A thread that runs its call to the end before the others go on does what
  \<open>acc_fetch\<close> and \<open>acc_post\<close> say where these succeed: the two models of the same code agree.
\<close>

theorem acc_alone_sequential:
  assumes "ac_pc s t = AP_idle"
  shows "(\<forall>d a'. acc_fetch (ac_acc s) = Inr (d, a') \<longrightarrow>
      (\<exists>k. acc_alone t k (acc_enter t C_fetch s) = s\<lparr>ac_acc := a', ac_given := (t, d) # ac_given s\<rparr>)) \<and>
    (\<forall>d a' del. acc_post (ac_acc s) d = Inr (a', del) \<longrightarrow>
      (\<exists>k. acc_alone t k (acc_enter t (C_post d) s) =
        s\<lparr>ac_acc := a', ac_posted := d # ac_posted s, ac_removed := ac_removed s @ del\<rparr>))"
  using alone_fetch alone_post assms by blast

theorem acc_alone_sequential_witness:
  "\<exists>k. acc_alone 0 k (acc_enter 0 (C_post 5) (acc_conc_new (acc_new []))) =
     (acc_conc_new (acc_new []))\<lparr>ac_acc := post_node (acc_new []) 0 (Some 1) 5, ac_posted := [5]\<rparr>"
proof -
  have "acc_next (acc_new []) ! 0 = Some 1"
    by (simp add: acc_new_def cleanRecords_def chunksInBucket_def maxBuckets_def)
  then have "acc_post (acc_new []) 5 = Inr (post_node (acc_new []) 0 (Some 1) 5, [])"
    by (simp add: acc_post_def post_loop.simps [of "acc_new []"] takeFromList_def) (simp add: acc_new_def)
  then show ?thesis
    using acc_alone_sequential [of "acc_conc_new (acc_new [])" 0] by (simp add: acc_conc_new_def)
qed

end
