(* ===== verification/Acc_Oneway.thy ===== *)
theory Acc_Oneway
  imports Acc_Threads
begin

text \<open>
  What the lock-free lists do guarantee: while all calls take from the same list, and no thread
  finds it empty, nodes never return to it, so that every exchange that succeeds is right. Slots
  are then neither lost nor handed out twice, whatever the interleaving.
\<close>

section \<open>Calls in one direction\<close>

inductive oneway_step :: "acc_list \<Rightarrow> nat \<Rightarrow> acc_conc \<Rightarrow> acc_conc \<Rightarrow> bool" for L N where
  enter: "\<lbrakk>t < N; ac_pc s t = AP_idle; take_from c = L\<rbrakk> \<Longrightarrow> oneway_step L N s (acc_enter t c s)"
| access: "\<lbrakk>t < N; \<forall>c. ac_pc s t \<noteq> AP_locked c; ac_pc s t \<noteq> AP_idle\<rbrakk> \<Longrightarrow> oneway_step L N s (acc_access t s)"

inductive oneway_run :: "acc_list \<Rightarrow> nat \<Rightarrow> acc_conc \<Rightarrow> acc_conc \<Rightarrow> bool" for L N where
  none: "oneway_run L N s s"
| more: "\<lbrakk>oneway_run L N s u; oneway_step L N u v\<rbrakk> \<Longrightarrow> oneway_run L N s v"

section \<open>The invariant\<close>

text \<open>The node a thread owns, the slot that is on its way with it, and the places of one direction.\<close>

fun held :: "acc_pc \<Rightarrow> nat option" where
  "held (AP_data c n) = Some n"
| "held (AP_zero d n) = Some n"
| "held (AP_head r n) = Some n"
| "held (AP_link r n h) = Some n"
| "held (AP_insert r n h) = Some n"
| "held _ = None"

fun call_slot :: "acc_call \<Rightarrow> bucketIndex_t multiset" where
  "call_slot C_fetch = {#}"
| "call_slot (C_post d) = {#d#}"

definition node_slot :: "bucketIndex_t list \<Rightarrow> bucketIndex_t option \<Rightarrow> nat \<Rightarrow> bucketIndex_t multiset" where
  "node_slot ds r n = (case r of Some d \<Rightarrow> {#d#} | None \<Rightarrow> {#ds ! n#})"

fun pend :: "bucketIndex_t list \<Rightarrow> acc_pc \<Rightarrow> bucketIndex_t multiset" where
  "pend ds (AP_load c) = call_slot c"
| "pend ds (AP_next c n) = call_slot c"
| "pend ds (AP_take c n h) = call_slot c"
| "pend ds (AP_locked c) = call_slot c"
| "pend ds (AP_data c n) = (case c of C_fetch \<Rightarrow> {#ds ! n#} | C_post d \<Rightarrow> {#d#})"
| "pend ds (AP_zero d n) = {#d#}"
| "pend ds (AP_head r n) = node_slot ds r n"
| "pend ds (AP_link r n h) = node_slot ds r n"
| "pend ds (AP_insert r n h) = node_slot ds r n"
| "pend ds _ = {#}"

fun pc_dir :: "acc_list \<Rightarrow> acc_pc \<Rightarrow> bool" where
  "pc_dir L (AP_load c) \<longleftrightarrow> take_from c = L"
| "pc_dir L (AP_next c n) \<longleftrightarrow> take_from c = L"
| "pc_dir L (AP_take c n h) \<longleftrightarrow> take_from c = L"
| "pc_dir L (AP_locked c) \<longleftrightarrow> take_from c = L"
| "pc_dir L (AP_data c n) \<longleftrightarrow> take_from c = L"
| "pc_dir L (AP_zero d n) \<longleftrightarrow> L = L_available"
| "pc_dir L (AP_head r n) \<longleftrightarrow> insert_to r \<noteq> L"
| "pc_dir L (AP_link r n h) \<longleftrightarrow> insert_to r \<noteq> L"
| "pc_dir L (AP_insert r n h) \<longleftrightarrow> insert_to r \<noteq> L"
| "pc_dir L AP_idle \<longleftrightarrow> True"
| "pc_dir L (AP_failed e) \<longleftrightarrow> False"

text \<open>
  What a thread knows: its successor is right as long as the node is on the list it takes from,
  and the node it is about to insert points to the head it has seen.
\<close>

fun knows :: "nat option list \<Rightarrow> nat list \<Rightarrow> acc_pc \<Rightarrow> bool" where
  "knows nx xs (AP_take c n new) \<longleftrightarrow> n \<in> set xs \<longrightarrow> nx ! n = new"
| "knows nx xs (AP_insert r n h) \<longleftrightarrow> nx ! n = h"
| "knows nx xs _ \<longleftrightarrow> True"

definition other :: "acc_list \<Rightarrow> acc_list" where
  "other L = (case L of L_available \<Rightarrow> L_free | L_free \<Rightarrow> L_available)"

text \<open>
  The table: \<open>xs\<close> is the list the calls take from, \<open>ys\<close> the one they insert into, and every
  other node is held by exactly one thread.
\<close>

definition nodes_ok :: "acc_list \<Rightarrow> accounting \<Rightarrow> (nat \<Rightarrow> nat option) \<Rightarrow> nat list \<Rightarrow> nat list \<Rightarrow> bool" where
  "nodes_ok L a h xs ys \<longleftrightarrow>
     length (acc_next a) = acc_size \<and> length (acc_data a) = acc_size \<and>
     lseg (acc_next a) (list_head L a) xs \<and> lseg (acc_next a) (list_head (other L) a) ys \<and>
     distinct (xs @ ys) \<and> set (xs @ ys) \<union> {n. \<exists>t. h t = Some n} = {..<acc_size} \<and>
     (\<forall>t n. h t = Some n \<longrightarrow> n \<notin> set (xs @ ys) \<and> (\<forall>u. h u = Some n \<longrightarrow> u = t))"

definition heldby :: "acc_conc \<Rightarrow> nat \<Rightarrow> nat option" where
  "heldby s = (\<lambda>t. held (ac_pc s t))"

definition all_know :: "acc_list \<Rightarrow> acc_conc \<Rightarrow> nat list \<Rightarrow> bool" where
  "all_know L s xs \<longleftrightarrow> (\<forall>t. pc_dir L (ac_pc s t) \<and> knows (acc_next (ac_acc s)) xs (ac_pc s t))"

definition on_offer :: "acc_list \<Rightarrow> nat list \<Rightarrow> nat list \<Rightarrow> nat list" where
  "on_offer L xs ys = (case L of L_available \<Rightarrow> xs | L_free \<Rightarrow> ys)"

definition slots_ok :: "acc_list \<Rightarrow> nat \<Rightarrow> bucketIndex_t multiset \<Rightarrow> acc_conc \<Rightarrow> nat list \<Rightarrow> nat list \<Rightarrow> bool" where
  "slots_ok L N M s xs ys \<longleftrightarrow>
     (\<forall>t \<ge> N. ac_pc s t = AP_idle) \<and>
     mset (map (\<lambda>n. acc_data (ac_acc s) ! n) (on_offer L xs ys)) + (\<Sum>t<N. pend (acc_data (ac_acc s)) (ac_pc s t)) +
       mset (map snd (ac_given s)) = M + mset (ac_posted s)"

definition oneway_inv :: "acc_list \<Rightarrow> nat \<Rightarrow> bucketIndex_t multiset \<Rightarrow> acc_conc \<Rightarrow> nat list \<Rightarrow> nat list \<Rightarrow> bool" where
  "oneway_inv L N M s xs ys \<longleftrightarrow>
     nodes_ok L (ac_acc s) (heldby s) xs ys \<and> all_know L s xs \<and> slots_ok L N M s xs ys"

lemma heldby_go [simp]: "heldby (go t p s) = (heldby s)(t := held p)"
  by (auto simp: heldby_def go_def)

lemma heldby_upd [simp]: "heldby (upd_acc f s) = heldby s" "heldby (s\<lparr>ac_posted := x\<rparr>) = heldby s"
  "heldby (s\<lparr>ac_given := y\<rparr>) = heldby s"
  by (simp_all add: heldby_def upd_acc_def)

lemma go_fields [simp]:
  "ac_acc (go t p s) = ac_acc s" "ac_given (go t p s) = ac_given s" "ac_posted (go t p s) = ac_posted s"
  "ac_pc (go t p s) = (ac_pc s)(t := p)"
  "ac_acc (upd_acc f s) = f (ac_acc s)" "ac_given (upd_acc f s) = ac_given s" "ac_posted (upd_acc f s) = ac_posted s"
  "ac_pc (upd_acc f s) = ac_pc s"
  by (simp_all add: go_def upd_acc_def)

lemma nodes_take:
  assumes "nodes_ok L a h xs ys" "h t = None" "list_head L a = Some n" "new = acc_next a ! n"
  obtains xs' where "xs = n # xs'" "nodes_ok L (set_head L new a) (h(t := Some n)) xs' ys"
proof -
  obtain xs' where xs: "xs = n # xs'" using assms(1,3) by (cases xs) (auto simp: nodes_ok_def)
  have "{m. \<exists>u. (h(t := Some n)) u = Some m} = insert n {m. \<exists>u. h u = Some m}"
    using assms(2) by (auto split: if_splits) (metis option.distinct(1))
  then have "nodes_ok L (set_head L new a) (h(t := Some n)) xs' ys"
    using assms unfolding nodes_ok_def xs
    by (cases L) (auto simp: list_head_def set_head_def other_def split: if_splits)
  with xs that show ?thesis by blast
qed

lemma nodes_insert:
  assumes "nodes_ok L a h xs ys" "h t = Some n" "list_head (other L) a = acc_next a ! n"
  shows "nodes_ok L (set_head (other L) (Some n) a) (h(t := None)) xs (n # ys)"
proof -
  have n: "n < acc_size" "n \<notin> set xs" "n \<notin> set ys" "\<And>u. h u = Some n \<Longrightarrow> u = t"
    using assms(1,2) unfolding nodes_ok_def by auto
  have "{m. \<exists>u. h u = Some m} = insert n {m. \<exists>u. (h(t := None)) u = Some m}"
    using assms(2) by (auto split: if_splits) (metis option.inject)
  then have "set (xs @ n # ys) \<union> {m. \<exists>u. (h(t := None)) u = Some m} = {..<acc_size}"
    using assms(1) unfolding nodes_ok_def by auto
  moreover have "(h(t := None)) u = Some m \<Longrightarrow>
      m \<notin> set (xs @ n # ys) \<and> (\<forall>v. (h(t := None)) v = Some m \<longrightarrow> v = u)" for u m
    using assms(1) n(4) unfolding nodes_ok_def by (auto split: if_splits)
  moreover have "distinct (xs @ n # ys)" using assms(1) n(2,3) by (auto simp: nodes_ok_def)
  ultimately show ?thesis
    using assms(1,3) n(1) unfolding nodes_ok_def by (cases L) (simp_all add: list_head_def set_head_def other_def)
qed

lemma nodes_link:
  assumes "nodes_ok L a h xs ys" "h t = Some n"
  shows "nodes_ok L (a\<lparr>acc_next := (acc_next a)[n := v]\<rparr>) h xs ys"
proof -
  have "n \<notin> set xs" "n \<notin> set ys" using assms unfolding nodes_ok_def by auto
  then show ?thesis
    using assms(1) by (cases L) (simp_all add: nodes_ok_def list_head_def other_def lseg_frame)
qed

lemma nodes_data: "nodes_ok L a h xs ys \<Longrightarrow> nodes_ok L (a\<lparr>acc_data := (acc_data a)[n := v]\<rparr>) h xs ys"
  by (cases L) (simp_all add: nodes_ok_def list_head_def other_def)

text \<open>The slots after a step of one thread.\<close>

lemma slots_step:
  assumes "slots_ok L N M s xs ys" "t < N" "ac_pc s' = (ac_pc s)(t := p)"
    and "\<And>u. u \<noteq> t \<Longrightarrow> pend (acc_data (ac_acc s')) (ac_pc s u) = pend (acc_data (ac_acc s)) (ac_pc s u)"
    and "mset (map (\<lambda>n. acc_data (ac_acc s') ! n) (on_offer L xs' ys')) + pend (acc_data (ac_acc s')) p + mset (map snd (ac_given s')) + mset (ac_posted s) =
      mset (map (\<lambda>n. acc_data (ac_acc s) ! n) (on_offer L xs ys)) + pend (acc_data (ac_acc s)) (ac_pc s t) + mset (map snd (ac_given s)) + mset (ac_posted s')"
  shows "slots_ok L N M s' xs' ys'"
proof -
  let ?f = "\<lambda>u. pend (acc_data (ac_acc s)) (ac_pc s u)" and ?g = "\<lambda>u. pend (acc_data (ac_acc s')) (ac_pc s' u)"
  let ?R = "\<Sum>u\<in>{..<N} - {t}. ?f u"
  let ?A = "mset (map (\<lambda>n. acc_data (ac_acc s) ! n) (on_offer L xs ys))"
  let ?B = "mset (map (\<lambda>n. acc_data (ac_acc s') ! n) (on_offer L xs' ys'))"
  have f: "(\<Sum>u<N. ?f u) = ?f t + ?R" using assms(2) by (simp add: sum.remove)
  have "(\<Sum>u<N. ?g u) = ?g t + (\<Sum>u\<in>{..<N} - {t}. ?g u)" using assms(2) by (simp add: sum.remove)
  also have "(\<Sum>u\<in>{..<N} - {t}. ?g u) = ?R" by (rule sum.cong) (use assms(3,4) in auto)
  finally have g: "(\<Sum>u<N. ?g u) = pend (acc_data (ac_acc s')) p + ?R" by (simp add: assms(3))
  have "?B + (\<Sum>u<N. ?g u) + mset (map snd (ac_given s')) + mset (ac_posted s) =
      ?R + (?B + pend (acc_data (ac_acc s')) p + mset (map snd (ac_given s')) + mset (ac_posted s))"
    by (simp only: g ac_simps)
  also have "\<dots> = ?R + (?A + ?f t + mset (map snd (ac_given s)) + mset (ac_posted s'))"
    by (simp only: assms(5))
  also have "\<dots> = ?A + (\<Sum>u<N. ?f u) + mset (map snd (ac_given s)) + mset (ac_posted s')"
    by (simp only: f ac_simps)
  also have "\<dots> = M + mset (ac_posted s) + mset (ac_posted s')"
    using assms(1) by (simp add: slots_ok_def)
  finally show ?thesis using assms(1-3) by (simp add: slots_ok_def ac_simps)
qed

text \<open>A thread that only moves on.\<close>

lemma oneway_move:
  assumes inv: "oneway_inv L N M s xs ys" and t: "t < N"
    and p: "held p = held (ac_pc s t)" "pc_dir L p" "knows (acc_next (ac_acc s)) xs p"
      "pend (acc_data (ac_acc s)) p = pend (acc_data (ac_acc s)) (ac_pc s t)"
  shows "oneway_inv L N M (go t p s) xs ys"
proof -
  have "(heldby s)(t := held p) = heldby s" using p(1) by (auto simp: heldby_def)
  moreover have "slots_ok L N M (go t p s) xs ys"
    by (rule slots_step [of L N M s xs ys t _ p]) (use inv t p in \<open>auto simp: oneway_inv_def\<close>)
  ultimately show ?thesis using inv p by (simp add: oneway_inv_def all_know_def)
qed

lemma oneway_enter:
  assumes inv: "oneway_inv L N M s xs ys" and t: "t < N" "ac_pc s t = AP_idle" "take_from c = L"
  shows "oneway_inv L N M (acc_enter t c s) xs ys"
proof -
  have h: "(heldby s)(t := None) = heldby s" using t by (auto simp: heldby_def)
  have "slots_ok L N M (acc_enter t c s) xs ys"
    by (rule slots_step [of L N M s xs ys t _ "AP_load c"]) (use inv t in \<open>cases c; auto simp: oneway_inv_def\<close>)+
  then show ?thesis using inv t h by (cases c) (auto simp: oneway_inv_def all_know_def)
qed

section \<open>Every access keeps it\<close>

lemma pend_data: "held p \<noteq> Some n \<Longrightarrow> pend (ds[n := v]) p = pend ds p"
  by (cases p) (auto simp: node_slot_def split: acc_call.split option.split)

lemma held_fresh:
  assumes "oneway_inv L N M s xs ys" "held (ac_pc s t) = Some n"
  shows "n < acc_size" "n \<notin> set xs" "n \<notin> set ys" "\<And>u. u \<noteq> t \<Longrightarrow> held (ac_pc s u) \<noteq> Some n"
    "n \<notin> set (on_offer L xs ys)"
  using assms unfolding oneway_inv_def nodes_ok_def heldby_def on_offer_def by (auto split: acc_list.split)

lemma oneway_know:
  assumes "oneway_inv L N M s xs ys"
  shows "pc_dir L (ac_pc s t)" "knows (acc_next (ac_acc s)) xs (ac_pc s t)"
  using assms by (simp_all add: oneway_inv_def all_know_def)

lemma oneway_data:
  assumes inv: "oneway_inv L N M s xs ys" and t: "t < N" and h: "held (ac_pc s t) = Some n"
    and p: "held p = Some n" "pc_dir L p" "\<And>nx xs. knows nx xs p"
      "pend ((acc_data (ac_acc s))[n := v]) p = pend (acc_data (ac_acc s)) (ac_pc s t)"
  shows "oneway_inv L N M (go t p (upd_acc (\<lambda>a. a\<lparr>acc_data := (acc_data a)[n := v]\<rparr>) s)) xs ys"
proof -
  note f = held_fresh [OF inv h]
  have hb: "(heldby s)(t := held p) = heldby s" using h p(1) by (auto simp: heldby_def)
  have m: "map (\<lambda>m. (acc_data (ac_acc s))[n := v] ! m) (on_offer L xs ys) = map (\<lambda>m. acc_data (ac_acc s) ! m) (on_offer L xs ys)"
    using f(5) by (intro map_cong refl) (metis nth_list_update_neq)
  have "slots_ok L N M (go t p (upd_acc (\<lambda>a. a\<lparr>acc_data := (acc_data a)[n := v]\<rparr>) s)) xs ys"
    by (rule slots_step [of L N M s xs ys t _ p])
      (use inv t p(4) f(4) m in \<open>simp_all add: oneway_inv_def pend_data cong: map_cong del: mset_map\<close>)
  then show ?thesis
    using inv p(2,3) hb by (simp add: oneway_inv_def all_know_def nodes_data)
qed

lemma knows_link: "held p \<noteq> Some n \<Longrightarrow> n \<notin> set xs \<Longrightarrow> knows nx xs p \<Longrightarrow> knows (nx[n := h]) xs p"
  by (cases p) (auto, metis nth_list_update_neq)

lemma oneway_link:
  assumes inv: "oneway_inv L N M s xs ys" and t: "t < N" and pc: "ac_pc s t = AP_link r n h"
  shows "oneway_inv L N M (go t (AP_insert r n h) (upd_acc (\<lambda>a. a\<lparr>acc_next := (acc_next a)[n := h]\<rparr>) s)) xs ys"
proof -
  have h: "held (ac_pc s t) = Some n" by (simp add: pc)
  note f = held_fresh [OF inv h]
  have len: "length (acc_next (ac_acc s)) = acc_size" using inv by (simp add: oneway_inv_def nodes_ok_def)
  have hb: "heldby s t = Some n" using h by (simp add: heldby_def)
  then have "(heldby s)(t := Some n) = heldby s" by auto
  moreover have "slots_ok L N M (go t (AP_insert r n h) (upd_acc (\<lambda>a. a\<lparr>acc_next := (acc_next a)[n := h]\<rparr>) s)) xs ys"
    by (rule slots_step [of L N M s xs ys t _ "AP_insert r n h"]) (use inv t pc in \<open>simp_all add: oneway_inv_def\<close>)
  moreover have "all_know L (go t (AP_insert r n h) (upd_acc (\<lambda>a. a\<lparr>acc_next := (acc_next a)[n := h]\<rparr>) s)) xs"
    using oneway_know [OF inv] oneway_know(1) [OF inv, of t] knows_link f len by (auto simp: all_know_def pc)
  ultimately show ?thesis
    using inv nodes_link [of L "ac_acc s" "heldby s" xs ys t n h] by (simp add: oneway_inv_def hb)
qed

lemma knows_less: "knows nx xs p \<Longrightarrow> set xs' \<subseteq> set xs \<Longrightarrow> knows nx xs' p"
  by (cases p) auto

lemma set_head_fields [simp]:
  "acc_data (set_head l h a) = acc_data a" "acc_next (set_head l h a) = acc_next a"
  by (cases l; simp add: set_head_def)+

lemma oneway_take:
  assumes inv: "oneway_inv L N M s xs ys" and t: "t < N" and pc: "ac_pc s t = AP_take c n new"
    and h: "list_head L (ac_acc s) = Some n"
  shows "\<exists>xs'. oneway_inv L N M (go t (AP_data c n) (upd_acc (set_head L new) s)) xs' ys"
proof -
  have nodes: "nodes_ok L (ac_acc s) (heldby s) xs ys" and hd: "heldby s t = None"
    using inv by (simp_all add: oneway_inv_def heldby_def pc)
  have "n \<in> set xs" using nodes h by (cases xs) (auto simp: nodes_ok_def)
  then have new: "new = acc_next (ac_acc s) ! n" using oneway_know(2) [OF inv, of t] by (simp add: pc)
  obtain xs' where xs: "xs = n # xs'" and n': "nodes_ok L (set_head L new (ac_acc s)) ((heldby s)(t := Some n)) xs' ys"
    using nodes_take [OF nodes hd h new] .
  have dir: "take_from c = L" using oneway_know(1) [OF inv, of t] by (simp add: pc)
  have "slots_ok L N M (go t (AP_data c n) (upd_acc (set_head L new) s)) xs' ys"
    by (rule slots_step [of L N M s xs ys t _ "AP_data c n"])
      (use inv t pc dir xs in \<open>cases c; auto simp: oneway_inv_def on_offer_def\<close>)+
  moreover have "all_know L (go t (AP_data c n) (upd_acc (set_head L new) s)) xs'"
    using oneway_know [OF inv] dir knows_less [of _ xs _ xs'] by (auto simp: all_know_def xs)
  ultimately show ?thesis using n' by (auto simp: oneway_inv_def)
qed

lemma oneway_insert:
  assumes inv: "oneway_inv L N M s xs ys" and t: "t < N" and pc: "ac_pc s t = AP_insert r n h"
    and h: "list_head (insert_to r) (ac_acc s) = h"
  shows "oneway_inv L N M (acc_done t r (upd_acc (set_head (insert_to r) (Some n)) s)) xs (n # ys)"
proof -
  have nodes: "nodes_ok L (ac_acc s) (heldby s) xs ys" and hd: "heldby s t = Some n"
    using inv by (simp_all add: oneway_inv_def heldby_def pc)
  have dir: "insert_to r = other L"
    using oneway_know(1) [OF inv, of t] by (cases L; cases "insert_to r") (simp_all add: pc other_def)
  have nx: "acc_next (ac_acc s) ! n = h" using oneway_know(2) [OF inv, of t] by (simp add: pc)
  note n' = nodes_insert [OF nodes hd, unfolded nx, OF h [unfolded dir], folded dir]
  have "slots_ok L N M (acc_done t r (upd_acc (set_head (insert_to r) (Some n)) s)) xs (n # ys)"
    by (rule slots_step [of L N M s xs ys t _ AP_idle])
      (use inv t pc dir in \<open>cases r; cases L; auto simp: oneway_inv_def on_offer_def acc_done_def insert_to_def other_def node_slot_def\<close>)+
  moreover have "all_know L (acc_done t r (upd_acc (set_head (insert_to r) (Some n)) s)) xs"
    using oneway_know [OF inv] by (cases r) (simp_all add: all_know_def acc_done_def)
  ultimately show ?thesis using n' by (cases r) (simp_all add: oneway_inv_def acc_done_def)
qed

lemma oneway_access:
  assumes inv: "oneway_inv L N M s xs ys" and t: "t < N" and pc: "\<forall>c. ac_pc s t \<noteq> AP_locked c"
  shows "\<exists>xs' ys'. oneway_inv L N M (acc_access t s) xs' ys'"
proof -
  note mv = oneway_move [OF inv t]
  note dir = oneway_know(1) [OF inv, of t]
  show ?thesis
  proof (cases "ac_pc s t")
    case (AP_load c)
    then show ?thesis using mv [of "AP_locked c"] mv [of "AP_next c n" for n] dir
      by (auto simp: acc_access_defs acc_seen_def split: option.split)
  next
    case (AP_next c n)
    then show ?thesis using mv [of "AP_take c n (acc_next (ac_acc s) ! n)"] dir by (auto simp: acc_access_defs)
  next
    case (AP_take c n new)
    then show ?thesis
      using mv [of "AP_locked c"] mv [of "AP_next c m" for m] dir oneway_take [OF inv t AP_take]
      by (cases "list_head L (ac_acc s)") (auto simp: acc_access_defs acc_seen_def Let_def)
  next
    case (AP_data c n)
    show ?thesis
    proof (cases c)
      case C_fetch
      then show ?thesis using mv [of "AP_zero (acc_data (ac_acc s) ! n) n"] dir AP_data by (auto simp: acc_access_defs)
    next
      case (C_post d)
      have "n < length (acc_data (ac_acc s))"
        using held_fresh(1) [OF inv, of t n] inv AP_data by (simp add: oneway_inv_def nodes_ok_def)
      then have "oneway_inv L N M (acc_access t s) xs ys"
        using oneway_data [OF inv t, of n "AP_head None n" d] dir AP_data C_post
        by (auto simp: acc_access_defs node_slot_def insert_to_def)
      then show ?thesis by blast
    qed
  next
    case (AP_zero d n)
    then show ?thesis
      using oneway_data [OF inv t, of n "AP_head (Some d) n" 0] dir
      by (auto simp: acc_access_defs node_slot_def insert_to_def)
  next
    case (AP_head r n)
    then show ?thesis using mv [of "AP_link r n (list_head (insert_to r) (ac_acc s))"] dir by (auto simp: acc_access_defs)
  next
    case (AP_link r n h)
    then show ?thesis using oneway_link [OF inv t AP_link] by (auto simp: acc_access_defs)
  next
    case (AP_insert r n h)
    then show ?thesis
      using mv [of "AP_head r n"] dir oneway_insert [OF inv t AP_insert] by (auto simp: acc_access_defs)
  qed (use inv pc dir in \<open>auto simp: acc_access_defs\<close>)
qed

section \<open>The guarantee\<close>

lemma oneway_run_inv:
  assumes "oneway_run L N s s'" "oneway_inv L N M s xs ys"
  shows "\<exists>xs ys. oneway_inv L N M s' xs ys"
  using assms
proof (induction rule: oneway_run.induct)
  case (more s u v)
  then obtain xs ys where "oneway_inv L N M u xs ys" by blast
  with more.hyps(2) show ?case
    by (cases rule: oneway_step.cases) (auto intro: oneway_enter oneway_access)
qed auto

lemma oneway_start:
  assumes "acc_inv a"
  shows "\<exists>xs ys. oneway_inv L N (mset (acc_ids a)) (acc_conc_new a) xs ys"
proof -
  have "stacks_ok a (acc_avail a) (acc_free a)" by (rule acc_invD(1) [OF assms])
  then have "oneway_inv L N (mset (acc_ids a)) (acc_conc_new a)
      (if L = L_available then acc_avail a else acc_free a) (if L = L_available then acc_free a else acc_avail a)"
    by (cases L) (auto simp: oneway_inv_def nodes_ok_def stacks_ok_def heldby_def all_know_def slots_ok_def on_offer_def
        acc_conc_new_def acc_ids_def list_head_def other_def)
  then show ?thesis by blast
qed

lemma oneway_end:
  assumes "oneway_inv L N M s xs ys" "\<forall>t. ac_pc s t = AP_idle"
  shows "mset (acc_ids (ac_acc s)) + mset (map snd (ac_given s)) = M + mset (ac_posted s)"
    "stacks_ok (ac_acc s) (acc_avail (ac_acc s)) (acc_free (ac_acc s))"
proof -
  let ?avs = "if L = L_available then xs else ys" and ?frs = "if L = L_available then ys else xs"
  have st: "stacks_ok (ac_acc s) ?avs ?frs"
    using assms by (cases L) (auto simp: oneway_inv_def nodes_ok_def stacks_ok_def heldby_def list_head_def other_def)
  from stacks_ok_walk [OF st] show "stacks_ok (ac_acc s) (acc_avail (ac_acc s)) (acc_free (ac_acc s))" using st by simp
  from stacks_ok_walk(1) [OF st] show "mset (acc_ids (ac_acc s)) + mset (map snd (ac_given s)) = M + mset (ac_posted s)"
    using assms by (cases L) (simp_all add: oneway_inv_def slots_ok_def on_offer_def acc_ids_def)
qed

text \<open>
  C33: while any number of threads only take slots, or only post slots, and none of them finds its
  list empty, every interleaving keeps the slots: what is on offer together with what was handed
  out is what was on offer together with what was posted, and no node of the table is lost.
\<close>

theorem acc_oneway_safe:
  assumes "acc_inv a" "oneway_run L N (acc_conc_new a) s" "\<forall>t. ac_pc s t = AP_idle"
  shows "mset (acc_ids (ac_acc s)) + mset (map snd (ac_given s)) = mset (acc_ids a) + mset (ac_posted s) \<and>
    stacks_ok (ac_acc s) (acc_avail (ac_acc s)) (acc_free (ac_acc s))"
proof -
  obtain xs ys where "oneway_inv L N (mset (acc_ids a)) s xs ys"
    using oneway_run_inv [OF assms(2)] oneway_start [OF assms(1)] by blast
  from oneway_end [OF this assms(3)] show ?thesis by blast
qed

lemma oneway_run_access:
  "oneway_run L N s u \<Longrightarrow> t < N \<Longrightarrow> \<forall>c. ac_pc u t \<noteq> AP_locked c \<Longrightarrow> oneway_run L N s (acc_access t u)"
  by (cases "ac_pc u t = AP_idle") (auto simp: acc_access_idle intro: oneway_run.more oneway_step.access)

lemma oneway_run_alone:
  "oneway_run L N s u \<Longrightarrow> t < N \<Longrightarrow> \<forall>j \<in> set [0..<k]. \<forall>c. ac_pc (acc_alone t j u) t \<noteq> AP_locked c \<Longrightarrow>
   oneway_run L N s (acc_alone t k u)"
proof (induction k)
  case (Suc k)
  then have "oneway_run L N s (acc_access t (acc_alone t k u))" by (intro oneway_run_access) auto
  then show ?case using acc_alone_add [of t k 1 u] by simp
qed simp

text \<open>Two posts of two threads, the second one between two accesses of the first.\<close>

theorem acc_oneway_safe_witness:
  "\<exists>s :: acc_conc. ac_posted s = [7, 5] \<and> mset (acc_ids (ac_acc s)) = {#5, 7#}"
proof -
  let ?s0 = "acc_conc_new (acc_new [])"
  let ?s1 = "acc_access 0 (acc_access 0 (acc_enter 0 (C_post 5) ?s0))"
  let ?s2 = "acc_alone 1 7 (acc_enter 1 (C_post 7) ?s1)"
  let ?s3 = "acc_alone 0 7 ?s2"
  have sz: "acc_size > 4" by (simp add: acc_size_def maxBuckets_def chunksInBucket_def)
  have nx0: "acc_next (acc_new []) ! 0 = Some 1"
    using sz by (simp add: acc_new_def acc_size_def [symmetric] cleanRecords_def)
  note ev = eval_nat_numeral acc_eval acc_conc_new_def acc_new_def acc_size_def [symmetric]
  have f1: "?s1 = \<lparr>ac_acc = acc_new [], ac_pc = (\<lambda>_. AP_idle)(0 := AP_take (C_post 5) 0 (Some 1)),
      ac_posted = [5], ac_given = [], ac_removed = []\<rparr>"
    using sz by (simp add: ev fun_eq_iff)
  have "oneway_run L_free 2 ?s0 (acc_access 0 (acc_enter 0 (C_post 5) ?s0))"
    by (intro oneway_run_access oneway_run.more [OF oneway_run.none oneway_step.enter]) (use sz in \<open>simp_all add: ev\<close>)
  then have r1: "oneway_run L_free 2 ?s0 ?s1" by (rule oneway_run_access) (use sz in \<open>simp_all add: ev\<close>)
  have "ac_pc ?s1 1 = AP_idle" unfolding f1 by simp
  then have e2: "oneway_run L_free 2 ?s0 (acc_enter 1 (C_post 7) ?s1)"
    by (intro oneway_run.more [OF r1 oneway_step.enter]) simp_all
  have r2: "oneway_run L_free 2 ?s0 ?s2"
    by (rule oneway_run_alone [OF e2]) (unfold f1, use sz in \<open>simp_all add: ev upt_rec\<close>)
  have f2: "?s2 = \<lparr>ac_acc = post_node (acc_new []) 0 (Some 1) 7,
      ac_pc = (\<lambda>_. AP_idle)(0 := AP_take (C_post 5) 0 (Some 1)), ac_posted = [7, 5], ac_given = [], ac_removed = []\<rparr>"
    unfolding f1 using nx0 by (subst alone_post_node [where n = 0 and d = 7]) (simp_all add: go_def fun_eq_iff, simp_all add: acc_new_def)
  have "oneway_run L_free 2 ?s0 ?s3"
    by (rule oneway_run_alone [OF r2]) (unfold f2, use sz in \<open>simp_all add: ev post_node_def insertIntoList_def upt_rec\<close>)
  moreover have "(\<forall>t. ac_pc ?s3 t = AP_idle) \<and> ac_posted ?s3 = [7, 5] \<and> ac_given ?s3 = []"
    unfolding f2 using sz by (simp add: ev post_node_def insertIntoList_def)
  ultimately obtain s where s: "oneway_run L_free 2 ?s0 s" "\<forall>t. ac_pc s t = AP_idle"
    "ac_posted s = [7, 5]" "ac_given s = []" by blast
  have "acc_inv (acc_new [])" "acc_ids (acc_new []) = []"
    using acc_new_inv [of "[]"] by (simp_all add: used_ok_def)
  then have "mset (acc_ids (ac_acc s)) = {#5, 7#}"
    using acc_oneway_safe [OF _ s(1,2)] s(3,4) by simp
  with s(3) show ?thesis by blast
qed

end
