(* ===== verification/Acc_Race.thy ===== *)
theory Acc_Race
  imports Acc_Threads
begin

text \<open>
  Two races of the bucket accounting: runs of the accesses of
  \<^verbatim>\<open>bucketaccounting.cpp\<close> in which a slot is handed out more often than it was given
  back. No lock of the callers excludes them: \<^verbatim>\<open>storage::newHash\<close>, \<^verbatim>\<open>hash::decRefCnt\<close>
  and \<^verbatim>\<open>fs::mkobject\<close> call \<^verbatim>\<open>fetch\<close> and \<^verbatim>\<open>post\<close> from any FUSE thread.
\<close>

section \<open>A refill under a thread that holds a node\<close>

lemma createBuckets_Inr:
  assumes "createBuckets a = Inr a'"
  shows "length (acc_data a') = length (acc_data a)" "acc_next a' = cleanRecords (length (acc_data a))"
    "availableList a' = Some 0" "freeList a' = None"
  using assms
  by (auto simp: createBuckets_def Let_def bindR_def assertR_def split: prod.splits if_splits sum.splits)

lemma create_loop_length: "create_loop n used h = (used', h', ds) \<Longrightarrow> length ds = n * chunksInBucket"
  by (induction n arbitrary: used h used' h' ds) (auto simp: Let_def split: prod.splits)

lemma createBuckets_full:
  assumes "length (acc_data a) = acc_size"
  obtains a' where "createBuckets a = Inr a'"
proof -
  obtain u h ds where c: "create_loop maxBuckets (bucketsInUse a) (hint a) = (u, h, ds)" by (metis prod_cases3)
  from create_loop_length [OF c] assms show ?thesis
    by (intro that) (simp add: createBuckets_def c acc_size_def assertR_def bindR_def)
qed

text \<open>
  C40: \<open>createBuckets\<close> refills the whole table although another thread may hold a node it has
  taken from the free list: one thread posts a slot, another one asks for a slot and refills the
  table in between, and the slot that was posted once is handed out to both.
\<close>

theorem acc_refill_race:
  "\<exists>s. acc_reach 2 (acc_conc_new (acc_new buckets)) s \<and> (\<forall>t. ac_pc s t = AP_idle) \<and>
     ac_posted s = [d] \<and> ac_given s = [(1, d), (0, d)]"
proof -
  let ?s0 = "acc_conc_new (acc_new buckets)"
  let ?s1 = "acc_alone 0 3 (acc_enter 0 (C_post d) ?s0)"
  have sz: "acc_size > 4" by (simp add: acc_size_def maxBuckets_def chunksInBucket_def)
  have f1: "?s1 = ?s0\<lparr>ac_acc := (acc_new buckets)\<lparr>freeList := Some 1\<rparr>, ac_posted := [d],
      ac_pc := (\<lambda>_. AP_idle)(0 := AP_data (C_post d) 0)\<rparr>"
    using sz by (simp add: eval_nat_numeral acc_eval acc_conc_new_def acc_new_def acc_size_def [symmetric] cleanRecords_def fun_eq_iff)
  obtain a where a: "createBuckets ((acc_new buckets)\<lparr>freeList := Some 1\<rparr>) = Inr a"
    by (rule createBuckets_full [of "(acc_new buckets)\<lparr>freeList := Some 1\<rparr>"]) (simp_all add: acc_new_def acc_size_def)
  have aa: "length (acc_data a) = acc_size" "acc_next a = cleanRecords acc_size" "availableList a = Some 0" "freeList a = None"
    using createBuckets_Inr [OF a] by (simp_all add: acc_new_def acc_size_def)
  let ?s2 = "acc_alone 1 2 (acc_enter 1 C_fetch ?s1)"
  have f2: "?s2 = \<lparr>ac_acc = a, ac_pc = (\<lambda>_. AP_idle)(0 := AP_data (C_post d) 0, 1 := AP_load C_fetch),
      ac_posted = [d], ac_given = [], ac_removed = []\<rparr>"
    unfolding f1 using a
    by (subst alone_create) (simp_all add: go_def acc_conc_new_def, simp_all add: acc_new_def)
  let ?s3 = "acc_alone 1 3 (acc_alone 0 4 ?s2)"
  let ?s4 = "acc_access 1 (acc_alone 0 4 (acc_enter 0 C_fetch ?s3))"
  let ?s5 = "acc_alone 1 4 (acc_alone 0 4 ?s4)"
  have r1: "acc_reach 2 ?s0 ?s1"
    by (rule acc_reach_alone [OF acc_reach_enter [OF acc_reach.none]]) (simp_all add: acc_conc_new_def)
  have "ac_pc ?s1 1 = AP_idle" unfolding f1 by simp
  then have r3: "acc_reach 2 ?s0 ?s3"
    by (intro acc_reach_alone acc_reach_enter [OF r1]) simp_all
  have i3: "ac_pc ?s3 0 = AP_idle"
    unfolding f2 using aa sz by (simp add: eval_nat_numeral acc_eval)
  have "acc_reach 2 ?s0 ?s5"
    by (intro acc_reach_alone acc_reach_access acc_reach_enter r3 i3) simp_all
  moreover have "(\<forall>t. ac_pc ?s5 t = AP_idle) \<and> ac_posted ?s5 = [d] \<and> ac_given ?s5 = [(1, d), (0, d)]"
    unfolding f2 using aa sz by (simp add: eval_nat_numeral acc_eval)
  ultimately show ?thesis by blast
qed

section \<open>A node that comes back\<close>

lemma first_ids:
  assumes "createBuckets (acc_new []) = Inr a" "i < chunksInBucket"
  shows "acc_data a ! i = bucketIndex 1 i"
proof -
  obtain u h ds where c: "create_loop (Suc 9) [] 1 = (u, h, ds)" by (metis prod_cases3)
  obtain u1 h1 ds1 where c1: "create_loop 9 (insort_insert 1 []) (Suc 1) = (u1, h1, ds1)" by (metis prod_cases3)
  have "skip_used [] 1 = 1" by (subst skip_used.simps) simp
  then have "ds = map (bucketIndex 1) [0..<chunksInBucket] @ ds1"
    using create_loop.simps(2) [of 9 "[]" 1] c by (simp add: Let_def c1 [simplified])
  moreover have "acc_data a = ds"
    using assms(1) c by (auto simp: createBuckets_def acc_new_def maxBuckets_def assertR_def bindR_def split: if_splits)
  ultimately show ?thesis using assms(2) by (simp add: nth_append)
qed

text \<open>
  C34: \<open>takeFromList\<close> compares only the head of the list. While a thread stands between its load of
  \<^verbatim>\<open>nextNode\<close> and its exchange, others can take two nodes and put the first one back; the
  exchange then succeeds with a successor that is no longer on the list. On a new file system
  three threads come to hold one slot that was handed out three times and given back once.
\<close>

theorem acc_aba:
  "\<exists>s x. acc_reach 3 (acc_conc_new (acc_new [])) s \<and> (\<forall>t. ac_pc s t = AP_idle) \<and>
     count_list (map snd (ac_given s)) x = 3 \<and> count_list (ac_posted s) x = 1 \<and>
     take 2 (ac_given s) = [(1, x), (0, x)]"
proof -
  let ?s0 = "acc_conc_new (acc_new [])"
  have sz: "acc_size > 4" by (simp add: acc_size_def maxBuckets_def chunksInBucket_def)
  obtain a where a: "createBuckets (acc_new []) = Inr a"
    by (rule createBuckets_full [of "acc_new []"]) (simp_all add: acc_new_def acc_size_def)
  have aa: "length (acc_data a) = acc_size" "acc_next a = cleanRecords acc_size" "availableList a = Some 0" "freeList a = None"
    using createBuckets_Inr [OF a] by (simp_all add: acc_new_def acc_size_def)
  define x y z where "x = bucketIndex 1 0" and "y = bucketIndex 1 1" and "z = bucketIndex 1 2"
  have ids: "acc_data a ! 0 = x" "acc_data a ! Suc 0 = y" "acc_data a ! 2 = z" "y \<noteq> x" "z \<noteq> x"
    using first_ids [OF a, of 0] first_ids [OF a, of 1] first_ids [OF a, of 2]
    by (simp_all add: x_def y_def z_def chunksInBucket_def bucketIndex_def)
  let ?s1 = "acc_alone 2 8 (acc_alone 2 2 (acc_enter 2 C_fetch ?s0))"
  have f1: "?s1 = \<lparr>ac_acc = snd (fetch_node a 0 (Some 1)), ac_pc = (\<lambda>_. AP_idle), ac_posted = [],
      ac_given = [(2, x)], ac_removed = []\<rparr>"
    using a aa ids sz
    by (subst alone_create) (simp_all add: go_def acc_conc_new_def, simp_all add: acc_new_def alone_fetch_node fun_eq_iff)
  let ?s2 = "acc_alone 0 2 (acc_enter 0 C_fetch ?s1)"
  let ?s3 = "acc_alone 1 8 (acc_enter 1 C_fetch ?s2)"
  let ?s4 = "acc_alone 1 8 (acc_enter 1 C_fetch ?s3)"
  let ?s5 = "acc_alone 2 3 (acc_enter 2 (C_post x) ?s4)"
  let ?s6 = "acc_alone 1 7 (acc_enter 1 (C_post y) ?s5)"
  let ?s7 = "acc_alone 2 4 (acc_alone 0 6 ?s6)"
  let ?s8 = "acc_alone 1 4 (acc_enter 1 C_fetch ?s7)"
  let ?s9 = "acc_alone 0 4 (acc_enter 0 C_fetch ?s8)"
  let ?s10 = "acc_alone 1 4 (acc_alone 0 4 ?s9)"
  have r1: "acc_reach 3 ?s0 ?s1"
    by (intro acc_reach_alone acc_reach_enter acc_reach.none) (simp_all add: acc_conc_new_def)
  have f2: "?s2 = \<lparr>ac_acc = snd (fetch_node a 0 (Some 1)), ac_pc = (\<lambda>_. AP_idle)(0 := AP_take C_fetch 1 (Some 2)),
      ac_posted = [], ac_given = [(2, x)], ac_removed = []\<rparr>"
    unfolding f1 using aa sz
    by (simp add: eval_nat_numeral acc_eval fetch_node_def insertIntoList_def fun_eq_iff)
  note ev = eval_nat_numeral acc_eval fetch_node_def insertIntoList_def
  have i: "ac_pc ?s2 1 = AP_idle" "ac_pc ?s3 1 = AP_idle" "ac_pc ?s4 2 = AP_idle" "ac_pc ?s5 1 = AP_idle"
      "ac_pc ?s7 1 = AP_idle" "ac_pc ?s8 0 = AP_idle"
    unfolding f2 using aa sz by (simp_all add: ev)
  have "ac_pc ?s1 0 = AP_idle" unfolding f1 by simp
  then have "acc_reach 3 ?s0 ?s10"
    by (intro acc_reach_alone acc_reach_enter [OF _ _ i(1)] acc_reach_enter [OF _ _ i(2)] acc_reach_enter [OF _ _ i(3)]
        acc_reach_enter [OF _ _ i(4)] acc_reach_enter [OF _ _ i(5)] acc_reach_enter [OF _ _ i(6)]
        acc_reach_enter [OF r1]) simp_all
  moreover have "(\<forall>t. ac_pc ?s10 t = AP_idle) \<and> ac_posted ?s10 = [y, x] \<and>
      ac_given ?s10 = [(1, x), (0, x), (0, y), (1, z), (1, y), (2, x)]"
    unfolding f2 using aa sz ids by (simp add: ev)
  ultimately show ?thesis using ids(4,5) by (intro exI [of _ ?s10] exI [of _ x]) simp
qed

end
