(* ===== verification/File_Threads.thy ===== *)
theory File_Threads
  imports File_Data Store_Contract
begin

text \<open>
  Concurrent aligned writes (\<^verbatim>\<open>src/src/modules/filesystem/file.cpp\<close>, the \<^verbatim>\<open>try\<close>
  block of \<open>writeInner\<close>). Threads that write at a multiple of the chunk size hold \<^verbatim>\<open>_mut\<close>
  of their file only shared, and nothing keeps writers of different files apart, so that their accesses to the lists of hashes
  and their calls of the storage layer interleave. One step is the load or
  the store of one element of a list (\<^verbatim>\<open>getRange\<close> and \<^verbatim>\<open>updateRange\<close> of
  \<^verbatim>\<open>atomic_shared_ptr_list.h\<close> hold the mutex of the list only shared as well) or a call of a hash; \<^verbatim>\<open>write\<close> of a
  hash is two steps, as \<^verbatim>\<open>storage::newHash\<close> holds no lock between the lookup in the index and what it does
  with the answer: the first ends with the lookup, the second compares the chunk that was found or fetches a slot, puts the chunk
  there and enters the new hash in the index. (Nobody else knows the new hash and its slot before the index has it, so
  that these belong to one step.) The size of
  the file has been grown before; the time stamp of the inode is left out.
\<close>

section \<open>What the index knows\<close>

text \<open>Operations after which the index knows no sum that it did not know before.\<close>

definition known :: "stor \<Rightarrow> sha256sum \<Rightarrow> bool" where
  "known s k \<longleftrightarrow> umap_get (st_index s) k \<noteq> None"

definition no_new_sums :: "'a stor_op \<Rightarrow> bool" where
  "no_new_sums m \<longleftrightarrow> (\<forall>s x s' k. m s = Inr (x, s') \<longrightarrow> known s' k \<longrightarrow> known s k)"

named_theorems sums "operations that enter nothing in the index"

lemma no_new_sumsD: "no_new_sums m \<Longrightarrow> m s = Inr (x, s') \<Longrightarrow> known s' k \<Longrightarrow> known s k"
  unfolding no_new_sums_def by blast

lemma no_new_sums_basic [sums]:
  "no_new_sums (returnS x)" "no_new_sums (raiseS e)" "no_new_sums (getS f)" "no_new_sums (assertS b)" "no_new_sums (liftS r)"
  by (auto simp: no_new_sums_def returnS_def raiseS_def getS_def assertS_def liftS_def split: if_splits sum.splits)

lemma no_new_sums_bind [sums]: "no_new_sums m \<Longrightarrow> (\<And>x. no_new_sums (f x)) \<Longrightarrow> no_new_sums (bindS m f)"
  unfolding no_new_sums_def bindS_def by (fastforce split: sum.splits)

lemma no_new_sums_when [sums]: "no_new_sums m \<Longrightarrow> no_new_sums (whenS b m)"
  by (simp add: whenS_def no_new_sums_basic)

lemma no_new_sums_for [sums]: "(\<And>x. no_new_sums (m x)) \<Longrightarrow> no_new_sums (forS xs m)"
  by (induction xs) (simp_all add: sums)

lemma no_new_sums_option [sums]:
  "no_new_sums m \<Longrightarrow> (\<And>x. no_new_sums (f x)) \<Longrightarrow> no_new_sums (case v of None \<Rightarrow> m | Some x \<Rightarrow> f x)"
  by (cases v) simp_all

lemma no_new_sums_modify: "(\<And>s k. known (f s) k \<Longrightarrow> known s k) \<Longrightarrow> no_new_sums (modifyS f)"
  by (simp add: no_new_sums_def modifyS_def)

lemma no_new_sums_zoom: "(\<And>x s. st_index (put x s) = st_index s) \<Longrightarrow> no_new_sums (zoomS get put m)"
  by (auto simp: no_new_sums_def zoomS_def known_def split: sum.splits)

lemma no_new_sums_calls [sums]:
  "no_new_sums (inBucket E i m)" "no_new_sums (removeBucket E i)" "no_new_sums (upd_hash h g)" "no_new_sums (hash_clearData h)"
proof -
  show b: "no_new_sums (inBucket E i m)"
    unfolding inBucket_def getBucket_def
    by (intro sums no_new_sums_zoom no_new_sums_modify) (auto simp: known_def split: prod.splits)
  show "no_new_sums (removeBucket E i)"
    unfolding removeBucket_def
    by (intro sums no_new_sums_zoom no_new_sums_modify) (auto simp: known_def split: prod.splits)
  show u: "no_new_sums (upd_hash h g)" for g
    unfolding upd_hash_def by (intro no_new_sums_modify) (simp add: known_def)
  show "no_new_sums (hash_clearData h)"
    unfolding hash_clearData_def using u by (intro sums) (auto intro: sums)
qed

lemma no_new_sums_counts [sums]:
  "no_new_sums (hash_incRefCnt E h n)" "no_new_sums (accounting_post E j)" "no_new_sums (hash_decRefCnt E h n)"
proof -
  show "no_new_sums (hash_incRefCnt E h n)" unfolding hash_incRefCnt_def by (intro sums)
  show p: "no_new_sums (accounting_post E j)" for j
    unfolding accounting_post_def
    by (intro sums) (auto split: prod.splits intro!: sums no_new_sums_modify simp: known_def)
  show "no_new_sums (hash_decRefCnt E h n)"
    unfolding hash_decRefCnt_def hash_release_def
    by (intro sums p no_new_sums_modify) (auto simp: known_def split: if_splits)
qed

lemma wpx_and: "wpx A m Q s \<Longrightarrow> (\<And>x s'. m s = Inr (x, s') \<Longrightarrow> P x s') \<Longrightarrow> wpx A m (\<lambda>x s'. Q x s' \<and> P x s') s"
  by (auto simp: wpx_def split: sum.splits)

lemma wp_sums: "no_new_sums m \<Longrightarrow> wpx A m Q s \<Longrightarrow> wpx A m (\<lambda>x s'. Q x s' \<and> (\<forall>k. known s' k \<longrightarrow> known s k)) s"
  by (rule wpx_and) (auto dest: no_new_sumsD)

section \<open>State\<close>

text \<open>
  The next step of a thread, with the file, the index of the next element, what is left of the buffer,
  the hashes still to write, the hashes to store, \<^verbatim>\<open>hashesToRemoveFromFile\<close>,
  \<^verbatim>\<open>bucketsAffected\<close>, and within \<^verbatim>\<open>newHash\<close> the chunk and what the lookup gave.
\<close>

datatype wr_pc =
    WP_enter nat nat "byte list"
  | WP_range nat nat "byte list" "hid list"
  | WP_chunk nat nat "byte list" "hid list" "hid list" "hid list" "nat list"
  | WP_new nat nat "byte list" "hid list" "hid list" "hid list" "nat list" chunk "hid option"
  | WP_ref nat nat "byte list" "hid list" "hid list" "hid list" "nat list" hid
  | WP_put nat nat "hid list" "hid list" "nat list"
  | WP_rel "hid list" "nat list"
  | WP_mark "nat list"
  | WP_done

record wr_conc =
  wc_stor :: stor
  wc_list :: "nat \<Rightarrow> hid ptr_list"
  wc_pc :: "nat \<Rightarrow> wr_pc"

type_synonym 'a wr_op = "(wr_conc, 'a) op"

text \<open>Every thread has one call: a file, the chunk it starts at, and the bytes to write.\<close>

type_synonym wr_call = "nat \<times> nat \<times> byte list"

definition wr_start :: "stor \<Rightarrow> (nat \<Rightarrow> hid ptr_list) \<Rightarrow> (nat \<Rightarrow> wr_call) \<Rightarrow> wr_conc" where
  "wr_start s L calls =
     \<lparr>wc_stor = s, wc_list = L, wc_pc = (\<lambda>t. case calls t of (f, a, buf) \<Rightarrow> WP_enter f a buf)\<rparr>"

definition wr_go :: "nat \<Rightarrow> wr_pc \<Rightarrow> unit wr_op" where
  "wr_go t p = modifyS (\<lambda>c. c\<lparr>wc_pc := (wc_pc c)(t := p)\<rparr>)"

definition wr_stor :: "'a stor_op \<Rightarrow> 'a wr_op" where
  "wr_stor m = zoomS wc_stor (\<lambda>s c. c\<lparr>wc_stor := s\<rparr>) m"

definition wr_num :: "byte list \<Rightarrow> nat" where
  "wr_num buf = ceildiv (length buf) chunkSize"

section \<open>Steps\<close>

text \<open>\<^verbatim>\<open>getRange\<close>: the comparison with the size, then one load for each element.\<close>

definition wr_enter :: "nat \<Rightarrow> nat \<Rightarrow> nat \<Rightarrow> byte list \<Rightarrow> unit wr_op" where
  "wr_enter t f a buf =
     bindS (getS (\<lambda>c. pl_size (wc_list c f))) (\<lambda>sz.
     bindS (assertS (wr_num buf = 0 \<or> a + wr_num buf \<le> sz)) (\<lambda>_.
     wr_go t (WP_range f a buf [])))"

definition wr_range :: "nat \<Rightarrow> nat \<Rightarrow> nat \<Rightarrow> byte list \<Rightarrow> hid list \<Rightarrow> unit wr_op" where
  "wr_range t f a buf got =
     bindS (getS (\<lambda>c. pl_list (wc_list c f) ! (a + length got))) (\<lambda>i.
     if length got < wr_num buf then wr_go t (WP_range f a buf (got @ [i]))
     else wr_go t (WP_chunk f a buf got [] [] []))"

text \<open>
  One round of the loop over the hashes: the changed chunk and the lookup of its sum, then the rest of \<^verbatim>\<open>newHash\<close>,
  then the reference that the hash gets.
\<close>

definition wr_chunk :: "env \<Rightarrow> nat \<Rightarrow> nat \<Rightarrow> nat \<Rightarrow> byte list \<Rightarrow> hid list \<Rightarrow> hid list \<Rightarrow> hid list \<Rightarrow> nat list \<Rightarrow> unit wr_op" where
  "wr_chunk E t f a buf hs new rem bkts =
     (case hs of
        [] \<Rightarrow>
          bindS (assertS (buf = [])) (\<lambda>_.
          if rem = [] then wr_go t WP_done
          else
            bindS (getS (\<lambda>c. pl_size (wc_list c f))) (\<lambda>sz.
            bindS (assertS (a + length new \<le> sz)) (\<lambda>_. wr_go t (WP_put f a new rem bkts))))
      | h # hs \<Rightarrow>
          if buf \<noteq> [] then
            let newSize = min (length buf) chunkSize in
            bindS (wr_stor (hash_change E h 0 (take newSize buf))) (\<lambda>r.
            case r of
              None \<Rightarrow> wr_go t (WP_chunk f a (drop newSize buf) hs (new @ [h]) rem bkts)
            | Some x \<Rightarrow>
                bindS (getS (\<lambda>c. umap_get (st_index (wc_stor c)) (e_sha E x))) (\<lambda>it.
                wr_go t (WP_new f a (drop newSize buf) hs new (rem @ [h]) bkts x it)))
          else wr_go t (WP_chunk f a buf hs (new @ [h]) rem bkts))"

definition wr_new ::
  "env \<Rightarrow> nat \<Rightarrow> nat \<Rightarrow> nat \<Rightarrow> byte list \<Rightarrow> hid list \<Rightarrow> hid list \<Rightarrow> hid list \<Rightarrow> nat list \<Rightarrow> chunk \<Rightarrow> hid option \<Rightarrow> unit wr_op" where
  "wr_new E t f a buf hs new rem bkts x it =
     bindS (wr_stor (newHash_from E (e_sha E x) x it)) (\<lambda>n. wr_go t (WP_ref f a buf hs new rem bkts n))"

definition wr_ref :: "env \<Rightarrow> nat \<Rightarrow> nat \<Rightarrow> nat \<Rightarrow> byte list \<Rightarrow> hid list \<Rightarrow> hid list \<Rightarrow> hid list \<Rightarrow> nat list \<Rightarrow> hid \<Rightarrow> unit wr_op" where
  "wr_ref E t f a buf hs new rem bkts n =
     bindS (wr_stor (hash_incRefCnt E n 1)) (\<lambda>_.
     bindS (getS (\<lambda>c. [bucket_of (hash_getBucketIndex (wc_stor c) n),
                       bucket_of (hash_getBucketIndex (wc_stor c) (last rem))])) (\<lambda>b.
     wr_go t (WP_chunk f a buf hs (new @ [n]) rem (bkts @ b))))"

text \<open>\<^verbatim>\<open>updateRange\<close>: one store for each element.\<close>

definition wr_put :: "nat \<Rightarrow> nat \<Rightarrow> nat \<Rightarrow> hid list \<Rightarrow> hid list \<Rightarrow> nat list \<Rightarrow> unit wr_op" where
  "wr_put t f a new rem bkts =
     (case new of
        [] \<Rightarrow> wr_go t (WP_rel rem bkts)
      | i # new \<Rightarrow>
          bindS (modifyS (\<lambda>c. c\<lparr>wc_list := (wc_list c)(f := (wc_list c f)\<lparr>pl_list :=
            (pl_list (wc_list c f))[a := i]\<rparr>)\<rparr>)) (\<lambda>_.
          wr_go t (WP_put f (Suc a) new rem bkts)))"

text \<open>The references of the overwritten hashes, and the notes for the journal in the buckets.\<close>

definition wr_rel :: "env \<Rightarrow> nat \<Rightarrow> hid list \<Rightarrow> nat list \<Rightarrow> unit wr_op" where
  "wr_rel E t rem bkts =
     (case rem of
        [] \<Rightarrow> wr_go t (WP_mark (set_order bkts))
      | h # rem \<Rightarrow> bindS (wr_stor (hash_decRefCnt E h 1)) (\<lambda>_. wr_go t (WP_rel rem bkts)))"

definition wr_mark :: "env \<Rightarrow> nat option \<Rightarrow> nat \<Rightarrow> nat list \<Rightarrow> unit wr_op" where
  "wr_mark E je t bkts =
     (case bkts of
        [] \<Rightarrow> wr_go t WP_done
      | i # is \<Rightarrow> bindS (wr_stor (inBucket E i (bucket_addChange E je))) (\<lambda>_. wr_go t (WP_mark is)))"

definition wr_access :: "env \<Rightarrow> (nat \<Rightarrow> nat option) \<Rightarrow> nat \<Rightarrow> unit wr_op" where
  "wr_access E je t =
     bindS (getS (\<lambda>c. wc_pc c t)) (\<lambda>p.
     case p of
       WP_enter f a buf \<Rightarrow> wr_enter t f a buf
     | WP_range f a buf got \<Rightarrow> wr_range t f a buf got
     | WP_chunk f a buf hs new rem bkts \<Rightarrow> wr_chunk E t f a buf hs new rem bkts
     | WP_new f a buf hs new rem bkts x it \<Rightarrow> wr_new E t f a buf hs new rem bkts x it
     | WP_ref f a buf hs new rem bkts n \<Rightarrow> wr_ref E t f a buf hs new rem bkts n
     | WP_put f a new rem bkts \<Rightarrow> wr_put t f a new rem bkts
     | WP_rel rem bkts \<Rightarrow> wr_rel E t rem bkts
     | WP_mark bkts \<Rightarrow> wr_mark E (je t) t bkts
     | WP_done \<Rightarrow> returnS ())"

text \<open>A run: the threads in the order in which they take their steps.\<close>

definition wr_run :: "env \<Rightarrow> (nat \<Rightarrow> nat option) \<Rightarrow> nat list \<Rightarrow> unit wr_op" where
  "wr_run E je ts = forS ts (wr_access E je)"

section \<open>Weakest preconditions\<close>

lemma wp_wr_go [simp, wp_simps]: "wpx A (wr_go t p) Q = (\<lambda>c. Q () (c\<lparr>wc_pc := (wc_pc c)(t := p)\<rparr>))"
  by (simp add: wr_go_def)

lemma wp_wr_stor [simp, wp_simps]:
  "wpx A (wr_stor m) Q = (\<lambda>c. wpx A m (\<lambda>x s. Q x (c\<lparr>wc_stor := s\<rparr>)) (wc_stor c))"
  by (simp add: wr_stor_def)

lemma wp_wr_access: "wpx A (wr_access E je t) Q c = wpx A (case wc_pc c t of
       WP_enter f a buf \<Rightarrow> wr_enter t f a buf
     | WP_range f a buf got \<Rightarrow> wr_range t f a buf got
     | WP_chunk f a buf hs new rem bkts \<Rightarrow> wr_chunk E t f a buf hs new rem bkts
     | WP_new f a buf hs new rem bkts x it \<Rightarrow> wr_new E t f a buf hs new rem bkts x it
     | WP_ref f a buf hs new rem bkts n \<Rightarrow> wr_ref E t f a buf hs new rem bkts n
     | WP_put f a new rem bkts \<Rightarrow> wr_put t f a new rem bkts
     | WP_rel rem bkts \<Rightarrow> wr_rel E t rem bkts
     | WP_mark bkts \<Rightarrow> wr_mark E (je t) t bkts
     | WP_done \<Rightarrow> returnS ()) Q c"
  by (simp add: wr_access_def)

lemma wp_run_Nil [simp]: "wpx A (wr_run E je []) Q = Q ()"
  by (simp add: wr_run_def)

lemma wp_run_Cons [simp]:
  "wpx A (wr_run E je (t # ts)) Q = wpx A (wr_access E je t) (\<lambda>_. wpx A (wr_run E je ts) Q)"
  by (simp add: wr_run_def)

lemma wp_wpx: "wp m Q s \<Longrightarrow> wpx A m Q s"
  by (auto simp: wpx_def split: sum.splits)

text \<open>The steps that do not call the storage.\<close>

lemma step_enter:
  "wc_pc c t = WP_enter f a buf \<Longrightarrow> a + wr_num buf \<le> pl_size (wc_list c f) \<Longrightarrow>
     wpx A (wr_access E je t) Q c = Q () (c\<lparr>wc_pc := (wc_pc c)(t := WP_range f a buf [])\<rparr>)"
  by (simp add: wp_wr_access wr_enter_def)

lemma step_range:
  "wc_pc c t = WP_range f a buf got \<Longrightarrow>
     wpx A (wr_access E je t) Q c = Q () (c\<lparr>wc_pc := (wc_pc c)(t :=
       if length got < wr_num buf then WP_range f a buf (got @ [pl_list (wc_list c f) ! (a + length got)])
       else WP_chunk f a buf got [] [] [])\<rparr>)"
  by (simp add: wp_wr_access wr_range_def)

lemma step_chunk_end:
  "wc_pc c t = WP_chunk f a [] [] new rem bkts \<Longrightarrow> a + length new \<le> pl_size (wc_list c f) \<Longrightarrow>
     wpx A (wr_access E je t) Q c = Q () (c\<lparr>wc_pc := (wc_pc c)(t :=
       if rem = [] then WP_done else WP_put f a new rem bkts)\<rparr>)"
  by (simp add: wp_wr_access wr_chunk_def)

lemma step_put:
  "wc_pc c t = WP_put f a (i # new) rem bkts \<Longrightarrow>
     wpx A (wr_access E je t) Q c = Q () (c\<lparr>wc_list := (wc_list c)(f := (wc_list c f)\<lparr>pl_list :=
            (pl_list (wc_list c f))[a := i]\<rparr>), wc_pc := (wc_pc c)(t := WP_put f (Suc a) new rem bkts)\<rparr>)"
  "wc_pc c t = WP_put f a [] rem bkts \<Longrightarrow>
     wpx A (wr_access E je t) Q c = Q () (c\<lparr>wc_pc := (wc_pc c)(t := WP_rel rem bkts)\<rparr>)"
  by (simp_all add: wp_wr_access wr_put_def)

lemma step_end:
  "wc_pc c t = WP_rel [] bkts \<Longrightarrow>
     wpx A (wr_access E je t) Q c = Q () (c\<lparr>wc_pc := (wc_pc c)(t := WP_mark (set_order bkts))\<rparr>)"
  "wc_pc c t = WP_mark [] \<Longrightarrow> wpx A (wr_access E je t) Q c = Q () (c\<lparr>wc_pc := (wc_pc c)(t := WP_done)\<rparr>)"
  "wc_pc c t = WP_done \<Longrightarrow> wpx A (wr_access E je t) Q c = Q () c"
  by (simp_all add: wp_wr_access wr_rel_def wr_mark_def)

lemmas quiet_steps = step_enter step_range step_chunk_end step_put step_end

text \<open>The steps that call the storage.\<close>

definition piece :: "env \<Rightarrow> stor \<Rightarrow> hid \<Rightarrow> byte list \<Rightarrow> chunk" where
  "piece E s h buf = list_splice (hcontent E s h) 0 (take chunkSize buf)"

definition all_kept :: "env \<Rightarrow> stor \<Rightarrow> stor \<Rightarrow> bool" where
  "all_kept E s s' \<longleftrightarrow> (\<forall>g. keeps E s s' g)"

lemma all_keptD:
  assumes "all_kept E s s'" "alive s g"
  shows "alive s' g" "hcontent E s' g = hcontent E s g" "h_flags (hash_at s' g) = h_flags (hash_at s g)"
    "hash_getBucketIndex s' g = hash_getBucketIndex s g"
  using assms by (auto simp: all_kept_def keeps_def hash_getBucketIndex_def)

lemma all_kept_refl [simp]: "all_kept E s s"
  by (simp add: all_kept_def keeps_def)

lemma all_kept_trans: "all_kept E a b \<Longrightarrow> all_kept E b c \<Longrightarrow> all_kept E a c"
  by (auto simp: all_kept_def intro: keeps_trans)

lemma all_kept_quiet: "quiet E s s' \<Longrightarrow> all_kept E s s'"
  by (simp add: all_kept_def keeps_quiet)

lemma room_quiet: "quiet E s s' \<Longrightarrow> stor_room s' k = stor_room s k"
  by (simp add: quiet_def stor_room_def)

lemma step_write:
  assumes pc: "wc_pc c t = WP_chunk f a buf (h # hs) new rem bkts" "buf \<noteq> []"
    and inv: "store_inv E U R (wc_stor c)" and a: "alive (wc_stor c) h"
    and U: "piece E (wc_stor c) h buf \<in> U"
    and none: "\<And>s'. store_inv E U R s' \<Longrightarrow> quiet E (wc_stor c) s' \<Longrightarrow>
      piece E (wc_stor c) h buf = hcontent E (wc_stor c) h \<Longrightarrow>
      Q () (c\<lparr>wc_stor := s', wc_pc := (wc_pc c)(t := WP_chunk f a (drop chunkSize buf) hs (new @ [h]) rem bkts)\<rparr>)"
    and some: "\<And>s'. store_inv E U R s' \<Longrightarrow> quiet E (wc_stor c) s' \<Longrightarrow>
      piece E (wc_stor c) h buf \<noteq> hcontent E (wc_stor c) h \<Longrightarrow>
      Q () (c\<lparr>wc_stor := s', wc_pc := (wc_pc c)(t := WP_new f a (drop chunkSize buf) hs new (rem @ [h]) bkts
        (piece E (wc_stor c) h buf) (umap_get (st_index (wc_stor c)) (e_sha E (piece E (wc_stor c) h buf))))\<rparr>)"
  shows "wp (wr_access E je t) Q c"
proof -
  have i: "stor_inv E U R (wc_stor c)" "env_ok E" "inj_on (e_sha E) U" "names_ok E"
    using inv by (simp_all add: store_inv_def)
  have m: "take (min (length buf) chunkSize) buf = take chunkSize buf"
    "drop (min (length buf) chunkSize) buf = drop chunkSize buf" by (simp_all add: min_def)
  have "wp (hash_change E h 0 (take chunkSize buf)) (\<lambda>r s'.
      wp (case r of
          None \<Rightarrow> wr_go t (WP_chunk f a (drop chunkSize buf) hs (new @ [h]) rem bkts)
        | Some x \<Rightarrow> bindS (getS (\<lambda>c. umap_get (st_index (wc_stor c)) (e_sha E x))) (\<lambda>it.
            wr_go t (WP_new f a (drop chunkSize buf) hs new (rem @ [h]) bkts x it))) Q (c\<lparr>wc_stor := s'\<rparr>)) (wc_stor c)"
  proof (rule wp_mono [OF wp_hash_change [OF i(1,3) a _ U [unfolded piece_def]]], simp, elim conjE, fold piece_def)
    fix r s' assume q: "quiet E (wc_stor c) s'"
      and r: "r = (if piece E (wc_stor c) h buf = hcontent E (wc_stor c) h then None else Some (piece E (wc_stor c) h buf))"
    have inv': "store_inv E U R s'" using i stor_inv_quiet [OF i(1) q] by (simp add: store_inv_def)
    have idx: "st_index s' = st_index (wc_stor c)" using q by (simp add: quiet_def)
    show "wp (case r of
          None \<Rightarrow> wr_go t (WP_chunk f a (drop chunkSize buf) hs (new @ [h]) rem bkts)
        | Some x \<Rightarrow> bindS (getS (\<lambda>c. umap_get (st_index (wc_stor c)) (e_sha E x))) (\<lambda>it.
            wr_go t (WP_new f a (drop chunkSize buf) hs new (rem @ [h]) bkts x it))) Q (c\<lparr>wc_stor := s'\<rparr>)"
      using none [OF inv' q] some [OF inv' q] by (simp add: r idx)
  qed
  then show ?thesis using pc by (simp add: wp_wr_access wr_chunk_def m)
qed

text \<open>The second half of \<^verbatim>\<open>newHash\<close>, after a lookup that found the chunk and after one that did not.\<close>

lemma step_hit:
  assumes pc: "wc_pc c t = WP_new f a buf hs new rem bkts x (Some n)"
    and inv: "store_inv E U R (wc_stor c)" and al: "alive (wc_stor c) n"
    and Q: "\<And>s'. store_inv E U R s' \<Longrightarrow> quiet E (wc_stor c) s' \<Longrightarrow>
      Q () (c\<lparr>wc_stor := s', wc_pc := (wc_pc c)(t := WP_ref f a buf hs new rem bkts n)\<rparr>)"
  shows "wp (wr_access E je t) Q c"
proof -
  have i: "stor_inv E U R (wc_stor c)" using inv by (simp add: store_inv_def)
  have "wp (newHash_from E (e_sha E x) x (Some n)) (\<lambda>m s'. Q () (c\<lparr>wc_stor := s', wc_pc := (wc_pc c)(t := WP_ref f a buf hs new rem bkts m)\<rparr>)) (wc_stor c)"
    by (rule wp_mono [OF wp_newHash_hit [OF i al]])
      (use inv Q stor_inv_quiet [OF i] in \<open>auto simp: store_inv_def\<close>)
  then show ?thesis using pc by (simp add: wp_wr_access wr_new_def)
qed

lemma step_miss:
  assumes pc: "wc_pc c t = WP_new f a buf hs new rem bkts x None"
    and inv: "store_inv E U R (wc_stor c)" and x: "length x = chunkSize" "x \<in> U"
    and free: "umap_get (st_index (wc_stor c)) (e_sha E x) = None" and room: "stor_room (wc_stor c) (Suc k)"
    and Q: "\<And>s' n. store_inv E U R s' \<Longrightarrow> stor_room s' k \<Longrightarrow> all_kept E (wc_stor c) s' \<Longrightarrow>
      alive s' n \<Longrightarrow> hcontent E s' n = x \<Longrightarrow> \<not> alive (wc_stor c) n \<Longrightarrow> h_flags (hash_at s' n) = 0 \<Longrightarrow>
      st_index s' = umap_insert (st_index (wc_stor c)) (e_sha E x) n \<Longrightarrow>
      Q () (c\<lparr>wc_stor := s', wc_pc := (wc_pc c)(t := WP_ref f a buf hs new rem bkts n)\<rparr>)"
  shows "wp (wr_access E je t) Q c"
proof -
  have i: "stor_inv E U R (wc_stor c)" "env_ok E" using inv by (simp_all add: store_inv_def)
  have fresh: "\<not> alive (wc_stor c) (length (io_heap (st_io (wc_stor c))))" using alive_heap [OF i(1)] by blast
  have "wp (newHash_from E (e_sha E x) x None) (\<lambda>m s'. Q () (c\<lparr>wc_stor := s', wc_pc := (wc_pc c)(t := WP_ref f a buf hs new rem bkts m)\<rparr>)) (wc_stor c)"
    by (rule wp_mono [OF wp_newHash_miss [OF i x room free]])
      (rule Q, use inv fresh in \<open>auto simp: store_inv_def all_kept_def\<close>)
  then show ?thesis using pc by (simp add: wp_wr_access wr_new_def)
qed

lemma step_ref:
  assumes pc: "wc_pc c t = WP_ref f a buf hs new rem bkts n"
    and inv: "store_inv E U R (wc_stor c)" and a: "alive (wc_stor c) n"
    and Q: "\<And>s' b. store_inv E U (R(n := Suc (R n))) s' \<Longrightarrow> all_kept E (wc_stor c) s' \<Longrightarrow>
      (\<And>k. stor_room (wc_stor c) k \<Longrightarrow> stor_room s' k) \<Longrightarrow>
      b = [bucket_of (hash_getBucketIndex s' n), bucket_of (hash_getBucketIndex s' (last rem))] \<Longrightarrow>
      (\<And>k. known s' k \<Longrightarrow> known (wc_stor c) k) \<Longrightarrow>
      Q () (c\<lparr>wc_stor := s', wc_pc := (wc_pc c)(t := WP_chunk f a buf hs (new @ [n]) rem (bkts @ b))\<rparr>)"
  shows "wp (wr_access E je t) Q c"
proof -
  have i: "stor_inv E U R (wc_stor c)" using inv by (simp add: store_inv_def)
  have "wp (hash_incRefCnt E n 1) (\<lambda>_ s'. Q () (c\<lparr>wc_stor := s', wc_pc := (wc_pc c)(t := WP_chunk f a buf hs (new @ [n]) rem
      (bkts @ [bucket_of (hash_getBucketIndex s' n), bucket_of (hash_getBucketIndex s' (last rem))]))\<rparr>)) (wc_stor c)"
    by (rule wp_mono [OF wp_sums [OF no_new_sums_counts(1) wp_hash_incRefCnt [OF i a]]])
      (rule Q, use inv in \<open>auto simp: store_inv_def all_kept_def stor_room_def\<close>)
  then show ?thesis using pc by (simp add: wp_wr_access wr_ref_def)
qed

lemma step_rel:
  assumes pc: "wc_pc c t = WP_rel (h # rem) bkts"
    and inv: "store_inv E U R (wc_stor c)" and R: "0 < R h"
    and Q: "\<And>s'. store_inv E U (R(h := R h - 1)) s' \<Longrightarrow> (\<And>k. stor_room (wc_stor c) k \<Longrightarrow> stor_room s' k) \<Longrightarrow>
      (\<And>g. g \<noteq> h \<or> 1 < R h \<Longrightarrow> keeps E (wc_stor c) s' g) \<Longrightarrow>
      (h_flags (hash_at (wc_stor c) h) = 0 \<Longrightarrow> R h = 1 \<Longrightarrow> \<not> alive s' h \<and>
         hash_getBucketIndex (wc_stor c) h \<in> set (acc_ids (st_acc s'))) \<Longrightarrow>
      (\<And>k. known s' k \<Longrightarrow> known (wc_stor c) k) \<Longrightarrow>
      Q () (c\<lparr>wc_stor := s', wc_pc := (wc_pc c)(t := WP_rel rem bkts)\<rparr>)"
  shows "wpf (wr_access E je t) Q c"
proof -
  have i: "stor_inv E U R (wc_stor c)" "env_ok E" "names_ok E" using inv by (simp_all add: store_inv_def)
  have a: "alive (wc_stor c) h" by (rule stor_invD(5) [OF i(1) R])
  have "wpf (hash_decRefCnt E h 1) (\<lambda>_ s'. Q () (c\<lparr>wc_stor := s', wc_pc := (wc_pc c)(t := WP_rel rem bkts)\<rparr>)) (wc_stor c)"
    by (rule wp_mono [OF wp_sums [OF no_new_sums_counts(3) wp_hash_decRefCnt [OF i a]]])
      (use R in simp, rule Q, use inv in \<open>auto simp: store_inv_def hash_getBucketIndex_def\<close>)
  then show ?thesis using pc by (simp add: wp_wr_access wr_rel_def)
qed

lemma step_mark:
  assumes pc: "wc_pc c t = WP_mark (i # is)"
    and inv: "store_inv E U R (wc_stor c)"
    and g: "alive (wc_stor c) g" "bucket_of (hash_getBucketIndex (wc_stor c) g) = i"
    and Q: "\<And>s'. store_inv E U R s' \<Longrightarrow> all_kept E (wc_stor c) s' \<Longrightarrow>
      (\<And>k. stor_room (wc_stor c) k \<Longrightarrow> stor_room s' k) \<Longrightarrow> (\<And>k. known s' k \<Longrightarrow> known (wc_stor c) k) \<Longrightarrow>
      Q () (c\<lparr>wc_stor := s', wc_pc := (wc_pc c)(t := WP_mark is)\<rparr>)"
  shows "wp (wr_access E je t) Q c"
proof -
  have i: "stor_inv E U R (wc_stor c)" "env_ok E" "names_ok E" using inv by (simp_all add: store_inv_def)
  have "log_ok E (wc_stor c) i" using cs.live_markable [OF inv g(1)] g(2) by simp
  from wp_addChange [OF i this]
  have "wp (inBucket E i (bucket_addChange E (je t))) (\<lambda>_ s'. Q () (c\<lparr>wc_stor := s', wc_pc := (wc_pc c)(t := WP_mark is)\<rparr>)) (wc_stor c)"
    by (rule wp_mono) (rule Q, use inv keeps_quiet0 stor_inv_quiet0 [OF i(1)] in
      \<open>auto simp: store_inv_def all_kept_def stor_room_def quiet0_def known_def\<close>)
  then show ?thesis using pc by (simp add: wp_wr_access wr_mark_def)
qed

end
