(* ===== verification/File_Conc.thy ===== *)
theory File_Conc
  imports File_Threads Store_Props
begin

text \<open>
  When aligned writes may run at the same time
  (\<^verbatim>\<open>src/src/modules/filesystem/file.cpp\<close>, lines 716 to 755): a batch of calls to disjoint parts of any
  files, in any interleaving, when no hash that one of them overwrites loses its last reference and no two of them bring the
  same chunk that the storage does not have yet (theory \<open>Hash_Race\<close> shows what happens then).
\<close>

section \<open>A batch of calls\<close>








section \<open>The invariant\<close>









section \<open>One step\<close>

































section \<open>Runs\<close>






end
