(* ===== verification/File_Race.thy ===== *)
theory File_Race
  imports File_Threads Store_Props
begin

text \<open>
  What goes wrong when aligned writes overlap
  (\<^verbatim>\<open>src/src/modules/filesystem/file.cpp\<close>, lines 716 to 750, and
  \<^verbatim>\<open>hash.cpp\<close>): two runs of the model of \<open>File_Threads\<close>, for any state of the storage.
\<close>

lemma alive_unique:
  assumes inv: "store_inv E U R s" and a: "alive s g" "alive s n" and eq: "hcontent E s g = hcontent E s n"
  shows "g = n"
proof -
  have i: "stor_inv E U R s" using inv by (simp add: store_inv_def)
  have "h_hsh (hash_at s g) = h_hsh (hash_at s n)"
    using stor_invD(7) [OF i a(1)] stor_invD(7) [OF i a(2)] eq by simp
  then have "Some g = Some n" using stor_invD(6) [OF i a(1)] stor_invD(6) [OF i a(2)] by metis
  then show ?thesis by simp
qed

lemma wp_run_two:
  "wpx A (wr_run E je (t # u # ts)) Q = wpx A (wr_run E je [t, u]) (\<lambda>_. wpx A (wr_run E je ts) Q)"
  by simp

text \<open>One chunk that is really changed, both steps of \<^verbatim>\<open>write\<close> one after the other: another hash.\<close>

lemma step_change:
  assumes pc: "wc_pc c t = WP_chunk f a buf (h # hs) new rem bkts" "buf \<noteq> []"
    and inv: "store_inv E U R (wc_stor c)" and a: "alive (wc_stor c) h"
    and U: "piece E (wc_stor c) h buf \<in> U" and room: "stor_room (wc_stor c) (Suc k)"
    and neq: "piece E (wc_stor c) h buf \<noteq> hcontent E (wc_stor c) h"
    and Q: "\<And>s' n. store_inv E U R s' \<Longrightarrow> stor_room s' k \<Longrightarrow> all_kept E (wc_stor c) s' \<Longrightarrow>
      alive s' n \<Longrightarrow> hcontent E s' n = piece E (wc_stor c) h buf \<Longrightarrow> n \<noteq> h \<Longrightarrow>
      Q () (c\<lparr>wc_stor := s', wc_pc := (wc_pc c)(t := WP_ref f a (drop chunkSize buf) hs new (rem @ [h]) bkts n)\<rparr>)"
  shows "wp (wr_run E je [t, t]) Q c"
proof -
  let ?x = "piece E (wc_stor c) h buf"
  let ?it = "umap_get (st_index (wc_stor c)) (e_sha E ?x)"
  let ?pc = "\<lambda>n. WP_ref f a (drop chunkSize buf) hs new (rem @ [h]) bkts n"
  have i: "stor_inv E U R (wc_stor c)" "inj_on (e_sha E) U" using inv by (simp_all add: store_inv_def)
  have len: "length ?x = chunkSize" using stor_invD(7) [OF i(1) a] by (simp add: hash_ok_def piece_def)
  have "wp (wr_access E je t) (\<lambda>_. wp (wr_access E je t) Q) c"
  proof (rule step_write [OF pc inv a U], goal_cases)
    case (2 s1)
    let ?c = "c\<lparr>wc_stor := s1, wc_pc := (wc_pc c)(t := WP_new f a (drop chunkSize buf) hs new (rem @ [h]) bkts ?x ?it)\<rparr>"
    have kept: "all_kept E (wc_stor c) s1" by (rule all_kept_quiet [OF 2(2)])
    have idx: "st_index s1 = st_index (wc_stor c)" using 2(2) by (simp add: quiet_def)
    have i1: "stor_inv E U R s1" using 2(1) by (simp add: store_inv_def)
    have ah: "alive s1 h" "hcontent E s1 h \<noteq> ?x" using all_keptD(1,2) [OF kept a] neq by simp_all
    show "wp (wr_access E je t) Q ?c"
    proof (cases ?it)
      case None
      show ?thesis
      proof (rule step_miss [of ?c t f a "drop chunkSize buf" hs new "rem @ [h]" bkts ?x E U R k], goal_cases)
        case (7 s' n)
        have "n \<noteq> h" using 7(6) ah(1) by auto
        then show ?case using Q [of s' n] 7 all_kept_trans [OF kept, of s'] by simp
      qed (use None 2(1) idx len U room room_quiet [OF 2(2)] in simp_all)
    next
      case (Some n)
      have n: "alive s1 n" "hcontent E s1 n = ?x" using index_content [OF i1 i(2) U] Some by (simp_all add: idx)
      show ?thesis
      proof (rule step_hit [of ?c t f a "drop chunkSize buf" hs new "rem @ [h]" bkts ?x n E U R], goal_cases)
        case (4 s')
        have k': "all_kept E s1 s'" using all_kept_quiet 4(2) by simp
        have "n \<noteq> h" using n(2) ah(2) by auto
        moreover have "stor_room s' k" using room stor_room_less room_quiet [OF 2(2)] room_quiet [of E s1 s'] 4(2) by simp
        ultimately show ?case
          using Q [of s' n] 4(1) all_kept_trans [OF kept k'] all_keptD(1,2) [OF k' n(1)] n(2) by simp
      qed (use Some 2(1) n in simp_all)
    qed
  qed (use neq in simp)
  then show ?thesis by simp
qed

lemma piece_kept: "all_kept E s s' \<Longrightarrow> alive s h \<Longrightarrow> piece E s' h buf = piece E s h buf"
  by (simp add: piece_def all_keptD)

lemma wr_num_one: "buf \<noteq> [] \<Longrightarrow> length buf \<le> chunkSize \<Longrightarrow> wr_num buf = 1"
proof -
  assume b: "buf \<noteq> []" "length buf \<le> chunkSize"
  then have "0 < length buf" by simp
  with b(2) show "wr_num buf = 1"
    by (cases "length buf = chunkSize") (simp_all add: wr_num_def ceildiv_def chunkSize_def)
qed

section \<open>Two writes to one chunk\<close>

text \<open>The end of the run, from the last step on: what the calls have left of the hash they overwrote.\<close>

definition dropped :: "env \<Rightarrow> chunk set \<Rightarrow> nat \<Rightarrow> nat \<Rightarrow> hid \<Rightarrow> bucketIndex_t \<Rightarrow> wr_conc \<Rightarrow> bool" where
  "dropped E U f a h i c \<longleftrightarrow> (\<exists>R. store_inv E U R (wc_stor c) \<and> R h = 0) \<and> \<not> alive (wc_stor c) h \<and>
     i \<in> set (acc_ids (st_acc (wc_stor c))) \<and> pl_list (wc_list c f) ! a \<noteq> h"

lemma race_rel:
  assumes "store_inv E U R (wc_stor c)" "R h = 2" "h_flags (hash_at (wc_stor c) h) = 0"
    "hash_getBucketIndex (wc_stor c) h = i" "pl_list (wc_list c f) ! a \<noteq> h"
    "wc_pc c 0 = WP_rel [h] k0" "wc_pc c 1 = WP_rel [h] k1"
  shows "wpf (wr_run E je [0, 1]) (\<lambda>_. dropped E U f a h i) c"
  unfolding wp_run_Cons
proof (rule step_rel [OF assms(6,1)], goal_cases)
  case (2 s)
  have "alive (wc_stor c) h" by (rule cs.ref_live [OF assms(1)]) (simp add: assms(2))
  then have h: "h_flags (hash_at s h) = 0" "hash_getBucketIndex s h = i"
    using 2(3) [of h] assms(2-4) by (auto simp: keeps_def hash_getBucketIndex_def)
  show ?case
    by (rule step_rel [where R = "R(h := R h - 1)"]) (use 2 h assms in \<open>auto simp: dropped_def\<close>)
qed (use assms in simp)

lemma race_put:
  assumes "store_inv E U R (wc_stor c)" "R h = 2" "h_flags (hash_at (wc_stor c) h) = 0"
    "hash_getBucketIndex (wc_stor c) h = i"
    "wc_pc c 0 = WP_chunk f a [] [] [n0] [h] k0" "wc_pc c 1 = WP_chunk f a [] [] [n1] [h] k1"
    "a < pl_size (wc_list c f)" "a < length (pl_list (wc_list c f))" "n1 \<noteq> h"
  shows "wpf (wr_run E je [0, 0, 0, 1, 1, 1, 0, 1]) (\<lambda>_. dropped E U f a h i) c"
proof -
  let ?c = "c\<lparr>wc_list := (wc_list c)(f := (wc_list c f)\<lparr>pl_list := (pl_list (wc_list c f))[a := n1]\<rparr>),
     wc_pc := (wc_pc c)(0 := WP_rel [h] k0, 1 := WP_rel [h] k1)\<rparr>"
  have "wpf (wr_run E je [0, 1]) (\<lambda>_. dropped E U f a h i) ?c"
    by (rule race_rel [where R = R and ?k0.0 = k0 and ?k1.0 = k1]) (use assms in simp_all)
  then show ?thesis using assms by (simp add: quiet_steps fun_upd_twist)
qed

text \<open>What of the storage the run still needs: the hash is shared and ordinary.\<close>

definition shared_hash :: "env \<Rightarrow> chunk set \<Rightarrow> (hid \<Rightarrow> nat) \<Rightarrow> hid \<Rightarrow> bucketIndex_t \<Rightarrow> stor \<Rightarrow> bool" where
  "shared_hash E U R h i s \<longleftrightarrow> store_inv E U R s \<and> R h = 2 \<and> h_flags (hash_at s h) = 0 \<and>
     hash_getBucketIndex s h = i"

lemma shared_alive: "shared_hash E U R h i s \<Longrightarrow> alive s h"
  by (auto simp: shared_hash_def intro: cs.ref_live)

lemma shared_kept:
  assumes "shared_hash E U R h i s" "store_inv E U R' s'" "all_kept E s s'" "R' h = 2"
  shows "shared_hash E U R' h i s'"
  using assms all_keptD [OF assms(3) shared_alive [OF assms(1)]] by (simp add: shared_hash_def)

lemma race_ref:
  assumes sh: "shared_hash E U R h i (wc_stor c)"
    and pc: "wc_pc c 0 = WP_ref f a [] [] [] [h] [] n0" "wc_pc c 1 = WP_ref f a [] [] [] [h] [] n1"
    and n: "alive (wc_stor c) n0" "alive (wc_stor c) n1" "n0 \<noteq> h" "n1 \<noteq> h"
    and a: "a < pl_size (wc_list c f)" "a < length (pl_list (wc_list c f))"
  shows "wpf (wr_run E je [0, 1, 0, 0, 0, 1, 1, 1, 0, 1]) (\<lambda>_. dropped E U f a h i) c"
proof -
  have inv: "store_inv E U R (wc_stor c)" "R h = 2" using sh by (simp_all add: shared_hash_def)
  let ?R = "R(n0 := Suc (R n0))"
  show ?thesis
    unfolding wp_run_Cons [of _ _ _ 0 "1 # _"]
  proof (rule wp_wpx, rule step_ref [OF pc(1) inv(1) n(1)], goal_cases)
    case (1 s b)
    have sh1: "shared_hash E U ?R h i s" by (rule shared_kept [OF sh 1(1,2)]) (use inv n in simp)
    have n1: "alive s n1" by (rule all_keptD [OF 1(2) n(2)])
    let ?c = "c\<lparr>wc_stor := s, wc_pc := (wc_pc c)(0 := WP_chunk f a [] [] ([] @ [n0]) [h] ([] @ b))\<rparr>"
    show ?case
      unfolding wp_run_Cons [of _ _ _ 1 "0 # _"]
    proof (rule wp_wpx, rule step_ref [of ?c 1 f a "[]" "[]" "[]" "[h]" "[]" n1 E U ?R], goal_cases)
      case (4 s' b')
      have "shared_hash E U (?R(n1 := Suc (?R n1))) h i s'"
        by (rule shared_kept [OF sh1]) (use 4 inv n in simp_all)
      then show ?case
        by (intro race_put [where R = "?R(n1 := Suc (?R n1))" and ?n0.0 = n0 and ?n1.0 = n1 and ?k0.0 = b and ?k1.0 = b']) (use n a in \<open>simp_all add: shared_hash_def\<close>)
    qed (use pc 1(1) n1 in simp_all)
  qed
qed

lemma race_write:
  assumes sh: "shared_hash E U R h i (wc_stor c)" and room: "stor_room (wc_stor c) 2"
    and pc: "wc_pc c 0 = WP_chunk f a b0 [h] [] [] []" "wc_pc c 1 = WP_chunk f a b1 [h] [] [] []"
    and b0: "b0 \<noteq> []" "length b0 \<le> chunkSize" "piece E (wc_stor c) h b0 \<in> U"
      "piece E (wc_stor c) h b0 \<noteq> hcontent E (wc_stor c) h"
    and b1: "b1 \<noteq> []" "length b1 \<le> chunkSize" "piece E (wc_stor c) h b1 \<in> U"
      "piece E (wc_stor c) h b1 \<noteq> hcontent E (wc_stor c) h"
    and a: "a < pl_size (wc_list c f)" "a < length (pl_list (wc_list c f))"
  shows "wpf (wr_run E je [0, 0, 1, 1, 0, 1, 0, 0, 0, 1, 1, 1, 0, 1]) (\<lambda>_. dropped E U f a h i) c"
proof -
  have inv: "store_inv E U R (wc_stor c)" "R h = 2" using sh by (simp_all add: shared_hash_def)
  note al = shared_alive [OF sh]
  have rm: "stor_room (wc_stor c) (Suc 1)" using room by (simp add: numeral_2_eq_2)
  show ?thesis
    unfolding wp_run_two [of _ _ _ 0 0 "1 # _"]
  proof (rule wp_wpx, rule step_change [OF pc(1) b0(1) inv(1) al b0(3) rm b0(4)], goal_cases)
    case (1 s n0)
    have sh1: "shared_hash E U R h i s" by (rule shared_kept [OF sh 1(1,3) inv(2)])
    have p: "piece E s h b1 = piece E (wc_stor c) h b1" by (rule piece_kept [OF 1(3) al])
    let ?c = "c\<lparr>wc_stor := s, wc_pc := (wc_pc c)(0 := WP_ref f a (drop chunkSize b0) [] [] ([] @ [h]) [] n0)\<rparr>"
    have "wpf (wr_run E je [1, 1]) (\<lambda>_. wpf (wr_run E je [0, 1, 0, 0, 0, 1, 1, 1, 0, 1]) (\<lambda>_. dropped E U f a h i)) ?c"
    proof (rule wp_wpx, rule step_change [of ?c 1 f a b1 h "[]" "[]" "[]" "[]" E U R 0], goal_cases)
      case (8 s' n1)
      have "shared_hash E U R h i s'" by (rule shared_kept [OF sh1]) (use 8 inv in simp_all)
      moreover have "alive s' n0" using 8(3) 1(4) all_keptD by simp
      ultimately show ?case
        by (intro race_ref [where R = R and ?n0.0 = n0 and ?n1.0 = n1]) (use 1 8 a b0(2) b1(2) in simp_all)
    qed (use pc 1 b1 p all_keptD [OF 1(3) al] in simp_all)
    then show ?case unfolding wp_run_two [of _ _ _ 1 1 "0 # _"] .
  qed
qed

text \<open>
  C7: two aligned writes to the same chunk of a file that both load its hash before either stores
  its own give the one reference of the file back twice: a hash that the file shared with another owner leaves the index, and
  its slot is on offer although the other owner still holds it.
\<close>

theorem write_race_drops_shared:
  assumes "store_inv E U R s" "stor_room s 2" "plist_inv (L f)" "a < length (pl_list (L f))"
    and "pl_list (L f) ! a = h" "h_flags (hash_at s h) = 0" "R h = 2"
    and "calls 0 = (f, a, b0)" "b0 \<noteq> []" "length b0 \<le> chunkSize" "piece E s h b0 \<in> U" "piece E s h b0 \<noteq> hcontent E s h"
    and "calls 1 = (f, a, b1)" "b1 \<noteq> []" "length b1 \<le> chunkSize" "piece E s h b1 \<in> U" "piece E s h b1 \<noteq> hcontent E s h"
  shows "wpf (wr_run E je [0, 0, 0, 1, 1, 1, 0, 0, 1, 1, 0, 1, 0, 0, 0, 1, 1, 1, 0, 1])
    (\<lambda>_ c. (\<exists>R'. store_inv E U R' (wc_stor c) \<and> R' h = 0) \<and> \<not> alive (wc_stor c) h \<and>
       hash_getBucketIndex s h \<in> set (acc_ids (st_acc (wc_stor c))) \<and> pl_list (wc_list c f) ! a \<noteq> h)
    (wr_start s L calls)"
proof -
  note n = wr_num_one [OF assms(9,10)] wr_num_one [OF assms(14,15)]
  have a: "a < pl_size (L f)" using assms(3,4) by (simp add: plist_inv_def)
  let ?c = "\<lparr>wc_stor = s, wc_list = L,
     wc_pc = (wc_pc (wr_start s L calls))(0 := WP_chunk f a b0 [h] [] [] [], 1 := WP_chunk f a b1 [h] [] [] [])\<rparr>"
  have "wpf (wr_run E je [0, 0, 1, 1, 0, 1, 0, 0, 0, 1, 1, 1, 0, 1]) (\<lambda>_. dropped E U f a h (hash_getBucketIndex s h)) ?c"
    by (rule race_write [where R = R and ?b0.0 = b0 and ?b1.0 = b1]) (use assms a in \<open>simp_all add: shared_hash_def\<close>)
  then show ?thesis
    using n a assms(5,8,13) by (simp add: quiet_steps wr_start_def dropped_def fun_upd_twist)
qed

section \<open>A state for the witnesses\<close>

lemma mounted_alive: "mounted E s \<Longrightarrow> alive s h \<Longrightarrow> h = zeroHash"
  by (auto simp: mounted_def fresh_stor_def alive_def split: if_splits)

text \<open>One hash with \<open>k\<close> references, whose chunk starts with a one.\<close>

lemma sample_written:
  obtains s g where "store_inv sample_env sample_U ((\<lambda>h. if h = zeroHash then 1 else 0)(g := k)) s" "stor_room s 2"
    "g \<noteq> zeroHash" "h_flags (hash_at s g) = 0" "alive s g" "hcontent sample_env s g = list_splice zero_chunk 0 [1]"
    "alive s zeroHash" "hcontent sample_env s zeroHash = zero_chunk"
proof -
  let ?E = sample_env and ?U = sample_U and ?R = "\<lambda>h. if h = zeroHash then 1 else (0::nat)"
  obtain s where s: "mounted ?E s" "store_inv ?E ?U ?R s" "stor_room s (2 ^ 52)" "alive s zeroHash"
      "hcontent ?E s zeroHash = zero_chunk"
    by (rule sample_mounted)
  have i: "stor_inv ?E ?U ?R s" "env_ok ?E" "inj_on (e_sha ?E) ?U" using s(2) by (simp_all add: store_inv_def)
  have room: "stor_room s (Suc 2)" using s(3) by (simp add: stor_room_def acc_room_def)
  have U: "list_splice (hcontent ?E s zeroHash) 0 [1] \<in> ?U"
    unfolding s(5) by (rule sample_splice [OF sample_zero]) simp
  have sz: "0 + length [1::byte] \<le> chunkSize" by (simp add: chunkSize_def)
  have neq: "list_splice zero_chunk 0 [1] \<noteq> zero_chunk"
    by (simp add: zero_chunk_def list_splice_def chunkSize_def numeral_eq_Suc)
  obtain r u where u: "stor_inv ?E ?U ?R u" "stor_room u 2" "\<forall>g. keeps ?E s u g" and r:
      "case r of None \<Rightarrow> list_splice zero_chunk 0 [1] = zero_chunk
       | Some n \<Rightarrow> alive u n \<and> hcontent ?E u n = list_splice zero_chunk 0 [1] \<and> (\<not> alive s n \<longrightarrow> h_flags (hash_at u n) = 0)"
    using wp_hash_write [OF i s(4) sz U room] unfolding s(5) wp_run by blast
  obtain n where n: "alive u n" "hcontent ?E u n = list_splice zero_chunk 0 [1]" "\<not> alive s n \<longrightarrow> h_flags (hash_at u n) = 0"
    using r neq by (cases r) auto
  have z: "alive u zeroHash" "hcontent ?E u zeroHash = zero_chunk" using u(3) s(4,5) by (simp_all add: keeps_def)
  have nz: "n \<noteq> zeroHash" using n(2) z(2) neq by auto
  have f: "h_flags (hash_at u n) = 0" using n(3) mounted_alive [OF s(1)] nz by blast
  obtain v where v: "stor_inv ?E ?U (?R(n := ?R n + k)) v" "st_acc v = st_acc u" "\<forall>g. keeps ?E u v g"
    using wp_hash_incRefCnt [OF u(1) n(1), of k] unfolding wp_run by blast
  show thesis
  proof (rule that [of n v])
    show "store_inv ?E ?U (?R(n := k)) v" using v(1) s(2) nz by (simp add: store_inv_def)
    show "stor_room v 2" using u(2) v(2) by (simp add: stor_room_def)
  qed (use nz f n z v(3) in \<open>simp_all add: keeps_def\<close>)
qed

lemma splice_first: "list_splice (list_splice zero_chunk 0 [x]) 0 [y] = list_splice zero_chunk 0 [y]"
  by (simp add: list_splice_def zero_chunk_def chunkSize_def)

lemma first_neq: "x \<noteq> y \<Longrightarrow> list_splice zero_chunk 0 [x] \<noteq> list_splice zero_chunk 0 [y]"
  by (simp add: list_splice_def)

lemma sample_first: "list_splice zero_chunk 0 [x] \<in> sample_U"
  by (rule sample_splice [OF sample_zero]) simp

theorem write_race_drops_shared_witness:
  "\<exists>s h. alive s h \<and>
    wpf (wr_run sample_env (\<lambda>_. None) [0, 0, 0, 1, 1, 1, 0, 0, 1, 1, 0, 1, 0, 0, 0, 1, 1, 1, 0, 1]) (\<lambda>_ c. \<not> alive (wc_stor c) h)
      (wr_start s (\<lambda>_. \<lparr>pl_list = [h], pl_size = 1\<rparr>) (\<lambda>t. (0, 0, [if t = 0 then 2 else 3])))"
proof -
  obtain s h where s: "store_inv sample_env sample_U ((\<lambda>h. if h = zeroHash then 1 else 0)(h := 2)) s" "stor_room s 2"
    "h \<noteq> zeroHash" "h_flags (hash_at s h) = 0" "alive s h" "hcontent sample_env s h = list_splice zero_chunk 0 [1]"
    by (rule sample_written [where k = 2])
  have len: "[y] \<noteq> []" "length [y] \<le> chunkSize" for y :: byte by (simp_all add: chunkSize_def)
  have p: "piece sample_env s h [y] = list_splice zero_chunk 0 [y]" for y
    unfolding piece_def s(6) by (simp add: splice_first chunkSize_def)
  let ?L = "(\<lambda>_. \<lparr>pl_list = [h], pl_size = 1\<rparr>) :: nat \<Rightarrow> hid ptr_list"
  have l: "plist_inv (?L 0)" "0 < length (pl_list (?L 0))" "pl_list (?L 0) ! 0 = h" by (simp_all add: plist_inv_def)
  note run = write_race_drops_shared [where E = sample_env and U = sample_U and s = s and h = h and a = 0 and f = 0
      and R = "(\<lambda>h. if h = zeroHash then 1 else 0)(h := 2)" and L = ?L and ?b0.0 = "[2]" and ?b1.0 = "[3]"
      and calls = "\<lambda>t. (0, 0, [if t = 0 then 2 else 3])" and je = "\<lambda>_. None"]
  show ?thesis
    by (intro exI [of _ s] exI [of _ h] conjI, rule s(5), rule wp_mono, rule run)
      (use s l len p in \<open>simp_all add: sample_first first_neq\<close>)
qed

end
