(* ===== verification/Hash_Flags.thy ===== *)
theory Hash_Flags
  imports Store_Contract
begin

text \<open>
  The flags of hash objects across the operations of buckets
  (\<^verbatim>\<open>src/src/modules/filesystem/hash.cpp\<close>, \<^verbatim>\<open>bucket.cpp\<close>): objects are only
  added to the heap, and nothing but \<open>setFlags\<close> changes flags, so that a hash that was released stays
  marked as deleted.
\<close>

section \<open>Operations that keep the flags\<close>

definition flags_grow :: "hashobj list \<Rightarrow> hashobj list \<Rightarrow> bool" where
  "flags_grow xs ys \<longleftrightarrow> length xs \<le> length ys \<and> (\<forall>h < length xs. h_flags (ys ! h) = h_flags (xs ! h))"

lemma flags_grow_refl [simp]: "flags_grow xs xs"
  by (simp add: flags_grow_def)

lemma flags_grow_append [simp]: "flags_grow xs (xs @ ys)"
  by (simp add: flags_grow_def nth_append)

lemma flags_grow_trans: "flags_grow xs ys \<Longrightarrow> flags_grow ys zs \<Longrightarrow> flags_grow xs zs"
  by (auto simp: flags_grow_def)

lemma flags_grow_update:
  assumes "h_flags x = h_flags (xs ! h)" shows "flags_grow xs (xs[h := x])"
proof -
  have "h_flags (xs[h := x] ! g) = h_flags (xs ! g)" if "g < length xs" for g
    using that assms by (cases "g = h") simp_all
  then show ?thesis by (simp add: flags_grow_def)
qed

definition flags_kept :: "('s \<Rightarrow> hashobj list) \<Rightarrow> ('s, 'a) op \<Rightarrow> bool" where
  "flags_kept heap m \<longleftrightarrow> (\<forall>s x s'. m s = Inr (x, s') \<longrightarrow> flags_grow (heap s) (heap s'))"

named_theorems flagged "operations that keep the flags"

lemma flags_keptD: "flags_kept heap m \<Longrightarrow> m s = Inr (x, s') \<Longrightarrow> flags_grow (heap s) (heap s')"
  by (simp add: flags_kept_def)

lemma flags_bind [flagged]:
  "flags_kept heap m \<Longrightarrow> (\<And>x. flags_kept heap (f x)) \<Longrightarrow> flags_kept heap (bindS m f)"
  unfolding flags_kept_def bindS_def by (auto split: sum.splits) (meson flags_grow_trans)

lemma flags_basic [flagged]:
  "flags_kept heap (returnS x)" "flags_kept heap (raiseS e)" "flags_kept heap (getS f)"
  "flags_kept heap (assertS b)" "flags_kept heap (liftS r)"
  by (auto simp: flags_kept_def returnS_def raiseS_def getS_def assertS_def liftS_def split: sum.splits if_splits)

lemma flags_when [flagged]: "flags_kept heap m \<Longrightarrow> flags_kept heap (whenS b m)"
  by (simp add: whenS_def flagged)

lemma flags_for [flagged]: "(\<And>x. flags_kept heap (m x)) \<Longrightarrow> flags_kept heap (forS xs m)"
  by (induction xs) (simp_all add: flagged)

lemma flags_modify: "(\<And>s. flags_grow (heap s) (heap (f s))) \<Longrightarrow> flags_kept heap (modifyS f)"
  by (simp add: flags_kept_def modifyS_def)

lemma flags_zoom:
  "flags_kept heap m \<Longrightarrow> (\<And>t. heap' t = heap (g t)) \<Longrightarrow> (\<And>s t. heap' (p s t) = heap s) \<Longrightarrow>
     flags_kept heap' (zoomS g p m)"
  unfolding flags_kept_def zoomS_def by (auto split: sum.splits)

abbreviation bheap :: "bucket \<times> bio \<Rightarrow> hashobj list" where
  "bheap \<equiv> (\<lambda>(b, io). io_heap io)"

abbreviation sheap :: "stor \<Rightarrow> hashobj list" where
  "sheap \<equiv> (\<lambda>s. io_heap (st_io s))"

section \<open>Buckets\<close>

lemma flags_on_bucket [flagged]: "flags_kept bheap (on_bucket f)"
  unfolding on_bucket_def by (rule flags_modify) (simp split: prod.splits)

lemma flags_on_io: "(\<And>io. io_heap (f io) = io_heap io) \<Longrightarrow> flags_kept bheap (on_io f)"
  unfolding on_io_def by (rule flags_modify) (simp split: prod.splits)

lemma flags_put [flagged]: "flags_kept bheap (on_io (putSystemString f c))"
  by (rule flags_on_io) (simp add: putSystemString_def)

lemma flags_encrypt [flagged]: "flags_kept bheap (encryptS E x)"
  by (auto simp: flags_kept_def encryptS_def)

lemma load_hash_records_grow: "flags_grow (io_heap io) (io_heap (snd (load_hash_records recs io)))"
proof (induction recs arbitrary: io)
  case (Cons r recs)
  obtain i n s where d: "deserializedHash r = (i, n, s)" by (cases "deserializedHash r") auto
  let ?io = "snd (io_alloc \<lparr>h_hsh = s, h_bucketIndex = i, h_refcnt = n, h_data = None, h_flags = 0\<rparr> io)"
  have "flags_grow (io_heap io) (io_heap ?io)" by (simp add: io_alloc_def)
  then show ?case
    using Cons.IH [of io] flags_grow_trans [OF _ Cons.IH [of ?io]]
    by (auto simp: d io_alloc_def split: prod.splits)
qed simp

lemma flags_load_records [flagged]: "flags_kept bheap (load_records x)"
  using load_hash_records_grow by (auto simp: flags_kept_def load_records_def split: prod.splits) (metis snd_conv)

lemma flags_loadHashes [flagged]: "flags_kept bheap (loadHashes E)"
  unfolding loadHashes_def by (intro flagged | simp add: flagged split: option.splits)+

lemma flags_loadChunks [flagged]: "flags_kept bheap (loadChunks E)"
  unfolding loadChunks_def by (intro flagged | simp add: flagged split: option.splits sum.splits)+

lemma flags_clearHashAndChunk [flagged]: "flags_kept bheap (clearHashAndChunk E i)"
  unfolding clearHashAndChunk_def putHashAndChunk_def by (intro flagged)

lemma flags_hashChanged [flagged]: "flags_kept bheap hashChanged"
  unfolding hashChanged_def by (intro flagged)

lemma flags_bucket_store [flagged]: "flags_kept bheap (bucket_store E b)"
  unfolding bucket_store_def
  by (intro flagged | simp add: flagged flags_on_io split: option.splits)+

section \<open>The storage\<close>

lemma flags_getBucket [flagged]: "flags_kept sheap (getBucket E i)"
  unfolding getBucket_def
  by (intro flagged allI impI conjI flags_modify | simp add: flagged split: option.splits)+

lemma flags_inBucket [flagged]: "flags_kept bheap m \<Longrightarrow> flags_kept sheap (inBucket E i m)"
  unfolding inBucket_def by (intro flagged flags_zoom [where heap = bheap]) (auto split: prod.splits)

lemma flags_removeBucket [flagged]: "flags_kept sheap (removeBucket E i)"
proof -
  have d: "flags_kept bheap (bucket_destroy E)" unfolding bucket_destroy_def by (intro flagged)
  have "flags_kept sheap (zoomS (\<lambda>s. (b, st_io s)) (\<lambda>(_, io') s. s\<lparr>st_io := io'\<rparr>) (bucket_destroy E))" for b
    by (rule flags_zoom [OF d]) (auto split: prod.splits)
  then show ?thesis
    unfolding removeBucket_def
    by (intro flagged flags_modify) (simp_all add: flagged split: option.splits)
qed

lemma flags_post [flagged]: "flags_kept sheap (accounting_post E i)"
  unfolding accounting_post_def by (intro flagged flags_modify | simp add: flagged flags_modify split: prod.splits)+

lemma flags_clearData [flagged]: "flags_kept sheap (hash_clearData h)"
  unfolding hash_clearData_def upd_hash_def
  by (intro flagged flags_modify | simp add: flagged flags_modify flags_grow_update hash_at_def)+

text \<open>The last reference of an ordinary hash: its object stays behind, marked as deleted.\<close>

lemma bind_upd: "bindS (upd_hash h f) k s = k () (upd_at h (f (hash_at s h)) s)"
  by (simp add: upd_hash_def run_simps upd_at_def)

lemma bind_get: "bindS (getS f) k s = k (f s) s"
  by (simp add: run_simps)

lemma bind_assoc: "bindS (bindS m f) g = bindS m (\<lambda>x. bindS (f x) g)"
  by (simp add: fun_eq_iff run_simps split: sum.splits)

lemma decRefCnt_marks:
  assumes r: "hash_decRefCnt E h 1 s = Inr (x, s')" and h: "h < length (sheap s)"
    and o: "h_flags (hash_at s h) = 0" "h_refcnt (hash_at s h) = 1"
  shows "h_flags (hash_at s' h) = FLAG_DELETED \<and> h < length (sheap s')"
proof -
  let ?obj = "(hash_at s h)\<lparr>h_refcnt := 0\<rparr>"
  let ?u = "upd_at h (hash_setFlags FLAG_DELETED ?obj) (upd_at h ?obj s)"
  define m where "m = bindS (getS (\<lambda>s. umap_get (st_index s) (h_hsh ?obj))) (\<lambda>hsh.
     bindS (assertS (hsh = Some h)) (\<lambda>_.
     bindS (getS (\<lambda>s. fst (umap_erase (st_index s) (h_hsh ?obj)))) (\<lambda>num.
     bindS (modifyS (\<lambda>s. s\<lparr>st_index := snd (umap_erase (st_index s) (h_hsh ?obj))\<rparr>)) (\<lambda>_.
     bindS (whenS (num = 1)
       (bindS (inBucket E (bucket_of (h_bucketIndex ?obj))
                 (clearHashAndChunk E (index_of (h_bucketIndex ?obj)))) (\<lambda>_.
        accounting_post E (h_bucketIndex ?obj)))) (\<lambda>_.
     bindS (hash_clearData h) (\<lambda>_. returnS ()))))))"
  have at: "hash_at (upd_at h ?obj s) h = ?obj" using h by (simp add: hash_at_upd_at)
  have f: "h_flags ?obj = 0" using o by simp
  have "bindS (upd_hash h (hash_setFlags FLAG_DELETED)) (\<lambda>_. m) = hash_release E h ?obj"
    unfolding m_def hash_release_def ..
  then have "hash_decRefCnt E h 1 s = bindS (bindS (upd_hash h (hash_setFlags FLAG_DELETED)) (\<lambda>_. m))
      (\<lambda>_. inBucket E (bucket_of (h_bucketIndex ?obj)) hashChanged) (upd_at h ?obj s)"
    using o(2) f unfolding hash_decRefCnt_def bind_upd bind_get
    by (simp add: at flags_of_zero whenS_def)
  also have "\<dots> = bindS m (\<lambda>_. inBucket E (bucket_of (h_bucketIndex ?obj)) hashChanged) ?u"
    by (simp only: bind_assoc bind_upd at)
  finally have "bindS m (\<lambda>_. inBucket E (bucket_of (h_bucketIndex ?obj)) hashChanged) ?u = Inr (x, s')"
    using r by simp
  moreover have "flags_kept sheap (bindS m (\<lambda>_. inBucket E (bucket_of (h_bucketIndex ?obj)) hashChanged))"
    unfolding m_def by (intro flagged flags_modify) simp
  ultimately have "flags_grow (sheap ?u) (sheap s')" by (rule flags_keptD [rotated])
  then show ?thesis
    using h o(1) by (simp add: flags_grow_def upd_at_def hash_at_def hash_setFlags_def)
qed

text \<open>Nobody can take a reference to it any more.\<close>

lemma incRefCnt_deleted:
  assumes "h_flags (hash_at s h) = FLAG_DELETED" "h < length (sheap s)"
  shows "\<exists>s'. hash_incRefCnt E h n s = Inl (AssertFail, s')"
proof -
  let ?x = "(hash_at s h)\<lparr>h_refcnt := h_refcnt (hash_at s h) + int n\<rparr>"
  have at: "hash_at (upd_at h ?x s) h = ?x" using assms(2) by (simp add: hash_at_upd_at)
  have "\<not> hash_isFlags ?x (FLAG_NOAUTOLOAD OR FLAG_NOAUTOSTORE)" "hash_isFlags ?x FLAG_DELETED"
    using assms(1) by (simp_all add: hash_isFlags_def hash_flags)
  then show ?thesis
    unfolding hash_incRefCnt_def bind_upd bind_get
    by (simp add: at whenS_def bindS_def assertS_def)
qed

end
