(* ===== verification/Dedup_Race.thy ===== *)
theory Dedup_Race
  imports File_Race Hash_Flags
begin

text \<open>
  What goes wrong when a write finds its chunk in the storage
  (\<^verbatim>\<open>storage::newHash\<close> in \<^verbatim>\<open>src/src/modules/filesystem/storage.cpp\<close> and the
  \<^verbatim>\<open>incRefCnt\<close> that follows in \<^verbatim>\<open>file.cpp\<close>) while the last owner of that chunk
  overwrites it.
\<close>

text \<open>A thread whose next step takes a reference to a deleted hash aborts the program.\<close>

lemma ref_aborts:
  assumes "wc_pc c t = WP_ref f a buf hs new rem bkts g"
    and "h_flags (hash_at (wc_stor c) g) = FLAG_DELETED" "g < length (sheap (wc_stor c))"
  shows "\<exists>c'. wr_access E je t c = Inl (AssertFail, c')"
proof -
  obtain s' where "hash_incRefCnt E g 1 (wc_stor c) = Inl (AssertFail, s')"
    using incRefCnt_deleted [OF assms(2,3)] by blast
  then show ?thesis
    using assms(1) by (simp add: wr_access_def wr_ref_def wr_stor_def run_simps)
qed

lemma dedup_rel:
  assumes inv: "store_inv E U R (wc_stor c)" and R: "R g = 1" "h_flags (hash_at (wc_stor c) g) = 0"
    and pc: "wc_pc c 0 = WP_ref f a buf hs new rem bkts g" "wc_pc c 1 = WP_rel [g] k"
  shows "wpf (wr_run E je [1]) (\<lambda>_ c. \<not> alive (wc_stor c) g \<and> (\<exists>c'. wr_access E je 0 c = Inl (AssertFail, c'))) c"
proof -
  have i: "stor_inv E U R (wc_stor c)" "env_ok E" "names_ok E" using inv by (simp_all add: store_inv_def)
  have a: "alive (wc_stor c) g" by (rule stor_invD(5) [OF i(1)]) (simp add: R)
  have one: "1 \<le> R g" "h_refcnt (hash_at (wc_stor c) g) = 1" using stor_invD(7) [OF i(1) a] R by simp_all
  note marks = decRefCnt_marks [OF _ alive_heap [OF i(1) a] R(2) one(2)]
  have "wpf (hash_decRefCnt E g 1) (\<lambda>x s'. \<not> alive s' g \<and>
      h_flags (hash_at s' g) = FLAG_DELETED \<and> g < length (sheap s')) (wc_stor c)"
    by (rule wp_mono [OF wpx_and [OF wp_hash_decRefCnt [OF i a one(1)] marks]]) (use R in auto)
  then have "wpf (hash_decRefCnt E g 1) (\<lambda>x s'. \<not> alive s' g \<and>
      (\<exists>c'. wr_access E je 0 (c\<lparr>wc_stor := s', wc_pc := (wc_pc c)(1 := WP_rel [] k)\<rparr>) = Inl (AssertFail, c'))) (wc_stor c)"
    by (rule wp_mono) (use pc(1) in \<open>auto intro!: ref_aborts\<close>)
  then show ?thesis using pc(2) by (simp add: wp_wr_access wr_rel_def)
qed

text \<open>The last owner overwrites its chunk while the other thread holds the hash without a reference.\<close>

lemma dedup_overwrite:
  assumes inv: "store_inv E U R (wc_stor c)" "stor_room (wc_stor c) 1"
    and R: "R g = 1" "h_flags (hash_at (wc_stor c) g) = 0"
    and pc: "wc_pc c 0 = WP_ref f a buf hs new rem bkts g" "wc_pc c 1 = WP_chunk f1 a1 b1 [g] [] [] []"
    and b1: "b1 \<noteq> []" "length b1 \<le> chunkSize" "piece E (wc_stor c) g b1 \<in> U"
      "piece E (wc_stor c) g b1 \<noteq> hcontent E (wc_stor c) g"
    and a1: "a1 < pl_size (wc_list c f1)"
  shows "wpf (wr_run E je [1, 1, 1, 1, 1, 1, 1])
    (\<lambda>_ c. \<not> alive (wc_stor c) g \<and> (\<exists>c'. wr_access E je 0 c = Inl (AssertFail, c'))) c"
proof -
  have al: "alive (wc_stor c) g" by (rule cs.ref_live [OF inv(1)]) (simp add: R)
  have rm: "stor_room (wc_stor c) (Suc 0)" using inv(2) by simp
  show ?thesis
    unfolding wp_run_two [of _ _ _ 1 1 "1 # _"]
  proof (rule wp_wpx, rule step_change [OF pc(2) b1(1) inv(1) al b1(3) rm b1(4)], goal_cases)
    case (1 s n)
    note k = all_keptD [OF 1(3) al]
    let ?c = "c\<lparr>wc_stor := s, wc_pc := (wc_pc c)(1 := WP_ref f1 a1 (drop chunkSize b1) [] [] ([] @ [g]) [] n)\<rparr>"
    have "wpf (wr_access E je 1) (\<lambda>_. wpf (wr_run E je [1, 1, 1, 1]) (\<lambda>_ c. \<not> alive (wc_stor c) g \<and>
        (\<exists>c'. wr_access E je 0 c = Inl (AssertFail, c')))) ?c"
    proof (rule wp_wpx, rule step_ref [of ?c 1 f1 a1 "[]" "[]" "[]" "[g]" "[]" n E U R], goal_cases)
      case (4 s' b)
      note k' = all_keptD [OF 4(2), simplified, OF k(1)]
      let ?d = "?c\<lparr>wc_stor := s', wc_list := (wc_list c)(f1 := (wc_list c f1)\<lparr>pl_list :=
          (pl_list (wc_list c f1))[a1 := n]\<rparr>), wc_pc := (wc_pc ?c)(1 := WP_rel [g] b)\<rparr>"
      have "wpf (wr_run E je [1]) (\<lambda>_ c. \<not> alive (wc_stor c) g \<and> (\<exists>c'. wr_access E je 0 c = Inl (AssertFail, c'))) ?d"
        by (rule dedup_rel [where R = "R(n := Suc (R n))" and k = b and f = f and a = a and buf = buf and hs = hs and
            new = new and rem = rem and bkts = bkts])
          (use 1 4 R k k' pc in simp_all)
      then show ?case using a1 by (simp add: quiet_steps)
    qed (use 1 b1 in simp_all)
    then show ?case by simp
  qed
qed

text \<open>
  C8: a write that finds its new chunk under a hash in the storage has no reference to it until its next call. When
  the last owner of the hash overwrites its own chunk in between, the hash is deleted, and the
  reference that the first writer then takes aborts the program. The two may write to different files.
\<close>

theorem dedup_race_aborts:
  assumes "store_inv E U R s" "stor_room s 2" "R g = 1" "h_flags (hash_at s g) = 0"
    and "calls 0 = (f, a, b0)" "a < length (pl_list (L f))" "plist_inv (L f)" "pl_list (L f) ! a = h" "alive s h" "h \<noteq> g"
    and "b0 \<noteq> []" "length b0 \<le> chunkSize" "piece E s h b0 = hcontent E s g"
    and "calls 1 = (f1, a1, b1)" "a1 < length (pl_list (L f1))" "plist_inv (L f1)" "pl_list (L f1) ! a1 = g"
    and "b1 \<noteq> []" "length b1 \<le> chunkSize" "piece E s g b1 \<in> U" "piece E s g b1 \<noteq> hcontent E s g"
  shows "wpf (wr_run E je ([0, 0, 0, 0, 0] @ [1, 1, 1, 1, 1, 1, 1, 1, 1, 1]))
    (\<lambda>_ c. \<not> alive (wc_stor c) g \<and> (\<exists>c'. wr_access E je 0 c = Inl (AssertFail, c')))
    (wr_start s L calls)"
proof -
  note n = wr_num_one [OF assms(11,12)] wr_num_one [OF assms(18,19)]
  have a: "a < pl_size (L f)" "a1 < pl_size (L f1)" using assms(6,7,15,16) by (simp_all add: plist_inv_def)
  have g: "alive s g" by (rule cs.ref_live [OF assms(1)]) (simp add: assms(3))
  have inv: "stor_inv E U R s" using assms(1) by (simp add: store_inv_def)
  have U: "piece E s h b0 \<in> U" using stor_invD(7) [OF inv g] assms(13) by simp
  have rm: "stor_room s (Suc 1)" using assms(2) by (simp add: numeral_2_eq_2)
  have neq: "piece E s h b0 \<noteq> hcontent E s h" using alive_unique [OF assms(1) g assms(9)] assms(10,13) by auto
  let ?Q = "\<lambda>_ c. \<not> alive (wc_stor c) g \<and> (\<exists>c'. wr_access E je 0 c = Inl (AssertFail, c'))"
  let ?c = "(wr_start s L calls)\<lparr>wc_pc := (wc_pc (wr_start s L calls))(0 := WP_chunk f a b0 [h] [] [] [])\<rparr>"
  have "wpf (wr_run E je [0, 0]) (\<lambda>_. wpf (wr_run E je [1, 1, 1, 1, 1, 1, 1, 1, 1, 1]) ?Q) ?c"
  proof (rule wp_wpx, rule step_change [of ?c 0 f a b0 h "[]" "[]" "[]" "[]" E U R 1], goal_cases)
    case (8 s' m)
    have k: "all_kept E s s'" using 8(3) by (simp add: wr_start_def)
    note kg = all_keptD [OF k g]
    have m: "m = g" using alive_unique [OF 8(1) kg(1) 8(4)] 8(5) kg(2) assms(13) by (simp add: wr_start_def)
    have p: "piece E s' g b1 = piece E s g b1" by (rule piece_kept [OF k g])
    let ?d = "?c\<lparr>wc_stor := s', wc_pc := (wc_pc ?c)(0 := WP_ref f a [] [] [] [h] [] g, 1 := WP_chunk f1 a1 b1 [g] [] [] [])\<rparr>"
    have "wpf (wr_run E je [1, 1, 1, 1, 1, 1, 1]) ?Q ?d"
      by (rule dedup_overwrite [where R = R and ?f1.0 = f1 and ?a1.0 = a1 and ?b1.0 = b1])
        (use 8 assms a p kg in \<open>simp_all add: wr_start_def\<close>)
    then show ?case
      using n a assms(12,14,17) by (simp add: quiet_steps wr_start_def m)
  qed (use assms rm U neq in \<open>simp_all add: wr_start_def\<close>)
  then show ?thesis using n a assms(5,8) by (simp add: quiet_steps wr_start_def)
qed

theorem dedup_race_aborts_witness:
  "\<exists>s g. alive s g \<and> wpf (wr_run sample_env (\<lambda>_. None) ([0, 0, 0, 0, 0] @ [1, 1, 1, 1, 1, 1, 1, 1, 1, 1]))
     (\<lambda>_ c. \<exists>c'. wr_access sample_env (\<lambda>_. None) 0 c = Inl (AssertFail, c'))
     (wr_start s (\<lambda>f. \<lparr>pl_list = [if f = 0 then zeroHash else g], pl_size = 1\<rparr>) (\<lambda>t. (t, 0, [if t = 0 then 1 else 2])))"
proof -
  obtain s g where s: "store_inv sample_env sample_U ((\<lambda>h. if h = zeroHash then 1 else 0)(g := 1)) s" "stor_room s 2"
    "g \<noteq> zeroHash" "h_flags (hash_at s g) = 0" "alive s g" "hcontent sample_env s g = list_splice zero_chunk 0 [1]"
    "alive s zeroHash" "hcontent sample_env s zeroHash = zero_chunk"
    by (rule sample_written [where k = 1])
  have len: "length [y] \<le> chunkSize" for y :: byte by (simp add: chunkSize_def)
  have p: "piece sample_env s g [y] = list_splice zero_chunk 0 [y]"
    "piece sample_env s zeroHash [y] = list_splice zero_chunk 0 [y]" for y
    unfolding piece_def s(6,8) by (simp_all add: splice_first chunkSize_def)
  let ?L = "(\<lambda>f. \<lparr>pl_list = [if f = 0 then zeroHash else g], pl_size = 1\<rparr>) :: nat \<Rightarrow> hid ptr_list"
  note run = dedup_race_aborts [where E = sample_env and U = sample_U and s = s and g = g and h = zeroHash and a = 0
      and ?a1.0 = 0 and f = 0 and ?f1.0 = 1 and R = "(\<lambda>h. if h = zeroHash then 1 else 0)(g := 1)" and L = ?L
      and ?b0.0 = "[1]" and ?b1.0 = "[2]" and calls = "\<lambda>t. (t, 0, [if t = 0 then 1 else 2])" and je = "\<lambda>_. None"]
  show ?thesis
    by (intro exI [of _ s] exI [of _ g] conjI, rule s(5), rule wp_mono, rule run)
      (use s len p in \<open>simp_all add: sample_first first_neq plist_inv_def\<close>)
qed

end
