(* ===== verification/Hash_Race.thy ===== *)
theory Hash_Race
  imports File_Race Hash_Flags
begin

text \<open>
  What goes wrong when two threads store the same chunk for the first time
  (\<^verbatim>\<open>src/src/modules/filesystem/storage.cpp\<close>, \<open>newHash\<close>, lines 292 to 316, and
  \<^verbatim>\<open>hash.cpp\<close>, \<open>decRefCnt\<close>): a run of the model of \<open>File_Threads\<close>, for any state of the
  storage and any two files.
\<close>

text \<open>The second half of \<^verbatim>\<open>newHash\<close> when the lookup missed, whatever the index knows by now.\<close>

lemma wp_newHash_blind:
  assumes inv: "stor_inv E U R s" and env: "env_ok E" and c: "length c = chunkSize" and room: "stor_room s (Suc k)"
  shows "wp (newHash_from E (e_sha E c) c None) (\<lambda>m s'. m = length (sheap s) \<and> heap_grows (st_io s) (st_io s') \<and>
     h_hsh (hash_at s' m) = e_sha E c \<and> h_bucketIndex (hash_at s' m) \<notin> slots_of s \<and>
     st_index s' = umap_insert (st_index s) (e_sha E c) m) s"
    (is "wp _ ?Q s")
proof -
  let ?h = "length (sheap s)"
  let ?obj = "\<lambda>i. \<lparr>h_hsh = e_sha E c, h_bucketIndex = i, h_refcnt = 0, h_data = Some c, h_flags = 0\<rparr>"
  let ?io = "\<lambda>i. (st_io s)\<lparr>io_heap := sheap s @ [?obj i]\<rparr>"
  have step: "wp (putHashAndChunk E (index_of i) (Some ?h) c) (\<lambda>_ (b', io').
      ?Q ?h ((put_bucket (bucket_of i) b' io' (s\<lparr>st_acc := a\<rparr>))\<lparr>st_index := umap_insert (st_index s) (e_sha E c) ?h\<rparr>))
      (bk E s (bucket_of i), ?io i)" if slot: "i \<notin> slots_of s" for i a
  proof -
    have g: "heap_grows (st_io s) (?io i)" by (auto simp: heap_grows_def)
    have ok: "bucket_ok E (bk E s (bucket_of i)) (?io i)"
      by (rule bucket_ok_kept [OF sums_kept_grows [OF g] bucketsD(2) [OF stor_invD(2) [OF inv]]])
    have sz: "hashes_sized [Some ?h] (?io i)" using env by (simp add: hashes_sized_def env_ok_def)
    show ?thesis
      by (rule wp_mono [OF wp_putHashAndChunk [OF ok index_of_less c sz]])
        (use slot in \<open>auto simp: heap_grows_def hash_at_def nth_append\<close>)
  qed
  have "wp accounting_fetch (\<lambda>slot s1. wp (bindS (getS (\<lambda>s. length (sheap s))) (\<lambda>h.
      bindS (modifyS (\<lambda>s. s\<lparr>st_io := snd (io_alloc (?obj slot) (st_io s))\<rparr>)) (\<lambda>_.
      bindS (inBucket E (bucket_of slot) (putHashAndChunk E (index_of slot) (Some h) c)) (\<lambda>_.
      bindS (modifyS (\<lambda>s. s\<lparr>st_index := umap_insert (st_index s) (e_sha E c) h\<rparr>)) (\<lambda>_.
      returnS h))))) ?Q s1) s"
    by (rule wp_mono [OF wp_accounting_fetch [OF stor_invD(4) [OF inv] room]])
      (use step in \<open>auto simp: wp_inBucket io_alloc_def\<close>)
  then show ?thesis by (simp add: newHash_from_def)
qed

text \<open>A hash that the index no longer knows under its sum cannot be released.\<close>

lemma decRefCnt_stranger:
  assumes "h < length (sheap s)" "h_flags (hash_at s h) = 0" "h_refcnt (hash_at s h) = 1"
    and "umap_get (st_index s) (h_hsh (hash_at s h)) \<noteq> Some h"
  shows "\<exists>s'. hash_decRefCnt E h 1 s = Inl (AssertFail, s')"
proof -
  let ?obj = "(hash_at s h)\<lparr>h_refcnt := 0\<rparr>"
  have at: "hash_at (upd_at h ?obj s) h = ?obj" using assms(1) by (simp add: hash_at_upd_at)
  have "st_index (upd_at h y (upd_at h ?obj s)) = st_index s" for y by (simp add: upd_at_def)
  then show ?thesis
    using assms(2-4) unfolding hash_decRefCnt_def bind_upd bind_get hash_release_def
    by (simp add: at flags_of_zero whenS_def bind_assoc bind_upd bind_get assertS_def bindS_def)
qed

definition doubled :: "env \<Rightarrow> chunk \<Rightarrow> hid \<Rightarrow> hid \<Rightarrow> stor \<Rightarrow> bool" where
  "doubled E x n m s \<longleftrightarrow> n \<noteq> m \<and> h_hsh (hash_at s n) = e_sha E x \<and> h_hsh (hash_at s m) = e_sha E x \<and>
     h_bucketIndex (hash_at s n) \<noteq> h_bucketIndex (hash_at s m) \<and> h_refcnt (hash_at s n) = 1 \<and>
     umap_get (st_index s) (e_sha E x) = Some m \<and> (\<exists>s'. hash_decRefCnt E n 1 s = Inl (AssertFail, s'))"

lemma step_double:
  assumes pc: "wc_pc c t = WP_new f a buf hs new rem bkts x None"
    and inv: "store_inv E U R (wc_stor c)" and x: "length x = chunkSize" and room: "stor_room (wc_stor c) (Suc k)"
    and n: "alive (wc_stor c) n" "hcontent E (wc_stor c) n = x" "h_flags (hash_at (wc_stor c) n) = 0" "R n = 1"
    and Q: "\<And>s' m. doubled E x n m s' \<Longrightarrow>
      Q () (c\<lparr>wc_stor := s', wc_pc := (wc_pc c)(t := WP_ref f a buf hs new rem bkts m)\<rparr>)"
  shows "wp (wr_access E je t) Q c"
proof -
  have i: "stor_inv E U R (wc_stor c)" "env_ok E" using inv by (simp_all add: store_inv_def)
  note h = alive_heap [OF i(1) n(1)]
  have o: "h_hsh (hash_at (wc_stor c) n) = e_sha E x" "h_refcnt (hash_at (wc_stor c) n) = 1"
    "h_bucketIndex (hash_at (wc_stor c) n) \<in> slots_of (wc_stor c)"
    using stor_invD(7) [OF i(1) n(1)] n by (auto simp: slots_of_def)
  have d: "doubled E x n m s'" if m: "m = length (sheap (wc_stor c))" "heap_grows (st_io (wc_stor c)) (st_io s')"
    "h_hsh (hash_at s' m) = e_sha E x" "h_bucketIndex (hash_at s' m) \<notin> slots_of (wc_stor c)"
    "st_index s' = umap_insert (st_index (wc_stor c)) (e_sha E x) m" for m s'
  proof -
    have at: "hash_at s' n = hash_at (wc_stor c) n" "n < length (sheap s')"
      using m(2) h by (auto simp: heap_grows_def hash_at_def nth_append)
    have "n \<noteq> m" using h m(1) by simp
    moreover have "\<exists>s''. hash_decRefCnt E n 1 s' = Inl (AssertFail, s'')"
      by (rule decRefCnt_stranger) (use at o n(3) m(5) \<open>n \<noteq> m\<close> in simp_all)
    ultimately show ?thesis using at o m by (auto simp: doubled_def)
  qed
  have "wp (newHash_from E (e_sha E x) x None) (\<lambda>m s'. Q () (c\<lparr>wc_stor := s', wc_pc := (wc_pc c)(t := WP_ref f a buf hs new rem bkts m)\<rparr>)) (wc_stor c)"
    by (rule wp_mono [OF wp_newHash_blind [OF i x room]]) (rule Q, rule d, auto)
  then show ?thesis using pc by (simp add: wp_wr_access wr_new_def)
qed

text \<open>From the lookups on, which both missed.\<close>

lemma doubled_rest:
  assumes inv: "store_inv E U R (wc_stor c)" and room: "stor_room (wc_stor c) 2" and x: "length x = chunkSize" "x \<in> U"
    and None: "umap_get (st_index (wc_stor c)) (e_sha E x) = None"
    and pc: "wc_pc c 0 = WP_new f a [] [] [] [h] [] x None" "wc_pc c 1 = WP_new f1 a1 [] [] [] [h1] [] x None"
    and a: "a < pl_size (wc_list c f)" "a < length (pl_list (wc_list c f))"
  shows "wp (wr_run E je [0, 0, 0, 0, 1])
    (\<lambda>_ c. \<exists>n m. doubled E x n m (wc_stor c) \<and> pl_list (wc_list c f) ! a = n \<and>
       wc_pc c 1 = WP_ref f1 a1 [] [] [] [h1] [] m) c"
    (is "wp _ ?Q c")
  unfolding wp_run_Cons [of _ _ _ 0 "0 # 0 # _"]
proof (rule step_miss [OF pc(1) inv x None, of 1], use room in \<open>simp add: numeral_2_eq_2\<close>, goal_cases)
  case (1 s n)
  have rn: "R n = 0" using cs.ref_live [OF inv, of n] 1(6) by blast
  let ?c = "c\<lparr>wc_stor := s, wc_pc := (wc_pc c)(0 := WP_ref f a [] [] [] [h] [] n)\<rparr>"
  have "wp (wr_access E je 0) (\<lambda>_. wp (wr_run E je [0, 0, 1]) ?Q) ?c"
  proof (rule step_ref [of ?c 0 f a "[]" "[]" "[]" "[h]" "[]" n E U R], goal_cases)
    case (4 s' b)
    note k = all_keptD [OF 4(2), simplified, OF 1(4)]
    let ?d = "?c\<lparr>wc_stor := s', wc_list := (wc_list c)(f := (wc_list c f)\<lparr>pl_list :=
        (pl_list (wc_list c f))[a := n]\<rparr>), wc_pc := (wc_pc ?c)(0 := WP_put f (Suc a) [] [h] b)\<rparr>"
    have "wp (wr_access E je 1) ?Q ?d"
      by (rule step_double [of ?d 1 f1 a1 "[]" "[]" "[]" "[h1]" "[]" x E U "R(n := Suc (R n))" 0 n])
        (use 1 4 k x rn pc a in auto)
    then show ?case using a by (simp add: quiet_steps)
  qed (use 1 in simp_all)
  then show ?case by simp
qed

text \<open>
  C9: two writes that store the same chunk for the first time, in two files, can both look its sum up
  before either enters its hash. Both then make a hash for the chunk, each in a slot of its own, and the
  index keeps the second. The first file holds a hash with one reference that the index does not lead to: releasing it, when
  the chunk is overwritten or the file is truncated, aborts the program.
\<close>

theorem new_chunk_race:
  assumes "store_inv E U R s" "stor_room s 2" "x \<in> U" "\<forall>g. alive s g \<longrightarrow> hcontent E s g \<noteq> x"
    and "calls 0 = (f, a, b0)" "plist_inv (L f)" "a < length (pl_list (L f))" "pl_list (L f) ! a = h" "alive s h"
    and "b0 \<noteq> []" "length b0 \<le> chunkSize" "piece E s h b0 = x"
    and "calls 1 = (f1, a1, b1)" "plist_inv (L f1)" "a1 < length (pl_list (L f1))" "pl_list (L f1) ! a1 = h1" "alive s h1"
    and "b1 \<noteq> []" "length b1 \<le> chunkSize" "piece E s h1 b1 = x"
  shows "wp (wr_run E je ([0, 0, 0, 1, 1, 1] @ [0, 1] @ [0, 0, 0, 0, 1]))
    (\<lambda>_ c. \<exists>n m. n \<noteq> m \<and> pl_list (wc_list c f) ! a = n \<and> wc_pc c 1 = WP_ref f1 a1 [] [] [] [h1] [] m \<and>
       h_hsh (hash_at (wc_stor c) n) = e_sha E x \<and> h_hsh (hash_at (wc_stor c) m) = e_sha E x \<and>
       hash_getBucketIndex (wc_stor c) n \<noteq> hash_getBucketIndex (wc_stor c) m \<and>
       hash_getRefCnt (wc_stor c) n = 1 \<and> umap_get (st_index (wc_stor c)) (e_sha E x) = Some m \<and>
       (\<exists>s'. hash_decRefCnt E n 1 (wc_stor c) = Inl (AssertFail, s')))
    (wr_start s L calls)"
proof -
  note n = wr_num_one [OF assms(10,11)] wr_num_one [OF assms(18,19)]
  have a: "a < pl_size (L f)" "a1 < pl_size (L f1)" using assms(6,7,14,15) by (simp_all add: plist_inv_def)
  have inv: "stor_inv E U R s" "inj_on (e_sha E) U" using assms(1) by (simp_all add: store_inv_def)
  have x: "length x = chunkSize" "x \<noteq> hcontent E s h" "x \<noteq> hcontent E s h1"
    using stor_invD(7) [OF inv(1) assms(9)] assms(4,9,12,17) by (auto simp: hash_ok_def piece_def)
  have None: "umap_get (st_index s) (e_sha E x) = None"
    using index_content [OF inv assms(3)] assms(4) by (cases "umap_get (st_index s) (e_sha E x)") auto
  let ?D = "\<lambda>_ c. \<exists>n m. doubled E x n m (wc_stor c) \<and> pl_list (wc_list c f) ! a = n \<and>
       wc_pc c 1 = WP_ref f1 a1 [] [] [] [h1] [] m"
  let ?c = "\<lparr>wc_stor = s, wc_list = L,
     wc_pc = (wc_pc (wr_start s L calls))(0 := WP_chunk f a b0 [h] [] [] [], 1 := WP_chunk f1 a1 b1 [h1] [] [] [])\<rparr>"
  have "wp (wr_access E je 0) (\<lambda>_. wp (wr_run E je [1, 0, 0, 0, 0, 1]) ?D) ?c"
  proof (rule step_write [of ?c 0 f a b0 h "[]" "[]" "[]" "[]" E U R], goal_cases)
    case (7 s1)
    have q: "quiet E s s1" using 7(2) by simp
    have idx: "st_index s1 = st_index s" using q by (simp add: quiet_def)
    note k = all_keptD [OF all_kept_quiet [OF q] assms(17)] and p = piece_kept [OF all_kept_quiet [OF q] assms(17)]
    let ?d = "?c\<lparr>wc_stor := s1, wc_pc := (wc_pc ?c)(0 := WP_new f a [] [] [] [h] [] x None)\<rparr>"
    have "wp (wr_access E je 1) (\<lambda>_. wp (wr_run E je [0, 0, 0, 0, 1]) ?D) ?d"
    proof (rule step_write [of ?d 1 f1 a1 b1 h1 "[]" "[]" "[]" "[]" E U R], goal_cases)
      case (7 s2)
      have q2: "quiet E s1 s2" using 7(2) by simp
      have idx2: "st_index s2 = st_index s" using q2 idx by (simp add: quiet_def)
      have rm: "stor_room s2 2" using assms(2) room_quiet [OF q] room_quiet [OF q2] by simp
      let ?e = "?d\<lparr>wc_stor := s2, wc_pc := (wc_pc ?d)(1 := WP_new f1 a1 [] [] [] [h1] [] x None)\<rparr>"
      have "wp (wr_run E je [0, 0, 0, 0, 1]) ?D ?e"
        by (rule doubled_rest [where U = U and R = R and h = h]) (use 7(1) rm x(1) assms(3,7) a idx2 None in simp_all)
      then show ?case using p assms(19,20) None by (simp add: idx)
    qed (use 7(1) k p x assms(3,18,20) in simp_all)
    then show ?case using assms(11,12) None by simp
  qed (use assms x in simp_all)
  then have "wp (wr_run E je ([0, 0, 0, 1, 1, 1] @ [0, 1] @ [0, 0, 0, 0, 1])) ?D (wr_start s L calls)"
    using n a assms(5,8,13,16) by (simp add: quiet_steps wr_start_def fun_upd_twist)
  then show ?thesis
    by (rule wp_mono) (auto simp: doubled_def hash_getBucketIndex_def hash_getRefCnt_def)
qed

theorem new_chunk_race_witness:
  "\<exists>s. wp (wr_run sample_env (\<lambda>_. None) ([0, 0, 0, 1, 1, 1] @ [0, 1] @ [0, 0, 0, 0, 1]))
     (\<lambda>_ c. \<exists>n s'. pl_list (wc_list c 0) ! 0 = n \<and> hash_decRefCnt sample_env n 1 (wc_stor c) = Inl (AssertFail, s'))
     (wr_start s (\<lambda>_. \<lparr>pl_list = [zeroHash], pl_size = 1\<rparr>) (\<lambda>t. (t, 0, [1])))"
proof -
  let ?R = "\<lambda>h. if h = zeroHash then 1 else (0::nat)"
  obtain s where s: "mounted sample_env s" "store_inv sample_env sample_U ?R s" "stor_room s (2 ^ 52)" "alive s zeroHash"
      "hcontent sample_env s zeroHash = zero_chunk"
    by (rule sample_mounted)
  have rm: "stor_room s 2" using s(3) by (simp add: stor_room_def acc_room_def)
  have p: "piece sample_env s zeroHash [1] = list_splice zero_chunk 0 [1]"
    by (simp add: piece_def s(5) chunkSize_def)
  have neq: "list_splice zero_chunk 0 [1] \<noteq> zero_chunk"
    by (simp add: zero_chunk_def list_splice_def chunkSize_def numeral_eq_Suc)
  have new: "\<forall>g. alive s g \<longrightarrow> hcontent sample_env s g \<noteq> list_splice zero_chunk 0 [1]"
    using mounted_alive [OF s(1)] s(5) neq by metis
  note run = new_chunk_race [where E = sample_env and U = sample_U and R = ?R and s = s and f = 0 and ?f1.0 = 1 and a = 0
      and ?a1.0 = 0 and h = zeroHash and ?h1.0 = zeroHash and L = "\<lambda>_. \<lparr>pl_list = [zeroHash], pl_size = 1\<rparr>"
      and ?b0.0 = "[1]" and ?b1.0 = "[1]" and calls = "\<lambda>t. (t, 0, [1])" and je = "\<lambda>_. None"
      and x = "list_splice zero_chunk 0 [1]"]
  show ?thesis
    by (intro exI [of _ s], rule wp_mono, rule run)
      (use s rm p new in \<open>auto simp: sample_first plist_inv_def chunkSize_def\<close>)
qed

end
