(* ===== verification/Atomics.thy ===== *)
theory Atomics
  imports Bucket
begin

text \<open>
  The atomic cells of the program: \<^verbatim>\<open>src/src/modules/util/atomic_shared_ptr.h\<close>, a cell for
  a shared pointer with the operations of \<^verbatim>\<open>std::atomic\<close>, and the loops of
  \<^verbatim>\<open>src/src/modules/filesystem/hash.cpp\<close> that change the flags of a hash with
  \<^verbatim>\<open>compare_exchange_strong\<close>, for any number of threads.
\<close>

section \<open>atomic_shared_ptr\<close>

text \<open>
  The cell \<^verbatim>\<open>_inner\<close>; a pointer is the address it holds, the null pointer \<open>None\<close>.
  An operation is one step, whatever memory order it is called with.
\<close>

type_synonym 'p cell = "'p option"

definition aptr_new :: "'p cell" where
  "aptr_new = None"

definition aptr_store :: "'p option \<Rightarrow> 'p cell \<Rightarrow> 'p cell" where
  "aptr_store desired inner = desired"

definition aptr_load :: "'p cell \<Rightarrow> 'p option" where
  "aptr_load inner = inner"

definition aptr_exchange :: "'p option \<Rightarrow> 'p cell \<Rightarrow> 'p option \<times> 'p cell" where
  "aptr_exchange desired inner = (inner, desired)"

text \<open>The result, what \<^verbatim>\<open>expected\<close> holds afterwards, and the cell.\<close>

definition aptr_compare_exchange_strong ::
    "'a \<Rightarrow> 'a \<Rightarrow> 'a \<Rightarrow> bool \<times> 'a \<times> 'a" where
  "aptr_compare_exchange_strong expected desired inner =
     (if inner = expected then (True, expected, desired) else (False, inner, inner))"

text \<open>What a user of such a cell may rely on, whatever it holds.\<close>

locale atomic_cell =
  fixes value_of :: "'c \<Rightarrow> 'v"
    and cas :: "'v \<Rightarrow> 'v \<Rightarrow> 'c \<Rightarrow> bool \<times> 'v \<times> 'c"
  assumes cas_ok: "value_of c = e \<Longrightarrow> \<exists>c'. cas e d c = (True, e, c') \<and> value_of c' = d"
    and cas_fail: "value_of c \<noteq> e \<Longrightarrow> cas e d c = (False, value_of c, c)"
begin

text \<open>The loop \<^verbatim>\<open>while(!x.compare_exchange_strong(expected, f(expected)))\<close> with a bound on its rounds.\<close>

fun spin :: "nat \<Rightarrow> ('v \<Rightarrow> 'v) \<Rightarrow> 'v \<Rightarrow> 'c \<Rightarrow> 'c option" where
  "spin 0 f e c = None"
| "spin (Suc n) f e c = (case cas e (f e) c of (True, _, c') \<Rightarrow> Some c' | (False, e', c') \<Rightarrow> spin n f e' c')"

text \<open>Without interference two rounds are enough, and the loop applies the function once.\<close>

lemma spin_alone: "\<exists>c'. spin (Suc (Suc n)) f e c = Some c' \<and> value_of c' = f (value_of c)"
proof (cases "value_of c = e")
  case True
  then show ?thesis using cas_ok [OF True, of "f e"] by auto
next
  case False
  then show ?thesis using cas_fail [OF False] cas_ok [of c "value_of c" "f (value_of c)"] by auto
qed

end

interpretation ac: atomic_cell "\<lambda>c. c" aptr_compare_exchange_strong
  by unfold_locales (simp_all add: aptr_compare_exchange_strong_def)

section \<open>The flags of a hash\<close>

datatype flag_call = F_set u32 | F_clear u32

fun flag_new :: "flag_call \<Rightarrow> u32 \<Rightarrow> u32" where
  "flag_new (F_set i) expected = expected OR i"
| "flag_new (F_clear i) expected = (expected OR i) XOR i"

text \<open>\<open>setFlags\<close> and \<open>clearFlags\<close>: the load of \<^verbatim>\<open>expected\<close>, then the exchange until it succeeds.\<close>

datatype flag_pc = FP_idle | FP_load flag_call | FP_cas flag_call u32

record flag_conc =
  fc_flags :: u32
  fc_pc :: "nat \<Rightarrow> flag_pc"
  fc_done :: "flag_call list"

definition flag_access :: "nat \<Rightarrow> flag_conc \<Rightarrow> flag_conc" where
  "flag_access t s =
     (case fc_pc s t of
        FP_idle \<Rightarrow> s
      | FP_load c \<Rightarrow> s\<lparr>fc_pc := (fc_pc s)(t := FP_cas c (fc_flags s))\<rparr>
      | FP_cas c expected \<Rightarrow>
          (case aptr_compare_exchange_strong expected (flag_new c expected) (fc_flags s) of
             (True, e, x) \<Rightarrow> s\<lparr>fc_flags := x, fc_pc := (fc_pc s)(t := FP_idle), fc_done := fc_done s @ [c]\<rparr>
           | (False, e, x) \<Rightarrow> s\<lparr>fc_flags := x, fc_pc := (fc_pc s)(t := FP_cas c e)\<rparr>))"

inductive flag_step :: "flag_conc \<Rightarrow> flag_conc \<Rightarrow> bool" where
  call: "fc_pc s t = FP_idle \<Longrightarrow> flag_step s (s\<lparr>fc_pc := (fc_pc s)(t := FP_load c)\<rparr>)"
| access: "flag_step s (flag_access t s)"

inductive flag_reach :: "flag_conc \<Rightarrow> flag_conc \<Rightarrow> bool" where
  none: "flag_reach s s"
| more: "flag_reach s u \<Longrightarrow> flag_step u v \<Longrightarrow> flag_reach s v"

definition flag_start :: "u32 \<Rightarrow> flag_conc" where
  "flag_start x = \<lparr>fc_flags = x, fc_pc = (\<lambda>_. FP_idle), fc_done = []\<rparr>"

lemma flag_access_flags:
  "fc_flags s = fold flag_new (fc_done s) x \<Longrightarrow>
     fc_flags (flag_access t s) = fold flag_new (fc_done (flag_access t s)) x"
  by (simp add: flag_access_def aptr_compare_exchange_strong_def split: flag_pc.splits)

text \<open>
  No change of the flags is lost: under every interleaving of calls of \<open>setFlags\<close> and \<open>clearFlags\<close> the flags are what the
  calls that have returned make of them one after the other, in the order in which their exchanges succeeded.
\<close>

theorem flags_linearize:
  assumes "flag_reach (flag_start x) s"
  shows "fc_flags s = fold flag_new (fc_done s) x"
  using assms
proof (induction "flag_start x" s rule: flag_reach.induct)
  case none
  then show ?case by (simp add: flag_start_def)
next
  case (more u v)
  from more(3,2) show ?case by (cases rule: flag_step.cases) (simp_all add: flag_access_flags)
qed

text \<open>What the two calls do to one flag.\<close>

lemma flag_set_clear:
  "bit (flag_new (F_set i) x) n \<longleftrightarrow> bit x n \<or> bit i n"
  "bit (flag_new (F_clear i) x) n \<longleftrightarrow> bit x n \<and> \<not> bit i n"
  by (auto simp: bit_or_iff bit_xor_iff)

text \<open>A flag that is set and never cleared stays, whatever the other threads do.\<close>

theorem flag_set_stays:
  assumes "flag_reach (flag_start x) s" "F_set i \<in> set (fc_done s)" "bit i n"
    and "\<forall>c \<in> set (fc_done s). case c of F_clear j \<Rightarrow> \<not> bit j n | F_set j \<Rightarrow> True"
  shows "bit (fc_flags s) n"
proof -
  have "bit (fold flag_new cs y) n"
    if "F_set i \<in> set cs \<or> bit y n" "\<forall>c \<in> set cs. case c of F_clear j \<Rightarrow> \<not> bit j n | F_set j \<Rightarrow> True" for cs y
    using that
  proof (induction cs arbitrary: y)
    case (Cons c cs)
    have "F_set i \<in> set cs \<or> bit (flag_new c y) n"
      using Cons.prems assms(3) by (cases c) (auto simp: flag_set_clear simp del: flag_new.simps)
    with Cons show ?case by simp
  qed simp
  then show ?thesis using flags_linearize [OF assms(1)] assms(2,4) by simp
qed

text \<open>
  A call that no other thread disturbs sets or clears the flags as \<open>Bucket\<close> has it, in one step for the whole loop.
\<close>

lemma flags_alone:
  "\<exists>x. ac.spin 2 (flag_new (F_set f)) e (h_flags h) = Some x \<and> h_flags (hash_setFlags f h) = x"
  "\<exists>x. ac.spin 2 (flag_new (F_clear f)) e (h_flags h) = Some x \<and> h_flags (hash_clearFlags f h) = x"
  using ac.spin_alone [of 0 "flag_new (F_set f)" e "h_flags h"] ac.spin_alone [of 0 "flag_new (F_clear f)" e "h_flags h"]
  by (auto simp: numeral_2_eq_2 hash_setFlags_def hash_clearFlags_def)

end
