(* ===== verification/Lock_File.thy ===== *)
theory Lock_File
  imports Prelude
begin

text \<open>
  The lock file \<^verbatim>\<open>._lock\<close> of a storage directory
  (\<^verbatim>\<open>src/src/modules/filesystem/storage.cpp\<close>, \<open>initStorage\<close> and the destructor), with any
  number of processes that start on the same directory. The file system of the host is a parameter
  only in so far as the creation of the file may fail, which \<open>initStorage\<close> does not look at.
\<close>

section \<open>State and steps\<close>

text \<open>
  Where a process is: in the loop that waits for the file to vanish, with the number of its \<^verbatim>\<open>waits\<close>,
  before \<^verbatim>\<open>putSystemString\<close>, at work, ended by the destructor, or gone without it.
\<close>

datatype lock_pc = LK_check nat | LK_create | LK_run | LK_gone | LK_dead

record lock_conc =
  lk_file :: bool
  lk_pc :: "nat \<Rightarrow> lock_pc"

definition lock_go :: "nat \<Rightarrow> lock_pc \<Rightarrow> lock_conc \<Rightarrow> lock_conc" where
  "lock_go p q s = s\<lparr>lk_pc := (lk_pc s)(p := q)\<rparr>"

definition lock_check :: "nat \<Rightarrow> nat \<Rightarrow> lock_conc \<Rightarrow> lock_conc" where
  "lock_check p waits s = lock_go p (if lk_file s then LK_check (Suc waits) else LK_create) s"

definition lock_create :: "bool \<Rightarrow> nat \<Rightarrow> lock_conc \<Rightarrow> lock_conc" where
  "lock_create written p s = lock_go p LK_run (if written then s\<lparr>lk_file := True\<rparr> else s)"

definition lock_exit :: "nat \<Rightarrow> lock_conc \<Rightarrow> lock_conc" where
  "lock_exit p s = lock_go p LK_gone (s\<lparr>lk_file := False\<rparr>)"

lemmas lock_defs = lock_go_def lock_check_def lock_create_def lock_exit_def

text \<open>\<open>W\<close> tells whether the host writes the file of a process.\<close>

inductive lock_step :: "(nat \<Rightarrow> bool) \<Rightarrow> lock_conc \<Rightarrow> lock_conc \<Rightarrow> bool" for W where
  check: "lk_pc s p = LK_check n \<Longrightarrow> lock_step W s (lock_check p n s)"
| create: "lk_pc s p = LK_create \<Longrightarrow> lock_step W s (lock_create (W p) p s)"
| leave: "lk_pc s p = LK_run \<Longrightarrow> lock_step W s (lock_exit p s)"
| crash: "lk_pc s p \<in> {LK_create, LK_run} \<or> (\<exists>n. lk_pc s p = LK_check n) \<Longrightarrow> lock_step W s (lock_go p LK_dead s)"

inductive lock_reach :: "(nat \<Rightarrow> bool) \<Rightarrow> lock_conc \<Rightarrow> lock_conc \<Rightarrow> bool" for W where
  none: "lock_reach W s s"
| more: "lock_reach W s u \<Longrightarrow> lock_step W u v \<Longrightarrow> lock_reach W s v"

definition lock_start :: lock_conc where
  "lock_start = \<lparr>lk_file = False, lk_pc = (\<lambda>_. LK_check 0)\<rparr>"

section \<open>What the file does and does not do\<close>

definition lock_active :: "lock_conc \<Rightarrow> nat \<Rightarrow> bool" where
  "lock_active s p \<longleftrightarrow> lk_pc s p = LK_create \<or> lk_pc s p = LK_run"

text \<open>
  A stale file: with the file there and nobody at work, as a crash leaves it, every later process waits for ever; it
  takes somebody to remove the file, as the warning of the loop says.
\<close>

theorem lock_stale_blocks:
  assumes "lock_reach W s u" "lk_file s" "\<forall>p. \<not> lock_active s p"
  shows "lk_file u \<and> (\<forall>p. \<not> lock_active u p)"
  using assms
proof (induction s u rule: lock_reach.induct)
  case (more s u v)
  then have I: "lk_file u" "\<forall>p. lk_pc u p \<noteq> LK_create \<and> lk_pc u p \<noteq> LK_run" by (simp_all add: lock_active_def)
  from more.hyps(2) show ?case
    by (cases rule: lock_step.cases) (use I in \<open>auto simp: lock_defs lock_active_def\<close>)
qed simp

text \<open>
  When no process comes to the file while another is between its check and the creation of the file, and the host writes
  the files, at most one process is at work at any time.
\<close>

inductive lock_serial :: "(nat \<Rightarrow> bool) \<Rightarrow> lock_conc \<Rightarrow> lock_conc \<Rightarrow> bool" for W where
  none: "lock_serial W s s"
| more: "lock_serial W s u \<Longrightarrow> lock_step W u v \<Longrightarrow>
    (\<forall>p. lk_pc u p = LK_create \<longrightarrow> v = lock_create (W p) p u \<or> v = lock_go p LK_dead u) \<Longrightarrow> lock_serial W s v"

definition lock_excl :: "lock_conc \<Rightarrow> bool" where
  "lock_excl s \<longleftrightarrow> (\<forall>p q. lock_active s p \<longrightarrow> lock_active s q \<longrightarrow> p = q) \<and>
     (\<forall>p. lk_pc s p = LK_run \<longrightarrow> lk_file s)"

lemma lock_excl_step:
  assumes "lock_excl u" "lock_step W u v" "\<forall>p. W p"
    and "\<forall>p. lk_pc u p = LK_create \<longrightarrow> v = lock_create (W p) p u \<or> v = lock_go p LK_dead u"
  shows "lock_excl v"
  using assms(2)
proof (cases rule: lock_step.cases)
  case (check p n)
  have "\<not> lock_active u q" if "\<not> lk_file u" for q
  proof
    assume "lock_active u q"
    then consider "lk_pc u q = LK_create" | "lk_pc u q = LK_run" by (auto simp: lock_active_def)
    then show False
    proof cases
      case 1
      then have "v = lock_create (W q) q u \<or> v = lock_go q LK_dead u" using assms(4) by blast
      then have "lk_pc v p = lk_pc u p \<or> p = q" by (auto simp: lock_defs)
      moreover have "lk_pc v p = LK_create" using check that by (simp add: lock_defs)
      ultimately show False using check(2) 1 by auto
    next
      case 2
      then show False using assms(1) that by (auto simp: lock_excl_def)
    qed
  qed
  then show ?thesis
    using assms(1) check by (cases "lk_file u") (auto simp: lock_excl_def lock_active_def lock_defs)
next
  case (create p)
  then show ?thesis
    using assms(1,3) by (auto simp: lock_excl_def lock_active_def lock_defs)
next
  case (leave p)
  then show ?thesis
    using assms(1) by (auto simp: lock_excl_def lock_active_def lock_defs)
next
  case (crash p)
  then show ?thesis
    using assms(1) by (auto simp: lock_excl_def lock_active_def lock_defs)
qed

theorem lock_serial_excludes:
  assumes "lock_serial W lock_start s" "\<forall>p. W p"
  shows "lock_excl s"
  using assms(1)
proof (induction lock_start s rule: lock_serial.induct)
  case none
  then show ?case by (simp add: lock_excl_def lock_active_def lock_start_def)
next
  case (more u v)
  then show ?case using lock_excl_step assms(2) by blast
qed

text \<open>
  The check and the creation are two calls of the host: two processes that both check before either creates the file work on
  the same directory, and the first that ends removes the file of the other, so that a third starts as well.
\<close>

theorem lock_file_race:
  "\<exists>s. lock_reach (\<lambda>_. True) lock_start s \<and> lk_pc s 0 = LK_gone \<and> lk_pc s 1 = LK_run \<and> lk_pc s 2 = LK_run"
proof -
  define a where "a = lock_create True 1 (lock_create True 0 (lock_check 1 0 (lock_check 0 0 lock_start)))"
  define b where "b = lock_create True 2 (lock_check 2 0 (lock_exit 0 a))"
  note defs = lock_defs lock_start_def
  have "lock_reach (\<lambda>_. True) lock_start (lock_check 0 0 lock_start)"
    by (rule lock_reach.more [OF lock_reach.none lock_step.check]) (simp add: defs)
  then have "lock_reach (\<lambda>_. True) lock_start (lock_check 1 0 (lock_check 0 0 lock_start))"
    by (rule lock_reach.more [OF _ lock_step.check]) (simp add: defs)
  then have "lock_reach (\<lambda>_. True) lock_start (lock_create True 0 (lock_check 1 0 (lock_check 0 0 lock_start)))"
    by (rule lock_reach.more [OF _ lock_step.create]) (simp add: defs)
  then have "lock_reach (\<lambda>_. True) lock_start a"
    unfolding a_def by (rule lock_reach.more [OF _ lock_step.create]) (simp add: defs)
  then have "lock_reach (\<lambda>_. True) lock_start (lock_exit 0 a)"
    by (rule lock_reach.more [OF _ lock_step.leave]) (simp add: a_def defs)
  then have "lock_reach (\<lambda>_. True) lock_start (lock_check 2 0 (lock_exit 0 a))"
    by (rule lock_reach.more [OF _ lock_step.check]) (simp add: a_def defs)
  then have "lock_reach (\<lambda>_. True) lock_start b"
    unfolding b_def by (rule lock_reach.more [OF _ lock_step.create]) (simp add: a_def defs)
  then show ?thesis by (intro exI [of _ b]) (simp add: b_def a_def defs)
qed

end
