(* ===== verification/Build_String.thy ===== *)
theory Build_String
  imports Journal Fs_Info "HOL-Library.Word"
begin

text \<open>
  Texts from pieces (\<^verbatim>\<open>src/src/modules/util/to_string.h\<close>, \<^verbatim>\<open>to_string.cpp\<close>,
  \<^verbatim>\<open>buildstring.h\<close>, \<^verbatim>\<open>buildstring.cpp\<close>) and the string hash of
  \<^verbatim>\<open>switchhash.h\<close>. A piece is a C string, a \<^verbatim>\<open>str\<close>, a value of an integral type or an
  object with a \<^verbatim>\<open>toString\<close>; floating point pieces are not modelled.
\<close>

unbundle bit_operations_syntax

section \<open>to_string and BUILDSTRING\<close>

datatype 'a build_arg = B_cstr string | B_str string | B_int int | B_obj 'a

text \<open>A C string ends at its first NUL, and so does the text of a number that goes through \<^verbatim>\<open>c_str()\<close>.\<close>

definition c_string :: "string \<Rightarrow> string" where
  "c_string s = takeWhile (\<lambda>c. c \<noteq> CHR 0x00) s"

fun util_to_string :: "('a \<Rightarrow> string) \<Rightarrow> 'a build_arg \<Rightarrow> string" where
  "util_to_string toString (B_cstr s) = c_string s"
| "util_to_string toString (B_str s) = s"
| "util_to_string toString (B_int i) = c_string (int_to_string i)"
| "util_to_string toString (B_obj x) = toString x"

fun BUILDSTRING :: "('a \<Rightarrow> string) \<Rightarrow> 'a build_arg list \<Rightarrow> string" where
  "BUILDSTRING toString [] = []"
| "BUILDSTRING toString (v # vs) = util_to_string toString v @ BUILDSTRING toString vs"

lemma BUILDSTRING_append: "BUILDSTRING f (xs @ ys) = BUILDSTRING f xs @ BUILDSTRING f ys"
  by (induction xs) simp_all

lemma BUILDSTRING_concat: "BUILDSTRING f vs = concat (map (util_to_string f) vs)"
  by (induction vs) simp_all

lemma c_string_id: "CHR 0x00 \<notin> set s \<Longrightarrow> c_string s = s"
  unfolding c_string_def by (rule takeWhile_eq_all_conv [THEN iffD2]) auto

lemma int_to_string_no_nul: "CHR 0x00 \<notin> set (int_to_string i)"
  using nat_to_string_digits [of "CHR 0x00"] by (auto simp: int_to_string_def c_isdigit_def)

lemma util_to_string_int [simp]: "util_to_string f (B_int i) = int_to_string i"
  by (simp add: c_string_id int_to_string_no_nul)

declare util_to_string.simps(3) [simp del]

lemma int_to_string_nat: "int_to_string (int n) = nat_to_string n"
  by (simp add: int_to_string_def)

text \<open>The lines of the statistics and the names of the journal files are built from such pieces.\<close>

lemma build_line_BUILDSTRING: "build_line parts = BUILDSTRING f (map B_str parts @ [B_cstr [CHR 0x0A]])"
proof -
  have "map (util_to_string f \<circ> B_str) parts = parts" by (rule map_idI) simp
  then show ?thesis by (simp add: BUILDSTRING_concat build_line_def c_string_def)
qed

definition journal_file_name :: "string \<Rightarrow> nat \<Rightarrow> string" where
  "journal_file_name path nextid = BUILDSTRING id [B_str path, B_cstr ''journal/.'', B_int (int nextid)]"

lemma journal_file_name_eq: "journal_file_name path n = path @ ''journal/.'' @ nat_to_string n"
  unfolding journal_file_name_def by (simp add: c_string_def int_to_string_nat)

text \<open>Journal files with different numbers have different names.\<close>

theorem journal_file_name_inj: "journal_file_name path m = journal_file_name path n \<longleftrightarrow> m = n"
proof
  assume "journal_file_name path m = journal_file_name path n"
  then have "nat_to_string m = nat_to_string n" by (simp add: journal_file_name_eq)
  then show "m = n" by (metis digits_value_nat)
qed simp

lemma new_current_name:
  "new_current J t = bindS next_id (\<lambda>n. bindS (journalFile_new J (journal_file_name (jv_path J) n)) (\<lambda>i.
     bindS (modifyS (\<lambda>s. s\<lparr>js_current := (js_current s)(t \<mapsto> i)\<rparr>)) (\<lambda>_. returnS i)))"
  by (simp add: new_current_def journal_file_name_eq)

section \<open>switchhash.h\<close>

text \<open>Characters are signed on the platforms of the program: a byte is extended by its sign before it is mixed in.\<close>

definition hash_prime :: u32 where "hash_prime = 16777619"
definition hash_basis :: u32 where "hash_basis = 2166136261"

definition char_bits :: "char \<Rightarrow> u32" where
  "char_bits c = signed_take_bit 7 (of_char c)"

fun hash_compile_time :: "string \<Rightarrow> u32 \<Rightarrow> u32" where
  "hash_compile_time [] last_value = last_value"
| "hash_compile_time (c # cs) last_value =
     (if c = CHR 0x00 then last_value
      else hash_compile_time cs ((char_bits c XOR last_value) * hash_prime))"

definition hsh :: "string \<Rightarrow> u32" where
  "hsh istr = fold (\<lambda>i ret. (ret XOR char_bits i) * hash_prime) istr hash_basis"

text \<open>\<^verbatim>\<open>operator "" _hsh\<close> does not look at the length that the compiler passes.\<close>

definition literal_hsh :: "string \<Rightarrow> nat \<Rightarrow> u32" where
  "literal_hsh p len = hash_compile_time p hash_basis"

lemma hash_compile_time_fold:
  "hash_compile_time s v = fold (\<lambda>i ret. (ret XOR char_bits i) * hash_prime) (c_string s) v"
  by (induction s arbitrary: v) (simp_all add: c_string_def ac_simps)

text \<open>
  A literal and a string with the same characters have the same hash, so that a \<^verbatim>\<open>switch\<close> over them takes the
  intended case, exactly as far as the first NUL of the literal.
\<close>

theorem literal_hsh_agrees: "literal_hsh s n = hsh (c_string s)"
  by (simp add: literal_hsh_def hsh_def hash_compile_time_fold)

theorem literal_hsh_string: "CHR 0x00 \<notin> set s \<Longrightarrow> literal_hsh s n = hsh s"
  by (simp add: literal_hsh_agrees c_string_id)

lemma hsh_append: "hsh (s @ [c]) = (hsh s XOR char_bits c) * hash_prime"
  by (simp add: hsh_def)

text \<open>Two strings that differ in their last character only have different hashes.\<close>

lemma char_bits_inj: "char_bits c = char_bits d \<longleftrightarrow> c = d"
proof
  assume eq: "char_bits c = char_bits d"
  have n: "take_bit 8 (char_bits x) = (word_of_nat (of_char x) :: u32)" for x
  proof -
    have "take_bit 8 (char_bits x) = take_bit 8 (of_char x :: u32)"
      by (simp add: char_bits_def take_bit_signed_take_bit)
    also have "(of_char x :: u32) = word_of_nat (of_char x)" by (simp add: of_nat_of_char)
    also have "take_bit 8 (word_of_nat (of_char x) :: u32) = word_of_nat (take_bit 8 (of_char x))"
      by (rule bit_word_eqI) (auto simp: bit_simps)
    also have "take_bit 8 (of_char x :: nat) = of_char x"
      using nat_of_char_less_256 [of x] by (simp add: take_bit_nat_eq_self)
    finally show ?thesis .
  qed
  have "(word_of_nat (of_char c) :: u32) = word_of_nat (of_char d)" using n [of c] n [of d] eq by simp
  then have "take_bit 32 (of_char c :: nat) = take_bit 32 (of_char d)" by (simp add: word_of_nat_eq_iff)
  then have "(of_char c :: nat) = of_char d"
    using nat_of_char_less_256 [of c] nat_of_char_less_256 [of d] by (simp add: take_bit_nat_eq_self)
  then show "c = d" by simp
qed simp

lemma hash_prime_inverse: "hash_prime * 899433627 = 1"
  by (simp add: hash_prime_def)

theorem hsh_last: "hsh (s @ [c]) = hsh (s @ [d]) \<longleftrightarrow> c = d"
proof
  assume "hsh (s @ [c]) = hsh (s @ [d])"
  then have "(hsh s XOR char_bits c) * (hash_prime * 899433627) = (hsh s XOR char_bits d) * (hash_prime * 899433627)"
    by (simp add: hsh_append mult.assoc [symmetric])
  then have "hsh s XOR (hsh s XOR char_bits c) = hsh s XOR (hsh s XOR char_bits d)"
    unfolding hash_prime_inverse by simp
  then show "c = d" by (simp add: xor.assoc [symmetric] char_bits_inj)
qed simp

end
