(* ===== verification/Meta_Buckets.thy ===== *)
theory Meta_Buckets
  imports Inode_Layout Storage_Inv Protocol_Props
begin

text \<open>
  The meta buckets with their files: \<^verbatim>\<open>STOR->metaBuckets\<close> of \<^verbatim>\<open>storage.cpp\<close>. Theory
  \<open>Bucket\<close> holds the chunks of a bucket by value, which is enough for file data: a data chunk is never
  changed once it is in its slot. A metadata chunk is changed in place through
  \<^verbatim>\<open>chunk::as<T>()\<close> while its bucket points at it, so that the slots of a meta bucket are addresses of
  cells of 4096 bytes here. The operations that only read the bytes are those of theory \<open>Bucket\<close>, run on what the
  bucket shows.
\<close>

section \<open>A bucket of shared chunks (bucket.cpp)\<close>

type_synonym addr = nat

record mbucket =
  mb_base :: string
  mb_cells :: "addr list option"
  mb_hashes :: "hid option list option"
  mb_changes :: "nat list option"
  mb_chunkChanges :: nat
  mb_hashChanges :: nat

type_synonym 'a mb_op = "(mbucket \<times> chunk list \<times> bio, 'a) op"

definition mbucket_new :: "string \<Rightarrow> mbucket" where
  "mbucket_new file =
     \<lparr>mb_base = file, mb_cells = None, mb_hashes = None, mb_changes = None, mb_chunkChanges = 0, mb_hashChanges = 0\<rparr>"

text \<open>The bucket with the present bytes of its chunks.\<close>

definition mb_view :: "chunk list \<Rightarrow> mbucket \<Rightarrow> bucket" where
  "mb_view cs b =
     \<lparr>b_base = mb_base b, b_chunks = map_option (map (\<lambda>p. cs ! p)) (mb_cells b), b_hashes = mb_hashes b,
      b_changes = mb_changes b, b_chunkChanges = mb_chunkChanges b, b_hashChanges = mb_hashChanges b\<rparr>"

text \<open>
  What an operation leaves behind that puts no chunk into a slot: it may drop the array of chunks, but
  an array that stays points at the same cells.
\<close>

definition mb_after :: "mbucket \<Rightarrow> bucket \<Rightarrow> mbucket" where
  "mb_after b v =
     b\<lparr>mb_cells := (if b_chunks v = None then None else mb_cells b), mb_hashes := b_hashes v,
       mb_changes := b_changes v, mb_chunkChanges := b_chunkChanges v, mb_hashChanges := b_hashChanges v\<rparr>"

definition mb_plain :: "'a bucket_op \<Rightarrow> 'a mb_op" where
  "mb_plain m =
     zoomS (\<lambda>(b, cs, io). (mb_view cs b, io)) (\<lambda>(v, io') (b, cs, io). (mb_after b v, cs, io')) m"

definition on_mb :: "(mbucket \<Rightarrow> mbucket) \<Rightarrow> unit mb_op" where
  "on_mb f = modifyS (\<lambda>(b, cs, io). (f b, cs, io))"

text \<open>\<^verbatim>\<open>make_shared<chunk>\<close> with the given bytes.\<close>

definition cell_new :: "chunk \<Rightarrow> addr mb_op" where
  "cell_new c = (\<lambda>(b, cs, io). Inr (length cs, (b, cs @ [c], io)))"

text \<open>Loading makes a chunk object for each of the 256 blocks of the file.\<close>

definition mb_make_cells :: "chunk list \<Rightarrow> addr list mb_op" where
  "mb_make_cells C = (\<lambda>(b, cs, io).
     let A = [length cs..<length cs + length C] in Inr (A, (b\<lparr>mb_cells := Some A\<rparr>, cs @ C, io)))"

definition mb_loadChunks :: "env \<Rightarrow> addr list mb_op" where
  "mb_loadChunks E =
     bindS (getS (\<lambda>(b, cs, io). mb_cells b)) (\<lambda>OC.
     case OC of Some A \<Rightarrow> returnS A
     | None \<Rightarrow> bindS (mb_plain (loadChunks E)) mb_make_cells)"

definition mb_loadHashes :: "env \<Rightarrow> (hid option list) mb_op" where
  "mb_loadHashes E = mb_plain (loadHashes E)"

definition mb_getChunk :: "env \<Rightarrow> nat \<Rightarrow> addr mb_op" where
  "mb_getChunk E i = bindS (mb_loadChunks E) (\<lambda>A. liftS (array_at A i))"

definition mb_getHash :: "env \<Rightarrow> nat \<Rightarrow> (hid option) mb_op" where
  "mb_getHash E i = mb_plain (bucket_getHash E i)"

definition mb_putHashAndChunk :: "env \<Rightarrow> nat \<Rightarrow> hid option \<Rightarrow> addr \<Rightarrow> unit mb_op" where
  "mb_putHashAndChunk E i h p =
     bindS (mb_loadHashes E) (\<lambda>H.
     bindS (mb_loadChunks E) (\<lambda>A.
     bindS (on_mb (\<lambda>b. b\<lparr>mb_chunkChanges := Suc (mb_chunkChanges b), mb_hashChanges := Suc (mb_hashChanges b)\<rparr>)) (\<lambda>_.
     bindS (liftS (array_at H i)) (\<lambda>_.
     bindS (on_mb (\<lambda>b. b\<lparr>mb_hashes := Some (H[i := h])\<rparr>)) (\<lambda>_.
     bindS (liftS (array_at A i)) (\<lambda>_.
     on_mb (\<lambda>b. b\<lparr>mb_cells := Some (A[i := p])\<rparr>)))))))"

definition mb_clearHashAndChunk :: "env \<Rightarrow> nat \<Rightarrow> unit mb_op" where
  "mb_clearHashAndChunk E i = bindS (cell_new zero_chunk) (mb_putHashAndChunk E i None)"

text \<open>The sum of a metadata chunk is the one of its bytes at this moment.\<close>

definition meta_hash_new :: "env \<Rightarrow> bucketIndex_t \<Rightarrow> int \<Rightarrow> addr \<Rightarrow> hid mb_op" where
  "meta_hash_new E idx r p =
     (\<lambda>(b, cs, io). let (h, io') = io_alloc
        \<lparr>h_hsh = e_sha E (cs ! p), h_bucketIndex = idx, h_refcnt = r, h_data = None,
         h_flags = FLAG_NOAUTOSTORE OR FLAG_NOAUTOLOAD\<rparr> io in Inr (h, (b, cs, io')))"

definition mb_putHashedChunk :: "env \<Rightarrow> bucketIndex_t \<Rightarrow> int \<Rightarrow> addr \<Rightarrow> unit mb_op" where
  "mb_putHashedChunk E idx r p =
     bindS (meta_hash_new E idx r p) (\<lambda>h. mb_putHashAndChunk E (index_of idx) (Some h) p)"

definition mb_store :: "env \<Rightarrow> unit mb_op" where
  "mb_store E = mb_plain (bucket_store E False)"

definition mb_destroy :: "env \<Rightarrow> unit mb_op" where
  "mb_destroy E = mb_plain (bucket_destroy E)"

definition mb_del :: "unit mb_op" where
  "mb_del = mb_plain bucket_del"

definition mb_addChange :: "env \<Rightarrow> nat option \<Rightarrow> unit mb_op" where
  "mb_addChange E je = mb_plain (bucket_addChange E je)"

definition mb_migrateTo :: "env \<Rightarrow> mbucket \<Rightarrow> mbucket mb_op" where
  "mb_migrateTo E target =
     bindS (on_mb (\<lambda>b. b\<lparr>mb_hashChanges := 0, mb_chunkChanges := 0\<rparr>)) (\<lambda>_.
     bindS (mb_loadChunks E) (\<lambda>A.
     bindS (mb_loadHashes E) (\<lambda>H.
     bindS (on_mb (\<lambda>b. b\<lparr>mb_cells := None, mb_hashes := None\<rparr>)) (\<lambda>_.
     returnS (target\<lparr>mb_cells := Some A, mb_hashes := Some H, mb_hashChanges := 1000, mb_chunkChanges := 1000\<rparr>)))))"

section \<open>The table of meta buckets (bucketInfo)\<close>

record mstore =
  ms_cells :: "chunk list"
  ms_io :: bio
  ms_loaded :: "(nat, mbucket) umap"

type_synonym 'a ms_op = "(mstore, 'a) op"

definition ms_getBucket :: "env \<Rightarrow> nat \<Rightarrow> mbucket ms_op" where
  "ms_getBucket E k =
     bindS (getS (\<lambda>s. umap_get (ms_loaded s) k)) (\<lambda>it.
     case it of Some b \<Rightarrow> returnS b
     | None \<Rightarrow>
       bindS (modifyS (\<lambda>s. s\<lparr>ms_loaded :=
         umap_insert (ms_loaded s) k (mbucket_new (getBucketFilename E k))\<rparr>)) (\<lambda>_.
       returnS (mbucket_new (getBucketFilename E k))))"

definition inMeta :: "env \<Rightarrow> nat \<Rightarrow> 'a mb_op \<Rightarrow> 'a ms_op" where
  "inMeta E k m =
     bindS (ms_getBucket E k) (\<lambda>b.
     zoomS (\<lambda>s. (b, ms_cells s, ms_io s))
       (\<lambda>(b', cs', io') s. s\<lparr>ms_loaded := umap_insert (ms_loaded s) k b', ms_cells := cs', ms_io := io'\<rparr>) m)"

definition ms_getChunk :: "env \<Rightarrow> bucketIndex_t \<Rightarrow> addr ms_op" where
  "ms_getChunk E i = inMeta E (bucket_of i) (mb_getChunk E (index_of i))"

definition ms_getHash :: "env \<Rightarrow> bucketIndex_t \<Rightarrow> (hid option) ms_op" where
  "ms_getHash E i = inMeta E (bucket_of i) (mb_getHash E (index_of i))"

text \<open>Erasing the entry of the table runs the destructor of the bucket.\<close>

definition ms_removeBucket :: "env \<Rightarrow> nat \<Rightarrow> unit ms_op" where
  "ms_removeBucket E k =
     bindS (getS (\<lambda>s. umap_get (ms_loaded s) k)) (\<lambda>it.
     bindS (modifyS (\<lambda>s. s\<lparr>ms_loaded := snd (umap_erase (ms_loaded s) k)\<rparr>)) (\<lambda>_.
     case it of None \<Rightarrow> returnS ()
     | Some b \<Rightarrow>
         zoomS (\<lambda>s. (b, ms_cells s, ms_io s)) (\<lambda>(_, cs', io') s. s\<lparr>ms_cells := cs', ms_io := io'\<rparr>) (mb_destroy E)))"

text \<open>The half of \<^verbatim>\<open>storeAllData\<close> for the meta buckets, which keeps everything in memory.\<close>

definition ms_storeAll :: "env \<Rightarrow> unit ms_op" where
  "ms_storeAll E =
     bindS (getS (\<lambda>s. map fst (umap_clone (ms_loaded s)))) (\<lambda>ids. forS ids (\<lambda>k. inMeta E k (mb_store E)))"

text \<open>
  \<^verbatim>\<open>loadHashesFromBucket\<close> for a meta bucket: a slot is posted when it holds no hash or a chunk without a type. The third
  component counts the others.
\<close>

definition ms_load_slot :: "env \<Rightarrow> nat \<Rightarrow> nat \<Rightarrow> (mstore \<times> bucketIndex_t list \<times> nat, unit) op" where
  "ms_load_slot E k a =
     bindS (zoomS fst (\<lambda>s (_, p). (s, p)) (inMeta E k (mb_getHash E a))) (\<lambda>hsh.
     if hsh \<noteq> None then
       bindS (zoomS fst (\<lambda>s (_, p). (s, p)) (inMeta E k (mb_getChunk E a))) (\<lambda>c.
       bindS (getS (\<lambda>(s, p). le_at (ms_cells s ! c) 0 4)) (\<lambda>ty.
       if ty = 0 then modifyS (\<lambda>(s, p, n). (s, p @ [bucketIndex k a], n))
       else modifyS (\<lambda>(s, p, n). (s, p, Suc n))))
     else modifyS (\<lambda>(s, p, n). (s, p @ [bucketIndex k a], n)))"

definition ms_loadHashesFromBucket :: "env \<Rightarrow> nat \<Rightarrow> (mstore \<times> bucketIndex_t list \<times> nat, unit) op" where
  "ms_loadHashesFromBucket E k =
     catchS (forS [0..<chunksInBucket] (ms_load_slot E k)) (\<lambda>_. returnS ())"

text \<open>
  \<^verbatim>\<open>bucketInfo::clear\<close>: the hashes of every slot rest and the buckets are destroyed. The index of sums is always
  empty for meta buckets.
\<close>

definition mb_rest :: "hid \<Rightarrow> unit mb_op" where
  "mb_rest h = modifyS (\<lambda>(b, cs, io).
     (b, cs, if hash_isFlags (io_heap io ! h) FLAG_NOAUTOSTORE then io
             else io\<lparr>io_heap := (io_heap io)[h := (io_heap io ! h)\<lparr>h_data := None\<rparr>]\<rparr>))"

definition ms_rest_slots :: "env \<Rightarrow> nat \<Rightarrow> unit ms_op" where
  "ms_rest_slots E k =
     forS [0..<chunksInBucket] (\<lambda>a.
       inMeta E k (bindS (mb_getHash E a) (\<lambda>hsh. case hsh of None \<Rightarrow> returnS () | Some h \<Rightarrow> mb_rest h)))"

definition ms_clear :: "env \<Rightarrow> unit ms_op" where
  "ms_clear E =
     bindS (getS (\<lambda>s. map fst (umap_clone (ms_loaded s)))) (\<lambda>ids.
     bindS (forS ids (ms_rest_slots E)) (\<lambda>_. forS ids (ms_removeBucket E)))"

text \<open>\<^verbatim>\<open>storage::migrate\<close> for a meta bucket.\<close>

definition ms_migrate_bucket :: "env \<Rightarrow> env \<Rightarrow> nat \<Rightarrow> unit ms_op" where
  "ms_migrate_bucket E E' k =
     bindS (getS (\<lambda>s. umap_get (ms_loaded s) k)) (\<lambda>it.
     case it of None \<Rightarrow> returnS ()
     | Some b \<Rightarrow>
         bindS (inMeta E k (mb_migrateTo E (mbucket_new (getBucketFilename E' k)))) (\<lambda>nb.
         bindS (zoomS (\<lambda>s. (nb, ms_cells s, ms_io s)) (\<lambda>(_, cs', io') s. s\<lparr>ms_cells := cs', ms_io := io'\<rparr>)
           (bindS (mb_store E') (\<lambda>_. getS fst))) (\<lambda>nb'.
         bindS (inMeta E k mb_del) (\<lambda>_.
         modifyS (\<lambda>s. s\<lparr>ms_loaded := umap_insert (ms_loaded s) k nb'\<rparr>)))))"

definition ms_migrate :: "env \<Rightarrow> env \<Rightarrow> unit ms_op" where
  "ms_migrate E E' =
     bindS (getS (\<lambda>s. map fst (umap_clone (ms_loaded s)))) (\<lambda>ids. forS ids (ms_migrate_bucket E E'))"

text \<open>A process that starts on the files of another one: no bucket loaded, no chunk and no hash in memory.\<close>

definition ms_remount :: "mstore \<Rightarrow> mstore" where
  "ms_remount s = \<lparr>ms_cells = [], ms_io = (ms_io s)\<lparr>io_heap := []\<rparr>, ms_loaded = umap_empty\<rparr>"

section \<open>The environment of the meta buckets\<close>

text \<open>They are encrypted with the key of the pass phrase and have file names of their own.\<close>

definition meta_env :: "sodium \<Rightarrow> protocol \<Rightarrow> crypt \<Rightarrow> string \<Rightarrow> env" where
  "meta_env S p c path =
     (protocol_env S (p\<lparr>p_key := p_protokey p\<rparr>) c path)\<lparr>e_bucketName :=
       (\<lambda>n. case getMetaBucketFileName S p n c of Inr (s, _) \<Rightarrow> s | Inl _ \<Rightarrow> [])\<rparr>"

section \<open>Running\<close>

text \<open>The meta bucket that \<^verbatim>\<open>getBucket(k)\<close> would return.\<close>

definition mbk :: "env \<Rightarrow> mstore \<Rightarrow> nat \<Rightarrow> mbucket" where
  "mbk E s k = (case umap_get (ms_loaded s) k of Some b \<Rightarrow> b | None \<Rightarrow> mbucket_new (getBucketFilename E k))"

definition put_meta :: "nat \<Rightarrow> mbucket \<Rightarrow> chunk list \<Rightarrow> bio \<Rightarrow> mstore \<Rightarrow> mstore" where
  "put_meta k b cs io s = s\<lparr>ms_loaded := umap_insert (ms_loaded s) k b, ms_cells := cs, ms_io := io\<rparr>"

lemma put_meta_simps [simp]:
  "ms_io (put_meta k b cs io s) = io" "ms_cells (put_meta k b cs io s) = cs"
  "umap_get (ms_loaded (put_meta k b cs io s)) j = (if j = k then Some b else umap_get (ms_loaded s) j)"
  "mbk E (put_meta k b cs io s) j = (if j = k then b else mbk E s j)"
  by (simp_all add: put_meta_def mbk_def)

lemma wp_inMeta [simp, wp_simps]:
  "wpx A (inMeta E k m) Q =
     (\<lambda>s. wpx A m (\<lambda>x (b, cs, io). Q x (put_meta k b cs io s)) (mbk E s k, ms_cells s, ms_io s))"
  by (rule ext) (auto simp: inMeta_def ms_getBucket_def mbk_def put_meta_def split: option.splits
      intro: wp_mono)

lemma wp_mb_plain [simp, wp_simps]:
  "wpx A (mb_plain m) Q (b, cs, io) =
     wpx A m (\<lambda>x (v, io'). Q x (mb_after b v, cs, io')) (mb_view cs b, io)"
  by (simp add: mb_plain_def case_prod_unfold)

lemma wp_on_mb [simp, wp_simps]: "wpx A (on_mb f) Q (b, cs, io) = Q () (f b, cs, io)"
  by (simp add: on_mb_def)

lemma wp_cell_new [simp, wp_simps]: "wpx A (cell_new c) Q (b, cs, io) = Q (length cs) (b, cs @ [c], io)"
  by (simp add: wpx_def cell_new_def)

lemma wp_mb_make_cells [simp, wp_simps]:
  "wpx A (mb_make_cells C) Q (b, cs, io) =
     (let A = [length cs..<length cs + length C] in Q A (b\<lparr>mb_cells := Some A\<rparr>, cs @ C, io))"
  by (simp add: wpx_def mb_make_cells_def Let_def)

lemma wp_meta_hash_new [simp, wp_simps]:
  "wpx A (meta_hash_new E idx r p) Q (b, cs, io) =
     Q (length (io_heap io)) (b, cs, io\<lparr>io_heap := io_heap io @ [\<lparr>h_hsh = e_sha E (cs ! p), h_bucketIndex = idx,
       h_refcnt = r, h_data = None, h_flags = FLAG_NOAUTOSTORE OR FLAG_NOAUTOLOAD\<rparr>]\<rparr>)"
  by (simp add: wpx_def meta_hash_new_def io_alloc_def)

lemma mb_view_simps [simp]:
  "b_base (mb_view cs b) = mb_base b" "b_hashes (mb_view cs b) = mb_hashes b"
  "b_chunks (mb_view cs b) = map_option (map (\<lambda>p. cs ! p)) (mb_cells b)"
  "b_changes (mb_view cs b) = mb_changes b" "b_chunkChanges (mb_view cs b) = mb_chunkChanges b"
  "b_hashChanges (mb_view cs b) = mb_hashChanges b"
  "mb_view cs (mbucket_new f) = bucket_new f"
  by (simp_all add: mb_view_def mbucket_new_def bucket_new_def)

lemma mb_after_simps [simp]:
  "mb_base (mb_after b v) = mb_base b" "mb_hashes (mb_after b v) = b_hashes v"
  "mb_cells (mb_after b v) = (if b_chunks v = None then None else mb_cells b)"
  "mb_changes (mb_after b v) = b_changes v" "mb_chunkChanges (mb_after b v) = b_chunkChanges v"
  "mb_hashChanges (mb_after b v) = b_hashChanges v"
  by (simp_all add: mb_after_def)

end
