(* ===== verification/Meta_Sim.thy ===== *)
theory Meta_Sim
  imports Meta_Buckets
begin

text \<open>
  What the operations of a meta bucket do to the bytes and to the hashes that the bucket shows, from memory or from its
  files.
\<close>

section \<open>The hashes that a bucket shows\<close>

definition record_counts :: "byte list \<Rightarrow> bool" where
  "record_counts rec \<longleftrightarrow> (case deserializedHash rec of (i, r, s) \<Rightarrow> 0 < r)"

definition hash_shown :: "env \<Rightarrow> bucket \<Rightarrow> bio \<Rightarrow> nat \<Rightarrow> bool" where
  "hash_shown E b io j \<longleftrightarrow>
     (case b_hashes b of
        Some H \<Rightarrow> H ! j \<noteq> None
      | None \<Rightarrow> getSystemString io (myfilenamehsh b) \<noteq> [] \<and>
          (\<exists>x. decryptFile E (getSystemString io (myfilenamehsh b)) = Inr x \<and>
             record_counts (steps_of serializedHashSize chunksInBucket x ! j)))"

text \<open>A hash of a meta bucket: its record can be written and will be read as a hash again.\<close>

definition mhash_ok :: "bio \<Rightarrow> hid \<Rightarrow> bool" where
  "mhash_ok io h \<longleftrightarrow> h < length (io_heap io) \<and> storable_hash (io_heap io ! h) \<and> 0 < h_refcnt (io_heap io ! h)"

lemma mhash_ok_grows: "mhash_ok io h \<Longrightarrow> heap_grows io io' \<Longrightarrow> mhash_ok io' h"
  using heap_growsD(4,5) by (fastforce simp: mhash_ok_def)

lemma mhash_ok_sized: "(\<And>h. Some h \<in> set H \<Longrightarrow> mhash_ok io h) \<Longrightarrow> hashes_sized H io"
  by (auto simp: hashes_sized_def mhash_ok_def storable_hash_def)

lemma int64_of_bound: "n < 2 ^ 64 \<Longrightarrow> - (2 ^ 63) \<le> int64_of n \<and> int64_of n < 2 ^ 63"
  by (auto simp: int64_of_def)

lemma deserialized_storable:
  assumes "length rec = serializedHashSize" "deserializedHash rec = (i, r, s)"
  shows "storable_hash \<lparr>h_hsh = s, h_bucketIndex = i, h_refcnt = r, h_data = None, h_flags = 0\<rparr>"
proof -
  have "of_le (take 8 rec) < 2 ^ 64" "of_le (take 8 (drop 8 rec)) < 2 ^ 64"
    using of_le_less [of "take 8 rec"] of_le_less [of "take 8 (drop 8 rec)"] assms(1)
    by (simp_all add: serializedHashSize_def)
  then show ?thesis
    using assms int64_of_bound by (auto simp: storable_hash_def deserializedHash_def serializedHashSize_def)
qed

lemma load_hash_records_shown:
  assumes "load_hash_records recs io = (H, io')" "blocks_of serializedHashSize recs"
  shows "(\<forall>j < length recs. (H ! j \<noteq> None) = record_counts (recs ! j)) \<and> (\<forall>h. Some h \<in> set H \<longrightarrow> mhash_ok io' h)"
  using assms
proof (induction recs arbitrary: io H io')
  case (Cons rec recs)
  obtain i r s where d: "deserializedHash rec = (i, r, s)" using prod_cases3 by blast
  let ?o = "\<lparr>h_hsh = s, h_bucketIndex = i, h_refcnt = r, h_data = None, h_flags = 0\<rparr>"
  have bl: "blocks_of serializedHashSize recs" "length rec = serializedHashSize"
    using Cons.prems(2) by (simp_all add: blocks_of_def)
  show ?case
  proof (cases "0 < r")
    case True
    obtain h1 io1 where al: "io_alloc ?o io = (h1, io1)" by fastforce
    obtain hs io2 where r2: "load_hash_records recs io1 = (hs, io2)" by fastforce
    have eq: "H = Some h1 # hs" "io' = io2" using Cons.prems(1) True d al r2 by simp_all
    have "mhash_ok io1 h1"
      using al True deserialized_storable [OF bl(2) d] by (auto simp: mhash_ok_def io_alloc_def)
    moreover have "heap_grows io1 io2" using load_hash_records_grows [OF r2] by simp
    ultimately have "mhash_ok io2 h1" by (rule mhash_ok_grows)
    with Cons.IH [OF r2 bl(1)] eq True d show ?thesis
      by (auto simp: nth_Cons' record_counts_def split: nat.splits)
  next
    case False
    obtain hs io2 where r2: "load_hash_records recs io = (hs, io2)" by fastforce
    have eq: "H = None # hs" "io' = io2" using Cons.prems(1) False d r2 by simp_all
    with Cons.IH [OF r2 bl(1)] False d show ?thesis by (auto simp: nth_Cons' record_counts_def)
  qed
qed simp

lemma wp_loadHashes_shown:
  assumes ok: "hashes_loadable E b io"
    and H0: "\<And>H h. b_hashes b = Some H \<Longrightarrow> Some h \<in> set H \<Longrightarrow> mhash_ok io h"
  shows "wp (loadHashes E) (\<lambda>H (b', io'). heap_grows io io' \<and> length H = chunksInBucket \<and>
    (\<forall>j < chunksInBucket. (H ! j \<noteq> None) = hash_shown E b io j) \<and> (\<forall>h. Some h \<in> set H \<longrightarrow> mhash_ok io' h) \<and>
    (b_hashes b \<noteq> None \<longrightarrow> b' = b \<and> b_hashes b = Some H \<and> io' = io) \<and>
    (b_hashes b = None \<longrightarrow> b' = b\<lparr>b_hashes := Some H, b_hashChanges := 0\<rparr>)) (b, io)"
proof (cases "b_hashes b")
  case None
  show ?thesis
  proof (cases "getSystemString io (myfilenamehsh b) = []")
    case True
    with None show ?thesis by (auto simp: loadHashes_def hash_shown_def)
  next
    case False
    then obtain x where x: "e_dec E (getSystemString io (myfilenamehsh b)) = Inr x"
      "length x = byteSizeHashes" using ok None by (auto simp: hashes_loadable_def)
    then have bl: "blocks_of serializedHashSize (steps_of serializedHashSize chunksInBucket x)"
      by (simp add: byteSizeHashes_def blocks_of_steps)
    obtain H io' where r: "load_hash_records (steps_of serializedHashSize chunksInBucket x) io = (H, io')"
      by fastforce
    have "(H ! j \<noteq> None) = hash_shown E b io j" if "j < chunksInBucket" for j
      using load_hash_records_shown [OF r bl] that None False x by (simp add: hash_shown_def decryptFile_def)
    with None False x load_hash_records_grows [OF r] load_hash_records_shown [OF r bl] r show ?thesis
      by (auto simp: loadHashes_def decryptFile_def)
  qed
next
  case (Some H)
  with assms show ?thesis by (auto simp: loadHashes_def hashes_loadable_def hash_shown_def)
qed


lemma hash_shown_cong:
  assumes "io_disk io' = io_disk io" "b_hashes b' = b_hashes b" "b_base b' = b_base b"
  shows "hash_shown E b' io' j = hash_shown E b io j"
proof -
  have "myfilenamehsh b' = myfilenamehsh b" by (simp add: myfilenamehsh_def assms(3))
  moreover have "getSystemString io' f = getSystemString io f" for f by (simp add: getSystemString_def assms(1))
  ultimately show ?thesis by (simp add: hash_shown_def assms(2) split: option.splits)
qed

section \<open>A well-formed meta bucket\<close>

text \<open>A bucket that has changes to store has its chunks and its hashes in memory.\<close>

definition mb_ok :: "env \<Rightarrow> mbucket \<Rightarrow> chunk list \<Rightarrow> bio \<Rightarrow> bool" where
  "mb_ok E b cs io \<longleftrightarrow>
     bucket_ok E (mb_view cs b) io \<and> bucket_ok E (bucket_new (mb_base b)) io \<and>
     (\<forall>A. mb_cells b = Some A \<longrightarrow> length A = chunksInBucket \<and> (\<forall>p \<in> set A. p < length cs)) \<and>
     (\<forall>H. mb_hashes b = Some H \<longrightarrow> length H = chunksInBucket \<and> (\<forall>h. Some h \<in> set H \<longrightarrow> mhash_ok io h)) \<and>
     (mb_hashes b = None \<or> mb_cells b = None \<longrightarrow> mb_hashChanges b = 0 \<and> mb_chunkChanges b = 0)"

text \<open>Loading and putting add chunk objects and hash objects, and write no file.\<close>

definition mb_grows :: "mbucket \<times> chunk list \<times> bio \<Rightarrow> mbucket \<times> chunk list \<times> bio \<Rightarrow> bool" where
  "mb_grows = (\<lambda>(b, cs, io) (b', cs', io').
     mb_base b' = mb_base b \<and> mb_changes b' = mb_changes b \<and>
     (\<exists>xs. cs' = cs @ xs \<and> blocks_of chunkSize xs) \<and> heap_grows io io')"

lemma mb_grows_refl [simp]: "mb_grows s s"
  by (auto simp: mb_grows_def split: prod.splits)

lemma mb_grows_trans: "mb_grows a b \<Longrightarrow> mb_grows b c \<Longrightarrow> mb_grows a c"
  by (auto simp: mb_grows_def blocks_of_def intro: heap_grows_trans)

abbreviation mb_chunk :: "env \<Rightarrow> mbucket \<Rightarrow> chunk list \<Rightarrow> bio \<Rightarrow> nat \<Rightarrow> chunk" where
  "mb_chunk E b cs io j \<equiv> view_at E (mb_view cs b) io j"

abbreviation mb_hash :: "env \<Rightarrow> mbucket \<Rightarrow> chunk list \<Rightarrow> bio \<Rightarrow> nat \<Rightarrow> bool" where
  "mb_hash E b cs io j \<equiv> hash_shown E (mb_view cs b) io j"

lemma mb_chunk_loaded:
  "mb_cells b = Some A \<Longrightarrow> j < length A \<Longrightarrow> mb_chunk E b cs io j = cs ! (A ! j)"
  by (simp add: view_at_def)

lemma mb_view_grow:
  assumes "\<And>A p. mb_cells b = Some A \<Longrightarrow> p \<in> set A \<Longrightarrow> p < length cs"
  shows "mb_view (cs @ xs) b = mb_view cs b"
  using assms by (cases "mb_cells b") (auto simp: mb_view_def nth_append)

lemma mb_ok_grow:
  assumes "mb_ok E b cs io" "heap_grows io io'"
  shows "mb_ok E b (cs @ xs) io'" "mb_chunk E b (cs @ xs) io' j = mb_chunk E b cs io j"
    "mb_hash E b (cs @ xs) io' j = mb_hash E b cs io j"
proof -
  have v: "mb_view (cs @ xs) b = mb_view cs b"
    by (rule mb_view_grow) (use assms(1) in \<open>simp add: mb_ok_def\<close>)
  note k = bucket_ok_kept [OF sums_kept_grows [OF assms(2)]]
  show "mb_ok E b (cs @ xs) io'"
    using assms(1) k mhash_ok_grows [OF _ assms(2)] unfolding mb_ok_def v by (fastforce simp: trans_less_add1)
  note d = heap_growsD(1) [OF assms(2)]
  show "mb_chunk E b (cs @ xs) io' j = mb_chunk E b cs io j" using view_cong(3) [OF d] v by simp
  show "mb_hash E b (cs @ xs) io' j = mb_hash E b cs io j" unfolding v by (rule hash_shown_cong [OF d]) simp_all
qed

lemma wp_mb_loadChunks:
  assumes ok: "mb_ok E b cs io"
  shows "wp (mb_loadChunks E) (\<lambda>A (b', cs', io'). mb_ok E b' cs' io' \<and> mb_grows (b, cs, io) (b', cs', io') \<and> io' = io \<and>
    mb_cells b' = Some A \<and> mb_hashes b' = mb_hashes b \<and> mb_hashChanges b' = mb_hashChanges b \<and>
    mb_chunkChanges b' = mb_chunkChanges b \<and>
    (\<forall>j < chunksInBucket. mb_chunk E b' cs' io' j = mb_chunk E b cs io j) \<and>
    (if mb_cells b = None then A = [length cs..<length cs + chunksInBucket] else b' = b \<and> cs' = cs)) (b, cs, io)"
proof (cases "mb_cells b")
  case (Some A)
  with ok show ?thesis by (simp add: mb_loadChunks_def)
next
  case None
  obtain C where C: "chunk_view E (mb_view cs b) io = Inr C" "chunks_ok C"
    using ok by (auto simp: mb_ok_def bucket_ok_def)
  have len: "length C = chunksInBucket" using C(2) by (simp add: chunks_ok_def)
  have ch: "mb_hashChanges b = 0" "mb_chunkChanges b = 0" using ok None by (simp_all add: mb_ok_def)
  let ?A = "[length cs..<length cs + chunksInBucket]"
  let ?b = "b\<lparr>mb_cells := Some ?A\<rparr>"
  have cells: "map (\<lambda>p. (cs @ C) ! p) ?A = C" by (rule nth_equalityI) (simp_all add: nth_append len)
  have view: "mb_view (cs @ C) ?b = (mb_view cs b)\<lparr>b_chunks := Some C\<rparr>"
    using cells by (simp add: mb_view_def)
  have bok: "bucket_ok E ((mb_view cs b)\<lparr>b_chunks := Some C\<rparr>) io"
    using ok C by (simp add: mb_ok_def bucket_ok_def hashes_loadable_def myfilenamehsh_def split: option.splits)
  have new: "mb_ok E ?b (cs @ C) io"
    using ok bok len ch unfolding mb_ok_def view by simp
  have shown: "mb_chunk E ?b (cs @ C) io j = mb_chunk E b cs io j" for j
    unfolding view using C(1) by (simp add: view_at_def)
  have after: "mb_after b ((mb_view cs b)\<lparr>b_chunks := Some C, b_chunkChanges := 0\<rparr>) = b"
    using ch None by (cases b) (simp add: mb_after_def)
  have run: "wp (loadChunks E) (\<lambda>C' (v, io'). C' = C \<and> v = (mb_view cs b)\<lparr>b_chunks := Some C, b_chunkChanges := 0\<rparr> \<and>
      io' = io) (mb_view cs b, io)"
    by (rule wp_mono [OF wp_loadChunks [OF C(1)]]) (use ch in auto)
  have "wp (mb_plain (loadChunks E)) (\<lambda>C' (b', cs', io'). C' = C \<and> b' = b \<and> cs' = cs \<and> io' = io)
      (b, cs, io)"
    unfolding wp_mb_plain by (rule wp_mono [OF run]) (use after in \<open>clarsimp simp del: mb_after_simps\<close>)
  then show ?thesis
    unfolding mb_loadChunks_def wp_bind wp_get None option.case case_prod_conv
    by (rule wp_mono) (use new shown len C(2) in \<open>auto simp: Let_def mb_grows_def chunks_ok_def\<close>)
qed

lemma wp_mb_loadHashes:
  assumes ok: "mb_ok E b cs io"
  shows "wp (mb_loadHashes E) (\<lambda>H (b', cs', io'). mb_ok E b' cs' io' \<and> mb_grows (b, cs, io) (b', cs', io') \<and> cs' = cs \<and>
    mb_hashes b' = Some H \<and> mb_cells b' = mb_cells b \<and> mb_chunkChanges b' = mb_chunkChanges b \<and>
    mb_hashChanges b' = mb_hashChanges b \<and>
    (\<forall>j < chunksInBucket. mb_chunk E b' cs' io' j = mb_chunk E b cs io j \<and> mb_hash E b' cs' io' j = mb_hash E b cs io j))
    (b, cs, io)"
proof -
  have l: "hashes_loadable E (mb_view cs b) io" using ok by (simp add: mb_ok_def bucket_ok_def)
  have m: "mhash_ok io h" if "b_hashes (mb_view cs b) = Some H" "Some h \<in> set H" for H h
    using ok that by (simp add: mb_ok_def)
  show ?thesis
    unfolding mb_loadHashes_def wp_mb_plain
  proof (rule wp_mono [OF wp_loadHashes_shown [OF l m]], assumption+, clarify)
    fix H v io'
    assume g: "heap_grows io io'" and H: "length H = chunksInBucket"
      "\<forall>j < chunksInBucket. (H ! j \<noteq> None) = hash_shown E (mb_view cs b) io j" "\<forall>h. Some h \<in> set H \<longrightarrow> mhash_ok io' h"
      and s: "b_hashes (mb_view cs b) \<noteq> None \<longrightarrow> v = mb_view cs b \<and> b_hashes (mb_view cs b) = Some H \<and> io' = io"
      and n: "b_hashes (mb_view cs b) = None \<longrightarrow> v = (mb_view cs b)\<lparr>b_hashes := Some H, b_hashChanges := 0\<rparr>"
    let ?b = "b\<lparr>mb_hashes := Some H\<rparr>"
    have ch: "mb_hashes b = None \<longrightarrow> mb_hashChanges b = 0" using ok by (simp add: mb_ok_def)
    have after: "mb_after b v = ?b"
      using s n ch by (cases "mb_hashes b") (auto simp: mb_after_def)
    have g': "mb_ok E b cs io'" "mb_chunk E b cs io' j = mb_chunk E b cs io j" "mb_hash E b cs io' j = mb_hash E b cs io j" for j
      using mb_ok_grow [OF ok g, of "[]"] by simp_all
    have view: "mb_view cs ?b = (mb_view cs b)\<lparr>b_hashes := Some H\<rparr>" by (simp add: mb_view_def)
    have cv: "chunk_view E (mb_view cs ?b) io' = chunk_view E (mb_view cs b) io'"
      unfolding view by (simp add: chunk_view_def myfilenamechnk_def split: option.splits)
    have "bucket_ok E (mb_view cs ?b) io'"
      using g'(1) H mhash_ok_sized [of H io'] cv by (simp add: mb_ok_def bucket_ok_def hashes_loadable_def)
    then have "mb_ok E ?b cs io'" using g'(1) H ch by (auto simp: mb_ok_def)
    moreover have "mb_chunk E ?b cs io' j = mb_chunk E b cs io j" for j
      using cv g'(2) by (simp add: view_at_def)
    moreover have "mb_hash E ?b cs io' j = mb_hash E b cs io j" if "j < chunksInBucket" for j
      using H(2) that by (simp add: hash_shown_def [of E "mb_view cs ?b"])
    ultimately show "mb_ok E (mb_after b v) cs io' \<and> mb_grows (b, cs, io) (mb_after b v, cs, io') \<and> cs = cs \<and>
      mb_hashes (mb_after b v) = Some H \<and> mb_cells (mb_after b v) = mb_cells b \<and>
      mb_chunkChanges (mb_after b v) = mb_chunkChanges b \<and> mb_hashChanges (mb_after b v) = mb_hashChanges b \<and>
      (\<forall>j < chunksInBucket. mb_chunk E (mb_after b v) cs io' j = mb_chunk E b cs io j \<and>
         mb_hash E (mb_after b v) cs io' j = mb_hash E b cs io j)"
      unfolding after using g by (simp add: mb_grows_def)
  qed
qed


section \<open>Putting\<close>

lemma wp_mb_getChunk:
  assumes ok: "mb_ok E b cs io" and i: "i < chunksInBucket"
  shows "wp (mb_getChunk E i) (\<lambda>p (b', cs', io'). mb_ok E b' cs' io' \<and> mb_grows (b, cs, io) (b', cs', io') \<and>
    (\<exists>A. mb_cells b' = Some A \<and> length A = chunksInBucket \<and> p = A ! i \<and>
       (if mb_cells b = None then A = [length cs..<length cs + chunksInBucket] else b' = b \<and> cs' = cs)) \<and>
    mb_hashes b' = mb_hashes b \<and> mb_hashChanges b' = mb_hashChanges b \<and> mb_chunkChanges b' = mb_chunkChanges b \<and>
    (\<forall>j < chunksInBucket. mb_chunk E b' cs' io' j = mb_chunk E b cs io j \<and> mb_hash E b' cs' io' j = mb_hash E b cs io j))
    (b, cs, io)"
  unfolding mb_getChunk_def wp_bind
proof (rule wp_mono [OF wp_mb_loadChunks [OF ok]], clarify)
  fix A b' cs'
  assume ok': "mb_ok E b' cs' io" and g: "mb_grows (b, cs, io) (b', cs', io)" and A: "mb_cells b' = Some A"
    and same: "mb_hashes b' = mb_hashes b" "mb_hashChanges b' = mb_hashChanges b" "mb_chunkChanges b' = mb_chunkChanges b"
    and v: "\<forall>j < chunksInBucket. mb_chunk E b' cs' io j = mb_chunk E b cs io j"
    and n: "if mb_cells b = None then A = [length cs..<length cs + chunksInBucket] else b' = b \<and> cs' = cs"
  have "mb_base b' = mb_base b" using g by (simp add: mb_grows_def)
  then have h: "mb_hash E b' cs' io j = mb_hash E b cs io j" for j
    using same(1) by (intro hash_shown_cong) simp_all
  have len: "length A = chunksInBucket" using ok' A by (simp add: mb_ok_def)
  then have at: "array_at A i = Inr (A ! i)" using i by (simp add: array_at_def)
  show "wp (liftS (array_at A i)) (\<lambda>p (b', cs', io'). mb_ok E b' cs' io' \<and> mb_grows (b, cs, io) (b', cs', io') \<and>
    (\<exists>A. mb_cells b' = Some A \<and> length A = chunksInBucket \<and> p = A ! i \<and>
       (if mb_cells b = None then A = [length cs..<length cs + chunksInBucket] else b' = b \<and> cs' = cs)) \<and>
    mb_hashes b' = mb_hashes b \<and> mb_hashChanges b' = mb_hashChanges b \<and> mb_chunkChanges b' = mb_chunkChanges b \<and>
    (\<forall>j < chunksInBucket. mb_chunk E b' cs' io' j = mb_chunk E b cs io j \<and> mb_hash E b' cs' io' j = mb_hash E b cs io j))
    (b', cs', io)"
    unfolding wp_lift at sum.case case_prod_conv
    by (intro conjI allI impI exI [of _ A]) (use ok' g A len same v n h in \<open>simp_all\<close>)
qed

lemma mb_ok_put:
  assumes ok: "mb_ok E b cs io" and A: "mb_cells b = Some A" and H: "mb_hashes b = Some H"
    and i: "i < chunksInBucket" and p: "p < length cs" "length (cs ! p) = chunkSize"
    and h: "\<And>g. h = Some g \<Longrightarrow> mhash_ok io g"
    and b': "b' = b\<lparr>mb_chunkChanges := m, mb_hashChanges := n, mb_hashes := Some (H[i := h]), mb_cells := Some (A[i := p])\<rparr>"
  shows "mb_ok E b' cs io"
    "j < chunksInBucket \<Longrightarrow> mb_chunk E b' cs io j = (if j = i then cs ! p else mb_chunk E b cs io j)"
    "j < chunksInBucket \<Longrightarrow> mb_hash E b' cs io j = (if j = i then h \<noteq> None else mb_hash E b cs io j)"
proof -
  have len: "length A = chunksInBucket" "length H = chunksInBucket" using ok A H by (simp_all add: mb_ok_def)
  have cA: "\<forall>q \<in> set (A[i := p]). q < length cs"
    using ok A p(1) by (auto simp: mb_ok_def dest: set_update_subset_insert [THEN subsetD])
  have cH: "\<forall>g. Some g \<in> set (H[i := h]) \<longrightarrow> mhash_ok io g"
    using ok H h by (auto simp: mb_ok_def dest: set_update_subset_insert [THEN subsetD])
  have C: "chunks_ok (map (\<lambda>p. cs ! p) A)" using ok A by (auto simp: mb_ok_def bucket_ok_def)
  have m: "map (\<lambda>p. cs ! p) (A[i := p]) = (map (\<lambda>p. cs ! p) A)[i := cs ! p]" by (simp add: map_update)
  have "hashes_sized (H[i := h]) io" using cH mhash_ok_sized by blast
  then have "bucket_ok E (mb_view cs b') io"
    using chunks_ok_update [OF C p(2), of i] len m by (simp add: b' bucket_ok_def hashes_loadable_def)
  then show "mb_ok E b' cs io" using ok cA cH len by (simp add: b' mb_ok_def)
  show "mb_chunk E b' cs io j = (if j = i then cs ! p else mb_chunk E b cs io j)" if "j < chunksInBucket"
    using that len A i by (simp add: b' view_at_def nth_list_update)
  show "mb_hash E b' cs io j = (if j = i then h \<noteq> None else mb_hash E b cs io j)" if "j < chunksInBucket"
    using that len H i by (simp add: b' hash_shown_def nth_list_update)
qed

lemma wp_mb_put:
  assumes ok: "mb_ok E b cs io" and i: "i < chunksInBucket" and p: "p < length cs" "length (cs ! p) = chunkSize"
    and h: "\<And>g. h = Some g \<Longrightarrow> mhash_ok io g"
  shows "wp (mb_putHashAndChunk E i h p) (\<lambda>_ (b', cs', io'). mb_ok E b' cs' io' \<and> mb_grows (b, cs, io) (b', cs', io') \<and>
    (\<exists>A. mb_cells b' = Some (A[i := p]) \<and> length A = chunksInBucket \<and> cs' ! (A ! i) = mb_chunk E b cs io i \<and>
       (\<forall>q \<in> set A. q < length cs') \<and> (if mb_cells b = None then A = [length cs..<length cs + chunksInBucket] else mb_cells b = Some A \<and> cs' = cs)) \<and>
    mb_hashChanges b' \<noteq> 0 \<and> (\<exists>H. mb_hashes b' = Some H \<and> H ! i = h) \<and>
    (\<forall>j < chunksInBucket. mb_chunk E b' cs' io' j = (if j = i then cs ! p else mb_chunk E b cs io j) \<and>
       mb_hash E b' cs' io' j = (if j = i then h \<noteq> None else mb_hash E b cs io j))) (b, cs, io)"
  unfolding mb_putHashAndChunk_def wp_bind
proof (rule wp_mono [OF wp_mb_loadHashes [OF ok]], clarify)
  fix H b1 io1
  assume ok1: "mb_ok E b1 cs io1" and g1: "mb_grows (b, cs, io) (b1, cs, io1)" and H: "mb_hashes b1 = Some H"
    "mb_cells b1 = mb_cells b"
    and v1: "\<forall>j < chunksInBucket. mb_chunk E b1 cs io1 j = mb_chunk E b cs io j \<and> mb_hash E b1 cs io1 j = mb_hash E b cs io j"
  let ?Q = "\<lambda>(b', cs', io'). mb_ok E b' cs' io' \<and> mb_grows (b, cs, io) (b', cs', io') \<and>
    (\<exists>A. mb_cells b' = Some (A[i := p]) \<and> length A = chunksInBucket \<and> cs' ! (A ! i) = mb_chunk E b cs io i \<and>
       (\<forall>q \<in> set A. q < length cs') \<and> (if mb_cells b = None then A = [length cs..<length cs + chunksInBucket] else mb_cells b = Some A \<and> cs' = cs)) \<and>
    mb_hashChanges b' \<noteq> 0 \<and> (\<exists>H. mb_hashes b' = Some H \<and> H ! i = h) \<and>
    (\<forall>j < chunksInBucket. mb_chunk E b' cs' io' j = (if j = i then cs ! p else mb_chunk E b cs io j) \<and>
       mb_hash E b' cs' io' j = (if j = i then h \<noteq> None else mb_hash E b cs io j))"
  have h1: "mhash_ok io1 g" if "h = Some g" for g
    using mhash_ok_grows [OF h [OF that]] g1 by (simp add: mb_grows_def)
  show "wp (mb_loadChunks E) (\<lambda>A. wp (on_mb (\<lambda>b. b\<lparr>mb_chunkChanges := Suc (mb_chunkChanges b),
      mb_hashChanges := Suc (mb_hashChanges b)\<rparr>)) (\<lambda>_. wp (liftS (array_at H i)) (\<lambda>_.
      wp (on_mb (\<lambda>b. b\<lparr>mb_hashes := Some (H[i := h])\<rparr>)) (\<lambda>_. wp (liftS (array_at A i)) (\<lambda>_.
      wp (on_mb (\<lambda>b. b\<lparr>mb_cells := Some (A[i := p])\<rparr>)) (\<lambda>_. ?Q)))))) (b1, cs, io1)"
  proof (rule wp_mono [OF wp_mb_loadChunks [OF ok1]], clarify)
    fix A b2 cs2
    assume ok2: "mb_ok E b2 cs2 io1" and g2: "mb_grows (b1, cs, io1) (b2, cs2, io1)" and A: "mb_cells b2 = Some A"
      "mb_hashes b2 = mb_hashes b1" "if mb_cells b1 = None then A = [length cs..<length cs + chunksInBucket] else b2 = b1 \<and> cs2 = cs"
      and v2: "\<forall>j < chunksInBucket. mb_chunk E b2 cs2 io1 j = mb_chunk E b1 cs io1 j"
    have len: "length A = chunksInBucket" "length H = chunksInBucket" using ok2 A H by (simp_all add: mb_ok_def)
    obtain xs where xs: "cs2 = cs @ xs" using g2 by (auto simp: mb_grows_def)
    have p2: "p < length cs2" "cs2 ! p = cs ! p" using p xs by (simp_all add: nth_append)
    let ?b = "b2\<lparr>mb_chunkChanges := Suc (mb_chunkChanges b2), mb_hashChanges := Suc (mb_hashChanges b2),
      mb_hashes := Some (H[i := h]), mb_cells := Some (A[i := p])\<rparr>"
    have base: "mb_base b2 = mb_base b1" using g2 by (simp add: mb_grows_def)
    have vh: "mb_hash E b2 cs2 io1 j = mb_hash E b1 cs io1 j" for j
      by (rule hash_shown_cong) (simp_all add: A(2) base)
    have H2: "mb_hashes b2 = Some H" using A(2) H(1) by simp
    have pc: "length (cs2 ! p) = chunkSize" using p p2 by simp
    note put = mb_ok_put [OF ok2 A(1) H2 i p2(1) pc h1, where h = h and b' = ?b and m = "Suc (mb_chunkChanges b2)"
        and n = "Suc (mb_hashChanges b2)"]
    have put1: "mb_ok E ?b cs2 io1" by (rule put(1)) simp_all
    have put2: "mb_chunk E ?b cs2 io1 j = (if j = i then cs ! p else mb_chunk E b cs io j)" if "j < chunksInBucket" for j
      using put(2) [OF _ refl that] v1 v2 that p2(2) by simp
    have put3: "mb_hash E ?b cs2 io1 j = (if j = i then h \<noteq> None else mb_hash E b cs io j)" if "j < chunksInBucket" for j
      using put(3) [OF _ refl that] v1 vh that by simp
    have g: "mb_grows (b, cs, io) (?b, cs2, io1)"
      using mb_grows_trans [OF g1 g2] by (simp add: mb_grows_def)
    have "if mb_cells b = None then A = [length cs..<length cs + chunksInBucket] else mb_cells b = Some A \<and> cs2 = cs"
      using A(1,3) H(2) by (auto split: if_splits)
    moreover have "\<forall>q \<in> set A. q < length cs2" using ok2 A(1) by (simp add: mb_ok_def)
    moreover have "cs2 ! (A ! i) = mb_chunk E b cs io i"
      using mb_chunk_loaded [OF A(1), of i E cs2 io1] v1 v2 i len(1) by metis
    ultimately have "?Q (?b, cs2, io1)"
      unfolding case_prod_conv
      by (intro conjI allI impI exI [of _ A] exI [of _ "H[i := h]"]) (use put1 put2 put3 g len i in simp_all)
    then show "wp (on_mb (\<lambda>b. b\<lparr>mb_chunkChanges := Suc (mb_chunkChanges b),
      mb_hashChanges := Suc (mb_hashChanges b)\<rparr>)) (\<lambda>_. wp (liftS (array_at H i)) (\<lambda>_.
      wp (on_mb (\<lambda>b. b\<lparr>mb_hashes := Some (H[i := h])\<rparr>)) (\<lambda>_. wp (liftS (array_at A i)) (\<lambda>_.
      wp (on_mb (\<lambda>b. b\<lparr>mb_cells := Some (A[i := p])\<rparr>)) (\<lambda>_. ?Q))))) (b2, cs2, io1)"
      using len i by (simp only: wp_on_mb wp_lift array_at_def if_True sum.case)
  qed
qed


text \<open>
  What every way of putting the cell \<open>p\<close> into slot \<open>i\<close> does; \<open>h\<close> tells whether the slot has a hash afterwards.
  When the chunks had to be loaded, their cells are new.
\<close>

definition mb_putted :: "env \<Rightarrow> nat \<Rightarrow> bool \<Rightarrow> addr \<Rightarrow> mbucket \<times> chunk list \<times> bio \<Rightarrow> mbucket \<times> chunk list \<times> bio \<Rightarrow> bool" where
  "mb_putted E i h p = (\<lambda>(b, cs, io) (b', cs', io').
     mb_ok E b' cs' io' \<and> mb_grows (b, cs, io) (b', cs', io') \<and> p < length cs' \<and> 0 < mb_hashChanges b' \<and>
     (\<exists>A. mb_cells b' = Some (A[i := p]) \<and> length A = chunksInBucket \<and> cs' ! (A ! i) = mb_chunk E b cs io i \<and>
        (\<forall>q \<in> set A. q < length cs') \<and>
        (if mb_cells b = None then \<exists>n. length cs \<le> n \<and> p < n \<and> A = [n..<n + chunksInBucket]
         else mb_cells b = Some A \<and> cs' = cs)) \<and>
     (h \<longrightarrow> (\<exists>H. mb_hashes b' = Some H \<and> (\<exists>g \<in> set H. g \<noteq> None))) \<and>
     (\<forall>j < chunksInBucket. mb_chunk E b' cs' io' j = (if j = i then cs' ! p else mb_chunk E b cs io j) \<and>
        mb_hash E b' cs' io' j = (if j = i then h else mb_hash E b cs io j)))"

lemma wp_mb_putHashAndChunk:
  assumes "mb_ok E b cs io" "i < chunksInBucket" "p < length cs" "length (cs ! p) = chunkSize"
    and "\<And>g. h = Some g \<Longrightarrow> mhash_ok io g"
  shows "wp (mb_putHashAndChunk E i h p) (\<lambda>_. mb_putted E i (h \<noteq> None) p (b, cs, io)) (b, cs, io)"
proof (rule wp_mono [OF wp_mb_put [OF assms]], assumption, clarify)
  fix b' cs' io' A H
  assume ok: "mb_ok E b' cs' io'" and g: "mb_grows (b, cs, io) (b', cs', io')" and A: "mb_cells b' = Some (A[i := p])"
    "length A = chunksInBucket" "cs' ! (A ! i) = mb_chunk E b cs io i" "\<forall>q \<in> set A. q < length cs'"
    "if mb_cells b = None then A = [length cs..<length cs + chunksInBucket] else mb_cells b = Some A \<and> cs' = cs"
    and n: "0 < mb_hashChanges b'" and H: "mb_hashes b' = Some H" "h = H ! i"
    and v: "\<forall>j < chunksInBucket. mb_chunk E b' cs' io' j = (if j = i then cs ! p else mb_chunk E b cs io j) \<and>
       mb_hash E b' cs' io' j = (if j = i then H ! i \<noteq> None else mb_hash E b cs io j)"
  have p': "p < length cs'" "cs' ! p = cs ! p"
    using assms(3) g by (auto simp: mb_grows_def nth_append)
  have "if mb_cells b = None then \<exists>n. length cs \<le> n \<and> p < n \<and> A = [n..<n + chunksInBucket] else mb_cells b = Some A \<and> cs' = cs"
    using A(5) assms(3) by (auto split: if_splits)
  then have cells: "\<exists>A. mb_cells b' = Some (A[i := p]) \<and> length A = chunksInBucket \<and> cs' ! (A ! i) = mb_chunk E b cs io i \<and>
      (\<forall>q \<in> set A. q < length cs') \<and> (if mb_cells b = None then \<exists>n. length cs \<le> n \<and> p < n \<and> A = [n..<n + chunksInBucket]
       else mb_cells b = Some A \<and> cs' = cs)"
    using A(1-4) by blast
  have "length H = chunksInBucket" using ok H by (simp add: mb_ok_def)
  then have "H ! i \<in> set H" using assms(2) by simp
  then have some: "H ! i \<noteq> None \<longrightarrow> (\<exists>H. mb_hashes b' = Some H \<and> (\<exists>g \<in> set H. g \<noteq> None))"
    using H(1) by blast
  have v': "\<forall>j < chunksInBucket. mb_chunk E b' cs' io' j = (if j = i then cs' ! p else mb_chunk E b cs io j) \<and>
       mb_hash E b' cs' io' j = (if j = i then H ! i \<noteq> None else mb_hash E b cs io j)"
    using v p'(2) by simp
  show "mb_putted E i (H ! i \<noteq> None) p (b, cs, io) (b', cs', io')"
    unfolding mb_putted_def case_prod_conv by (intro conjI ok g p'(1) n cells some v')
qed

lemma mb_putted_from:
  assumes ok: "mb_ok E b cs io" and g: "heap_grows io io1" and put: "mb_putted E i h p (b, cs, io1) s"
  shows "mb_putted E i h p (b, cs, io) s"
proof -
  obtain b' cs' io' where s: "s = (b', cs', io')" by (cases s)
  have g0: "mb_grows (b, cs, io) (b, cs, io1)" using g by (auto simp: mb_grows_def)
  note keep = mb_ok_grow(2,3) [OF ok g, where xs = "[]", simplified]
  have g1: "mb_grows (b, cs, io) (b', cs', io')" using put mb_grows_trans [OF g0] by (simp add: mb_putted_def s)
  show ?thesis
    using put g1 unfolding mb_putted_def s case_prod_conv keep by blast
qed

lemma wp_mb_putHashedChunk:
  assumes env: "env_ok E" and ok: "mb_ok E b cs io" and p: "p < length cs" "length (cs ! p) = chunkSize"
    and idx: "idx < 2 ^ 64" "0 < r" "r < 2 ^ 63"
  shows "wp (mb_putHashedChunk E idx r p) (\<lambda>_. mb_putted E (index_of idx) True p (b, cs, io)) (b, cs, io)"
proof -
  let ?o = "\<lparr>h_hsh = e_sha E (cs ! p), h_bucketIndex = idx, h_refcnt = r, h_data = None,
    h_flags = FLAG_NOAUTOSTORE OR FLAG_NOAUTOLOAD\<rparr>"
  let ?io = "io\<lparr>io_heap := io_heap io @ [?o]\<rparr>"
  have g: "heap_grows io ?io" by (auto simp: heap_grows_def)
  have ok1: "mb_ok E b cs ?io" using mb_ok_grow(1) [OF ok g, of "[]"] by simp
  have h: "mhash_ok ?io (length (io_heap io))"
    using env idx by (simp add: mhash_ok_def storable_hash_def env_ok_def)
  have "wp (mb_putHashAndChunk E (index_of idx) (Some (length (io_heap io))) p)
      (\<lambda>_. mb_putted E (index_of idx) True p (b, cs, ?io)) (b, cs, ?io)"
    using wp_mb_putHashAndChunk [OF ok1 index_of_less p, of "Some (length (io_heap io))" idx] h by simp
  then have "wp (mb_putHashAndChunk E (index_of idx) (Some (length (io_heap io))) p)
      (\<lambda>_. mb_putted E (index_of idx) True p (b, cs, io)) (b, cs, ?io)"
    by (rule wp_mono) (rule mb_putted_from [OF ok g])
  then show ?thesis by (simp add: mb_putHashedChunk_def)
qed

lemma wp_mb_clearHashAndChunk:
  assumes ok: "mb_ok E b cs io" and i: "i < chunksInBucket"
  shows "wp (mb_clearHashAndChunk E i) (\<lambda>_. mb_putted E i False (length cs) (b, cs @ [zero_chunk], io)) (b, cs, io)"
proof -
  have ok1: "mb_ok E b (cs @ [zero_chunk]) io" using mb_ok_grow(1) [OF ok heap_grows_refl] by simp
  have "wp (mb_putHashAndChunk E i None (length cs)) (\<lambda>_. mb_putted E i False (length cs) (b, cs @ [zero_chunk], io))
      (b, cs @ [zero_chunk], io)"
    using wp_mb_putHashAndChunk [OF ok1 i, of "length cs" None] by simp
  then show ?thesis by (simp add: mb_clearHashAndChunk_def)
qed

section \<open>Storing\<close>

lemma mb_after_view [simp]: "mb_after b (mb_view cs b) = b"
  by (cases b) (simp add: mb_after_def)

definition mb_dirty :: "mbucket \<Rightarrow> bool" where
  "mb_dirty b \<longleftrightarrow> mb_hashChanges b \<noteq> 0 \<or> mb_chunkChanges b \<noteq> 0"

definition mb_used :: "mbucket \<Rightarrow> bool" where
  "mb_used b \<longleftrightarrow> (\<exists>H. mb_hashes b = Some H \<and> (\<exists>h \<in> set H. h \<noteq> None))"

text \<open>The files of a bucket show what the bucket shows.\<close>

definition mb_saved :: "env \<Rightarrow> mbucket \<Rightarrow> chunk list \<Rightarrow> bio \<Rightarrow> bool" where
  "mb_saved E b cs io \<longleftrightarrow>
     (\<forall>j < chunksInBucket. view_at E (bucket_new (mb_base b)) io j = mb_chunk E b cs io j \<and>
        hash_shown E (bucket_new (mb_base b)) io j = mb_hash E b cs io j)"

text \<open>A store writes none but the two files of its bucket and changes nothing in memory but the counters.\<close>

definition mb_stored :: "env \<Rightarrow> mbucket \<times> chunk list \<times> bio \<Rightarrow> mbucket \<times> chunk list \<times> bio \<Rightarrow> bool" where
  "mb_stored E = (\<lambda>(b, cs, io) (b', cs', io').
     mb_ok E b' cs' io' \<and> cs' = cs \<and> mb_base b' = mb_base b \<and> mb_cells b' = mb_cells b \<and> mb_hashes b' = mb_hashes b \<and>
     \<not> mb_dirty b' \<and> io_heap io' = io_heap io \<and>
     (\<forall>f. f \<noteq> mb_base b @ ''.hsh'' \<longrightarrow> f \<noteq> mb_base b @ ''.chnk'' \<longrightarrow> io_disk io' f = io_disk io f) \<and>
     (\<forall>j < chunksInBucket. mb_chunk E b' cs' io' j = mb_chunk E b cs io j \<and> mb_hash E b' cs' io' j = mb_hash E b cs io j) \<and>
     (if mb_dirty b then mb_used b \<longrightarrow> mb_saved E b' cs' io' else b' = b \<and> io' = io))"

lemma record_counts_hash_record:
  assumes "env_ok E" "\<And>h. L = Some h \<Longrightarrow> mhash_ok io h"
  shows "record_counts (hash_record E (io_heap io) L) = (L \<noteq> None)"
proof (cases L)
  case None
  then show ?thesis
    using assms(1) by (simp add: record_counts_def hash_record_def deserialize_serializedHash env_ok_def)
next
  case (Some h)
  then show ?thesis
    using assms(2) by (simp add: record_counts_def hash_record_def deserialize_serializedHash mhash_ok_def storable_hash_def)
qed

text \<open>Files written from the arrays \<open>C\<close> and \<open>H\<close> show these arrays.\<close>

lemma files_show:
  assumes env: "env_ok E" and C: "chunks_ok C" and H: "length H = chunksInBucket" "\<And>h. Some h \<in> set H \<Longrightarrow> mhash_ok io h"
    and f: "getSystemString io' (base @ ''.chnk'') = e_enc E m (concat C)"
      "getSystemString io' (base @ ''.hsh'') = e_enc E n (hashes_cleartext E (io_heap io) H)"
  shows "chunk_view E (bucket_new base) io' = Inr C" "bucket_ok E (bucket_new base) io'"
    "j < chunksInBucket \<Longrightarrow> hash_shown E (bucket_new base) io' j = (H ! j \<noteq> None)"
proof -
  have names: "myfilenamechnk (bucket_new base) = base @ ''.chnk''" "myfilenamehsh (bucket_new base) = base @ ''.hsh''"
    by (simp_all add: myfilenamechnk_def myfilenamehsh_def)
  have st: "\<forall>h. Some h \<in> set H \<longrightarrow> storable_hash (io_heap io ! h)" using H(2) by (simp add: mhash_ok_def)
  let ?x = "hashes_cleartext E (io_heap io) H"
  note X = hashes_cleartext_blocks [OF env st]
  have len: "length ?x = byteSizeHashes" using X(3) H(1) by (simp add: byteSizeHashes_def)
  have dec: "decryptFile E (e_enc E n ?x) = Inr ?x" using env by simp
  have ne: "e_enc E n ?x \<noteq> []" using env len by simp
  show v: "chunk_view E (bucket_new base) io' = Inr C"
    using decode_encrypted_chunks [OF env C] names f(1) by (simp add: chunk_view_def)
  have "e_dec E (e_enc E n ?x) = Inr ?x" using env by (simp add: env_ok_def)
  then show "bucket_ok E (bucket_new base) io'"
    using v C len by (simp add: bucket_ok_def hashes_loadable_def names f(2))
  show "hash_shown E (bucket_new base) io' j = (H ! j \<noteq> None)" if j: "j < chunksInBucket"
  proof -
    have "steps_of serializedHashSize chunksInBucket ?x = map (hash_record E (io_heap io)) H"
      using steps_of_concat [OF X(2)] H(1) X(1) by simp
    moreover have "record_counts (hash_record E (io_heap io) (H ! j)) = (H ! j \<noteq> None)"
    proof (rule record_counts_hash_record [OF env])
      fix h assume "H ! j = Some h"
      then have "Some h \<in> set H" using j H(1) nth_mem by metis
      then show "mhash_ok io h" by (rule H(2))
    qed
    ultimately show ?thesis using j H(1) dec ne by (simp add: hash_shown_def names f(2))
  qed
qed

lemma wp_mb_store:
  assumes env: "env_ok E" and ok: "mb_ok E b cs io"
  shows "wp (mb_store E) (\<lambda>_. mb_stored E (b, cs, io)) (b, cs, io)"
proof (cases "mb_dirty b")
  case False
  then show ?thesis
    using ok by (simp add: mb_store_def bucket_store_def mb_dirty_def mb_stored_def)
next
  case True
  then obtain A H where A: "mb_cells b = Some A" and H: "mb_hashes b = Some H"
    using ok by (cases "mb_cells b"; cases "mb_hashes b") (auto simp: mb_ok_def mb_dirty_def)
  let ?C = "map (\<lambda>p. cs ! p) A"
  have C: "b_chunks (mb_view cs b) = Some ?C" "chunks_ok ?C"
    using A ok by (auto simp: mb_ok_def bucket_ok_def)
  have H': "length H = chunksInBucket" "\<And>h. Some h \<in> set H \<Longrightarrow> mhash_ok io h" using ok H by (auto simp: mb_ok_def)
  have st: "\<forall>h. Some h \<in> set H \<longrightarrow> storable_hash (io_heap io ! h)" using H'(2) by (simp add: mhash_ok_def)
  have ch: "b_hashChanges (mb_view cs b) \<noteq> 0 \<or> b_chunkChanges (mb_view cs b) \<noteq> 0" using True by (simp add: mb_dirty_def)
  have names: "myfilenamechnk (mb_view cs b) = mb_base b @ ''.chnk''" "myfilenamehsh (mb_view cs b) = mb_base b @ ''.hsh''"
    by (simp_all add: myfilenamechnk_def myfilenamehsh_def)
  have fin: "mb_stored E (b, cs, io) (mb_after b v, cs, io')"
    if v: "v = (mb_view cs b)\<lparr>b_changes := None, b_chunks := Some ?C, b_hashChanges := 0, b_chunkChanges := 0\<rparr>"
      and io': "io_heap io' = io_heap io" "\<forall>f. f \<noteq> mb_base b @ ''.hsh'' \<longrightarrow> f \<noteq> mb_base b @ ''.chnk'' \<longrightarrow> io_disk io' f = io_disk io f"
      and new: "bucket_ok E (bucket_new (mb_base b)) io'"
      and saved: "mb_used b \<longrightarrow> (\<forall>j < chunksInBucket. view_at E (bucket_new (mb_base b)) io' j = ?C ! j \<and>
        hash_shown E (bucket_new (mb_base b)) io' j = (H ! j \<noteq> None))" for v io'
  proof -
    let ?b = "mb_after b v"
    have f: "mb_base ?b = mb_base b" "mb_cells ?b = Some A" "mb_hashes ?b = Some H" "\<not> mb_dirty ?b"
      using A H by (simp_all add: v mb_dirty_def)
    have c: "mb_chunk E ?b cs io' j = ?C ! j" "mb_chunk E b cs io j = ?C ! j"
      "mb_hash E ?b cs io' j = (H ! j \<noteq> None)" "mb_hash E b cs io j = (H ! j \<noteq> None)" for j
      using A H f by (simp_all add: view_at_def hash_shown_def)
    have "hashes_sized H io'" using H'(2) io'(1) by (intro mhash_ok_sized) (simp add: mhash_ok_def)
    then have "bucket_ok E (mb_view cs ?b) io'"
      using C(2) H'(1) f by (simp add: bucket_ok_def hashes_loadable_def)
    moreover have "mhash_ok io' h" if "Some h \<in> set H" for h using H'(2) [OF that] io'(1) by (simp add: mhash_ok_def)
    moreover have "length A = chunksInBucket \<and> (\<forall>p \<in> set A. p < length cs)" using ok A by (simp add: mb_ok_def)
    ultimately have "mb_ok E ?b cs io'" using f new H'(1) by (simp add: mb_ok_def)
    then show ?thesis
      using io' f c saved A H True unfolding mb_stored_def mb_saved_def case_prod_conv by simp
  qed
  show ?thesis
  proof (cases "mb_used b")
    case used: True
    then have num: "\<exists>h \<in> set H. h \<noteq> None" using H by (simp add: mb_used_def)
    have Hb: "b_hashes (mb_view cs b) = Some H" using H by simp
    show ?thesis
      unfolding mb_store_def wp_mb_plain
    proof (rule wp_mono [OF wp_bucket_store_full [OF env C Hb H'(1) num st ch, of False]], clarify)
      fix io'
      let ?v = "(mb_view cs b)\<lparr>b_changes := None, b_chunks := (if False then None else Some ?C), b_hashChanges := 0, b_chunkChanges := 0\<rparr>"
      assume f: "getSystemString io' (myfilenamechnk (mb_view cs b)) = e_enc E (io_draws io) (concat ?C)"
        "getSystemString io' (myfilenamehsh (mb_view cs b)) = e_enc E (Suc (io_draws io)) (hashes_cleartext E (io_heap io) H)"
        and d: "\<forall>f. f \<noteq> myfilenamechnk (mb_view cs b) \<longrightarrow> f \<noteq> myfilenamehsh (mb_view cs b) \<longrightarrow> io_disk io' f = io_disk io f"
        and h: "io_heap io' = io_heap io"
      note F = files_show [OF env C(2) H' f [unfolded names]]
      show "mb_stored E (b, cs, io) (mb_after b ?v, cs, io')"
        by (rule fin) (use h d F in \<open>auto simp: names view_at_def\<close>)
    qed
  next
    case False
    then have num: "\<not> (\<exists>h \<in> set H. h \<noteq> None)" using H by (simp add: mb_used_def)
    have "wp (bucket_store E False) (\<lambda>_ (v, io').
        v = (mb_view cs b)\<lparr>b_changes := None, b_chunks := Some ?C, b_hashChanges := 0, b_chunkChanges := 0\<rparr> \<and>
        io_heap io' = io_heap io \<and> io_disk io' = io_disk io) (mb_view cs b, io)"
      using env True H num C concat_chunks_length [OF C(2)] ch by (auto simp: bucket_store_def mb_dirty_def)
    then show ?thesis
      unfolding mb_store_def wp_mb_plain
    proof (rule wp_mono, clarify)
      fix io' :: bio
      assume io': "io_heap io' = io_heap io" "io_disk io' = io_disk io"
      have "sums_kept io io'" using io' by (simp add: sums_kept_def)
      then have "bucket_ok E (bucket_new (mb_base b)) io'" using bucket_ok_kept ok by (simp add: mb_ok_def)
      then show "mb_stored E (b, cs, io) (mb_after b ((mb_view cs b)\<lparr>b_changes := None, b_chunks := Some ?C,
          b_hashChanges := 0, b_chunkChanges := 0\<rparr>), cs, io')"
        by (intro fin) (use io' False in simp_all)
    qed
  qed
qed

end
