(* ===== verification/Meta_Refine.thy ===== *)
theory Meta_Refine
  imports Meta_Sim
begin

text \<open>
  The table of slots that theory \<open>Fs_State\<close> keeps for the meta buckets is refined by the meta buckets with their
  files: every operation on the table is simulated by the one on the buckets.
\<close>

section \<open>The buckets together\<close>

definition ms_ok :: "env \<Rightarrow> mstore \<Rightarrow> bool" where
  "ms_ok E s \<longleftrightarrow> umap_inv (ms_loaded s) \<and> blocks_of chunkSize (ms_cells s) \<and>
     (\<forall>k. mb_ok E (mbk E s k) (ms_cells s) (ms_io s) \<and> mb_base (mbk E s k) = getBucketFilename E k)"

definition ms_chunk :: "env \<Rightarrow> mstore \<Rightarrow> bucketIndex_t \<Rightarrow> chunk" where
  "ms_chunk E s i = mb_chunk E (mbk E s (bucket_of i)) (ms_cells s) (ms_io s) (index_of i)"

definition ms_hash :: "env \<Rightarrow> mstore \<Rightarrow> bucketIndex_t \<Rightarrow> bool" where
  "ms_hash E s i \<longleftrightarrow> mb_hash E (mbk E s (bucket_of i)) (ms_cells s) (ms_io s) (index_of i)"

text \<open>The cell of a slot whose bucket has its chunks in memory.\<close>

definition ms_addr :: "env \<Rightarrow> mstore \<Rightarrow> bucketIndex_t \<Rightarrow> addr option" where
  "ms_addr E s i = map_option (\<lambda>A. A ! index_of i) (mb_cells (mbk E s (bucket_of i)))"

lemma ms_okD:
  assumes "ms_ok E s"
  shows "mb_ok E (mbk E s k) (ms_cells s) (ms_io s)" "mb_base (mbk E s k) = getBucketFilename E k"
    "umap_inv (ms_loaded s)" "p < length (ms_cells s) \<Longrightarrow> length (ms_cells s ! p) = chunkSize"
  using assms by (simp_all add: ms_ok_def blocks_of_def)

lemma ms_addr_chunk:
  assumes "ms_ok E s" "ms_addr E s i = Some p"
  shows "p < length (ms_cells s)" "ms_chunk E s i = ms_cells s ! p"
proof -
  obtain A where A: "mb_cells (mbk E s (bucket_of i)) = Some A" "p = A ! index_of i"
    using assms(2) by (auto simp: ms_addr_def)
  have len: "length A = chunksInBucket" "\<forall>p \<in> set A. p < length (ms_cells s)"
    using ms_okD(1) [OF assms(1), of "bucket_of i"] A(1) by (simp_all add: mb_ok_def)
  then have "A ! index_of i \<in> set A" by (intro nth_mem) simp
  then show "p < length (ms_cells s)" using A(2) len(2) by blast
  show "ms_chunk E s i = ms_cells s ! p"
    unfolding ms_chunk_def using mb_chunk_loaded [OF A(1)] len(1) A(2) by simp
qed

text \<open>One bucket moves on; the others show what they showed.\<close>

lemma put_meta_grow:
  assumes ok: "ms_ok E s" and b': "mb_ok E b' cs' io'" and g: "mb_grows (mbk E s k, ms_cells s, ms_io s) (b', cs', io')"
  shows "ms_ok E (put_meta k b' cs' io' s)"
    "bucket_of i \<noteq> k \<Longrightarrow> ms_chunk E (put_meta k b' cs' io' s) i = ms_chunk E s i"
    "bucket_of i \<noteq> k \<Longrightarrow> ms_hash E (put_meta k b' cs' io' s) i = ms_hash E s i"
    "bucket_of i \<noteq> k \<Longrightarrow> ms_addr E (put_meta k b' cs' io' s) i = ms_addr E s i"
proof -
  obtain xs where xs: "cs' = ms_cells s @ xs" "blocks_of chunkSize xs" "heap_grows (ms_io s) io'"
    "mb_base b' = mb_base (mbk E s k)"
    using g by (auto simp: mb_grows_def)
  note keep = mb_ok_grow [OF ms_okD(1) [OF ok] xs(3), where xs = xs, folded xs(1)]
  show "ms_ok E (put_meta k b' cs' io' s)"
    using ok b' keep(1) xs by (auto simp: ms_ok_def put_meta_def blocks_of_def mbk_def)
  show "bucket_of i \<noteq> k \<Longrightarrow> ms_chunk E (put_meta k b' cs' io' s) i = ms_chunk E s i"
    "bucket_of i \<noteq> k \<Longrightarrow> ms_hash E (put_meta k b' cs' io' s) i = ms_hash E s i"
    using keep by (simp_all add: ms_chunk_def ms_hash_def)
  show "bucket_of i \<noteq> k \<Longrightarrow> ms_addr E (put_meta k b' cs' io' s) i = ms_addr E s i"
    by (simp add: ms_addr_def)
qed

section \<open>The table of slots\<close>

definition slot_content :: "fsys \<Rightarrow> bucketIndex_t \<Rightarrow> metachunk" where
  "slot_content t i = (case fs_slots t i of None \<Rightarrow> MNone | Some c \<Rightarrow> fs_chunks t ! c)"

text \<open>
  \<open>r\<close> tells the cell of a chunk object of the table. An object of a slot whose bucket is not in memory has none yet; a slot without an object
  may have a cell all the same, which then holds zeros.
\<close>

definition mrel :: "env \<Rightarrow> (cid \<Rightarrow> addr option) \<Rightarrow> mstore \<Rightarrow> fsys \<Rightarrow> bool" where
  "mrel E r s t \<longleftrightarrow>
     ms_ok E s \<and>
     (\<forall>i. ms_chunk E s i = metachunk_bytes (slot_content t i)) \<and>
     (\<forall>i c. fs_slots t i = Some c \<longrightarrow> c < length (fs_chunks t) \<and> r c = ms_addr E s i) \<and>
     (\<forall>i j c. fs_slots t i = Some c \<longrightarrow> fs_slots t j = Some c \<longrightarrow> i = j) \<and>
     (\<forall>c p. r c = Some p \<longrightarrow> c < length (fs_chunks t) \<and> p < length (ms_cells s) \<and>
        ms_cells s ! p = metachunk_bytes (fs_chunks t ! c)) \<and>
     (\<forall>c c' p. r c = Some p \<longrightarrow> r c' = Some p \<longrightarrow> c = c') \<and>
     (\<forall>i c p. fs_slots t i = None \<longrightarrow> r c = Some p \<longrightarrow> ms_addr E s i \<noteq> Some p) \<and>
     (\<forall>i j p. ms_addr E s i = Some p \<longrightarrow> ms_addr E s j = Some p \<longrightarrow> i = j) \<and>
     (\<forall>m \<in> set (fs_chunks t). metachunk_ok m)"

lemma mrelD:
  assumes "mrel E r s t"
  shows "ms_ok E s" "ms_chunk E s i = metachunk_bytes (slot_content t i)"
    "fs_slots t i = Some c \<Longrightarrow> c < length (fs_chunks t)" "fs_slots t i = Some c \<Longrightarrow> r c = ms_addr E s i"
    "fs_slots t i = Some c \<Longrightarrow> fs_slots t j = Some c \<Longrightarrow> i = j"
    "r c = Some p \<Longrightarrow> c < length (fs_chunks t)" "r c = Some p \<Longrightarrow> p < length (ms_cells s)"
    "r c = Some p \<Longrightarrow> ms_cells s ! p = metachunk_bytes (fs_chunks t ! c)"
    "r c = Some p \<Longrightarrow> r c' = Some p \<Longrightarrow> c = c'"
    "fs_slots t i = None \<Longrightarrow> r c = Some p \<Longrightarrow> ms_addr E s i \<noteq> Some p"
    "ms_addr E s i = Some p \<Longrightarrow> ms_addr E s j = Some p \<Longrightarrow> i = j"
    "m \<in> set (fs_chunks t) \<Longrightarrow> metachunk_ok m"
  using assms unfolding mrel_def by (blast | simp)+

text \<open>The table may change in what the relation does not look at.\<close>

lemma mrel_table:
  assumes "mrel E r s t" "fs_slots t' = fs_slots t" "fs_chunks t' = fs_chunks t"
  shows "mrel E r s t'"
proof -
  have "slot_content t' i = slot_content t i" for i using assms(2,3) by (simp add: slot_content_def split: option.splits)
  then show ?thesis using assms unfolding mrel_def by simp
qed

text \<open>A new chunk object is a new cell.\<close>

lemma mrel_new:
  assumes rel: "mrel E r s t" and m: "metachunk_ok m"
  shows "mrel E (r(length (fs_chunks t) \<mapsto> length (ms_cells s))) (s\<lparr>ms_cells := ms_cells s @ [metachunk_bytes m]\<rparr>)
    (t\<lparr>fs_chunks := fs_chunks t @ [m]\<rparr>)" (is "mrel E ?r ?s ?t")
proof -
  note R = mrelD [OF rel]
  have bk: "mbk E ?s k = mbk E s k" for k by (simp add: mbk_def)
  note keep = mb_ok_grow [OF ms_okD(1) [OF R(1)] heap_grows_refl, where xs = "[metachunk_bytes m]"]
  have len: "length (metachunk_bytes m) = chunkSize" using metachunk_bytes_of [OF m] by simp
  have ok: "ms_ok E ?s" using R(1) keep(1) bk len by (simp add: ms_ok_def blocks_of_def)
  have c: "ms_chunk E ?s i = ms_chunk E s i" "ms_addr E ?s i = ms_addr E s i" for i
    using keep(2) by (simp_all add: ms_chunk_def ms_addr_def bk)
  have sc: "slot_content ?t i = slot_content t i" for i
    using R(3) [of i] by (auto simp: slot_content_def nth_append split: option.splits)
  have a: "p < length (ms_cells s)" if "ms_addr E s i = Some p" for i p
    using ms_addr_chunk(1) [OF R(1) that] .
  show ?thesis
    unfolding mrel_def c sc
  proof (intro conjI allI impI ballI)
    show "ms_ok E ?s" by (rule ok)
    show "ms_chunk E s i = metachunk_bytes (slot_content t i)" for i by (rule R(2))
    show "c < length (fs_chunks ?t)" "?r c = ms_addr E s i" if "fs_slots ?t i = Some c" for i c
      using that R(3,4) [of i c] by auto
    show "i = j" if "fs_slots ?t i = Some c" "fs_slots ?t j = Some c" for i j c using that R(5) by simp
    show "c < length (fs_chunks ?t)" "p < length (ms_cells ?s)" "ms_cells ?s ! p = metachunk_bytes (fs_chunks ?t ! c)"
      if "?r c = Some p" for c p
      using that R(6-8) [of c p] by (auto simp: nth_append split: if_splits)
    show "c = c'" if "?r c = Some p" "?r c' = Some p" for c c' p
      using that R(7) [of c p] R(7) [of c' p] R(9) [of c p c'] by (auto split: if_splits)
    show "ms_addr E s i \<noteq> Some p" if "fs_slots ?t i = None" "?r c = Some p" for i c p
      using that R(10) [of i c p] a [of i p] by (auto split: if_splits)
    show "i = j" if "ms_addr E s i = Some p" "ms_addr E s j = Some p" for i j p using that by (rule R(11))
    show "metachunk_ok x" if "x \<in> set (fs_chunks ?t)" for x using that R(12) [of x] m by auto
  qed
qed


text \<open>Loading the chunks of a bucket gives a cell to each of its objects.\<close>

lemma mrel_load:
  assumes rel: "mrel E r s t" and none: "mb_cells (mbk E s k) = None"
    and b1: "mb_ok E b1 cs1 io1" and g: "mb_grows (mbk E s k, ms_cells s, ms_io s) (b1, cs1, io1)"
    and cells: "mb_cells b1 = Some [n..<n + chunksInBucket]" "length (ms_cells s) \<le> n"
    and same: "\<And>j. j < chunksInBucket \<Longrightarrow> mb_chunk E b1 cs1 io1 j = mb_chunk E (mbk E s k) (ms_cells s) (ms_io s) j"
  shows "\<exists>r'. r \<subseteq>\<^sub>m r' \<and> mrel E r' (put_meta k b1 cs1 io1 s) t"
proof -
  let ?s = "put_meta k b1 cs1 io1 s"
  note R = mrelD [OF rel]
  note P = put_meta_grow [OF R(1) b1 g]
  have "\<forall>p \<in> set [n..<n + chunksInBucket]. p < length cs1" using b1 cells(1) by (simp add: mb_ok_def)
  moreover have "n + 255 \<in> set [n..<n + chunksInBucket]" by (simp add: chunksInBucket_def)
  ultimately have "n + 255 < length cs1" by blast
  then have len: "n + chunksInBucket \<le> length cs1" by (simp add: chunksInBucket_def)
  have ad: "ms_addr E ?s i = (if bucket_of i = k then Some (n + index_of i) else ms_addr E s i)" for i
    using P(4) cells(1) by (simp add: ms_addr_def)
  have ad0: "ms_addr E s i = None" if "bucket_of i = k" for i using that none by (simp add: ms_addr_def)
  have ch: "ms_chunk E ?s i = ms_chunk E s i" for i
    using P(2) same by (cases "bucket_of i = k") (simp_all add: ms_chunk_def)
  define here where "here c j \<longleftrightarrow> fs_slots t j = Some c \<and> bucket_of j = k" for c j
  define r' where "r' c = (if r c \<noteq> None then r c else if \<exists>j. here c j then ms_addr E ?s (SOME j. here c j) else None)" for c
  have one: "(SOME j. here c j) = i" if "here c i" for c i
    using that R(5) by (intro some_equality) (auto simp: here_def)
  have rs: "r' c = ms_addr E ?s i" if "fs_slots t i = Some c" for i c
  proof (cases "bucket_of i = k")
    case True
    then have h: "here c i" using that by (simp add: here_def)
    moreover have "r c = None" using R(4) [OF that] ad0 [OF True] by simp
    ultimately show ?thesis using one [OF h] by (auto simp: r'_def)
  next
    case False
    then have "\<not> here c j" for j using that R(5) [of i c j] by (auto simp: here_def)
    then show ?thesis using R(4) [OF that] ad [of i] False by (simp add: r'_def)
  qed
  have rc: "r c = Some p \<or> (\<exists>j. here c j \<and> p = n + index_of j)" if "r' c = Some p" for c p
    using that one ad by (auto simp: r'_def here_def split: if_splits)
  have old: "p < n" if "r c = Some p" for c p using R(7) [OF that] cells(2) by simp
  have old': "p < n" if "ms_addr E s i = Some p" for i p using ms_addr_chunk(1) [OF R(1) that] cells(2) by simp
  have cells': "cs1 ! p = metachunk_bytes (fs_chunks t ! c)" if "r c = Some p" for c p
    using R(8) [OF that] R(7) [OF that] g by (auto simp: mb_grows_def nth_append)
  have idx: "i = j" if "bucket_of i = k" "bucket_of j = k" "index_of i = index_of j" for i j
    using that bucket_index_eqI by metis
  have "mrel E r' ?s t"
    unfolding mrel_def ch
  proof (intro conjI allI impI ballI)
    show "ms_ok E ?s" by (rule P(1))
    show "ms_chunk E s i = metachunk_bytes (slot_content t i)" for i by (rule R(2))
    show "c < length (fs_chunks t)" "r' c = ms_addr E ?s i" if "fs_slots t i = Some c" for i c
      using that R(3) rs by auto
    show "i = j" if "fs_slots t i = Some c" "fs_slots t j = Some c" for i j c using that by (rule R(5))
    show "c < length (fs_chunks t) " "p < length (ms_cells ?s)" "ms_cells ?s ! p = metachunk_bytes (fs_chunks t ! c)"
      if p: "r' c = Some p" for c p
    proof -
      consider "r c = Some p" | j where "here c j" "p = n + index_of j" using rc [OF p] by blast
      then have "c < length (fs_chunks t) \<and> p < length cs1 \<and> cs1 ! p = metachunk_bytes (fs_chunks t ! c)"
      proof cases
        case 1
        then show ?thesis using R(6) cells' old len by fastforce
      next
        case (2 j)
        then have j: "fs_slots t j = Some c" "ms_addr E ?s j = Some p" by (simp_all add: here_def ad)
        have "ms_cells ?s ! p = metachunk_bytes (slot_content t j)"
          using ms_addr_chunk(2) [OF P(1) j(2)] ch [of j] R(2) [of j] by simp
        then show ?thesis
          using R(3) [OF j(1)] j ms_addr_chunk(1) [OF P(1) j(2)] by (simp add: slot_content_def)
      qed
      then show "c < length (fs_chunks t) " "p < length (ms_cells ?s)" "ms_cells ?s ! p = metachunk_bytes (fs_chunks t ! c)"
        by simp_all
    qed
    show "c = c'" if "r' c = Some p" "r' c' = Some p" for c c' p
      using rc [OF that(1)] rc [OF that(2)] R(9) [of c p c'] old idx by (fastforce simp: here_def)
    show "ms_addr E ?s i \<noteq> Some p" if "fs_slots t i = None" "r' c = Some p" for i c p
    proof
      assume a: "ms_addr E ?s i = Some p"
      from rc [OF that(2)] show False
      proof
        assume c: "r c = Some p"
        then show False using a R(10) [OF that(1) c] old [OF c] unfolding ad by (simp split: if_splits)
      next
        assume "\<exists>j. here c j \<and> p = n + index_of j"
        then obtain j where j: "here c j" "p = n + index_of j" by blast
        show False
        proof (cases "bucket_of i = k")
          case True
          then have "i = j" using a j idx [of i j] unfolding ad by (simp add: here_def)
          then show False using j(1) that(1) by (simp add: here_def)
        next
          case False
          then show False using a j(2) old' [of i p] unfolding ad by simp
        qed
      qed
    qed
    show "i = j" if "ms_addr E ?s i = Some p" "ms_addr E ?s j = Some p" for i j p
      using that R(11) [of i p j] idx [of i j] old' unfolding ad by (fastforce split: if_splits)
    show "metachunk_ok x" if "x \<in> set (fs_chunks t)" for x using that by (rule R(12))
  qed
  moreover have "r \<subseteq>\<^sub>m r'" by (auto simp: map_le_def r'_def)
  ultimately show ?thesis by blast
qed


text \<open>The cell of an object goes into a slot of a bucket in memory; the object is in no other slot.\<close>

lemma mrel_put:
  assumes rel: "mrel E r s t" and A: "mb_cells (mbk E s (bucket_of i)) = Some A"
    and c: "r c = Some p" "\<And>j. fs_slots t j = Some c \<Longrightarrow> j = i"
    and b': "mb_ok E b' (ms_cells s) io'"
      "mb_grows (mbk E s (bucket_of i), ms_cells s, ms_io s) (b', ms_cells s, io')"
      "mb_cells b' = Some (A[index_of i := p])"
  shows "mrel E r (put_meta (bucket_of i) b' (ms_cells s) io' s) (t\<lparr>fs_slots := (fs_slots t)(i \<mapsto> c)\<rparr>)"
    (is "mrel E r ?s ?t")
proof -
  note R = mrelD [OF rel]
  note P = put_meta_grow [OF R(1) b'(1,2)]
  have len: "length A = chunksInBucket" using ms_okD(1) [OF R(1), of "bucket_of i"] A by (simp add: mb_ok_def)
  have idx: "index_of i = index_of j \<longleftrightarrow> j = i" if "bucket_of j = bucket_of i" for j
    using that bucket_index_eqI by metis
  have ad: "ms_addr E ?s j = (if j = i then Some p else ms_addr E s j)" for j
  proof (cases "bucket_of j = bucket_of i")
    case True
    then show ?thesis using A b'(3) idx [OF True] len by (simp add: ms_addr_def nth_list_update)
  next
    case False
    then show ?thesis using P(4) by auto
  qed
  have ch: "ms_chunk E ?s j = metachunk_bytes (slot_content ?t j)" for j
  proof (cases "j = i")
    case True
    then have "ms_chunk E ?s j = ms_cells s ! p" using ms_addr_chunk(2) [OF P(1)] ad [of j] by simp
    then show ?thesis using R(8) [OF c(1)] True by (simp add: slot_content_def)
  next
    case False
    have "ms_chunk E ?s j = ms_chunk E s j"
    proof (cases "bucket_of j = bucket_of i")
      case True
      then have a: "ms_addr E s j = Some (A ! index_of j)" using A by (simp add: ms_addr_def)
      then have "ms_addr E ?s j = Some (A ! index_of j)" using ad [of j] False by simp
      from ms_addr_chunk(2) [OF P(1) this] ms_addr_chunk(2) [OF R(1) a] show ?thesis by simp
    next
      case False
      then show ?thesis by (rule P(2))
    qed
    then show ?thesis using R(2) [of j] False by (simp add: slot_content_def split: option.split)
  qed
  show ?thesis
    unfolding mrel_def ch
  proof (intro conjI allI impI ballI)
    show "ms_ok E ?s" by (rule P(1))
    show "x < length (fs_chunks ?t)" "r x = ms_addr E ?s j" if x: "fs_slots ?t j = Some x" for j x
    proof -
      have "x < length (fs_chunks t) \<and> r x = ms_addr E ?s j"
      proof (cases "j = i")
        case True
        then show ?thesis using x R(6) [OF c(1)] c(1) ad [of j] by simp
      next
        case False
        then show ?thesis using x R(3,4) [of j x] ad [of j] by simp
      qed
      then show "x < length (fs_chunks ?t)" "r x = ms_addr E ?s j" by simp_all
    qed
    show "j = k" if "fs_slots ?t j = Some x" "fs_slots ?t k = Some x" for j k x
      using that c(2) R(5) [of j x k] by (auto split: if_splits)
    show "x < length (fs_chunks ?t)" "q < length (ms_cells ?s)" "ms_cells ?s ! q = metachunk_bytes (fs_chunks ?t ! x)"
      if "r x = Some q" for x q
      using R(6-8) [OF that] by simp_all
    show "x = x'" if "r x = Some q" "r x' = Some q" for x x' q using that by (rule R(9))
    show "ms_addr E ?s j \<noteq> Some q" if "fs_slots ?t j = None" "r x = Some q" for j x q
      using that R(10) [of j x q] ad [of j] by (auto split: if_splits)
    have no: False if "ms_addr E s j = Some p" "j \<noteq> i" for j
    proof (cases "fs_slots t j")
      case None
      from R(10) [OF None c(1)] that show False by simp
    next
      case (Some x)
      then have "r x = Some p" using R(4) that by simp
      then have "x = c" using c(1) R(9) by blast
      then show False using Some c(2) that(2) by blast
    qed
    show "j = k" if "ms_addr E ?s j = Some q" "ms_addr E ?s k = Some q" for j k q
      using that R(11) [of j q k] no [of j] no [of k] unfolding ad by (auto split: if_splits)
    show "metachunk_ok x" if "x \<in> set (fs_chunks ?t)" for x using that R(12) by simp
  qed simp_all
qed

text \<open>Writing through a pointer to a chunk.\<close>

lemma mb_ok_write:
  assumes ok: "mb_ok E b cs io" and x: "length x = chunkSize"
  shows "mb_ok E b (cs[p := x]) io" "mb_hash E b (cs[p := x]) io j = mb_hash E b cs io j"
    "mb_cells b = None \<Longrightarrow> mb_chunk E b (cs[p := x]) io j = mb_chunk E b cs io j"
proof -
  show "mb_hash E b (cs[p := x]) io j = mb_hash E b cs io j" by (rule hash_shown_cong) simp_all
  show v: "mb_chunk E b (cs[p := x]) io j = mb_chunk E b cs io j" if "mb_cells b = None"
    using that by (simp add: mb_view_def)
  show "mb_ok E b (cs[p := x]) io"
  proof (cases "mb_cells b")
    case None
    then have v: "mb_view (cs[p := x]) b = mb_view cs b" by (simp add: mb_view_def)
    show ?thesis using ok None unfolding mb_ok_def v by simp
  next
    case (Some A)
    have "chunks_ok (map (\<lambda>q. cs ! q) A)" "\<forall>q \<in> set A. q < length cs"
      using ok Some by (auto simp: mb_ok_def bucket_ok_def)
    moreover have "length (cs[p := x] ! q) = chunkSize" if "q < length cs" "length (cs ! q) = chunkSize" for q
      using that x by (cases "p = q") simp_all
    ultimately have "chunks_ok (map (\<lambda>q. cs[p := x] ! q) A)" by (simp add: chunks_ok_def blocks_of_def)
    then have "bucket_ok E (mb_view (cs[p := x]) b) io"
      using ok Some by (auto simp: mb_ok_def bucket_ok_def hashes_loadable_def myfilenamehsh_def split: option.splits)
    then show ?thesis using ok by (simp add: mb_ok_def)
  qed
qed

lemma mrel_write:
  assumes rel: "mrel E r s t" and c: "r c = Some p" and m: "metachunk_ok m"
  shows "mrel E r (s\<lparr>ms_cells := (ms_cells s)[p := metachunk_bytes m]\<rparr>) (t\<lparr>fs_chunks := (fs_chunks t)[c := m]\<rparr>)"
    (is "mrel E r ?s ?t")
proof -
  note R = mrelD [OF rel]
  have len: "length (metachunk_bytes m) = chunkSize" using metachunk_bytes_of [OF m] by simp
  have bk: "mbk E ?s k = mbk E s k" for k by (simp add: mbk_def)
  note W = mb_ok_write [OF ms_okD(1) [OF R(1)] len]
  have "blocks_of chunkSize ((ms_cells s)[p := metachunk_bytes m])"
    using R(1) len by (auto simp: ms_ok_def blocks_of_def dest: set_update_subset_insert [THEN subsetD])
  then have ok: "ms_ok E ?s" using R(1) W(1) by (simp add: ms_ok_def bk)
  have ad: "ms_addr E ?s i = ms_addr E s i" for i by (simp add: ms_addr_def bk)
  have sc: "slot_content ?t i = (if fs_slots t i = Some c then m else slot_content t i)" for i
    using R(3) [of i c] by (auto simp: slot_content_def nth_list_update split: option.splits)
  have ch: "ms_chunk E ?s i = metachunk_bytes (slot_content ?t i)" for i
  proof (cases "ms_addr E s i")
    case None
    then have n: "mb_cells (mbk E s (bucket_of i)) = None" by (simp add: ms_addr_def)
    have "fs_slots t i \<noteq> Some c" using R(4) [of i c] c None by auto
    then show ?thesis using W(3) [OF n] R(2) [of i] by (simp add: ms_chunk_def bk sc)
  next
    case (Some q)
    have q: "ms_chunk E ?s i = ms_cells ?s ! q" "ms_chunk E s i = ms_cells s ! q"
      using ms_addr_chunk(2) [OF ok] ms_addr_chunk(2) [OF R(1) Some] Some ad [of i] by simp_all
    show ?thesis
    proof (cases "fs_slots t i = Some c")
      case True
      then have "q = p" using R(4) [OF True] c Some by simp
      then show ?thesis using q(1) R(7) [OF c] True sc by simp
    next
      case False
      have "q \<noteq> p"
      proof (cases "fs_slots t i")
        case None
        then show ?thesis using R(10) [OF None c] Some by simp
      next
        case (Some x)
        then have "r x = Some q" using R(4) \<open>ms_addr E s i = Some q\<close> by simp
        then show ?thesis using R(9) [of x p c] c Some False by auto
      qed
      then show ?thesis using q R(2) [of i] False sc by simp
    qed
  qed
  show ?thesis
    unfolding mrel_def ch ad
  proof (intro conjI allI impI ballI)
    show "x < length (fs_chunks ?t)" "r x = ms_addr E s i" if "fs_slots ?t i = Some x" for i x
      using that R(3,4) [of i x] by simp_all
    show "i = j" if "fs_slots ?t i = Some x" "fs_slots ?t j = Some x" for i j x using that R(5) by simp
    show "x < length (fs_chunks ?t)" "q < length (ms_cells ?s)" "ms_cells ?s ! q = metachunk_bytes (fs_chunks ?t ! x)"
      if q: "r x = Some q" for x q
    proof -
      show "x < length (fs_chunks ?t)" "q < length (ms_cells ?s)" using R(6,7) [OF q] by simp_all
      show "ms_cells ?s ! q = metachunk_bytes (fs_chunks ?t ! x)"
      proof (cases "x = c")
        case True
        then show ?thesis using q c R(6,7) [OF q] by simp
      next
        case False
        then have "q \<noteq> p" using R(9) q c by blast
        then show ?thesis using R(8) [OF q] False by simp
      qed
    qed
    show "metachunk_ok x" if "x \<in> set (fs_chunks ?t)" for x
      using that R(12) m by (auto dest: set_update_subset_insert [THEN subsetD])
    show "ms_addr E s i \<noteq> Some q" if "fs_slots ?t i = None" "r x = Some q" for i x q using that R(10) by simp
  qed (use ok R(9,11) in blast)+
qed


text \<open>A slot in memory without an object gets one for its cell.\<close>

lemma mrel_bind:
  assumes rel: "mrel E r s t" and free: "fs_slots t i = None" and a: "ms_addr E s i = Some p"
    and t': "fs_chunks t' = fs_chunks t @ [MNone]" "fs_slots t' = (fs_slots t)(i \<mapsto> length (fs_chunks t))"
  shows "mrel E (r(length (fs_chunks t) \<mapsto> p)) s t'" (is "mrel E ?r s t'")
proof -
  note R = mrelD [OF rel]
  have p: "p < length (ms_cells s)" "ms_cells s ! p = metachunk_bytes MNone"
    using ms_addr_chunk [OF R(1) a] R(2) [of i] free by (simp_all add: slot_content_def)
  have sc: "slot_content t' j = slot_content t j" for j
    using R(3) [of j] free by (auto simp: slot_content_def t' nth_append split: option.splits)
  have new: "r c \<noteq> Some p" for c using R(10) [OF free] a by blast
  show ?thesis
    unfolding mrel_def sc
  proof (intro conjI allI impI ballI)
    show "c < length (fs_chunks t')" "?r c = ms_addr E s j" if "fs_slots t' j = Some c" for j c
      using that R(3,4) [of j c] a by (auto simp: t' split: if_splits)
    show "j = k" if "fs_slots t' j = Some c" "fs_slots t' k = Some c" for j k c
      using that R(3) [of j c] R(3) [of k c] R(5) [of j c k] by (auto simp: t' split: if_splits)
    show "c < length (fs_chunks t')" "q < length (ms_cells s)" "ms_cells s ! q = metachunk_bytes (fs_chunks t' ! c)"
      if "?r c = Some q" for c q
      using that R(6-8) [of c q] p by (auto simp: t' nth_append split: if_splits)
    show "c = c'" if "?r c = Some q" "?r c' = Some q" for c c' q
      using that R(9) [of c q c'] new by (auto split: if_splits)
    show "ms_addr E s j \<noteq> Some q" if "fs_slots t' j = None" "?r c = Some q" for j c q
    proof
      assume q: "ms_addr E s j = Some q"
      have j: "j \<noteq> i" "fs_slots t j = None" using that(1) by (auto simp: t' split: if_splits)
      then have "q \<noteq> p" using R(11) [OF q] a by blast
      then have "r c = Some q" using that(2) by (auto split: if_splits)
      then show False using R(10) [OF j(2)] q by blast
    qed
    show "metachunk_ok x" if "x \<in> set (fs_chunks t')" for x
      using that R(12) by (auto simp: t' metachunk_ok_def)
  qed (use R(1,2,11) in blast)+
qed

section \<open>Simulation\<close>

text \<open>The relation with the hashes of the slots and the loaded buckets.\<close>

definition msim :: "env \<Rightarrow> (cid \<Rightarrow> addr option) \<Rightarrow> mstore \<Rightarrow> fsys \<Rightarrow> bool" where
  "msim E r s t \<longleftrightarrow> mrel E r s t \<and> (\<forall>i. ms_hash E s i = fs_slotHash t i) \<and>
     (\<forall>k. k \<in> set (fs_metaLoaded t) \<longleftrightarrow> umap_get (ms_loaded s) k \<noteq> None)"

definition loads :: "nat \<Rightarrow> fsys \<Rightarrow> fsys" where
  "loads k t = (if k \<in> set (fs_metaLoaded t) then t else t\<lparr>fs_metaLoaded := fs_metaLoaded t @ [k]\<rparr>)"

lemma mb_load_simps [simp]:
  "fs_slots (loads k t) = fs_slots t" "fs_chunks (loads k t) = fs_chunks t" "fs_slotHash (loads k t) = fs_slotHash t"
  "set (fs_metaLoaded (loads k t)) = insert k (set (fs_metaLoaded t))"
  by (auto simp: loads_def)

lemma meta_getBucket_run: "meta_getBucket k t = Inr ((), loads k t)"
  by (simp add: meta_getBucket_def modifyS_def loads_def)

lemma mb_ok_cells:
  assumes "mb_ok E b cs io" "mb_cells b \<noteq> None" "length A = chunksInBucket" "\<forall>q \<in> set A. q < length cs"
    "blocks_of chunkSize cs"
  shows "mb_ok E (b\<lparr>mb_cells := Some A\<rparr>) cs io"
proof -
  have "\<forall>q \<in> set A. length (cs ! q) = chunkSize" using assms(4,5) by (simp add: blocks_of_def)
  then have "chunks_ok (map (\<lambda>q. cs ! q) A)" using assms(3) by (auto simp: chunks_ok_def blocks_of_def)
  then have "bucket_ok E (mb_view cs (b\<lparr>mb_cells := Some A\<rparr>)) io"
    using assms(1) by (simp add: mb_ok_def bucket_ok_def hashes_loadable_def myfilenamehsh_def split: option.splits)
  then show ?thesis using assms by (auto simp: mb_ok_def)
qed

lemma mb_grows_cells:
  assumes "mb_grows (b, cs, io) (b', cs', io')" "blocks_of chunkSize cs"
  shows "blocks_of chunkSize cs'"
  using assms by (auto simp: mb_grows_def blocks_of_def)

lemma msim_putted:
  assumes sim: "msim E r s t" and c: "r c = Some p" "\<And>j. fs_slots t j = Some c \<Longrightarrow> j = i"
    and put: "mb_putted E (index_of i) h p (mbk E s (bucket_of i), ms_cells s, ms_io s) (b', cs', io')"
  shows "\<exists>r'. r \<subseteq>\<^sub>m r' \<and> msim E r' (put_meta (bucket_of i) b' cs' io' s)
    ((loads (bucket_of i) t)\<lparr>fs_slots := (fs_slots t)(i \<mapsto> c), fs_slotHash := (fs_slotHash t)(i := h)\<rparr>)"
proof -
  let ?k = "bucket_of i" and ?i = "index_of i"
  let ?s = "put_meta ?k b' cs' io' s"
  let ?t = "(loads ?k t)\<lparr>fs_slots := (fs_slots t)(i \<mapsto> c), fs_slotHash := (fs_slotHash t)(i := h)\<rparr>"
  let ?b = "mbk E s ?k"
  have rel: "mrel E r s t" using sim by (simp add: msim_def)
  note R = mrelD [OF rel]
  obtain A where A: "mb_cells b' = Some (A[?i := p])" "length A = chunksInBucket" "cs' ! (A ! ?i) = mb_chunk E ?b (ms_cells s) (ms_io s) ?i"
    "\<forall>q \<in> set A. q < length cs'"
    "if mb_cells ?b = None then \<exists>n. length (ms_cells s) \<le> n \<and> p < n \<and> A = [n..<n + chunksInBucket] else mb_cells ?b = Some A \<and> cs' = ms_cells s"
    using put by (auto simp: mb_putted_def)
  have b': "mb_ok E b' cs' io'" and g: "mb_grows (?b, ms_cells s, ms_io s) (b', cs', io')"
    and v: "\<And>j. j < chunksInBucket \<Longrightarrow> mb_chunk E b' cs' io' j = (if j = ?i then cs' ! p else mb_chunk E ?b (ms_cells s) (ms_io s) j)"
      "\<And>j. j < chunksInBucket \<Longrightarrow> mb_hash E b' cs' io' j = (if j = ?i then h else mb_hash E ?b (ms_cells s) (ms_io s) j)"
    using put by (simp_all add: mb_putted_def)
  have "\<exists>r'. r \<subseteq>\<^sub>m r' \<and> mrel E r' ?s (t\<lparr>fs_slots := (fs_slots t)(i \<mapsto> c)\<rparr>)"
  proof (cases "mb_cells ?b")
    case (Some A')
    then have "A' = A" "cs' = ms_cells s" using A(5) by auto
    with mrel_put [OF rel Some c, of b' io'] b' g A(1) show ?thesis by (intro exI [of _ r]) simp
  next
    case None
    then obtain n where n: "length (ms_cells s) \<le> n" "A = [n..<n + chunksInBucket]" using A(5) by auto
    let ?b1 = "b'\<lparr>mb_cells := Some A\<rparr>"
    have cs: "blocks_of chunkSize cs'"
      using mb_grows_cells [OF g] R(1) by (simp add: ms_ok_def)
    have b1: "mb_ok E ?b1 cs' io'" by (rule mb_ok_cells [OF b' _ A(2,4) cs]) (simp add: A(1))
    have g1: "mb_grows (?b, ms_cells s, ms_io s) (?b1, cs', io')" using g by (simp add: mb_grows_def)
    have same: "mb_chunk E ?b1 cs' io' j = mb_chunk E ?b (ms_cells s) (ms_io s) j" if "j < chunksInBucket" for j
    proof (cases "j = ?i")
      case True
      then show ?thesis using A(2,3) that by (simp add: view_at_def)
    next
      case False
      have "mb_chunk E ?b1 cs' io' j = cs' ! (A ! j)" using A(2) that by (simp add: view_at_def)
      also have "\<dots> = mb_chunk E b' cs' io' j" using A(1,2) that False by (simp add: view_at_def)
      finally show ?thesis using v(1) [OF that] False by simp
    qed
    obtain r1 where r1: "r \<subseteq>\<^sub>m r1" "mrel E r1 (put_meta ?k ?b1 cs' io' s) t"
      using mrel_load [OF rel None b1 g1 _ n(1) same] n(2) by auto
    let ?s1 = "put_meta ?k ?b1 cs' io' s"
    have c1: "r1 c = Some p" using r1(1) c(1) by (force simp: map_le_def)
    have g2: "mb_grows (?b1, cs', io') (b', cs', io')" by (auto simp: mb_grows_def blocks_of_def)
    have "mrel E r1 (put_meta ?k b' cs' io' ?s1) (t\<lparr>fs_slots := (fs_slots t)(i \<mapsto> c)\<rparr>)"
      using mrel_put [OF r1(2) _ c1 c(2), where A = A and b' = b' and io' = io'] b' g2 A(1) by simp
    moreover have "put_meta ?k b' cs' io' ?s1 = ?s" by (simp add: put_meta_def)
    ultimately show ?thesis using r1(1) by auto
  qed
  then obtain r' where r': "r \<subseteq>\<^sub>m r'" "mrel E r' ?s (t\<lparr>fs_slots := (fs_slots t)(i \<mapsto> c)\<rparr>)" by blast
  have "mrel E r' ?s ?t" by (rule mrel_table [OF r'(2)]) simp_all
  moreover have "ms_hash E ?s j = fs_slotHash ?t j" for j
  proof (cases "bucket_of j = ?k")
    case True
    have "index_of j = ?i \<longleftrightarrow> j = i" using True bucket_index_eqI by metis
    moreover have "mb_hash E ?b (ms_cells s) (ms_io s) (index_of j) = fs_slotHash t j"
      using sim True unfolding msim_def ms_hash_def by metis
    ultimately show ?thesis using v(2) [of "index_of j"] True by (simp add: ms_hash_def)
  next
    case False
    then have "j \<noteq> i" by auto
    then show ?thesis using put_meta_grow(3) [OF R(1) b' g False] sim by (simp add: msim_def)
  qed
  moreover have "k \<in> set (fs_metaLoaded ?t) \<longleftrightarrow> umap_get (ms_loaded ?s) k \<noteq> None" for k
    using sim by (auto simp: msim_def)
  ultimately show ?thesis using r'(1) unfolding msim_def by blast
qed


text \<open>Reading a slot.\<close>

lemma sim_getChunk:
  assumes sim: "msim E r s t"
  obtains c t' where "meta_getChunk i t = Inr (c, t')" "fs_slots t' i = Some c"
    "wp (ms_getChunk E i) (\<lambda>p s'. \<exists>r'. r \<subseteq>\<^sub>m r' \<and> msim E r' s' t' \<and> r' c = Some p) s"
proof -
  let ?k = "bucket_of i" and ?i = "index_of i"
  let ?b = "mbk E s ?k"
  let ?t1 = "loads ?k t"
  have rel: "mrel E r s t" using sim by (simp add: msim_def)
  note R = mrelD [OF rel]
  have get: "wp (ms_getChunk E i) (\<lambda>p s'. ms_addr E s' i = Some p \<and> (\<exists>r'. r \<subseteq>\<^sub>m r' \<and> msim E r' s' ?t1)) s"
    unfolding ms_getChunk_def wp_inMeta
  proof (rule wp_mono [OF wp_mb_getChunk [OF ms_okD(1) [OF R(1)] index_of_less]], clarify)
    fix b' cs' io' A
    assume b': "mb_ok E b' cs' io'" and g: "mb_grows (?b, ms_cells s, ms_io s) (b', cs', io')" and A: "mb_cells b' = Some A"
      "if mb_cells ?b = None then A = [length (ms_cells s)..<length (ms_cells s) + chunksInBucket] else b' = ?b \<and> cs' = ms_cells s"
      and v: "\<forall>j < chunksInBucket. mb_chunk E b' cs' io' j = mb_chunk E ?b (ms_cells s) (ms_io s) j \<and>
        mb_hash E b' cs' io' j = mb_hash E ?b (ms_cells s) (ms_io s) j"
    let ?s = "put_meta ?k b' cs' io' s"
    have "\<exists>r'. r \<subseteq>\<^sub>m r' \<and> mrel E r' ?s t"
    proof (cases "mb_cells ?b")
      case None
      then show ?thesis using mrel_load [OF rel None b' g, of "length (ms_cells s)"] A v by simp
    next
      case (Some A')
      then have e: "b' = ?b" "cs' = ms_cells s" using A(2) by auto
      note P = put_meta_grow [OF R(1) b' g]
      have "ms_chunk E ?s j = ms_chunk E s j \<and> ms_addr E ?s j = ms_addr E s j" for j
        using P(2,4) v e by (cases "bucket_of j = ?k") (simp_all add: ms_chunk_def ms_addr_def)
      then have "mrel E r ?s t" using rel P(1) unfolding mrel_def by (simp add: e)
      then show ?thesis by (intro exI [of _ r]) simp
    qed
    then obtain r' where r': "r \<subseteq>\<^sub>m r'" "mrel E r' ?s t" by blast
    have "mrel E r' ?s ?t1" by (rule mrel_table [OF r'(2)]) simp_all
    moreover have "ms_hash E ?s j = fs_slotHash ?t1 j" for j
    proof -
      have "ms_hash E ?s j = ms_hash E s j"
        using put_meta_grow(3) [OF R(1) b' g] v by (cases "bucket_of j = ?k") (simp_all add: ms_hash_def)
      then show ?thesis using sim by (simp add: msim_def)
    qed
    moreover have "k \<in> set (fs_metaLoaded ?t1) \<longleftrightarrow> umap_get (ms_loaded ?s) k \<noteq> None" for k
      using sim by (auto simp: msim_def)
    ultimately have "\<exists>r'. r \<subseteq>\<^sub>m r' \<and> msim E r' ?s ?t1" using r'(1) unfolding msim_def by blast
    then show "ms_addr E ?s i = Some (A ! ?i) \<and> (\<exists>r'. r \<subseteq>\<^sub>m r' \<and> msim E r' ?s ?t1)"
      using A(1) by (simp add: ms_addr_def)
  qed
  show ?thesis
  proof (cases "fs_slots t i")
    case (Some c)
    show ?thesis
    proof (rule that)
      show "meta_getChunk i t = Inr (c, ?t1)"
        using Some by (simp add: meta_getChunk_def bindS_def meta_getBucket_run getS_def returnS_def)
      show "fs_slots ?t1 i = Some c" using Some by simp
      show "wp (ms_getChunk E i) (\<lambda>p s'. \<exists>r'. r \<subseteq>\<^sub>m r' \<and> msim E r' s' ?t1 \<and> r' c = Some p) s"
      proof (rule wp_mono [OF get], clarify)
        fix p s' r' assume a: "ms_addr E s' i = Some p" "r \<subseteq>\<^sub>m r'" "msim E r' s' ?t1"
        then have "r' c = Some p" using mrelD(4) [of E r' s' ?t1 i c] Some by (simp add: msim_def)
        then show "\<exists>r'. r \<subseteq>\<^sub>m r' \<and> msim E r' s' ?t1 \<and> r' c = Some p" using a by blast
      qed
    qed
  next
    case None
    let ?c = "length (fs_chunks t)"
    let ?t2 = "?t1\<lparr>fs_chunks := fs_chunks t @ [MNone], fs_slots := (fs_slots t)(i \<mapsto> ?c)\<rparr>"
    show ?thesis
    proof (rule that)
      show "meta_getChunk i t = Inr (?c, ?t2)"
        using None by (simp add: meta_getChunk_def bindS_def meta_getBucket_run getS_def returnS_def new_metachunk_def modifyS_def)
      show "fs_slots ?t2 i = Some ?c" by simp
      show "wp (ms_getChunk E i) (\<lambda>p s'. \<exists>r'. r \<subseteq>\<^sub>m r' \<and> msim E r' s' ?t2 \<and> r' ?c = Some p) s"
      proof (rule wp_mono [OF get], clarify)
        fix p s' r' assume a: "ms_addr E s' i = Some p" "r \<subseteq>\<^sub>m r'" "msim E r' s' ?t1"
        have rel1: "mrel E r' s' ?t1" using a(3) by (simp add: msim_def)
        let ?r = "r'(?c \<mapsto> p)"
        have "mrel E ?r s' ?t2" by (rule mrel_bind [OF mrel_table [OF rel1, of t, simplified] None a(1)]) simp_all
        then have "msim E ?r s' ?t2" using a(3) by (simp add: msim_def)
        moreover have "r' ?c = None" using mrelD(6) [OF rel1, of ?c] by (cases "r' ?c") auto
        then have "r \<subseteq>\<^sub>m ?r" using a(2) by (force simp: map_le_def)
        ultimately show "\<exists>r'. r \<subseteq>\<^sub>m r' \<and> msim E r' s' ?t2 \<and> r' ?c = Some p" by (intro exI [of _ ?r]) simp
      qed
    qed
  qed
qed


lemma sim_putHashedChunk:
  assumes env: "env_ok E" and sim: "msim E r s t" and c: "r c = Some p" "\<And>j. fs_slots t j = Some c \<Longrightarrow> j = i" and i: "i < 2 ^ 64"
  obtains t' where "meta_putHashedChunk i c t = Inr ((), t')"
    "wp (inMeta E (bucket_of i) (mb_putHashedChunk E i 1 p)) (\<lambda>_ s'. \<exists>r'. r \<subseteq>\<^sub>m r' \<and> msim E r' s' t') s"
proof -
  have rel: "mrel E r s t" using sim by (simp add: msim_def)
  note R = mrelD [OF rel]
  let ?t = "(loads (bucket_of i) t)\<lparr>fs_slots := (fs_slots t)(i \<mapsto> c), fs_slotHash := (fs_slotHash t)(i := True)\<rparr>"
  have p: "p < length (ms_cells s)" "length (ms_cells s ! p) = chunkSize"
    using R(7) [OF c(1)] ms_okD(4) [OF R(1)] by simp_all
  show ?thesis
  proof (rule that)
    show "meta_putHashedChunk i c t = Inr ((), ?t)"
      by (simp add: meta_putHashedChunk_def bindS_def meta_getBucket_run modifyS_def)
    show "wp (inMeta E (bucket_of i) (mb_putHashedChunk E i 1 p)) (\<lambda>_ s'. \<exists>r'. r \<subseteq>\<^sub>m r' \<and> msim E r' s' ?t) s"
      unfolding wp_inMeta
      by (rule wp_mono [OF wp_mb_putHashedChunk [OF env ms_okD(1) [OF R(1)] p i]])
        (use msim_putted [OF sim c] in auto)
  qed
qed

text \<open>A new chunk object that is in no slot yet.\<close>

lemma msim_new:
  assumes sim: "msim E r s t" and m: "metachunk_ok m"
  shows "msim E (r(length (fs_chunks t) \<mapsto> length (ms_cells s))) (s\<lparr>ms_cells := ms_cells s @ [metachunk_bytes m]\<rparr>)
    (t\<lparr>fs_chunks := fs_chunks t @ [m]\<rparr>)" (is "msim E ?r ?s ?t")
proof -
  have rel: "mrel E r s t" using sim by (simp add: msim_def)
  have "ms_hash E ?s i = ms_hash E s i" for i
    using mb_ok_grow(3) [OF ms_okD(1) [OF mrelD(1) [OF rel]] heap_grows_refl]
    by (simp add: ms_hash_def mbk_def)
  then show ?thesis using mrel_new [OF rel m] sim by (simp add: msim_def)
qed

lemma new_held:
  assumes "mrel E r s t"
  shows "r \<subseteq>\<^sub>m r(length (fs_chunks t) \<mapsto> p)"
proof -
  have "r (length (fs_chunks t)) = None" using mrelD(6) [OF assms, of "length (fs_chunks t)"] by (cases "r (length (fs_chunks t))") auto
  then show ?thesis by (force simp: map_le_def)
qed

text \<open>Writing a chunk in place.\<close>

lemma msim_write:
  assumes sim: "msim E r s t" and c: "r c = Some p" and m: "metachunk_ok m"
  shows "msim E r (s\<lparr>ms_cells := (ms_cells s)[p := metachunk_bytes m]\<rparr>) (t\<lparr>fs_chunks := (fs_chunks t)[c := m]\<rparr>)"
proof -
  have rel: "mrel E r s t" using sim by (simp add: msim_def)
  have len: "length (metachunk_bytes m) = chunkSize" using metachunk_bytes_of [OF m] by simp
  have "ms_hash E (s\<lparr>ms_cells := (ms_cells s)[p := metachunk_bytes m]\<rparr>) i = ms_hash E s i" for i
    using mb_ok_write(2) [OF ms_okD(1) [OF mrelD(1) [OF rel]] len] by (simp add: ms_hash_def mbk_def)
  then show ?thesis using mrel_write [OF rel c m] sim by (simp add: msim_def)
qed

lemma sim_clearHashAndChunk:
  assumes sim: "msim E r s t"
  obtains t' where "meta_clearHashAndChunk i t = Inr ((), t')"
    "wp (inMeta E (bucket_of i) (mb_clearHashAndChunk E (index_of i))) (\<lambda>_ s'. \<exists>r'. r \<subseteq>\<^sub>m r' \<and> msim E r' s' t') s"
proof -
  let ?k = "bucket_of i" and ?c = "length (fs_chunks t)" and ?p = "length (ms_cells s)"
  let ?t = "(loads ?k t)\<lparr>fs_chunks := fs_chunks t @ [MNone], fs_slots := (fs_slots t)(i \<mapsto> ?c),
    fs_slotHash := (fs_slotHash t)(i := False)\<rparr>"
  let ?s1 = "s\<lparr>ms_cells := ms_cells s @ [zero_chunk]\<rparr>" and ?t1 = "t\<lparr>fs_chunks := fs_chunks t @ [MNone]\<rparr>"
  have rel: "mrel E r s t" using sim by (simp add: msim_def)
  have sim1: "msim E (r(?c \<mapsto> ?p)) ?s1 ?t1"
    using msim_new [OF sim, of MNone] by (simp add: metachunk_ok_def metachunk_bytes_def)
  have free: "j = i" if "fs_slots ?t1 j = Some ?c" for j using mrelD(3) [OF rel, of j ?c] that by simp
  show ?thesis
  proof (rule that)
    show "meta_clearHashAndChunk i t = Inr ((), ?t)"
      by (simp add: meta_clearHashAndChunk_def bindS_def meta_getBucket_run modifyS_def new_metachunk_def getS_def returnS_def)
    show "wp (inMeta E ?k (mb_clearHashAndChunk E (index_of i))) (\<lambda>_ s'. \<exists>r'. r \<subseteq>\<^sub>m r' \<and> msim E r' s' ?t) s"
      unfolding wp_inMeta
    proof (rule wp_mono [OF wp_mb_clearHashAndChunk [OF ms_okD(1) [OF mrelD(1) [OF rel]] index_of_less]], clarify)
      fix b' cs' io'
      assume put: "mb_putted E (index_of i) False ?p (mbk E s ?k, ms_cells s @ [zero_chunk], ms_io s) (b', cs', io')"
      have bk: "mbk E ?s1 ?k = mbk E s ?k" by (simp add: mbk_def)
      have "\<exists>r'. r(?c \<mapsto> ?p) \<subseteq>\<^sub>m r' \<and> msim E r' (put_meta ?k b' cs' io' ?s1)
          ((loads ?k ?t1)\<lparr>fs_slots := (fs_slots ?t1)(i \<mapsto> ?c), fs_slotHash := (fs_slotHash ?t1)(i := False)\<rparr>)"
        by (rule msim_putted [OF sim1 _ free, where p = ?p]) (use put bk in simp_all)
      then obtain r' where r': "r(?c \<mapsto> ?p) \<subseteq>\<^sub>m r'"
        "msim E r' (put_meta ?k b' cs' io' ?s1)
          ((loads ?k ?t1)\<lparr>fs_slots := (fs_slots ?t1)(i \<mapsto> ?c), fs_slotHash := (fs_slotHash ?t1)(i := False)\<rparr>)" by blast
      have "put_meta ?k b' cs' io' ?s1 = put_meta ?k b' cs' io' s" by (simp add: put_meta_def)
      moreover have "(loads ?k ?t1)\<lparr>fs_slots := (fs_slots ?t1)(i \<mapsto> ?c), fs_slotHash := (fs_slotHash ?t1)(i := False)\<rparr> = ?t"
        by (simp add: loads_def)
      ultimately show "\<exists>r'. r \<subseteq>\<^sub>m r' \<and> msim E r' (put_meta ?k b' cs' io' s) ?t"
        using r' map_le_trans [OF new_held [OF rel] r'(1)] by auto
    qed
  qed
qed

end
