(* ===== verification/Meta_Files.thy ===== *)
theory Meta_Files
  imports Meta_Refine
begin

text \<open>
  The metadata on the disk: sequences of operations on metadata chunks run on the table of slots and on the buckets with their files, and the files after
  \<^verbatim>\<open>storeAllData\<close> as another process finds them.
\<close>

section \<open>Operations on a metadata chunk\<close>

text \<open>
  The ways in which \<^verbatim>\<open>fs.cpp\<close> uses the slot of a metadata chunk: to read it (\<^verbatim>\<open>inoToChunk\<close>), to change it and put it back
  (\<^verbatim>\<open>storeInode\<close>), to change it in place only, to put a new object there, to clear the slot (\<^verbatim>\<open>unlink\<close>), and to store all buckets.
\<close>

datatype meta_call =
  MRead bucketIndex_t | MWrite bucketIndex_t metachunk | MTouch bucketIndex_t metachunk
| MCreate bucketIndex_t metachunk | MClear bucketIndex_t | MStore

fun meta_call_ok :: "meta_call \<Rightarrow> bool" where
  "meta_call_ok (MRead i) = True"
| "meta_call_ok (MWrite i m) = (i < 2 ^ 64 \<and> metachunk_ok m)"
| "meta_call_ok (MTouch i m) = metachunk_ok m"
| "meta_call_ok (MCreate i m) = (i < 2 ^ 64 \<and> metachunk_ok m)"
| "meta_call_ok (MClear i) = True"
| "meta_call_ok MStore = True"

fun table_call :: "meta_call \<Rightarrow> metachunk fs_op" where
  "table_call (MRead i) = bindS (meta_getChunk i) (\<lambda>c. getS (\<lambda>t. fs_chunks t ! c))"
| "table_call (MWrite i m) =
     bindS (meta_getChunk i) (\<lambda>c. bindS (set_chunk c m) (\<lambda>_. bindS (meta_putHashedChunk i c) (\<lambda>_. returnS m)))"
| "table_call (MTouch i m) = bindS (meta_getChunk i) (\<lambda>c. bindS (set_chunk c m) (\<lambda>_. returnS m))"
| "table_call (MCreate i m) =
     bindS new_metachunk (\<lambda>c. bindS (set_chunk c m) (\<lambda>_. bindS (meta_putHashedChunk i c) (\<lambda>_. returnS m)))"
| "table_call (MClear i) = bindS (meta_clearHashAndChunk i) (\<lambda>_. returnS MNone)"
| "table_call MStore = returnS MNone"

definition ms_write :: "addr \<Rightarrow> chunk \<Rightarrow> unit ms_op" where
  "ms_write p c = modifyS (\<lambda>s. s\<lparr>ms_cells := (ms_cells s)[p := c]\<rparr>)"

definition ms_new :: "addr ms_op" where
  "ms_new = (\<lambda>s. Inr (length (ms_cells s), s\<lparr>ms_cells := ms_cells s @ [zero_chunk]\<rparr>))"

definition ms_putHashedChunk :: "env \<Rightarrow> bucketIndex_t \<Rightarrow> addr \<Rightarrow> unit ms_op" where
  "ms_putHashedChunk E i p = inMeta E (bucket_of i) (mb_putHashedChunk E i 1 p)"

definition ms_clearHashAndChunk :: "env \<Rightarrow> bucketIndex_t \<Rightarrow> unit ms_op" where
  "ms_clearHashAndChunk E i = inMeta E (bucket_of i) (mb_clearHashAndChunk E (index_of i))"

fun files_call :: "env \<Rightarrow> meta_call \<Rightarrow> chunk ms_op" where
  "files_call E (MRead i) = bindS (ms_getChunk E i) (\<lambda>p. getS (\<lambda>s. ms_cells s ! p))"
| "files_call E (MWrite i m) =
     bindS (ms_getChunk E i) (\<lambda>p. bindS (ms_write p (metachunk_bytes m)) (\<lambda>_.
     bindS (ms_putHashedChunk E i p) (\<lambda>_. returnS (metachunk_bytes m))))"
| "files_call E (MTouch i m) =
     bindS (ms_getChunk E i) (\<lambda>p. bindS (ms_write p (metachunk_bytes m)) (\<lambda>_. returnS (metachunk_bytes m)))"
| "files_call E (MCreate i m) =
     bindS ms_new (\<lambda>p. bindS (ms_write p (metachunk_bytes m)) (\<lambda>_.
     bindS (ms_putHashedChunk E i p) (\<lambda>_. returnS (metachunk_bytes m))))"
| "files_call E (MClear i) = bindS (ms_clearHashAndChunk E i) (\<lambda>_. returnS zero_chunk)"
| "files_call E MStore = bindS (ms_storeAll E) (\<lambda>_. returnS zero_chunk)"

fun all_calls :: "('c \<Rightarrow> ('s, 'a) op) \<Rightarrow> 'c list \<Rightarrow> ('s, 'a list) op" where
  "all_calls m [] = returnS []"
| "all_calls m (x # xs) = bindS (m x) (\<lambda>a. bindS (all_calls m xs) (\<lambda>r. returnS (a # r)))"

section \<open>Storing all meta buckets\<close>

lemma shown_files:
  assumes "getSystemString io' (myfilenamechnk b) = getSystemString io (myfilenamechnk b)"
    "getSystemString io' (myfilenamehsh b) = getSystemString io (myfilenamehsh b)"
  shows "chunk_view E b io' = chunk_view E b io" "hashes_loadable E b io' = hashes_loadable E b io"
    "view_at E b io' j = view_at E b io j" "hash_shown E b io' j = hash_shown E b io j"
proof -
  show "chunk_view E b io' = chunk_view E b io" using assms by (simp add: chunk_view_def split: option.splits)
  then show "view_at E b io' j = view_at E b io j" by (simp add: view_at_def)
  show "hashes_loadable E b io' = hashes_loadable E b io" using assms by (simp add: hashes_loadable_def split: option.splits)
  show "hash_shown E b io' j = hash_shown E b io j" using assms by (simp add: hash_shown_def split: option.splits)
qed

lemma mb_ok_files:
  assumes "mb_ok E b cs io" "io_heap io' = io_heap io"
    and "getSystemString io' (mb_base b @ ''.chnk'') = getSystemString io (mb_base b @ ''.chnk'')"
    and "getSystemString io' (mb_base b @ ''.hsh'') = getSystemString io (mb_base b @ ''.hsh'')"
  shows "mb_ok E b cs io'" "mb_chunk E b cs io' j = mb_chunk E b cs io j" "mb_hash E b cs io' j = mb_hash E b cs io j"
    "mb_saved E b cs io' = mb_saved E b cs io"
proof -
  have v: "getSystemString io' (myfilenamechnk (mb_view cs b)) = getSystemString io (myfilenamechnk (mb_view cs b))"
      "getSystemString io' (myfilenamehsh (mb_view cs b)) = getSystemString io (myfilenamehsh (mb_view cs b))"
    and n: "getSystemString io' (myfilenamechnk (bucket_new (mb_base b))) = getSystemString io (myfilenamechnk (bucket_new (mb_base b)))"
      "getSystemString io' (myfilenamehsh (bucket_new (mb_base b))) = getSystemString io (myfilenamehsh (bucket_new (mb_base b)))"
    using assms(3,4) by (simp_all add: myfilenamechnk_def myfilenamehsh_def)
  have h: "hashes_sized H io' = hashes_sized H io" "mhash_ok io' = mhash_ok io" for H
    by (simp_all add: hashes_sized_def mhash_ok_def assms(2) fun_eq_iff)
  show "mb_ok E b cs io'"
    using assms(1) by (simp add: mb_ok_def bucket_ok_def shown_files [OF v] shown_files [OF n] h)
  show "mb_chunk E b cs io' j = mb_chunk E b cs io j" "mb_hash E b cs io' j = mb_hash E b cs io j"
    by (rule shown_files [OF v])+
  show "mb_saved E b cs io' = mb_saved E b cs io"
    by (simp add: mb_saved_def shown_files [OF v] shown_files [OF n])
qed

text \<open>Two states that show the same, with the same cells.\<close>

definition ms_same :: "env \<Rightarrow> mstore \<Rightarrow> mstore \<Rightarrow> bool" where
  "ms_same E s s' \<longleftrightarrow> ms_ok E s' \<and> ms_cells s' = ms_cells s \<and>
     (\<forall>i. ms_chunk E s' i = ms_chunk E s i \<and> ms_hash E s' i = ms_hash E s i \<and> ms_addr E s' i = ms_addr E s i) \<and>
     (\<forall>k. umap_get (ms_loaded s') k = None \<longleftrightarrow> umap_get (ms_loaded s) k = None)"

lemma ms_same_refl: "ms_ok E s \<Longrightarrow> ms_same E s s"
  by (simp add: ms_same_def)

lemma ms_same_trans: "ms_same E a b \<Longrightarrow> ms_same E b c \<Longrightarrow> ms_same E a c"
  by (simp add: ms_same_def)

lemma msim_same: "msim E r s t \<Longrightarrow> ms_same E s s' \<Longrightarrow> msim E r s' t"
  by (simp add: msim_def mrel_def ms_same_def)

text \<open>Nothing of the bucket is lost if it is stored now and its memory is dropped.\<close>

definition mb_safe :: "env \<Rightarrow> mbucket \<Rightarrow> chunk list \<Rightarrow> bio \<Rightarrow> bool" where
  "mb_safe E b cs io \<longleftrightarrow> (if mb_dirty b then mb_used b else mb_saved E b cs io)"

lemma wp_store_one:
  assumes env: "env_ok E" and names: "inj (getBucketFilename E)" and ok: "ms_ok E s"
    and k: "umap_get (ms_loaded s) k \<noteq> None"
  shows "wp (inMeta E k (mb_store E)) (\<lambda>_ s'. ms_same E s s' \<and> \<not> mb_dirty (mbk E s' k) \<and>
    (mb_safe E (mbk E s k) (ms_cells s) (ms_io s) \<longrightarrow> mb_saved E (mbk E s' k) (ms_cells s') (ms_io s')) \<and>
    (\<forall>j. j \<noteq> k \<longrightarrow> mbk E s' j = mbk E s j \<and>
       mb_saved E (mbk E s' j) (ms_cells s') (ms_io s') = mb_saved E (mbk E s j) (ms_cells s) (ms_io s))) s"
  unfolding wp_inMeta
proof (rule wp_mono [OF wp_mb_store [OF env ms_okD(1) [OF ok]]], clarify)
  fix b' cs' io'
  assume st: "mb_stored E (mbk E s k, ms_cells s, ms_io s) (b', cs', io')"
  let ?s = "put_meta k b' cs' io' s"
  let ?b = "mbk E s k"
  have cs: "cs' = ms_cells s" using st by (simp add: mb_stored_def)
  have b': "mb_ok E b' cs' io'" "mb_base b' = mb_base ?b" "mb_cells b' = mb_cells ?b" "\<not> mb_dirty b'"
    and heap: "io_heap io' = io_heap (ms_io s)"
    and files: "\<And>f. f \<noteq> mb_base ?b @ ''.hsh'' \<Longrightarrow> f \<noteq> mb_base ?b @ ''.chnk'' \<Longrightarrow> io_disk io' f = io_disk (ms_io s) f"
    and v: "\<And>j. j < chunksInBucket \<Longrightarrow> mb_chunk E b' cs' io' j = mb_chunk E ?b (ms_cells s) (ms_io s) j"
      "\<And>j. j < chunksInBucket \<Longrightarrow> mb_hash E b' cs' io' j = mb_hash E ?b (ms_cells s) (ms_io s) j"
    and saved: "if mb_dirty ?b then mb_used ?b \<longrightarrow> mb_saved E b' cs' io' else b' = ?b \<and> io' = ms_io s"
    using st unfolding mb_stored_def case_prod_conv by blast+
  have other: "mb_ok E (mbk E s j) (ms_cells s) io' \<and>
      mb_chunk E (mbk E s j) (ms_cells s) io' n = mb_chunk E (mbk E s j) (ms_cells s) (ms_io s) n \<and>
      mb_hash E (mbk E s j) (ms_cells s) io' n = mb_hash E (mbk E s j) (ms_cells s) (ms_io s) n \<and>
      mb_saved E (mbk E s j) (ms_cells s) io' = mb_saved E (mbk E s j) (ms_cells s) (ms_io s)" if "j \<noteq> k" for j n
  proof -
    have ne: "mb_base (mbk E s j) \<noteq> mb_base ?b"
      using names that by (auto simp: ms_okD(2) [OF ok] dest: injD)
    have "last (x @ ''.hsh'') \<noteq> last (y @ ''.chnk'')" for x y :: string by simp
    then have "x @ ''.hsh'' \<noteq> y @ ''.chnk''" for x y :: string by metis
    then have f: "getSystemString io' (mb_base (mbk E s j) @ ''.chnk'') = getSystemString (ms_io s) (mb_base (mbk E s j) @ ''.chnk'')"
        "getSystemString io' (mb_base (mbk E s j) @ ''.hsh'') = getSystemString (ms_io s) (mb_base (mbk E s j) @ ''.hsh'')"
      using files ne by (simp_all add: getSystemString_def)
    show ?thesis using mb_ok_files [OF ms_okD(1) [OF ok] heap f] by blast
  qed
  have ok': "ms_ok E ?s"
    using ok b' other cs ms_okD(2) [OF ok] unfolding ms_ok_def by (simp add: put_meta_def mbk_def)
  have "ms_chunk E ?s i = ms_chunk E s i \<and> ms_hash E ?s i = ms_hash E s i \<and> ms_addr E ?s i = ms_addr E s i" for i
    using other [of "bucket_of i" "index_of i"] v b'(3) cs
    by (cases "bucket_of i = k") (simp_all add: ms_chunk_def ms_hash_def ms_addr_def)
  then have "ms_same E s ?s" using ok' cs k by (auto simp: ms_same_def)
  moreover have "mb_safe E ?b (ms_cells s) (ms_io s) \<longrightarrow> mb_saved E b' cs' io'"
    using saved cs by (auto simp: mb_safe_def split: if_splits)
  ultimately show "ms_same E s ?s \<and> \<not> mb_dirty (mbk E ?s k) \<and>
    (mb_safe E (mbk E s k) (ms_cells s) (ms_io s) \<longrightarrow> mb_saved E (mbk E ?s k) (ms_cells ?s) (ms_io ?s)) \<and>
    (\<forall>j. j \<noteq> k \<longrightarrow> mbk E ?s j = mbk E s j \<and>
       mb_saved E (mbk E ?s j) (ms_cells ?s) (ms_io ?s) = mb_saved E (mbk E s j) (ms_cells s) (ms_io s))"
    using other cs b'(4) by simp
qed


lemma wp_ms_storeAll:
  assumes env: "env_ok E" and names: "inj (getBucketFilename E)" and ok: "ms_ok E s"
  shows "wp (ms_storeAll E) (\<lambda>_ s'. ms_same E s s' \<and> (\<forall>k. \<not> mb_dirty (mbk E s' k)) \<and>
    ((\<forall>k. mb_safe E (mbk E s k) (ms_cells s) (ms_io s)) \<longrightarrow>
       (\<forall>k. mb_saved E (mbk E s' k) (ms_cells s') (ms_io s')))) s"
proof -
  let ?safe = "\<lambda>k s. mb_safe E (mbk E s k) (ms_cells s) (ms_io s)"
  let ?saved = "\<lambda>k s. mb_saved E (mbk E s k) (ms_cells s) (ms_io s)"
  let ?ids = "map fst (umap_clone (ms_loaded s))"
  have ids: "set ?ids = {k. umap_get (ms_loaded s) k \<noteq> None}"
    by (force simp: umap_clone_def umap_get_def map_of_eq_None_iff)
  have dist: "distinct ?ids" using ok by (simp add: ms_ok_def umap_inv_def umap_clone_def)
  have new: "?saved k s" if "umap_get (ms_loaded s) k = None" for k
  proof -
    have "mbk E s k = mbucket_new (getBucketFilename E k)" using that by (simp add: mbk_def)
    then show ?thesis by (simp add: mb_saved_def) (simp add: mbucket_new_def)
  qed
  have clean: "\<not> mb_dirty (mbk E s k)" if "umap_get (ms_loaded s) k = None" for k
    using that by (simp add: mbk_def mb_dirty_def mbucket_new_def)
  define I where "I xs s1 \<longleftrightarrow> distinct xs \<and> set xs \<subseteq> set ?ids \<and> ms_same E s s1 \<and> (\<forall>k \<in> set xs. mbk E s1 k = mbk E s k \<and>
      ?saved k s1 = ?saved k s) \<and> (\<forall>k. k \<notin> set xs \<longrightarrow> \<not> mb_dirty (mbk E s1 k)) \<and> ((\<forall>k. ?safe k s) \<longrightarrow> (\<forall>k. k \<notin> set xs \<longrightarrow> ?saved k s1))" for xs s1
  have "wp (forS ?ids (\<lambda>k. inMeta E k (mb_store E))) (\<lambda>_ s'. ms_same E s s' \<and>
      (\<forall>k. \<not> mb_dirty (mbk E s' k)) \<and> ((\<forall>k. ?safe k s) \<longrightarrow> (\<forall>k. ?saved k s'))) s"
  proof (rule wp_for [where I = I])
    show "I ?ids s" using dist ids new clean ms_same_refl [OF ok] unfolding I_def by auto
    show "wp (inMeta E k (mb_store E)) (\<lambda>_. I xs) s1" if I: "I (k # xs) s1" for k xs s1
    proof -
      have same: "ms_same E s s1" and k: "k \<in> set ?ids" "k \<notin> set xs" "mbk E s1 k = mbk E s k" "?saved k s1 = ?saved k s"
        and xs: "distinct xs" "set xs \<subseteq> set ?ids" "\<forall>j \<in> set xs. mbk E s1 j = mbk E s j \<and> ?saved j s1 = ?saved j s"
        and cl: "\<forall>j. j \<notin> set (k # xs) \<longrightarrow> \<not> mb_dirty (mbk E s1 j)"
        and rest: "(\<forall>k. ?safe k s) \<longrightarrow> (\<forall>j. j \<notin> set (k # xs) \<longrightarrow> ?saved j s1)"
        using I unfolding I_def list.set distinct.simps by blast+
      have ok1: "ms_ok E s1" and l1: "umap_get (ms_loaded s1) k \<noteq> None"
        using same k(1) ids by (auto simp: ms_same_def)
      have safe: "?safe k s1 = ?safe k s" using k(3,4) by (simp add: mb_safe_def)
      show ?thesis
      proof (rule wp_mono [OF wp_store_one [OF env names ok1 l1]], clarify)
        fix s'
        assume s': "ms_same E s1 s'" "\<not> mb_dirty (mbk E s' k)" "?safe k s1 \<longrightarrow> ?saved k s'"
          "\<forall>j. j \<noteq> k \<longrightarrow> mbk E s' j = mbk E s1 j \<and> ?saved j s' = ?saved j s1"
        have "\<forall>j \<in> set xs. mbk E s' j = mbk E s j \<and> ?saved j s' = ?saved j s" using s'(4) xs(3) k(2) by metis
        moreover have "(\<forall>k. ?safe k s) \<longrightarrow> (\<forall>j. j \<notin> set xs \<longrightarrow> ?saved j s')"
          using s'(3,4) rest safe by (metis set_ConsD)
        moreover have "\<forall>j. j \<notin> set xs \<longrightarrow> \<not> mb_dirty (mbk E s' j)" using s'(2,4) cl by (metis set_ConsD)
        ultimately show "I xs s'" using xs ms_same_trans [OF same s'(1)] unfolding I_def by blast
      qed
    qed
    show "ms_same E s s' \<and> (\<forall>k. \<not> mb_dirty (mbk E s' k)) \<and> ((\<forall>k. ?safe k s) \<longrightarrow> (\<forall>k. ?saved k s'))" if "I [] s'" for s'
      using that by (simp add: I_def)
  qed
  then show ?thesis by (simp add: ms_storeAll_def)
qed

text \<open>Another process on the files of a state that is saved.\<close>

lemma msim_remount:
  assumes sim: "msim E r s t" and saved: "\<And>k. mb_saved E (mbk E s k) (ms_cells s) (ms_io s)"
  shows "msim E (\<lambda>_. None) (ms_remount s) (t\<lparr>fs_metaLoaded := []\<rparr>)"
proof -
  let ?s = "ms_remount s"
  have rel: "mrel E r s t" using sim by (simp add: msim_def)
  note R = mrelD [OF rel]
  have bk: "mbk E ?s k = mbucket_new (getBucketFilename E k)" for k by (simp add: mbk_def ms_remount_def)
  have base: "mb_base (mbk E s k) = getBucketFilename E k" for k by (rule ms_okD(2) [OF R(1)])
  have io: "io_disk (ms_io ?s) = io_disk (ms_io s)" "ms_cells ?s = []" by (simp_all add: ms_remount_def)
  have "bucket_ok E (bucket_new (getBucketFilename E k)) (ms_io s)" for k
    using ms_okD(1) [OF R(1), of k] base [of k] by (simp add: mb_ok_def)
  then have "bucket_ok E (bucket_new (getBucketFilename E k)) (ms_io ?s)" for k
    by (simp add: bucket_ok_def view_cong [OF io(1)])
  then have ok: "ms_ok E ?s"
    by (simp add: ms_ok_def mb_ok_def bk) (simp add: ms_remount_def mbucket_new_def blocks_of_def)
  have "mb_chunk E (mbk E ?s k) [] (ms_io ?s) j = mb_chunk E (mbk E s k) (ms_cells s) (ms_io s) j \<and>
      mb_hash E (mbk E ?s k) [] (ms_io ?s) j = mb_hash E (mbk E s k) (ms_cells s) (ms_io s) j" if "j < chunksInBucket" for k j
    using saved [of k] that view_cong(3) [OF io(1)] hash_shown_cong [OF io(1) refl refl]
    by (simp add: mb_saved_def base bk)
  then have v: "ms_chunk E ?s i = ms_chunk E s i" "ms_hash E ?s i = ms_hash E s i" for i
    by (simp_all add: ms_chunk_def ms_hash_def io(2))
  have ad: "ms_addr E ?s i = None" for i by (simp add: ms_addr_def bk) (simp add: mbucket_new_def)
  have sc: "slot_content (t\<lparr>fs_metaLoaded := []\<rparr>) i = slot_content t i" for i by (simp add: slot_content_def split: option.split)
  have "mrel E (\<lambda>_. None) ?s (t\<lparr>fs_metaLoaded := []\<rparr>)"
    unfolding mrel_def ad v sc using ok R(2,3,12) R(5) by auto
  then show ?thesis using sim v(2) by (simp add: msim_def ms_remount_def)
qed

section \<open>The calls\<close>

lemma map_leD: "r \<subseteq>\<^sub>m r' \<Longrightarrow> r c = Some p \<Longrightarrow> r' c = Some p"
  by (force simp: map_le_def)

text \<open>An object that is in slot \<open>i\<close> is in no other one.\<close>

lemma msim_only: "msim E r s t \<Longrightarrow> fs_slots t i = Some c \<Longrightarrow> fs_slots t j = Some c \<Longrightarrow> j = i"
  using mrelD(5) by (fastforce simp: msim_def)

lemma call_refines:
  assumes env: "env_ok E" and names: "inj (getBucketFilename E)" and sim: "msim E r s t" and call: "meta_call_ok x"
  shows "\<exists>m t'. table_call x t = Inr (m, t') \<and>
    wp (files_call E x) (\<lambda>b s'. b = metachunk_bytes m \<and> (\<exists>r'. msim E r' s' t')) s"
proof (cases x)
  case (MRead i)
  obtain c t' where g: "meta_getChunk i t = Inr (c, t')" "fs_slots t' i = Some c"
    "wp (ms_getChunk E i) (\<lambda>p s'. \<exists>r'. r \<subseteq>\<^sub>m r' \<and> msim E r' s' t' \<and> r' c = Some p) s"
    by (rule sim_getChunk [OF sim])
  have "table_call x t = Inr (fs_chunks t' ! c, t')" using g(1) by (simp add: MRead bindS_def getS_def)
  moreover have "wp (files_call E x) (\<lambda>b s'. b = metachunk_bytes (fs_chunks t' ! c) \<and> (\<exists>r'. msim E r' s' t')) s"
    unfolding MRead files_call.simps wp_bind wp_get
    by (rule wp_mono [OF g(3)]) (use mrelD(8) in \<open>fastforce simp: msim_def\<close>)
  ultimately show ?thesis by blast
next
  case (MTouch i m)
  obtain c t' where g: "meta_getChunk i t = Inr (c, t')" "fs_slots t' i = Some c"
    "wp (ms_getChunk E i) (\<lambda>p s'. \<exists>r'. r \<subseteq>\<^sub>m r' \<and> msim E r' s' t' \<and> r' c = Some p) s"
    by (rule sim_getChunk [OF sim])
  let ?t = "t'\<lparr>fs_chunks := (fs_chunks t')[c := m]\<rparr>"
  have "table_call x t = Inr (m, ?t)" using g(1) by (simp add: MTouch bindS_def set_chunk_def modifyS_def returnS_def)
  moreover have "wp (files_call E x) (\<lambda>b s'. b = metachunk_bytes m \<and> (\<exists>r'. msim E r' s' ?t)) s"
    unfolding MTouch files_call.simps wp_bind
    by (rule wp_mono [OF g(3)]) (use call in \<open>auto simp: ms_write_def MTouch intro: msim_write\<close>)
  ultimately show ?thesis by blast
next
  case (MWrite i m)
  obtain c t1 where g: "meta_getChunk i t = Inr (c, t1)" "fs_slots t1 i = Some c"
    "wp (ms_getChunk E i) (\<lambda>p s'. \<exists>r'. r \<subseteq>\<^sub>m r' \<and> msim E r' s' t1 \<and> r' c = Some p) s"
    by (rule sim_getChunk [OF sim])
  let ?t = "t1\<lparr>fs_chunks := (fs_chunks t1)[c := m]\<rparr>"
  have i: "i < 2 ^ 64" "metachunk_ok m" using call by (simp_all add: MWrite)
  define t' where "t' = snd (projr (meta_putHashedChunk i c ?t))"
  have t': "meta_putHashedChunk i c ?t = Inr ((), t')"
    by (simp add: t'_def meta_putHashedChunk_def bindS_def meta_getBucket_run modifyS_def)
  have put: "wp (ms_putHashedChunk E i p) (\<lambda>_ s'. \<exists>r'. msim E r' s' t') s2"
    if s2: "msim E r2 s2 ?t" "r2 c = Some p" for r2 s2 p
  proof -
    have only: "fs_slots ?t j = Some c \<Longrightarrow> j = i" for j using msim_only [OF s2(1), of i c j] g(2) by simp
    obtain t'' where "meta_putHashedChunk i c ?t = Inr ((), t'')"
      "wp (inMeta E (bucket_of i) (mb_putHashedChunk E i 1 p)) (\<lambda>_ s'. \<exists>r'. r2 \<subseteq>\<^sub>m r' \<and> msim E r' s' t'') s2"
      by (rule sim_putHashedChunk [OF env s2 only i(1)])
    then show ?thesis using t' unfolding ms_putHashedChunk_def by (auto elim!: wp_mono)
  qed
  have "table_call x t = Inr (m, t')" using g(1) t' by (simp add: MWrite bindS_def set_chunk_def modifyS_def returnS_def)
  moreover have "wp (files_call E x) (\<lambda>b s'. b = metachunk_bytes m \<and> (\<exists>r'. msim E r' s' t')) s"
    unfolding MWrite files_call.simps wp_bind
  proof (rule wp_mono [OF g(3)], clarify)
    fix p s' r' assume a: "msim E r' s' t1" "r' c = Some p"
    show "wp (ms_write p (metachunk_bytes m)) (\<lambda>_. wp (ms_putHashedChunk E i p) (\<lambda>_. wp (returnS (metachunk_bytes m))
        (\<lambda>b s'. b = metachunk_bytes m \<and> (\<exists>r'. msim E r' s' t')))) s'"
      using put [OF msim_write [OF a i(2)] a(2)] by (simp add: ms_write_def)
  qed
  ultimately show ?thesis by blast
next
  case (MCreate i m)
  let ?c = "length (fs_chunks t)" and ?p = "length (ms_cells s)"
  let ?t = "t\<lparr>fs_chunks := fs_chunks t @ [m]\<rparr>" and ?s = "s\<lparr>ms_cells := ms_cells s @ [metachunk_bytes m]\<rparr>"
  have i: "i < 2 ^ 64" "metachunk_ok m" using call by (simp_all add: MCreate)
  have rel: "mrel E r s t" using sim by (simp add: msim_def)
  have sim1: "msim E (r(?c \<mapsto> ?p)) ?s ?t" by (rule msim_new [OF sim i(2)])
  have only: "fs_slots ?t j = Some ?c \<Longrightarrow> j = i" for j using mrelD(3) [OF rel, of j ?c] by auto
  obtain t' where t': "meta_putHashedChunk i ?c ?t = Inr ((), t')"
    "wp (inMeta E (bucket_of i) (mb_putHashedChunk E i 1 ?p)) (\<lambda>_ s'. \<exists>r'. r(?c \<mapsto> ?p) \<subseteq>\<^sub>m r' \<and> msim E r' s' t') ?s"
    by (rule sim_putHashedChunk [OF env sim1 _ only i(1)]) auto
  have "table_call x t = Inr (m, t')"
    using t'(1) by (simp add: MCreate bindS_def set_chunk_def modifyS_def returnS_def new_metachunk_def getS_def)
  moreover have "wp (files_call E x) (\<lambda>b s'. b = metachunk_bytes m \<and> (\<exists>r'. msim E r' s' t')) s"
  proof -
    have "wp (ms_putHashedChunk E i ?p) (\<lambda>_ s'. \<exists>r'. msim E r' s' t') ?s"
      unfolding ms_putHashedChunk_def by (rule wp_mono [OF t'(2)]) blast
    then show ?thesis by (simp add: MCreate ms_new_def ms_write_def wpx_def bindS_def modifyS_def returnS_def split: sum.splits)
  qed
  ultimately show ?thesis by blast
next
  case (MClear i)
  obtain t' where t': "meta_clearHashAndChunk i t = Inr ((), t')"
    "wp (inMeta E (bucket_of i) (mb_clearHashAndChunk E (index_of i))) (\<lambda>_ s'. \<exists>r'. r \<subseteq>\<^sub>m r' \<and> msim E r' s' t') s"
    by (rule sim_clearHashAndChunk [OF sim])
  have "table_call x t = Inr (MNone, t')" using t'(1) by (simp add: MClear bindS_def returnS_def)
  moreover have "wp (files_call E x) (\<lambda>b s'. b = metachunk_bytes MNone \<and> (\<exists>r'. msim E r' s' t')) s"
    unfolding MClear files_call.simps ms_clearHashAndChunk_def wp_bind
    by (rule wp_mono [OF t'(2)]) (auto simp: metachunk_bytes_def)
  ultimately show ?thesis by blast
next
  case MStore
  have "ms_ok E s" using sim mrelD(1) by (auto simp: msim_def)
  then have "wp (files_call E x) (\<lambda>b s'. b = metachunk_bytes MNone \<and> (\<exists>r'. msim E r' s' t)) s"
    unfolding MStore files_call.simps wp_bind
    by (intro wp_mono [OF wp_ms_storeAll [OF env names]]) (use msim_same [OF sim] in \<open>auto simp: metachunk_bytes_def\<close>)
  then show ?thesis by (simp add: MStore returnS_def)
qed


section \<open>Calls that leave nothing behind\<close>

definition ms_safe :: "env \<Rightarrow> mstore \<Rightarrow> bool" where
  "ms_safe E s \<longleftrightarrow> (\<forall>k. mb_safe E (mbk E s k) (ms_cells s) (ms_io s))"

text \<open>
  A change in place alone does not mark the bucket as changed, and the store of a bucket whose slots are all cleared writes nothing: only
  the other calls keep the state safe.
\<close>

fun meta_call_puts :: "meta_call \<Rightarrow> bool" where
  "meta_call_puts (MTouch i m) = False"
| "meta_call_puts (MClear i) = False"
| "meta_call_puts _ = True"

lemma mb_saved_grow:
  assumes "mb_ok E b cs io" "heap_grows io io'"
  shows "mb_saved E b (cs @ xs) io' = mb_saved E b cs io"
  using mb_ok_grow(2,3) [OF assms] view_cong(3) [OF heap_growsD(1) [OF assms(2)]]
    hash_shown_cong [OF heap_growsD(1) [OF assms(2)] refl refl]
  by (simp add: mb_saved_def)

lemma grow_safe:
  assumes ok: "ms_ok E s" and g: "mb_grows (mbk E s k, ms_cells s, ms_io s) (b', cs', io')" and j: "j \<noteq> k"
  shows "mb_safe E (mbk E (put_meta k b' cs' io' s) j) cs' io' = mb_safe E (mbk E s j) (ms_cells s) (ms_io s)"
  using g j mb_saved_grow [OF ms_okD(1) [OF ok]] by (auto simp: mb_grows_def mb_safe_def)

lemma wp_getChunk_safe:
  assumes ok: "ms_ok E s" and safe: "ms_safe E s"
  shows "wp (ms_getChunk E i) (\<lambda>p s'. ms_safe E s' \<and> ms_addr E s' i = Some p) s"
  unfolding ms_getChunk_def wp_inMeta
proof (rule wp_mono [OF wp_mb_getChunk [OF ms_okD(1) [OF ok] index_of_less]], clarify)
  let ?k = "bucket_of i"
  let ?b = "mbk E s ?k"
  fix b' cs' io' A
  assume g: "mb_grows (?b, ms_cells s, ms_io s) (b', cs', io')" and A: "mb_cells b' = Some A"
    and same: "mb_hashes b' = mb_hashes ?b" "mb_hashChanges b' = mb_hashChanges ?b" "mb_chunkChanges b' = mb_chunkChanges ?b"
    and v: "\<forall>j < chunksInBucket. mb_chunk E b' cs' io' j = mb_chunk E ?b (ms_cells s) (ms_io s) j \<and>
      mb_hash E b' cs' io' j = mb_hash E ?b (ms_cells s) (ms_io s) j"
  have base: "mb_base b' = mb_base ?b" and h: "heap_grows (ms_io s) io'" using g by (auto simp: mb_grows_def)
  note d = heap_growsD(1) [OF h]
  have "mb_saved E b' cs' io' = mb_saved E ?b (ms_cells s) (ms_io s)"
    using v view_cong(3) [OF d] hash_shown_cong [OF d refl refl] by (simp add: mb_saved_def base)
  moreover have "mb_dirty b' = mb_dirty ?b" "mb_used b' = mb_used ?b" using same by (simp_all add: mb_dirty_def mb_used_def)
  ultimately have "mb_safe E b' cs' io'" using safe by (simp add: ms_safe_def mb_safe_def)
  then have "mb_safe E (mbk E (put_meta ?k b' cs' io' s) j) cs' io'" for j
    using grow_safe [OF ok g] safe by (cases "j = ?k") (simp_all add: ms_safe_def)
  then show "ms_safe E (put_meta ?k b' cs' io' s) \<and> ms_addr E (put_meta ?k b' cs' io' s) i = Some (A ! index_of i)"
    using A by (simp add: ms_safe_def ms_addr_def)
qed

lemma wp_put_safe:
  assumes env: "env_ok E" and ok: "ms_ok E s" and p: "p < length (ms_cells s)" and i: "i < 2 ^ 64"
    and safe: "\<And>k. k \<noteq> bucket_of i \<Longrightarrow> mb_safe E (mbk E s k) (ms_cells s) (ms_io s)"
  shows "wp (ms_putHashedChunk E i p) (\<lambda>_. ms_safe E) s"
  unfolding ms_putHashedChunk_def wp_inMeta
proof (rule wp_mono [OF wp_mb_putHashedChunk [OF env ms_okD(1) [OF ok] p ms_okD(4) [OF ok p] i]], simp, simp, clarify)
  fix b' cs' io'
  let ?k = "bucket_of i"
  assume put: "mb_putted E (index_of i) True p (mbk E s ?k, ms_cells s, ms_io s) (b', cs', io')"
  then have g: "mb_grows (mbk E s ?k, ms_cells s, ms_io s) (b', cs', io')" and "mb_dirty b'" "mb_used b'"
    by (auto simp: mb_putted_def mb_dirty_def mb_used_def)
  then have "mb_safe E (mbk E (put_meta ?k b' cs' io' s) j) cs' io'" for j
    using grow_safe [OF ok g] safe by (cases "j = ?k") (simp_all add: mb_safe_def)
  then show "ms_safe E (put_meta ?k b' cs' io' s)" by (simp add: ms_safe_def)
qed

text \<open>The cell of a slot is in no other bucket.\<close>

lemma write_safe:
  assumes rel: "mrel E r s t" and safe: "ms_safe E s" and a: "ms_addr E s i = Some p" and k: "k \<noteq> bucket_of i"
  shows "mb_safe E (mbk E s k) ((ms_cells s)[p := x]) (ms_io s)"
proof -
  note R = mrelD [OF rel]
  have "mb_view ((ms_cells s)[p := x]) (mbk E s k) = mb_view (ms_cells s) (mbk E s k)"
  proof (cases "mb_cells (mbk E s k)")
    case None
    then show ?thesis by (simp add: mb_view_def)
  next
    case (Some A)
    then have len: "length A = chunksInBucket" using ms_okD(1) [OF R(1), of k] by (simp add: mb_ok_def)
    have "p \<notin> set A"
    proof
      assume "p \<in> set A"
      then obtain n where n: "n < 256" "A ! n = p" using len by (auto simp: in_set_conv_nth chunksInBucket_def)
      let ?j = "k * 256 + n"
      have "bucket_of ?j = k" "index_of ?j = n" using n(1) by (simp_all add: bucket_of_def index_of_def)
      then have "ms_addr E s ?j = Some p" using Some n(2) by (simp add: ms_addr_def)
      then have "?j = i" using a R(11) by blast
      then show False using \<open>bucket_of ?j = k\<close> k by simp
    qed
    then show ?thesis using Some by (simp add: mb_view_def) (metis (no_types, lifting) nth_list_update_neq)
  qed
  then show ?thesis using safe unfolding ms_safe_def mb_safe_def mb_saved_def by metis
qed

lemma call_safe:
  assumes env: "env_ok E" and names: "inj (getBucketFilename E)" and sim: "msim E r s t" and safe: "ms_safe E s"
    and call: "meta_call_ok x" "meta_call_puts x"
  shows "wp (files_call E x) (\<lambda>_. ms_safe E) s"
proof -
  have rel: "mrel E r s t" using sim by (simp add: msim_def)
  note ok = mrelD(1) [OF rel]
  show ?thesis
  proof (cases x)
    case (MRead i)
    show ?thesis unfolding MRead files_call.simps wp_bind wp_get by (rule wp_mono [OF wp_getChunk_safe [OF ok safe]]) simp
  next
    case (MWrite i m)
    obtain c t' where g: "wp (ms_getChunk E i) (\<lambda>p s'. \<exists>r'. r \<subseteq>\<^sub>m r' \<and> msim E r' s' t' \<and> r' c = Some p) s"
      by (rule sim_getChunk [OF sim])
    show ?thesis
      unfolding MWrite files_call.simps wp_bind
    proof (rule wp_mono [OF wp_conj [OF g wp_getChunk_safe [OF ok safe]]], clarify)
      fix p s' r'
      assume s': "msim E r' s' t'" "r' c = Some p" "ms_safe E s'" "ms_addr E s' i = Some p"
      let ?s = "s'\<lparr>ms_cells := (ms_cells s')[p := metachunk_bytes m]\<rparr>"
      have rel': "mrel E r' s' t'" using s'(1) by (simp add: msim_def)
      have ok': "ms_ok E ?s"
        using mrelD(1) [OF mrel_write [OF rel' s'(2)]] call(1) by (simp add: MWrite)
      have "wp (ms_putHashedChunk E i p) (\<lambda>_. ms_safe E) ?s"
      proof (rule wp_put_safe [OF env ok'])
        show "p < length (ms_cells ?s)" using mrelD(7) [OF rel' s'(2)] by simp
        show "i < 2 ^ 64" using call(1) by (simp add: MWrite)
        show "mb_safe E (mbk E ?s k) (ms_cells ?s) (ms_io ?s)" if "k \<noteq> bucket_of i" for k
          using write_safe [OF rel' s'(3,4) that] by (simp add: mbk_def)
      qed
      then show "wp (ms_write p (metachunk_bytes m)) (\<lambda>_. wp (ms_putHashedChunk E i p) (\<lambda>_. wp (returnS (metachunk_bytes m))
          (\<lambda>_. ms_safe E))) s'"
        by (simp add: ms_write_def)
    qed
  next
    case (MCreate i m)
    let ?s = "s\<lparr>ms_cells := ms_cells s @ [metachunk_bytes m]\<rparr>"
    have "metachunk_ok m" using call(1) by (simp add: MCreate)
    from mrelD(1) [OF mrel_new [OF rel this]] have ok': "ms_ok E ?s" .
    have "wp (ms_putHashedChunk E i (length (ms_cells s))) (\<lambda>_. ms_safe E) ?s"
    proof (rule wp_put_safe [OF env ok'])
      show "i < 2 ^ 64" using call(1) by (simp add: MCreate)
      show "mb_safe E (mbk E ?s k) (ms_cells ?s) (ms_io ?s)" for k
        using safe mb_saved_grow [OF ms_okD(1) [OF ok] heap_grows_refl] by (simp add: ms_safe_def mb_safe_def mbk_def)
    qed simp
    then show ?thesis
      by (simp add: MCreate ms_new_def ms_write_def wpx_def bindS_def modifyS_def returnS_def split: sum.splits)
  next
    case MStore
    show ?thesis unfolding MStore files_call.simps wp_bind wp_return
      by (rule wp_mono [OF wp_ms_storeAll [OF env names ok]]) (use safe in \<open>auto simp: ms_safe_def mb_safe_def\<close>)
  qed (use call(2) in simp_all)
qed

end
