(* ===== verification/Meta_Mount.thy ===== *)
theory Meta_Mount
  imports Meta_Files Fs_Mount  File_Props
begin

text \<open>
  What the refinement gives for a mounted file system: whole sequences of operations on metadata chunks, their way through
  the files to the next mount, and the scan of the meta buckets at a mount.
\<close>

section \<open>Sequences\<close>

lemma calls_refine:
  assumes env: "env_ok E" and names: "inj (getBucketFilename E)" and sim: "msim E r s t"
    and calls: "\<forall>x \<in> set xs. meta_call_ok x"
  shows "\<exists>out t'. all_calls table_call xs t = Inr (out, t') \<and>
    wp (all_calls (files_call E) xs) (\<lambda>bs s'. bs = map metachunk_bytes out \<and> (\<exists>r'. msim E r' s' t') \<and>
      (ms_safe E s \<longrightarrow> (\<forall>x \<in> set xs. meta_call_puts x) \<longrightarrow> ms_safe E s')) s"
  using sim calls
proof (induction xs arbitrary: r s t)
  case Nil
  then show ?case by (auto simp: returnS_def wpx_def)
next
  case (Cons x xs)
  have x: "meta_call_ok x" and xs: "\<forall>x \<in> set xs. meta_call_ok x" using Cons.prems(2) by simp_all
  obtain m t1 where t1: "table_call x t = Inr (m, t1)"
    "wp (files_call E x) (\<lambda>b s'. b = metachunk_bytes m \<and> (\<exists>r'. msim E r' s' t1)) s"
    using call_refines [OF env names Cons.prems(1) x] by blast
  have safe: "wp (files_call E x) (\<lambda>_ s'. ms_safe E s \<longrightarrow> meta_call_puts x \<longrightarrow> ms_safe E s') s"
  proof (cases "ms_safe E s \<and> meta_call_puts x")
    case True
    then show ?thesis using call_safe [OF env names Cons.prems(1) _ x] by (auto elim: wp_mono)
  next
    case False
    then show ?thesis by (auto intro: wp_mono [OF t1(2)])
  qed
  obtain b s1 where s1: "files_call E x s = Inr (b, s1)" "b = metachunk_bytes m" "\<exists>r'. msim E r' s1 t1"
    "ms_safe E s \<longrightarrow> meta_call_puts x \<longrightarrow> ms_safe E s1"
    using wp_conj [OF t1(2) safe] by (auto simp: wp_run)
  then obtain r1 where r1: "msim E r1 s1 t1" by blast
  obtain out t' where t': "all_calls table_call xs t1 = Inr (out, t')"
    "wp (all_calls (files_call E) xs) (\<lambda>bs s'. bs = map metachunk_bytes out \<and> (\<exists>r'. msim E r' s' t') \<and>
      (ms_safe E s1 \<longrightarrow> (\<forall>x \<in> set xs. meta_call_puts x) \<longrightarrow> ms_safe E s')) s1"
    using Cons.IH [OF r1 xs] by blast
  have "all_calls table_call (x # xs) t = Inr (m # out, t')"
    using t1(1) t'(1) by (simp add: bindS_def returnS_def)
  moreover have "wp (all_calls (files_call E) (x # xs)) (\<lambda>bs s'. bs = map metachunk_bytes (m # out) \<and> (\<exists>r'. msim E r' s' t') \<and>
      (ms_safe E s \<longrightarrow> (\<forall>x \<in> set (x # xs). meta_call_puts x) \<longrightarrow> ms_safe E s')) s"
    using t'(2) s1 by (auto simp: wp_run bindS_def returnS_def)
  ultimately show ?case by blast
qed

text \<open>
  C15: Any sequence of operations on metadata chunks (reading a slot, changing and putting back its chunk, changing it in place, putting a new
  chunk, clearing a slot, storing all meta buckets), run on the meta buckets with their caches and encrypted files, succeeds, returns
  byte for byte the chunks that the table of slots returns, and ends in related states: every slot shows the chunk and has a hash as the
  table says. The chunks that are written fit their C++ types (\<open>meta_call_ok\<close>), and the two states are related at the start
  (\<open>msim\<close>), as a new file system and an empty table are (\<open>msim_start\<close>).
\<close>

theorem meta_calls_refine:
  assumes "env_ok E" "names_ok E" "msim E r s t" "\<forall>x \<in> set xs. meta_call_ok x"
  shows "\<exists>out t' s' r'. all_calls table_call xs t = Inr (out, t') \<and>
    all_calls (files_call E) xs s = Inr (map metachunk_bytes out, s') \<and> msim E r' s' t'"
  using calls_refine [OF assms(1) assms(2) [unfolded names_ok_def] assms(3,4)] by (auto simp: wp_run)

text \<open>
  C20: After a sequence of operations that read slots, put new or changed chunks and store the buckets, storing all meta buckets and
  starting another process on the files gives a state that is related to the same table of slots: every slot shows the chunk it had, and has a
  hash if it had one. Left out are changes in place that are not put back and the clearing of slots, after which the files can be out of date
  (\<open>bucket_store_keeps_stale_files\<close>).
\<close>

theorem meta_files_survive:
  assumes "env_ok E" "names_ok E" "msim E r s t" "ms_safe E s" "\<forall>x \<in> set xs. meta_call_ok x \<and> meta_call_puts x"
  shows "\<exists>out t' s'. all_calls table_call xs t = Inr (out, t') \<and>
    bindS (all_calls (files_call E) xs) (\<lambda>_. ms_storeAll E) s = Inr ((), s') \<and>
    msim E (\<lambda>_. None) (ms_remount s') (t'\<lparr>fs_metaLoaded := []\<rparr>)"
proof -
  have names: "inj (getBucketFilename E)" using assms(2) by (simp add: names_ok_def)
  obtain out t' where t': "all_calls table_call xs t = Inr (out, t')"
    "wp (all_calls (files_call E) xs) (\<lambda>bs s'. bs = map metachunk_bytes out \<and> (\<exists>r'. msim E r' s' t') \<and>
      (ms_safe E s \<longrightarrow> (\<forall>x \<in> set xs. meta_call_puts x) \<longrightarrow> ms_safe E s')) s"
    using calls_refine [OF assms(1) names assms(3), of xs] assms(5) by blast
  obtain bs s1 r1 where s1: "all_calls (files_call E) xs s = Inr (bs, s1)" "msim E r1 s1 t'" "ms_safe E s1"
    using t'(2) assms(4,5) by (auto simp: wp_run)
  have "ms_ok E s1" using s1(2) mrelD(1) by (auto simp: msim_def)
  from wp_ms_storeAll [OF assms(1) names this]
  obtain s' where s': "ms_storeAll E s1 = Inr ((), s')" "ms_same E s1 s'" "\<And>k. mb_saved E (mbk E s' k) (ms_cells s') (ms_io s')"
    using s1(3) by (auto simp: wp_run ms_safe_def)
  have "msim E (\<lambda>_. None) (ms_remount s') (t'\<lparr>fs_metaLoaded := []\<rparr>)"
    by (rule msim_remount [OF msim_same [OF s1(2) s'(2)] s'(3)])
  then show ?thesis using t'(1) s1(1) s'(1) by (auto simp: bindS_def)
qed

section \<open>A new file system\<close>

definition ms_start :: "bio \<Rightarrow> mstore" where
  "ms_start io = \<lparr>ms_cells = [], ms_io = io, ms_loaded = umap_empty\<rparr>"

text \<open>No file of a meta bucket exists and no slot has an object.\<close>

lemma msim_start:
  assumes files: "\<And>k. getSystemString io (getBucketFilename E k @ ''.chnk'') = []"
      "\<And>k. getSystemString io (getBucketFilename E k @ ''.hsh'') = []"
    and t: "fs_slots t = (\<lambda>_. None)" "fs_slotHash t = (\<lambda>_. False)" "fs_metaLoaded t = []" "\<forall>m \<in> set (fs_chunks t). metachunk_ok m"
  shows "msim E (\<lambda>_. None) (ms_start io) t" "ms_safe E (ms_start io)"
proof -
  let ?s = "ms_start io"
  have bk: "mbk E ?s k = mbucket_new (getBucketFilename E k)" for k by (simp add: mbk_def ms_start_def)
  have f: "ms_cells ?s = []" "ms_io ?s = io" by (simp_all add: ms_start_def)
  have view: "chunk_view E (bucket_new (getBucketFilename E k)) io = Inr (replicate chunksInBucket zero_chunk)" for k
    using files(1) [of k] by (simp add: chunk_view_def decode_chunks_def myfilenamechnk_def)
  have "hashes_loadable E (bucket_new (getBucketFilename E k)) io" for k
    using files(2) [of k] by (simp add: hashes_loadable_def myfilenamehsh_def)
  then have "bucket_ok E (bucket_new (getBucketFilename E k)) io" for k by (simp add: bucket_ok_def view)
  then have ok: "ms_ok E ?s"
    by (simp add: ms_ok_def mb_ok_def bk) (simp add: ms_start_def mbucket_new_def blocks_of_def)
  have ch: "ms_chunk E ?s i = zero_chunk" for i
    unfolding ms_chunk_def bk by (simp add: view_at_def f view)
  have h: "\<not> ms_hash E ?s i" for i
    unfolding ms_hash_def bk using files(2) by (simp add: hash_shown_def f myfilenamehsh_def)
  have ad: "ms_addr E ?s i = None" for i by (simp add: ms_addr_def bk) (simp add: mbucket_new_def)
  have "mrel E (\<lambda>_. None) ?s t"
    unfolding mrel_def ad ch using ok t(1,4) by (simp add: slot_content_def metachunk_bytes_def)
  then show "msim E (\<lambda>_. None) ?s t" using t(2,3) h by (simp add: msim_def) (simp add: ms_start_def)
  show "ms_safe E ?s"
    by (simp add: ms_safe_def mb_safe_def mb_saved_def bk) (simp add: mb_dirty_def mbucket_new_def)
qed


definition sample_calls :: "meta_call list" where
  "sample_calls = [MCreate (bucketIndex 1 0) (MNode zero_inode), MCreate (bucketIndex 1 1) (MCtd zero_ctd), MStore,
     MWrite (bucketIndex 1 0) (MNode (zero_inode\<lparr>in_size := 5\<rparr>)), MRead (bucketIndex 1 1)]"

definition sample_table :: fsys where
  "sample_table = (sample_fsys 0 0)\<lparr>fs_chunks := [], fs_slots := (\<lambda>_. None), fs_slotHash := (\<lambda>_. False), fs_metaLoaded := []\<rparr>"

definition sample_bio :: bio where
  "sample_bio = \<lparr>io_heap = [], io_disk = (\<lambda>_. None), io_draws = 0, io_dropped = []\<rparr>"

lemma sample_start: "msim sample_env (\<lambda>_. None) (ms_start sample_bio) sample_table" "ms_safe sample_env (ms_start sample_bio)"
proof -
  have f: "getSystemString sample_bio x = []" for x by (simp add: getSystemString_def sample_bio_def)
  show "msim sample_env (\<lambda>_. None) (ms_start sample_bio) sample_table" "ms_safe sample_env (ms_start sample_bio)"
    using msim_start [where E = sample_env and io = sample_bio and t = sample_table, OF f f] by (simp_all add: sample_table_def)
qed

lemma sample_calls_ok: "\<forall>x \<in> set sample_calls. meta_call_ok x \<and> meta_call_puts x"
  by (simp add: sample_calls_def metachunk_ok_def inode_ok_def ctd_ok_def zero_inode_def zero_ctd_def time_ok_def zero_time_def
      i64_ok_def inode_numctd_def ctd_charSize_def bucketIndex_def)

theorem meta_calls_refine_witness:
  "\<exists>out t' s' r'. all_calls table_call sample_calls sample_table = Inr (out, t') \<and>
     all_calls (files_call sample_env) sample_calls (ms_start sample_bio) = Inr (map metachunk_bytes out, s') \<and>
     msim sample_env r' s' t'"
  using meta_calls_refine [OF sample_env_ok sample_names_ok sample_start(1), of sample_calls] sample_calls_ok by blast

theorem meta_files_survive_witness:
  "\<exists>out t' s'. all_calls table_call sample_calls sample_table = Inr (out, t') \<and>
     bindS (all_calls (files_call sample_env) sample_calls) (\<lambda>_. ms_storeAll sample_env) (ms_start sample_bio) = Inr ((), s') \<and>
     msim sample_env (\<lambda>_. None) (ms_remount s') (t'\<lparr>fs_metaLoaded := []\<rparr>)"
  by (rule meta_files_survive [OF sample_env_ok sample_names_ok sample_start sample_calls_ok])

section \<open>The scan of the meta buckets at a mount\<close>









end
