(* ===== verification/Journal_Torn.thy ===== *)
theory Journal_Torn
  imports Journal_Props Fs_Mount File_Props
begin

text \<open>
  A journal file that ends in the middle of a record
  (\<^verbatim>\<open>journal::tryReplay\<close> in \<^verbatim>\<open>src/src/modules/filesystem/journal.cpp\<close>), as a crash during
  \<^verbatim>\<open>writeEntry\<close> leaves it.
\<close>














end
