(* ===== verification/Spec2Isabelle.thy ===== *)
theory Spec2Isabelle
  imports Prelude Mode Chunk Containers Effect Bucket Bucket_Store Accounting_Pool Storage
    Storage_Inv Store_Contract Store_Init Store_Props Str Lexer Json Json_Parse Json_Props Fs_State
    Inode_Layout Fs_Info File_Attr File_Data File_Dir File_Write File_Writer File_Reader File_Props Fs_Ops
    Mutex Key Protocol Protocol_Props Journal Journal_Props Fs_Mount Fuse Fs_Access Meta_Text
    File_Swap File_Rest Dir_Content Json_Ops Services Host Startup Startup_Props Fuse_Table Fuse_Props
    Json_Round Acc_Threads Acc_Oneway Acc_Race File_Threads File_Conc File_Race Hash_Flags Dedup_Race
    Hash_Race Atomics Lock_File Build_String Meta_Buckets Meta_Sim Meta_Refine Meta_Files Meta_Mount Journal_Torn
begin

text \<open>
  cloudCryptFS is an encrypting, deduplicating file system. FUSE calls the callbacks of
  \<^verbatim>\<open>src/src/fuse_main.cpp\<close>; they call the class \<^verbatim>\<open>fs\<close>, which finds the \<^verbatim>\<open>file\<close> of a path, checks
  permissions, notes the change in the \<^verbatim>\<open>journal\<close> and changes the file. A file is an \<^verbatim>\<open>inode\<close>, a
  metadata chunk with continuation chunks behind it for its list of hashes and its metadata text (for a
  directory: its entries, as JSON). Its content is a list of hashes; a hash stands for a chunk of 4096
  bytes and is shared by every file that holds the same chunk. \<^verbatim>\<open>storage\<close> keeps the hashes by their
  SHA-256 sum in buckets of 256 slots, \<^verbatim>\<open>bucketaccounting\<close> hands out the free slots, and a bucket is
  stored as two encrypted files. The \<^verbatim>\<open>protocol\<close> does the encryption and makes the file names from keys.

  \<^bold>\<open>How the code is modelled.\<close> A function that changes state is a value of type \<open>('s, 'a) op\<close> of
  theory \<open>Effect\<close>: from a state to a result or an error, each with the state reached. The errors are a
  failed \<^verbatim>\<open>_ASSERT\<close> (which ends the program), an exception, undefined behaviour, and a loop that ran out
  of fuel. Components nest: \<open>zoomS\<close> runs an operation of a part on the whole. Machine integers are words or
  numbers with the wrap-around written out (theory \<open>Prelude\<close>); bytes are \<open>8 word\<close>, strings are lists of
  characters, maps keep the order that the code can see. Theorems about operations use the total-correctness
  predicate \<open>wp m Q s\<close>: the operation returns, and its result and state satisfy \<open>Q\<close>.

  \<^bold>\<open>The theories.\<close>
  \<^item> \<open>Prelude\<close>, \<open>Effect\<close>: generic lemmas; operations with state and errors and their rules.
  \<^item> \<open>Mode\<close> (\<^verbatim>\<open>mode.h\<close>, \<^verbatim>\<open>error.h\<close>, \<^verbatim>\<open>context.h\<close>, \<^verbatim>\<open>types.h\<close>), \<open>Containers\<close>
    (\<^verbatim>\<open>atomic_shared_ptr_list.h\<close>, \<^verbatim>\<open>protected_unordered_map.h\<close>), \<open>Str\<close> (\<^verbatim>\<open>str.cpp\<close>,
    \<^verbatim>\<open>to_string.h\<close>): the small parts.
  \<^item> \<open>Mutex\<close> (\<^verbatim>\<open>shared_recursive_mutex.cpp\<close>): a concurrent model. The functions are sequences of
    atomic accesses of any number of threads; the invariant \<open>mutex_inv\<close> gives mutual exclusion, and the
    liveness theorems tell when \<^verbatim>\<open>lock\<close> succeeds and when it never does.
  \<^item> \<open>Atomics\<close> (\<^verbatim>\<open>atomic_shared_ptr.h\<close>, \<^verbatim>\<open>hash.cpp\<close>): atomic cells and the loops over the flags of a
    hash, of which no change is lost; \<open>Lock_File\<close> (\<^verbatim>\<open>storage.cpp\<close>): what the lock file excludes and what it
    does not; \<open>Build_String\<close> (\<^verbatim>\<open>buildstring.h\<close>, \<^verbatim>\<open>switchhash.h\<close>): texts from pieces and the string hash.
  \<^item> \<open>Chunk\<close>, \<open>Bucket\<close>, \<open>Bucket_Store\<close> (\<^verbatim>\<open>chunk.cpp\<close>, \<^verbatim>\<open>hash.cpp\<close>, \<^verbatim>\<open>bucket.cpp\<close>): chunks, the packed
    slot numbers, hashes with flags and reference counts, buckets with lazy loading; storing and loading a
    bucket is a round trip.
  \<^item> \<open>Accounting\<close>, \<open>Accounting_Pool\<close> (\<^verbatim>\<open>bucketaccounting.cpp\<close>): the node table with its three linked
    stacks, and its refinement to a pool of free slots from which fetches are always fresh. \<open>Acc_Threads\<close> has
    its calls as accesses of concurrent threads, which run alone do what the sequential calls do (a check of the two models
    against each other, not a property of the code); \<open>Acc_Oneway\<close>
    shows what every interleaving keeps while all threads fetch or all post, \<open>Acc_Race\<close> two runs of mixed
    calls that hand out a slot twice.
  \<^item> \<open>Storage\<close>, \<open>Storage_Inv\<close>, \<open>Store_Contract\<close>, \<open>Store_Init\<close>, \<open>Store_Props\<close> (\<^verbatim>\<open>storage.cpp\<close>,
    \<^verbatim>\<open>hash.cpp\<close>): the index of hashes, deduplication, copy on write. The invariant \<open>stor_inv\<close> says that
    the index, the loaded buckets and the pool agree; the contract of the operations is stated and used as
    a locale.
  \<^item> \<open>Lexer\<close>, \<open>Json\<close>, \<open>Json_Ops\<close>, \<open>Json_Parse\<close>, \<open>Json_Props\<close> (\<^verbatim>\<open>lexer.cpp\<close>, \<^verbatim>\<open>JSON.cpp\<close>): the text form of
    directories and metadata, with the round trip of directories and the names and numbers that break it;
    \<open>Json_Ops\<close> has conversion, copying and merging; \<open>Json_Round\<close> proves that nested objects are read back from
    their text, indented or not, and that an empty object below a name breaks it.
  \<^item> \<open>Fs_State\<close>, \<open>Inode_Layout\<close> (\<^verbatim>\<open>inode.cpp\<close>, \<^verbatim>\<open>fs.h\<close>, \<^verbatim>\<open>fs.cpp\<close>): the state of the file system,
    metadata chunks and their bytes. The code casts pointers, so that it has a layout and no decoder; the decoder of
    \<open>Inode_Layout\<close> only serves the proof that the layout is injective.
  \<^item> \<open>Meta_Buckets\<close>, \<open>Meta_Sim\<close>, \<open>Meta_Refine\<close>, \<open>Meta_Files\<close>, \<open>Meta_Mount\<close> (\<^verbatim>\<open>bucket.cpp\<close>, \<^verbatim>\<open>storage.cpp\<close>): the
    meta buckets with lazy loading, chunks that are shared with the file system and changed in place, and two encrypted files
    each. The file system model has a table of slots in their place (\<open>fs_slots\<close>, \<open>fs_chunks\<close>); the simulation \<open>msim\<close> relates the two, and the
    theorems say that sequences of operations give the same chunks, that what was stored is there for the next process, and that the scan at
    a mount finds the same free slots.
  \<^item> \<open>Fs_Info\<close>, \<open>File_Attr\<close>, \<open>File_Data\<close>, \<open>File_Dir\<close> (\<^verbatim>\<open>file.cpp\<close>, \<^verbatim>\<open>fs.cpp\<close>): special files; attributes
    and access checks; content; directories and attribute changes. \<open>File_Write\<close>, \<open>File_Writer\<close>, \<open>File_Reader\<close>
    and \<open>File_Props\<close> prove reads and writes against the content as a list of bytes.
  \<^item> \<open>File_Threads\<close>, \<open>File_Conc\<close>, \<open>File_Race\<close>, \<open>Hash_Flags\<close>, \<open>Dedup_Race\<close>, \<open>Hash_Race\<close> (\<^verbatim>\<open>file.cpp\<close>,
    \<^verbatim>\<open>storage.cpp\<close>, \<^verbatim>\<open>atomic_shared_ptr_list.h\<close>): aligned writes of concurrent threads, which share the mutex of their file, as
    loads and stores of single elements and calls of the storage model; \<^verbatim>\<open>newHash\<close> is two steps, the lookup and what
    follows it. \<open>File_Conc\<close> proves by an invariant over all
    interleavings that writes to disjoint parts compose while no hash they overwrite loses its last reference and no two of
    them store the same new chunk; \<open>File_Race\<close>, \<open>Dedup_Race\<close> and \<open>Hash_Race\<close> show what happens otherwise: a shared hash is
    dropped, the program aborts, or a chunk gets two hashes of which one cannot be released.
  \<^item> \<open>Fs_Ops\<close> (\<^verbatim>\<open>fs.cpp\<close>): paths, lookup, handles, and making, removing, renaming and linking objects.
    \<open>Fs_Access\<close> states the rule of the access checks over the directories of a path, that the lookup of a
    path ends, and what open handles do; \<open>Meta_Text\<close> proves that the metadata text of an inode is read back
    from its chain of continuation chunks.
    \<open>File_Swap\<close>, \<open>File_Rest\<close> and \<open>Dir_Content\<close> replace the content of a file, store and reload its list
    of hashes, and show that adding, removing and looking up the entries of a directory refine a finite
    map from names to inode numbers (\<open>dir_at\<close>), for directories that fit into their inode.
  \<^item> \<open>Key\<close>, \<open>Protocol\<close>, \<open>Protocol_Props\<close> (\<^verbatim>\<open>key.cpp\<close>, \<^verbatim>\<open>sha256.cpp\<close>, \<^verbatim>\<open>protocol.cpp\<close>): keys and their
    masking, sums, configuration, encryption; the protocol satisfies the contract of the storage layer.
  \<^item> \<open>Journal\<close>, \<open>Journal_Props\<close> (\<^verbatim>\<open>journal.cpp\<close>): records, encrypted files, reading and replay; \<open>Journal_Torn\<close>: what a file
    that was cut off does to the replay.
  \<^item> \<open>Fs_Mount\<close> (\<^verbatim>\<open>fs.cpp\<close>, \<^verbatim>\<open>storage.cpp\<close>): creating and loading a file system, replay, storing the
    metadata, migration, unmounting.
  \<^item> \<open>Fuse\<close>, \<open>Fuse_Table\<close>, \<open>Fuse_Props\<close> (\<^verbatim>\<open>fuse_main.cpp\<close>): the callbacks, the table of options and the
    table of callbacks, a session as a sequence of requests. A calculus of operations that keep the handles and
    caches (\<open>keeps_tables\<close>) carries the contract of reads and writes to the requests.
  \<^item> \<open>Services\<close> (\<^verbatim>\<open>serviceHandler.cpp\<close>), \<open>Host\<close> (\<^verbatim>\<open>files.cpp\<close>, \<^verbatim>\<open>console.cpp\<close>, \<^verbatim>\<open>endian.h\<close>): the services
    with their automatic pointers and the invariant \<open>services_ok\<close>, where what the destructors of derived classes do is a
    parameter (\<open>dtors\<close>); the files, console and byte order of the host.
  \<^item> \<open>Startup\<close>, \<open>Startup_Props\<close> (\<^verbatim>\<open>main.cpp\<close>): \<^verbatim>\<open>main\<close> from its options to the mounted file system, with
    what a run that makes a file system does to the configuration and the key file.

  \<^bold>\<open>Bounds and fuel.\<close> Loops over data are structural. The stacks of the accounting are walked with the
  size of the node table as fuel, and the pool invariant shows that it is enough. The chains of metadata
  chunks have the number of metadata chunks as fuel; a chain that is longer is cyclic. The lookup of a
  path has the length of the path as fuel, since the parent path is shorter. Storing the lists of buckets
  (\<^verbatim>\<open>storeMetadata\<close>) repeats until no bucket is added; its number of rounds is a parameter, as is
  the number of rounds of \<^verbatim>\<open>stopAllServices\<close>, whose loop need not end.

  \<^bold>\<open>Parameters.\<close> libsodium is the record \<open>sodium\<close> with the laws \<open>sodium_ok\<close> (lengths, decryption
  inverts encryption, base64 decoding inverts encoding); floating point numbers in JSON are the record
  \<open>fpu\<close>; the clock and the environment of the storage layer are in \<open>world\<close>. Each has an instance for which
  the hypotheses hold.

  \<^bold>\<open>Not modelled.\<close> Interleavings of threads outside \<open>Mutex\<close>, \<open>Acc_Threads\<close>, \<open>Atomics\<close> and \<open>File_Threads\<close>: elsewhere one
  operation runs at a time, and in \<open>File_Threads\<close> a call of a hash is one step, its \<^verbatim>\<open>write\<close> two; the
  refinement of the meta buckets covers sequences of operations on chunks and not the mounting operations of \<open>Fs_Mount\<close> as wholes, so that there
  a mount keeps the table of slots; the making of host directories; what libfuse does with the command line and the kernel's
  requests; error messages and logs; the self-test of the JSON values; the test driver under \<^verbatim>\<open>src/fstest\<close>.
\<close>

end
